(* ===== verification/Prelude.thy ===== *)
theory Prelude
  imports
    Main
    "HOL-Library.AList"
    "HOL-Library.List_Lexorder"
    "HOL-Library.Char_ord"
    "HOL-Library.Product_Lexorder"
begin

text \<open>
  Shared vocabulary of the development: results of fallible operations, the collections of
  rewrite rules the component theories add to, tables as lists of rows with the SQL statements
  the controller store issues against them, and JavaScript objects as association lists.
\<close>

named_theorems op_defs \<open>definitions of the operations of a component\<close>
named_theorems row_defs \<open>definitions of row predicates and row updates\<close>

section \<open>Results\<close>

text \<open>\<open>Inl\<close> carries the thrown error, \<open>Inr\<close> the returned value.\<close>

type_synonym ('e, 'a) result = "'e + 'a"

text \<open>An operation on a mutable store: the outcome and the store it leaves behind.\<close>

type_synonym ('e, 's, 'a) op = "'s \<Rightarrow> ('e, 'a) result \<times> 's"

text \<open>A transaction that throws leaves the store as it found it (\<open>ROLLBACK\<close>).\<close>

definition transact :: "('e, 's, 'a) op \<Rightarrow> ('e, 's, 'a) op" where
  "transact f s = (case f s of (Inl e, _) \<Rightarrow> (Inl e, s) | (Inr a, s') \<Rightarrow> (Inr a, s'))"

lemma transact_InrD: "transact f s = (Inr a, s') \<Longrightarrow> f s = (Inr a, s')"
  by (auto simp: transact_def split: prod.splits sum.splits)

lemma transact_Inl_state: "transact f s = (Inl e, s') \<Longrightarrow> s' = s"
  by (auto simp: transact_def split: prod.splits sum.splits)

fun find_result :: "('a \<Rightarrow> bool) \<Rightarrow> 'a list \<Rightarrow> 'a option" where
  "find_result p [] = None"
| "find_result p (x # xs) = (if p x then Some x else find_result p xs)"

text \<open>The checks at the head of an operation, in source order: the first that fails throws.\<close>

fun first_failure :: "(bool \<times> 'e) list \<Rightarrow> 'e option" where
  "first_failure [] = None"
| "first_failure ((ok, e) # checks) = (if ok then first_failure checks else Some e)"

lemma first_failure_None: "first_failure checks = None \<longleftrightarrow> list_all fst checks"
  by (induction checks rule: first_failure.induct) auto

text \<open>The status of a workflow run, read by the engine and by the child scheduler.\<close>

datatype run_status = StRunning | StWaiting | StCompleted | StFailed | StTimedOut | StCancelled

section \<open>Tables\<close>

text \<open>
  A table is the list of its rows in insertion order.  \<open>sql_get\<close> is a \<open>SELECT\<close> of at most one
  row, \<open>sql_all\<close> a \<open>SELECT ... WHERE ... ORDER BY\<close>, \<open>sql_update\<close> an \<open>UPDATE ... WHERE\<close>,
  \<open>sql_delete\<close> a \<open>DELETE ... WHERE\<close>, and \<open>sql_changes\<close> the number of rows either touches.
  Rows that tie in an \<open>ORDER BY\<close> keep their insertion order.
\<close>

definition sql_get :: "('r \<Rightarrow> bool) \<Rightarrow> 'r list \<Rightarrow> 'r option" where
  "sql_get p rs = find_result p rs"

definition sql_all :: "('r \<Rightarrow> bool) \<Rightarrow> ('r \<Rightarrow> 'k::linorder) \<Rightarrow> 'r list \<Rightarrow> 'r list" where
  "sql_all p k rs = sort_key k (filter p rs)"

definition sql_first :: "('r \<Rightarrow> bool) \<Rightarrow> ('r \<Rightarrow> 'k::linorder) \<Rightarrow> 'r list \<Rightarrow> 'r option" where
  "sql_first p k rs = (case sql_all p k rs of [] \<Rightarrow> None | r # _ \<Rightarrow> Some r)"

definition sql_update :: "('r \<Rightarrow> bool) \<Rightarrow> ('r \<Rightarrow> 'r) \<Rightarrow> 'r list \<Rightarrow> 'r list" where
  "sql_update p f rs = map (\<lambda>r. if p r then f r else r) rs"

definition sql_delete :: "('r \<Rightarrow> bool) \<Rightarrow> 'r list \<Rightarrow> 'r list" where
  "sql_delete p rs = filter (\<lambda>r. \<not> p r) rs"

definition sql_changes :: "('r \<Rightarrow> bool) \<Rightarrow> 'r list \<Rightarrow> nat" where
  "sql_changes p rs = length (filter p rs)"

lemma find_result_Some: "find_result p xs = Some x \<Longrightarrow> x \<in> set xs \<and> p x"
  by (induction xs) (auto split: if_splits)

lemma find_result_None: "find_result p xs = None \<longleftrightarrow> (\<forall>x \<in> set xs. \<not> p x)"
  by (induction xs) auto

lemma sql_get_Some: "sql_get p rs = Some r \<Longrightarrow> r \<in> set rs \<and> p r"
  by (simp add: sql_get_def find_result_Some)

lemma sql_get_None: "sql_get p rs = None \<longleftrightarrow> (\<forall>r \<in> set rs. \<not> p r)"
  by (simp add: sql_get_def find_result_None)

lemma sql_get_append:
  "sql_get p (rs @ qs) = (case sql_get p rs of None \<Rightarrow> sql_get p qs | Some r \<Rightarrow> Some r)"
  by (induction rs) (auto simp: sql_get_def)

lemma set_sql_all [simp]: "set (sql_all p k rs) = {r \<in> set rs. p r}"
  by (auto simp: sql_all_def)

lemma sorted_sql_all: "sorted (map k (sql_all p k rs))"
  by (simp add: sql_all_def)

lemma sql_first_Some:
  assumes "sql_first p k rs = Some r"
  shows "r \<in> set rs" and "p r" and "\<And>q. q \<in> set rs \<Longrightarrow> p q \<Longrightarrow> k r \<le> k q"
proof -
  from assms obtain qs where eq: "sql_all p k rs = r # qs"
    by (auto simp: sql_first_def split: list.splits)
  have set_eq: "{r \<in> set rs. p r} = insert r (set qs)"
    using set_sql_all[of p k rs] eq by simp
  have sorted: "sorted (map k (r # qs))"
    using sorted_sql_all[of k p rs] eq by simp
  show "r \<in> set rs" and "p r" using set_eq by auto
  fix q assume "q \<in> set rs" "p q"
  then have "q \<in> insert r (set qs)" using set_eq by blast
  then show "k r \<le> k q" using sorted by auto
qed

lemma sql_first_None: "sql_first p k rs = None \<longleftrightarrow> (\<forall>r \<in> set rs. \<not> p r)"
proof -
  have "sql_first p k rs = None \<longleftrightarrow> sql_all p k rs = []"
    by (simp add: sql_first_def split: list.splits)
  also have "\<dots> \<longleftrightarrow> set (sql_all p k rs) = {}" by (simp only: set_empty)
  finally show ?thesis by auto
qed

lemma sql_update_length [simp]: "length (sql_update p f rs) = length rs"
  by (simp add: sql_update_def)

lemma in_sql_update:
  "r \<in> set (sql_update p f rs) \<longleftrightarrow> (\<exists>q \<in> set rs. r = (if p q then f q else q))"
  by (auto simp: sql_update_def)

lemma sql_update_frame: "(\<And>r. r \<in> set rs \<Longrightarrow> p r \<Longrightarrow> g (f r) = g r) \<Longrightarrow>
    map g (sql_update p f rs) = map g rs"
  by (auto simp: sql_update_def)

lemma sql_update_none: "sql_changes p rs = 0 \<Longrightarrow> sql_update p f rs = rs"
  by (auto simp: sql_changes_def sql_update_def filter_empty_conv map_idI)

lemma sql_changes_0: "sql_changes p rs = 0 \<longleftrightarrow> (\<forall>r \<in> set rs. \<not> p r)"
  by (simp add: sql_changes_def filter_empty_conv)

lemma sql_changes_pos: "r \<in> set rs \<Longrightarrow> p r \<Longrightarrow> 0 < sql_changes p rs"
  using sql_changes_0[of p rs] by auto

text \<open>A primary key: at most one row has each key, so a keyed statement touches at most one.\<close>

definition keyed :: "('r \<Rightarrow> 'k) \<Rightarrow> 'r list \<Rightarrow> bool" where
  "keyed k rs \<longleftrightarrow> distinct (map k rs)"

lemma keyed_Nil [simp]: "keyed k []"
  by (simp add: keyed_def)

lemma keyed_append: "keyed k (rs @ [r]) \<longleftrightarrow> keyed k rs \<and> k r \<notin> k ` set rs"
  by (auto simp: keyed_def)

lemma keyed_unique: "keyed k rs \<Longrightarrow> r \<in> set rs \<Longrightarrow> q \<in> set rs \<Longrightarrow> k r = k q \<Longrightarrow> r = q"
  by (auto simp: keyed_def distinct_map inj_on_def)

lemma keyed_sql_update: "keyed k rs \<Longrightarrow> (\<And>r. k (f r) = k r) \<Longrightarrow> keyed k (sql_update p f rs)"
proof -
  assume "keyed k rs" and frame: "\<And>r. k (f r) = k r"
  moreover have "map k (sql_update p f rs) = map k rs"
    by (rule sql_update_frame) (simp add: frame)
  ultimately show ?thesis by (simp add: keyed_def)
qed

lemma keyed_sql_delete: "keyed k rs \<Longrightarrow> keyed k (sql_delete p rs)"
  by (induction rs) (auto simp: keyed_def sql_delete_def)

lemma keyed_filter: "keyed k rs \<Longrightarrow> keyed k (filter p rs)"
  by (induction rs) (auto simp: keyed_def)

lemma sql_get_keyed:
  "keyed k rs \<Longrightarrow> r \<in> set rs \<Longrightarrow> sql_get (\<lambda>q. k q = k r) rs = Some r"
proof (induction rs)
  case Nil
  then show ?case by simp
next
  case (Cons a rs)
  then show ?case by (auto simp: sql_get_def keyed_def)
qed

lemma sql_get_sql_update:
  "(\<And>r. p r \<Longrightarrow> sel (f r) = sel r) \<Longrightarrow>
    sql_get sel (sql_update p f rs) = map_option (\<lambda>r. if p r then f r else r) (sql_get sel rs)"
  by (induction rs) (simp_all add: sql_get_def sql_update_def)

lemma sql_get_sql_delete:
  "sql_get sel rs = Some r \<Longrightarrow> \<not> p r \<Longrightarrow> sql_get sel (sql_delete p rs) = Some r"
  by (induction rs) (auto simp: sql_get_def sql_delete_def split: if_splits)

lemma sql_changes_keyed:
  "keyed k rs \<Longrightarrow> (\<And>r. p r \<Longrightarrow> k r = key) \<Longrightarrow> sql_changes p rs \<le> 1"
proof (induction rs)
  case Nil
  then show ?case by (simp add: sql_changes_def)
next
  case (Cons a rs)
  show ?case
  proof (cases "p a")
    case True
    have "filter p rs = []"
    proof -
      have "\<forall>r \<in> set rs. \<not> p r"
        using Cons.prems True by (auto simp: keyed_def image_iff)
      then show ?thesis by (simp add: filter_empty_conv)
    qed
    then show ?thesis using True by (simp add: sql_changes_def)
  next
    case False
    then show ?thesis
      using Cons by (simp add: sql_changes_def keyed_def)
  qed
qed

lemma sql_changes_eq_1:
  "keyed k rs \<Longrightarrow> (\<And>r. p r \<Longrightarrow> k r = key) \<Longrightarrow> sql_changes p rs = 1 \<longleftrightarrow> (\<exists>r \<in> set rs. p r)"
proof -
  assume k: "keyed k rs" and p: "\<And>r. p r \<Longrightarrow> k r = key"
  have "sql_changes p rs \<le> 1" by (rule sql_changes_keyed[OF k p])
  moreover have "sql_changes p rs = 0 \<longleftrightarrow> (\<forall>r \<in> set rs. \<not> p r)"
    by (rule sql_changes_0)
  ultimately show ?thesis by (auto simp: le_Suc_eq)
qed

lemma sql_get_sql_update_keyed:
  assumes "keyed k rs" and "r \<in> set rs" and "k r = key" and "\<And>r. k (f r) = k r"
  shows "sql_get (\<lambda>q. k q = key) (sql_update p f rs) = Some (if p r then f r else r)"
proof -
  have "keyed k (sql_update p f rs)" using assms by (simp add: keyed_sql_update)
  moreover have "(if p r then f r else r) \<in> set (sql_update p f rs)"
    using assms(2) by (auto simp: in_sql_update)
  moreover have "k (if p r then f r else r) = key" using assms by simp
  ultimately show ?thesis
    using sql_get_keyed[of k "sql_update p f rs" "if p r then f r else r"] by simp
qed

section \<open>JavaScript objects\<close>

text \<open>
  A plain object is the association list of its own properties in property order; assigning
  to a key keeps the position of an existing property and appends a new one.
\<close>

type_synonym 'v obj = "(string \<times> 'v) list"

definition obj_keys :: "'v obj \<Rightarrow> string list" where
  "obj_keys ob = map fst ob"

definition has_own :: "'v obj \<Rightarrow> string \<Rightarrow> bool" where
  "has_own ob k \<longleftrightarrow> k \<in> set (obj_keys ob)"

definition obj_get :: "'v obj \<Rightarrow> string \<Rightarrow> 'v option" where
  "obj_get ob k = map_of ob k"

definition obj_put :: "string \<Rightarrow> 'v \<Rightarrow> 'v obj \<Rightarrow> 'v obj" where
  "obj_put k v ob = AList.update k v ob"

definition obj_delete :: "string \<Rightarrow> 'v obj \<Rightarrow> 'v obj" where
  "obj_delete k ob = AList.delete k ob"

lemma obj_get_put [simp]: "obj_get (obj_put k v ob) k' = (if k' = k then Some v else obj_get ob k')"
  by (simp add: obj_get_def obj_put_def update_conv')

lemma obj_get_delete [simp]: "obj_get (obj_delete k ob) k' = (if k' = k then None else obj_get ob k')"
  by (simp add: obj_get_def obj_delete_def delete_conv')

lemma obj_get_Nil [simp]: "obj_get [] k = None"
  by (simp add: obj_get_def)

lemma has_own_iff: "has_own ob k \<longleftrightarrow> obj_get ob k \<noteq> None"
  by (force simp: has_own_def obj_keys_def obj_get_def map_of_eq_None_iff)

section \<open>Lists\<close>

lemma filter_length_Suc_elem: "x \<in> set xs \<Longrightarrow> p x \<Longrightarrow> 0 < length (filter p xs)"
  by (metis filter_empty_conv length_greater_0_conv)

lemma list_all_take: "list_all p xs \<Longrightarrow> list_all p (take n xs)"
  by (simp add: list_all_iff) (meson in_set_takeD)

lemma last_snoc_nth: "(xs @ [x]) ! length xs = x"
  by simp

end
