(* ===== verification/JsTime.thy ===== *)
theory JsTime
  imports JsString "HOL-Library.Monad_Syntax"
begin

text \<open>
  Times: \<open>Date.parse\<close> on the ECMAScript date-time string format and \<open>Date.prototype.toISOString\<close>.
  Other texts, whose reading the language leaves to the implementation, count as unparsable; a
  date-time without offset is read with the local time zone taken as UTC.
\<close>

section \<open>Days and years\<close>

text \<open>ECMAScript's \<open>DayFromYear\<close>: days from the epoch to the first day of a year.\<close>

definition day_from_year :: "int \<Rightarrow> int" where
  "day_from_year y =
     365 * (y - 1970) + (y - 1969) div 4 - (y - 1901) div 100 + (y - 1601) div 400"

definition leap_year :: "int \<Rightarrow> bool" where
  "leap_year y \<longleftrightarrow> (y mod 4 = 0 \<and> y mod 100 \<noteq> 0) \<or> y mod 400 = 0"

lemma div_succ: "0 < (k::int) \<Longrightarrow> (a + 1) div k = a div k + (if (a + 1) mod k = 0 then 1 else 0)"
proof -
  assume k: "0 < k"
  define r where "r = a mod k"
  define q where "q = a div k"
  have a: "a = k * q + r" and r: "0 \<le> r" "r < k"
    using k by (simp_all add: q_def r_def)
  show ?thesis
  proof (cases "r + 1 = k")
    case True
    then have "a + 1 = k * (q + 1)" using a by (simp add: algebra_simps)
    then have "(a + 1) div k = q + 1" and "(a + 1) mod k = 0" using k by simp_all
    then show ?thesis using q_def by simp
  next
    case False
    then have lt: "r + 1 < k" using r by simp
    have eq: "a + 1 = k * q + (r + 1)" using a by simp
    have "(a + 1) div k = q" using int_div_pos_eq[OF eq] r lt by simp
    moreover have "(a + 1) mod k = r + 1" using int_mod_pos_eq[OF eq] r lt by simp
    ultimately show ?thesis using q_def r by simp
  qed
qed

lemma day_from_year_Suc:
  "day_from_year (y + 1) = day_from_year y + (if leap_year y then 366 else 365)"
proof -
  have a: "(y + 1 - 1969) div 4 = (y - 1969) div 4 + (if y mod 4 = 0 then 1 else 0)"
    by presburger
  have b: "(y + 1 - 1901) div 100 = (y - 1901) div 100 + (if y mod 100 = 0 then 1 else 0)"
  proof -
    have "y = (y - 1901 + 1) + 19 * 100" by simp
    then have "(y - 1901 + 1) mod 100 = 0 \<longleftrightarrow> y mod 100 = 0" by (metis mod_mult_self1)
    moreover have "y + 1 - 1901 = y - 1901 + 1" by simp
    ultimately show ?thesis using div_succ[of 100 "y - 1901"] by simp
  qed
  have c: "(y + 1 - 1601) div 400 = (y - 1601) div 400 + (if y mod 400 = 0 then 1 else 0)"
  proof -
    have "y = (y - 1601 + 1) + 4 * 400" by simp
    then have "(y - 1601 + 1) mod 400 = 0 \<longleftrightarrow> y mod 400 = 0" by (metis mod_mult_self1)
    moreover have "y + 1 - 1601 = y - 1601 + 1" by simp
    ultimately show ?thesis using div_succ[of 400 "y - 1601"] by simp
  qed
  have d: "y mod 400 = 0 \<Longrightarrow> y mod 100 = 0"
    using mod_mod_cancel[of 100 400 y] by simp
  have e: "y mod 100 = 0 \<Longrightarrow> y mod 4 = 0"
    using mod_mod_cancel[of 4 100 y] by simp
  show ?thesis
    unfolding day_from_year_def a b c leap_year_def using d e by auto
qed

lemma day_from_year_less: "day_from_year y < day_from_year (y + 1)"
  by (simp add: day_from_year_Suc)

text \<open>The year of a day: the largest year whose first day is not after it.\<close>

function year_up :: "int \<Rightarrow> int \<Rightarrow> int" where
  "year_up y d = (if day_from_year (y + 1) \<le> d then year_up (y + 1) d else y)"
  by pat_completeness auto
termination
proof (relation "measure (\<lambda>(y, d). nat (d + 1 - day_from_year y))")
  show "wf (measure (\<lambda>(y, d). nat (d + 1 - day_from_year y)))" by simp
next
  fix y d :: int
  assume "day_from_year (y + 1) \<le> d"
  then show "((y + 1, d), y, d) \<in> measure (\<lambda>(y, d). nat (d + 1 - day_from_year y))"
    using day_from_year_less[of y] by simp
qed

declare year_up.simps [simp del]

definition year_of_day :: "int \<Rightarrow> int" where
  "year_of_day d = year_up (1970 + (if 0 \<le> d then d div 366 else d div 365 - 1)) d"

lemma year_up_bounds:
  "day_from_year y \<le> d \<Longrightarrow>
     day_from_year (year_up y d) \<le> d \<and> d < day_from_year (year_up y d + 1)"
proof (induction y d rule: year_up.induct)
  case (1 y d)
  show ?case
  proof (cases "day_from_year (y + 1) \<le> d")
    case True
    with 1 show ?thesis by (simp add: year_up.simps[of y d])
  next
    case False
    with 1 show ?thesis by (simp add: year_up.simps[of y d])
  qed
qed

lemma day_from_year_1970: "day_from_year 1970 = 0"
  by (simp add: day_from_year_def)

lemma day_from_year_add_nat: "day_from_year (1970 + int n) \<le> 366 * int n"
proof (induction n)
  case 0
  show ?case by (simp add: day_from_year_1970)
next
  case (Suc n)
  have "day_from_year (1970 + int (Suc n)) = day_from_year (1970 + int n + 1)"
    by (simp add: algebra_simps)
  also have "\<dots> \<le> day_from_year (1970 + int n) + 366" by (subst day_from_year_Suc) simp
  finally show ?case using Suc by simp
qed

lemma year_of_day_bounds:
  assumes "0 \<le> d"
  shows "day_from_year (year_of_day d) \<le> d" and "d < day_from_year (year_of_day d + 1)"
proof -
  have "366 * (d div 366) \<le> d" by presburger
  moreover have "day_from_year (1970 + d div 366) \<le> 366 * (d div 366)"
    using day_from_year_add_nat[of "nat (d div 366)"] assms by (simp add: pos_imp_zdiv_nonneg_iff)
  ultimately have "day_from_year (1970 + d div 366) \<le> d" by simp
  then show "day_from_year (year_of_day d) \<le> d" and "d < day_from_year (year_of_day d + 1)"
    using year_up_bounds assms by (simp_all add: year_of_day_def)
qed

text \<open>Days before a month, counted from 1, in its year.\<close>

definition month_start :: "bool \<Rightarrow> nat \<Rightarrow> int" where
  "month_start leap m =
     ([0, 31, 59, 90, 120, 151, 181, 212, 243, 273, 304, 334] ! (m - 1)) +
     (if leap \<and> 2 < m then 1 else 0)"

fun month_down :: "bool \<Rightarrow> int \<Rightarrow> nat \<Rightarrow> nat" where
  "month_down leap yd 0 = 1"
| "month_down leap yd (Suc m) =
     (if month_start leap (Suc m) \<le> yd then Suc m else month_down leap yd m)"

section \<open>Printing\<close>

definition iso_year :: "int \<Rightarrow> string" where
  "iso_year y = (if 0 \<le> y \<and> y \<le> 9999 then pad_dec 4 (nat y)
     else (if y < 0 then CHR ''-'' else CHR ''+'') # pad_dec 6 (nat \<bar>y\<bar>))"

definition ms_per_day :: int where
  "ms_per_day = 86400000"

text \<open>\<open>new Date(t).toISOString()\<close>; \<open>None\<close> is the \<open>RangeError\<close> outside the time range.\<close>

definition iso_string :: "int \<Rightarrow> string option" where
  "iso_string t =
     (if \<bar>t\<bar> \<le> 8640000000000000 then
        let d = t div ms_per_day; r = nat (t mod ms_per_day); y = year_of_day d;
            yd = d - day_from_year y; m = month_down (leap_year y) yd 12;
            dd = nat (yd - month_start (leap_year y) m) + 1
        in Some (iso_year y @ ''-'' @ pad_dec 2 m @ ''-'' @ pad_dec 2 dd @ ''T'' @
             pad_dec 2 (r div 3600000) @ '':'' @ pad_dec 2 (r div 60000 mod 60) @ '':'' @
             pad_dec 2 (r div 1000 mod 60) @ ''.'' @ pad_dec 3 (r mod 1000) @ ''Z'')
      else None)"

section \<open>Parsing\<close>

definition take_digits :: "nat \<Rightarrow> string \<Rightarrow> (nat \<times> string) option" where
  "take_digits k s =
     (if length (take k s) = k \<and> list_all is_digit (take k s)
      then Some (dec_val 0 (take k s), drop k s) else None)"

definition expect :: "char \<Rightarrow> string \<Rightarrow> string option" where
  "expect c s = (case s of [] \<Rightarrow> None | x # xs \<Rightarrow> if x = c then Some xs else None)"

text \<open>The optional parts of a time: seconds and milliseconds.\<close>

definition parse_seconds :: "string \<Rightarrow> (nat \<times> nat \<times> string) option" where
  "parse_seconds s = (case expect (CHR '':'') s of
       None \<Rightarrow> Some (0, 0, s)
     | Some s1 \<Rightarrow> do {
         (sec, s2) \<leftarrow> take_digits 2 s1;
         case expect (CHR ''.'') s2 of
           None \<Rightarrow> Some (sec, 0, s2)
         | Some s3 \<Rightarrow> do {
             (ms, s4) \<leftarrow> take_digits 3 s3;
             Some (sec, ms, s4)
           }
       })"

text \<open>The offset in minutes: \<open>Z\<close>, \<open>+hh:mm\<close>, \<open>-hh:mm\<close> or nothing.\<close>

definition parse_offset :: "string \<Rightarrow> int option" where
  "parse_offset s = (case s of
       [] \<Rightarrow> Some 0
     | c # s1 \<Rightarrow>
         if c = CHR ''Z'' then (if s1 = [] then Some 0 else None)
         else if c = CHR ''+'' \<or> c = CHR ''-'' then do {
           (h, s2) \<leftarrow> take_digits 2 s1;
           s3 \<leftarrow> expect (CHR '':'') s2;
           (m, s4) \<leftarrow> take_digits 2 s3;
           if s4 = [] \<and> h < 24 \<and> m < 60
           then Some ((if c = CHR ''-'' then -1 else 1) * (60 * int h + int m)) else None
         } else None)"

definition day_number :: "nat \<Rightarrow> nat \<Rightarrow> nat \<Rightarrow> int" where
  "day_number y m d = day_from_year (int y) + month_start (leap_year (int y)) m + int d - 1"

definition parse_time :: "int \<Rightarrow> string \<Rightarrow> int option" where
  "parse_time days s = do {
     (h, s1) \<leftarrow> take_digits 2 s;
     s2 \<leftarrow> expect (CHR '':'') s1;
     (mi, s3) \<leftarrow> take_digits 2 s2;
     (sec, ms, s4) \<leftarrow> parse_seconds s3;
     off \<leftarrow> parse_offset s4;
     if h < 24 \<and> mi < 60 \<and> sec < 60
     then Some (days * ms_per_day + int (h * 3600000 + mi * 60000 + sec * 1000 + ms) - off * 60000)
     else None
   }"

text \<open>\<open>Date.parse\<close>: \<open>None\<close> is \<open>NaN\<close>.\<close>

definition date_parse :: "string \<Rightarrow> int option" where
  "date_parse s = do {
     (y, s1) \<leftarrow> take_digits 4 s;
     s2 \<leftarrow> expect (CHR ''-'') s1;
     (m, s3) \<leftarrow> take_digits 2 s2;
     s4 \<leftarrow> expect (CHR ''-'') s3;
     (d, s5) \<leftarrow> take_digits 2 s4;
     if 1 \<le> m \<and> m \<le> 12 \<and> 1 \<le> d \<and> d \<le> 31
     then (case s5 of
         [] \<Rightarrow> Some (day_number y m d * ms_per_day)
       | c # s6 \<Rightarrow> if c = CHR ''T'' then parse_time (day_number y m d) s6 else None)
     else None
   }"

section \<open>Printing then parsing\<close>

lemma take_digits_pad: "n < 10 ^ k \<Longrightarrow> take_digits k (pad_dec k n @ s) = Some (n, s)"
  by (simp add: take_digits_def pad_dec_digits)

lemma expect_Cons [simp]: "expect c (c # s) = Some s"
  by (simp add: expect_def)

lemma month_down_range: "1 \<le> month_down leap yd n \<and> month_down leap yd n \<le> max 1 n"
  by (induction n) auto

lemma month_start_1 [simp]: "month_start leap (Suc 0) = 0"
  by (simp add: month_start_def)

lemma month_down_start: "0 \<le> yd \<Longrightarrow> month_start leap (month_down leap yd n) \<le> yd"
  by (induction n) auto

lemma month_down_next: "month_down leap yd n < n \<Longrightarrow> yd < month_start leap (Suc (month_down leap yd n))"
  by (induction n) (auto split: if_splits simp: less_Suc_eq)

lemma month_length:
  assumes "1 \<le> m" "m < 12"
  shows "month_start leap (Suc m) \<le> month_start leap m + 31"
proof -
  have "list_all (\<lambda>m. month_start leap (Suc m) \<le> month_start leap m + 31) [1..<12]"
    by (cases leap) (simp_all add: month_start_def upt_rec)
  then show ?thesis using assms by (simp add: list_all_iff)
qed

lemma day_in_month:
  assumes "0 \<le> yd" "yd < 366" "leap \<or> yd < 365"
  shows "nat (yd - month_start leap (month_down leap yd 12)) < 31"
proof -
  let ?m = "month_down leap yd 12"
  have m: "1 \<le> ?m" "?m \<le> 12" using month_down_range[of leap yd 12] by auto
  show ?thesis
  proof (cases "?m = 12")
    case True
    then show ?thesis using assms by (auto simp: month_start_def)
  next
    case False
    then have "yd < month_start leap (Suc ?m)" using month_down_next[of leap yd 12] m by simp
    also have "\<dots> \<le> month_start leap ?m + 31" using month_length m False by simp
    finally show ?thesis by simp
  qed
qed

text \<open>The year of a day of the four-digit years after 1970 has four digits.\<close>

lemma day_from_year_mono: "y \<le> y' \<Longrightarrow> day_from_year y \<le> day_from_year y'"
proof -
  assume "y \<le> y'"
  then obtain n where y': "y' = y + int n" using zle_iff_zadd by auto
  have "day_from_year y \<le> day_from_year (y + int n)"
  proof (induction n)
    case 0
    show ?case by simp
  next
    case (Suc n)
    have "day_from_year (y + int n) < day_from_year (y + int n + 1)" by (rule day_from_year_less)
    also have "y + int n + 1 = y + int (Suc n)" by simp
    finally show ?case using Suc by simp
  qed
  then show ?thesis using y' by simp
qed

lemma year_of_day_range:
  assumes "0 \<le> d" "d < 2932897"
  shows "1970 \<le> year_of_day d" and "year_of_day d \<le> 9999"
proof -
  note b = year_of_day_bounds[OF assms(1)]
  show "1970 \<le> year_of_day d"
  proof (rule ccontr)
    assume "\<not> ?thesis"
    then have "day_from_year (year_of_day d + 1) \<le> day_from_year 1970"
      by (intro day_from_year_mono) simp
    then show False using b assms by (simp add: day_from_year_1970)
  qed
  show "year_of_day d \<le> 9999"
  proof (rule ccontr)
    assume "\<not> ?thesis"
    then have "day_from_year 10000 \<le> day_from_year (year_of_day d)"
      by (intro day_from_year_mono) simp
    then show False using b assms by (simp add: day_from_year_def)
  qed
qed

lemma parse_time_iso:
  assumes "r < 86400000"
  shows "parse_time days (pad_dec 2 (r div 3600000) @ CHR '':'' # pad_dec 2 (r div 60000 mod 60) @
    CHR '':'' # pad_dec 2 (r div 1000 mod 60) @ CHR ''.'' # pad_dec 3 (r mod 1000) @ ''Z'') =
    Some (days * ms_per_day + int r)"
proof -
  have h: "r div 3600000 < 24" using assms by (simp add: less_mult_imp_div_less)
  have "r div 1000 div 60 = r div 60000" "r div 60000 div 60 = r div 3600000"
    by (simp_all add: div_mult2_eq[symmetric])
  then have split_r: "r div 3600000 * 3600000 + r div 60000 mod 60 * 60000 +
      r div 1000 mod 60 * 1000 + r mod 1000 = r"
    using div_mult_mod_eq[of r 1000] div_mult_mod_eq[of "r div 1000" 60]
      div_mult_mod_eq[of "r div 60000" 60]
    by linarith
  have "parse_seconds (CHR '':'' # pad_dec 2 (r div 1000 mod 60) @ CHR ''.'' #
      pad_dec 3 (r mod 1000) @ ''Z'') = Some (r div 1000 mod 60, r mod 1000, ''Z'')"
    by (simp add: parse_seconds_def take_digits_pad)
  then show ?thesis
    using h by (simp add: parse_time_def take_digits_pad parse_offset_def split_r
      del: of_nat_add of_nat_mult)
qed

lemma date_parse_iso:
  assumes "0 \<le> t" "t < 253402300800000"
  shows "\<exists>s. iso_string t = Some s \<and> date_parse s = Some t"
proof -
  define d where "d = t div ms_per_day"
  define r where "r = nat (t mod ms_per_day)"
  define y where "y = year_of_day d"
  define yd where "yd = d - day_from_year y"
  define m where "m = month_down (leap_year y) yd 12"
  define dd where "dd = Suc (nat (yd - month_start (leap_year y) m))"
  have d: "0 \<le> d" "d < 2932897" using assms by (simp_all add: d_def ms_per_day_def)
  have r: "r < 86400000" by (simp add: r_def ms_per_day_def)
  have y: "1970 \<le> y" "y \<le> 9999" using year_of_day_range[OF d] by (simp_all add: y_def)
  have yd: "0 \<le> yd" "yd < 366" "leap_year y \<or> yd < 365"
    using year_of_day_bounds[OF d(1)] by (auto simp: yd_def y_def day_from_year_Suc split: if_splits)
  have m: "1 \<le> m" "m \<le> 12" using month_down_range[of "leap_year y" yd 12] by (auto simp: m_def)
  have dd: "1 \<le> dd" "dd \<le> 31"
    using day_in_month[OF yd] by (simp_all add: dd_def m_def)
  have num: "day_number (nat y) m dd = d"
    using y month_down_start[OF yd(1), of "leap_year y" 12]
    by (simp add: day_number_def dd_def m_def yd_def)
  have t: "d * ms_per_day + int r = t"
    using assms by (simp add: d_def r_def ms_per_day_def)
  have iso: "iso_string t = Some (pad_dec 4 (nat y) @ CHR ''-'' # pad_dec 2 m @ CHR ''-'' #
      pad_dec 2 dd @ CHR ''T'' # pad_dec 2 (r div 3600000) @ CHR '':'' # pad_dec 2 (r div 60000 mod 60) @
      CHR '':'' # pad_dec 2 (r div 1000 mod 60) @ CHR ''.'' # pad_dec 3 (r mod 1000) @ ''Z'')"
    using assms y
    by (simp add: iso_string_def iso_year_def Let_def
      d_def[symmetric] r_def[symmetric] y_def[symmetric] yd_def[symmetric] m_def[symmetric] dd_def[symmetric])
  show ?thesis
    unfolding iso
    using y m dd by (simp add: date_parse_def take_digits_pad num parse_time_iso[OF r] t)
qed

section \<open>Evaluation\<close>

text \<open>The equations that compute a parse or a print of a literal time by rewriting.\<close>

lemmas date_parse_eval = date_parse_def take_digits_def expect_def parse_time_def parse_seconds_def
  parse_offset_def day_number_def day_from_year_def month_start_def leap_year_def ms_per_day_def
  digit_val_def char_class_defs

lemma month_down_numeral:
  "month_down leap yd (numeral n) = (if month_start leap (numeral n) \<le> yd then numeral n
     else month_down leap yd (pred_numeral n))"
  unfolding numeral_eq_Suc[of n] by (rule month_down.simps)

text \<open>The first day of 1970, the day of the sample times below.\<close>

lemma first_day: "year_of_day 0 = 1970" "month_down False 0 12 = 1"
  by (simp add: year_of_day_def year_up.simps[of 1970 0] day_from_year_def)
    (simp add: month_down_numeral month_start_def)

lemmas iso_string_eval = first_day day_from_year_def ms_per_day_def leap_year_def iso_year_def
  pad_dec_numeral month_start_def digit_chars

end
