(* ===== verification/Json.thy ===== *)
theory Json
  imports JsString "HOL-Library.Monad_Syntax"
begin

text \<open>
  JavaScript values, \<open>JSON.stringify\<close> and \<open>JSON.parse\<close>, and the canonical JSON of
  src/controllers/json.ts that the controller store keeps and fingerprints.

  A finite number is the text \<open>Number.prototype.toString\<close> prints for it, which determines it;
  \<open>JSON.parse\<close> is modelled on number texts of that form.  Cyclic values have no counterpart.
\<close>

section \<open>Values\<close>

datatype jnum = NumFin string | NumNegZero | NumNaN | NumInf bool

datatype jv =
    JUndef
  | JNull
  | JBool bool
  | JNum jnum
  | JStr string
  | JArr "jv list"
  | JObj "(string \<times> jv) list"
  | JFun          \<comment> \<open>functions, symbols, bigints\<close>
  | JExotic       \<comment> \<open>objects with another prototype: dates, maps, class instances\<close>

abbreviation jnat :: "nat \<Rightarrow> jv" where
  "jnat n \<equiv> JNum (NumFin (nat_dec n))"

text \<open>Keys that are array indices come first, in numeric order, whatever the insertion order.\<close>

definition is_index :: "string \<Rightarrow> bool" where
  "is_index k \<longleftrightarrow> k \<noteq> [] \<and> list_all is_digit k \<and> (k = ''0'' \<or> hd k \<noteq> CHR ''0'') \<and>
     dec_val 0 k < 4294967295"

definition js_order :: "'v obj \<Rightarrow> 'v obj" where
  "js_order ob = sort_key (\<lambda>(k, _). dec_val 0 k) (filter (\<lambda>(k, _). is_index k) ob) @
     filter (\<lambda>(k, _). \<not> is_index k) ob"

text \<open>The object with the given properties, assigned in this order.\<close>

definition mk_obj :: "(string \<times> 'v) list \<Rightarrow> 'v obj" where
  "mk_obj kvs = js_order (fold (\<lambda>(k, v) ob. obj_put k v ob) kvs [])"

section \<open>Printing\<close>

definition hex_digit :: "nat \<Rightarrow> char" where
  "hex_digit n = (if n < 10 then char_of (48 + n) else char_of (87 + n))"

definition esc_char :: "char \<Rightarrow> string" where
  "esc_char c =
     (if c = CHR 0x22 then [CHR 0x5C, CHR 0x22]
      else if c = CHR 0x5C then [CHR 0x5C, CHR 0x5C]
      else if c = CHR 0x08 then [CHR 0x5C, CHR ''b'']
      else if c = CHR 0x09 then [CHR 0x5C, CHR ''t'']
      else if c = CHR 0x0A then [CHR 0x5C, CHR ''n'']
      else if c = CHR 0x0C then [CHR 0x5C, CHR ''f'']
      else if c = CHR 0x0D then [CHR 0x5C, CHR ''r'']
      else if code_of c < 32
      then [CHR 0x5C, CHR ''u'', CHR ''0'', CHR ''0'', hex_digit (code_of c div 16), hex_digit (code_of c mod 16)]
      else [c])"

definition quote_json :: "string \<Rightarrow> string" where
  "quote_json s = CHR 0x22 # concat (map esc_char s) @ [CHR 0x22]"

fun num_text :: "jnum \<Rightarrow> string" where
  "num_text (NumFin t) = t"
| "num_text NumNegZero = ''0''"
| "num_text NumNaN = ''null''"
| "num_text (NumInf _) = ''null''"

text \<open>\<open>JSON.stringify\<close>; \<open>None\<close> is \<open>undefined\<close>.\<close>

fun json_text :: "jv \<Rightarrow> string option" where
  "json_text JUndef = None"
| "json_text JNull = Some ''null''"
| "json_text (JBool b) = Some (if b then ''true'' else ''false'')"
| "json_text (JNum n) = Some (num_text n)"
| "json_text (JStr s) = Some (quote_json s)"
| "json_text (JArr vs) = Some (''['' @
     join_with '','' (map (\<lambda>v. case json_text v of None \<Rightarrow> ''null'' | Some t \<Rightarrow> t) vs) @ '']'')"
| "json_text (JObj kvs) = Some (''{'' @
     join_with '','' (concat (map (\<lambda>kv. case json_text (snd kv) of None \<Rightarrow> []
        | Some t \<Rightarrow> [quote_json (fst kv) @ '':'' @ t]) kvs)) @ ''}'')"
| "json_text JFun = None"
| "json_text JExotic = Some ''{}''"

section \<open>Parsing\<close>

definition is_json_space :: "char \<Rightarrow> bool" where
  "is_json_space c \<longleftrightarrow> c = CHR '' '' \<or> c = CHR 0x09 \<or> c = CHR 0x0A \<or> c = CHR 0x0D"

definition skip_ws :: "string \<Rightarrow> string" where
  "skip_ws s = dropWhile is_json_space s"

definition hex_val :: "char \<Rightarrow> nat option" where
  "hex_val c = (if is_digit c then Some (code_of c - 48)
     else if 97 \<le> code_of c \<and> code_of c \<le> 102 then Some (code_of c - 87)
     else if 65 \<le> code_of c \<and> code_of c \<le> 70 then Some (code_of c - 55) else None)"

definition simple_escape :: "char \<Rightarrow> char option" where
  "simple_escape e =
     (if e = CHR 0x22 \<or> e = CHR 0x5C \<or> e = CHR ''/'' then Some e
      else if e = CHR ''b'' then Some (CHR 0x08) else if e = CHR ''t'' then Some (CHR 0x09)
      else if e = CHR ''n'' then Some (CHR 0x0A) else if e = CHR ''f'' then Some (CHR 0x0C)
      else if e = CHR ''r'' then Some (CHR 0x0D) else None)"

text \<open>\<open>\u\<close> escapes above 255 are outside the model's strings.\<close>

definition hex_escape :: "char \<Rightarrow> char \<Rightarrow> char \<Rightarrow> char \<Rightarrow> char option" where
  "hex_escape a b c d = do {
     x \<leftarrow> hex_val a; y \<leftarrow> hex_val b; z \<leftarrow> hex_val c; w \<leftarrow> hex_val d;
     if x = 0 \<and> y = 0 then Some (char_of (16 * z + w)) else None
   }"

text \<open>The rest of a string literal after its opening quote.\<close>

fun parse_str :: "string \<Rightarrow> (string \<times> string) option" where
  "parse_str [] = None"
| "parse_str (c # cs) =
     (if c = CHR 0x22 then Some ([], cs)
      else if c = CHR 0x5C then
        (case cs of
          [] \<Rightarrow> None
        | e # es \<Rightarrow>
            if e = CHR ''u'' then
              (case es of
                w # x # y # z # rest \<Rightarrow> do {
                  ch \<leftarrow> hex_escape w x y z;
                  (s, r) \<leftarrow> parse_str rest;
                  Some (ch # s, r)
                }
              | _ \<Rightarrow> None)
            else do {
              ch \<leftarrow> simple_escape e;
              (s, r) \<leftarrow> parse_str es;
              Some (ch # s, r)
            })
      else if code_of c < 32 then None
      else do {
        (s, r) \<leftarrow> parse_str cs;
        Some (c # s, r)
      })"

text \<open>The number grammar: an optional sign, an integer part, a fraction, an exponent.\<close>

definition num_char :: "char \<Rightarrow> bool" where
  "num_char c \<longleftrightarrow> is_digit c \<or> c \<in> set ''+-.eE''"

definition digits1 :: "string \<Rightarrow> bool" where
  "digits1 s \<longleftrightarrow> s \<noteq> [] \<and> list_all is_digit s"

definition exp_part :: "string \<Rightarrow> bool" where
  "exp_part s = (case s of [] \<Rightarrow> True
     | c # cs \<Rightarrow> (c = CHR ''e'' \<or> c = CHR ''E'') \<and>
         (case cs of [] \<Rightarrow> False
          | d # ds \<Rightarrow> if d = CHR ''+'' \<or> d = CHR ''-'' then digits1 ds else digits1 (d # ds)))"

definition frac_exp_part :: "string \<Rightarrow> bool" where
  "frac_exp_part s = (case s of [] \<Rightarrow> True
     | c # cs \<Rightarrow> if c = CHR ''.'' then takeWhile is_digit cs \<noteq> [] \<and> exp_part (dropWhile is_digit cs)
         else exp_part s)"

definition unsigned_part :: "string \<Rightarrow> bool" where
  "unsigned_part s \<longleftrightarrow> takeWhile is_digit s \<noteq> [] \<and>
     (takeWhile is_digit s = ''0'' \<or> hd s \<noteq> CHR ''0'') \<and> frac_exp_part (dropWhile is_digit s)"

definition is_num_text :: "string \<Rightarrow> bool" where
  "is_num_text s = (list_all num_char s \<and>
     (case s of [] \<Rightarrow> False | c # cs \<Rightarrow> if c = CHR ''-'' then unsigned_part cs else unsigned_part s))"

definition parse_lit :: "string \<Rightarrow> jv \<Rightarrow> string \<Rightarrow> (jv \<times> string) option" where
  "parse_lit lit v s = (if starts_with s lit then Some (v, drop (length lit) s) else None)"

definition parse_num :: "string \<Rightarrow> (jv \<times> string) option" where
  "parse_num s = (if is_num_text (takeWhile num_char s)
     then Some (JNum (NumFin (takeWhile num_char s)), dropWhile num_char s) else None)"

text \<open>
  The recursive-descent parser spends one unit of fuel per call; every second call consumes a
  character, so \<open>2 * length s + 2\<close> is enough.
\<close>

fun parse_val :: "nat \<Rightarrow> string \<Rightarrow> (jv \<times> string) option"
  and parse_elems :: "nat \<Rightarrow> string \<Rightarrow> (jv list \<times> string) option"
  and parse_members :: "nat \<Rightarrow> string \<Rightarrow> ((string \<times> jv) list \<times> string) option" where
  "parse_val 0 s = None"
| "parse_val (Suc n) s = (case skip_ws s of
     [] \<Rightarrow> None
   | c # cs \<Rightarrow>
       if c = CHR ''n'' then parse_lit ''null'' JNull (c # cs)
       else if c = CHR ''t'' then parse_lit ''true'' (JBool True) (c # cs)
       else if c = CHR ''f'' then parse_lit ''false'' (JBool False) (c # cs)
       else if c = CHR 0x22 then map_option (\<lambda>(s, r). (JStr s, r)) (parse_str cs)
       else if c = CHR ''['' then
         (case skip_ws cs of
           [] \<Rightarrow> None
         | d # ds \<Rightarrow> if d = CHR '']'' then Some (JArr [], ds)
             else map_option (\<lambda>(vs, r). (JArr vs, r)) (parse_elems n (d # ds)))
       else if c = CHR ''{'' then
         (case skip_ws cs of
           [] \<Rightarrow> None
         | d # ds \<Rightarrow> if d = CHR ''}'' then Some (JObj [], ds)
             else map_option (\<lambda>(kvs, r). (JObj (mk_obj kvs), r)) (parse_members n (d # ds)))
       else parse_num (c # cs))"
| "parse_elems 0 s = None"
| "parse_elems (Suc n) s = (case parse_val n s of
     None \<Rightarrow> None
   | Some (v, r) \<Rightarrow>
       (case skip_ws r of
         [] \<Rightarrow> None
       | d # ds \<Rightarrow>
           if d = CHR '']'' then Some ([v], ds)
           else if d = CHR '','' then map_option (\<lambda>(vs, r'). (v # vs, r')) (parse_elems n ds)
           else None))"
| "parse_members 0 s = None"
| "parse_members (Suc n) s = (case skip_ws s of
     [] \<Rightarrow> None
   | q # qs \<Rightarrow>
       if q \<noteq> CHR 0x22 then None
       else (case parse_str qs of
         None \<Rightarrow> None
       | Some (k, r) \<Rightarrow>
           (case skip_ws r of
             [] \<Rightarrow> None
           | c # cs \<Rightarrow>
               if c \<noteq> CHR '':'' then None
               else (case parse_val n cs of
                 None \<Rightarrow> None
               | Some (v, r2) \<Rightarrow>
                   (case skip_ws r2 of
                     [] \<Rightarrow> None
                   | d # ds \<Rightarrow>
                       if d = CHR ''}'' then Some ([(k, v)], ds)
                       else if d = CHR '',''
                       then map_option (\<lambda>(kvs, r'). ((k, v) # kvs, r')) (parse_members n ds)
                       else None)))))"

definition json_parse :: "string \<Rightarrow> jv option" where
  "json_parse s = (case parse_val (2 * length s + 2) s of
     None \<Rightarrow> None
   | Some (v, r) \<Rightarrow> if skip_ws r = [] then Some v else None)"

section \<open>Canonical JSON (src/controllers/json.ts)\<close>

datatype json_error =
    NonFiniteNumber string
  | NotSerializable string
  | NotPlain string
  | InvalidJson string

fun seq_entries :: "(string \<times> ('e, 'v) result) list \<Rightarrow> ('e, (string \<times> 'v) list) result" where
  "seq_entries [] = Inr []"
| "seq_entries ((k, Inl e) # rest) = Inl e"
| "seq_entries ((k, Inr v) # rest) =
     (case seq_entries rest of Inl e \<Rightarrow> Inl e | Inr kvs \<Rightarrow> Inr ((k, v) # kvs))"

fun seq_items :: "('e, 'v) result list \<Rightarrow> ('e, 'v list) result" where
  "seq_items [] = Inr []"
| "seq_items (Inl e # rest) = Inl e"
| "seq_items (Inr v # rest) = (case seq_items rest of Inl e \<Rightarrow> Inl e | Inr vs \<Rightarrow> Inr (v # vs))"

text \<open>
  \<open>normalizeJson\<close>.  The result object is built by plain assignments, so a key \<open>__proto__\<close>
  reaches the prototype setter and leaves no property behind.
\<close>

definition index_path :: "string \<Rightarrow> nat \<Rightarrow> string" where
  "index_path path i = path @ ''['' @ nat_dec i @ '']''"

lemma enumerate_size [termination_simp]:
  "(i, v) \<in> set (enumerate n vs) \<Longrightarrow> size v < Suc (size_list size vs)"
proof -
  assume "(i, v) \<in> set (enumerate n vs)"
  then have "v \<in> set vs" by (auto simp: enumerate_eq_zip dest: set_zip_rightD)
  then show ?thesis by (simp add: less_Suc_eq_le size_list_estimation')
qed

fun normalizeJson :: "string \<Rightarrow> jv \<Rightarrow> (json_error, jv) result" where
  "normalizeJson path JNull = Inr JNull"
| "normalizeJson path (JStr s) = Inr (JStr s)"
| "normalizeJson path (JBool b) = Inr (JBool b)"
| "normalizeJson path (JNum n) =
     (case n of NumNaN \<Rightarrow> Inl (NonFiniteNumber path) | NumInf _ \<Rightarrow> Inl (NonFiniteNumber path)
      | _ \<Rightarrow> Inr (JNum n))"
| "normalizeJson path JUndef = Inl (NotSerializable path)"
| "normalizeJson path JFun = Inl (NotSerializable path)"
| "normalizeJson path (JArr vs) =
     (case seq_items (map (\<lambda>(i, v). normalizeJson (index_path path i) v) (enumerate 0 vs)) of
        Inl e \<Rightarrow> Inl e
      | Inr ws \<Rightarrow> Inr (JArr ws))"
| "normalizeJson path JExotic = Inl (NotPlain path)"
| "normalizeJson path (JObj kvs) =
     (case seq_entries (sort_key fst
             (map (\<lambda>(k, v). (k, normalizeJson (path @ ''.'' @ k) v)) kvs)) of
        Inl e \<Rightarrow> Inl e
      | Inr entries \<Rightarrow> Inr (JObj (mk_obj (filter (\<lambda>(k, _). k \<noteq> ''__proto__'') entries))))"

definition canonicalJson :: "jv \<Rightarrow> string \<Rightarrow> (json_error, string) result" where
  "canonicalJson v description =
     (case normalizeJson description v of
        Inl e \<Rightarrow> Inl e
      | Inr w \<Rightarrow> Inr (case json_text w of None \<Rightarrow> [] | Some t \<Rightarrow> t))"

definition parseStoredJson :: "string \<Rightarrow> string \<Rightarrow> (json_error, jv) result" where
  "parseStoredJson text description =
     (case json_parse text of
        None \<Rightarrow> Inl (InvalidJson description)
      | Some v \<Rightarrow> (case normalizeJson description v of Inl e \<Rightarrow> Inl e | Inr _ \<Rightarrow> Inr v))"

text \<open>\<open>jsonFingerprint\<close>: the digest (SHA-256 of the Node library) is a parameter.\<close>

definition jsonFingerprint :: "(string \<Rightarrow> string) \<Rightarrow> jv \<Rightarrow> (json_error, string) result" where
  "jsonFingerprint sha256 v =
     (case canonicalJson v ''value'' of Inl e \<Rightarrow> Inl e | Inr t \<Rightarrow> Inr (sha256 t))"

end
