(* ===== verification/JsonRoundtrip.thy ===== *)
theory JsonRoundtrip
  imports Json "HOL-Library.Multiset"
begin

text \<open>
  Facts about canonical JSON: stored texts parse back to the value they were made from, and the
  text (hence the fingerprint) does not depend on the order in which properties were assigned.
\<close>

section \<open>Plain JSON values\<close>

text \<open>The values \<open>JSON.parse\<close> returns: own distinct keys in property order, finite numbers.\<close>

definition js_ordered :: "'v obj \<Rightarrow> bool" where
  "js_ordered ob \<longleftrightarrow> distinct (map fst ob) \<and> js_order ob = ob"

fun json_value :: "jv \<Rightarrow> bool" where
  "json_value JNull = True"
| "json_value (JBool _) = True"
| "json_value (JStr _) = True"
| "json_value (JNum n) = (case n of NumFin t \<Rightarrow> is_num_text t | _ \<Rightarrow> False)"
| "json_value (JArr vs) = list_all json_value vs"
| "json_value (JObj kvs) = (js_ordered kvs \<and> list_all (\<lambda>kv. json_value (snd kv)) kvs)"
| "json_value JUndef = False"
| "json_value JFun = False"
| "json_value JExotic = False"

lemma set_js_order [simp]: "set (js_order ob) = set ob"
  by (auto simp: js_order_def)

lemma mset_js_order: "mset (js_order ob) = mset ob"
  by (simp add: js_order_def case_prod_beta' multiset_partition[symmetric])

lemma distinct_map_mset: "mset xs = mset ys \<Longrightarrow> distinct (map f xs) \<longleftrightarrow> distinct (map f ys)"
  by (metis mset_eq_imp_distinct_iff mset_map)

lemma obj_put_new: "k \<notin> fst ` set ob \<Longrightarrow> obj_put k v ob = ob @ [(k, v)]"
  unfolding obj_put_def by (induction ob) auto

lemma fold_put_distinct:
  "distinct (map fst (ob @ kvs)) \<Longrightarrow> fold (\<lambda>(k, v) ob. obj_put k v ob) kvs ob = ob @ kvs"
proof (induction kvs arbitrary: ob)
  case Nil
  then show ?case by simp
next
  case (Cons kv kvs)
  obtain k v where kv: "kv = (k, v)" by (cases kv)
  have "k \<notin> fst ` set ob" using Cons.prems kv by auto
  then have "fold (\<lambda>(k, v) ob. obj_put k v ob) (kv # kvs) ob =
      fold (\<lambda>(k, v) ob. obj_put k v ob) kvs (ob @ [(k, v)])"
    by (simp add: kv obj_put_new)
  also have "\<dots> = ob @ [(k, v)] @ kvs"
    using Cons.IH[of "ob @ [(k, v)]"] Cons.prems kv by auto
  finally show ?case by (simp add: kv)
qed

lemma mk_obj_distinct: "distinct (map fst kvs) \<Longrightarrow> mk_obj kvs = js_order kvs"
  using fold_put_distinct[of "[]" kvs] by (simp add: mk_obj_def)

lemma mk_obj_ordered: "js_ordered kvs \<Longrightarrow> mk_obj kvs = kvs"
  by (simp add: js_ordered_def mk_obj_distinct)

lemma js_order_idem: "js_order (js_order ob) = js_order ob"
proof -
  let ?k = "\<lambda>(k, _). dec_val 0 k"
  let ?A = "sort_key ?k (filter (\<lambda>(k, _). is_index k) ob)"
  let ?B = "filter (\<lambda>(k, _). \<not> is_index k) ob"
  have a: "filter (\<lambda>(k, _). is_index k) ?A = ?A" by (auto simp: filter_id_conv)
  have b: "filter (\<lambda>(k, _). is_index k) ?B = []" by (auto simp: filter_empty_conv)
  have c: "filter (\<lambda>(k, _). \<not> is_index k) ?A = []" by (auto simp: filter_empty_conv)
  have d: "filter (\<lambda>(k, _). \<not> is_index k) ?B = ?B" by (auto simp: filter_id_conv)
  have e: "sort_key ?k ?A = ?A" by (rule sort_key_id_if_sorted) simp
  show ?thesis
    unfolding js_order_def filter_append a b c d by (simp add: e)
qed

lemma js_ordered_js_order: "distinct (map fst ob) \<Longrightarrow> js_ordered (js_order ob)"
  unfolding js_ordered_def using js_order_idem distinct_map_mset[OF mset_js_order] by blast

lemma js_ordered_mk_obj: "distinct (map fst kvs) \<Longrightarrow> js_ordered (mk_obj kvs)"
  by (simp add: mk_obj_distinct js_ordered_js_order)

section \<open>String literals\<close>

lemma hex_val_digit: "n < 16 \<Longrightarrow> hex_val (hex_digit n) = Some n"
proof -
  have "list_all (\<lambda>n. hex_val (hex_digit n) = Some n) [0..<16]"
    by (simp add: upt_rec hex_val_def hex_digit_def char_class_defs)
  then show "n < 16 \<Longrightarrow> hex_val (hex_digit n) = Some n" by (simp add: list_all_iff)
qed

lemma hex_escape_digits:
  "code_of c < 32 \<Longrightarrow>
     hex_escape (CHR ''0'') (CHR ''0'') (hex_digit (code_of c div 16)) (hex_digit (code_of c mod 16)) = Some c"
proof -
  assume c: "code_of c < 32"
  have z: "hex_val (CHR ''0'') = Some 0" by (simp add: hex_val_def char_class_defs)
  have "code_of c div 16 < 16" "code_of c mod 16 < 16" using c by auto
  then show ?thesis
    by (simp add: hex_escape_def z hex_val_digit code_of_def)
qed

lemma parse_str_esc: "parse_str (esc_char c @ s) = map_option (\<lambda>(t, r). (c # t, r)) (parse_str s)"
proof -
  consider "c = CHR 0x22" | "c = CHR 0x5C" | "c = CHR 0x08" | "c = CHR 0x09" | "c = CHR 0x0A"
    | "c = CHR 0x0C" | "c = CHR 0x0D"
    | "c \<notin> {CHR 0x22, CHR 0x5C, CHR 0x08, CHR 0x09, CHR 0x0A, CHR 0x0C, CHR 0x0D}" "code_of c < 32"
    | "c \<notin> {CHR 0x22, CHR 0x5C, CHR 0x08, CHR 0x09, CHR 0x0A, CHR 0x0C, CHR 0x0D}" "\<not> code_of c < 32"
    by blast
  then show ?thesis
  proof cases
    case 8
    then show ?thesis
      by (cases "parse_str s") (auto simp: esc_char_def hex_escape_digits)
  qed (cases "parse_str s"; auto simp: esc_char_def simple_escape_def)+
qed

lemma parse_str_quoted: "parse_str (concat (map esc_char s) @ CHR 0x22 # rest) = Some (s, rest)"
  by (induction s) (auto simp: parse_str_esc)

section \<open>Parsing a printed value\<close>

abbreviation jt :: "jv \<Rightarrow> string" where
  "jt v \<equiv> (case json_text v of None \<Rightarrow> ''null'' | Some t \<Rightarrow> t)"

lemma json_value_text: "json_value v \<Longrightarrow> \<exists>t. json_text v = Some t"
  by (cases v) auto

definition num_stop :: "string \<Rightarrow> bool" where
  "num_stop rest = (case rest of [] \<Rightarrow> True | c # _ \<Rightarrow> \<not> num_char c)"

lemma takeWhile_num: "list_all num_char t \<Longrightarrow> num_stop rest \<Longrightarrow>
    takeWhile num_char (t @ rest) = t \<and> dropWhile num_char (t @ rest) = rest"
  by (cases rest) (auto simp: num_stop_def list_all_iff takeWhile_append)

lemma num_text_head:
  assumes "is_num_text t"
  shows "\<exists>c cs. t = c # cs \<and> (is_digit c \<or> c = CHR ''-'')"
proof (cases t)
  case Nil
  then show ?thesis using assms by (simp add: is_num_text_def)
next
  case (Cons c cs)
  have "c = CHR ''-'' \<or> is_digit c"
  proof (cases "c = CHR ''-''")
    case False
    then have "takeWhile is_digit t \<noteq> []"
      using assms Cons by (auto simp: is_num_text_def unsigned_part_def)
    then show ?thesis using Cons by (auto split: if_splits)
  qed simp
  then show ?thesis using Cons by blast
qed

lemma digit_not_special:
  assumes "is_digit c \<or> c = CHR ''-''"
  shows "c \<noteq> CHR ''n'' \<and> c \<noteq> CHR ''t'' \<and> c \<noteq> CHR ''f'' \<and> c \<noteq> CHR 0x22 \<and> c \<noteq> CHR ''['' \<and>
    c \<noteq> CHR ''{'' \<and> c \<noteq> CHR '']'' \<and> c \<noteq> CHR ''}'' \<and> \<not> is_json_space c"
  using assms by (auto simp: char_class_defs is_json_space_def)

lemma skip_ws_Cons: "\<not> is_json_space c \<Longrightarrow> skip_ws (c # cs) = c # cs"
  by (simp add: skip_ws_def)

lemma json_spaces [simp]:
  "\<not> is_json_space (CHR ''['')" "\<not> is_json_space (CHR ''{'')" "\<not> is_json_space (CHR 0x22)"
  "\<not> is_json_space (CHR ''n'')" "\<not> is_json_space (CHR ''t'')" "\<not> is_json_space (CHR ''f'')"
  "\<not> is_json_space (CHR '']'')" "\<not> is_json_space (CHR ''}'')" "\<not> is_json_space (CHR '','')"
  "\<not> is_json_space (CHR '':'')"
  by (simp_all add: is_json_space_def)

lemma num_stop_punct [simp]:
  "num_stop (CHR '']'' # s)" "num_stop (CHR ''}'' # s)" "num_stop (CHR '','' # s)" "num_stop []"
  by (simp_all add: num_stop_def num_char_def char_class_defs)

text \<open>The first character of a printed value.\<close>

lemma jt_head:
  assumes "json_value v"
  shows "\<exists>c cs. jt v = c # cs \<and> \<not> is_json_space c \<and> c \<noteq> CHR '']'' \<and> c \<noteq> CHR ''}''"
proof (cases v)
  case (JNum n)
  then obtain t where t: "n = NumFin t" "is_num_text t"
    using assms by (auto split: jnum.splits)
  then show ?thesis
    using num_text_head[OF t(2)] digit_not_special JNum by auto
qed (use assms in \<open>auto simp: quote_json_def\<close>)

text \<open>
  Reading back a printed value, inside any text that does not continue a number.  The three
  statements go together: a value, the items of an array, the members of an object.
\<close>

lemma parse_lit_append [simp]: "parse_lit lit v (lit @ s) = Some (v, s)"
  by (simp add: parse_lit_def)

definition reads_back :: "jv \<Rightarrow> bool" where
  "reads_back v \<longleftrightarrow> (\<forall>fuel rest. num_stop rest \<longrightarrow> 2 * length (jt v) + 1 \<le> fuel \<longrightarrow>
     parse_val fuel (jt v @ rest) = Some (v, rest))"

lemma reads_backD:
  "reads_back v \<Longrightarrow> num_stop rest \<Longrightarrow> 2 * length (jt v) + 1 \<le> fuel \<Longrightarrow>
     parse_val fuel (jt v @ rest) = Some (v, rest)"
  by (simp add: reads_back_def)

lemma reads_backI:
  assumes "\<And>n rest. num_stop rest \<Longrightarrow> parse_val (Suc n) (jt v @ rest) = Some (v, rest)"
  shows "reads_back v"
  unfolding reads_back_def
proof (intro allI impI)
  fix fuel rest assume "num_stop rest" "2 * length (jt v) + 1 \<le> fuel"
  then show "parse_val fuel (jt v @ rest) = Some (v, rest)" using assms by (cases fuel) simp_all
qed

lemma reads_back_num: "is_num_text t \<Longrightarrow> reads_back (JNum (NumFin t))"
proof (rule reads_backI)
  fix n rest
  assume t: "is_num_text t" and stop: "num_stop rest"
  obtain c cs where c: "t = c # cs" "is_digit c \<or> c = CHR ''-''" using num_text_head[OF t] by blast
  have all: "list_all num_char t" using t by (simp add: is_num_text_def)
  have "parse_val (Suc n) (t @ rest) = parse_num (t @ rest)"
    using digit_not_special[OF c(2)] by (simp add: c skip_ws_Cons)
  also have "\<dots> = Some (JNum (NumFin t), rest)"
    using takeWhile_num[OF all stop] t by (simp add: parse_num_def)
  finally show "parse_val (Suc n) (jt (JNum (NumFin t)) @ rest) = Some (JNum (NumFin t), rest)" by simp
qed

lemma reads_back_str: "reads_back (JStr s)"
  by (rule reads_backI) (simp add: quote_json_def skip_ws_Cons parse_str_quoted)

lemma reads_back_lit:
  "reads_back JNull" "reads_back (JBool b)"
  by (cases b; rule reads_backI; simp add: skip_ws_Cons parse_lit_def starts_with_def)+

lemma parse_elems_jt:
  assumes "vs \<noteq> []" and "\<forall>v \<in> set vs. reads_back v"
    and "2 * length (join_with '','' (map jt vs)) + 2 \<le> fuel"
  shows "parse_elems fuel (join_with '','' (map jt vs) @ CHR '']'' # rest) = Some (vs, rest)"
  using assms
proof (induction vs arbitrary: fuel)
  case Nil
  then show ?case by simp
next
  case (Cons v vs)
  from Cons.prems obtain n where n: "fuel = Suc n" by (cases fuel) auto
  have v: "reads_back v" using Cons.prems by simp
  show ?case
  proof (cases vs)
    case Nil
    have "parse_val n (jt v @ CHR '']'' # rest) = Some (v, CHR '']'' # rest)"
      using Cons.prems Nil n by (intro reads_backD[OF v]) simp_all
    then show ?thesis by (simp add: n Nil skip_ws_Cons)
  next
    case (Cons w ws)
    let ?tl = "join_with '','' (map jt vs)"
    have joined: "join_with '','' (map jt (v # vs)) = jt v @ '','' @ ?tl" by (simp add: Cons)
    have fuel: "2 * (length (jt v) + 1 + length ?tl) + 2 \<le> Suc n"
      using Cons.prems(3) n unfolding joined by simp
    have "parse_val n (jt v @ CHR '','' # ?tl @ CHR '']'' # rest) = Some (v, CHR '','' # ?tl @ CHR '']'' # rest)"
      using fuel by (intro reads_backD[OF v]) simp_all
    moreover have "parse_elems n (?tl @ CHR '']'' # rest) = Some (vs, rest)"
      using Cons.prems fuel Cons by (intro Cons.IH) simp_all
    ultimately show ?thesis unfolding joined by (simp add: n skip_ws_Cons)
  qed
qed

definition member_text :: "string \<times> jv \<Rightarrow> string" where
  "member_text kv = quote_json (fst kv) @ '':'' @ jt (snd kv)"

lemma member_text_head: "member_text kv = CHR 0x22 # tl (member_text kv)"
  by (simp add: member_text_def quote_json_def)

lemma parse_members_jt:
  assumes "kvs \<noteq> []" and "\<forall>kv \<in> set kvs. reads_back (snd kv)"
    and "2 * length (join_with '','' (map member_text kvs)) + 2 \<le> fuel"
  shows "parse_members fuel (join_with '','' (map member_text kvs) @ CHR ''}'' # rest) = Some (kvs, rest)"
  using assms
proof (induction kvs arbitrary: fuel)
  case Nil
  then show ?case by simp
next
  case (Cons kv kvs)
  obtain k v where kv: "kv = (k, v)" by (cases kv)
  from Cons.prems obtain n where n: "fuel = Suc n" by (cases fuel) auto
  have v: "reads_back v" using Cons.prems kv by simp
  have key: "parse_str (concat (map esc_char k) @ CHR 0x22 # s) = Some (k, s)" for s
    by (rule parse_str_quoted)
  show ?case
  proof (cases kvs)
    case Nil
    have "parse_val n (jt v @ CHR ''}'' # rest) = Some (v, CHR ''}'' # rest)"
      using Cons.prems Nil n by (intro reads_backD[OF v]) (simp_all add: member_text_def kv)
    then show ?thesis
      by (simp add: n Nil kv member_text_def quote_json_def skip_ws_Cons key)
  next
    case (Cons kw kws)
    let ?tl = "join_with '','' (map member_text kvs)"
    have joined: "join_with '','' (map member_text (kv # kvs)) = member_text kv @ '','' @ ?tl"
      by (simp add: Cons)
    have fuel: "2 * (length (member_text kv) + 1 + length ?tl) + 2 \<le> Suc n"
      using Cons.prems(3) n unfolding joined by simp
    have "parse_val n (jt v @ CHR '','' # ?tl @ CHR ''}'' # rest) = Some (v, CHR '','' # ?tl @ CHR ''}'' # rest)"
      using fuel by (intro reads_backD[OF v]) (simp_all add: member_text_def kv)
    moreover have "parse_members n (?tl @ CHR ''}'' # rest) = Some (kvs, rest)"
      using Cons.prems fuel Cons by (intro Cons.IH) simp_all
    ultimately show ?thesis unfolding joined
      by (simp add: n kv member_text_def quote_json_def skip_ws_Cons key)
  qed
qed

lemma json_text_entries:
  assumes "list_all (\<lambda>kv. json_value (snd kv)) kvs"
  shows "concat (map (\<lambda>kv. case json_text (snd kv) of None \<Rightarrow> []
      | Some t \<Rightarrow> [quote_json (fst kv) @ '':'' @ t]) kvs) = map member_text kvs"
  using assms
proof (induction kvs)
  case Nil
  then show ?case by simp
next
  case (Cons kv kvs)
  then obtain t where "json_text (snd kv) = Some t" using json_value_text by auto
  with Cons show ?case by (simp add: member_text_def)
qed

lemma json_value_reads_back: "json_value v \<Longrightarrow> reads_back v"
proof (induction v)
  case (JArr vs)
  then have each: "\<forall>v \<in> set vs. reads_back v" by (simp add: list_all_iff)
  show ?case
    unfolding reads_back_def
  proof (intro allI impI)
    fix fuel rest assume "num_stop rest" and fuel: "2 * length (jt (JArr vs)) + 1 \<le> fuel"
    then obtain n where n: "fuel = Suc n" by (cases fuel) auto
    show "parse_val fuel (jt (JArr vs) @ rest) = Some (JArr vs, rest)"
    proof (cases vs)
      case Nil
      then show ?thesis by (simp add: n skip_ws_Cons)
    next
      case (Cons w ws)
      obtain c cs where c: "jt w = c # cs" "\<not> is_json_space c" "c \<noteq> CHR '']''"
        using jt_head[of w] JArr.prems Cons by auto
      obtain ds where ds: "join_with '','' (map jt vs) = c # ds"
        using c Cons by (cases ws) auto
      have "parse_elems n (join_with '','' (map jt vs) @ CHR '']'' # rest) = Some (vs, rest)"
        using each fuel n Cons by (intro parse_elems_jt) simp_all
      then show ?thesis using c ds by (simp add: n skip_ws_Cons)
    qed
  qed
next
  case (JObj kvs)
  then have each: "\<forall>kv \<in> set kvs. reads_back (snd kv)"
    by (auto simp: list_all_iff snds.simps)
  have vals: "list_all (\<lambda>kv. json_value (snd kv)) kvs" and ord: "js_ordered kvs"
    using JObj.prems by auto
  have shown: "jt (JObj kvs) = ''{'' @ join_with '','' (map member_text kvs) @ ''}''"
    by (simp add: json_text_entries[OF vals])
  show ?case
    unfolding reads_back_def shown
  proof (intro allI impI)
    fix fuel rest assume "num_stop rest"
      and fuel: "2 * length (''{'' @ join_with '','' (map member_text kvs) @ ''}'') + 1 \<le> fuel"
    then obtain n where n: "fuel = Suc n" by (cases fuel) auto
    show "parse_val fuel ((''{'' @ join_with '','' (map member_text kvs) @ ''}'') @ rest) =
        Some (JObj kvs, rest)"
    proof (cases kvs)
      case Nil
      then show ?thesis by (simp add: n skip_ws_Cons)
    next
      case (Cons kw kws)
      obtain m where "member_text kw = CHR 0x22 # m" using member_text_head by blast
      then obtain ds where ds: "join_with '','' (map member_text kvs) = CHR 0x22 # ds"
        using Cons by (cases kws) auto
      have "parse_members n (join_with '','' (map member_text kvs) @ CHR ''}'' # rest) = Some (kvs, rest)"
        using each fuel n Cons by (intro parse_members_jt) simp_all
      then show ?thesis using ds ord by (simp add: n skip_ws_Cons mk_obj_ordered)
    qed
  qed
qed (auto intro: reads_back_num reads_back_str reads_back_lit split: jnum.splits)

lemma json_parse_text: "json_value v \<Longrightarrow> json_text v = Some t \<Longrightarrow> json_parse t = Some v"
  using reads_backD[OF json_value_reads_back, of v "[]" "2 * length t + 2"]
  by (simp add: json_parse_def skip_ws_def)

section \<open>Normalised values\<close>

text \<open>The JavaScript values there are: property keys are distinct, number texts well formed.\<close>

fun wf_js :: "jv \<Rightarrow> bool" where
  "wf_js (JNum n) = (case n of NumFin t \<Rightarrow> is_num_text t | _ \<Rightarrow> True)"
| "wf_js (JArr vs) = list_all wf_js vs"
| "wf_js (JObj kvs) = (distinct (map fst kvs) \<and> list_all (\<lambda>kv. wf_js (snd kv)) kvs)"
| "wf_js _ = True"

text \<open>Printing turns \<open>-0\<close> into \<open>0\<close>.\<close>

fun unsign :: "jv \<Rightarrow> jv" where
  "unsign (JNum n) = (case n of NumNegZero \<Rightarrow> JNum (NumFin ''0'') | _ \<Rightarrow> JNum n)"
| "unsign (JArr vs) = JArr (map unsign vs)"
| "unsign (JObj kvs) = JObj (map (\<lambda>(k, v). (k, unsign v)) kvs)"
| "unsign v = v"

lemma seq_items_map [simp]: "seq_items (map Inr vs) = Inr vs"
  by (induction vs) auto

lemma seq_entries_map [simp]: "seq_entries (map (\<lambda>(k, v). (k, Inr v)) kvs) = Inr kvs"
  by (induction kvs) auto

lemma seq_items_InrD: "seq_items rs = Inr vs \<Longrightarrow> rs = map Inr vs"
  by (induction rs arbitrary: vs rule: seq_items.induct) (auto split: sum.splits)

lemma seq_entries_InrD: "seq_entries rs = Inr kvs \<Longrightarrow> rs = map (\<lambda>(k, v). (k, Inr v)) kvs"
  by (induction rs arbitrary: kvs rule: seq_entries.induct) (auto split: sum.splits)

lemma fst_comp_pair [simp]: "fst \<circ> (\<lambda>(k, v). (k, g k v)) = fst"
  by (simp add: fun_eq_iff)

lemma map_snd_js_order:
  "js_order (map (\<lambda>(k, v). (k, f v)) ob) = map (\<lambda>(k, v). (k, f v)) (js_order ob)"
proof -
  have ins: "insort_key (\<lambda>(k, _). dec_val 0 k) (k, f v) (map (\<lambda>(k, v). (k, f v)) xs) =
      map (\<lambda>(k, v). (k, f v)) (insort_key (\<lambda>(k, _). dec_val 0 k) (k, v) xs)" for k v xs
    by (induction xs) auto
  have sort: "sort_key (\<lambda>(k, _). dec_val 0 k) (map (\<lambda>(k, v). (k, f v)) xs) =
      map (\<lambda>(k, v). (k, f v)) (sort_key (\<lambda>(k, _). dec_val 0 k) xs)" for xs
    by (induction xs) (auto simp: ins sort_key_simps)
  have filt: "filter (\<lambda>(k, _). P k) (map (\<lambda>(k, v). (k, f v)) xs) =
      map (\<lambda>(k, v). (k, f v)) (filter (\<lambda>(k, _). P k) xs)" for P xs
    by (induction xs) auto
  show ?thesis unfolding js_order_def filt sort by simp
qed

lemma js_ordered_map_snd: "js_ordered ob \<Longrightarrow> js_ordered (map (\<lambda>(k, v). (k, f v)) ob)"
  by (simp add: js_ordered_def map_snd_js_order)

lemma normalizeJson_obj_Inr:
  assumes "normalizeJson p (JObj kvs) = Inr w"
  obtains entries where "w = JObj (mk_obj (filter (\<lambda>(k, _). k \<noteq> ''__proto__'') entries))"
    and "sort_key fst (map (\<lambda>(k, v). (k, normalizeJson (p @ ''.'' @ k) v)) kvs) =
      map (\<lambda>(k, v). (k, Inr v)) entries"
  using assms by (auto dest!: seq_entries_InrD split: sum.splits)

lemma normalizeJson_arr_Inr:
  assumes "normalizeJson p (JArr vs) = Inr w"
  obtains ws where "w = JArr ws" and "length ws = length vs"
    and "\<And>i. i < length vs \<Longrightarrow> normalizeJson (index_path p i) (vs ! i) = Inr (ws ! i)"
proof -
  from assms obtain ws where ws: "w = JArr ws"
      "map (\<lambda>(i, v). normalizeJson (index_path p i) v) (enumerate 0 vs) = map Inr ws"
    by (auto dest!: seq_items_InrD split: sum.splits)
  have len: "length ws = length vs"
    using arg_cong[OF ws(2), of length] by (simp add: enumerate_eq_zip)
  moreover have "normalizeJson (index_path p i) (vs ! i) = Inr (ws ! i)" if "i < length vs" for i
  proof -
    have "map (\<lambda>(i, v). normalizeJson (index_path p i) v) (enumerate 0 vs) ! i = map Inr ws ! i"
      using ws(2) by simp
    then show ?thesis using that len by (simp add: enumerate_eq_zip)
  qed
  ultimately show ?thesis using that ws(1) by blast
qed

lemma entries_keys:
  fixes g :: "string \<Rightarrow> 'u \<Rightarrow> ('e, 'v) result"
  assumes "sort_key fst (map (\<lambda>(k, v). (k, g k v)) kvs) = map (\<lambda>(k, v). (k, Inr v)) entries"
    and "distinct (map fst kvs)"
  shows "distinct (map fst entries)"
    and "\<And>k v. (k, v) \<in> set entries \<Longrightarrow> \<exists>u. (k, u) \<in> set kvs \<and> g k u = Inr v"
proof -
  have "mset (map fst entries) = mset (map fst (map (\<lambda>(k, v). (k, Inr v :: ('e, 'v) result)) entries))"
    unfolding list.map_comp fst_comp_pair ..
  also have "\<dots> = mset (map fst (map (\<lambda>(k, v). (k, g k v)) kvs))"
    unfolding assms(1)[symmetric] by (simp only: mset_map mset_sort)
  also have "map fst (map (\<lambda>(k, v). (k, g k v)) kvs) = map fst kvs"
    unfolding list.map_comp fst_comp_pair ..
  finally show "distinct (map fst entries)" using assms(2) mset_eq_imp_distinct_iff by blast
  fix k v assume "(k, v) \<in> set entries"
  then have "(k, Inr v) \<in> set (sort_key fst (map (\<lambda>(k, v). (k, g k v)) kvs))"
    unfolding assms(1) by force
  then have "(k, Inr v) \<in> set (map (\<lambda>(k, v). (k, g k v)) kvs)" by (simp only: set_sort)
  then show "\<exists>u. (k, u) \<in> set kvs \<and> g k u = Inr v" by auto
qed

lemma distinct_fst_filter: "distinct (map fst xs) \<Longrightarrow> distinct (map fst (filter P xs))"
  by (simp add: distinct_map_filter)

lemma unsign_normalized:
  "wf_js v \<Longrightarrow> normalizeJson p v = Inr w \<Longrightarrow> json_value (unsign w)"
proof (induction v arbitrary: p w)
  case (JNum n)
  then show ?case by (cases n) (auto simp: is_num_text_def num_char_def unsigned_part_def frac_exp_part_def char_class_defs)
next
  case (JArr vs)
  obtain ws where ws: "w = JArr ws" "length ws = length vs"
      "\<And>i. i < length vs \<Longrightarrow> normalizeJson (index_path p i) (vs ! i) = Inr (ws ! i)"
    using normalizeJson_arr_Inr[OF JArr.prems(2)] by blast
  have "json_value (unsign (ws ! i))" if "i < length ws" for i
    using JArr.IH[of "vs ! i" "index_path p i" "ws ! i"] JArr.prems(1) ws that
    by (simp add: list_all_length)
  then show ?case using ws by (simp add: list_all_length)
next
  case (JObj kvs)
  obtain entries where e: "w = JObj (mk_obj (filter (\<lambda>(k, _). k \<noteq> ''__proto__'') entries))"
      "sort_key fst (map (\<lambda>(k, v). (k, normalizeJson (p @ ''.'' @ k) v)) kvs) =
        map (\<lambda>(k, v). (k, Inr v)) entries"
    using normalizeJson_obj_Inr[OF JObj.prems(2)] by blast
  let ?kept = "filter (\<lambda>(k, _). k \<noteq> ''__proto__'') entries"
  have kvs: "distinct (map fst kvs)" "\<forall>kv \<in> set kvs. wf_js (snd kv)"
    using JObj.prems by (auto simp: list_all_iff)
  note keys = entries_keys[OF e(2) kvs(1)]
  have d: "distinct (map fst ?kept)" using keys(1) by (rule distinct_fst_filter)
  have vals: "json_value (unsign v)" if kv: "(k, v) \<in> set entries" for k v
  proof -
    obtain u where u: "(k, u) \<in> set kvs" "normalizeJson (p @ ''.'' @ k) u = Inr v"
      using keys(2)[OF kv] by blast
    then show ?thesis
      using JObj.IH[of "(k, u)" u "p @ ''.'' @ k" v] kvs(2) by (force simp: snds.simps)
  qed
  have "js_ordered (mk_obj ?kept)" using d by (rule js_ordered_mk_obj)
  then have "js_ordered (map (\<lambda>(k, v). (k, unsign v)) (mk_obj ?kept))" by (rule js_ordered_map_snd)
  moreover have "set (mk_obj ?kept) \<subseteq> set entries" using d by (auto simp: mk_obj_distinct)
  ultimately show ?case using vals e(1) by (auto simp: list_all_iff)
qed auto

lemma json_text_unsign: "json_text (unsign v) = json_text v"
proof (induction v)
  case (JNum n)
  then show ?case by (cases n) auto
next
  case (JArr vs)
  then have "map jt (map unsign vs) = map jt vs" by simp
  then show ?case by (simp only: unsign.simps json_text.simps)
next
  case (JObj kvs)
  let ?E = "\<lambda>kv. case json_text (snd kv) of None \<Rightarrow> []
    | Some t \<Rightarrow> [quote_json (fst kv) @ '':'' @ t]"
  have "?E (case kv of (k, v) \<Rightarrow> (k, unsign v)) = ?E kv" if "kv \<in> set kvs" for kv
  proof -
    obtain k v where kv: "kv = (k, v)" by (cases kv)
    then have "json_text (unsign v) = json_text v" using JObj.IH[of kv v] that by (simp add: snds.simps)
    then show ?thesis unfolding kv by (simp split: option.split)
  qed
  then have "map ?E (map (\<lambda>(k, v). (k, unsign v)) kvs) = map ?E kvs" by simp
  then show ?case by (simp only: unsign.simps json_text.simps)
qed auto

section \<open>The canonical text\<close>

lemma json_value_normalizes: "json_value v \<Longrightarrow> \<exists>w. normalizeJson p v = Inr w"
proof (induction v arbitrary: p)
  case (JNum n)
  then show ?case by (cases n) auto
next
  case (JArr vs)
  have "\<exists>w. normalizeJson (index_path p i) v = Inr w" if "(i, v) \<in> set (enumerate 0 vs)" for i v
    using JArr that by (auto simp: enumerate_eq_zip list_all_iff dest: set_zip_rightD)
  then have "\<forall>r \<in> set (map (\<lambda>(i, v). normalizeJson (index_path p i) v) (enumerate 0 vs)). \<exists>w. r = Inr w"
    by auto
  then have "\<exists>ws. map (\<lambda>(i, v). normalizeJson (index_path p i) v) (enumerate 0 vs) = map Inr ws"
    by (simp only: ex_map_conv)
  then show ?case by auto
next
  case (JObj kvs)
  have "\<exists>w. normalizeJson (p @ ''.'' @ k) v = Inr w" if "(k, v) \<in> set kvs" for k v
    using JObj that by (force simp: list_all_iff snds.simps)
  then have "\<forall>r \<in> set (map (\<lambda>(k, v). (k, normalizeJson (p @ ''.'' @ k) v)) kvs). \<exists>e. r = (\<lambda>(k, v). (k, Inr v)) e"
    by fastforce
  then have "\<exists>es. sort_key fst (map (\<lambda>(k, v). (k, normalizeJson (p @ ''.'' @ k) v)) kvs) =
      map (\<lambda>(k, v). (k, Inr v)) es"
    by (simp only: ex_map_conv set_sort)
  then obtain es where "sort_key fst (map (\<lambda>(k, v). (k, normalizeJson (p @ ''.'' @ k) v)) kvs) =
      map (\<lambda>(k, v). (k, Inr v)) es" by blast
  then show ?case by simp
qed auto

lemma canonicalJson_reads_back:
  assumes "wf_js v" "canonicalJson v d = Inr t"
  obtains w where "normalizeJson d v = Inr w" and "json_text w = Some t"
    and "parseStoredJson t d' = Inr (unsign w)"
proof -
  obtain w where w: "normalizeJson d v = Inr w" using assms by (auto simp: canonicalJson_def split: sum.splits)
  have val: "json_value (unsign w)" using unsign_normalized[OF assms(1) w] .
  then obtain t' where "json_text (unsign w) = Some t'" using json_value_text by blast
  then have printed: "json_text w = Some t" using assms w by (simp add: canonicalJson_def json_text_unsign)
  then have "json_parse t = Some (unsign w)"
    using json_parse_text[OF val] by (simp add: json_text_unsign)
  moreover obtain u where "normalizeJson d' (unsign w) = Inr u"
    using json_value_normalizes[OF val] by blast
  ultimately have "parseStoredJson t d' = Inr (unsign w)" by (simp add: parseStoredJson_def)
  then show ?thesis using that w printed by blast
qed

text \<open>Values that differ in the order of properties only, at any depth.\<close>

inductive same_json :: "jv \<Rightarrow> jv \<Rightarrow> bool" where
  same: "same_json v v"
| items: "list_all2 same_json vs ws \<Longrightarrow> same_json (JArr vs) (JArr ws)"
| props: "list_all2 (\<lambda>a b. fst a = fst b \<and> same_json (snd a) (snd b)) kvs lws \<Longrightarrow>
    mset lws' = mset lws \<Longrightarrow> same_json (JObj kvs) (JObj lws')"

lemma sort_key_mset_fst:
  "mset xs = mset ys \<Longrightarrow> distinct (map fst ys) \<Longrightarrow> sort_key fst xs = sort_key fst ys"
proof -
  assume "mset xs = mset ys" "distinct (map fst ys)"
  then have "inj_on fst (set xs)" by (metis distinct_map mset_eq_setD)
  then show ?thesis
    using \<open>mset xs = mset ys\<close> by (intro sort_key_inj_key_eq) simp_all
qed

lemma same_json_normalizes: "same_json v w \<Longrightarrow> wf_js v \<Longrightarrow> normalizeJson p v = normalizeJson p w"
proof (induction arbitrary: p rule: same_json.induct)
  case (same v)
  show ?case ..
next
  case (items vs ws)
  then have len: "length vs = length ws"
    and each: "\<And>i p. i < length vs \<Longrightarrow> normalizeJson p (vs ! i) = normalizeJson p (ws ! i)"
    by (auto simp: list_all2_conv_all_nth list_all_length)
  have "map (\<lambda>(i, v). normalizeJson (index_path p i) v) (enumerate 0 vs) =
      map (\<lambda>(i, v). normalizeJson (index_path p i) v) (enumerate 0 ws)"
    by (rule nth_equalityI) (simp_all add: enumerate_eq_zip len each)
  then show ?case by simp
next
  case (props kvs lws lws')
  let ?norm = "map (\<lambda>(k, v). (k, normalizeJson (p @ ''.'' @ k) v))"
  have eq: "?norm kvs = ?norm lws"
    by (rule nth_equalityI)
      (use props in \<open>auto simp: list_all2_conv_all_nth list_all_length case_prod_beta'\<close>)
  have keys: "map fst (?norm lws) = map fst kvs"
    unfolding eq[symmetric] list.map_comp fst_comp_pair ..
  have "sort_key fst (?norm lws') = sort_key fst (?norm kvs)"
    unfolding eq by (rule sort_key_mset_fst) (use props keys in simp_all)
  then show ?case by (simp only: normalizeJson.simps)
qed

end
