(* ===== verification/StoreSchema.thy ===== *)
theory StoreSchema
  imports JsTime JsonRoundtrip
begin

text \<open>
  The tables of the controller store (src/controllers/sqlite.ts), the errors its operations throw,
  and the validators and statement combinators they share.  A row record is a row type of the
  source with the column names shortened; \<open>_json\<close> columns hold the JSON text.

  An operation receives \<open>now\<close> as the value of \<open>options.now ?? new Date().toISOString()\<close>, and the
  identifiers \<open>randomUUID()\<close> returns as arguments.
\<close>

section \<open>Rows\<close>

record resource_row =
  rr_controller :: string
  rr_key :: string
  rr_uid :: string
  rr_version :: nat
  rr_generation :: nat
  rr_spec :: string
  rr_status :: string
  rr_deletion :: "string option"
  rr_finalizers :: string
  rr_updated :: string

record queue_row =
  q_controller :: string
  q_key :: string
  q_available :: int
  q_version :: nat
  q_errors :: nat
  q_last_error :: "string option"
  q_token :: "string option"
  q_claim_version :: "nat option"
  q_expires :: "int option"

datatype effect_state = EffPending | EffApplied | EffRejected | EffIndeterminate

record effect_row =
  e_key :: string
  e_uid :: string
  e_generation :: nat
  e_kind :: string
  e_state :: effect_state
  e_fingerprint :: string
  e_started :: string
  e_completed :: "string option"
  e_external :: "string option"
  e_error :: "string option"

datatype child_state =
  ChPending | ChRunning | ChWaiting | ChSucceeded | ChFailed | ChInterrupted

record request_row =
  w_id :: string
  w_uid :: string
  w_key :: string
  w_fingerprint :: string
  w_workflow :: string
  w_run :: "string option"
  w_state :: child_state
  w_attempt :: nat
  w_error :: "string option"

datatype launch_status =
  Queued | Starting | Running | Parked | Done | Failed | Cancelled

record run_row =
  u_run :: string
  u_ref :: string
  u_path :: string
  u_source :: string
  u_digest :: string
  u_input :: string
  u_launch :: string
  u_status :: launch_status
  u_runner :: "string option"
  u_token :: "string option"
  u_expires :: "int option"
  u_affinity :: "string option"
  u_origin :: "string option"
  u_parent :: "string option"
  u_err_code :: "string option"
  u_err_message :: "string option"
  u_created :: string
  u_updated :: string
  u_started :: "string option"
  u_finished :: "string option"

datatype notification_kind = NkProgress | NkFinal

record notification_row =
  n_id :: string
  n_run :: string
  n_node :: string
  n_attempt :: string
  n_index :: int
  n_session :: string
  n_kind :: notification_kind
  n_content :: string
  n_created :: string
  n_token :: "string option"
  n_expires :: "int option"
  n_delivered :: "string option"

datatype intent_cause =
  AgentCancelled | TimedOut | CauseFailed | LaunchFailed | ControllerInterrupted | ClaimLost

datatype intent_resolution = WorkflowPrompt | Presentation | Fallback

record intent_row =
  i_id :: string
  i_source :: string
  i_run :: string
  i_ref :: string
  i_session :: string
  i_cause :: intent_cause
  i_node :: "string option"
  i_attempt :: "string option"
  i_facts :: string
  i_requested :: string
  i_eligible :: "string option"
  i_resolved :: "string option"
  i_resolution :: "intent_resolution option"
  i_message :: "string option"
  i_token :: "string option"
  i_expires :: "int option"

record event_row =
  ev_seq :: nat
  ev_at :: string
  ev_controller :: string
  ev_key :: string
  ev_type :: string
  ev_payload :: string

record run_event_row =
  re_seq :: nat
  re_at :: string
  re_run :: string
  re_ref :: string
  re_type :: string
  re_runner :: "string option"
  re_payload :: string

text \<open>\<open>AUTOINCREMENT\<close> never reuses a number: the store remembers the last one given out.\<close>

record db =
  resources :: "resource_row list"
  queue :: "queue_row list"
  effects :: "effect_row list"
  requests :: "request_row list"
  runs :: "run_row list"
  notifications :: "notification_row list"
  intents :: "intent_row list"
  events :: "event_row list"
  last_event :: nat
  run_events :: "run_event_row list"
  last_run_event :: nat

definition empty_db :: db where
  "empty_db = \<lparr>resources = [], queue = [], effects = [], requests = [], runs = [],
     notifications = [], intents = [], events = [], last_event = 0, run_events = [],
     last_run_event = 0\<rparr>"

section \<open>Errors\<close>

datatype store_error =
    InvalidTimestamp string
  | TimestampRange string
  | IsoRange int
  | BadDuration string
  | BadName string
  | BadKey string
  | BadRunId
  | BadLimit
  | BadIndex
  | BadContent
  | BadErrorMessage
  | DuplicateFinalizer string
  | CorruptRow string
  | TooLarge string
  | BadJson json_error
  | SqlConstraint string
  | ResourceConflict string string
  | ResourceNotFound string string
  | NotReadyForDeletion string string
  | EffectRequestConflict string
  | EffectNotFound string string
  | EffectAlready string effect_state
  | WorkflowRequestConflict string
  | WorkflowRequestNotFound string
  | RunNotFound string
  | EventNotFound nat
  | IntentNotStored string
  | IntentConflict string
  | BadFacts string

type_synonym 'a store_op = "(store_error, db, 'a) op"

section \<open>Combinators\<close>

definition guarded :: "(bool \<times> 'e) list \<Rightarrow> ('e, 's, 'a) op \<Rightarrow> ('e, 's, 'a) op" where
  "guarded checks f s = (case first_failure checks of Some e \<Rightarrow> (Inl e, s) | None \<Rightarrow> f s)"

text \<open>A value computed without touching the store, or its error.\<close>

definition with_result :: "('e, 'b) result \<Rightarrow> ('b \<Rightarrow> ('e, 's, 'a) op) \<Rightarrow> ('e, 's, 'a) op" where
  "with_result r f s = (case r of Inl e \<Rightarrow> (Inl e, s) | Inr b \<Rightarrow> f b s)"

text \<open>One operation after another.\<close>

definition and_then :: "('e, 's, 'b) op \<Rightarrow> ('b \<Rightarrow> ('e, 's, 'a) op) \<Rightarrow> ('e, 's, 'a) op" where
  "and_then m f s = (case m s of (Inl e, s') \<Rightarrow> (Inl e, s') | (Inr b, s') \<Rightarrow> f b s')"

definition return_op :: "'a \<Rightarrow> ('e, 's, 'a) op" where
  "return_op a s = (Inr a, s)"

lemma guarded_Inr: "guarded checks f s = (Inr a, s') \<longleftrightarrow> list_all fst checks \<and> f s = (Inr a, s')"
  by (auto simp: guarded_def first_failure_None[symmetric] split: option.splits)

lemma guarded_pass: "list_all fst checks \<Longrightarrow> guarded checks f s = f s"
  by (simp add: guarded_def first_failure_None[symmetric])

lemma with_result_Inr: "with_result r f s = (Inr a, s') \<longleftrightarrow> (\<exists>b. r = Inr b \<and> f b s = (Inr a, s'))"
  by (auto simp: with_result_def split: sum.splits)

lemma and_then_Inr:
  "and_then m f s = (Inr a, s') \<longleftrightarrow> (\<exists>b t. m s = (Inr b, t) \<and> f b t = (Inr a, s'))"
  by (auto simp: and_then_def split: prod.splits sum.splits)

lemma transact_Inr: "transact f s = (Inr a, s') \<longleftrightarrow> f s = (Inr a, s')"
  by (auto simp: transact_def split: prod.splits sum.splits)

lemmas op_Inr = guarded_Inr with_result_Inr and_then_Inr transact_Inr

text \<open>
  What an operation may do to the store: a relation between the stores before and after, kept by
  every outcome, thrown errors included.  Each combinator passes it on, so a component proves it
  for its single statements.
\<close>

definition keeps :: "('s \<Rightarrow> 's \<Rightarrow> bool) \<Rightarrow> ('e, 's, 'a) op \<Rightarrow> bool" where
  "keeps R f \<longleftrightarrow> (\<forall>s. R s (snd (f s)))"

lemma keepsD: "keeps R f \<Longrightarrow> f s = (r, s') \<Longrightarrow> R s s'"
  by (metis keeps_def snd_conv)

lemma keeps_guarded: "reflp R \<Longrightarrow> keeps R f \<Longrightarrow> keeps R (guarded checks f)"
  by (auto simp: keeps_def guarded_def reflp_def split: option.splits)

lemma keeps_with_result: "reflp R \<Longrightarrow> (\<And>b. r = Inr b \<Longrightarrow> keeps R (f b)) \<Longrightarrow> keeps R (with_result r f)"
  by (auto simp: keeps_def with_result_def reflp_def split: sum.splits)

lemma keeps_and_then: "transp R \<Longrightarrow> keeps R m \<Longrightarrow> (\<And>b. keeps R (f b)) \<Longrightarrow> keeps R (and_then m f)"
proof (unfold keeps_def, rule allI)
  fix s
  assume trans: "transp R" and m: "\<forall>s. R s (snd (m s))" and f: "\<And>b. \<forall>s. R s (snd (f b s))"
  obtain r t where step: "m s = (r, t)" by (cases "m s")
  have first: "R s t" using m step by (metis snd_conv)
  show "R s (snd (and_then m f s))"
  proof (cases r)
    case (Inl e)
    then show ?thesis using first by (simp add: and_then_def step)
  next
    case (Inr b)
    then show ?thesis using first f[of b] transpD[OF trans, of s t] by (simp add: and_then_def step)
  qed
qed

lemma keeps_transact: "reflp R \<Longrightarrow> keeps R f \<Longrightarrow> keeps R (transact f)"
  by (auto simp: keeps_def transact_def reflp_def split: prod.splits sum.splits) (metis snd_conv)

lemma keeps_return: "reflp R \<Longrightarrow> keeps R (return_op a)"
  by (simp add: keeps_def return_op_def reflp_def)

lemma keeps_throw: "reflp R \<Longrightarrow> keeps R (\<lambda>s. (r s, s))"
  by (simp add: keeps_def reflp_def)

lemma keeps_if: "(c \<Longrightarrow> keeps R f) \<Longrightarrow> (\<not> c \<Longrightarrow> keeps R g) \<Longrightarrow> keeps R (if c then f else g)"
  by simp

text \<open>An invariant of the store is the case of a relation that only looks at both ends.\<close>

definition preserves :: "('s \<Rightarrow> bool) \<Rightarrow> ('e, 's, 'a) op \<Rightarrow> bool" where
  "preserves P f \<longleftrightarrow> keeps (\<lambda>s s'. P s \<longrightarrow> P s') f"

lemma preservesI: "(\<And>s. P s \<Longrightarrow> P (snd (f s))) \<Longrightarrow> preserves P f"
  by (simp add: preserves_def keeps_def)

lemma preservesD: "preserves P f \<Longrightarrow> P s \<Longrightarrow> P (snd (f s))"
  by (simp add: preserves_def keeps_def)

lemma invariant_relation: "reflp (\<lambda>s s'. P s \<longrightarrow> P s')" "transp (\<lambda>s s'. P s \<longrightarrow> P s')"
  by (auto simp: reflp_def transp_def)

lemma preserves_guarded:
  "(list_all fst checks \<Longrightarrow> preserves P f) \<Longrightarrow> preserves P (guarded checks f)"
  by (auto simp: preserves_def keeps_def guarded_def first_failure_None[symmetric] split: option.splits)

lemma preserves_with_result:
  "(\<And>b. r = Inr b \<Longrightarrow> preserves P (f b)) \<Longrightarrow> preserves P (with_result r f)"
  unfolding preserves_def by (intro keeps_with_result invariant_relation)

lemma preserves_and_then:
  "preserves P m \<Longrightarrow> (\<And>b. preserves P (f b)) \<Longrightarrow> preserves P (and_then m f)"
  unfolding preserves_def by (intro keeps_and_then invariant_relation)

lemma preserves_transact: "preserves P f \<Longrightarrow> preserves P (transact f)"
  unfolding preserves_def by (intro keeps_transact invariant_relation)

lemma preserves_return: "preserves P (return_op a)"
  unfolding preserves_def by (intro keeps_return invariant_relation)

lemma preserves_if: "(c \<Longrightarrow> preserves P f) \<Longrightarrow> (\<not> c \<Longrightarrow> preserves P g) \<Longrightarrow> preserves P (if c then f else g)"
  by simp

lemmas preserves_intros = preserves_guarded preserves_with_result preserves_and_then
  preserves_transact preserves_return preserves_if

section \<open>Validators\<close>

definition MAX_KEY_LENGTH :: nat where "MAX_KEY_LENGTH = 512"
definition MAX_ERROR_LENGTH :: nat where "MAX_ERROR_LENGTH = 8192"
definition MAX_EVENT_BYTES :: nat where "MAX_EVENT_BYTES = 65536"
definition MAX_RESOURCE_VALUE_BYTES :: nat where "MAX_RESOURCE_VALUE_BYTES = 1048576"
definition MAX_SAFE_INTEGER :: int where "MAX_SAFE_INTEGER = 9007199254740991"

definition validTimestamp :: "string \<Rightarrow> bool \<times> store_error" where
  "validTimestamp t = (date_parse t \<noteq> None, InvalidTimestamp t)"

definition epoch :: "string \<Rightarrow> (store_error, int) result" where
  "epoch t = (case date_parse t of
     None \<Rightarrow> Inl (TimestampRange t)
   | Some ms \<Rightarrow> if \<bar>ms\<bar> \<le> MAX_SAFE_INTEGER then Inr ms else Inl (TimestampRange t))"

definition iso :: "int \<Rightarrow> (store_error, string) result" where
  "iso ms = (case iso_string ms of None \<Rightarrow> Inl (IsoRange ms) | Some t \<Rightarrow> Inr t)"

definition validateDuration :: "int \<Rightarrow> string \<Rightarrow> bool \<times> store_error" where
  "validateDuration n name = (0 < n \<and> n \<le> MAX_SAFE_INTEGER, BadDuration name)"

definition validateName :: "string \<Rightarrow> string \<Rightarrow> bool \<times> store_error" where
  "validateName v description = (name_pattern v, BadName description)"

definition valid_key :: "string \<Rightarrow> bool" where
  "valid_key v \<longleftrightarrow> 0 < length v \<and> length v \<le> MAX_KEY_LENGTH \<and>
     list_all (\<lambda>c. \<not> (code_of c < 32 \<or> code_of c = 127)) v"

definition validateKey :: "string \<Rightarrow> string \<Rightarrow> bool \<times> store_error" where
  "validateKey v description = (valid_key v, BadKey description)"

definition validateRunId :: "string \<Rightarrow> bool \<times> store_error" where
  "validateRunId v = (run_id_pattern v, BadRunId)"

text \<open>Bytes of a string in UTF-8: code units from 128 on take two.\<close>

definition utf8_length :: "string \<Rightarrow> nat" where
  "utf8_length s = length s + length (filter (\<lambda>c. 128 \<le> code_of c) s)"

definition validateJsonSize :: "string \<Rightarrow> string \<Rightarrow> nat \<Rightarrow> bool \<times> store_error" where
  "validateJsonSize v description limit = (utf8_length v \<le> limit, TooLarge description)"

text \<open>The horizontal ellipsis U+2026 stands as the one code unit 0x85 of Windows-1252.\<close>

definition truncateError :: "string \<Rightarrow> string" where
  "truncateError e =
     (if length e \<le> MAX_ERROR_LENGTH then e else take MAX_ERROR_LENGTH e @ [CHR 0x85])"

definition validateFinalizers :: "string list \<Rightarrow> (bool \<times> store_error) list" where
  "validateFinalizers fs =
     concat (map (\<lambda>i. [validateName (fs ! i) ''finalizer'',
       (fs ! i \<notin> set (take i fs), DuplicateFinalizer (fs ! i))]) [0..<length fs])"

definition json_column :: "jv \<Rightarrow> string \<Rightarrow> (store_error, string) result" where
  "json_column v description =
     (case canonicalJson v description of Inl e \<Rightarrow> Inl (BadJson e) | Inr t \<Rightarrow> Inr t)"

definition stored_json :: "string \<Rightarrow> string \<Rightarrow> (store_error, jv) result" where
  "stored_json t description =
     (case parseStoredJson t description of Inl e \<Rightarrow> Inl (BadJson e) | Inr v \<Rightarrow> Inr v)"

lemmas validator_defs = validTimestamp_def validateDuration_def validateName_def validateKey_def
  validateRunId_def validateJsonSize_def

lemma epoch_Inr: "epoch t = Inr ms \<longleftrightarrow> date_parse t = Some ms \<and> \<bar>ms\<bar> \<le> MAX_SAFE_INTEGER"
  by (auto simp: epoch_def split: option.splits)

lemma truncateError_length: "length (truncateError e) \<le> MAX_ERROR_LENGTH + 1"
  by (simp add: truncateError_def)

lemma validateFinalizers_ok:
  "list_all fst (validateFinalizers fs) \<longleftrightarrow> list_all name_pattern fs \<and> distinct fs"
proof -
  have "list_all fst (validateFinalizers fs) \<longleftrightarrow>
      (\<forall>i < length fs. name_pattern (fs ! i) \<and> fs ! i \<notin> set (take i fs))"
    by (auto simp: validateFinalizers_def validateName_def list_all_iff)
  moreover have "(\<forall>i < length fs. fs ! i \<notin> set (take i fs)) \<longleftrightarrow> distinct fs"
  proof
    assume new: "\<forall>i < length fs. fs ! i \<notin> set (take i fs)"
    show "distinct fs"
      unfolding distinct_conv_nth
    proof (intro allI impI)
      fix i j assume ij: "i < length fs" "j < length fs" "i \<noteq> j"
      show "fs ! i \<noteq> fs ! j"
      proof (cases "i < j")
        case True
        then have "fs ! i \<in> set (take j fs)" using ij by (auto simp: in_set_conv_nth)
        then show ?thesis using new ij by metis
      next
        case False
        then have "j < i" using ij by simp
        then have "fs ! j \<in> set (take i fs)" using ij by (auto simp: in_set_conv_nth)
        then show ?thesis using new ij by metis
      qed
    qed
  next
    assume "distinct fs"
    then show "\<forall>i < length fs. fs ! i \<notin> set (take i fs)"
      by (auto simp: in_set_conv_nth nth_eq_iff_index_eq)
  qed
  ultimately show ?thesis by (auto simp: list_all_length)
qed

text \<open>What a JSON column of the store holds can be read back.\<close>

lemma json_column_reads_back:
  assumes "wf_js v" "json_column v d = Inr t"
  shows "\<exists>w. stored_json t d' = Inr w"
proof -
  have "canonicalJson v d = Inr t"
    using assms(2) by (simp add: json_column_def split: sum.splits)
  then obtain w where "parseStoredJson t d' = Inr (unsign w)"
    using canonicalJson_reads_back[OF assms(1)] by blast
  then show ?thesis by (simp add: stored_json_def)
qed

section \<open>Evaluation\<close>

lemmas store_eval = guarded_def with_result_def epoch_def validator_defs name_pattern_def
  valid_key_def MAX_KEY_LENGTH_def MAX_SAFE_INTEGER_def char_class_defs transact_def sql_first_def
  sql_all_def and_then_def sql_update_def sql_get_def sql_changes_def sql_delete_def Let_def

lemma sample_parse: "json_parse ''{}'' = Some (JObj [])" "json_parse ''[]'' = Some (JArr [])"
  "json_parse ''null'' = Some JNull"
  by code_simp+

lemma sample_times:
  "date_parse ''1970-01-01T00:00:01.000Z'' = Some 1000" "date_parse ''1970-01-01T00:00:02.000Z'' = Some 2000"
  "date_parse ''1970-01-01T00:00:09.000Z'' = Some 9000"
  by (simp_all add: date_parse_eval)

lemma sample_iso: "iso_string 6000 = Some ''1970-01-01T00:00:06.000Z''"
  unfolding iso_string_def Let_def by (simp add: iso_string_eval)

section \<open>Properties of stored values\<close>

text \<open>
  C36: Canonical JSON reads back.  Whatever JavaScript value canonicalJson accepts, the text it
  prints parses again with parseStoredJson, to the normalised value it printed (with every minus
  zero read as zero, as JSON.stringify prints it).
\<close>

theorem canonical_json_round_trip:
  assumes "wf_js v" and "canonicalJson v description = Inr t"
  shows "\<exists>w. normalizeJson description v = Inr w \<and> parseStoredJson t d = Inr (unsign w)"
  using canonicalJson_reads_back[OF assms] by metis

theorem canonical_json_round_trip_witness:
  "\<exists>w. normalizeJson ''value'' (JObj [(''b'', JNum NumNegZero), (''a'', JArr [])]) = Inr w \<and>
    parseStoredJson ''{\"a\":[],\"b\":0}'' ''stored'' = Inr (unsign w)"
proof (rule canonical_json_round_trip)
  show "wf_js (JObj [(''b'', JNum NumNegZero), (''a'', JArr [])])" by code_simp
  show "canonicalJson (JObj [(''b'', JNum NumNegZero), (''a'', JArr [])]) ''value'' = Inr ''{\"a\":[],\"b\":0}''"
    by code_simp
qed

text \<open>
  Fingerprints ignore property order.  Two values that differ only in the order of object
  properties, at any depth, have the same canonical text and the same fingerprint, whatever the
  digest function.
\<close>

theorem fingerprint_ignores_key_order:
  assumes "wf_js v" and "same_json v w"
  shows "canonicalJson w description = canonicalJson v description \<and> jsonFingerprint sha256 w = jsonFingerprint sha256 v"
  using same_json_normalizes[OF assms(2,1)] by (simp add: canonicalJson_def jsonFingerprint_def)

theorem fingerprint_ignores_key_order_witness:
  "canonicalJson (JObj [(''b'', JNull), (''a'', JNull)]) ''value'' = canonicalJson (JObj [(''a'', JNull), (''b'', JNull)]) ''value'' \<and>
   jsonFingerprint rev (JObj [(''b'', JNull), (''a'', JNull)]) = jsonFingerprint rev (JObj [(''a'', JNull), (''b'', JNull)])"
proof (rule fingerprint_ignores_key_order)
  show "wf_js (JObj [(''a'', JNull), (''b'', JNull)])" by code_simp
  show "same_json (JObj [(''a'', JNull), (''b'', JNull)]) (JObj [(''b'', JNull), (''a'', JNull)])"
    by (rule same_json.props[where lws = "[(''a'', JNull), (''b'', JNull)]"]) (auto intro: same_json.same)
qed

text \<open>
  A property named __proto__ is lost.  normalizeJson rebuilds objects by plain assignment, so
  an own property __proto__ (as JSON.parse creates it) is dropped: an object with it and the empty
  object have the same canonical text and the same fingerprint, whatever the digest.
\<close>

theorem proto_property_lost:
  "canonicalJson (JObj [(''__proto__'', JStr s)]) description = canonicalJson (JObj []) description \<and>
   jsonFingerprint sha256 (JObj [(''__proto__'', JStr s)]) = jsonFingerprint sha256 (JObj [])"
  by (simp add: canonicalJson_def jsonFingerprint_def)

text \<open>
  Lease times survive printing.  For every instant of the years 1970 to 9999 the store's iso
  prints a timestamp that its epoch reads back to the same millisecond.
\<close>

theorem lease_time_round_trip:
  assumes "0 \<le> t" and "t < 253402300800000"
  shows "\<exists>s. iso t = Inr s \<and> epoch s = Inr t \<and> fst (validTimestamp s)"
  using date_parse_iso[OF assms] assms
  by (auto simp: iso_def epoch_def validTimestamp_def MAX_SAFE_INTEGER_def)

theorem lease_time_round_trip_witness:
  "\<exists>s. iso 1767571200000 = Inr s \<and> epoch s = Inr 1767571200000 \<and> fst (validTimestamp s)"
  by (rule lease_time_round_trip) simp_all

end
