(* ===== verification/Lease.thy ===== *)
theory Lease
  imports Prelude
begin

text \<open>
  The contract the claim tables of the store share.  A row is held under a token until an expiry;
  the operations of a component are its acts, each reading the clock at most once.  A grant of a
  row names the token and the expiry it was given.  The client's guarantee is proved once here:
  while a lease runs, nobody else is granted the row.
\<close>

locale lease_table =
  fixes inv :: "'s \<Rightarrow> bool"
    and legal :: "'act \<Rightarrow> bool"
    and step :: "'act \<Rightarrow> 's \<Rightarrow> 's"
    and holder :: "'s \<Rightarrow> 'k \<Rightarrow> ('t \<times> int) option"
    and clock :: "'act \<Rightarrow> int option"
    and touches :: "'act \<Rightarrow> 'k \<Rightarrow> 't \<Rightarrow> bool"
    and grants :: "'act \<Rightarrow> 's \<Rightarrow> 'k \<Rightarrow> ('t \<times> int) option"
  assumes inv_step: "inv s \<Longrightarrow> legal a \<Longrightarrow> inv (step a s)"
    and granted: "inv s \<Longrightarrow> grants a s k = Some (t, e) \<Longrightarrow> holder (step a s) k = Some (t, e)"
    and held: "inv s \<Longrightarrow> holder s k = Some (t, e) \<Longrightarrow> \<not> touches a k t \<Longrightarrow>
      (\<And>n. clock a = Some n \<Longrightarrow> n < e) \<Longrightarrow> holder (step a s) k = Some (t, e)"
    and only_free: "inv s \<Longrightarrow> holder s k = Some (t, e) \<Longrightarrow> \<not> touches a k t \<Longrightarrow> grants a s k \<noteq> None \<Longrightarrow>
      \<exists>n. clock a = Some n \<and> e \<le> n"
begin

fun run :: "'act list \<Rightarrow> 's \<Rightarrow> 's" where
  "run [] s = s"
| "run (a # as) s = run as (step a s)"

definition quiet :: "'k \<Rightarrow> 't \<Rightarrow> int \<Rightarrow> 'act \<Rightarrow> bool" where
  "quiet k t e a \<longleftrightarrow> legal a \<and> \<not> touches a k t \<and> (\<forall>n. clock a = Some n \<longrightarrow> n < e)"

lemma inv_run: "inv s \<Longrightarrow> list_all legal as \<Longrightarrow> inv (run as s)"
  by (induction as arbitrary: s) (auto intro: inv_step)

lemma held_run:
  "inv s \<Longrightarrow> holder s k = Some (t, e) \<Longrightarrow> list_all (quiet k t e) as \<Longrightarrow>
    holder (run as s) k = Some (t, e)"
proof (induction as arbitrary: s)
  case (Cons a as)
  have "holder (step a s) k = Some (t, e)"
    by (rule held) (use Cons.prems in \<open>auto simp: quiet_def\<close>)
  then show ?case using Cons by (simp add: inv_step quiet_def)
qed simp

lemma exclusive:
  assumes "inv s" and "legal a" and "grants a s k = Some (t, e)" and "list_all (quiet k t e) as"
    and "\<not> touches b k t" and "\<And>n. clock b = Some n \<Longrightarrow> n < e"
  shows "grants b (run (a # as) s) k = None"
proof (rule ccontr)
  assume "grants b (run (a # as) s) k \<noteq> None"
  moreover have "inv (run (a # as) s)"
    by (rule inv_run) (use assms in \<open>auto simp: quiet_def list_all_iff\<close>)
  moreover have "holder (run (a # as) s) k = Some (t, e)"
    using held_run[OF inv_step[OF assms(1,2)] granted[OF assms(1,3)] assms(4)] by simp
  ultimately obtain n where "clock b = Some n" "e \<le> n" using only_free assms(5) by blast
  then show False using assms(6) by fastforce
qed

end

end
