(* ===== verification/ResourceStore.thy ===== *)
theory ResourceStore
  imports StoreSchema Lease
begin

text \<open>
  Resources and their work queue (src/controllers/sqlite.ts, methods \<open>putResource\<close> to
  \<open>listQueue\<close>): the operations, statement by statement.  Deleting a resource cascades to the
  rows that reference it, as the foreign keys of the schema say.
\<close>

type_synonym resource_ref = "string \<times> string"

definition rr_ref :: "resource_row \<Rightarrow> resource_ref" where
  "rr_ref r = (rr_controller r, rr_key r)"

definition q_ref :: "queue_row \<Rightarrow> resource_ref" where
  "q_ref r = (q_controller r, q_key r)"

section \<open>Records handed to the callers\<close>

record resource =
  res_uid :: string
  res_controller :: string
  res_key :: string
  res_version :: nat
  res_generation :: nat
  res_deletion :: "string option"
  res_finalizers :: "string list"
  res_spec :: jv
  res_status :: jv

record queue_claim =
  c_controller :: string
  c_key :: string
  c_token :: string
  c_version :: nat
  c_errors :: nat
  c_expires :: string

record queue_item =
  qi_controller :: string
  qi_key :: string
  qi_available :: string
  qi_errors :: nat
  qi_expires :: "string option"

definition c_ref :: "queue_claim \<Rightarrow> resource_ref" where
  "c_ref c = (c_controller c, c_key c)"

fun json_string :: "jv \<Rightarrow> string option" where
  "json_string (JStr s) = Some s"
| "json_string _ = None"

fun string_items :: "jv \<Rightarrow> string list option" where
  "string_items (JArr vs) = those (map json_string vs)"
| "string_items _ = None"

definition stored_finalizers :: "resource_row \<Rightarrow> (store_error, string list) result" where
  "stored_finalizers row =
     (case stored_json (rr_finalizers row) ''resource finalizers'' of
        Inl e \<Rightarrow> Inl e
      | Inr v \<Rightarrow> (case string_items v of None \<Rightarrow> Inl (CorruptRow ''finalizers'') | Some fs \<Rightarrow> Inr fs))"

definition resourceFromRow :: "resource_row \<Rightarrow> (store_error, resource) result" where
  "resourceFromRow row =
     (case stored_finalizers row of Inl e \<Rightarrow> Inl e
      | Inr fs \<Rightarrow> (case first_failure (validateFinalizers fs) of Some e \<Rightarrow> Inl e
      | None \<Rightarrow> (case stored_json (rr_spec row) ''resource spec'' of Inl e \<Rightarrow> Inl e
      | Inr spec \<Rightarrow> (case stored_json (rr_status row) ''resource status'' of Inl e \<Rightarrow> Inl e
      | Inr status \<Rightarrow> Inr \<lparr>res_uid = rr_uid row, res_controller = rr_controller row,
          res_key = rr_key row, res_version = rr_version row, res_generation = rr_generation row,
          res_deletion = rr_deletion row, res_finalizers = fs, res_spec = spec,
          res_status = status\<rparr>))))"

section \<open>Resources\<close>

definition resourceRow :: "resource_ref \<Rightarrow> db \<Rightarrow> resource_row option" where
  "resourceRow ref d = sql_get (\<lambda>r. rr_ref r = ref) (resources d)"

definition getResource :: "resource_ref \<Rightarrow> db \<Rightarrow> (store_error, resource option) result" where
  "getResource ref d = (case resourceRow ref d of
     None \<Rightarrow> Inr None
   | Some row \<Rightarrow> (case resourceFromRow row of Inl e \<Rightarrow> Inl e | Inr r \<Rightarrow> Inr (Some r)))"

definition requireResource :: "resource_ref \<Rightarrow> resource store_op" where
  "requireResource ref d = (case getResource ref d of
     Inl e \<Rightarrow> (Inl e, d)
   | Inr None \<Rightarrow> (Inl (ResourceNotFound (fst ref) (snd ref)), d)
   | Inr (Some r) \<Rightarrow> (Inr r, d))"

definition getResourceByUid :: "string \<Rightarrow> db \<Rightarrow> (store_error, resource option) result" where
  "getResourceByUid uid d = (case sql_get (\<lambda>r. rr_uid r = uid) (resources d) of
     None \<Rightarrow> Inr None
   | Some row \<Rightarrow> (case resourceFromRow row of Inl e \<Rightarrow> Inl e | Inr r \<Rightarrow> Inr (Some r)))"

definition listResources :: "string option \<Rightarrow> db \<Rightarrow> (store_error, resource list) result" where
  "listResources controller d = seq_items (map resourceFromRow
     (case controller of
        None \<Rightarrow> sql_all (\<lambda>r. True) rr_ref (resources d)
      | Some c \<Rightarrow> sql_all (\<lambda>r. rr_controller r = c) rr_key (resources d)))"

text \<open>The upsert of \<open>enqueueRow\<close>; a new row needs the resource it references.\<close>

definition enqueueRow :: "resource_ref \<Rightarrow> int \<Rightarrow> unit store_op" where
  "enqueueRow ref at d =
     (if \<exists>q \<in> set (queue d). q_ref q = ref then
        (Inr (), d\<lparr>queue := sql_update (\<lambda>q. q_ref q = ref)
           (\<lambda>q. q\<lparr>q_available := min (q_available q) at, q_version := q_version q + 1\<rparr>) (queue d)\<rparr>)
      else if resourceRow ref d = None then (Inl (SqlConstraint ''queue''), d)
      else
        (Inr (), d\<lparr>queue := queue d @ [\<lparr>q_controller = fst ref, q_key = snd ref, q_available = at,
           q_version = 1, q_errors = 0, q_last_error = None, q_token = None,
           q_claim_version = None, q_expires = None\<rparr>]\<rparr>))"

definition insert_resource :: "resource_row \<Rightarrow> unit store_op" where
  "insert_resource row d =
     (if \<exists>r \<in> set (resources d). rr_uid r = rr_uid row \<or> rr_ref r = rr_ref row
      then (Inl (SqlConstraint ''resources''), d)
      else (Inr (), d\<lparr>resources := resources d @ [row]\<rparr>))"

text \<open>An \<open>UPDATE resources SET ... WHERE controller = ? AND resource_key = ?\<close>.\<close>

definition update_resource :: "(resource_row \<Rightarrow> bool) \<Rightarrow> (resource_row \<Rightarrow> resource_row) \<Rightarrow> db \<Rightarrow> db" where
  "update_resource p f d = d\<lparr>resources := sql_update p f (resources d)\<rparr>"

text \<open>The \<open>SET\<close> lists of the four updates; each bumps the resource version.\<close>

definition respec :: "string \<Rightarrow> string \<Rightarrow> resource_row \<Rightarrow> resource_row" where
  "respec specJson now r = r\<lparr>rr_spec := specJson, rr_version := rr_version r + 1,
     rr_generation := rr_generation r + 1, rr_updated := now\<rparr>"

definition restatus :: "string \<Rightarrow> string \<Rightarrow> string \<Rightarrow> resource_row \<Rightarrow> resource_row" where
  "restatus statusJson finalizersJson now r = r\<lparr>rr_status := statusJson,
     rr_finalizers := finalizersJson, rr_version := rr_version r + 1, rr_updated := now\<rparr>"

definition mark_deleted :: "string \<Rightarrow> resource_row \<Rightarrow> resource_row" where
  "mark_deleted now r = r\<lparr>rr_deletion := Some now, rr_version := rr_version r + 1, rr_updated := now\<rparr>"

definition refinalize :: "string \<Rightarrow> string \<Rightarrow> resource_row \<Rightarrow> resource_row" where
  "refinalize finalizersJson now r =
     r\<lparr>rr_finalizers := finalizersJson, rr_version := rr_version r + 1, rr_updated := now\<rparr>"

lemmas row_updates = respec_def restatus_def mark_deleted_def refinalize_def

definition stmt :: "('s \<Rightarrow> 's) \<Rightarrow> ('e, 's, unit) op" where
  "stmt f s = (Inr (), f s)"

definition initial_status :: "jv \<Rightarrow> jv" where
  "initial_status v = JObj [(''observedGeneration'', JNum (NumFin ''0'')),
     (''conditions'', JArr []), (''controllerStatus'', v)]"

definition put_rows :: "resource_ref \<Rightarrow> string \<Rightarrow> string \<Rightarrow> string \<Rightarrow> string \<Rightarrow> resource store_op" where
  "put_rows ref specJson statusJson now uid = transact (\<lambda>d.
     (case resourceRow ref d of
        None \<Rightarrow>
          and_then (insert_resource \<lparr>rr_controller = fst ref, rr_key = snd ref, rr_uid = uid,
              rr_version = 1, rr_generation = 1, rr_spec = specJson, rr_status = statusJson,
              rr_deletion = None, rr_finalizers = ''[]'', rr_updated = now\<rparr>) (\<lambda>_.
            and_then (with_result (epoch now) (enqueueRow ref)) (\<lambda>_. requireResource ref))
      | Some existing \<Rightarrow>
          (if rr_spec existing \<noteq> specJson then
             and_then (stmt (update_resource (\<lambda>r. rr_ref r = ref) (respec specJson now))) (\<lambda>_.
               and_then (with_result (epoch now) (enqueueRow ref)) (\<lambda>_. requireResource ref))
           else requireResource ref)) d)"

definition putResource ::
    "string \<Rightarrow> string \<Rightarrow> jv \<Rightarrow> jv \<Rightarrow> string \<Rightarrow> string \<Rightarrow> resource store_op" where
  "putResource controller key spec initialStatus now uid =
     guarded [validateName controller ''controller'', validateKey key ''resource key'',
              validTimestamp now]
      (with_result (json_column spec ''controller resource spec'') (\<lambda>specJson.
        guarded [validateJsonSize specJson ''Controller resource spec'' MAX_RESOURCE_VALUE_BYTES]
         (with_result (json_column (initial_status initialStatus) ''controller resource status'')
           (\<lambda>statusJson.
             guarded [validateJsonSize statusJson ''Controller resource status'' MAX_RESOURCE_VALUE_BYTES]
               (put_rows (controller, key) specJson statusJson now uid)))))"

definition finalizers_json :: "string list \<Rightarrow> (store_error, string) result" where
  "finalizers_json fs = json_column (JArr (map JStr fs)) ''value''"

definition status_rows ::
    "resource_ref \<Rightarrow> nat \<Rightarrow> string \<Rightarrow> string list option \<Rightarrow> string \<Rightarrow> resource store_op" where
  "status_rows ref expected statusJson finalizers now = transact (\<lambda>d.
     (case resourceRow ref d of
        None \<Rightarrow> (Inl (ResourceNotFound (fst ref) (snd ref)), d)
      | Some current \<Rightarrow>
          if rr_version current \<noteq> expected then (Inl (ResourceConflict (fst ref) (snd ref)), d)
          else with_result
            (case finalizers of None \<Rightarrow> Inr (rr_finalizers current) | Some fs \<Rightarrow> finalizers_json fs)
            (\<lambda>finalizersJson d.
              if rr_status current = statusJson \<and> rr_finalizers current = finalizersJson
              then (resourceFromRow current, d)
              else requireResource ref (update_resource
                (\<lambda>r. rr_ref r = ref \<and> rr_version r = expected)
                (restatus statusJson finalizersJson now) d)) d))"

definition updateStatus ::
    "resource_ref \<Rightarrow> nat \<Rightarrow> jv \<Rightarrow> string list option \<Rightarrow> string \<Rightarrow> resource store_op" where
  "updateStatus ref expected status finalizers now =
     guarded [validTimestamp now]
      (with_result (json_column status ''controller resource status'') (\<lambda>statusJson.
        guarded ([validateJsonSize statusJson ''Controller resource status'' MAX_RESOURCE_VALUE_BYTES] @
            (case finalizers of None \<Rightarrow> [] | Some fs \<Rightarrow> validateFinalizers fs))
          (status_rows ref expected statusJson finalizers now)))"

definition requestDeletion :: "resource_ref \<Rightarrow> string \<Rightarrow> resource store_op" where
  "requestDeletion ref now =
     guarded [validTimestamp now] (transact (\<lambda>d.
       (case resourceRow ref d of
          None \<Rightarrow> (Inl (ResourceNotFound (fst ref) (snd ref)), d)
        | Some row \<Rightarrow>
            and_then (stmt (\<lambda>d. if rr_deletion row = None
                then update_resource (\<lambda>r. rr_ref r = ref) (mark_deleted now) d else d))
              (\<lambda>_. and_then (with_result (epoch now) (enqueueRow ref)) (\<lambda>_. requireResource ref)) d)))"

definition throwMissingOrConflict :: "resource_ref \<Rightarrow> 'a store_op" where
  "throwMissingOrConflict ref d =
     (Inl (if resourceRow ref d = None then ResourceNotFound (fst ref) (snd ref)
           else ResourceConflict (fst ref) (snd ref)), d)"

definition updateFinalizers ::
    "resource_ref \<Rightarrow> nat \<Rightarrow> string list \<Rightarrow> string \<Rightarrow> resource store_op" where
  "updateFinalizers ref expected fs now =
     guarded (validateFinalizers fs @ [validTimestamp now])
      (with_result (finalizers_json fs) (\<lambda>finalizersJson d.
        let p = (\<lambda>r. rr_ref r = ref \<and> rr_version r = expected) in
        if sql_changes p (resources d) \<noteq> 1 then throwMissingOrConflict ref d
        else requireResource ref (update_resource p (refinalize finalizersJson now) d)))"

text \<open>\<open>DELETE FROM resources\<close> with its \<open>ON DELETE CASCADE\<close> children.\<close>

definition delete_cascade :: "(resource_row \<Rightarrow> bool) \<Rightarrow> db \<Rightarrow> db" where
  "delete_cascade p d =
     (let gone = filter p (resources d) in
      d\<lparr>resources := sql_delete p (resources d),
        queue := sql_delete (\<lambda>q. q_ref q \<in> set (map rr_ref gone)) (queue d),
        effects := sql_delete (\<lambda>e. e_uid e \<in> set (map rr_uid gone)) (effects d),
        requests := sql_delete (\<lambda>w. w_uid w \<in> set (map rr_uid gone)) (requests d)\<rparr>)"

definition deleteResource :: "resource_ref \<Rightarrow> nat \<Rightarrow> bool store_op" where
  "deleteResource ref expected d =
     (case resourceRow ref d of
        None \<Rightarrow> (Inr False, d)
      | Some row \<Rightarrow>
          with_result (stored_finalizers row) (\<lambda>fs d.
            if rr_deletion row = None \<or> 0 < length fs
            then (Inl (NotReadyForDeletion (fst ref) (snd ref)), d)
            else
              let p = (\<lambda>r. rr_ref r = ref \<and> rr_version r = expected) in
              if sql_changes p (resources d) \<noteq> 1
              then (Inl (ResourceConflict (fst ref) (snd ref)), d)
              else (Inr True, delete_cascade p d)) d)"

section \<open>The work queue\<close>

definition enqueue :: "resource_ref \<Rightarrow> string \<Rightarrow> unit store_op" where
  "enqueue ref at =
     guarded [validTimestamp at] (\<lambda>d.
       if resourceRow ref d = None then (Inl (ResourceNotFound (fst ref) (snd ref)), d)
       else with_result (epoch at) (enqueueRow ref) d)"

text \<open>\<open>claim_token IS NULL OR claim_expires_at <= ?\<close>; a comparison with \<open>NULL\<close> does not hold.\<close>

definition lease_free :: "int \<Rightarrow> string option \<Rightarrow> int option \<Rightarrow> bool" where
  "lease_free now token expires \<longleftrightarrow>
     token = None \<or> (case expires of None \<Rightarrow> False | Some e \<Rightarrow> e \<le> now)"

definition claimable :: "string list \<Rightarrow> int \<Rightarrow> queue_row \<Rightarrow> bool" where
  "claimable controllers now q \<longleftrightarrow> q_controller q \<in> set controllers \<and> q_available q \<le> now \<and>
     lease_free now (q_token q) (q_expires q)"

definition q_order :: "queue_row \<Rightarrow> int \<times> string \<times> string" where
  "q_order q = (q_available q, q_controller q, q_key q)"

definition claim_rows :: "string list \<Rightarrow> int \<Rightarrow> int \<Rightarrow> string \<Rightarrow> queue_claim option store_op" where
  "claim_rows controllers nowMs leaseMs token = transact (\<lambda>d.
     (case sql_first (claimable controllers nowMs) q_order (queue d) of
        None \<Rightarrow> (Inr None, d)
      | Some row \<Rightarrow>
          let expires = nowMs + leaseMs;
              p = (\<lambda>q. q_ref q = q_ref row \<and> lease_free nowMs (q_token q) (q_expires q)) in
          if sql_changes p (queue d) \<noteq> 1 then (Inr None, d)
          else with_result (iso expires) (\<lambda>expiresAt d. (Inr (Some \<lparr>c_controller = q_controller row,
              c_key = q_key row, c_token = token, c_version = q_version row,
              c_errors = q_errors row, c_expires = expiresAt\<rparr>), d))
            (d\<lparr>queue := sql_update p (\<lambda>q. q\<lparr>q_token := Some token,
               q_claim_version := Some (q_version q), q_expires := Some expires\<rparr>) (queue d)\<rparr>)))"

definition claimNext :: "string list \<Rightarrow> int \<Rightarrow> string \<Rightarrow> string \<Rightarrow> queue_claim option store_op" where
  "claimNext controllers leaseMs now token =
     guarded [validateDuration leaseMs ''leaseMs'']
      (if controllers = [] then return_op None
       else guarded [validTimestamp now]
         (with_result (epoch now) (\<lambda>nowMs. claim_rows controllers nowMs leaseMs token)))"

definition claim_of :: "queue_claim \<Rightarrow> queue_row \<Rightarrow> bool" where
  "claim_of c q \<longleftrightarrow> q_ref q = c_ref c \<and> q_token q = Some (c_token c)"

definition claimedRow :: "queue_claim \<Rightarrow> db \<Rightarrow> queue_row option" where
  "claimedRow c d = sql_get (claim_of c) (queue d)"

definition renewClaim :: "queue_claim \<Rightarrow> int \<Rightarrow> string \<Rightarrow> bool store_op" where
  "renewClaim c leaseMs now =
     guarded [validateDuration leaseMs ''leaseMs'', validTimestamp now]
      (with_result (epoch now) (\<lambda>nowMs d.
        let p = (\<lambda>q. claim_of c q \<and> (case q_expires q of None \<Rightarrow> False | Some e \<Rightarrow> nowMs < e)) in
        (Inr (sql_changes p (queue d) = 1),
         d\<lparr>queue := sql_update p (\<lambda>q. q\<lparr>q_expires := Some (nowMs + leaseMs)\<rparr>) (queue d)\<rparr>)))"

definition released :: "queue_row \<Rightarrow> queue_row" where
  "released q = q\<lparr>q_token := None, q_claim_version := None, q_expires := None\<rparr>"

definition settleClaim :: "queue_claim \<Rightarrow> string \<Rightarrow> bool store_op" where
  "settleClaim c now =
     guarded [validTimestamp now] (with_result (epoch now) (\<lambda>nowMs. transact (\<lambda>d.
       (case claimedRow c d of
          None \<Rightarrow> (Inr False, d)
        | Some row \<Rightarrow>
            if Some (q_version row) = q_claim_version row
            then (Inr True, d\<lparr>queue := sql_delete (claim_of c) (queue d)\<rparr>)
            else (Inr True, d\<lparr>queue := sql_update (claim_of c)
               (\<lambda>q. (released q)\<lparr>q_available := min (q_available q) nowMs, q_errors := 0,
                  q_last_error := None\<rparr>) (queue d)\<rparr>)))))"

definition requeueClaim :: "queue_claim \<Rightarrow> string \<Rightarrow> string option \<Rightarrow> bool store_op" where
  "requeueClaim c at error =
     guarded [validTimestamp at] (with_result (epoch at) (\<lambda>atMs. transact (\<lambda>d.
       (case claimedRow c d of
          None \<Rightarrow> (Inr False, d)
        | Some row \<Rightarrow>
            let eventArrived = (Some (q_version row) \<noteq> q_claim_version row);
                nextAvailableAt = (if eventArrived then min (q_available row) atMs else atMs);
                nextErrors = (if error = None then 0 else q_errors row + 1) in
            (Inr True, d\<lparr>queue := sql_update (claim_of c)
               (\<lambda>q. (released q)\<lparr>q_available := nextAvailableAt, q_errors := nextErrors,
                  q_last_error := map_option truncateError error\<rparr>) (queue d)\<rparr>)))))"

definition listQueue :: "db \<Rightarrow> (store_error, queue_item list) result" where
  "listQueue d = seq_items (map (\<lambda>q.
     (case iso (q_available q) of Inl e \<Rightarrow> Inl e
      | Inr at \<Rightarrow> (case q_expires q of
          None \<Rightarrow> Inr \<lparr>qi_controller = q_controller q, qi_key = q_key q, qi_available = at,
            qi_errors = q_errors q, qi_expires = None\<rparr>
        | Some x \<Rightarrow> (case iso x of Inl e \<Rightarrow> Inl e
            | Inr until \<Rightarrow> Inr \<lparr>qi_controller = q_controller q, qi_key = q_key q, qi_available = at,
                qi_errors = q_errors q, qi_expires = Some until\<rparr>))))
     (sql_all (\<lambda>q. True) q_order (queue d)))"

section \<open>Well-formed tables\<close>

definition resource_row_ok :: "resource_row \<Rightarrow> bool" where
  "resource_row_ok r \<longleftrightarrow> 0 < rr_generation r \<and> rr_generation r \<le> rr_version r \<and>
     (\<exists>res. resourceFromRow r = Inr res)"

definition queue_row_ok :: "queue_row \<Rightarrow> bool" where
  "queue_row_ok q \<longleftrightarrow> 0 < q_version q \<and> (q_token q = None \<longleftrightarrow> q_expires q = None) \<and>
     (q_token q = None \<longleftrightarrow> q_claim_version q = None) \<and>
     (\<forall>v. q_claim_version q = Some v \<longrightarrow> v \<le> q_version q)"

text \<open>The primary keys, the foreign keys and the row checks of the four tables.\<close>

definition work_ok :: "db \<Rightarrow> bool" where
  "work_ok d \<longleftrightarrow> keyed rr_ref (resources d) \<and> keyed rr_uid (resources d) \<and> keyed q_ref (queue d) \<and>
     q_ref ` set (queue d) \<subseteq> rr_ref ` set (resources d) \<and>
     e_uid ` set (effects d) \<subseteq> rr_uid ` set (resources d) \<and>
     w_uid ` set (requests d) \<subseteq> rr_uid ` set (resources d) \<and>
     list_all resource_row_ok (resources d) \<and> list_all queue_row_ok (queue d)"

lemma work_ok_empty: "work_ok empty_db"
  by (simp add: work_ok_def empty_db_def)

lemma image_sql_update: "(\<And>r. k (f r) = k r) \<Longrightarrow> k ` set (sql_update p f rs) = k ` set rs"
  by (metis (mono_tags) list.set_map sql_update_frame)

lemma list_all_sql_update:
  "list_all ok rs \<Longrightarrow> (\<And>r. ok r \<Longrightarrow> p r \<Longrightarrow> ok (f r)) \<Longrightarrow> list_all ok (sql_update p f rs)"
  by (auto simp: sql_update_def list_all_iff)

lemma list_all_sql_delete: "list_all ok rs \<Longrightarrow> list_all ok (sql_delete p rs)"
  by (auto simp: sql_delete_def list_all_iff)

lemma work_ok_update_resource:
  assumes "work_ok d" and "\<And>r. rr_ref (f r) = rr_ref r" and "\<And>r. rr_uid (f r) = rr_uid r"
    and "\<And>r. r \<in> set (resources d) \<Longrightarrow> resource_row_ok r \<Longrightarrow> p r \<Longrightarrow> resource_row_ok (f r)"
  shows "work_ok (update_resource p f d)"
  using assms
  by (auto simp: work_ok_def update_resource_def keyed_sql_update image_sql_update list_all_iff in_sql_update)

lemma work_ok_update_queue:
  assumes "work_ok d" and "\<And>q. q_ref (f q) = q_ref q"
    and "\<And>q. queue_row_ok q \<Longrightarrow> p q \<Longrightarrow> queue_row_ok (f q)"
  shows "work_ok (d\<lparr>queue := sql_update p f (queue d)\<rparr>)"
  using assms by (auto simp: work_ok_def keyed_sql_update image_sql_update intro: list_all_sql_update)

lemma work_ok_delete_queue: "work_ok d \<Longrightarrow> work_ok (d\<lparr>queue := sql_delete p (queue d)\<rparr>)"
  by (auto simp: work_ok_def keyed_sql_delete list_all_sql_delete) (auto simp: sql_delete_def)

lemma resourceRow_Some: "resourceRow ref d = Some r \<Longrightarrow> r \<in> set (resources d) \<and> rr_ref r = ref"
  by (auto simp: resourceRow_def dest: sql_get_Some)

lemma resourceRow_None: "resourceRow ref d = None \<longleftrightarrow> ref \<notin> rr_ref ` set (resources d)"
  by (auto simp: resourceRow_def sql_get_None)

lemma q_ref_fields [simp]:
  "q_ref (q\<lparr>q_available := a\<rparr>) = q_ref q" "q_ref (q\<lparr>q_version := v\<rparr>) = q_ref q"
  "q_ref (q\<lparr>q_errors := n\<rparr>) = q_ref q" "q_ref (q\<lparr>q_last_error := l\<rparr>) = q_ref q"
  "q_ref (q\<lparr>q_token := t\<rparr>) = q_ref q" "q_ref (q\<lparr>q_claim_version := cv\<rparr>) = q_ref q"
  "q_ref (q\<lparr>q_expires := x\<rparr>) = q_ref q" "q_ref (released q) = q_ref q"
  by (simp_all add: q_ref_def released_def)

lemma rr_ref_fields [simp]:
  "rr_ref (r\<lparr>rr_version := v\<rparr>) = rr_ref r" "rr_ref (r\<lparr>rr_generation := g\<rparr>) = rr_ref r"
  "rr_ref (r\<lparr>rr_spec := s\<rparr>) = rr_ref r" "rr_ref (r\<lparr>rr_status := st\<rparr>) = rr_ref r"
  "rr_ref (r\<lparr>rr_deletion := dl\<rparr>) = rr_ref r" "rr_ref (r\<lparr>rr_finalizers := fs\<rparr>) = rr_ref r"
  "rr_ref (r\<lparr>rr_updated := u\<rparr>) = rr_ref r"
  by (simp_all add: rr_ref_def)

lemma preserves_enqueueRow: "preserves work_ok (enqueueRow ref at)"
proof (rule preservesI)
  fix d assume ok: "work_ok d"
  show "work_ok (snd (enqueueRow ref at d))"
  proof (cases "\<exists>q \<in> set (queue d). q_ref q = ref")
    case True
    then show ?thesis
      using ok by (auto simp: enqueueRow_def queue_row_ok_def intro!: work_ok_update_queue)
  next
    case False
    then show ?thesis
      using ok by (auto simp: enqueueRow_def work_ok_def keyed_append queue_row_ok_def q_ref_def resourceRow_None)
  qed
qed

lemma preserves_insert_resource: "resource_row_ok row \<Longrightarrow> preserves work_ok (insert_resource row)"
  by (rule preservesI) (auto simp: insert_resource_def work_ok_def keyed_append)

lemma preserves_requireResource: "preserves P (requireResource ref)"
  by (rule preservesI) (simp add: requireResource_def split: sum.split option.split)

section \<open>Stored columns read back\<close>

lemma normalizeJson_strings: "normalizeJson p (JArr (map JStr fs)) = Inr (JArr (map JStr fs))"
proof -
  have "map (\<lambda>(i, v). normalizeJson (index_path p i) v) (enumerate 0 (map JStr fs)) = map Inr (map JStr fs)"
    by (rule nth_equalityI) (simp_all add: enumerate_eq_zip)
  then show ?thesis by (simp only: normalizeJson.simps seq_items_map sum.case)
qed

lemma string_items_strings: "string_items (JArr (map JStr fs)) = Some fs"
  by (induction fs) simp_all

lemma finalizers_json_reads_back:
  assumes "finalizers_json fs = Inr t" and "rr_finalizers r = t"
  shows "stored_finalizers r = Inr fs"
proof -
  have wf: "wf_js (JArr (map JStr fs))" by (simp add: list_all_iff)
  obtain w where w: "normalizeJson ''value'' (JArr (map JStr fs)) = Inr w"
    and parse: "parseStoredJson t ''resource finalizers'' = Inr (unsign w)"
    using assms canonicalJson_reads_back[OF wf, of "''value''" t "''resource finalizers''"]
    by (auto simp: finalizers_json_def json_column_def split: sum.splits)
  have "w = JArr (map JStr fs)" using w normalizeJson_strings by simp
  then have "unsign w = JArr (map JStr fs)" by simp
  then show ?thesis
    using parse assms(2) string_items_strings by (simp add: stored_finalizers_def stored_json_def)
qed

lemma finalizers_json_total: "\<exists>t. finalizers_json fs = Inr t"
  using normalizeJson_strings[of "''value''" fs]
  by (simp add: finalizers_json_def json_column_def canonicalJson_def)

lemma no_finalizers: "rr_finalizers r = ''[]'' \<Longrightarrow> stored_finalizers r = Inr []"
proof -
  have "finalizers_json [] = Inr ''[]''"
    by (simp add: finalizers_json_def json_column_def canonicalJson_def)
  then show "rr_finalizers r = ''[]'' \<Longrightarrow> stored_finalizers r = Inr []"
    by (rule finalizers_json_reads_back)
qed

lemma wf_initial_status: "wf_js v \<Longrightarrow> wf_js (initial_status v)"
proof -
  have "is_num_text ''0''" by code_simp
  then show "wf_js v \<Longrightarrow> wf_js (initial_status v)" by (simp add: initial_status_def js_ordered_def)
qed

text \<open>When a row is readable, column by column.\<close>

lemma readable_iff: "(\<exists>res. resourceFromRow r = Inr res) \<longleftrightarrow>
    (\<exists>fs. stored_finalizers r = Inr fs \<and> list_all name_pattern fs \<and> distinct fs) \<and>
    (\<exists>v. stored_json (rr_spec r) ''resource spec'' = Inr v) \<and>
    (\<exists>v. stored_json (rr_status r) ''resource status'' = Inr v)"
  by (auto simp: resourceFromRow_def validateFinalizers_ok[symmetric] first_failure_None[symmetric]
      split: sum.splits option.splits)

section \<open>Every operation keeps the tables well-formed\<close>

lemma row_ok_new:
  assumes "\<exists>v. stored_json spec ''resource spec'' = Inr v" "\<exists>v. stored_json status ''resource status'' = Inr v"
  shows "resource_row_ok \<lparr>rr_controller = c, rr_key = k, rr_uid = uid, rr_version = 1,
    rr_generation = 1, rr_spec = spec, rr_status = status, rr_deletion = None,
    rr_finalizers = ''[]'', rr_updated = now\<rparr>"
  using assms no_finalizers by (auto simp: resource_row_ok_def readable_iff)

lemma stored_finalizers_fields [simp]:
  "stored_finalizers (r\<lparr>rr_version := v\<rparr>) = stored_finalizers r"
  "stored_finalizers (r\<lparr>rr_generation := g\<rparr>) = stored_finalizers r"
  "stored_finalizers (r\<lparr>rr_spec := sp\<rparr>) = stored_finalizers r"
  "stored_finalizers (r\<lparr>rr_status := st\<rparr>) = stored_finalizers r"
  "stored_finalizers (r\<lparr>rr_deletion := dl\<rparr>) = stored_finalizers r"
  "stored_finalizers (r\<lparr>rr_updated := u\<rparr>) = stored_finalizers r"
  by (simp_all add: stored_finalizers_def)

lemma row_updates_key [simp]:
  "rr_ref (respec sp now r) = rr_ref r" "rr_uid (respec sp now r) = rr_uid r"
  "rr_ref (restatus st fs now r) = rr_ref r" "rr_uid (restatus st fs now r) = rr_uid r"
  "rr_ref (mark_deleted now r) = rr_ref r" "rr_uid (mark_deleted now r) = rr_uid r"
  "rr_ref (refinalize fs now r) = rr_ref r" "rr_uid (refinalize fs now r) = rr_uid r"
  by (simp_all add: row_updates)

lemma row_ok_spec:
  "resource_row_ok r \<Longrightarrow> \<exists>v. stored_json spec ''resource spec'' = Inr v \<Longrightarrow>
   resource_row_ok (respec spec now r)"
  by (simp add: resource_row_ok_def readable_iff respec_def)

lemma row_ok_deletion: "resource_row_ok r \<Longrightarrow> resource_row_ok (mark_deleted now r)"
  by (simp add: resource_row_ok_def readable_iff mark_deleted_def)

lemma row_ok_finalizers:
  "resource_row_ok r \<Longrightarrow> finalizers_json fs = Inr t \<Longrightarrow> list_all name_pattern fs \<Longrightarrow> distinct fs \<Longrightarrow>
   resource_row_ok (refinalize t now r)"
  using finalizers_json_reads_back[of fs t] by (simp add: resource_row_ok_def readable_iff refinalize_def)

lemma row_ok_status:
  assumes "resource_row_ok r" "\<exists>v. stored_json status ''resource status'' = Inr v"
    and "t = rr_finalizers r \<or> (\<exists>fs. list_all name_pattern fs \<and> distinct fs \<and> finalizers_json fs = Inr t)"
  shows "resource_row_ok (restatus status t now r)"
proof -
  have "\<exists>fs. stored_finalizers (restatus status t now r) = Inr fs \<and> list_all name_pattern fs \<and> distinct fs"
    using assms(3)
  proof
    assume "t = rr_finalizers r"
    then have "stored_finalizers (restatus status t now r) = stored_finalizers r"
      by (simp add: stored_finalizers_def restatus_def)
    then show ?thesis using assms(1) by (simp add: resource_row_ok_def readable_iff)
  next
    assume "\<exists>fs. list_all name_pattern fs \<and> distinct fs \<and> finalizers_json fs = Inr t"
    then obtain fs where fs: "list_all name_pattern fs" "distinct fs" "finalizers_json fs = Inr t" by blast
    have "stored_finalizers (restatus status t now r) = Inr fs"
      by (rule finalizers_json_reads_back[OF fs(3)]) (simp add: restatus_def)
    then show ?thesis using fs by blast
  qed
  then show ?thesis using assms(1,2) by (simp add: resource_row_ok_def readable_iff) (simp add: restatus_def)
qed

lemma preserves_stmt: "(\<And>s. P s \<Longrightarrow> P (f s)) \<Longrightarrow> preserves P (stmt f)"
  by (rule preservesI) (simp add: stmt_def)

text \<open>The common tail of the operations that wake the resource.\<close>

lemma preserves_wake: "preserves work_ok (and_then (with_result (epoch now) (enqueueRow ref)) (\<lambda>_. requireResource ref))"
  by (intro preserves_intros preserves_enqueueRow preserves_requireResource)

lemma preserves_put_rows:
  assumes "\<exists>v. stored_json spec ''resource spec'' = Inr v" "\<exists>v. stored_json status ''resource status'' = Inr v"
  shows "preserves work_ok (put_rows ref spec status now uid)"
proof -
  let ?tail = "\<lambda>_. and_then (with_result (epoch now) (enqueueRow ref)) (\<lambda>_. requireResource ref)"
  have insert: "preserves work_ok (and_then (insert_resource \<lparr>rr_controller = fst ref,
      rr_key = snd ref, rr_uid = uid, rr_version = 1, rr_generation = 1, rr_spec = spec,
      rr_status = status, rr_deletion = None, rr_finalizers = ''[]'', rr_updated = now\<rparr>) ?tail)"
    by (intro preserves_and_then preserves_insert_resource row_ok_new preserves_wake assms)
  have update: "preserves work_ok
      (and_then (stmt (update_resource (\<lambda>r. rr_ref r = ref) (respec spec now))) ?tail)"
    by (intro preserves_and_then preserves_stmt preserves_wake work_ok_update_resource)
      (simp_all add: row_ok_spec assms(1))
  show ?thesis
    unfolding put_rows_def
    by (intro preserves_transact preservesI)
      (use preservesD[OF insert] preservesD[OF update]
          preservesD[OF preserves_requireResource[where P = work_ok]]
        in \<open>simp split: option.split\<close>)
qed

lemma preserves_putResource:
  "wf_js spec \<Longrightarrow> wf_js status \<Longrightarrow> preserves work_ok (putResource c k spec status now uid)"
  unfolding putResource_def
  by (intro preserves_intros preserves_put_rows) (auto intro: json_column_reads_back wf_initial_status)

lemma preserves_status_rows:
  assumes "\<exists>v. stored_json status ''resource status'' = Inr v"
    and "\<And>fs. finalizers = Some fs \<Longrightarrow> list_all name_pattern fs \<and> distinct fs"
  shows "preserves work_ok (status_rows ref expected status finalizers now)"
proof -
  let ?p = "\<lambda>r. rr_ref r = ref \<and> rr_version r = expected"
  have step: "work_ok (update_resource ?p (restatus status t now) d)"
    if ok: "work_ok d" and cur: "resourceRow ref d = Some cur"
      and t: "(case finalizers of None \<Rightarrow> Inr (rr_finalizers cur) | Some fs \<Rightarrow> finalizers_json fs) = Inr t"
    for d cur t
  proof (rule work_ok_update_resource[OF ok])
    fix r assume r: "r \<in> set (resources d)" "resource_row_ok r" "?p r"
    have "r = cur"
      using ok resourceRow_Some[OF cur] r keyed_unique[of rr_ref "resources d" r cur] by (auto simp: work_ok_def)
    then have "t = rr_finalizers r \<or> (\<exists>fs. list_all name_pattern fs \<and> distinct fs \<and> finalizers_json fs = Inr t)"
      using t assms(2) by (cases finalizers) auto
    then show "resource_row_ok (restatus status t now r)" by (rule row_ok_status[OF r(2) assms(1)])
  qed simp_all
  have read: "work_ok d \<Longrightarrow> work_ok (snd (requireResource ref d))" for d
    by (rule preservesD[OF preserves_requireResource])
  show ?thesis
    unfolding status_rows_def
    by (intro preserves_transact preservesI)
      (use step read in \<open>auto simp: with_result_def split: option.split sum.split\<close>)
qed

lemma preserves_updateStatus:
  "wf_js status \<Longrightarrow> preserves work_ok (updateStatus ref expected status finalizers now)"
  unfolding updateStatus_def
  by (intro preserves_intros preserves_status_rows)
    (auto intro: json_column_reads_back simp: validateFinalizers_ok split: option.splits)

lemma preserves_requestDeletion: "preserves work_ok (requestDeletion ref now)"
proof -
  let ?mark = "\<lambda>row. stmt (\<lambda>d. if rr_deletion row = None
      then update_resource (\<lambda>r. rr_ref r = ref) (mark_deleted now) d else d)"
  have "preserves work_ok (and_then (?mark row)
      (\<lambda>_. and_then (with_result (epoch now) (enqueueRow ref)) (\<lambda>_. requireResource ref)))" for row
    by (intro preserves_and_then preserves_stmt preserves_wake)
      (simp add: work_ok_update_resource row_ok_deletion)
  then show ?thesis
    unfolding requestDeletion_def
    by (intro preserves_guarded preserves_transact preservesI) (auto dest: preservesD split: option.split)
qed

lemma preserves_updateFinalizers: "preserves work_ok (updateFinalizers ref expected fs now)"
proof -
  let ?p = "\<lambda>r. rr_ref r = ref \<and> rr_version r = expected"
  have step: "work_ok (snd (requireResource ref (update_resource ?p (refinalize t now) d)))"
    if "list_all fst (validateFinalizers fs @ [validTimestamp now])" "finalizers_json fs = Inr t" "work_ok d"
    for t d
    by (rule preservesD[OF preserves_requireResource], rule work_ok_update_resource)
      (use that in \<open>simp_all add: validateFinalizers_ok row_ok_finalizers[OF _ that(2)]\<close>)
  then show ?thesis
    unfolding updateFinalizers_def
    by (intro preserves_guarded preserves_with_result preservesI)
      (simp add: Let_def throwMissingOrConflict_def)
qed

lemma preserves_deleteResource: "preserves work_ok (deleteResource ref expected)"
proof -
  let ?p = "\<lambda>r. rr_ref r = ref \<and> rr_version r = expected"
  have cascade: "work_ok (delete_cascade p d)" if ok: "work_ok d" for p d
  proof -
    have kept: "k ` set rows \<subseteq> key ` set (resources d) \<Longrightarrow> keyed key (resources d) \<Longrightarrow>
        k ` set (sql_delete (\<lambda>q. k q \<in> set (map key (filter p (resources d)))) rows)
          \<subseteq> key ` set (sql_delete p (resources d))" for k :: "'r \<Rightarrow> 'k" and key rows
      by (auto simp: sql_delete_def)
    show ?thesis
      using ok kept[of q_ref "queue d" rr_ref] kept[of e_uid "effects d" rr_uid]
        kept[of w_uid "requests d" rr_uid]
      by (simp add: work_ok_def delete_cascade_def Let_def keyed_sql_delete list_all_sql_delete)
  qed
  show ?thesis
    by (rule preservesI)
      (use cascade in \<open>simp add: deleteResource_def with_result_def Let_def split: option.split sum.split\<close>)
qed

lemma preserves_enqueue: "preserves work_ok (enqueue ref at)"
  unfolding enqueue_def
  by (intro preserves_guarded preservesI)
    (use preservesD[OF preserves_with_result[where r = "epoch at" and f = "enqueueRow ref",
        OF preserves_enqueueRow]] in auto)

lemma preserves_claimNext: "preserves work_ok (claimNext cs lease now token)"
proof -
  have "preserves work_ok (claim_rows cs n lease token)" for n
    unfolding claim_rows_def
    by (intro preserves_transact preservesI)
      (auto simp: Let_def with_result_def queue_row_ok_def
        intro!: work_ok_update_queue split: option.split sum.split)
  then show ?thesis unfolding claimNext_def by (intro preserves_intros)
qed

lemma preserves_renewClaim: "preserves work_ok (renewClaim c lease now)"
  unfolding renewClaim_def
  by (intro preserves_intros preservesI)
    (auto simp: Let_def queue_row_ok_def claim_of_def intro!: work_ok_update_queue split: option.splits)

lemma queue_row_ok_released: "queue_row_ok q \<Longrightarrow> queue_row_ok ((released q)\<lparr>q_available := a, q_errors := n, q_last_error := l\<rparr>)"
  by (simp add: queue_row_ok_def released_def)

lemma preserves_settleClaim: "preserves work_ok (settleClaim c now)"
  unfolding settleClaim_def
  by (intro preserves_intros preservesI)
    (auto intro!: work_ok_update_queue work_ok_delete_queue queue_row_ok_released split: option.split)

lemma preserves_requeueClaim: "preserves work_ok (requeueClaim c at err)"
  unfolding requeueClaim_def
  by (intro preserves_intros preservesI)
    (auto simp: Let_def intro!: work_ok_update_queue queue_row_ok_released split: option.split)

end
