(* ===== verification/WorkQueue.thy ===== *)
theory WorkQueue
  imports ResourceStore
begin

text \<open>
  What the resource operations promise together: the acts a controller process may perform on the
  store, the lease of a claimed queue row, and the wakeups a claim may not lose.
\<close>

section \<open>Acts\<close>

datatype resource_act =
    PutResource string string jv jv string string
  | UpdateStatus resource_ref nat jv "string list option" string
  | RequestDeletion resource_ref string
  | UpdateFinalizers resource_ref nat "string list" string
  | DeleteResource resource_ref nat
  | Enqueue resource_ref string
  | ClaimNext "string list" int string string
  | RenewClaim queue_claim int string
  | SettleClaim queue_claim string
  | RequeueClaim queue_claim string "string option"

fun resource_step :: "resource_act \<Rightarrow> db \<Rightarrow> db" where
  "resource_step (PutResource c k spec status now uid) d = snd (putResource c k spec status now uid d)"
| "resource_step (UpdateStatus ref v status fs now) d = snd (updateStatus ref v status fs now d)"
| "resource_step (RequestDeletion ref now) d = snd (requestDeletion ref now d)"
| "resource_step (UpdateFinalizers ref v fs now) d = snd (updateFinalizers ref v fs now d)"
| "resource_step (DeleteResource ref v) d = snd (deleteResource ref v d)"
| "resource_step (Enqueue ref at) d = snd (enqueue ref at d)"
| "resource_step (ClaimNext cs lease now token) d = snd (claimNext cs lease now token d)"
| "resource_step (RenewClaim c lease now) d = snd (renewClaim c lease now d)"
| "resource_step (SettleClaim c now) d = snd (settleClaim c now d)"
| "resource_step (RequeueClaim c at err) d = snd (requeueClaim c at err d)"

text \<open>The values an act stores are JavaScript values: no object has a property twice.\<close>

fun act_ok :: "resource_act \<Rightarrow> bool" where
  "act_ok (PutResource c k spec status now uid) = (wf_js spec \<and> wf_js status)"
| "act_ok (UpdateStatus ref v status fs now) = wf_js status"
| "act_ok _ = True"

lemma work_ok_step: "work_ok d \<Longrightarrow> act_ok a \<Longrightarrow> work_ok (resource_step a d)"
  by (cases a) (auto intro!: preservesD[of work_ok] simp: preserves_putResource preserves_updateStatus
      preserves_requestDeletion preserves_updateFinalizers preserves_deleteResource preserves_enqueue
      preserves_claimNext preserves_renewClaim preserves_settleClaim preserves_requeueClaim)

section \<open>The lease of a claimed row\<close>

definition queue_row_of :: "resource_ref \<Rightarrow> db \<Rightarrow> queue_row option" where
  "queue_row_of ref d = sql_get (\<lambda>q. q_ref q = ref) (queue d)"

definition row_lease :: "queue_row \<Rightarrow> (string \<times> int) option" where
  "row_lease q = (case (q_token q, q_expires q) of (Some t, Some e) \<Rightarrow> Some (t, e) | _ \<Rightarrow> None)"

definition queue_holder :: "db \<Rightarrow> resource_ref \<Rightarrow> (string \<times> int) option" where
  "queue_holder d ref = (case queue_row_of ref d of None \<Rightarrow> None | Some q \<Rightarrow> row_lease q)"

fun act_clock :: "resource_act \<Rightarrow> int option" where
  "act_clock (ClaimNext cs lease now token) = date_parse now"
| "act_clock _ = None"

text \<open>The acts that end or move a lease: its holder's own, and the deletion of the resource.\<close>

fun touches_claim :: "resource_act \<Rightarrow> resource_ref \<Rightarrow> string \<Rightarrow> bool" where
  "touches_claim (RenewClaim c lease now) ref t = (c_ref c = ref \<and> c_token c = t)"
| "touches_claim (SettleClaim c now) ref t = (c_ref c = ref \<and> c_token c = t)"
| "touches_claim (RequeueClaim c at err) ref t = (c_ref c = ref \<and> c_token c = t)"
| "touches_claim (DeleteResource ref' v) ref t = (ref' = ref)"
| "touches_claim _ ref t = False"

fun queue_grants :: "resource_act \<Rightarrow> db \<Rightarrow> resource_ref \<Rightarrow> (string \<times> int) option" where
  "queue_grants (ClaimNext cs lease now token) d ref =
     (case fst (claimNext cs lease now token d) of
        Inr (Some c) \<Rightarrow> if c_ref c = ref
          then map_option (\<lambda>ms. (c_token c, ms + lease)) (date_parse now) else None
      | _ \<Rightarrow> None)"
| "queue_grants _ d ref = None"

text \<open>
  How each operation may change the queue: rows of a live lease are only pulled forward and
  counted, unless the act touches the claim.
\<close>

definition woken :: "queue_row \<Rightarrow> queue_row \<Rightarrow> bool" where
  "woken q q' \<longleftrightarrow> q_ref q' = q_ref q \<and> q_available q' \<le> q_available q \<and> q_version q \<le> q_version q' \<and>
     q_token q' = q_token q \<and> q_claim_version q' = q_claim_version q \<and> q_expires q' = q_expires q \<and>
     q_errors q' = q_errors q"

definition row_kept :: "resource_ref \<Rightarrow> db \<Rightarrow> db \<Rightarrow> bool" where
  "row_kept ref d d' \<longleftrightarrow> (\<forall>q. queue_row_of ref d = Some q \<longrightarrow>
     (\<exists>q'. queue_row_of ref d' = Some q' \<and> woken q q'))"

lemma woken_trans: "woken q q2 \<Longrightarrow> woken q2 q3 \<Longrightarrow> woken q q3"
  by (simp add: woken_def)

lemma row_kept_relation: "reflp (row_kept ref)" "transp (row_kept ref)"
proof -
  show "reflp (row_kept ref)" by (simp add: reflp_def row_kept_def woken_def)
  show "transp (row_kept ref)"
  proof (rule transpI)
    fix d1 d2 d3 assume first: "row_kept ref d1 d2" and second: "row_kept ref d2 d3"
    show "row_kept ref d1 d3"
      unfolding row_kept_def
    proof (intro allI impI)
      fix q assume "queue_row_of ref d1 = Some q"
      then obtain q2 where q2: "queue_row_of ref d2 = Some q2" "woken q q2"
        using first unfolding row_kept_def by blast
      then obtain q3 where "queue_row_of ref d3 = Some q3" "woken q2 q3"
        using second unfolding row_kept_def by blast
      then show "\<exists>q'. queue_row_of ref d3 = Some q' \<and> woken q q'"
        using woken_trans[OF q2(2)] by blast
    qed
  qed
qed

lemma row_kept_frame: "queue d' = queue d \<Longrightarrow> row_kept ref d d'"
  by (simp add: row_kept_def queue_row_of_def woken_def)

lemma row_kept_update:
  assumes "\<And>q. q_ref (f q) = q_ref q" and "\<And>q. queue_row_of ref d = Some q \<Longrightarrow> p q \<Longrightarrow> woken q (f q)"
  shows "row_kept ref d (d\<lparr>queue := sql_update p f (queue d)\<rparr>)"
  using assms(2)
  by (auto simp: row_kept_def queue_row_of_def sql_get_sql_update assms(1) woken_def)

lemma row_kept_delete:
  "(\<And>q. queue_row_of ref d = Some q \<Longrightarrow> \<not> p q) \<Longrightarrow>
    row_kept ref d (d\<lparr>queue := sql_delete p (queue d)\<rparr>)"
  by (auto simp: row_kept_def queue_row_of_def woken_def intro: sql_get_sql_delete)

lemma kept_enqueueRow: "keeps (row_kept ref) (enqueueRow ref' at)"
proof -
  have "row_kept ref d (snd (enqueueRow ref' at d))" for d
  proof (cases "\<exists>q \<in> set (queue d). q_ref q = ref'")
    case True
    then show ?thesis
      by (simp add: enqueueRow_def) (rule row_kept_update, simp_all add: woken_def)
  next
    case False
    then show ?thesis
      by (auto simp: enqueueRow_def row_kept_def queue_row_of_def sql_get_append woken_def)
  qed
  then show ?thesis by (simp add: keeps_def)
qed

lemma kept_requireResource: "keeps (row_kept ref) (requireResource ref')"
  unfolding keeps_def
  by (simp add: requireResource_def row_kept_frame split: sum.split option.split)

lemma kept_stmt: "(\<And>d. queue (f d) = queue d) \<Longrightarrow> keeps (row_kept ref) (stmt f)"
  by (simp add: keeps_def stmt_def row_kept_frame)

lemma kept_wake:
  "keeps (row_kept ref) (and_then (with_result (epoch now) (enqueueRow ref')) (\<lambda>_. requireResource ref'))"
  by (intro keeps_and_then keeps_with_result row_kept_relation kept_enqueueRow kept_requireResource)

lemma queue_update_resource [simp]: "queue (update_resource p f d) = queue d"
  by (simp add: update_resource_def)

lemma keeps_pointwise: "(\<And>s. R s (snd (f s))) \<Longrightarrow> keeps R f"
  by (simp add: keeps_def)

lemma kept_putResource: "keeps (row_kept ref) (putResource c k spec status now uid)"
proof -
  let ?tail = "\<lambda>ref' _. and_then (with_result (epoch now) (enqueueRow ref')) (\<lambda>_. requireResource ref')"
  have insert: "keeps (row_kept ref) (and_then (insert_resource row) (?tail ref'))" for row ref'
    by (intro keeps_and_then row_kept_relation kept_wake keeps_pointwise)
      (simp add: insert_resource_def row_kept_frame)
  have update: "keeps (row_kept ref) (and_then (stmt (update_resource p f)) (?tail ref'))" for p f ref'
    by (intro keeps_and_then row_kept_relation kept_wake kept_stmt) simp
  have "keeps (row_kept ref) (put_rows ref' sj stj now uid)" for ref' sj stj
    unfolding put_rows_def
    by (intro keeps_transact row_kept_relation keeps_pointwise)
      (use insert update kept_requireResource in \<open>simp add: keeps_def split: option.split\<close>)
  then show ?thesis
    unfolding putResource_def by (intro keeps_guarded keeps_with_result row_kept_relation)
qed

lemma kept_updateStatus: "keeps (row_kept ref) (updateStatus ref' v status fs now)"
proof -
  have read: "row_kept ref d (snd (requireResource ref' (update_resource p f d)))" for d p f
    by (simp add: requireResource_def row_kept_frame split: sum.split option.split)
  have "keeps (row_kept ref) (status_rows ref' v sj fs now)" for sj
    unfolding status_rows_def
    by (intro keeps_transact row_kept_relation keeps_pointwise)
      (simp add: with_result_def read row_kept_frame split: option.split sum.split)
  then show ?thesis
    unfolding updateStatus_def by (intro keeps_guarded keeps_with_result row_kept_relation)
qed

lemma kept_requestDeletion: "keeps (row_kept ref) (requestDeletion ref' now)"
proof -
  have "keeps (row_kept ref) (and_then (stmt (\<lambda>d. if c then update_resource p f d else d))
      (\<lambda>_. and_then (with_result (epoch now) (enqueueRow ref')) (\<lambda>_. requireResource ref')))" for c p f
    by (intro keeps_and_then row_kept_relation kept_wake kept_stmt) simp
  then show ?thesis
    unfolding requestDeletion_def
    by (intro keeps_guarded keeps_transact row_kept_relation keeps_pointwise)
      (simp add: keeps_def row_kept_frame split: option.split)
qed

lemma kept_updateFinalizers: "keeps (row_kept ref) (updateFinalizers ref' v fs now)"
  unfolding updateFinalizers_def
  by (intro keeps_guarded keeps_with_result row_kept_relation keeps_pointwise)
    (simp add: Let_def throwMissingOrConflict_def requireResource_def row_kept_frame
      split: sum.split option.split)

lemma kept_deleteResource:
  assumes "ref' \<noteq> ref"
  shows "keeps (row_kept ref) (deleteResource ref' v)"
proof -
  have "row_kept ref d (delete_cascade (\<lambda>r. rr_ref r = ref' \<and> rr_version r = v) d)" for d
  proof -
    let ?p = "\<lambda>q. q_ref q \<in> set (map rr_ref (filter (\<lambda>r. rr_ref r = ref' \<and> rr_version r = v) (resources d)))"
    have "row_kept ref d (d\<lparr>queue := sql_delete ?p (queue d)\<rparr>)"
      by (rule row_kept_delete) (use assms in \<open>auto simp: queue_row_of_def dest: sql_get_Some\<close>)
    then show ?thesis by (simp add: row_kept_def queue_row_of_def delete_cascade_def Let_def)
  qed
  then show ?thesis
    by (intro keeps_pointwise)
      (simp add: deleteResource_def with_result_def Let_def row_kept_frame split: option.split sum.split)
qed

lemma kept_enqueue: "keeps (row_kept ref) (enqueue ref' at)"
proof -
  have "keeps (row_kept ref) (with_result (epoch at) (enqueueRow ref'))"
    by (intro keeps_with_result row_kept_relation kept_enqueueRow)
  then show ?thesis
    unfolding enqueue_def
    by (intro keeps_guarded row_kept_relation keeps_pointwise) (simp add: keeps_def row_kept_frame)
qed

lemma guarded_cases [consumes 1, case_names thrown passed]:
  assumes "guarded checks f s = r" "\<And>e. r = (Inl e, s) \<Longrightarrow> Q" "list_all fst checks \<Longrightarrow> f s = r \<Longrightarrow> Q"
  shows Q
  using assms by (auto simp: guarded_def first_failure_None[symmetric] split: option.splits)

lemma snd_guarded: "(list_all fst checks \<Longrightarrow> R s (snd (f s))) \<Longrightarrow> R s s \<Longrightarrow> R s (snd (guarded checks f s))"
  by (auto simp: guarded_def first_failure_None[symmetric] split: option.splits)

lemma snd_with_result: "(\<And>b. r = Inr b \<Longrightarrow> R s (snd (f b s))) \<Longrightarrow> R s s \<Longrightarrow> R s (snd (with_result r f s))"
  by (auto simp: with_result_def split: sum.split)

lemma snd_transact: "R s (snd (f s)) \<Longrightarrow> R s s \<Longrightarrow> R s (snd (transact f s))"
  by (auto simp: transact_def split: prod.split sum.split)

lemma row_kept_refl: "row_kept ref d d"
  by (simp add: row_kept_frame)

text \<open>A claim act leaves a row alone that is held under another token, or whose lease runs.\<close>

lemma kept_claimNext:
  assumes "queue_row_of ref d = Some q" "row_lease q = Some (t, e)" "\<And>n. date_parse now = Some n \<Longrightarrow> n < e"
  shows "row_kept ref d (snd (claimNext cs lease now token d))"
proof -
  have "row_kept ref d (snd (claim_rows cs n lease token d))" if "n < e" for n
    unfolding claim_rows_def
  proof (intro snd_transact[where R = "row_kept ref"] row_kept_refl)
    have "row_kept ref d (d\<lparr>queue := sql_update (\<lambda>q'. q_ref q' = r \<and> lease_free n (q_token q') (q_expires q')) f (queue d)\<rparr>)"
      if "\<And>q. q_ref (f q) = q_ref q" for r f
      by (rule row_kept_update[OF that])
        (use assms(1,2) \<open>n < e\<close> in \<open>auto simp: row_lease_def lease_free_def split: option.splits\<close>)
    then show "row_kept ref d (snd (case sql_first (claimable cs n) q_order (queue d) of
        None \<Rightarrow> (Inr None, d)
      | Some row \<Rightarrow>
          let expires = n + lease;
              p = (\<lambda>q. q_ref q = q_ref row \<and> lease_free n (q_token q) (q_expires q)) in
          if sql_changes p (queue d) \<noteq> 1 then (Inr None, d)
          else with_result (iso expires) (\<lambda>expiresAt d. (Inr (Some \<lparr>c_controller = q_controller row,
              c_key = q_key row, c_token = token, c_version = q_version row,
              c_errors = q_errors row, c_expires = expiresAt\<rparr>), d))
            (d\<lparr>queue := sql_update p (\<lambda>q. q\<lparr>q_token := Some token,
               q_claim_version := Some (q_version q), q_expires := Some expires\<rparr>) (queue d)\<rparr>)))"
      by (simp add: with_result_def Let_def row_kept_refl split: option.split sum.split)
  qed
  then show ?thesis
    using assms(3) unfolding claimNext_def
    by (intro snd_guarded[where R = "row_kept ref"] row_kept_refl)
      (auto simp: return_op_def row_kept_refl epoch_Inr
        intro!: snd_guarded[where R = "row_kept ref"] snd_with_result[where R = "row_kept ref"])
qed

lemma other_claim:
  "queue_row_of ref d = Some q \<Longrightarrow> row_lease q = Some (t, e) \<Longrightarrow> \<not> (c_ref c = ref \<and> c_token c = t) \<Longrightarrow>
    \<not> claim_of c q"
  by (auto simp: queue_row_of_def claim_of_def row_lease_def dest!: sql_get_Some split: option.splits)

lemma row_kept_other:
  assumes "queue_row_of ref d = Some q" "\<not> p q"
  shows "(\<And>q. q_ref (f q) = q_ref q) \<Longrightarrow> row_kept ref d (d\<lparr>queue := sql_update p f (queue d)\<rparr>)"
    and "row_kept ref d (d\<lparr>queue := sql_delete p (queue d)\<rparr>)"
proof -
  show "row_kept ref d (d\<lparr>queue := sql_delete p (queue d)\<rparr>)"
    by (rule row_kept_delete) (use assms in auto)
  show "row_kept ref d (d\<lparr>queue := sql_update p f (queue d)\<rparr>)" if "\<And>q. q_ref (f q) = q_ref q"
    by (rule row_kept_update[OF that]) (use assms in auto)
qed

lemma kept_renewClaim:
  assumes "queue_row_of ref d = Some q" "\<not> claim_of c q"
  shows "row_kept ref d (snd (renewClaim c lease now d))"
  unfolding renewClaim_def
  by (intro snd_guarded[where R = "row_kept ref"] snd_with_result[where R = "row_kept ref"] row_kept_refl)
    (use assms in \<open>simp add: Let_def row_kept_other\<close>)

lemma kept_settleClaim:
  assumes "queue_row_of ref d = Some q" "\<not> claim_of c q"
  shows "row_kept ref d (snd (settleClaim c now d))"
  unfolding settleClaim_def
  by (intro snd_guarded[where R = "row_kept ref"] snd_with_result[where R = "row_kept ref"]
      snd_transact[where R = "row_kept ref"] row_kept_refl)
    (use assms in \<open>simp add: row_kept_other row_kept_refl split: option.split\<close>)

lemma kept_requeueClaim:
  assumes "queue_row_of ref d = Some q" "\<not> claim_of c q"
  shows "row_kept ref d (snd (requeueClaim c at err d))"
  unfolding requeueClaim_def
  by (intro snd_guarded[where R = "row_kept ref"] snd_with_result[where R = "row_kept ref"]
      snd_transact[where R = "row_kept ref"] row_kept_refl)
    (use assms in \<open>simp add: row_kept_other Let_def row_kept_refl split: option.split\<close>)

lemma row_kept_step:
  assumes "queue_row_of ref d = Some q" "row_lease q = Some (t, e)" "\<not> touches_claim a ref t"
    and "\<And>n. act_clock a = Some n \<Longrightarrow> n < e"
  shows "row_kept ref d (resource_step a d)"
proof -
  have other: "\<not> claim_of c q" if "\<not> (c_ref c = ref \<and> c_token c = t)" for c
    using other_claim[OF assms(1,2) that] .
  show ?thesis
  proof (cases a)
    case (ClaimNext cs lease now token)
    then show ?thesis using kept_claimNext[OF assms(1,2)] assms(4) by simp
  next
    case (RenewClaim c lease now)
    then show ?thesis using kept_renewClaim[OF assms(1) other] assms(3) by simp
  next
    case (SettleClaim c now)
    then show ?thesis using kept_settleClaim[OF assms(1) other] assms(3) by simp
  next
    case (RequeueClaim c at err)
    then show ?thesis using kept_requeueClaim[OF assms(1) other] assms(3) by simp
  next
    case (DeleteResource r v)
    then show ?thesis using kept_deleteResource[of r ref v] assms(3) by (simp add: keeps_def)
  qed (simp_all add: keeps_def[symmetric] kept_putResource[unfolded keeps_def]
      kept_updateStatus[unfolded keeps_def] kept_requestDeletion[unfolded keeps_def]
      kept_updateFinalizers[unfolded keeps_def] kept_enqueue[unfolded keeps_def])
qed

section \<open>Claiming\<close>

definition queue_ok :: "db \<Rightarrow> bool" where
  "queue_ok d \<longleftrightarrow> keyed q_ref (queue d)"

text \<open>A claim takes the first claimable row, and is refused only when there is none.\<close>

lemma claim_rows_cases:
  assumes "keyed q_ref (queue d)" and "claim_rows cs n lease token d = (r, d')"
  obtains
    (empty) "\<And>q. q \<in> set (queue d) \<Longrightarrow> \<not> claimable cs n q" and "r = Inr None" and "d' = d"
  | (range) e where "r = Inl e" and "d' = d" and "iso (n + lease) = Inl e"
  | (granted) row until where "row \<in> set (queue d)" and "claimable cs n row"
      and "\<And>q. q \<in> set (queue d) \<Longrightarrow> claimable cs n q \<Longrightarrow> q_order row \<le> q_order q"
      and "iso (n + lease) = Inr until"
      and "r = Inr (Some \<lparr>c_controller = q_controller row, c_key = q_key row, c_token = token,
        c_version = q_version row, c_errors = q_errors row, c_expires = until\<rparr>)"
      and "d' = d\<lparr>queue := sql_update (\<lambda>q. q_ref q = q_ref row \<and> lease_free n (q_token q) (q_expires q))
        (\<lambda>q. q\<lparr>q_token := Some token, q_claim_version := Some (q_version q),
           q_expires := Some (n + lease)\<rparr>) (queue d)\<rparr>"
proof (cases "sql_first (claimable cs n) q_order (queue d)")
  case None
  then have none: "\<forall>q \<in> set (queue d). \<not> claimable cs n q" by (simp add: sql_first_None)
  have "r = Inr None" "d' = d" using assms(2) None by (simp_all add: claim_rows_def transact_def)
  then show ?thesis using none by (intro empty) simp_all
next
  case (Some row)
  note row = sql_first_Some[OF Some]
  let ?p = "\<lambda>q. q_ref q = q_ref row \<and> lease_free n (q_token q) (q_expires q)"
  have "sql_changes ?p (queue d) = 1 \<longleftrightarrow> (\<exists>q \<in> set (queue d). ?p q)"
    by (rule sql_changes_eq_1[OF assms(1)]) auto
  then have one: "sql_changes ?p (queue d) = 1" using row(1,2) by (auto simp: claimable_def)
  show ?thesis
  proof (cases "iso (n + lease)")
    case (Inl e)
    then show ?thesis
      using assms(2) Some one by (intro range[of e]) (auto simp: claim_rows_def transact_def with_result_def Let_def)
  next
    case (Inr until)
    then show ?thesis
      using assms(2) Some one row
      by (intro granted[of row until]) (auto simp: claim_rows_def transact_def with_result_def Let_def)
  qed
qed

lemma claimNext_granted:
  assumes "queue_ok d" and "claimNext cs lease now token d = (Inr (Some c), d')"
  obtains n row where "date_parse now = Some n" and "row \<in> set (queue d)" and "claimable cs n row"
    and "\<And>q. q \<in> set (queue d) \<Longrightarrow> claimable cs n q \<Longrightarrow> q_order row \<le> q_order q"
    and "c_ref c = q_ref row" and "c_token c = token" and "c_version c = q_version row"
    and "d' = d\<lparr>queue := sql_update (\<lambda>q. q_ref q = q_ref row \<and> lease_free n (q_token q) (q_expires q))
        (\<lambda>q. q\<lparr>q_token := Some token, q_claim_version := Some (q_version q),
           q_expires := Some (n + lease)\<rparr>) (queue d)\<rparr>"
proof -
  obtain n where n: "date_parse now = Some n" and claim: "claim_rows cs n lease token d = (Inr (Some c), d')"
    using assms(2) by (auto simp: claimNext_def op_Inr epoch_Inr return_op_def split: if_splits)
  show ?thesis
  proof (rule claim_rows_cases[OF assms(1)[unfolded queue_ok_def] claim])
    fix row until
    assume row: "row \<in> set (queue d)" "claimable cs n row"
      "\<And>q. q \<in> set (queue d) \<Longrightarrow> claimable cs n q \<Longrightarrow> q_order row \<le> q_order q"
      and c: "Inr (Some c) = Inr (Some \<lparr>c_controller = q_controller row, c_key = q_key row,
        c_token = token, c_version = q_version row, c_errors = q_errors row, c_expires = until\<rparr>)"
      and d': "d' = d\<lparr>queue := sql_update (\<lambda>q. q_ref q = q_ref row \<and> lease_free n (q_token q) (q_expires q))
        (\<lambda>q. q\<lparr>q_token := Some token, q_claim_version := Some (q_version q),
           q_expires := Some (n + lease)\<rparr>) (queue d)\<rparr>"
    show ?thesis by (rule that[OF n row _ _ _ d']) (use c in \<open>auto simp: c_ref_def q_ref_def\<close>)
  qed auto
qed

lemma queue_row_of_keyed: "queue_ok d \<Longrightarrow> q \<in> set (queue d) \<Longrightarrow> queue_row_of (q_ref q) d = Some q"
  by (simp add: queue_ok_def queue_row_of_def sql_get_keyed)

lemma queue_grants_Some:
  assumes "queue_grants a d ref = Some (t, e)"
  obtains cs lease now c d' n where "a = ClaimNext cs lease now t" and "c_ref c = ref"
    and "claimNext cs lease now t d = (Inr (Some c), d')" and "date_parse now = Some n" and "e = n + lease"
proof -
  obtain cs lease now token where a: "a = ClaimNext cs lease now token"
    using assms by (cases a) auto
  obtain c where c: "fst (claimNext cs lease now token d) = Inr (Some c)" "c_ref c = ref"
    and te: "map_option (\<lambda>ms. (c_token c, ms + lease)) (date_parse now) = Some (t, e)"
    using assms by (auto simp: a split: sum.splits option.splits if_splits)
  obtain d' where d': "claimNext cs lease now token d = (Inr (Some c), d')"
    using c(1) by (cases "claimNext cs lease now token d") auto
  then have "c_token c = token"
    by (auto simp: claimNext_def op_Inr return_op_def claim_rows_def Let_def transact_Inr with_result_Inr
        split: if_splits option.splits)
  then show ?thesis using that[of cs lease now c d'] a c d' te by auto
qed

lemma queue_ok_step: "queue_ok d \<Longrightarrow> work_ok d \<Longrightarrow> act_ok a \<Longrightarrow> queue_ok (resource_step a d)"
  using work_ok_step by (auto simp: work_ok_def queue_ok_def)

lemma work_ok_queue: "work_ok d \<Longrightarrow> queue_ok d"
  by (simp add: work_ok_def queue_ok_def)

lemma queue_grant_effect:
  assumes "work_ok d" and "queue_grants a d k = Some (t, e)"
  obtains n row lease where "act_clock a = Some n" and "queue_row_of k d = Some row"
    and "lease_free n (q_token row) (q_expires row)" and "e = n + lease"
    and "resource_step a d = d\<lparr>queue := sql_update
      (\<lambda>q. q_ref q = q_ref row \<and> lease_free n (q_token q) (q_expires q))
      (\<lambda>q. q\<lparr>q_token := Some t, q_claim_version := Some (q_version q), q_expires := Some (n + lease)\<rparr>) (queue d)\<rparr>"
proof -
  obtain cs lease now c d' n where a: "a = ClaimNext cs lease now t" and c: "c_ref c = k"
    and claim: "claimNext cs lease now t d = (Inr (Some c), d')" and n: "date_parse now = Some n"
    and e: "e = n + lease"
    using assms(2) by (elim queue_grants_Some)
  note q_ok = work_ok_queue[OF assms(1)]
  show ?thesis
  proof (rule claimNext_granted[OF q_ok claim])
    fix m row
    assume m: "date_parse now = Some m" and row: "row \<in> set (queue d)" "claimable cs m row"
      and ref: "c_ref c = q_ref row"
      and d': "d' = d\<lparr>queue := sql_update (\<lambda>q. q_ref q = q_ref row \<and> lease_free m (q_token q) (q_expires q))
        (\<lambda>q. q\<lparr>q_token := Some t, q_claim_version := Some (q_version q),
           q_expires := Some (m + lease)\<rparr>) (queue d)\<rparr>"
    have "m = n" using m n by simp
    moreover have "queue_row_of k d = Some row" using queue_row_of_keyed[OF q_ok row(1)] ref c by simp
    ultimately show ?thesis
      using that[of n row lease] row(2) n e d' claim by (simp add: a claimable_def)
  qed
qed

interpretation claims: lease_table work_ok act_ok resource_step queue_holder act_clock touches_claim queue_grants
proof
  fix d a assume "work_ok d" "act_ok a"
  then show "work_ok (resource_step a d)" by (rule work_ok_step)
next
  fix d a k t e
  assume "work_ok d" and "queue_grants a d k = Some (t, e)"
  then show "queue_holder (resource_step a d) k = Some (t, e)"
  proof (rule queue_grant_effect)
    fix n row lease
    assume "queue_row_of k d = Some row" "lease_free n (q_token row) (q_expires row)" "e = n + lease"
      and d': "resource_step a d = d\<lparr>queue := sql_update
        (\<lambda>q. q_ref q = q_ref row \<and> lease_free n (q_token q) (q_expires q))
        (\<lambda>q. q\<lparr>q_token := Some t, q_claim_version := Some (q_version q), q_expires := Some (n + lease)\<rparr>) (queue d)\<rparr>"
    moreover have "q_ref row = k" using calculation(1) by (auto simp: queue_row_of_def dest: sql_get_Some)
    ultimately show ?thesis
      unfolding d' by (simp add: queue_holder_def queue_row_of_def sql_get_sql_update row_lease_def)
  qed
next
  fix d k t e a
  assume held: "queue_holder d k = Some (t, e)" "\<not> touches_claim a k t" "\<And>n. act_clock a = Some n \<Longrightarrow> n < e"
  then obtain q where q: "queue_row_of k d = Some q" "row_lease q = Some (t, e)"
    by (auto simp: queue_holder_def split: option.splits)
  obtain q' where "queue_row_of k (resource_step a d) = Some q'" "woken q q'"
    using row_kept_step[OF q held(2,3)] q(1) by (auto simp: row_kept_def)
  then show "queue_holder (resource_step a d) k = Some (t, e)"
    using q(2) by (simp add: queue_holder_def woken_def row_lease_def)
next
  fix d k t e a
  assume ok: "work_ok d" and held: "queue_holder d k = Some (t, e)" and "queue_grants a d k \<noteq> None"
  then obtain t' e' where "queue_grants a d k = Some (t', e')" by auto
  with ok show "\<exists>n. act_clock a = Some n \<and> e \<le> n"
  proof (rule queue_grant_effect)
    fix n row
    assume "act_clock a = Some n" "queue_row_of k d = Some row" "lease_free n (q_token row) (q_expires row)"
    then show ?thesis
      using held by (auto simp: queue_holder_def row_lease_def lease_free_def split: option.splits)
  qed
qed

section \<open>A concrete store\<close>

definition sample_db :: db where
  "sample_db = empty_db\<lparr>resources := [\<lparr>rr_controller = ''c'', rr_key = ''k'', rr_uid = ''u'',
     rr_version = 1, rr_generation = 1, rr_spec = ''{}'', rr_status = ''{}'', rr_deletion = None,
     rr_finalizers = ''[]'', rr_updated = ''1970-01-01T00:00:00.000Z''\<rparr>],
   queue := [\<lparr>q_controller = ''c'', q_key = ''k'', q_available = 0, q_version = 1, q_errors = 0,
     q_last_error = None, q_token = None, q_claim_version = None, q_expires = None\<rparr>]\<rparr>"

lemma sample_ok: "work_ok sample_db"
  by (simp add: sample_db_def empty_db_def work_ok_def resource_row_ok_def queue_row_ok_def
      resourceFromRow_def stored_finalizers_def stored_json_def parseStoredJson_def sample_parse
      validateFinalizers_def rr_ref_def q_ref_def keyed_def)

text \<open>Its queue row claimed under token ''t'' until the sixth second, with \<open>v\<close> wakeups.\<close>

definition claimed_db :: "nat \<Rightarrow> db" where
  "claimed_db v = sample_db\<lparr>queue := [\<lparr>q_controller = ''c'', q_key = ''k'', q_available = 0,
     q_version = v, q_errors = 0, q_last_error = None, q_token = Some ''t'',
     q_claim_version = Some 1, q_expires = Some 6000\<rparr>]\<rparr>"

definition sample_claim :: queue_claim where
  "sample_claim = \<lparr>c_controller = ''c'', c_key = ''k'', c_token = ''t'', c_version = 1, c_errors = 0,
     c_expires = ''1970-01-01T00:00:06.000Z''\<rparr>"

lemmas sample_defs = sample_db_def claimed_db_def sample_claim_def

lemma sample_claimed:
  "claimNext [''c''] 5000 ''1970-01-01T00:00:01.000Z'' ''t'' sample_db = (Inr (Some sample_claim), claimed_db 1)"
  by (simp add: claimNext_def claim_rows_def store_eval sample_times sample_iso sample_defs
      claimable_def lease_free_def iso_def q_ref_def)

lemma sample_woken: "enqueue (''c'', ''k'') ''1970-01-01T00:00:02.000Z'' (claimed_db 1) = (Inr (), claimed_db 2)"
  by (simp add: enqueue_def resourceRow_def enqueueRow_def store_eval sample_times sample_defs rr_ref_def q_ref_def)

lemma sample_settled:
  "settleClaim sample_claim ''1970-01-01T00:00:02.000Z'' (claimed_db 2) = (Inr True, sample_db\<lparr>queue :=
     [\<lparr>q_controller = ''c'', q_key = ''k'', q_available = 0, q_version = 2, q_errors = 0,
       q_last_error = None, q_token = None, q_claim_version = None, q_expires = None\<rparr>]\<rparr>)"
  by (simp add: settleClaim_def claimedRow_def claim_of_def released_def store_eval sample_times sample_defs
      c_ref_def q_ref_def)

section \<open>Properties of the queue\<close>

definition resource_run :: "resource_act list \<Rightarrow> db \<Rightarrow> db" where
  "resource_run as d = fold resource_step as d"

text \<open>An act that leaves a lease on \<open>ref\<close> under \<open>token\<close>, running until \<open>until\<close>, alone.\<close>

definition leaves_lease :: "resource_ref \<Rightarrow> string \<Rightarrow> int \<Rightarrow> resource_act \<Rightarrow> bool" where
  "leaves_lease ref token until a \<longleftrightarrow> act_ok a \<and> \<not> touches_claim a ref token \<and>
     (case act_clock a of None \<Rightarrow> True | Some n \<Rightarrow> n < until)"

lemma leaves_lease_quiet: "leaves_lease ref t e = claims.quiet ref t e"
  by (rule ext) (auto simp: leaves_lease_def claims.quiet_def split: option.splits)

lemma resource_run_eq: "resource_run as d = claims.run as d"
  by (induction as arbitrary: d) (simp_all add: resource_run_def)

lemma claimNext_token: "claimNext cs lease now token d = (Inr (Some c), d') \<Longrightarrow> c_token c = token"
  by (auto simp: claimNext_def op_Inr return_op_def claim_rows_def Let_def transact_Inr with_result_Inr
        split: if_splits option.splits)

lemma claimNext_grants:
  assumes "claimNext cs lease now token d = (Inr (Some c), d')" "date_parse now = Some n"
  shows "queue_grants (ClaimNext cs lease now token) d (c_ref c) = Some (token, n + lease)"
  using assms claimNext_token[OF assms(1)] by simp

text \<open>
  C2: Work-queue exclusivity.  Once claimNext has handed out a queue row under a lease, no
  sequence of store operations by any process (other than the holder's own renew, settle or
  requeue, and the deletion of the resource) lets another claimNext whose clock is before the
  lease's expiry hand out the same row.
\<close>

theorem work_queue_lease_exclusive:
  assumes "work_ok d" and "claimNext cs lease now token d = (Inr (Some c), d1)"
    and "date_parse now = Some n" and "list_all (leaves_lease (c_ref c) token (n + lease)) as"
    and "date_parse now' = Some n'" and "n' < n + lease"
  shows "case fst (claimNext cs' lease' now' token' (resource_run as d1)) of
      Inr (Some c') \<Rightarrow> c_ref c' \<noteq> c_ref c | _ \<Rightarrow> True"
proof -
  let ?a = "ClaimNext cs lease now token" and ?b = "ClaimNext cs' lease' now' token'"
  have "queue_grants ?b (claims.run (?a # as) d) (c_ref c) = None"
    by (rule claims.exclusive[OF assms(1) _ claimNext_grants[OF assms(2,3)]])
      (use assms(4-6) leaves_lease_quiet in auto)
  then show ?thesis
    using assms(2,5) by (auto simp: resource_run_eq split: sum.split option.split)
qed

theorem work_queue_lease_exclusive_witness:
  "case fst (claimNext [''c''] 1000 ''1970-01-01T00:00:02.000Z'' ''other''
      (resource_run [Enqueue (''c'', ''k'') ''1970-01-01T00:00:02.000Z''] (claimed_db 1))) of
    Inr (Some c') \<Rightarrow> c_ref c' \<noteq> c_ref sample_claim | _ \<Rightarrow> True"
  by (rule work_queue_lease_exclusive[OF sample_ok sample_claimed sample_times(1) _ sample_times(2)])
    (simp_all add: leaves_lease_def)

text \<open>A wakeup that arrived while the row was claimed: the row is newer than its claim.\<close>

definition pending_wakeup :: "resource_ref \<Rightarrow> string \<Rightarrow> int \<Rightarrow> int \<Rightarrow> db \<Rightarrow> bool" where
  "pending_wakeup ref token until at d \<longleftrightarrow> (\<exists>q v. queue_row_of ref d = Some q \<and>
     row_lease q = Some (token, until) \<and> q_claim_version q = Some v \<and> v < q_version q \<and> q_available q \<le> at)"

lemma pending_wakeup_run:
  "pending_wakeup ref t e at d \<Longrightarrow> list_all (leaves_lease ref t e) as \<Longrightarrow>
    pending_wakeup ref t e at (resource_run as d)"
proof (induction as arbitrary: d)
  case (Cons a as)
  obtain q v where q: "queue_row_of ref d = Some q" "row_lease q = Some (t, e)"
    and v: "q_claim_version q = Some v" "v < q_version q" "q_available q \<le> at"
    using Cons.prems(1) by (auto simp: pending_wakeup_def)
  have "\<not> touches_claim a ref t" and clock: "\<And>n. act_clock a = Some n \<Longrightarrow> n < e"
    using Cons.prems(2) by (auto simp: leaves_lease_def)
  then obtain q' where "queue_row_of ref (resource_step a d) = Some q'" "woken q q'"
    using row_kept_step[OF q] q(1) by (force simp: row_kept_def)
  then have "pending_wakeup ref t e at (resource_step a d)"
    using q(2) v unfolding pending_wakeup_def woken_def row_lease_def
    by (intro exI[of _ q'] exI[of _ v]) simp
  then show ?case using Cons by (simp add: resource_run_def)
qed (simp add: resource_run_def)

lemma enqueue_wakes:
  assumes "queue_row_of ref d = Some q" "row_lease q = Some (t, e)" "queue_row_ok q"
    and "enqueue ref at d = (Inr (), d')" "date_parse at = Some m"
  shows "pending_wakeup ref t e m d'"
proof -
  have row: "q \<in> set (queue d)" "q_ref q = ref"
    using assms(1) by (auto simp: queue_row_of_def dest: sql_get_Some)
  have "enqueueRow ref m d = (Inr (), d')"
    using assms(4,5) by (auto simp: enqueue_def op_Inr epoch_Inr split: if_splits)
  then have "d' = d\<lparr>queue := sql_update (\<lambda>q. q_ref q = ref)
      (\<lambda>q. q\<lparr>q_available := min (q_available q) m, q_version := q_version q + 1\<rparr>) (queue d)\<rparr>"
    using row by (auto simp: enqueueRow_def split: if_splits)
  then show ?thesis
    using assms(1-3) row
    by (auto simp: pending_wakeup_def queue_row_of_def sql_get_sql_update row_lease_def queue_row_ok_def
        split: option.splits)
qed

lemma work_ok_run: "work_ok d \<Longrightarrow> list_all act_ok as \<Longrightarrow> work_ok (resource_run as d)"
  by (simp add: resource_run_eq claims.inv_run)

lemma queue_row_of_ok: "work_ok d \<Longrightarrow> queue_row_of ref d = Some q \<Longrightarrow> queue_row_ok q"
  by (auto simp: work_ok_def queue_row_of_def list_all_iff dest: sql_get_Some)

lemma claimedRow_held:
  assumes "work_ok d" "queue_row_of ref d = Some q" "q_token q = Some t" "c_ref c = ref" "c_token c = t"
  shows "claimedRow c d = Some q"
proof -
  have q: "q \<in> set (queue d)" "q_ref q = ref" using assms(2) by (auto simp: queue_row_of_def dest: sql_get_Some)
  obtain q' where q': "claimedRow c d = Some q'"
    using q assms(3-5) by (cases "claimedRow c d") (auto simp: claimedRow_def sql_get_None claim_of_def)
  then have "q' \<in> set (queue d)" "q_ref q' = ref"
    using assms(4) by (auto simp: claimedRow_def claim_of_def dest: sql_get_Some)
  then have "q' = q" using assms(1) q keyed_unique[of q_ref "queue d" q' q] by (simp add: work_ok_def)
  then show ?thesis using q' by simp
qed

text \<open>
  C3: No lost wakeup.  If the resource is enqueued while its queue row is claimed, then however
  the other processes act before and after, the holder's settleClaim succeeds, does not remove
  the row, and leaves it unclaimed and due no later than the enqueue asked for.
\<close>

theorem no_lost_wakeup:
  assumes "work_ok d" and "claimNext cs lease now token d = (Inr (Some c), d1)"
    and "date_parse now = Some n"
    and "list_all (leaves_lease (c_ref c) token (n + lease)) before"
    and "enqueue (c_ref c) at (resource_run before d1) = (Inr (), d2)" and "date_parse at = Some m"
    and "list_all (leaves_lease (c_ref c) token (n + lease)) after"
    and "settleClaim c settled (resource_run after d2) = (Inr done, d3)"
  shows "done \<and> (\<exists>q. queue_row_of (c_ref c) d3 = Some q \<and> q_token q = None \<and> q_available q \<le> m)"
proof -
  let ?a = "ClaimNext cs lease now token" and ?ref = "c_ref c"
  have d1: "d1 = resource_step ?a d" using assms(2) by simp
  have ok1: "work_ok d1" unfolding d1 by (rule work_ok_step[OF assms(1)]) simp
  have acts: "list_all act_ok before" "list_all act_ok after"
    using assms(4,7) by (auto simp: leaves_lease_def list_all_iff)
  note ok = work_ok_run[OF ok1 acts(1)]
  have "queue_holder d1 ?ref = Some (token, n + lease)"
    unfolding d1 by (rule claims.granted[OF assms(1) claimNext_grants[OF assms(2,3)]])
  then have "queue_holder (resource_run before d1) ?ref = Some (token, n + lease)"
    using claims.held_run[OF ok1] assms(4) by (simp add: resource_run_eq leaves_lease_quiet)
  then obtain q where q: "queue_row_of ?ref (resource_run before d1) = Some q" "row_lease q = Some (token, n + lease)"
    by (auto simp: queue_holder_def split: option.splits)
  have "pending_wakeup ?ref token (n + lease) m d2"
    by (rule enqueue_wakes[OF q queue_row_of_ok[OF ok q(1)] assms(5,6)])
  then have "pending_wakeup ?ref token (n + lease) m (resource_run after d2)"
    by (rule pending_wakeup_run) (rule assms(7))
  then obtain r v where r: "queue_row_of ?ref (resource_run after d2) = Some r"
      "row_lease r = Some (token, n + lease)" "q_claim_version r = Some v" "v < q_version r" "q_available r \<le> m"
    by (auto simp: pending_wakeup_def)
  have "work_ok d2" using work_ok_step[OF ok, of "Enqueue ?ref at"] assms(5) by simp
  then have ok3: "work_ok (resource_run after d2)" by (rule work_ok_run) (rule acts(2))
  have tok: "q_token r = Some token" using r(2) by (auto simp: row_lease_def split: option.splits)
  have "claimedRow c (resource_run after d2) = Some r"
    by (rule claimedRow_held[OF ok3 r(1) tok refl]) (rule claimNext_token[OF assms(2)])
  then have result: "done \<and> (\<exists>at. d3 = (resource_run after d2)\<lparr>queue := sql_update (claim_of c)
      (\<lambda>q. (released q)\<lparr>q_available := min (q_available q) at, q_errors := 0, q_last_error := None\<rparr>)
      (queue (resource_run after d2))\<rparr>)"
    using assms(8) r(3,4) by (auto simp: settleClaim_def op_Inr)
  have "claim_of c r"
    using tok r(1) claimNext_token[OF assms(2)] by (auto simp: claim_of_def queue_row_of_def dest: sql_get_Some)
  then show ?thesis
    using result r(1,5) by (auto simp: queue_row_of_def sql_get_sql_update released_def)
qed

theorem no_lost_wakeup_witness:
  "True \<and> (\<exists>q. queue_row_of (c_ref sample_claim) (snd (settleClaim sample_claim ''1970-01-01T00:00:02.000Z'' (claimed_db 2))) = Some q \<and>
    q_token q = None \<and> q_available q \<le> 2000)"
proof (rule no_lost_wakeup[OF sample_ok sample_claimed sample_times(1)])
  show "enqueue (c_ref sample_claim) ''1970-01-01T00:00:02.000Z'' (resource_run [] (claimed_db 1)) =
      (Inr (), claimed_db 2)"
    using sample_woken by (simp add: resource_run_def c_ref_def sample_claim_def)
  show "settleClaim sample_claim ''1970-01-01T00:00:02.000Z'' (resource_run [] (claimed_db 2)) =
      (Inr True, snd (settleClaim sample_claim ''1970-01-01T00:00:02.000Z'' (claimed_db 2)))"
    by (simp add: resource_run_def sample_settled)
qed (simp_all add: sample_times)

text \<open>
  Fencing of the work queue.  When the row is no longer held under the claim's token (the
  lease expired and another process claimed it, or it was settled), renewing, settling and
  requeueing with the old claim report failure and leave the store as it is.
\<close>

theorem stale_claim_fenced:
  assumes "\<forall>q. queue_row_of (c_ref c) d = Some q \<longrightarrow> q_token q \<noteq> Some (c_token c)"
    and "work_ok d" and "epoch now = Inr n" and "0 < lease" and "lease \<le> MAX_SAFE_INTEGER"
  shows "renewClaim c lease now d = (Inr False, d) \<and> settleClaim c now d = (Inr False, d) \<and>
    requeueClaim c now err d = (Inr False, d)"
proof -
  have none: "\<not> claim_of c q" if "q \<in> set (queue d)" for q
    using assms(1) queue_row_of_keyed[OF work_ok_queue[OF assms(2)] that] by (auto simp: claim_of_def)
  have valid: "list_all fst [validTimestamp now]" using assms(3) by (simp add: epoch_Inr validTimestamp_def)
  have row: "claimedRow c d = None" using none by (simp add: claimedRow_def sql_get_None)
  let ?p = "\<lambda>q. claim_of c q \<and> (case q_expires q of None \<Rightarrow> False | Some e \<Rightarrow> n < e)"
  have zero: "sql_changes ?p (queue d) = 0" using none by (simp add: sql_changes_0)
  have "renewClaim c lease now d = (Inr False, d)"
    using assms(3-5) valid zero sql_update_none[OF zero]
    by (simp add: renewClaim_def guarded_pass with_result_def validateDuration_def)
  then show ?thesis
    using assms(3) row valid
    by (simp add: settleClaim_def requeueClaim_def guarded_pass with_result_def transact_def)
qed

theorem stale_claim_fenced_witness:
  "renewClaim sample_claim 1000 ''1970-01-01T00:00:02.000Z'' sample_db = (Inr False, sample_db) \<and>
    settleClaim sample_claim ''1970-01-01T00:00:02.000Z'' sample_db = (Inr False, sample_db) \<and>
    requeueClaim sample_claim ''1970-01-01T00:00:02.000Z'' None sample_db = (Inr False, sample_db)"
proof (rule stale_claim_fenced[OF _ sample_ok])
  show "\<forall>q. queue_row_of (c_ref sample_claim) sample_db = Some q \<longrightarrow> q_token q \<noteq> Some (c_token sample_claim)"
    by (simp add: queue_row_of_def sample_defs sql_get_def)
qed (simp_all add: epoch_def sample_times MAX_SAFE_INTEGER_def)

text \<open>
  claimNext is fair.  With valid arguments it answers undefined exactly when no row of the
  given controllers is due and free; otherwise it hands out such a row, one that is least by
  available time, then controller, then key, and reports the version and error count it has.
\<close>

theorem claimNext_hands_out_least:
  assumes "work_ok d" and "claimNext cs lease now token d = (Inr r, d')" and "cs \<noteq> []"
    and "date_parse now = Some n"
  shows "case r of
      None \<Rightarrow> d' = d \<and> \<not> (\<exists>q \<in> set (queue d). claimable cs n q)
    | Some c \<Rightarrow> (\<exists>q \<in> set (queue d). claimable cs n q \<and> c_ref c = q_ref q \<and>
        c_version c = q_version q \<and> c_errors c = q_errors q \<and>
        (\<forall>q' \<in> set (queue d). claimable cs n q' \<longrightarrow> q_order q \<le> q_order q'))"
proof -
  have claim: "claim_rows cs n lease token d = (Inr r, d')"
    using assms(2-4) by (auto simp: claimNext_def op_Inr epoch_Inr)
  have keyed: "keyed q_ref (queue d)" using assms(1) by (simp add: work_ok_def)
  show ?thesis
    by (rule claim_rows_cases[OF keyed claim]) (force simp: c_ref_def q_ref_def)+
qed

theorem claimNext_hands_out_least_witness:
  "\<exists>q \<in> set (queue sample_db). claimable [''c''] 1000 q \<and> c_ref sample_claim = q_ref q \<and>
     c_version sample_claim = q_version q \<and> c_errors sample_claim = q_errors q \<and>
     (\<forall>q' \<in> set (queue sample_db). claimable [''c''] 1000 q' \<longrightarrow> q_order q \<le> q_order q')"
  using claimNext_hands_out_least[OF sample_ok sample_claimed _ sample_times(1)] by simp

end
