(* ===== verification/ResourceLaws.thy ===== *)
theory ResourceLaws
  imports WorkQueue
begin

text \<open>
  What the resource operations mean for a resource: versions and generations count its changes,
  a write against a stale version is refused, putting the same specification again changes
  nothing, and a deletion takes every dependent row along.
\<close>

section \<open>How one act changes the table of resources\<close>

definition bumped :: "resource_row \<Rightarrow> resource_row \<Rightarrow> bool" where
  "bumped r r' \<longleftrightarrow> rr_ref r' = rr_ref r \<and> rr_uid r' = rr_uid r \<and> rr_version r' = rr_version r + 1 \<and>
     rr_generation r' = rr_generation r + (if rr_spec r' = rr_spec r then 0 else 1) \<and>
     (rr_deletion r \<noteq> None \<longrightarrow> rr_deletion r' = rr_deletion r)"

inductive table_change :: "resource_row list \<Rightarrow> resource_row list \<Rightarrow> bool" for rs where
  unchanged: "table_change rs rs"
| inserted: "rr_uid row \<notin> rr_uid ` set rs \<Longrightarrow> table_change rs (rs @ [row])"
| deleted: "table_change rs (sql_delete p rs)"
| changed: "(\<And>r. r \<in> set rs \<Longrightarrow> p r \<Longrightarrow> bumped r (f r)) \<Longrightarrow> table_change rs (sql_update p f rs)"

definition same_resources :: "db \<Rightarrow> db \<Rightarrow> bool" where
  "same_resources d d' \<longleftrightarrow> resources d' = resources d"

lemma same_resources_relation: "reflp same_resources" "transp same_resources"
  by (auto simp: reflp_def transp_def same_resources_def)

lemma wake_same_resources:
  "keeps same_resources (and_then (with_result (epoch now) (enqueueRow ref)) (\<lambda>_. requireResource ref))"
  by (intro keeps_and_then keeps_with_result same_resources_relation keeps_pointwise)
    (auto simp: same_resources_def enqueueRow_def requireResource_def split: sum.split option.split)

lemma change_then_wake:
  assumes "\<And>t. r = (Inr (), t) \<Longrightarrow> table_change (resources d) (resources t)"
    and "\<And>e t. r = (Inl e, t) \<Longrightarrow> t = d" and "m d = r"
  shows "table_change (resources d) (resources (snd (and_then m
    (\<lambda>_. and_then (with_result (epoch now) (enqueueRow ref)) (\<lambda>_. requireResource ref)) d)))"
proof (cases r)
  case (Pair x t)
  have wake: "resources (snd (and_then (with_result (epoch now) (enqueueRow ref)) (\<lambda>_. requireResource ref) t)) = resources t"
    using wake_same_resources by (simp add: keeps_def same_resources_def)
  show ?thesis
  proof (cases x)
    case (Inl e)
    then have "and_then m (\<lambda>_. and_then (with_result (epoch now) (enqueueRow ref)) (\<lambda>_. requireResource ref)) d = (Inl e, t)"
      using assms(3) Pair by (simp add: and_then_def)
    then show ?thesis using assms(2) Pair Inl by (simp add: table_change.unchanged)
  next
    case (Inr u)
    then have "and_then m (\<lambda>_. and_then (with_result (epoch now) (enqueueRow ref)) (\<lambda>_. requireResource ref)) d =
        and_then (with_result (epoch now) (enqueueRow ref)) (\<lambda>_. requireResource ref) t"
      using assms(3) Pair by (simp add: and_then_def)
    then show ?thesis using assms(1) Pair Inr wake by simp
  qed
qed

lemma snd_transact_change:
  "table_change (resources d) (resources (snd (f d))) \<Longrightarrow> table_change (resources d) (resources (snd (transact f d)))"
  by (rule snd_transact[where R = "\<lambda>d d'. table_change (resources d) (resources d')"]) (simp_all add: table_change.unchanged)

lemma change_guarded:
  "(list_all fst checks \<Longrightarrow> table_change (resources d) (resources (snd (f d)))) \<Longrightarrow>
    table_change (resources d) (resources (snd (guarded checks f d)))"
  by (rule snd_guarded[where R = "\<lambda>d d'. table_change (resources d) (resources d')"]) (simp_all add: table_change.unchanged)

lemma change_with_result:
  "(\<And>b. r = Inr b \<Longrightarrow> table_change (resources d) (resources (snd (f b d)))) \<Longrightarrow>
    table_change (resources d) (resources (snd (with_result r f d)))"
  by (rule snd_with_result[where R = "\<lambda>d d'. table_change (resources d) (resources d')"]) (simp_all add: table_change.unchanged)

lemmas change_intros = snd_transact_change change_guarded change_with_result

lemma requireResource_state [simp]: "snd (requireResource ref d) = d"
  by (simp add: requireResource_def split: sum.split option.split)

lemma resourceRow_unique:
  "work_ok d \<Longrightarrow> resourceRow ref d = Some row \<Longrightarrow> r \<in> set (resources d) \<Longrightarrow> rr_ref r = ref \<Longrightarrow> r = row"
  using keyed_unique[of rr_ref "resources d" r row] resourceRow_Some[of ref d row] by (simp add: work_ok_def)

lemma change_insert: "insert_resource row d = (x, t) \<Longrightarrow> table_change (resources d) (resources t)"
  by (cases "rr_uid row \<in> rr_uid ` set (resources d)")
    (auto simp: insert_resource_def table_change.unchanged table_change.inserted split: if_splits)

lemma change_put:
  assumes ok: "work_ok d"
  shows "table_change (resources d) (resources (snd (putResource c k spec status now uid d)))"
proof -
  have "table_change (resources d) (resources (snd (put_rows ref sj stj now uid d)))" for ref sj stj
  proof (cases "resourceRow ref d")
    case None
    then show ?thesis
      unfolding put_rows_def
      by (intro snd_transact_change)
        (auto intro!: change_then_wake[OF _ _ refl] dest: change_insert simp: insert_resource_def split: if_splits)
  next
    case (Some row)
    have "table_change (resources d) (resources (snd (and_then
        (stmt (update_resource (\<lambda>r. rr_ref r = ref) (respec sj now)))
        (\<lambda>_. and_then (with_result (epoch now) (enqueueRow ref)) (\<lambda>_. requireResource ref)) d)))"
      if "rr_spec row \<noteq> sj"
    proof (rule change_then_wake[OF _ _ refl])
      fix t assume "stmt (update_resource (\<lambda>r. rr_ref r = ref) (respec sj now)) d = (Inr (), t)"
      then have "resources t = sql_update (\<lambda>r. rr_ref r = ref) (respec sj now) (resources d)"
        by (auto simp: stmt_def update_resource_def)
      moreover have "bumped r (respec sj now r)" if r: "r \<in> set (resources d)" "rr_ref r = ref" for r
      proof -
        have "r = row" by (rule resourceRow_unique[OF ok Some r])
        then show ?thesis using \<open>rr_spec row \<noteq> sj\<close> by (auto simp: bumped_def respec_def rr_ref_def)
      qed
      ultimately show "table_change (resources d) (resources t)" by (simp add: table_change.changed)
    qed (simp add: stmt_def)
    then show ?thesis
      unfolding put_rows_def by (intro snd_transact_change) (simp add: Some table_change.unchanged)
  qed
  then show ?thesis unfolding putResource_def by (intro change_intros)
qed

lemma bumped_updates:
  "bumped r (restatus st fs now r)" "bumped r (refinalize fs now r)"
  "rr_deletion r = None \<Longrightarrow> bumped r (mark_deleted now r)"
  by (simp_all add: bumped_def row_updates rr_ref_def)

lemma change_updateStatus:
  "table_change (resources d) (resources (snd (updateStatus ref v status fs now d)))"
proof -
  have "table_change (resources d) (resources (snd (status_rows ref v sj fs now d)))" for sj
    unfolding status_rows_def
    by (intro snd_transact_change)
      (auto simp: with_result_def update_resource_def bumped_updates table_change.unchanged
        intro!: table_change.changed split: option.split sum.split)
  then show ?thesis unfolding updateStatus_def by (intro change_intros)
qed

lemma change_requestDeletion:
  assumes ok: "work_ok d"
  shows "table_change (resources d) (resources (snd (requestDeletion ref now d)))"
proof (cases "resourceRow ref d")
  case None
  then show ?thesis
    unfolding requestDeletion_def by (intro change_intros) (simp add: table_change.unchanged)
next
  case (Some row)
  let ?mark = "stmt (\<lambda>d. if rr_deletion row = None
      then update_resource (\<lambda>r. rr_ref r = ref) (mark_deleted now) d else d)"
  have "table_change (resources d) (resources (snd (and_then ?mark
      (\<lambda>_. and_then (with_result (epoch now) (enqueueRow ref)) (\<lambda>_. requireResource ref)) d)))"
    using resourceRow_unique[OF ok Some]
    by (intro change_then_wake[OF _ _ refl])
      (auto simp: stmt_def update_resource_def table_change.unchanged bumped_updates
        intro!: table_change.changed split: if_splits)
  then show ?thesis
    unfolding requestDeletion_def by (intro change_intros) (simp add: Some)
qed

lemma change_updateFinalizers:
  "table_change (resources d) (resources (snd (updateFinalizers ref v fs now d)))"
  unfolding updateFinalizers_def
  by (intro change_intros)
    (auto simp: Let_def throwMissingOrConflict_def update_resource_def bumped_updates table_change.unchanged
      intro!: table_change.changed)

lemma change_deleteResource:
  "table_change (resources d) (resources (snd (deleteResource ref v d)))"
  by (auto simp: deleteResource_def with_result_def Let_def delete_cascade_def
      table_change.unchanged table_change.deleted split: option.split sum.split)

lemma change_queue_acts:
  "resources (snd (enqueue ref at d)) = resources d"
  "resources (snd (claimNext cs lease now token d)) = resources d"
  "resources (snd (renewClaim c lease now d)) = resources d"
  "resources (snd (settleClaim c now d)) = resources d"
  "resources (snd (requeueClaim c at err d)) = resources d"
  by (simp_all add: enqueue_def claimNext_def renewClaim_def settleClaim_def requeueClaim_def
      guarded_def with_result_def transact_def enqueueRow_def claim_rows_def return_op_def Let_def
      split: option.split sum.split)

lemma change_step: "work_ok d \<Longrightarrow> table_change (resources d) (resources (resource_step a d))"
  by (cases a)
    (simp_all add: change_put change_updateStatus change_requestDeletion change_updateFinalizers
      change_deleteResource change_queue_acts table_change.unchanged)

text \<open>
  Versions count changes.  Whatever single store operation runs, a resource that is there
  before and after (same uid) either has an identical row, or its resource version went up by
  exactly one, its generation by one if and only if the specification text changed, its identity
  is the same, and a deletion timestamp once set never changes.
\<close>

theorem resource_change_versioned:
  assumes "work_ok d" and "r \<in> set (resources d)" and "r' \<in> set (resources (resource_step a d))"
    and "rr_uid r' = rr_uid r"
  shows "r' = r \<or> bumped r r'"
proof -
  have unique: "q = r" if "q \<in> set (resources d)" "rr_uid q = rr_uid r" for q
    using assms(1,2) that keyed_unique[of rr_uid "resources d" q r] by (simp add: work_ok_def)
  from change_step[OF assms(1), of a] show ?thesis
  proof cases
    case unchanged
    then show ?thesis using assms unique by auto
  next
    case (inserted row)
    then show ?thesis using assms unique by (auto simp: image_iff)
  next
    case (deleted p)
    then show ?thesis using assms unique by (auto simp: sql_delete_def)
  next
    case (changed p f)
    then obtain q where q: "q \<in> set (resources d)" "r' = (if p q then f q else q)"
      using assms(3) by (auto simp: in_sql_update)
    have "rr_uid q = rr_uid r"
    proof (cases "p q")
      case True
      then show ?thesis using q assms(4) changed(2)[OF q(1)] by (simp add: bumped_def)
    qed (use q assms(4) in simp)
    then have "q = r" using unique q(1) by simp
    then show ?thesis using q changed(2)[OF q(1)] by (cases "p q") simp_all
  qed
qed

section \<open>Putting the same specification\<close>

lemma requireResource_Inr:
  "requireResource ref d = (Inr r, d') \<longleftrightarrow>
    d' = d \<and> (\<exists>row. resourceRow ref d = Some row \<and> resourceFromRow row = Inr r)"
  by (auto simp: requireResource_def getResource_def split: sum.splits option.splits)

lemma wake_Inr:
  assumes "and_then (with_result (epoch now) (enqueueRow ref)) (\<lambda>_. requireResource ref) d = (Inr r, d')"
  shows "requireResource ref d' = (Inr r, d')" and "resourceRow ref d' = resourceRow ref d"
proof -
  obtain t n where "enqueueRow ref n d = (Inr (), t)" "requireResource ref t = (Inr r, d')"
    using assms by (auto simp: op_Inr)
  moreover from this have "resources t = resources d" by (auto simp: enqueueRow_def split: if_splits)
  ultimately show "requireResource ref d' = (Inr r, d')" "resourceRow ref d' = resourceRow ref d"
    by (auto simp: requireResource_Inr resourceRow_def)
qed

lemma resourceRow_update:
  "(\<And>r. rr_ref (f r) = rr_ref r) \<Longrightarrow>
    resourceRow ref (update_resource p f d) = map_option (\<lambda>r. if p r then f r else r) (resourceRow ref d)"
  by (simp add: resourceRow_def update_resource_def sql_get_sql_update)

lemma resourceRow_queue [simp]: "resourceRow ref (d\<lparr>queue := qs\<rparr>) = resourceRow ref d"
  by (simp add: resourceRow_def)

lemma put_rows_Inr:
  assumes "put_rows ref sj stj now uid d = (Inr r, d')"
  shows "requireResource ref d' = (Inr r, d') \<and> (\<exists>row. resourceRow ref d' = Some row \<and> rr_spec row = sj)"
proof (cases "resourceRow ref d")
  case None
  let ?row = "\<lparr>rr_controller = fst ref, rr_key = snd ref, rr_uid = uid, rr_version = 1,
    rr_generation = 1, rr_spec = sj, rr_status = stj, rr_deletion = None, rr_finalizers = ''[]'', rr_updated = now\<rparr>"
  obtain t where t: "insert_resource ?row d = (Inr (), t)"
    "and_then (with_result (epoch now) (enqueueRow ref)) (\<lambda>_. requireResource ref) t = (Inr r, d')"
    using assms None by (auto simp: put_rows_def transact_Inr and_then_Inr simp del: One_nat_def)
  have "resources t = resources d @ [?row]" using t(1) by (auto simp: insert_resource_def split: if_splits)
  then have "resourceRow ref t = Some ?row"
    using None by (simp add: resourceRow_def sql_get_append) (simp add: sql_get_def rr_ref_def)
  then show ?thesis using wake_Inr[OF t(2)] by auto
next
  case (Some row)
  show ?thesis
  proof (cases "rr_spec row = sj")
    case True
    then have "requireResource ref d = (Inr r, d')"
      using assms Some by (auto simp: put_rows_def transact_Inr)
    then show ?thesis using Some True by (auto simp: requireResource_Inr)
  next
    case False
    let ?t = "update_resource (\<lambda>r. rr_ref r = ref) (respec sj now) d"
    have t: "and_then (with_result (epoch now) (enqueueRow ref)) (\<lambda>_. requireResource ref) ?t = (Inr r, d')"
      using assms Some False by (simp add: put_rows_def transact_Inr and_then_Inr stmt_def)
    have "resourceRow ref ?t = Some (respec sj now row)"
      using resourceRow_Some[OF Some] Some by (simp add: resourceRow_update)
    then show ?thesis using wake_Inr[OF t] by (auto simp: respec_def)
  qed
qed

lemma same_json_column:
  "same_json v w \<Longrightarrow> wf_js v \<Longrightarrow> json_column w d = json_column v d"
  using same_json_normalizes[of v w d] by (simp add: json_column_def canonicalJson_def)

text \<open>
  putResource is idempotent up to key order.  Putting a specification that differs from the
  stored one only in the order of its properties, at any depth, returns the same resource and
  changes nothing: no new version, no new generation, no queue wakeup.
\<close>

theorem putResource_idempotent:
  assumes "putResource c k spec status now uid d = (Inr r, d1)"
    and "wf_js spec" and "same_json spec spec'"
    and "date_parse now' \<noteq> None"
    and "json_column (initial_status status') ''controller resource status'' = Inr sj"
    and "utf8_length sj \<le> MAX_RESOURCE_VALUE_BYTES"
  shows "putResource c k spec' status' now' uid' d1 = (Inr r, d1)"
proof -
  obtain specJson where spec: "json_column spec ''controller resource spec'' = Inr specJson"
    and size: "utf8_length specJson \<le> MAX_RESOURCE_VALUE_BYTES"
    and names: "name_pattern c" "valid_key k"
    and put: "\<exists>stj. put_rows (c, k) specJson stj now uid d = (Inr r, d1)"
    using assms(1) by (auto simp: putResource_def op_Inr validator_defs)
  obtain row where row: "resourceRow (c, k) d1 = Some row" "rr_spec row = specJson"
    and read: "requireResource (c, k) d1 = (Inr r, d1)"
    using put put_rows_Inr by blast
  have "put_rows (c, k) specJson sj now' uid' d1 = (Inr r, d1)"
    using row read by (simp add: put_rows_def transact_Inr)
  moreover have "json_column spec' ''controller resource spec'' = Inr specJson"
    using same_json_column[OF assms(3,2)] spec by simp
  ultimately show ?thesis
    using size names assms(4-6) unfolding putResource_def op_Inr by (simp add: validator_defs)
qed

section \<open>Optimistic concurrency\<close>

lemma status_rows_stale:
  assumes "resourceRow ref d = Some row" "rr_version row \<noteq> v"
  shows "status_rows ref v sj fs now d = (Inl (ResourceConflict (fst ref) (snd ref)), d)"
  using assms by (simp add: status_rows_def transact_def)

lemma status_rows_Inr:
  assumes "work_ok d" "status_rows ref v sj fs now d = (Inr r, d')"
  shows "\<exists>row row'. resourceRow ref d = Some row \<and> rr_version row = v \<and>
    resourceRow ref d' = Some row' \<and> rr_status row' = sj \<and> resourceFromRow row' = Inr r \<and>
    (d' = d \<and> row' = row \<or> rr_version row' = v + 1 \<and> rr_spec row' = rr_spec row)"
proof -
  obtain row where row: "resourceRow ref d = Some row" "rr_version row = v"
    using assms(2) by (auto simp: status_rows_def transact_Inr split: option.splits if_splits)
  then have "(\<exists>fj. d' = d \<and> resourceFromRow row = Inr r \<and> rr_status row = sj) \<or>
      (\<exists>fj. requireResource ref (update_resource (\<lambda>r. rr_ref r = ref \<and> rr_version r = v)
        (restatus sj fj now) d) = (Inr r, d'))"
    using assms(2) by (auto simp: status_rows_def transact_Inr with_result_Inr split: if_splits)
  then show ?thesis
  proof
    assume "\<exists>fj. requireResource ref (update_resource (\<lambda>r. rr_ref r = ref \<and> rr_version r = v)
        (restatus sj fj now) d) = (Inr r, d')"
    then obtain fj where d': "d' = update_resource (\<lambda>r. rr_ref r = ref \<and> rr_version r = v) (restatus sj fj now) d"
      and "\<exists>row'. resourceRow ref d' = Some row' \<and> resourceFromRow row' = Inr r"
      by (auto simp: requireResource_Inr)
    moreover have "resourceRow ref d' = Some (restatus sj fj now row)"
      using row resourceRow_Some[OF row(1)] unfolding d' by (simp add: resourceRow_update)
    ultimately show ?thesis using row by (auto simp: restatus_def)
  qed (use row in auto)
qed

text \<open>
  A status write is a compare-and-swap.  updateStatus answers only when the caller's expected
  version is the stored one, and then the stored status is the caller's; when it changed anything,
  a second writer that read the same version gets ResourceConflictError and changes nothing,
  whatever it wanted to write.
\<close>

theorem updateStatus_compare_and_swap:
  assumes "work_ok d" and "updateStatus ref v status fs now d = (Inr r, d1)" and "d1 \<noteq> d"
    and "fst (validTimestamp now')"
    and "json_column status' ''controller resource status'' = Inr sj" "utf8_length sj \<le> MAX_RESOURCE_VALUE_BYTES"
  shows "res_version r = v + 1 \<and>
    updateStatus ref v status' None now' d1 = (Inl (ResourceConflict (fst ref) (snd ref)), d1)"
proof -
  obtain stj where "status_rows ref v stj fs now d = (Inr r, d1)"
    using assms(2) by (auto simp: updateStatus_def op_Inr)
  from status_rows_Inr[OF assms(1) this] assms(3) obtain row' where
    row': "resourceRow ref d1 = Some row'" "resourceFromRow row' = Inr r" "rr_version row' = v + 1"
    by auto
  have "res_version r = rr_version row'"
    using row'(2) by (auto simp: resourceFromRow_def split: sum.splits option.splits)
  moreover have "updateStatus ref v status' None now' d1 = (Inl (ResourceConflict (fst ref) (snd ref)), d1)"
    using assms(4-6) status_rows_stale[OF row'(1)] row'(3)
    by (simp add: updateStatus_def guarded_pass with_result_def validateJsonSize_def)
  ultimately show ?thesis using row'(3) by simp
qed

section \<open>Deletion\<close>

text \<open>
  C35: Deletion is guarded and complete.  deleteResource succeeds only when its
  deletion was requested, its finalizers are empty and the caller knows its version; afterwards
  no row of the work queue, the effects or the workflow requests refers to it, and every other
  resource and its dependents are untouched.
\<close>

theorem deleteResource_guarded_and_complete:
  assumes "work_ok d" and "resourceRow ref d = Some row" and "deleteResource ref v d = (Inr b, d')"
  shows "b \<and> rr_deletion row \<noteq> None \<and> stored_finalizers row = Inr [] \<and> rr_version row = v \<and>
    resourceRow ref d' = None \<and> resources d' = filter (\<lambda>r. r \<noteq> row) (resources d) \<and>
    queue d' = filter (\<lambda>q. q_ref q \<noteq> ref) (queue d) \<and>
    effects d' = filter (\<lambda>e. e_uid e \<noteq> rr_uid row) (effects d) \<and>
    requests d' = filter (\<lambda>w. w_uid w \<noteq> rr_uid row) (requests d)"
proof -
  let ?p = "\<lambda>r. rr_ref r = ref \<and> rr_version r = v"
  have del: "b" "rr_deletion row \<noteq> None" "stored_finalizers row = Inr []" "sql_changes ?p (resources d) = 1"
    and d': "d' = delete_cascade ?p d"
    using assms(2,3) by (auto simp: deleteResource_def with_result_Inr Let_def split: if_splits)
  note found = resourceRow_Some[OF assms(2)]
  have only: "?p r \<longleftrightarrow> r = row" if "r \<in> set (resources d)" and "rr_version row = v" for r
    using that found resourceRow_unique[OF assms(1,2) that(1)] by auto
  have "\<exists>r \<in> set (resources d). ?p r" using del(4) sql_changes_0[of ?p "resources d"] by fastforce
  then have version: "rr_version row = v" using resourceRow_unique[OF assms(1,2)] by auto
  have here: "row \<in> set (resources d)" using found by simp
  have gone: "filter ?p (resources d) = filter (\<lambda>r. r = row) (resources d)"
    by (rule filter_cong[OF refl]) (rule only[OF _ version])
  have rest: "sql_delete ?p (resources d) = filter (\<lambda>r. r \<noteq> row) (resources d)"
    unfolding sql_delete_def by (rule filter_cong[OF refl]) (simp add: only[OF _ version])
  have "set (map rr_ref (filter ?p (resources d))) = {ref}" "set (map rr_uid (filter ?p (resources d))) = {rr_uid row}"
    unfolding gone using here found by auto
  then have tables: "resources d' = filter (\<lambda>r. r \<noteq> row) (resources d)"
    "queue d' = filter (\<lambda>q. q_ref q \<noteq> ref) (queue d)"
    "effects d' = filter (\<lambda>e. e_uid e \<noteq> rr_uid row) (effects d)"
    "requests d' = filter (\<lambda>w. w_uid w \<noteq> rr_uid row) (requests d)"
    unfolding d' delete_cascade_def Let_def rest[symmetric] by (simp_all add: sql_delete_def)
  have "resourceRow ref d' = None"
    using resourceRow_unique[OF assms(1,2)] by (auto simp: resourceRow_None tables(1))
  then show ?thesis using del(1-3) version tables by simp
qed

section \<open>The properties at work\<close>

definition sample_row :: resource_row where
  "sample_row = \<lparr>rr_controller = ''c'', rr_key = ''k'', rr_uid = ''u'',
     rr_version = 1, rr_generation = 1, rr_spec = ''{}'', rr_status = ''{}'', rr_deletion = None,
     rr_finalizers = ''[]'', rr_updated = ''1970-01-01T00:00:00.000Z''\<rparr>"

lemma sample_row: "resources sample_db = [sample_row]" "resourceRow (''c'', ''k'') sample_db = Some sample_row"
  by (simp_all add: sample_defs sample_row_def resourceRow_def sql_get_def rr_ref_def)

lemma sample_readable:
  "resourceFromRow (restatus ''null'' ''[]'' now sample_row) =
     Inr \<lparr>res_uid = ''u'', res_controller = ''c'', res_key = ''k'', res_version = 2, res_generation = 1,
       res_deletion = None, res_finalizers = [], res_spec = JObj [], res_status = JNull\<rparr>"
  "resourceFromRow (mark_deleted now sample_row) =
     Inr \<lparr>res_uid = ''u'', res_controller = ''c'', res_key = ''k'', res_version = 2, res_generation = 1,
       res_deletion = Some now, res_finalizers = [], res_spec = JObj [], res_status = JObj []\<rparr>"
  by (simp_all add: resourceFromRow_def stored_finalizers_def stored_json_def parseStoredJson_def sample_parse
      validateFinalizers_def sample_row_def row_updates)

text \<open>The sample resource with its deletion requested.\<close>

definition deleting_db :: db where
  "deleting_db = sample_db\<lparr>resources := [mark_deleted ''1970-01-01T00:00:01.000Z'' sample_row],
     queue := [\<lparr>q_controller = ''c'', q_key = ''k'', q_available = 0, q_version = 2, q_errors = 0,
       q_last_error = None, q_token = None, q_claim_version = None, q_expires = None\<rparr>]\<rparr>"

lemma sample_deleting:
  "snd (requestDeletion (''c'', ''k'') ''1970-01-01T00:00:01.000Z'' sample_db) = deleting_db"
  by (simp add: requestDeletion_def store_eval sample_times sample_row resourceRow_def requireResource_def
      getResource_def enqueueRow_def stmt_def update_resource_def deleting_db_def sample_readable)
    (simp add: sample_defs sample_row_def row_updates rr_ref_def q_ref_def sample_readable)

theorem resource_change_versioned_witness:
  "mark_deleted ''1970-01-01T00:00:01.000Z'' sample_row = sample_row \<or>
   bumped sample_row (mark_deleted ''1970-01-01T00:00:01.000Z'' sample_row)"
  by (rule resource_change_versioned[OF sample_ok, of _ _ "RequestDeletion (''c'', ''k'') ''1970-01-01T00:00:01.000Z''"])
    (simp_all add: sample_row sample_deleting deleting_db_def)

lemma sample_status:
  "updateStatus (''c'', ''k'') 1 JNull None ''1970-01-01T00:00:01.000Z'' sample_db =
     (Inr \<lparr>res_uid = ''u'', res_controller = ''c'', res_key = ''k'', res_version = 2, res_generation = 1,
        res_deletion = None, res_finalizers = [], res_spec = JObj [], res_status = JNull\<rparr>,
      sample_db\<lparr>resources := [restatus ''null'' ''[]'' ''1970-01-01T00:00:01.000Z'' sample_row]\<rparr>)"
proof -
  have "rr_version sample_row = 1" "rr_status sample_row = ''{}''" "rr_finalizers sample_row = ''[]''"
    "rr_ref sample_row = (''c'', ''k'')" by (simp_all add: sample_row_def rr_ref_def)
  then show ?thesis
    by (simp add: updateStatus_def status_rows_def store_eval sample_times sample_row json_column_def
        canonicalJson_def utf8_length_def MAX_RESOURCE_VALUE_BYTES_def requireResource_def getResource_def
        resourceRow_def update_resource_def sample_readable)
qed

theorem updateStatus_compare_and_swap_witness:
  "res_version (\<lparr>res_uid = ''u'', res_controller = ''c'', res_key = ''k'', res_version = 2, res_generation = 1,
        res_deletion = None, res_finalizers = [], res_spec = JObj [], res_status = JNull\<rparr>) = 1 + 1 \<and>
    updateStatus (''c'', ''k'') 1 JNull None ''1970-01-01T00:00:02.000Z''
      (sample_db\<lparr>resources := [restatus ''null'' ''[]'' ''1970-01-01T00:00:01.000Z'' sample_row]\<rparr>) =
    (Inl (ResourceConflict (fst (''c'', ''k'')) (snd (''c'', ''k''))),
      sample_db\<lparr>resources := [restatus ''null'' ''[]'' ''1970-01-01T00:00:01.000Z'' sample_row]\<rparr>)"
proof (rule updateStatus_compare_and_swap[OF sample_ok sample_status])
  show "sample_db\<lparr>resources := [restatus ''null'' ''[]'' ''1970-01-01T00:00:01.000Z'' sample_row]\<rparr> \<noteq> sample_db"
    by (simp add: sample_defs sample_row_def restatus_def empty_db_def)
  show "fst (validTimestamp ''1970-01-01T00:00:02.000Z'')" by (simp add: validTimestamp_def sample_times)
  show "json_column JNull ''controller resource status'' = Inr ''null''"
    by (simp add: json_column_def canonicalJson_def)
qed (simp add: utf8_length_def MAX_RESOURCE_VALUE_BYTES_def char_class_defs)

text \<open>A resource stored under a specification with two properties, and the same text in the other order.\<close>

definition spec_ab :: jv where
  "spec_ab = JObj [(''a'', JNull), (''b'', JBool True)]"

definition spec_ba :: jv where
  "spec_ba = JObj [(''b'', JBool True), (''a'', JNull)]"

definition ab_db :: db where
  "ab_db = sample_db\<lparr>resources := [sample_row\<lparr>rr_spec := ''{\"a\":null,\"b\":true}''\<rparr>]\<rparr>"

lemma spec_ab_column: "json_column spec_ab d = Inr ''{\"a\":null,\"b\":true}''"
proof -
  have "sort [''a'', ''b''] = [''a'', ''b'']" by simp
  have "mk_obj [(''a'', JNull), (''b'', JBool True)] = [(''a'', JNull), (''b'', JBool True)]" by code_simp
  moreover have "json_text (JObj [(''a'', JNull), (''b'', JBool True)]) = Some ''{\"a\":null,\"b\":true}''" by code_simp
  ultimately show ?thesis by (simp add: json_column_def canonicalJson_def spec_ab_def)
qed

lemma spec_ab_ba: "same_json spec_ab spec_ba" "wf_js spec_ab"
proof -
  show "same_json spec_ab spec_ba"
    unfolding spec_ab_def spec_ba_def
    by (rule same_json.props[where lws = "[(''a'', JNull), (''b'', JBool True)]"]) (auto intro: same_json.same)
  have "js_order [(''a'', JNull), (''b'', JBool True)] = [(''a'', JNull), (''b'', JBool True)]" by code_simp
  then show "wf_js spec_ab" by (simp add: spec_ab_def js_ordered_def)
qed

lemma spec_ab_parse: "json_parse ''{\"a\":null,\"b\":true}'' = Some spec_ab"
  by code_simp

lemma sample_put:
  "\<exists>r. putResource ''c'' ''k'' spec_ab JNull ''1970-01-01T00:00:01.000Z'' ''v'' ab_db = (Inr r, ab_db)"
proof -
  have status: "json_column (initial_status JNull) ''controller resource status'' =
      Inr ''{\"conditions\":[],\"controllerStatus\":null,\"observedGeneration\":0}''"
    by code_simp
  have spec: "stored_json ''{\"a\":null,\"b\":true}'' d = Inr spec_ab" for d
    using spec_ab_parse by (simp add: stored_json_def parseStoredJson_def spec_ab_def)
  have row: "resourceRow (''c'', ''k'') ab_db = Some (sample_row\<lparr>rr_spec := ''{\"a\":null,\"b\":true}''\<rparr>)"
    by (simp add: ab_db_def resourceRow_def sql_get_def rr_ref_def sample_row_def)
  have "\<exists>r. resourceFromRow (sample_row\<lparr>rr_spec := ''{\"a\":null,\"b\":true}''\<rparr>) = Inr r"
  proof -
    let ?r = "sample_row\<lparr>rr_spec := ''{\"a\":null,\"b\":true}''\<rparr>"
    have "stored_finalizers ?r = Inr []" by (rule no_finalizers) (simp add: sample_row_def)
    moreover have "rr_spec ?r = ''{\"a\":null,\"b\":true}''" "rr_status ?r = ''{}''" by (simp_all add: sample_row_def)
    moreover have "stored_json ''{}'' d = Inr (JObj [])" for d
      by (simp add: stored_json_def parseStoredJson_def sample_parse)
    ultimately show ?thesis unfolding readable_iff using spec by simp
  qed
  then have "\<exists>r. put_rows (''c'', ''k'') ''{\"a\":null,\"b\":true}'' sj now ''v'' ab_db = (Inr r, ab_db)" for sj now
    using row by (auto simp: put_rows_def transact_def requireResource_def getResource_def)
  then show ?thesis
    by (simp add: putResource_def spec_ab_column status store_eval sample_times utf8_length_def
        MAX_RESOURCE_VALUE_BYTES_def)
qed

theorem putResource_idempotent_witness:
  "\<exists>r. putResource ''c'' ''k'' spec_ba JNull ''1970-01-01T00:00:02.000Z'' ''w'' ab_db = (Inr r, ab_db)"
proof -
  obtain r where put: "putResource ''c'' ''k'' spec_ab JNull ''1970-01-01T00:00:01.000Z'' ''v'' ab_db = (Inr r, ab_db)"
    using sample_put ..
  have "json_column (initial_status JNull) ''controller resource status'' =
      Inr ''{\"conditions\":[],\"controllerStatus\":null,\"observedGeneration\":0}''"
    by code_simp
  moreover have "utf8_length ''{\"conditions\":[],\"controllerStatus\":null,\"observedGeneration\":0}'' \<le> MAX_RESOURCE_VALUE_BYTES"
    by (simp add: utf8_length_def MAX_RESOURCE_VALUE_BYTES_def char_class_defs)
  ultimately show ?thesis
    using putResource_idempotent[OF put spec_ab_ba(2,1)] sample_times by blast
qed

theorem deleteResource_guarded_and_complete_witness:
  "\<exists>d'. True \<and> rr_deletion (mark_deleted ''1970-01-01T00:00:01.000Z'' sample_row) \<noteq> None \<and>
    resourceRow (''c'', ''k'') d' = None \<and> queue d' = filter (\<lambda>q. q_ref q \<noteq> (''c'', ''k'')) (queue deleting_db)"
proof -
  have ok: "work_ok deleting_db"
    using preservesD[OF preserves_requestDeletion sample_ok] sample_deleting by metis
  have row: "resourceRow (''c'', ''k'') deleting_db = Some (mark_deleted ''1970-01-01T00:00:01.000Z'' sample_row)"
    by (simp add: deleting_db_def resourceRow_def sql_get_def rr_ref_def mark_deleted_def sample_row_def)
  have "\<exists>d'. deleteResource (''c'', ''k'') 2 deleting_db = (Inr True, d')"
  proof -
    have "resources deleting_db = [mark_deleted ''1970-01-01T00:00:01.000Z'' sample_row]"
      by (simp add: deleting_db_def)
    moreover have "stored_finalizers (mark_deleted ''1970-01-01T00:00:01.000Z'' sample_row) = Inr []"
      by (rule no_finalizers) (simp add: mark_deleted_def sample_row_def)
    moreover have "rr_version (mark_deleted ''1970-01-01T00:00:01.000Z'' sample_row) = 2"
      "rr_ref (mark_deleted ''1970-01-01T00:00:01.000Z'' sample_row) = (''c'', ''k'')"
      "rr_deletion (mark_deleted ''1970-01-01T00:00:01.000Z'' sample_row) \<noteq> None"
      by (simp_all add: mark_deleted_def sample_row_def rr_ref_def)
    ultimately show ?thesis by (simp add: deleteResource_def row with_result_def sql_changes_def)
  qed
  then obtain d' where "deleteResource (''c'', ''k'') 2 deleting_db = (Inr True, d')" ..
  from deleteResource_guarded_and_complete[OF ok row this] show ?thesis by (intro exI[of _ d']) simp
qed

end
