(* ===== verification/RunQueue.thy ===== *)
theory RunQueue
  imports StoreSchema Lease
begin

text \<open>
  The durable queue of user-started workflow runs (src/controllers/sqlite.ts, methods
  \<open>reserveWorkflowRun\<close> to \<open>claimLegacyWorkflowSourceRun\<close>, \<open>setWorkflowRunOriginSession\<close> and
  \<open>clearWorkflowRunOriginSession\<close>).  Every write of the table is checked against its primary key
  and its two unique indexes, as SQLite does: a violation throws and changes nothing.
\<close>

section \<open>Records and constraints\<close>

record run_record =
  rn_run :: string
  rn_workflow :: string
  rn_source_ref :: string
  rn_source :: jv
  rn_digest :: string
  rn_input :: jv
  rn_launch :: jv
  rn_status :: launch_status
  rn_runner :: "string option"
  rn_token :: "string option"
  rn_expires :: "string option"
  rn_affinity :: "string option"
  rn_origin :: "string option"
  rn_parent :: "string option"
  rn_err_code :: "string option"
  rn_err_message :: "string option"
  rn_created :: string
  rn_updated :: string
  rn_started :: "string option"
  rn_finished :: "string option"

definition iso_opt :: "int option \<Rightarrow> (store_error, string option) result" where
  "iso_opt ms = (case ms of None \<Rightarrow> Inr None
     | Some m \<Rightarrow> (case iso m of Inl e \<Rightarrow> Inl e | Inr t \<Rightarrow> Inr (Some t)))"

definition workflowRunFromRow :: "run_row \<Rightarrow> (store_error, run_record) result" where
  "workflowRunFromRow row =
     (case stored_json (u_source row) ''workflow run source'' of Inl e \<Rightarrow> Inl e
      | Inr source \<Rightarrow> (case stored_json (u_input row) ''workflow run input'' of Inl e \<Rightarrow> Inl e
      | Inr input \<Rightarrow> (case stored_json (u_launch row) ''workflow launch options'' of Inl e \<Rightarrow> Inl e
      | Inr launch \<Rightarrow> (case iso_opt (u_expires row) of Inl e \<Rightarrow> Inl e
      | Inr expires \<Rightarrow> Inr \<lparr>rn_run = u_run row, rn_workflow = u_ref row, rn_source_ref = u_path row,
          rn_source = source, rn_digest = u_digest row, rn_input = input, rn_launch = launch,
          rn_status = u_status row, rn_runner = u_runner row, rn_token = u_token row,
          rn_expires = expires, rn_affinity = u_affinity row, rn_origin = u_origin row,
          rn_parent = u_parent row, rn_err_code = u_err_code row, rn_err_message = u_err_message row,
          rn_created = u_created row, rn_updated = u_updated row, rn_started = u_started row,
          rn_finished = u_finished row\<rparr>))))"

definition live_status :: "launch_status \<Rightarrow> bool" where
  "live_status s \<longleftrightarrow> s \<in> {Queued, Starting, Running}"

definition claimed_status :: "launch_status \<Rightarrow> bool" where
  "claimed_status s \<longleftrightarrow> s \<in> {Starting, Running}"

definition terminal_status :: "launch_status \<Rightarrow> bool" where
  "terminal_status s \<longleftrightarrow> s \<in> {Done, Failed, Cancelled}"

text \<open>The index \<open>workflow_run_queue_session_reservation\<close> and the index \<open>workflow_run_queue_parent\<close>.\<close>

definition reserving :: "run_row \<Rightarrow> bool" where
  "reserving r \<longleftrightarrow> u_origin r \<noteq> None \<and> live_status (u_status r)"

definition run_constraints :: "run_row list \<Rightarrow> bool" where
  "run_constraints rs \<longleftrightarrow> keyed u_run rs \<and> keyed u_origin (filter reserving rs) \<and>
     keyed u_parent (filter (\<lambda>r. u_parent r \<noteq> None) rs)"

definition insert_run :: "run_row \<Rightarrow> unit store_op" where
  "insert_run row d = (if run_constraints (runs d @ [row]) then (Inr (), d\<lparr>runs := runs d @ [row]\<rparr>)
     else (Inl (SqlConstraint ''workflow_run_queue''), d))"

text \<open>An \<open>UPDATE\<close> of the table, with the number of rows it changed.\<close>

definition update_runs :: "(run_row \<Rightarrow> bool) \<Rightarrow> (run_row \<Rightarrow> run_row) \<Rightarrow> nat store_op" where
  "update_runs p f d = (let rs = sql_update p f (runs d) in
     if run_constraints rs then (Inr (sql_changes p (runs d)), d\<lparr>runs := rs\<rparr>)
     else (Inl (SqlConstraint ''workflow_run_queue''), d))"

definition one_change :: "(run_row \<Rightarrow> bool) \<Rightarrow> (run_row \<Rightarrow> run_row) \<Rightarrow> bool store_op" where
  "one_change p f = and_then (update_runs p f) (\<lambda>n. return_op (n = 1))"

definition run_row_of :: "string \<Rightarrow> db \<Rightarrow> run_row option" where
  "run_row_of runId d = sql_get (\<lambda>r. u_run r = runId) (runs d)"

definition getWorkflowRun :: "string \<Rightarrow> run_record option store_op" where
  "getWorkflowRun runId = guarded [validateRunId runId] (\<lambda>d. (case run_row_of runId d of
     None \<Rightarrow> (Inr None, d)
   | Some row \<Rightarrow> (case workflowRunFromRow row of Inl e \<Rightarrow> (Inl e, d) | Inr r \<Rightarrow> (Inr (Some r), d))))"

definition requireWorkflowRun :: "string \<Rightarrow> run_record store_op" where
  "requireWorkflowRun runId = and_then (getWorkflowRun runId) (\<lambda>r d. (case r of
     None \<Rightarrow> (Inl (RunNotFound runId), d) | Some record \<Rightarrow> (Inr record, d)))"

definition listWorkflowRuns :: "launch_status option \<Rightarrow> db \<Rightarrow> (store_error, run_record list) result" where
  "listWorkflowRuns status d = seq_items (map workflowRunFromRow
     (sql_all (\<lambda>r. status = None \<or> status = Some (u_status r)) u_created (runs d)))"

definition findSessionReservation :: "string \<Rightarrow> run_record option store_op" where
  "findSessionReservation sessionId = guarded [validateKey sessionId ''session id''] (\<lambda>d.
     (case sql_first (\<lambda>r. u_origin r = Some sessionId \<and> live_status (u_status r)) u_created (runs d) of
        None \<Rightarrow> (Inr None, d)
      | Some row \<Rightarrow> (case workflowRunFromRow row of Inl e \<Rightarrow> (Inl e, d) | Inr r \<Rightarrow> (Inr (Some r), d))))"

section \<open>Reserving and enqueueing\<close>

text \<open>\<open>value ?? default\<close>.\<close>

definition nullish :: "jv \<Rightarrow> jv \<Rightarrow> jv" where
  "nullish v fallback = (if v = JUndef \<or> v = JNull then fallback else v)"

record run_request =
  o_run :: string
  o_workflow :: string
  o_source_ref :: string
  o_source :: jv
  o_input :: jv
  o_launch :: jv
  o_runner :: string
  o_parent :: "string option"
  o_now :: string

definition reserveWorkflowRun :: "run_request \<Rightarrow> string \<Rightarrow> string \<Rightarrow> run_record store_op" where
  "reserveWorkflowRun q digest session =
     guarded [validateRunId (o_run q), validateKey (o_workflow q) ''workflow name'',
         validateKey (o_source_ref q) ''workflow source ref'',
         validateKey digest ''workflow definition digest'',
         validateKey (o_runner q) ''runner id'', validateKey session ''origin session id'']
      (with_result (json_column (nullish (o_input q) JNull) ''workflow run input'') (\<lambda>inputJson.
       with_result (json_column (o_source q) ''workflow run source'') (\<lambda>sourceJson.
       with_result (json_column (nullish (o_launch q) (JObj [])) ''workflow launch options'') (\<lambda>launchJson.
       guarded [validateJsonSize inputJson ''Workflow run input'' MAX_RESOURCE_VALUE_BYTES,
           validateJsonSize sourceJson ''Workflow run source'' MAX_EVENT_BYTES,
           validateJsonSize launchJson ''Workflow launch options'' MAX_EVENT_BYTES,
           validTimestamp (o_now q)]
        (and_then (insert_run \<lparr>u_run = o_run q, u_ref = o_workflow q, u_path = o_source_ref q,
            u_source = sourceJson, u_digest = digest, u_input = inputJson, u_launch = launchJson,
            u_status = Queued, u_runner = None, u_token = None, u_expires = None,
            u_affinity = Some (o_runner q), u_origin = Some session, u_parent = o_parent q,
            u_err_code = None, u_err_message = None, u_created = o_now q, u_updated = o_now q,
            u_started = None, u_finished = None\<rparr>)
          (\<lambda>_. requireWorkflowRun (o_run q)))))))"

definition enqueueWorkflowRun ::
    "run_request \<Rightarrow> string option \<Rightarrow> string option \<Rightarrow> string option \<Rightarrow> string \<Rightarrow> int \<Rightarrow> run_record store_op" where
  "enqueueWorkflowRun q digest affinity session token leaseMs =
     guarded ([validateRunId (o_run q), validateKey (o_workflow q) ''workflow name'',
         validateKey (o_source_ref q) ''workflow source ref'',
         validateKey (o_runner q) ''runner id'', validateKey token ''claim token'',
         validateDuration leaseMs ''leaseMs''] @
         (case session of None \<Rightarrow> [] | Some s \<Rightarrow> [validateKey s ''origin session id'']))
      (with_result (json_column (nullish (o_input q) JNull) ''workflow run input'') (\<lambda>inputJson.
       with_result (json_column (nullish (o_source q) (JObj [(''ref'', JStr (o_source_ref q))]))
         ''workflow run source'') (\<lambda>sourceJson.
       with_result (json_column (nullish (o_launch q) (JObj [])) ''workflow launch options'') (\<lambda>launchJson.
       guarded [validateJsonSize inputJson ''Workflow run input'' MAX_RESOURCE_VALUE_BYTES,
           validTimestamp (o_now q)]
        (with_result (epoch (o_now q)) (\<lambda>nowMs.
          and_then (insert_run \<lparr>u_run = o_run q, u_ref = o_workflow q, u_path = o_source_ref q,
            u_source = sourceJson, u_digest = (case digest of None \<Rightarrow> ''unavailable'' | Some g \<Rightarrow> g),
            u_input = inputJson, u_launch = launchJson,
            u_status = Starting, u_runner = Some (o_runner q), u_token = Some token,
            u_expires = Some (nowMs + leaseMs),
            u_affinity = Some (case affinity of None \<Rightarrow> o_runner q | Some a \<Rightarrow> a),
            u_origin = session, u_parent = o_parent q,
            u_err_code = None, u_err_message = None, u_created = o_now q, u_updated = o_now q,
            u_started = Some (o_now q), u_finished = None\<rparr>)
          (\<lambda>_. requireWorkflowRun (o_run q))))))))"

section \<open>Claiming\<close>

text \<open>\<open>claim_expires_at IS NOT NULL AND claim_expires_at <= ?\<close>.\<close>

definition lapsed :: "int \<Rightarrow> run_row \<Rightarrow> bool" where
  "lapsed now r \<longleftrightarrow> (case u_expires r of None \<Rightarrow> False | Some e \<Rightarrow> e \<le> now)"

definition unlapsed :: "int \<Rightarrow> run_row \<Rightarrow> bool" where
  "unlapsed now r \<longleftrightarrow> (case u_expires r of None \<Rightarrow> False | Some e \<Rightarrow> now < e)"

definition take_claim :: "string \<Rightarrow> string \<Rightarrow> int \<Rightarrow> string \<Rightarrow> run_row \<Rightarrow> run_row" where
  "take_claim runner token expires now r = r\<lparr>u_status := Starting, u_runner := Some runner,
     u_token := Some token, u_expires := Some expires,
     u_started := (case u_started r of None \<Rightarrow> Some now | Some t \<Rightarrow> Some t), u_updated := now\<rparr>"

definition claimWorkflowRun ::
    "string \<Rightarrow> string \<Rightarrow> string \<Rightarrow> int \<Rightarrow> string \<Rightarrow> run_record option store_op" where
  "claimWorkflowRun runId runner token leaseMs now =
     guarded [validateRunId runId, validateKey runner ''runner id'', validateKey token ''claim token'',
         validateDuration leaseMs ''leaseMs'', validTimestamp now]
      (with_result (epoch now) (\<lambda>nowMs.
        and_then (one_change
          (\<lambda>r. u_run r = runId \<and>
             (u_status r \<in> {Queued, Parked} \<or> u_status r = Starting \<and> lapsed nowMs r))
          (take_claim runner token (nowMs + leaseMs) now))
        (\<lambda>claimed. if claimed then and_then (requireWorkflowRun runId) (\<lambda>r. return_op (Some r))
           else return_op None)))"

definition run_claimable :: "int \<Rightarrow> run_row \<Rightarrow> bool" where
  "run_claimable nowMs r \<longleftrightarrow> u_status r \<in> {Queued, Parked} \<or> claimed_status (u_status r) \<and> lapsed nowMs r"

definition session_filter :: "string option \<Rightarrow> run_row \<Rightarrow> bool" where
  "session_filter session r = (case session of
     None \<Rightarrow> u_status r \<noteq> Queued \<and> (u_status r \<noteq> Starting \<or> u_origin r = None)
   | Some s \<Rightarrow> u_origin r = None \<or> u_origin r = Some s)"

definition run_candidate :: "int \<Rightarrow> string list \<Rightarrow> string option \<Rightarrow> run_row \<Rightarrow> bool" where
  "run_candidate nowMs excluded session r \<longleftrightarrow>
     run_claimable nowMs r \<and> u_run r \<notin> set excluded \<and> session_filter session r"

definition run_order :: "string \<Rightarrow> run_row \<Rightarrow> nat \<times> string" where
  "run_order runner r = (if u_affinity r = Some runner then 0 else 1, u_created r)"

definition claimNextWorkflowRun ::
    "string \<Rightarrow> string \<Rightarrow> int \<Rightarrow> string list \<Rightarrow> string option \<Rightarrow> string \<Rightarrow> run_record option store_op" where
  "claimNextWorkflowRun runner token leaseMs excluded session now =
     guarded ([validateKey runner ''runner id'', validateKey token ''claim token'',
         validateDuration leaseMs ''leaseMs''] @
         (case session of None \<Rightarrow> [] | Some s \<Rightarrow> [validateKey s ''session id'']) @ [validTimestamp now])
      (with_result (epoch now) (\<lambda>nowMs. guarded (map validateRunId excluded) (transact (\<lambda>d.
        (case sql_first (run_candidate nowMs excluded session) (run_order runner) (runs d) of
           None \<Rightarrow> (Inr None, d)
         | Some candidate \<Rightarrow>
             and_then (one_change (\<lambda>r. u_run r = u_run candidate \<and> run_claimable nowMs r)
                 (take_claim runner token (nowMs + leaseMs) now))
               (\<lambda>claimed. if claimed
                  then and_then (requireWorkflowRun (u_run candidate)) (\<lambda>r. return_op (Some r))
                  else return_op None) d)))))"

definition markWorkflowRunRunning :: "string \<Rightarrow> string \<Rightarrow> string \<Rightarrow> bool store_op" where
  "markWorkflowRunRunning runId token now =
     guarded [validateRunId runId, validTimestamp now]
      (one_change (\<lambda>r. u_run r = runId \<and> u_token r = Some token \<and> u_status r = Starting)
        (\<lambda>r. r\<lparr>u_status := Running, u_updated := now\<rparr>))"

definition renewWorkflowRunClaim :: "string \<Rightarrow> string \<Rightarrow> int \<Rightarrow> string \<Rightarrow> bool store_op" where
  "renewWorkflowRunClaim runId token leaseMs now =
     guarded [validateRunId runId, validateDuration leaseMs ''leaseMs'', validTimestamp now]
      (with_result (epoch now) (\<lambda>nowMs.
        one_change (\<lambda>r. u_run r = runId \<and> u_token r = Some token \<and> claimed_status (u_status r) \<and> unlapsed nowMs r)
          (\<lambda>r. r\<lparr>u_expires := Some (nowMs + leaseMs)\<rparr>)))"

definition verifyWorkflowRunClaim :: "string \<Rightarrow> string \<Rightarrow> string \<Rightarrow> bool store_op" where
  "verifyWorkflowRunClaim runId token now =
     guarded [validateRunId runId, validTimestamp now] (with_result (epoch now) (\<lambda>nowMs d.
       (Inr (sql_get (\<lambda>r. u_run r = runId \<and> u_token r = Some token \<and> claimed_status (u_status r) \<and>
          unlapsed nowMs r) (runs d) \<noteq> None), d)))"

section \<open>Leaving a claim\<close>

definition unclaimed :: "run_row \<Rightarrow> run_row" where
  "unclaimed r = r\<lparr>u_runner := None, u_token := None, u_expires := None\<rparr>"

definition parkWorkflowRun :: "string \<Rightarrow> string \<Rightarrow> string \<Rightarrow> bool store_op" where
  "parkWorkflowRun runId token now =
     guarded [validateRunId runId, validTimestamp now]
      (one_change (\<lambda>r. u_run r = runId \<and> u_token r = Some token \<and> claimed_status (u_status r))
        (\<lambda>r. (unclaimed r)\<lparr>u_status := Parked, u_updated := now\<rparr>))"

text \<open>\<open>AND claim_token = ?\<close>, left out when the caller gives no token.\<close>

definition claim_filter :: "string option \<Rightarrow> run_row \<Rightarrow> bool" where
  "claim_filter token r \<longleftrightarrow> token = None \<or> u_token r = token"

definition finish_run :: "launch_status \<Rightarrow> string \<Rightarrow> run_row \<Rightarrow> run_row" where
  "finish_run status now r = (unclaimed r)\<lparr>u_status := status, u_input := ''null'', u_launch := ''{}'',
     u_finished := Some now, u_updated := now\<rparr>"

definition failWorkflowRun ::
    "string \<Rightarrow> string option \<Rightarrow> string \<Rightarrow> string \<Rightarrow> string \<Rightarrow> bool store_op" where
  "failWorkflowRun runId token code errorMessage now =
     (let message = trim errorMessage in
      guarded [validateRunId runId, validateKey code ''workflow launch error code'',
          (message \<noteq> [] \<and> utf8_length message \<le> 2048, BadErrorMessage), validTimestamp now]
       (one_change (\<lambda>r. u_run r = runId \<and> live_status (u_status r) \<and> claim_filter token r)
         (\<lambda>r. (finish_run Failed now r)\<lparr>u_parent := None, u_err_code := Some code,
            u_err_message := Some message\<rparr>)))"

definition cancelWorkflowRun :: "string \<Rightarrow> string option \<Rightarrow> string \<Rightarrow> bool store_op" where
  "cancelWorkflowRun runId token now =
     guarded [validateRunId runId, validTimestamp now]
      (one_change (\<lambda>r. u_run r = runId \<and> u_status r \<in> {Queued, Starting} \<and> claim_filter token r)
        (finish_run Cancelled now))"

definition deleteWorkflowRun :: "string \<Rightarrow> string \<Rightarrow> bool store_op" where
  "deleteWorkflowRun runId token =
     guarded [validateRunId runId] (\<lambda>d.
       let p = (\<lambda>r. u_run r = runId \<and> u_token r = Some token) in
       (Inr (sql_changes p (runs d) = 1), d\<lparr>runs := sql_delete p (runs d)\<rparr>))"

definition completeWorkflowRun :: "string \<Rightarrow> string \<Rightarrow> string \<Rightarrow> bool store_op" where
  "completeWorkflowRun runId token now =
     guarded [validateRunId runId, validTimestamp now]
      (one_change (\<lambda>r. u_run r = runId \<and> u_token r = Some token \<and> claimed_status (u_status r))
        (finish_run Done now))"

section \<open>Repairing the source of a run\<close>

definition repair_claimable :: "string \<Rightarrow> int \<Rightarrow> run_row \<Rightarrow> bool" where
  "repair_claimable token nowMs r \<longleftrightarrow> u_status r = Parked \<or>
     u_status r = Starting \<and> u_token r = Some token \<and> unlapsed nowMs r \<or>
     u_status r = Starting \<and> lapsed nowMs r"

definition take_source :: "string \<Rightarrow> string \<Rightarrow> string \<Rightarrow> string \<Rightarrow> int \<Rightarrow> string \<Rightarrow> run_row \<Rightarrow> run_row" where
  "take_source name ref runner token expires now r = r\<lparr>u_ref := name, u_path := ref,
     u_status := Starting, u_runner := Some runner, u_token := Some token,
     u_expires := Some expires, u_updated := now\<rparr>"

datatype repair_outcome = RepairUnchanged | RepairClaimed | RepairRefused

definition repairCanonicalWorkflowSourceRun ::
    "string \<Rightarrow> string \<Rightarrow> string \<Rightarrow> string \<Rightarrow> string \<Rightarrow> int \<Rightarrow> string \<Rightarrow> repair_outcome store_op" where
  "repairCanonicalWorkflowSourceRun runId name ref runner token leaseMs now =
     guarded [validateRunId runId, validateKey name ''workflow name'',
         validateKey ref ''workflow source ref'', validateKey runner ''runner id'',
         validateKey token ''claim token'', validateDuration leaseMs ''leaseMs'', validTimestamp now]
      (with_result (epoch now) (\<lambda>nowMs. transact (\<lambda>d.
        (case run_row_of runId d of
           None \<Rightarrow> (Inr RepairRefused, d)
         | Some row \<Rightarrow>
             if terminal_status (u_status row) then (Inr RepairRefused, d)
             else if u_path row = ref \<and> u_status row = Parked then (Inr RepairUnchanged, d)
             else if \<not> repair_claimable token nowMs row then (Inr RepairRefused, d)
             else and_then (one_change (\<lambda>r. u_run r = runId \<and> \<not> terminal_status (u_status r))
                 (take_source name ref runner token (nowMs + leaseMs) now))
               (\<lambda>claimed. return_op (if claimed then RepairClaimed else RepairRefused)) d))))"

definition claimLegacyWorkflowSourceRun ::
    "string \<Rightarrow> string \<Rightarrow> string \<Rightarrow> string \<Rightarrow> string \<Rightarrow> string \<Rightarrow> int \<Rightarrow> string \<Rightarrow> bool store_op" where
  "claimLegacyWorkflowSourceRun runId name oldPath ref runner token leaseMs now =
     guarded [validateRunId runId, validateKey name ''workflow name'',
         validateKey oldPath ''legacy workflow path'',
         validateKey ref ''workflow source ref'', validateKey runner ''runner id'',
         validateKey token ''claim token'', validateDuration leaseMs ''leaseMs'', validTimestamp now]
      (with_result (epoch now) (\<lambda>nowMs. transact (\<lambda>d.
        (case run_row_of runId d of
           None \<Rightarrow> (Inr False, d)
         | Some row \<Rightarrow>
             if terminal_status (u_status row) then (Inr False, d)
             else if \<not> (u_path row = oldPath \<or> u_path row = ref) \<or> \<not> repair_claimable token nowMs row
             then (Inr False, d)
             else one_change (\<lambda>r. u_run r = runId \<and> \<not> terminal_status (u_status r))
                 (take_source name ref runner token (nowMs + leaseMs) now) d))))"

section \<open>The session of a run\<close>

definition setWorkflowRunOriginSession :: "string \<Rightarrow> string \<Rightarrow> string \<Rightarrow> bool store_op" where
  "setWorkflowRunOriginSession runId session now =
     guarded [validateRunId runId, validateKey session ''origin session id'', validTimestamp now]
      (one_change (\<lambda>r. u_run r = runId \<and> u_origin r = None)
        (\<lambda>r. r\<lparr>u_origin := Some session, u_updated := now\<rparr>))"

definition clearWorkflowRunOriginSession :: "string \<Rightarrow> string \<Rightarrow> nat store_op" where
  "clearWorkflowRunOriginSession session now =
     guarded [validateKey session ''session id'', validTimestamp now]
      (update_runs (\<lambda>r. u_origin r = Some session \<and> u_status r = Done)
        (\<lambda>r. r\<lparr>u_origin := None, u_updated := now\<rparr>))"

end
