(* ===== verification/RunLifecycle.thy ===== *)
theory RunLifecycle
  imports RunQueue
begin

text \<open>
  What the run queue promises: the acts processes may perform on it, the life of a run, the lease
  of a claimed run with the fence that backs it, and the reservations of sessions and parents.
\<close>

section \<open>Acts\<close>

datatype run_act =
    ReserveRun run_request string string
  | EnqueueRun run_request "string option" "string option" "string option" string int
  | ClaimRun string string string int string
  | ClaimNextRun string string int "string list" "string option" string
  | MarkRunning string string string
  | RenewRun string string int string
  | ParkRun string string string
  | FailRun string "string option" string string string
  | CancelRun string "string option" string
  | DeleteRun string string
  | CompleteRun string string string
  | RepairRun string string string string string int string
  | ClaimLegacyRun string string string string string string int string
  | SetRunSession string string string
  | ClearRunSession string string

fun run_step :: "run_act \<Rightarrow> db \<Rightarrow> db" where
  "run_step (ReserveRun q digest session) d = snd (reserveWorkflowRun q digest session d)"
| "run_step (EnqueueRun q digest affinity session token lease) d =
     snd (enqueueWorkflowRun q digest affinity session token lease d)"
| "run_step (ClaimRun k runner token lease now) d = snd (claimWorkflowRun k runner token lease now d)"
| "run_step (ClaimNextRun runner token lease excluded session now) d =
     snd (claimNextWorkflowRun runner token lease excluded session now d)"
| "run_step (MarkRunning k token now) d = snd (markWorkflowRunRunning k token now d)"
| "run_step (RenewRun k token lease now) d = snd (renewWorkflowRunClaim k token lease now d)"
| "run_step (ParkRun k token now) d = snd (parkWorkflowRun k token now d)"
| "run_step (FailRun k token code message now) d = snd (failWorkflowRun k token code message now d)"
| "run_step (CancelRun k token now) d = snd (cancelWorkflowRun k token now d)"
| "run_step (DeleteRun k token) d = snd (deleteWorkflowRun k token d)"
| "run_step (CompleteRun k token now) d = snd (completeWorkflowRun k token now d)"
| "run_step (RepairRun k name ref runner token lease now) d =
     snd (repairCanonicalWorkflowSourceRun k name ref runner token lease now d)"
| "run_step (ClaimLegacyRun k name old ref runner token lease now) d =
     snd (claimLegacyWorkflowSourceRun k name old ref runner token lease now d)"
| "run_step (SetRunSession k session now) d = snd (setWorkflowRunOriginSession k session now d)"
| "run_step (ClearRunSession session now) d = snd (clearWorkflowRunOriginSession session now d)"

definition request_ok :: "run_request \<Rightarrow> bool" where
  "request_ok q \<longleftrightarrow> wf_js (o_source q) \<and> wf_js (o_input q) \<and> wf_js (o_launch q)"

fun run_act_ok :: "run_act \<Rightarrow> bool" where
  "run_act_ok (ReserveRun q digest session) = request_ok q"
| "run_act_ok (EnqueueRun q digest affinity session token lease) = request_ok q"
| "run_act_ok _ = True"

section \<open>Well-formed rows\<close>

definition run_row_ok :: "run_row \<Rightarrow> bool" where
  "run_row_ok r \<longleftrightarrow> run_id_pattern (u_run r) \<and> (claimed_status (u_status r) \<longleftrightarrow> u_token r \<noteq> None) \<and>
     (u_token r = None \<longleftrightarrow> u_expires r = None) \<and> (u_token r = None \<longleftrightarrow> u_runner r = None) \<and>
     (terminal_status (u_status r) \<longleftrightarrow> u_finished r \<noteq> None) \<and>
     (\<exists>v. stored_json (u_source r) ''workflow run source'' = Inr v) \<and>
     (\<exists>v. stored_json (u_input r) ''workflow run input'' = Inr v) \<and>
     (\<exists>v. stored_json (u_launch r) ''workflow launch options'' = Inr v)"

definition runs_ok :: "db \<Rightarrow> bool" where
  "runs_ok d \<longleftrightarrow> run_constraints (runs d) \<and> list_all run_row_ok (runs d)"

lemmas status_defs = live_status_def claimed_status_def terminal_status_def

lemma runs_ok_empty: "runs_ok empty_db"
  by (simp add: runs_ok_def empty_db_def run_constraints_def)

lemma runs_ok_keyed: "runs_ok d \<Longrightarrow> keyed u_run (runs d)"
  by (simp add: runs_ok_def run_constraints_def)

lemma runs_ok_row: "runs_ok d \<Longrightarrow> r \<in> set (runs d) \<Longrightarrow> run_row_ok r"
  by (simp add: runs_ok_def list_all_iff)

lemma preserves_update_runs:
  "(\<And>r. run_row_ok r \<Longrightarrow> p r \<Longrightarrow> run_row_ok (f r)) \<Longrightarrow> preserves runs_ok (update_runs p f)"
  by (rule preservesI) (auto simp: update_runs_def Let_def runs_ok_def list_all_iff in_sql_update)

lemma preserves_one_change:
  "(\<And>r. run_row_ok r \<Longrightarrow> p r \<Longrightarrow> run_row_ok (f r)) \<Longrightarrow> preserves runs_ok (one_change p f)"
  unfolding one_change_def by (intro preserves_and_then preserves_update_runs preserves_return)

lemma preserves_insert_run: "run_row_ok row \<Longrightarrow> preserves runs_ok (insert_run row)"
  by (rule preservesI) (auto simp: insert_run_def runs_ok_def)

lemma requireWorkflowRun_state [simp]: "snd (requireWorkflowRun k d) = d"
  by (simp add: requireWorkflowRun_def getWorkflowRun_def and_then_def guarded_def
      split: prod.split sum.split option.split)

lemma preserves_require_run: "preserves P (requireWorkflowRun k)"
  by (rule preservesI) simp

lemma stored_erased: "stored_json ''null'' x = Inr JNull" "stored_json ''{}'' x = Inr (JObj [])"
proof -
  have "json_parse ''null'' = Some JNull" "json_parse ''{}'' = Some (JObj [])" by code_simp+
  then show "stored_json ''null'' x = Inr JNull" "stored_json ''{}'' x = Inr (JObj [])"
    by (simp_all add: stored_json_def parseStoredJson_def)
qed

lemma wf_nullish: "wf_js v \<Longrightarrow> wf_js w \<Longrightarrow> wf_js (nullish v w)"
  by (simp add: nullish_def)

lemma run_row_ok_updates:
  "run_row_ok r \<Longrightarrow> \<not> terminal_status (u_status r) \<Longrightarrow> run_row_ok (take_claim runner token e now r)"
  "run_row_ok r \<Longrightarrow> \<not> terminal_status (u_status r) \<Longrightarrow> run_row_ok (take_source name ref runner token e now r)"
  "run_row_ok r \<Longrightarrow> terminal_status s \<Longrightarrow> run_row_ok (finish_run s now r)"
  "run_row_ok r \<Longrightarrow> claimed_status (u_status r) \<Longrightarrow> run_row_ok ((unclaimed r)\<lparr>u_status := Parked, u_updated := now\<rparr>)"
  by (auto simp: run_row_ok_def take_claim_def take_source_def finish_run_def unclaimed_def status_defs stored_erased)

lemma run_row_ok_fields [simp]:
  "run_row_ok (r\<lparr>u_parent := x\<rparr>) = run_row_ok r" "run_row_ok (r\<lparr>u_err_code := y\<rparr>) = run_row_ok r"
  "run_row_ok (r\<lparr>u_err_message := y\<rparr>) = run_row_ok r" "run_row_ok (r\<lparr>u_updated := z\<rparr>) = run_row_ok r"
  "run_row_ok (r\<lparr>u_origin := y\<rparr>) = run_row_ok r"
  by (simp_all add: run_row_ok_def)

lemma wf_requests: "wf_js (JObj [])" "wf_js (JObj [(''ref'', JStr s)])" "wf_js JNull"
  by (auto simp: js_ordered_def js_order_def is_index_def)

lemma preserves_reserve: "request_ok q \<Longrightarrow> preserves runs_ok (reserveWorkflowRun q digest session)"
  unfolding reserveWorkflowRun_def request_ok_def
  by (intro preserves_intros preserves_insert_run preserves_require_run)
    (auto simp: run_row_ok_def status_defs validateRunId_def intro: json_column_reads_back wf_nullish wf_requests)

lemma preserves_enqueue_run:
  "request_ok q \<Longrightarrow> preserves runs_ok (enqueueWorkflowRun q digest affinity session token lease)"
  unfolding enqueueWorkflowRun_def request_ok_def
  by (intro preserves_intros preserves_insert_run preserves_require_run)
    (auto simp: run_row_ok_def status_defs validateRunId_def intro: json_column_reads_back wf_nullish wf_requests)

lemma preserves_claimWorkflowRun: "preserves runs_ok (claimWorkflowRun k runner token lease now)"
  unfolding claimWorkflowRun_def
  by (intro preserves_intros preserves_one_change preserves_require_run)
    (auto intro!: run_row_ok_updates simp: status_defs)

lemma preserves_claimNextWorkflowRun:
  "preserves runs_ok (claimNextWorkflowRun runner token lease excluded session now)"
proof -
  have "preserves runs_ok (and_then (one_change (\<lambda>r. u_run r = k \<and> run_claimable n r)
      (take_claim runner token e now))
    (\<lambda>claimed. if claimed then and_then (requireWorkflowRun k) (\<lambda>r. return_op (Some r)) else return_op None))" for k n e
    by (intro preserves_intros preserves_one_change preserves_require_run)
      (auto intro!: run_row_ok_updates simp: status_defs run_claimable_def)
  then show ?thesis
    unfolding claimNextWorkflowRun_def
    by (intro preserves_intros preservesI) (auto dest: preservesD split: option.split)
qed

lemma run_row_ok_running: "run_row_ok r \<Longrightarrow> u_status r = Starting \<Longrightarrow> run_row_ok (r\<lparr>u_status := Running, u_updated := now\<rparr>)"
  by (auto simp: run_row_ok_def status_defs)

lemma run_row_ok_renewed: "run_row_ok r \<Longrightarrow> u_token r = Some t \<Longrightarrow> run_row_ok (r\<lparr>u_expires := Some e\<rparr>)"
  by (auto simp: run_row_ok_def)

lemma preserves_run_updates:
  "preserves runs_ok (markWorkflowRunRunning k token now)"
  "preserves runs_ok (renewWorkflowRunClaim k token lease now)"
  "preserves runs_ok (parkWorkflowRun k token now)"
  "preserves runs_ok (failWorkflowRun k tok code message now)"
  "preserves runs_ok (cancelWorkflowRun k tok now)"
  "preserves runs_ok (completeWorkflowRun k token now)"
  "preserves runs_ok (setWorkflowRunOriginSession k session now)"
  "preserves runs_ok (clearWorkflowRunOriginSession session now)"
proof -
  have terminal: "terminal_status Failed" "terminal_status Cancelled" "terminal_status Done"
    by (simp_all add: terminal_status_def)
  show "preserves runs_ok (markWorkflowRunRunning k token now)"
    unfolding markWorkflowRunRunning_def by (intro preserves_guarded preserves_one_change run_row_ok_running) auto
  show "preserves runs_ok (renewWorkflowRunClaim k token lease now)"
    unfolding renewWorkflowRunClaim_def
    by (intro preserves_guarded preserves_with_result preserves_one_change run_row_ok_renewed) auto
  show "preserves runs_ok (parkWorkflowRun k token now)"
    unfolding parkWorkflowRun_def by (intro preserves_guarded preserves_one_change run_row_ok_updates) auto
  show "preserves runs_ok (failWorkflowRun k tok code message now)"
    unfolding failWorkflowRun_def Let_def
    by (intro preserves_guarded preserves_one_change) (simp add: run_row_ok_updates terminal)
  show "preserves runs_ok (cancelWorkflowRun k tok now)"
    unfolding cancelWorkflowRun_def by (intro preserves_guarded preserves_one_change run_row_ok_updates terminal)
  show "preserves runs_ok (completeWorkflowRun k token now)"
    unfolding completeWorkflowRun_def by (intro preserves_guarded preserves_one_change run_row_ok_updates terminal)
  show "preserves runs_ok (setWorkflowRunOriginSession k session now)"
    unfolding setWorkflowRunOriginSession_def by (intro preserves_guarded preserves_one_change) simp
  show "preserves runs_ok (clearWorkflowRunOriginSession session now)"
    unfolding clearWorkflowRunOriginSession_def by (intro preserves_guarded preserves_update_runs) simp
qed

lemma run_constraints_filter:
  assumes "run_constraints rs"
  shows "run_constraints (filter q rs)"
proof -
  have swap: "filter h (filter q rs) = filter q (filter h rs)" for h
    by (simp add: conj_commute)
  show ?thesis
    using assms unfolding run_constraints_def
    by (simp only: swap[of reserving] swap[of "\<lambda>r. u_parent r \<noteq> None"] keyed_filter)
qed

lemma preserves_deleteWorkflowRun: "preserves runs_ok (deleteWorkflowRun k token)"
  unfolding deleteWorkflowRun_def
  by (intro preserves_guarded preservesI)
    (simp add: Let_def runs_ok_def list_all_iff sql_delete_def run_constraints_filter)

lemma preserves_repairs:
  "preserves runs_ok (repairCanonicalWorkflowSourceRun k name ref runner token lease now)"
  "preserves runs_ok (claimLegacyWorkflowSourceRun k name old ref runner token lease now)"
proof -
  have source: "preserves runs_ok (one_change (\<lambda>r. u_run r = k \<and> \<not> terminal_status (u_status r))
      (take_source name ref runner token e now))" for e
    by (intro preserves_one_change run_row_ok_updates) auto
  then have "preserves runs_ok (and_then (one_change (\<lambda>r. u_run r = k \<and> \<not> terminal_status (u_status r))
      (take_source name ref runner token e now))
      (\<lambda>claimed. return_op (if claimed then RepairClaimed else RepairRefused)))" for e
    by (intro preserves_and_then preserves_return)
  then show "preserves runs_ok (repairCanonicalWorkflowSourceRun k name ref runner token lease now)"
    unfolding repairCanonicalWorkflowSourceRun_def
    by (intro preserves_intros preservesI) (auto dest: preservesD split: option.split)
  show "preserves runs_ok (claimLegacyWorkflowSourceRun k name old ref runner token lease now)"
    unfolding claimLegacyWorkflowSourceRun_def
    by (intro preserves_intros preservesI) (use source in \<open>auto dest: preservesD split: option.split\<close>)
qed

lemma runs_ok_step: "runs_ok d \<Longrightarrow> run_act_ok a \<Longrightarrow> runs_ok (run_step a d)"
  by (cases a) (auto intro!: preservesD[of runs_ok] simp: preserves_reserve preserves_enqueue_run
      preserves_claimWorkflowRun preserves_claimNextWorkflowRun preserves_run_updates
      preserves_deleteWorkflowRun preserves_repairs)

section \<open>Concrete stores\<close>

definition plain_run :: "string \<Rightarrow> launch_status \<Rightarrow> string option \<Rightarrow> string \<Rightarrow> run_row" where
  "plain_run k status origin created = \<lparr>u_run = k, u_ref = ''w'', u_path = ''w'', u_source = ''null'',
     u_digest = ''g'', u_input = ''null'', u_launch = ''{}'', u_status = status, u_runner = None,
     u_token = None, u_expires = None, u_affinity = None, u_origin = origin, u_parent = None,
     u_err_code = None, u_err_message = None, u_created = created, u_updated = created,
     u_started = None, u_finished = None\<rparr>"

text \<open>A parked run of nobody's session, the same run claimed until the sixth second, and done.\<close>

definition parked_db :: db where
  "parked_db = empty_db\<lparr>runs := [plain_run ''a'' Parked None ''1970-01-01T00:00:00.000Z'']\<rparr>"

definition claimed_run_db :: db where
  "claimed_run_db = empty_db\<lparr>runs := [(plain_run ''a'' Starting None ''1970-01-01T00:00:00.000Z'')
     \<lparr>u_runner := Some ''host'', u_token := Some ''t'', u_expires := Some 6000,
      u_started := Some ''1970-01-01T00:00:01.000Z'', u_updated := ''1970-01-01T00:00:01.000Z''\<rparr>]\<rparr>"

definition done_db :: db where
  "done_db = empty_db\<lparr>runs := [(plain_run ''a'' Done None ''1970-01-01T00:00:00.000Z'')
     \<lparr>u_finished := Some ''1970-01-01T00:00:01.000Z''\<rparr>]\<rparr>"

lemma run_id_a: "run_id_pattern ''a''"
  by code_simp

lemma sample_runs_ok: "runs_ok parked_db" "runs_ok claimed_run_db" "runs_ok done_db"
  using run_id_a
  by (auto simp: parked_db_def claimed_run_db_def done_db_def plain_run_def runs_ok_def run_constraints_def
      run_row_ok_def status_defs reserving_def keyed_def stored_erased)

lemmas parked_db_ok = sample_runs_ok(1)
lemmas claimed_run_db_ok = sample_runs_ok(2)
lemmas done_db_ok = sample_runs_ok(3)

lemma sample_trim: "trim ''message'' = ''message''"
  by code_simp

section \<open>The life of a run\<close>

inductive lifecycle :: "launch_status \<Rightarrow> launch_status \<Rightarrow> bool" where
  stays: "lifecycle s s"
| claimed: "\<not> terminal_status s \<Longrightarrow> lifecycle s Starting"
| started: "lifecycle Starting Running"
| parked: "claimed_status s \<Longrightarrow> lifecycle s Parked"
| failed: "live_status s \<Longrightarrow> lifecycle s Failed"
| cancelled: "s \<in> {Queued, Starting} \<Longrightarrow> lifecycle s Cancelled"
| completed: "claimed_status s \<Longrightarrow> lifecycle s Done"

inductive_simps lifecycle_simps: "lifecycle s s'"
inductive_cases lifecycle_to_running: "lifecycle s Running"

text \<open>What a write may do to one row; a finished row keeps everything but its session.\<close>

definition run_move :: "run_row \<Rightarrow> run_row \<Rightarrow> bool" where
  "run_move r r' \<longleftrightarrow> u_run r' = u_run r \<and> u_created r' = u_created r \<and> u_digest r' = u_digest r \<and>
     lifecycle (u_status r) (u_status r') \<and>
     (terminal_status (u_status r) \<longrightarrow> r' = r\<lparr>u_origin := u_origin r', u_updated := u_updated r'\<rparr>)"

inductive runs_change :: "run_row list \<Rightarrow> run_row list \<Rightarrow> bool" for rs where
  unchanged: "runs_change rs rs"
| inserted: "u_status row \<in> {Queued, Starting} \<Longrightarrow> u_run row \<notin> u_run ` set rs \<Longrightarrow> runs_change rs (rs @ [row])"
| deleted: "(\<And>r. p r \<Longrightarrow> u_token r \<noteq> None) \<Longrightarrow> runs_change rs (sql_delete p rs)"
| changed: "(\<And>r. p r \<Longrightarrow> run_move r (f r)) \<Longrightarrow> runs_change rs (sql_update p f rs)"

definition db_runs_change :: "db \<Rightarrow> db \<Rightarrow> bool" where
  "db_runs_change d d' \<longleftrightarrow> runs_change (runs d) (runs d')"

lemma runs_change_refl [simp]: "db_runs_change d d"
  by (simp add: db_runs_change_def runs_change.unchanged)

lemma change_update_runs:
  "(\<And>r. p r \<Longrightarrow> run_move r (f r)) \<Longrightarrow> db_runs_change d (snd (update_runs p f d))"
  by (simp add: update_runs_def Let_def) (simp add: db_runs_change_def runs_change.changed)

lemma snd_one_change: "snd (one_change p f d) = snd (update_runs p f d)"
  by (simp add: one_change_def and_then_def return_op_def split: prod.split sum.split)

lemma change_one_change:
  "(\<And>r. p r \<Longrightarrow> run_move r (f r)) \<Longrightarrow> db_runs_change d (snd (one_change p f d))"
  by (simp add: snd_one_change change_update_runs)

lemma change_insert_run:
  "u_status row \<in> {Queued, Starting} \<Longrightarrow> db_runs_change d (snd (insert_run row d))"
  by (simp add: insert_run_def) (auto simp: db_runs_change_def run_constraints_def keyed_append
      intro: runs_change.inserted)

text \<open>Reading the row afterwards leaves the store alone.\<close>

lemma snd_and_then_read: "(\<And>b t. snd (f b t) = t) \<Longrightarrow> snd (and_then m f d) = snd (m d)"
  by (auto simp: and_then_def split: prod.split sum.split)

lemma snd_return [simp]: "snd (return_op a d) = d"
  by (simp add: return_op_def)

lemma change_guards:
  "(list_all fst checks \<Longrightarrow> db_runs_change d (snd (f d))) \<Longrightarrow> db_runs_change d (snd (guarded checks f d))"
  "(\<And>b. r = Inr b \<Longrightarrow> db_runs_change d (snd (g b d))) \<Longrightarrow> db_runs_change d (snd (with_result r g d))"
  "db_runs_change d (snd (f d)) \<Longrightarrow> db_runs_change d (snd (transact f d))"
  by (auto simp: guarded_def with_result_def transact_def first_failure_None[symmetric]
      split: option.split sum.split prod.split)

lemma move_updates:
  "\<not> terminal_status (u_status r) \<Longrightarrow> run_move r (take_claim runner token e now r)"
  "\<not> terminal_status (u_status r) \<Longrightarrow> run_move r (take_source name ref runner token e now r)"
  "lifecycle (u_status r) s \<Longrightarrow> \<not> terminal_status (u_status r) \<Longrightarrow> run_move r (finish_run s now r)"
  "claimed_status (u_status r) \<Longrightarrow> run_move r ((unclaimed r)\<lparr>u_status := Parked, u_updated := now\<rparr>)"
  "u_status r = Starting \<Longrightarrow> run_move r (r\<lparr>u_status := Running, u_updated := now\<rparr>)"
  "claimed_status (u_status r) \<Longrightarrow> run_move r (r\<lparr>u_expires := ex\<rparr>)"
  "run_move r (r\<lparr>u_origin := og, u_updated := now\<rparr>)"
  by (auto simp: run_move_def take_claim_def take_source_def finish_run_def unclaimed_def status_defs
      lifecycle_simps)

lemma move_failed:
  "live_status (u_status r) \<Longrightarrow>
    run_move r ((finish_run Failed now r)\<lparr>u_parent := None, u_err_code := Some c, u_err_message := Some m\<rparr>)"
  by (auto simp: run_move_def finish_run_def unclaimed_def status_defs lifecycle_simps)

lemma change_claims:
  "db_runs_change d (snd (claimWorkflowRun k runner token lease now d))"
  "db_runs_change d (snd (claimNextWorkflowRun runner token lease excluded session now d))"
  "db_runs_change d (snd (repairCanonicalWorkflowSourceRun k name ref runner token lease now d))"
  "db_runs_change d (snd (claimLegacyWorkflowSourceRun k name old ref runner token lease now d))"
proof -
  have read: "snd (if b then and_then (requireWorkflowRun k) (\<lambda>r. return_op (Some r)) t else return_op None t) = t"
    for b t k by (simp add: snd_and_then_read)
  have claim: "db_runs_change d (snd (one_change (\<lambda>r. u_run r = k \<and> p r) (take_claim runner token e now) d))"
    if "\<And>r. p r \<Longrightarrow> \<not> terminal_status (u_status r)" for p k e
    by (rule change_one_change) (use that move_updates(1) in blast)
  have source: "db_runs_change d (snd (one_change (\<lambda>r. u_run r = k \<and> \<not> terminal_status (u_status r))
      (take_source name ref runner token e now) d))" for e
    by (rule change_one_change) (use move_updates(2) in blast)
  show "db_runs_change d (snd (claimWorkflowRun k runner token lease now d))"
    unfolding claimWorkflowRun_def
    by (intro change_guards) (simp add: snd_and_then_read if_distribR read, rule claim, auto simp: status_defs)
  show "db_runs_change d (snd (claimNextWorkflowRun runner token lease excluded session now d))"
    unfolding claimNextWorkflowRun_def
    by (intro change_guards)
      (auto simp: snd_and_then_read if_distribR read run_claimable_def status_defs split: option.split
        intro!: claim)
  show "db_runs_change d (snd (repairCanonicalWorkflowSourceRun k name ref runner token lease now d))"
    unfolding repairCanonicalWorkflowSourceRun_def
    by (intro change_guards) (auto simp: snd_and_then_read source split: option.split)
  show "db_runs_change d (snd (claimLegacyWorkflowSourceRun k name old ref runner token lease now d))"
    unfolding claimLegacyWorkflowSourceRun_def
    by (intro change_guards) (auto simp: source split: option.split)
qed

lemma change_inserts:
  "db_runs_change d (snd (reserveWorkflowRun q digest s d))"
  "db_runs_change d (snd (enqueueWorkflowRun q dg affinity session token lease d))"
  unfolding reserveWorkflowRun_def enqueueWorkflowRun_def
  by (intro change_guards; simp add: snd_and_then_read; rule change_insert_run; simp)+

lemma change_updates:
  "db_runs_change d (snd (markWorkflowRunRunning k token now d))"
  "db_runs_change d (snd (renewWorkflowRunClaim k token lease now d))"
  "db_runs_change d (snd (parkWorkflowRun k token now d))"
  "db_runs_change d (snd (failWorkflowRun k tok code message now d))"
  "db_runs_change d (snd (cancelWorkflowRun k tok now d))"
  "db_runs_change d (snd (completeWorkflowRun k token now d))"
  "db_runs_change d (snd (setWorkflowRunOriginSession k session now d))"
  "db_runs_change d (snd (clearWorkflowRunOriginSession session now d))"
  unfolding markWorkflowRunRunning_def renewWorkflowRunClaim_def parkWorkflowRun_def failWorkflowRun_def
    cancelWorkflowRun_def completeWorkflowRun_def setWorkflowRunOriginSession_def
    clearWorkflowRunOriginSession_def Let_def
  by (intro change_guards change_one_change change_update_runs;
      use move_updates move_failed in \<open>auto simp: status_defs lifecycle_simps\<close>)+

lemma change_deleteWorkflowRun: "db_runs_change d (snd (deleteWorkflowRun k token d))"
  unfolding deleteWorkflowRun_def
  by (intro change_guards) (simp add: Let_def db_runs_change_def, rule runs_change.deleted, simp)

lemma runs_change_step: "runs_change (runs d) (runs (run_step a d))"
proof -
  have "db_runs_change d (run_step a d)"
    by (cases a) (simp_all add: change_inserts change_claims change_updates change_deleteWorkflowRun)
  then show ?thesis by (simp add: db_runs_change_def)
qed

lemma terminal_unclaimed: "run_row_ok r \<Longrightarrow> terminal_status (u_status r) \<Longrightarrow> u_token r = None"
  by (auto simp: run_row_ok_def status_defs)

lemma run_row_of_keyed: "keyed u_run (runs d) \<Longrightarrow> r \<in> set (runs d) \<Longrightarrow> run_row_of (u_run r) d = Some r"
  by (simp add: run_row_of_def sql_get_keyed)

lemma run_row_of_Some: "run_row_of k d = Some r \<Longrightarrow> r \<in> set (runs d) \<and> u_run r = k"
  by (auto simp: run_row_of_def dest: sql_get_Some)

lemma run_row_of_changed:
  "runs d' = sql_update p f (runs d) \<Longrightarrow> (\<And>r. p r \<Longrightarrow> run_move r (f r)) \<Longrightarrow>
    run_row_of k d' = map_option (\<lambda>q. if p q then f q else q) (run_row_of k d)"
  by (simp add: run_row_of_def sql_get_sql_update run_move_def)

text \<open>How the row of one run moves in one act.\<close>

lemma run_moves:
  assumes "keyed u_run (runs d)" and "run_row_of k d = Some r" and "run_row_of k (run_step a d) = Some r'"
  shows "r' = r \<or> run_move r r'"
  using runs_change_step[of d a]
proof cases
  case unchanged
  then show ?thesis using assms by (simp add: run_row_of_def)
next
  case (inserted row)
  then show ?thesis using assms by (simp add: run_row_of_def sql_get_append)
next
  case (deleted p)
  then have "r' \<in> set (runs d)" "u_run r' = k" using run_row_of_Some[OF assms(3)] by (auto simp: sql_delete_def)
  then show ?thesis using assms(1,2) run_row_of_keyed by fastforce
next
  case (changed p f)
  have "run_row_of k (run_step a d) = map_option (\<lambda>q. if p q then f q else q) (run_row_of k d)"
    by (rule run_row_of_changed[OF changed(1)]) (rule changed(2))
  then show ?thesis using assms(2,3) changed(2)[of r] by (cases "p r") auto
qed

lemma terminal_row_stays:
  assumes "runs_ok d" and "run_row_of k d = Some r" and "terminal_status (u_status r)"
  shows "\<exists>r'. run_row_of k (run_step a d) = Some r'"
  using runs_change_step[of d a]
proof cases
  case (inserted row)
  then show ?thesis using assms by (simp add: run_row_of_def sql_get_append)
next
  case (deleted p)
  have "run_row_ok r" using runs_ok_row[OF assms(1)] run_row_of_Some[OF assms(2)] by simp
  then have "u_token r = None" by (rule terminal_unclaimed) (rule assms(3))
  then have "\<not> p r" using deleted(2)[of r] by auto
  then show ?thesis
    using assms(2) sql_get_sql_delete[of "\<lambda>r. u_run r = k" "runs d" r p]
    by (simp add: run_row_of_def deleted(1))
next
  case (changed p f)
  have "run_row_of k (run_step a d) = map_option (\<lambda>q. if p q then f q else q) (run_row_of k d)"
    by (rule run_row_of_changed[OF changed(1)]) (rule changed(2))
  then show ?thesis using assms(2) by simp
qed (use assms in \<open>simp add: run_row_of_def\<close>)

definition run_history :: "run_act list \<Rightarrow> db \<Rightarrow> db" where
  "run_history as d = fold run_step as d"

lemma runs_ok_history: "runs_ok d \<Longrightarrow> list_all run_act_ok as \<Longrightarrow> runs_ok (run_history as d)"
  by (induction as arbitrary: d) (auto simp: run_history_def runs_ok_step)

text \<open>
  C11: A finished run is finished for good.  Once a run is done, failed or cancelled, no sequence of
  queue operations, by its old runner or anybody else, removes its row, changes its status, result,
  payload or timestamps, or gives it a claim again; only its origin session can still change.
\<close>

theorem finished_runs_are_final:
  assumes "runs_ok d" and "run_row_of k d = Some r" and "terminal_status (u_status r)"
    and "list_all run_act_ok as"
  shows "\<exists>og up. run_row_of k (run_history as d) = Some (r\<lparr>u_origin := og, u_updated := up\<rparr>)"
  using assms
proof (induction as arbitrary: d r)
  case Nil
  then show ?case by (intro exI[of _ "u_origin r"] exI[of _ "u_updated r"]) (simp add: run_history_def)
next
  case (Cons a as)
  obtain r' where r': "run_row_of k (run_step a d) = Some r'"
    using terminal_row_stays[OF Cons.prems(1-3)] by blast
  have move: "r' = r\<lparr>u_origin := u_origin r', u_updated := u_updated r'\<rparr>"
    using run_moves[OF runs_ok_keyed[OF Cons.prems(1)] Cons.prems(2) r'] Cons.prems(3) by (auto simp: run_move_def)
  have "u_status r' = u_status r" by (subst move) simp
  then obtain og up where "run_row_of k (run_history as (run_step a d)) = Some (r'\<lparr>u_origin := og, u_updated := up\<rparr>)"
    using Cons.IH[OF _ r'] runs_ok_step[OF Cons.prems(1)] Cons.prems(3,4) by auto
  moreover have "r'\<lparr>u_origin := og, u_updated := up\<rparr> = r\<lparr>u_origin := og, u_updated := up\<rparr>"
    by (subst move) simp
  ultimately show ?case by (auto simp: run_history_def)
qed

theorem finished_runs_are_final_witness:
  "\<exists>og up. run_row_of ''a'' (run_history [CompleteRun ''a'' ''t'' ''1970-01-01T00:00:02.000Z''] done_db) =
    Some (hd (runs done_db)\<lparr>u_origin := og, u_updated := up\<rparr>)"
  by (rule finished_runs_are_final[OF done_db_ok])
    (simp_all add: run_row_of_def sql_get_def done_db_def plain_run_def terminal_status_def)

text \<open>
  Runs move along the documented life cycle.  Whatever single operation runs, the status of a
  run that stays in the queue takes one allowed step: unfinished runs are claimed (starting), only
  a starting run begins to run, only a claimed run parks or completes, only a live run fails, only
  a queued or starting run is cancelled; its identity, digest and creation time never change.
\<close>

theorem run_life_cycle:
  assumes "runs_ok d" and "run_row_of k d = Some r" and "run_row_of k (run_step a d) = Some r'"
  shows "lifecycle (u_status r) (u_status r') \<and> u_run r' = u_run r \<and> u_created r' = u_created r \<and>
    u_digest r' = u_digest r"
  using run_moves[OF runs_ok_keyed[OF assms(1)] assms(2,3)] by (auto simp: run_move_def lifecycle.stays)

theorem run_life_cycle_witness:
  "lifecycle Starting Running \<and> u_run (hd (runs claimed_run_db)) = ''a'' \<and> True \<and> True"
proof -
  let ?a = "MarkRunning ''a'' ''t'' ''1970-01-01T00:00:02.000Z''"
  let ?r = "hd (runs claimed_run_db)"
  let ?r' = "?r\<lparr>u_status := Running, u_updated := ''1970-01-01T00:00:02.000Z''\<rparr>"
  have row: "run_row_of ''a'' claimed_run_db = Some ?r"
    by (simp add: run_row_of_def sql_get_def claimed_run_db_def plain_run_def)
  have "run_row_of ''a'' (run_step ?a claimed_run_db) = Some ?r'"
    using run_id_a
    by (simp add: markWorkflowRunRunning_def guarded_def validator_defs sample_times snd_one_change update_runs_def
        run_constraints_def keyed_def reserving_def sql_update_def run_row_of_def sql_get_def Let_def
        claimed_run_db_def plain_run_def)
  from run_life_cycle[OF claimed_run_db_ok row this] show ?thesis
    by (simp add: claimed_run_db_def plain_run_def)
qed

end
