(* ===== verification/RunLease.thy ===== *)
theory RunLease
  imports RunLifecycle
begin

text \<open>
  The lease of a claimed run: an instance of the claim-table contract, the fence that every claim
  holder's operation goes through, and the reservations the unique indexes enforce.
\<close>

section \<open>Holders, grants and the acts of a holder\<close>

definition run_lease :: "run_row \<Rightarrow> (string \<times> int) option" where
  "run_lease r = (case (u_token r, u_expires r) of (Some t, Some e) \<Rightarrow> Some (t, e) | _ \<Rightarrow> None)"

definition run_holder :: "db \<Rightarrow> string \<Rightarrow> (string \<times> int) option" where
  "run_holder d k = (case run_row_of k d of None \<Rightarrow> None | Some r \<Rightarrow> run_lease r)"

fun run_clock :: "run_act \<Rightarrow> int option" where
  "run_clock (ClaimRun k runner token lease now) = date_parse now"
| "run_clock (ClaimNextRun runner token lease excluded session now) = date_parse now"
| "run_clock (RepairRun k name ref runner token lease now) = date_parse now"
| "run_clock (ClaimLegacyRun k name old ref runner token lease now) = date_parse now"
| "run_clock _ = None"

text \<open>
  The acts that speak for a claim: those that present its token, and the two that may be called
  without any token.
\<close>

fun touches_run :: "run_act \<Rightarrow> string \<Rightarrow> string \<Rightarrow> bool" where
  "touches_run (RenewRun k token lease now) k' t = (k = k' \<and> token = t)"
| "touches_run (ParkRun k token now) k' t = (k = k' \<and> token = t)"
| "touches_run (FailRun k token code message now) k' t = (k = k' \<and> (token = None \<or> token = Some t))"
| "touches_run (CancelRun k token now) k' t = (k = k' \<and> (token = None \<or> token = Some t))"
| "touches_run (DeleteRun k token) k' t = (k = k' \<and> token = t)"
| "touches_run (CompleteRun k token now) k' t = (k = k' \<and> token = t)"
| "touches_run (RepairRun k name ref runner token lease now) k' t = (k = k' \<and> token = t)"
| "touches_run (ClaimLegacyRun k name old ref runner token lease now) k' t = (k = k' \<and> token = t)"
| "touches_run _ k' t = False"

definition until :: "string \<Rightarrow> string \<Rightarrow> int \<Rightarrow> (string \<times> int) option" where
  "until token now lease = map_option (\<lambda>ms. (token, ms + lease)) (date_parse now)"

fun run_grants :: "run_act \<Rightarrow> db \<Rightarrow> string \<Rightarrow> (string \<times> int) option" where
  "run_grants (EnqueueRun q digest affinity session token lease) d k =
     (case fst (enqueueWorkflowRun q digest affinity session token lease d) of
        Inr rec \<Rightarrow> if o_run q = k then until token (o_now q) lease else None | Inl e \<Rightarrow> None)"
| "run_grants (ClaimRun k' runner token lease now) d k =
     (case fst (claimWorkflowRun k' runner token lease now d) of
        Inr (Some rec) \<Rightarrow> if k' = k then until token now lease else None | _ \<Rightarrow> None)"
| "run_grants (ClaimNextRun runner token lease excluded session now) d k =
     (case fst (claimNextWorkflowRun runner token lease excluded session now d) of
        Inr (Some rec) \<Rightarrow> if rn_run rec = k then until token now lease else None | _ \<Rightarrow> None)"
| "run_grants (RepairRun k' name ref runner token lease now) d k =
     (case fst (repairCanonicalWorkflowSourceRun k' name ref runner token lease now d) of
        Inr RepairClaimed \<Rightarrow> if k' = k then until token now lease else None | _ \<Rightarrow> None)"
| "run_grants (ClaimLegacyRun k' name old ref runner token lease now) d k =
     (case fst (claimLegacyWorkflowSourceRun k' name old ref runner token lease now d) of
        Inr True \<Rightarrow> if k' = k then until token now lease else None | _ \<Rightarrow> None)"
| "run_grants _ d k = None"

section \<open>A running lease is left alone\<close>

text \<open>Rows held under a token keep token and expiry.\<close>

definition lease_kept :: "string \<Rightarrow> string \<times> int \<Rightarrow> db \<Rightarrow> db \<Rightarrow> bool" where
  "lease_kept k l d d' \<longleftrightarrow> (run_holder d k = Some l \<longrightarrow> run_holder d' k = Some l)"

lemma lease_kept_refl [simp]: "lease_kept k l d d"
  by (simp add: lease_kept_def)

lemma kept_update_runs:
  assumes "\<And>r. p r \<Longrightarrow> u_run (f r) = u_run r"
    and "\<And>r. run_row_of k d = Some r \<Longrightarrow> run_lease r = Some l \<Longrightarrow> p r \<Longrightarrow> run_lease (f r) = Some l"
  shows "lease_kept k l d (snd (update_runs p f d))"
proof -
  have "sql_get (\<lambda>r. u_run r = k) (sql_update p f (runs d)) =
      map_option (\<lambda>r. if p r then f r else r) (run_row_of k d)"
    unfolding run_row_of_def by (rule sql_get_sql_update) (use assms(1) in simp)
  then have "lease_kept k l d (d\<lparr>runs := sql_update p f (runs d)\<rparr>)"
    using assms(2) unfolding lease_kept_def run_holder_def
    by (auto simp: run_row_of_def split: option.splits)
  then show ?thesis by (simp add: update_runs_def Let_def)
qed

lemma kept_one_change:
  assumes "\<And>r. p r \<Longrightarrow> u_run (f r) = u_run r"
    and "\<And>r. run_row_of k d = Some r \<Longrightarrow> run_lease r = Some l \<Longrightarrow> p r \<Longrightarrow> run_lease (f r) = Some l"
  shows "lease_kept k l d (snd (one_change p f d))"
  using kept_update_runs[OF assms] by (simp add: snd_one_change)

lemma kept_insert_run: "lease_kept k l d (snd (insert_run row d))"
  by (auto simp: insert_run_def lease_kept_def run_holder_def run_row_of_def sql_get_append split: option.splits)

lemma kept_guards:
  "(list_all fst checks \<Longrightarrow> lease_kept k l d (snd (f d))) \<Longrightarrow> lease_kept k l d (snd (guarded checks f d))"
  "(\<And>b. r = Inr b \<Longrightarrow> lease_kept k l d (snd (g b d))) \<Longrightarrow> lease_kept k l d (snd (with_result r g d))"
  "lease_kept k l d (snd (f d)) \<Longrightarrow> lease_kept k l d (snd (transact f d))"
  by (auto simp: guarded_def with_result_def transact_def first_failure_None[symmetric]
      split: option.split sum.split prod.split)

lemma run_update_ids [simp]:
  "u_run (take_claim runner token e now r) = u_run r" "u_run (take_source name ref runner token e now r) = u_run r"
  "u_run (finish_run s now r) = u_run r" "u_run (unclaimed r) = u_run r"
  by (simp_all add: take_claim_def take_source_def finish_run_def unclaimed_def)

lemma run_lease_Some: "run_lease r = Some (t, e) \<longleftrightarrow> u_token r = Some t \<and> u_expires r = Some e"
  by (auto simp: run_lease_def split: option.splits)

lemma held_row:
  assumes "runs_ok d" "run_row_of k d = Some r" "run_lease r = Some (t, e)"
  shows "claimed_status (u_status r)"
  using runs_ok_row[OF assms(1)] run_row_of_Some[OF assms(2)] assms(3)
  by (auto simp: run_row_ok_def run_lease_Some)

lemma kept_inserts:
  "lease_kept k l d (snd (reserveWorkflowRun q digest s d))"
  "lease_kept k l d (snd (enqueueWorkflowRun q dg affinity session token lease d))"
  unfolding reserveWorkflowRun_def enqueueWorkflowRun_def
  by (intro kept_guards; simp add: snd_and_then_read kept_insert_run)+

lemma read_claimed:
  "snd ((if b then and_then (requireWorkflowRun k) (\<lambda>r. return_op (Some r)) else return_op None) t) = t"
  by (simp add: snd_and_then_read)

lemma kept_claims:
  assumes ok: "runs_ok d" and before: "\<And>n. date_parse now = Some n \<Longrightarrow> n < e"
  shows "lease_kept k (t, e) d (snd (claimWorkflowRun k' runner token lease now d))"
    and "lease_kept k (t, e) d (snd (claimNextWorkflowRun runner token lease excluded session now d))"
    and "\<not> (k' = k \<and> token = t) \<Longrightarrow>
      lease_kept k (t, e) d (snd (repairCanonicalWorkflowSourceRun k' name ref runner token lease now d))"
    and "\<not> (k' = k \<and> token = t) \<Longrightarrow>
      lease_kept k (t, e) d (snd (claimLegacyWorkflowSourceRun k' name old ref runner token lease now d))"
proof -
  have claim: "lease_kept k (t, e) d (snd (one_change (\<lambda>r. u_run r = k'' \<and> p r) (take_claim runner token x now) d))"
    if "\<And>r. p r \<Longrightarrow> claimed_status (u_status r) \<Longrightarrow> lapsed n r" and "epoch now = Inr n" for p k'' x n
  proof (rule kept_one_change)
    fix r assume r: "run_row_of k d = Some r" "run_lease r = Some (t, e)" "u_run r = k'' \<and> p r"
    have "lapsed n r" using that(1) r(3) held_row[OF ok r(1,2)] by blast
    then have "e \<le> n" using r(2) by (simp add: run_lease_Some lapsed_def)
    then show "run_lease (take_claim runner token x now r) = Some (t, e)"
      using before that(2) by (auto simp: epoch_Inr)
  qed simp
  show "lease_kept k (t, e) d (snd (claimWorkflowRun k' runner token lease now d))"
    unfolding claimWorkflowRun_def
    by (intro kept_guards) (simp add: snd_and_then_read read_claimed, rule claim, auto simp: claimed_status_def)
  show "lease_kept k (t, e) d (snd (claimNextWorkflowRun runner token lease excluded session now d))"
    unfolding claimNextWorkflowRun_def
    by (intro kept_guards)
      (auto simp: snd_and_then_read read_claimed run_claimable_def claimed_status_def split: option.split intro!: claim)
  have source: "lease_kept k (t, e) d (snd (one_change (\<lambda>r. u_run r = k' \<and> \<not> terminal_status (u_status r))
      (take_source name ref runner token x now) d))"
    if "run_row_of k' d = Some row" "repair_claimable token n row" "epoch now = Inr n" "\<not> (k' = k \<and> token = t)"
    for row n x name ref
  proof (rule kept_one_change)
    fix r assume r: "run_row_of k d = Some r" "run_lease r = Some (t, e)" "u_run r = k' \<and> \<not> terminal_status (u_status r)"
    have "k' = k" using r run_row_of_Some[OF r(1)] by simp
    then have "row = r" using that(1) r(1) by simp
    moreover have "claimed_status (u_status r)" by (rule held_row[OF ok r(1,2)])
    ultimately have "e \<le> n"
      using that(2,4) r(2) \<open>k' = k\<close> by (auto simp: repair_claimable_def run_lease_Some lapsed_def claimed_status_def)
    then show "run_lease (take_source name ref runner token x now r) = Some (t, e)"
      using before that(3) by (auto simp: epoch_Inr)
  qed simp
  show "lease_kept k (t, e) d (snd (repairCanonicalWorkflowSourceRun k' name ref runner token lease now d))"
    if "\<not> (k' = k \<and> token = t)"
    unfolding repairCanonicalWorkflowSourceRun_def
    by (intro kept_guards) (use that in \<open>auto simp: snd_and_then_read intro: source split: option.split\<close>)
  show "lease_kept k (t, e) d (snd (claimLegacyWorkflowSourceRun k' name old ref runner token lease now d))"
    if "\<not> (k' = k \<and> token = t)"
    unfolding claimLegacyWorkflowSourceRun_def
    by (intro kept_guards) (use that in \<open>auto intro: source split: option.split\<close>)
qed

lemma kept_updates:
  "lease_kept k (t, e) d (snd (markWorkflowRunRunning k' token now d))"
  "\<not> (k' = k \<and> token = t) \<Longrightarrow> lease_kept k (t, e) d (snd (renewWorkflowRunClaim k' token lease now d))"
  "\<not> (k' = k \<and> token = t) \<Longrightarrow> lease_kept k (t, e) d (snd (parkWorkflowRun k' token now d))"
  "\<not> (k' = k \<and> (tok = None \<or> tok = Some t)) \<Longrightarrow>
    lease_kept k (t, e) d (snd (failWorkflowRun k' tok code message now d))"
  "\<not> (k' = k \<and> (tok = None \<or> tok = Some t)) \<Longrightarrow>
    lease_kept k (t, e) d (snd (cancelWorkflowRun k' tok now d))"
  "\<not> (k' = k \<and> token = t) \<Longrightarrow> lease_kept k (t, e) d (snd (completeWorkflowRun k' token now d))"
  "lease_kept k (t, e) d (snd (setWorkflowRunOriginSession k' session now d))"
  "lease_kept k (t, e) d (snd (clearWorkflowRunOriginSession session now d))"
  unfolding markWorkflowRunRunning_def renewWorkflowRunClaim_def parkWorkflowRun_def failWorkflowRun_def
    cancelWorkflowRun_def completeWorkflowRun_def setWorkflowRunOriginSession_def
    clearWorkflowRunOriginSession_def Let_def
  by (intro kept_guards kept_one_change kept_update_runs;
      auto simp: run_lease_Some claim_filter_def dest!: run_row_of_Some)+

lemma kept_deleteWorkflowRun:
  assumes "\<not> (k' = k \<and> token = t)"
  shows "lease_kept k (t, e) d (snd (deleteWorkflowRun k' token d))"
proof -
  let ?p = "\<lambda>r. u_run r = k' \<and> u_token r = Some token"
  have "run_holder (d\<lparr>runs := sql_delete ?p (runs d)\<rparr>) k = Some (t, e)" if "run_holder d k = Some (t, e)"
  proof -
    obtain r where r: "run_row_of k d = Some r" "run_lease r = Some (t, e)"
      using \<open>run_holder d k = Some (t, e)\<close> by (auto simp: run_holder_def split: option.splits)
    have "\<not> ?p r" using assms r run_row_of_Some[OF r(1)] by (auto simp: run_lease_Some)
    then have "run_row_of k (d\<lparr>runs := sql_delete ?p (runs d)\<rparr>) = Some r"
      using r(1) sql_get_sql_delete[of "\<lambda>r. u_run r = k" "runs d" r ?p] by (simp add: run_row_of_def)
    then show ?thesis using r(2) by (simp add: run_holder_def)
  qed
  then show ?thesis
    unfolding deleteWorkflowRun_def by (intro kept_guards) (simp add: Let_def lease_kept_def)
qed

lemma run_kept_step:
  assumes "runs_ok d" and "run_holder d k = Some (t, e)" and "\<not> touches_run a k t"
    and "\<And>n. run_clock a = Some n \<Longrightarrow> n < e"
  shows "run_holder (run_step a d) k = Some (t, e)"
proof -
  have "lease_kept k (t, e) d (run_step a d)"
    using assms(3,4) kept_claims[OF assms(1)] kept_updates kept_inserts kept_deleteWorkflowRun
    by (cases a) auto
  then show ?thesis using assms(2) by (simp add: lease_kept_def)
qed

section \<open>What a grant gives\<close>

lemma one_change_True:
  assumes "keyed u_run (runs d)" and "one_change (\<lambda>r. u_run r = k \<and> p r) f d = (Inr True, d')"
    and "\<And>r. u_run (f r) = u_run r"
  shows "\<exists>r. run_row_of k d = Some r \<and> p r \<and> run_row_of k d' = Some (f r)"
proof -
  have n: "sql_changes (\<lambda>r. u_run r = k \<and> p r) (runs d) = 1"
    and d': "d' = d\<lparr>runs := sql_update (\<lambda>r. u_run r = k \<and> p r) f (runs d)\<rparr>"
    using assms(2) by (auto simp: one_change_def op_Inr update_runs_def return_op_def Let_def split: if_splits)
  then obtain r where r: "r \<in> set (runs d)" "u_run r = k" "p r"
    using sql_changes_0[of "\<lambda>r. u_run r = k \<and> p r" "runs d"] by auto
  then have "run_row_of k d = Some r" using run_row_of_keyed[OF assms(1) r(1)] by simp
  then show ?thesis using r d' assms(3) by (simp add: run_row_of_def sql_get_sql_update)
qed

lemma require_run_Inr:
  "requireWorkflowRun k d = (Inr rec, d') \<Longrightarrow>
    d' = d \<and> (\<exists>row. run_row_of k d = Some row \<and> workflowRunFromRow row = Inr rec \<and> rn_run rec = k)"
  by (auto simp: requireWorkflowRun_def getWorkflowRun_def op_Inr workflowRunFromRow_def
      dest: run_row_of_Some split: option.splits sum.splits)

text \<open>
  A grant in one picture: the row was free at the act's clock (or its claim was presented), and
  afterwards it is held under the granted token until the granted time.
\<close>

definition free_at :: "int \<Rightarrow> run_row \<Rightarrow> bool" where
  "free_at n r \<longleftrightarrow> \<not> claimed_status (u_status r) \<or> lapsed n r"

definition claim_effect :: "string \<Rightarrow> string \<times> int \<Rightarrow> int \<Rightarrow> (run_row \<Rightarrow> bool) \<Rightarrow> db \<Rightarrow> db \<Rightarrow> bool" where
  "claim_effect k l n presented d d' \<longleftrightarrow> run_holder d' k = Some l \<and>
     (\<forall>r. run_row_of k d = Some r \<longrightarrow> free_at n r \<or> presented r)"

lemma claim_effect_claimed:
  assumes ok: "runs_ok d" and change: "one_change (\<lambda>r. u_run r = k \<and> p r) f d = (Inr True, d')"
    and "\<And>r. u_run (f r) = u_run r" "\<And>r. run_lease (f r) = Some l"
    and "\<And>r. run_row_of k d = Some r \<Longrightarrow> p r \<Longrightarrow> free_at n r \<or> presented r"
  shows "claim_effect k l n presented d d'"
  using one_change_True[OF runs_ok_keyed[OF ok] change assms(3)] assms(4,5)
  by (auto simp: claim_effect_def run_holder_def)

lemma run_lease_taken:
  "run_lease (take_claim runner token x now r) = Some (token, x)"
  "run_lease (take_source name ref runner token x now r) = Some (token, x)"
  by (simp_all add: run_lease_Some take_claim_def take_source_def)

lemma untilD: "until token now lease = Some (t, e) \<Longrightarrow> \<exists>n. date_parse now = Some n \<and> t = token \<and> e = n + lease"
  by (auto simp: until_def)

lemma claim_effect_claimWorkflowRun:
  assumes "runs_ok d" and "claimWorkflowRun k runner token lease now d = (Inr (Some rec), d')"
    and "date_parse now = Some n"
  shows "claim_effect k (token, n + lease) n (\<lambda>r. False) d d'"
proof -
  obtain t where change: "one_change (\<lambda>r. u_run r = k \<and>
      (u_status r \<in> {Queued, Parked} \<or> u_status r = Starting \<and> lapsed n r))
      (take_claim runner token (n + lease) now) d = (Inr True, t)" and "d' = t"
    using assms(2,3)
    by (auto simp: claimWorkflowRun_def op_Inr epoch_Inr return_op_def split: if_splits dest!: require_run_Inr)
  have "claim_effect k (token, n + lease) n (\<lambda>r. False) d t"
    by (rule claim_effect_claimed[OF assms(1) change]) (auto simp: run_lease_taken free_at_def claimed_status_def)
  then show ?thesis using \<open>d' = t\<close> by simp
qed

lemma claim_effect_claimNext:
  assumes "runs_ok d" and "claimNextWorkflowRun runner token lease excluded session now d = (Inr (Some rec), d')"
    and "date_parse now = Some n"
  shows "claim_effect (rn_run rec) (token, n + lease) n (\<lambda>r. False) d d'"
proof -
  obtain candidate :: run_row and t where change: "one_change (\<lambda>r. u_run r = u_run candidate \<and> run_claimable n r)
      (take_claim runner token (n + lease) now) d = (Inr True, t)"
    and "d' = t" "rn_run rec = u_run candidate"
    using assms(2,3)
    by (auto simp: claimNextWorkflowRun_def op_Inr epoch_Inr return_op_def
        split: if_splits option.splits dest!: require_run_Inr)
  have "claim_effect (u_run candidate) (token, n + lease) n (\<lambda>r. False) d t"
    by (rule claim_effect_claimed[OF assms(1) change])
      (auto simp: run_lease_taken free_at_def claimed_status_def run_claimable_def)
  then show ?thesis using \<open>d' = t\<close> \<open>rn_run rec = u_run candidate\<close> by simp
qed

lemma repair_claimable_free:
  "repair_claimable token n r \<Longrightarrow> free_at n r \<or> u_token r = Some token"
  by (auto simp: repair_claimable_def free_at_def claimed_status_def)

lemma claim_effect_repair:
  assumes "runs_ok d"
    and "repairCanonicalWorkflowSourceRun k name ref runner token lease now d = (Inr RepairClaimed, d')"
    and "date_parse now = Some n"
  shows "claim_effect k (token, n + lease) n (\<lambda>r. u_token r = Some token) d d'"
proof -
  obtain row where row: "run_row_of k d = Some row" "repair_claimable token n row"
    and change: "one_change (\<lambda>r. u_run r = k \<and> \<not> terminal_status (u_status r))
      (take_source name ref runner token (n + lease) now) d = (Inr True, d')"
    using assms(2,3)
    by (auto simp: repairCanonicalWorkflowSourceRun_def op_Inr epoch_Inr return_op_def
        split: if_splits option.splits)
  show ?thesis
    by (rule claim_effect_claimed[OF assms(1) change])
      (use row repair_claimable_free[OF row(2)] in \<open>auto simp: run_lease_taken\<close>)
qed

lemma claim_effect_legacy:
  assumes "runs_ok d"
    and "claimLegacyWorkflowSourceRun k name old ref runner token lease now d = (Inr True, d')"
    and "date_parse now = Some n"
  shows "claim_effect k (token, n + lease) n (\<lambda>r. u_token r = Some token) d d'"
proof -
  obtain row where row: "run_row_of k d = Some row" "repair_claimable token n row"
    and change: "one_change (\<lambda>r. u_run r = k \<and> \<not> terminal_status (u_status r))
      (take_source name ref runner token (n + lease) now) d = (Inr True, d')"
    using assms(2,3)
    by (auto simp: claimLegacyWorkflowSourceRun_def op_Inr epoch_Inr split: if_splits option.splits)
  show ?thesis
    by (rule claim_effect_claimed[OF assms(1) change])
      (use row repair_claimable_free[OF row(2)] in \<open>auto simp: run_lease_taken\<close>)
qed

lemma claim_effect_enqueue:
  assumes "runs_ok d" and "enqueueWorkflowRun q digest affinity session token lease d = (Inr rec, d')"
    and "date_parse (o_now q) = Some n"
  shows "run_holder d' (o_run q) = Some (token, n + lease) \<and> run_row_of (o_run q) d = None"
proof -
  obtain row t where insert: "insert_run row d = (Inr (), t)" and t: "requireWorkflowRun (o_run q) t = (Inr rec, d')"
    and row: "u_run row = o_run q" "run_lease row = Some (token, n + lease)"
    using assms(2,3) by (auto simp: enqueueWorkflowRun_def op_Inr epoch_Inr run_lease_Some)
  have d': "d' = d\<lparr>runs := runs d @ [row]\<rparr>" and "run_constraints (runs d @ [row])"
    using insert require_run_Inr[OF t] by (auto simp: insert_run_def split: if_splits)
  then have "run_row_of (o_run q) d = None"
    using row(1) by (auto simp: run_constraints_def keyed_append run_row_of_def sql_get_None image_iff)
  then show ?thesis
    using row unfolding d' run_holder_def run_row_of_def
    by (simp add: sql_get_append) (simp add: sql_get_def)
qed

lemma run_grant_effect:
  assumes ok: "runs_ok d" and grant: "run_grants a d k = Some (t, e)"
  shows "run_holder (run_step a d) k = Some (t, e) \<and> (\<forall>r. run_row_of k d = Some r \<longrightarrow>
    touches_run a k (the (u_token r)) \<or> \<not> claimed_status (u_status r) \<or>
    (\<exists>n. run_clock a = Some n \<and> lapsed n r))"
proof (cases a)
  case (EnqueueRun q digest affinity session token lease)
  then obtain rec n where claim: "enqueueWorkflowRun q digest affinity session token lease d = (Inr rec, run_step a d)"
    and n: "o_run q = k" "date_parse (o_now q) = Some n" "t = token" "e = n + lease"
    using grant by (auto simp: until_def prod_eq_iff split: sum.splits if_splits)
  then show ?thesis using claim_effect_enqueue[OF ok claim n(2)] by simp
next
  case (ClaimRun k' runner token lease now)
  then obtain rec n where claim: "claimWorkflowRun k runner token lease now d = (Inr (Some rec), run_step a d)"
    and n: "k' = k" "date_parse now = Some n" "t = token" "e = n + lease"
    using grant by (auto simp: until_def prod_eq_iff split: sum.splits option.splits if_splits)
  then show ?thesis
    using claim_effect_claimWorkflowRun[OF ok claim n(2)] ClaimRun by (auto simp: claim_effect_def free_at_def)
next
  case (ClaimNextRun runner token lease excluded session now)
  then obtain rec n where claim: "claimNextWorkflowRun runner token lease excluded session now d = (Inr (Some rec), run_step a d)"
    and n: "rn_run rec = k" "date_parse now = Some n" "t = token" "e = n + lease"
    using grant by (auto simp: until_def prod_eq_iff split: sum.splits option.splits if_splits)
  then show ?thesis
    using claim_effect_claimNext[OF ok claim n(2)] ClaimNextRun by (auto simp: claim_effect_def free_at_def)
next
  case (RepairRun k' name ref runner token lease now)
  then obtain n where claim: "repairCanonicalWorkflowSourceRun k name ref runner token lease now d = (Inr RepairClaimed, run_step a d)"
    and n: "k' = k" "date_parse now = Some n" "t = token" "e = n + lease"
    using grant by (auto simp: until_def prod_eq_iff split: sum.splits repair_outcome.splits if_splits)
  then show ?thesis
    using claim_effect_repair[OF ok claim n(2)] RepairRun by (auto simp: claim_effect_def free_at_def)
next
  case (ClaimLegacyRun k' name old ref runner token lease now)
  then obtain n where claim: "claimLegacyWorkflowSourceRun k name old ref runner token lease now d = (Inr True, run_step a d)"
    and n: "k' = k" "date_parse now = Some n" "t = token" "e = n + lease"
    using grant by (auto simp: until_def prod_eq_iff split: sum.splits bool.splits if_splits)
  then show ?thesis
    using claim_effect_legacy[OF ok claim n(2)] ClaimLegacyRun by (auto simp: claim_effect_def free_at_def)
qed (use grant in simp_all)

interpretation runs: lease_table runs_ok run_act_ok run_step run_holder run_clock touches_run run_grants
proof
  fix d a assume "runs_ok d" "run_act_ok a"
  then show "runs_ok (run_step a d)" by (rule runs_ok_step)
next
  fix d a k t e assume "runs_ok d" "run_grants a d k = Some (t, e)"
  then show "run_holder (run_step a d) k = Some (t, e)" using run_grant_effect by blast
next
  fix d k t e a
  assume "runs_ok d" "run_holder d k = Some (t, e)" "\<not> touches_run a k t" "\<And>n. run_clock a = Some n \<Longrightarrow> n < e"
  then show "run_holder (run_step a d) k = Some (t, e)" by (rule run_kept_step)
next
  fix d k t e a
  assume ok: "runs_ok d" and held: "run_holder d k = Some (t, e)" and other: "\<not> touches_run a k t"
    and "run_grants a d k \<noteq> None"
  then obtain l where "run_grants a d k = Some l" by auto
  then have effect: "\<forall>r. run_row_of k d = Some r \<longrightarrow> touches_run a k (the (u_token r)) \<or>
      \<not> claimed_status (u_status r) \<or> (\<exists>n. run_clock a = Some n \<and> lapsed n r)"
    using run_grant_effect[OF ok, of a k "fst l" "snd l"] by simp
  obtain r where r: "run_row_of k d = Some r" "run_lease r = Some (t, e)"
    using held by (cases "run_row_of k d") (auto simp: run_holder_def)
  then obtain n where "run_clock a = Some n" "lapsed n r"
    using effect other held_row[OF ok r] by (auto simp: run_lease_Some)
  then show "\<exists>n. run_clock a = Some n \<and> e \<le> n" using r(2) by (auto simp: run_lease_Some lapsed_def)
qed

section \<open>Properties of the lease\<close>

lemma run_history_eq: "run_history as d = runs.run as d"
  by (induction as arbitrary: d) (simp_all add: run_history_def)

text \<open>An act that leaves the claim on run \<open>k\<close> under token \<open>t\<close>, running until \<open>e\<close>, alone.\<close>

definition leaves_run :: "string \<Rightarrow> string \<Rightarrow> int \<Rightarrow> run_act \<Rightarrow> bool" where
  "leaves_run k t e a \<longleftrightarrow> run_act_ok a \<and> \<not> touches_run a k t \<and>
     (case run_clock a of None \<Rightarrow> True | Some n \<Rightarrow> n < e)"

lemma leaves_run_quiet: "leaves_run k t e = runs.quiet k t e"
  by (rule ext) (auto simp: leaves_run_def runs.quiet_def split: option.splits)

lemma requireWorkflowRun_total:
  assumes "runs_ok d" "run_row_of k d = Some row" "u_expires row = Some e" "iso e = Inr x"
  shows "\<exists>rec. requireWorkflowRun k d = (Inr rec, d)"
proof -
  have "run_row_ok row" "u_run row = k" using runs_ok_row[OF assms(1)] run_row_of_Some[OF assms(2)] by auto
  then show ?thesis
    using assms(2-4)
    by (auto simp: run_row_ok_def requireWorkflowRun_def getWorkflowRun_def and_then_def guarded_pass
        validateRunId_def workflowRunFromRow_def iso_opt_def)
qed

text \<open>
  C1: One runner per run.  After any operation granted a claim on a run (enqueue, claim, claim
  next, source repair or legacy repair), no sequence of operations that do not speak for that
  claim lets another claiming operation, with a clock before the lease's expiry and a different
  token, be granted the same run.
\<close>

theorem run_claim_exclusive:
  assumes "runs_ok d" and "run_act_ok a" and "run_grants a d k = Some (t, e)"
    and "list_all (leaves_run k t e) as" and "leaves_run k t e b"
  shows "run_grants b (run_history as (run_step a d)) k = None"
proof -
  have "run_grants b (runs.run (a # as) d) k = None"
    by (rule runs.exclusive[OF assms(1-3)])
      (use assms(4,5) in \<open>auto simp: leaves_run_quiet runs.quiet_def\<close>)
  then show ?thesis by (simp add: run_history_eq)
qed

lemma parked_claimed:
  "\<exists>rec. claimWorkflowRun ''a'' ''host'' ''t'' 5000 ''1970-01-01T00:00:01.000Z'' parked_db = (Inr (Some rec), claimed_run_db)"
proof -
  have change: "one_change (\<lambda>r. u_run r = ''a'' \<and> (u_status r \<in> {Queued, Parked} \<or> u_status r = Starting \<and> lapsed 1000 r))
      (take_claim ''host'' ''t'' 6000 ''1970-01-01T00:00:01.000Z'') parked_db = (Inr True, claimed_run_db)"
    by (simp add: one_change_def update_runs_def and_then_def return_op_def store_eval run_constraints_def
        keyed_def reserving_def take_claim_def parked_db_def claimed_run_db_def plain_run_def)
  have row: "run_row_of ''a'' claimed_run_db = Some (take_claim ''host'' ''t'' 6000 ''1970-01-01T00:00:01.000Z''
      (plain_run ''a'' Parked None ''1970-01-01T00:00:00.000Z''))"
    by (simp add: run_row_of_def sql_get_def claimed_run_db_def plain_run_def take_claim_def)
  have "iso 6000 = Inr ''1970-01-01T00:00:06.000Z''" by (simp add: iso_def sample_iso)
  moreover have "u_expires (take_claim ''host'' ''t'' 6000 ''1970-01-01T00:00:01.000Z''
      (plain_run ''a'' Parked None ''1970-01-01T00:00:00.000Z'')) = Some 6000" by (simp add: take_claim_def)
  ultimately obtain rec where "requireWorkflowRun ''a'' claimed_run_db = (Inr rec, claimed_run_db)"
    using requireWorkflowRun_total[OF claimed_run_db_ok row] by blast
  then show ?thesis
    using change run_id_a
    by (simp add: claimWorkflowRun_def guarded_def with_result_def validator_defs valid_key_def MAX_KEY_LENGTH_def
        MAX_SAFE_INTEGER_def char_class_defs epoch_def sample_times and_then_def return_op_def)
qed

theorem run_claim_exclusive_witness:
  "run_grants (ClaimNextRun ''other'' ''u'' 1000 [] None ''1970-01-01T00:00:02.000Z'')
    (run_history [] (run_step (ClaimRun ''a'' ''host'' ''t'' 5000 ''1970-01-01T00:00:01.000Z'') parked_db)) ''a'' = None"
proof (rule run_claim_exclusive[OF parked_db_ok])
  show "run_grants (ClaimRun ''a'' ''host'' ''t'' 5000 ''1970-01-01T00:00:01.000Z'') parked_db ''a'' = Some (''t'', 6000)"
    using parked_claimed by (auto simp: until_def sample_times)
  show "leaves_run ''a'' ''t'' 6000 (ClaimNextRun ''other'' ''u'' 1000 [] None ''1970-01-01T00:00:02.000Z'')"
    by (simp add: leaves_run_def sample_times)
qed simp_all

lemma one_change_none:
  assumes "runs_ok d" and "\<forall>r \<in> set (runs d). \<not> p r"
  shows "one_change p f d = (Inr False, d)"
proof -
  have "sql_changes p (runs d) = 0" using assms(2) by (simp add: sql_changes_0)
  then show ?thesis
    using assms(1) sql_update_none[of p "runs d" f]
    by (simp add: one_change_def update_runs_def and_then_def return_op_def runs_ok_def)
qed

text \<open>
  C10: The fence.  A process that lost its claim (its token is not the one on the row) can do nothing
  to the run: the fence check says no, and renewing, starting, parking, completing, failing,
  cancelling or deleting with the old token reports failure and leaves the store unchanged.
\<close>

theorem lost_claim_is_fenced:
  assumes "runs_ok d" and "\<forall>r. run_row_of k d = Some r \<longrightarrow> u_token r \<noteq> Some t"
    and "run_id_pattern k" and "epoch now = Inr n" and "0 < lease" and "lease \<le> MAX_SAFE_INTEGER"
    and "valid_key code" and "trim message \<noteq> []" and "utf8_length (trim message) \<le> 2048"
  shows "verifyWorkflowRunClaim k t now d = (Inr False, d) \<and>
    renewWorkflowRunClaim k t lease now d = (Inr False, d) \<and>
    markWorkflowRunRunning k t now d = (Inr False, d) \<and>
    parkWorkflowRun k t now d = (Inr False, d) \<and>
    completeWorkflowRun k t now d = (Inr False, d) \<and>
    failWorkflowRun k (Some t) code message now d = (Inr False, d) \<and>
    cancelWorkflowRun k (Some t) now d = (Inr False, d) \<and>
    deleteWorkflowRun k t d = (Inr False, d)"
proof -
  have none: "\<forall>r \<in> set (runs d). \<not> (u_run r = k \<and> u_token r = Some t)"
    using assms(2) run_row_of_keyed[OF runs_ok_keyed[OF assms(1)]] by auto
  then have none': "\<forall>r \<in> set (runs d). \<not> (u_run r = k \<and> P r \<and> claim_filter (Some t) r)"
    "\<forall>r \<in> set (runs d). \<not> (u_run r = k \<and> u_token r = Some t \<and> P r)" for P
    by (auto simp: claim_filter_def)
  have delete: "sql_changes (\<lambda>r. u_run r = k \<and> u_token r = Some t) (runs d) = 0"
      "sql_delete (\<lambda>r. u_run r = k \<and> u_token r = Some t) (runs d) = runs d"
    using none by (simp_all add: sql_changes_0 sql_delete_def filter_id_conv)
  have valid: "fst (validTimestamp now)" "fst (validateRunId k)"
    using assms(3,4) by (auto simp: validTimestamp_def validateRunId_def epoch_Inr)
  have verify: "sql_get (\<lambda>r. u_run r = k \<and> u_token r = Some t \<and> claimed_status (u_status r) \<and> unlapsed n r) (runs d) = None"
    unfolding sql_get_None by (rule none'(2))
  note defs = guarded_pass valid with_result_def assms(4)
  have "verifyWorkflowRunClaim k t now d = (Inr False, d)"
    by (simp add: verifyWorkflowRunClaim_def defs verify)
  moreover have "renewWorkflowRunClaim k t lease now d = (Inr False, d)"
    using one_change_none[OF assms(1) none'(2)] assms(5,6)
    by (simp add: renewWorkflowRunClaim_def defs validateDuration_def)
  moreover have "markWorkflowRunRunning k t now d = (Inr False, d)"
    using one_change_none[OF assms(1) none'(2)] by (simp add: markWorkflowRunRunning_def defs)
  moreover have "parkWorkflowRun k t now d = (Inr False, d)" "completeWorkflowRun k t now d = (Inr False, d)"
    using one_change_none[OF assms(1) none'(2)] by (simp_all add: parkWorkflowRun_def completeWorkflowRun_def defs)
  moreover have "failWorkflowRun k (Some t) code message now d = (Inr False, d)"
    using one_change_none[OF assms(1) none'(1)] assms(7-9)
    by (simp add: failWorkflowRun_def Let_def defs validateKey_def)
  moreover have "cancelWorkflowRun k (Some t) now d = (Inr False, d)"
    using one_change_none[OF assms(1) none'(1)] by (simp add: cancelWorkflowRun_def defs)
  moreover have "deleteWorkflowRun k t d = (Inr False, d)"
    by (simp add: deleteWorkflowRun_def defs delete Let_def)
  ultimately show ?thesis by blast
qed

theorem lost_claim_is_fenced_witness:
  "verifyWorkflowRunClaim ''a'' ''t'' ''1970-01-01T00:00:01.000Z'' parked_db = (Inr False, parked_db)"
  using lost_claim_is_fenced[OF parked_db_ok _ run_id_a, of "''t''" "''1970-01-01T00:00:01.000Z''" 1000 1 "''code''" "''message''"]
  by (simp add: run_row_of_def sql_get_def parked_db_def plain_run_def epoch_def sample_times MAX_SAFE_INTEGER_def
      valid_key_def MAX_KEY_LENGTH_def char_class_defs utf8_length_def sample_trim)

section \<open>Handing a parked run on\<close>

lemma keyed_filter_iff:
  "keyed u_run rs \<Longrightarrow> keyed k (filter P rs) \<longleftrightarrow>
    (\<forall>r \<in> set rs. \<forall>q \<in> set rs. P r \<and> P q \<and> k r = k q \<longrightarrow> r = q)"
proof -
  assume "keyed u_run rs"
  then have "distinct (filter P rs)" by (auto simp: keyed_def distinct_map)
  then show ?thesis by (auto simp: keyed_def distinct_map inj_on_def)
qed

text \<open>A claim respects the indexes when no other live run has the candidate's session.\<close>

lemma run_constraints_claim:
  assumes ok: "run_constraints rs" and c: "c \<in> set rs" and p: "\<And>r. r \<in> set rs \<Longrightarrow> p r \<longleftrightarrow> r = c"
    and free: "\<And>q. q \<in> set rs \<Longrightarrow> live_status (u_status q) \<Longrightarrow> u_origin c \<noteq> None \<Longrightarrow> u_origin q = u_origin c \<Longrightarrow> q = c"
  shows "run_constraints (sql_update p (take_claim runner token e now) rs)"
proof -
  let ?f = "take_claim runner token e now"
  let ?rs = "sql_update p ?f rs"
  have upd: "?rs = map (\<lambda>r. if r = c then ?f r else r) rs"
    unfolding sql_update_def by (rule map_cong[OF refl]) (simp add: p)
  have keys: "keyed u_run ?rs" using ok by (auto simp: run_constraints_def intro: keyed_sql_update)
  have set: "set ?rs = insert (?f c) (set rs - {c})" unfolding upd using c by auto
  have same: "u_origin (?f c) = u_origin c" "u_parent (?f c) = u_parent c" by (simp_all add: take_claim_def)
  have "keyed u_origin (filter reserving ?rs)"
    unfolding keyed_filter_iff[OF keys] set
    using ok free same unfolding run_constraints_def reserving_def
    by (auto simp: keyed_filter_iff)
  moreover have "keyed u_parent (filter (\<lambda>r. u_parent r \<noteq> None) ?rs)"
    unfolding keyed_filter_iff[OF keys] set
    using ok c same unfolding run_constraints_def
    by (auto simp: keyed_filter_iff)
  ultimately show ?thesis using keys by (simp add: run_constraints_def)
qed


text \<open>
  C12: No run is stranded.  A run is a candidate for a claiming host when it is parked, when it is
  queued and the host speaks for a session, or when its runner's lease has lapsed (a lapsed run that
  only started needs a host that speaks for its session, or no session of its own); it must not be
  excluded by the caller, and it must have no session or the session the host speaks for, if it
  speaks for one.  Whenever there is a candidate, a host that asks is handed a candidate, claimed by
  it with a lease from its clock.  The exception is the premise about the oldest candidate: when that
  one is parked and its session meanwhile has another live run, the claim breaks the uniqueness of
  live runs per session and throws.
\<close>

theorem lapsed_runs_are_claimable:
  assumes "runs_ok d" and "r \<in> set (runs d)" and "run_candidate n excluded session r"
    and "\<And>c q. sql_first (run_candidate n excluded session) (run_order runner) (runs d) = Some c \<Longrightarrow>
      u_status c = Parked \<Longrightarrow> u_origin c \<noteq> None \<Longrightarrow> q \<in> set (runs d) \<Longrightarrow> live_status (u_status q) \<Longrightarrow> u_origin q \<noteq> u_origin c"
    and "valid_key runner" and "valid_key token" and "0 < lease" and "lease \<le> MAX_SAFE_INTEGER"
    and "epoch now = Inr n" and "iso (n + lease) = Inr x"
    and "list_all run_id_pattern excluded" and "session = None \<or> valid_key (the session)"
  shows "\<exists>rec d' c. claimNextWorkflowRun runner token lease excluded session now d = (Inr (Some rec), d') \<and>
    run_holder d' (rn_run rec) = Some (token, n + lease) \<and>
    c \<in> set (runs d) \<and> run_candidate n excluded session c \<and> rn_run rec = u_run c"
proof -
  obtain c where first: "sql_first (run_candidate n excluded session) (run_order runner) (runs d) = Some c"
    using assms(2,3) sql_first_None[of "run_candidate n excluded session" "run_order runner" "runs d"] by fastforce
  note cand = sql_first_Some(1,2)[OF first]
  have keys: "keyed u_run (runs d)" by (rule runs_ok_keyed[OF assms(1)])
  let ?p = "\<lambda>r. u_run r = u_run c \<and> run_claimable n r"
  let ?f = "take_claim runner token (n + lease) now"
  let ?d = "d\<lparr>runs := sql_update ?p ?f (runs d)\<rparr>"
  have only: "?p q \<longleftrightarrow> q = c" if "q \<in> set (runs d)" for q
    using keyed_unique[OF keys that cand(1)] cand(2) by (auto simp: run_candidate_def)
  have free: "q = c" if q: "q \<in> set (runs d)" "live_status (u_status q)" "u_origin c \<noteq> None" "u_origin q = u_origin c" for q
  proof (cases "u_status c = Parked")
    case True
    then show ?thesis using assms(4)[OF first True q(3) q(1,2)] q(4) by simp
  next
    case False
    then have "live_status (u_status c)"
      using cand(2) by (auto simp: run_candidate_def run_claimable_def claimed_status_def live_status_def)
    then show ?thesis
      using keyed_unique[of u_origin "filter reserving (runs d)" q c] assms(1) q cand(1)
      by (simp add: runs_ok_def run_constraints_def reserving_def)
  qed
  have con: "run_constraints (sql_update ?p ?f (runs d))"
    by (rule run_constraints_claim[OF _ cand(1) only free]) (use assms(1) in \<open>simp_all add: runs_ok_def\<close>)
  have "sql_changes ?p (runs d) = 1"
    using sql_changes_eq_1[OF keys, of ?p "u_run c"] cand by (auto simp: run_candidate_def)
  then have change: "one_change ?p ?f d = (Inr True, ?d)"
    using con by (simp add: one_change_def update_runs_def and_then_def return_op_def Let_def)
  have ok: "runs_ok ?d"
  proof -
    have "preserves runs_ok (one_change ?p ?f)"
      by (intro preserves_one_change run_row_ok_updates) (auto simp: run_claimable_def status_defs)
    then have "runs_ok (snd (one_change ?p ?f d))" using assms(1) by (rule preservesD)
    then show ?thesis unfolding change by simp
  qed
  have row: "run_row_of (u_run c) ?d = Some (?f c)"
    using run_row_of_keyed[OF keys cand(1)] cand(2)
    by (simp add: run_row_of_def sql_get_sql_update run_candidate_def)
  have "u_expires (?f c) = Some (n + lease)" by (simp add: take_claim_def)
  then obtain rec where rec: "requireWorkflowRun (u_run c) ?d = (Inr rec, ?d)"
    using requireWorkflowRun_total[OF ok row _ assms(10)] by blast
  have "fst (validTimestamp now)" using assms(9) by (auto simp: epoch_Inr validTimestamp_def)
  then have "claimNextWorkflowRun runner token lease excluded session now d = (Inr (Some rec), ?d)"
    using first change rec assms(5-9,11,12)
    by (cases session) (simp_all add: claimNextWorkflowRun_def guarded_pass with_result_def transact_def validateKey_def
        validateDuration_def and_then_def return_op_def list_all_iff validateRunId_def)
  moreover have "run_holder ?d (rn_run rec) = Some (token, n + lease)"
    using row require_run_Inr[OF rec] by (auto simp: run_holder_def run_lease_taken)
  moreover have "rn_run rec = u_run c" using require_run_Inr[OF rec] row by auto
  ultimately show ?thesis using cand by blast
qed

theorem lapsed_runs_are_claimable_witness:
  "\<exists>rec d' c. claimNextWorkflowRun ''host'' ''t'' 5000 [] None ''1970-01-01T00:00:01.000Z'' parked_db = (Inr (Some rec), d') \<and>
    run_holder d' (rn_run rec) = Some (''t'', 1000 + 5000) \<and>
    c \<in> set (runs parked_db) \<and> run_candidate 1000 [] None c \<and> rn_run rec = u_run c"
  by (rule lapsed_runs_are_claimable[OF parked_db_ok, of "plain_run ''a'' Parked None ''1970-01-01T00:00:00.000Z''"])
    (simp_all add: parked_db_def plain_run_def run_candidate_def run_claimable_def session_filter_def live_status_def valid_key_def MAX_KEY_LENGTH_def char_class_defs
      MAX_SAFE_INTEGER_def epoch_def sample_times iso_def sample_iso)

text \<open>
  A store in which one session has a parked run and, later, a running one, while a third run of
  nobody's session is parked too.
\<close>

definition blocked_db :: db where
  "blocked_db = empty_db\<lparr>runs :=
     [plain_run ''a'' Parked (Some ''s'') ''2026-01-01T00:00:00.000Z'',
      (plain_run ''b'' Running (Some ''s'') ''2026-01-02T00:00:00.000Z'')
        \<lparr>u_runner := Some ''r'', u_token := Some ''t'', u_expires := Some 4000000000000\<rparr>,
      plain_run ''c'' Parked None ''2026-01-03T00:00:00.000Z'']\<rparr>"

lemma blocked_db_ok: "runs_ok blocked_db"
proof -
  have "run_id_pattern ''a''" "run_id_pattern ''b''" "run_id_pattern ''c''" by code_simp+
  then show ?thesis
    by (auto simp: blocked_db_def plain_run_def runs_ok_def run_constraints_def run_row_ok_def
        status_defs reserving_def keyed_def stored_erased)
qed

lemmas claim_run_eval = claimNextWorkflowRun_def guarded_def with_result_def epoch_def validator_defs
  valid_key_def MAX_KEY_LENGTH_def MAX_SAFE_INTEGER_def char_class_defs transact_def sql_first_def
  sql_all_def run_candidate_def run_claimable_def session_filter_def claimed_status_def run_order_def
  lapsed_def one_change_def update_runs_def and_then_def sql_update_def run_constraints_def keyed_def
  reserving_def live_status_def take_claim_def Let_def

text \<open>
  A parked run of a busy session blocks the queue.  In this well-formed store the parked run
  ''c'' is free for anyone, yet a detached host that asks for work gets a thrown uniqueness
  violation, because the oldest candidate ''a'' is parked while its session already has a live run;
  the store is left unchanged, so every further call fails in the same way.
\<close>

theorem busy_session_blocks_claims:
  "runs_ok blocked_db \<and>
   (\<exists>r \<in> set (runs blocked_db). run_candidate 1767571200000 [] None r \<and> u_origin r = None) \<and>
   claimNextWorkflowRun ''host'' ''t2'' 1000 [] None ''2026-01-05T00:00:00.000Z'' blocked_db =
     (Inl (SqlConstraint ''workflow_run_queue''), blocked_db)"
proof -
  have t: "date_parse ''2026-01-05T00:00:00.000Z'' = Some 1767571200000" by (simp add: date_parse_eval)
  have "claimNextWorkflowRun ''host'' ''t2'' 1000 [] None ''2026-01-05T00:00:00.000Z'' blocked_db =
     (Inl (SqlConstraint ''workflow_run_queue''), blocked_db)"
    by (simp add: claim_run_eval t blocked_db_def plain_run_def)
  then show ?thesis
    using blocked_db_ok
    by (simp add: blocked_db_def plain_run_def run_candidate_def run_claimable_def session_filter_def)
qed

end
