(* ===== verification/EventStore.thy ===== *)
theory EventStore
  imports StoreSchema
begin

text \<open>
  The two append-only feeds of the store (src/controllers/sqlite.ts): controller events
  (\<open>recordEvent\<close>, \<open>listEvents\<close>) and run lifecycle events (\<open>recordRunEvent\<close>,
  \<open>listRunEventsAfter\<close>).  Sequence numbers come from \<open>AUTOINCREMENT\<close>: the next one is above every
  number ever given out.
\<close>

record controller_event =
  ce_seq :: nat
  ce_at :: string
  ce_controller :: string
  ce_key :: string
  ce_type :: string
  ce_payload :: jv

definition eventFromRow :: "event_row \<Rightarrow> (store_error, controller_event) result" where
  "eventFromRow row = (case stored_json (ev_payload row) ''controller event payload'' of
     Inl e \<Rightarrow> Inl e
   | Inr payload \<Rightarrow> Inr \<lparr>ce_seq = ev_seq row, ce_at = ev_at row, ce_controller = ev_controller row,
       ce_key = ev_key row, ce_type = ev_type row, ce_payload = payload\<rparr>)"

definition requireEvent :: "nat \<Rightarrow> controller_event store_op" where
  "requireEvent seq d = (case sql_get (\<lambda>r. ev_seq r = seq) (events d) of
     None \<Rightarrow> (Inl (EventNotFound seq), d)
   | Some row \<Rightarrow> (eventFromRow row, d))"

definition recordEvent ::
    "string \<Rightarrow> string \<Rightarrow> string \<Rightarrow> jv option \<Rightarrow> string \<Rightarrow> controller_event store_op" where
  "recordEvent controller key type payload now =
     guarded [validateName controller ''controller'', validateKey key ''resource key'',
         validateName type ''event type'', validTimestamp now]
      (with_result (json_column (case payload of None \<Rightarrow> JObj [] | Some p \<Rightarrow> p) ''controller event payload'')
        (\<lambda>payloadJson. guarded [validateJsonSize payloadJson ''Controller event payload'' MAX_EVENT_BYTES]
          (\<lambda>d. let seq = last_event d + 1 in
            requireEvent seq (d\<lparr>last_event := seq, events := events d @ [\<lparr>ev_seq = seq, ev_at = now,
              ev_controller = controller, ev_key = key, ev_type = type, ev_payload = payloadJson\<rparr>]\<rparr>))))"

definition listEvents ::
    "string option \<Rightarrow> string option \<Rightarrow> int option \<Rightarrow> db \<Rightarrow> (store_error, controller_event list) result" where
  "listEvents controller key lim d =
     (let limit = (case lim of None \<Rightarrow> 100 | Some n \<Rightarrow> n) in
      if limit \<le> 0 \<or> 10000 < limit then Inl BadLimit
      else seq_items (map eventFromRow (take (nat limit) (rev (sql_all
        (\<lambda>r. (case controller of None \<Rightarrow> True | Some c \<Rightarrow> ev_controller r = c) \<and>
             (case key of None \<Rightarrow> True | Some k \<Rightarrow> ev_key r = k)) ev_seq (events d))))))"

record run_event =
  ru_seq :: nat
  ru_at :: string
  ru_run :: string
  ru_ref :: string
  ru_type :: string
  ru_runner :: "string option"
  ru_payload :: jv

definition recordRunEvent ::
    "string \<Rightarrow> string \<Rightarrow> string \<Rightarrow> string option \<Rightarrow> jv option \<Rightarrow> string \<Rightarrow> nat store_op" where
  "recordRunEvent runId ref type runner payload now =
     guarded [validateRunId runId, validateKey type ''run event type'']
      (with_result (json_column (case payload of None \<Rightarrow> JObj [] | Some p \<Rightarrow> p) ''run event payload'')
        (\<lambda>payloadJson. guarded [validateJsonSize payloadJson ''Run event payload'' MAX_EVENT_BYTES,
            validTimestamp now]
          (\<lambda>d. let seq = last_run_event d + 1 in
            (Inr seq, d\<lparr>last_run_event := seq, run_events := run_events d @ [\<lparr>re_seq = seq, re_at = now,
              re_run = runId, re_ref = ref, re_type = type, re_runner = runner, re_payload = payloadJson\<rparr>]\<rparr>))))"

definition run_event_of_row :: "run_event_row \<Rightarrow> (store_error, run_event) result" where
  "run_event_of_row row = (case stored_json (re_payload row) ''run event payload'' of
     Inl e \<Rightarrow> Inl e
   | Inr payload \<Rightarrow> Inr \<lparr>ru_seq = re_seq row, ru_at = re_at row, ru_run = re_run row,
       ru_ref = re_ref row, ru_type = re_type row, ru_runner = re_runner row, ru_payload = payload\<rparr>)"

text \<open>\<open>LIMIT\<close> with a negative number is no limit.\<close>

definition sql_limit :: "int \<Rightarrow> 'a list \<Rightarrow> 'a list" where
  "sql_limit n xs = (if n < 0 then xs else take (nat n) xs)"

definition listRunEventsAfter :: "int \<Rightarrow> int option \<Rightarrow> db \<Rightarrow> (store_error, run_event list) result" where
  "listRunEventsAfter seq lim d =
     (if seq < 0 then Inl BadIndex
      else seq_items (map run_event_of_row (sql_limit (case lim of None \<Rightarrow> 50 | Some n \<Rightarrow> n)
        (sql_all (\<lambda>r. seq < int (re_seq r)) re_seq (run_events d)))))"

section \<open>The feed is ordered and complete\<close>

definition feed_ok :: "db \<Rightarrow> bool" where
  "feed_ok d \<longleftrightarrow> sorted_wrt (\<lambda>a b. re_seq a < re_seq b) (run_events d) \<and>
     (\<forall>r \<in> set (run_events d). re_seq r \<le> last_run_event d \<and> (\<exists>e. run_event_of_row r = Inr e))"

lemma feed_sorted:
  "feed_ok d \<Longrightarrow> sql_all p re_seq (run_events d) = filter p (run_events d)"
proof -
  assume "feed_ok d"
  then have "sorted_wrt (\<lambda>a b. re_seq a < re_seq b) (filter p (run_events d))"
    by (simp add: feed_ok_def sorted_wrt_filter)
  then have "sorted_wrt (\<lambda>a b. re_seq a \<le> re_seq b) (filter p (run_events d))"
    by (rule sorted_wrt_mono_rel[rotated]) simp
  then show ?thesis unfolding sql_all_def by (intro sort_key_id_if_sorted) (simp add: sorted_map)
qed

lemma recordRunEvent_Inr:
  assumes "recordRunEvent k ref type runner payload now d = (Inr seq, d')"
  obtains t where "json_column (case payload of None \<Rightarrow> JObj [] | Some p \<Rightarrow> p) ''run event payload'' = Inr t"
    and "seq = last_run_event d + 1"
    and "d' = d\<lparr>last_run_event := seq, run_events := run_events d @ [\<lparr>re_seq = seq, re_at = now,
      re_run = k, re_ref = ref, re_type = type, re_runner = runner, re_payload = t\<rparr>]\<rparr>"
  using assms by (auto simp: recordRunEvent_def op_Inr Let_def)

lemma feed_ok_record:
  assumes "feed_ok d" and "wf_js (case payload of None \<Rightarrow> JObj [] | Some p \<Rightarrow> p)"
    and "recordRunEvent k ref type runner payload now d = (Inr seq, d')"
  shows "feed_ok d'"
  using assms(3)
proof (rule recordRunEvent_Inr)
  fix t
  assume t: "json_column (case payload of None \<Rightarrow> JObj [] | Some p \<Rightarrow> p) ''run event payload'' = Inr t"
    and seq: "seq = last_run_event d + 1"
    and d': "d' = d\<lparr>last_run_event := seq, run_events := run_events d @ [\<lparr>re_seq = seq, re_at = now,
      re_run = k, re_ref = ref, re_type = type, re_runner = runner, re_payload = t\<rparr>]\<rparr>"
  have "\<exists>v. stored_json t ''run event payload'' = Inr v" by (rule json_column_reads_back[OF assms(2) t])
  then show ?thesis
    using assms(1) unfolding d' seq feed_ok_def
    by (auto simp: sorted_wrt_append run_event_of_row_def le_Suc_eq dest: le_less_trans)
qed

text \<open>
  Watching the run feed misses nothing.  When a run event is recorded, a watcher that had read
  up to any earlier watermark and asks again, with a limit beyond the size of the feed, gets exactly the events it would have
  got before plus the new one, last; and a watcher whose watermark is the new number gets nothing.
\<close>

theorem run_feed_complete:
  assumes "feed_ok d" and "wf_js (case payload of None \<Rightarrow> JObj [] | Some p \<Rightarrow> p)"
    and "recordRunEvent k ref type runner payload now d = (Inr seq, d')"
    and "0 \<le> mark" and "mark < int seq"
    and "int (length (run_events d)) < lim"
  shows "(\<exists>es e. listRunEventsAfter mark (Some lim) d = Inr es \<and>
      listRunEventsAfter mark (Some lim) d' = Inr (es @ [e]) \<and> ru_seq e = seq \<and> ru_run e = k \<and> ru_type e = type) \<and>
    listRunEventsAfter (int seq) (Some lim) d' = Inr []"
  using assms(3)
proof (rule recordRunEvent_Inr)
  fix t
  assume t: "json_column (case payload of None \<Rightarrow> JObj [] | Some p \<Rightarrow> p) ''run event payload'' = Inr t"
    and seq: "seq = last_run_event d + 1"
    and d': "d' = d\<lparr>last_run_event := seq, run_events := run_events d @ [\<lparr>re_seq = seq, re_at = now,
      re_run = k, re_ref = ref, re_type = type, re_runner = runner, re_payload = t\<rparr>]\<rparr>"
  obtain v where v: "stored_json t ''run event payload'' = Inr v"
    using json_column_reads_back[OF assms(2) t] by blast
  have ok': "feed_ok d'" by (rule feed_ok_record[OF assms(1-3)])
  have all: "sql_limit lim (filter p (run_events d)) = filter p (run_events d)"
    "sql_limit lim (filter p (run_events d')) = filter p (run_events d')" for p
  proof -
    have "length (filter p (run_events d)) \<le> nat lim" "length (filter p (run_events d')) \<le> nat lim"
      using assms(6) length_filter_le[of p "run_events d"] length_filter_le[of p "run_events d'"]
      by (simp_all add: d')
    then show "sql_limit lim (filter p (run_events d)) = filter p (run_events d)"
      "sql_limit lim (filter p (run_events d')) = filter p (run_events d')"
      using assms(6) by (simp_all only: sql_limit_def take_all) (simp_all add: not_less[symmetric])
  qed
  have below: "\<forall>r \<in> set (run_events d). re_seq r \<le> last_run_event d" using assms(1) by (simp add: feed_ok_def)
  have "\<forall>r \<in> set (filter (\<lambda>r. mark < int (re_seq r)) (run_events d)). \<exists>e. run_event_of_row r = Inr e"
    using assms(1) by (simp add: feed_ok_def)
  then have "\<exists>es. map run_event_of_row (filter (\<lambda>r. mark < int (re_seq r)) (run_events d)) = map Inr es"
    by (simp only: ex_map_conv set_map ball_simps)
  then obtain es where es: "map run_event_of_row (filter (\<lambda>r. mark < int (re_seq r)) (run_events d)) = map Inr es" ..
  let ?e = "\<lparr>ru_seq = seq, ru_at = now, ru_run = k, ru_ref = ref, ru_type = type, ru_runner = runner, ru_payload = v\<rparr>"
  have old: "listRunEventsAfter mark (Some lim) d = Inr es"
    using assms(4) by (simp add: listRunEventsAfter_def feed_sorted[OF assms(1)] all es)
  have "map run_event_of_row (filter (\<lambda>r. mark < int (re_seq r)) (run_events d')) = map Inr (es @ [?e])"
    using assms(5) es v by (simp add: d' run_event_of_row_def)
  then have new: "listRunEventsAfter mark (Some lim) d' = Inr (es @ [?e])"
    unfolding listRunEventsAfter_def feed_sorted[OF ok'] option.case all using assms(4) seq_items_map[of "es @ [?e]"]
    by simp
  have "filter (\<lambda>r. int seq < int (re_seq r)) (run_events d') = []"
    using below by (auto simp: d' seq filter_empty_conv)
  then have "listRunEventsAfter (int seq) (Some lim) d' = Inr []"
    by (simp add: listRunEventsAfter_def feed_sorted[OF ok'] sql_limit_def)
  then show ?thesis using old new by (intro conjI exI[of _ es] exI[of _ ?e]) simp_all
qed

theorem run_feed_complete_witness:
  "\<exists>d'. (\<exists>es e. listRunEventsAfter 0 (Some 10) empty_db = Inr es \<and>
      listRunEventsAfter 0 (Some 10) d' = Inr (es @ [e]) \<and> ru_seq e = 1 \<and> ru_run e = ''a'' \<and> ru_type e = ''started'') \<and>
    listRunEventsAfter (int 1) (Some 10) d' = Inr []"
proof -
  have "run_id_pattern ''a''" by code_simp
  then have "\<exists>d'. recordRunEvent ''a'' ''w'' ''started'' None None ''1970-01-01T00:00:01.000Z'' empty_db = (Inr 1, d')"
    by (simp add: recordRunEvent_def store_eval sample_times json_column_def canonicalJson_def utf8_length_def
        MAX_EVENT_BYTES_def empty_db_def mk_obj_def js_order_def)
  then obtain d' where rec: "recordRunEvent ''a'' ''w'' ''started'' None None ''1970-01-01T00:00:01.000Z'' empty_db = (Inr 1, d')" ..
  show ?thesis
    by (intro exI[of _ d'] run_feed_complete[OF _ _ rec]) (simp_all add: feed_ok_def empty_db_def js_ordered_def js_order_def)
qed

end
