(* ===== verification/Effects.thy ===== *)
theory Effects
  imports EventStore ResourceStore
begin

text \<open>
  External effects of a reconciliation: the effect table (src/controllers/sqlite.ts,
  \<open>reserveEffect\<close> to \<open>listEffects\<close>) and the service that ensures one effect per pass
  (src/controllers/effects.ts).  What \<open>observe\<close> and \<open>apply\<close> of an effect definition answer is the
  outside world: an argument, together with what other processes do to the store while the pass
  awaits it.
\<close>

section \<open>The effect table\<close>

text \<open>An \<open>EffectRecord\<close> is its row, absent fields for null columns.\<close>

definition effectFromRow :: "effect_row \<Rightarrow> effect_row" where
  "effectFromRow row = row"

definition effectRow :: "string \<Rightarrow> string \<Rightarrow> db \<Rightarrow> effect_row option" where
  "effectRow uid key d = sql_get (\<lambda>e. e_uid e = uid \<and> e_key e = key) (effects d)"

definition getEffect :: "string \<Rightarrow> string \<Rightarrow> db \<Rightarrow> effect_row option" where
  "getEffect uid key d = map_option effectFromRow (effectRow uid key d)"

definition requireEffect :: "string \<Rightarrow> string \<Rightarrow> effect_row store_op" where
  "requireEffect uid key d = (case getEffect uid key d of
     None \<Rightarrow> (Inl (EffectNotFound uid key), d) | Some e \<Rightarrow> (Inr e, d))"

text \<open>The foreign key and the check on the generation of an \<open>INSERT INTO effects\<close>.\<close>

definition insert_effect :: "effect_row \<Rightarrow> unit store_op" where
  "insert_effect row d =
     (if e_uid row \<notin> rr_uid ` set (resources d) \<or> e_generation row = 0 \<or> effectRow (e_uid row) (e_key row) d \<noteq> None
      then (Inl (SqlConstraint ''effects''), d)
      else (Inr (), d\<lparr>effects := effects d @ [row]\<rparr>))"

definition reserveEffect ::
    "string \<Rightarrow> string \<Rightarrow> nat \<Rightarrow> string \<Rightarrow> string \<Rightarrow> string \<Rightarrow> (effect_row \<times> bool) store_op" where
  "reserveEffect key uid generation kind fingerprint now =
     guarded [validateKey key ''effect key'', validateName kind ''effect kind'', validTimestamp now]
      (transact (\<lambda>d. case effectRow uid key d of
         Some existing \<Rightarrow>
           if e_fingerprint existing \<noteq> fingerprint \<or> e_generation existing \<noteq> generation \<or> e_kind existing \<noteq> kind
           then (Inl (EffectRequestConflict key), d)
           else (Inr (effectFromRow existing, False), d)
       | None \<Rightarrow> and_then (insert_effect \<lparr>e_key = key, e_uid = uid, e_generation = generation, e_kind = kind,
             e_state = EffPending, e_fingerprint = fingerprint, e_started = now, e_completed = None,
             e_external = None, e_error = None\<rparr>)
           (\<lambda>_. and_then (requireEffect uid key) (\<lambda>e. return_op (e, True))) d))"

definition final_effect :: "effect_state \<Rightarrow> bool" where
  "final_effect s \<longleftrightarrow> s = EffApplied \<or> s = EffRejected"

definition updateEffect ::
    "string \<Rightarrow> string \<Rightarrow> effect_state \<Rightarrow> string option \<Rightarrow> string option \<Rightarrow> string \<Rightarrow> effect_row store_op" where
  "updateEffect uid key state external err now d = (case effectRow uid key d of
     None \<Rightarrow> (Inl (EffectNotFound uid key), d)
   | Some row \<Rightarrow>
       if final_effect (e_state row) \<and> e_state row \<noteq> state then (Inl (EffectAlready key (e_state row)), d)
       else guarded (if final_effect state then [validTimestamp now] else [])
         (\<lambda>d. requireEffect uid key (d\<lparr>effects := sql_update (\<lambda>e. e_uid e = uid \<and> e_key e = key)
            (\<lambda>e. e\<lparr>e_state := state,
               e_external := (case external of None \<Rightarrow> e_external e | Some x \<Rightarrow> Some x),
               e_error := map_option truncateError err,
               e_completed := (if final_effect state then Some now else None)\<rparr>) (effects d)\<rparr>)) d)"

definition effect_order :: "effect_row \<Rightarrow> string \<times> string" where
  "effect_order e = (e_started e, e_key e)"

definition listEffects :: "string \<Rightarrow> db \<Rightarrow> effect_row list" where
  "listEffects uid d = map effectFromRow (sql_all (\<lambda>e. e_uid e = uid) effect_order (effects d))"

section \<open>The effect service of a reconciliation pass\<close>

datatype observation = ObsApplied "string option" | ObsNotApplied | ObsIndeterminate

datatype application = AppApplied "string option" | AppRejected string | AppIndeterminate "string option"

record effect_definition =
  d_key :: string
  d_kind :: string
  d_request :: jv

text \<open>What leaves the service: a store error, the error \<open>observe\<close> threw, or its own.\<close>

datatype effect_error = EffStore store_error | ObserveFailed string | OneEffectOnly

text \<open>The calls of the definition the service makes, in order.\<close>

datatype effect_call = CallObserve | CallApply

text \<open>The resource a pass works on, and the \<open>used\<close> flag of its service.\<close>

record effect_service =
  s_resource :: resource
  s_used :: bool

type_synonym 'a effect_op = "(effect_error, db, 'a) op"

definition in_store :: "'a store_op \<Rightarrow> 'a effect_op" where
  "in_store f d = (case f d of (Inl e, d') \<Rightarrow> (Inl (EffStore e), d') | (Inr a, d') \<Rightarrow> (Inr a, d'))"

definition effect_event :: "resource \<Rightarrow> string \<Rightarrow> string \<Rightarrow> string option \<Rightarrow> string \<Rightarrow> unit effect_op" where
  "effect_event r type key err now = in_store (and_then
     (recordEvent (res_controller r) (res_key r) type
       (Some (JObj ((''effectKey'', JStr key) # (case err of None \<Rightarrow> [] | Some e \<Rightarrow> [(''error'', JStr e)])))) now)
     (\<lambda>_. return_op ()))"

text \<open>\<open>observe\<close>: its error is recorded and thrown on.\<close>

definition service_observe ::
    "resource \<Rightarrow> string \<Rightarrow> (string, observation) result \<Rightarrow> string \<Rightarrow> observation effect_op" where
  "service_observe r key answer now = (case answer of
     Inr obs \<Rightarrow> return_op obs
   | Inl e \<Rightarrow> and_then (effect_event r ''effect_observe_failed'' key (Some (truncateError e)) now)
       (\<lambda>_ d. (Inl (ObserveFailed e), d)))"

definition applyObservation ::
    "resource \<Rightarrow> string \<Rightarrow> observation \<Rightarrow> string \<Rightarrow> effect_row option effect_op" where
  "applyObservation r key obs now = (case obs of
     ObsNotApplied \<Rightarrow> return_op None
   | ObsApplied ext \<Rightarrow> and_then (in_store (updateEffect (res_uid r) key EffApplied ext None now))
       (\<lambda>rec. and_then (effect_event r ''effect_recovered'' key None now) (\<lambda>_. return_op (Some rec)))
   | ObsIndeterminate \<Rightarrow> and_then (in_store (updateEffect (res_uid r) key EffIndeterminate None None now))
       (\<lambda>rec. and_then (effect_event r ''effect_indeterminate'' key None now) (\<lambda>_. return_op (Some rec))))"

definition service_apply ::
    "resource \<Rightarrow> string \<Rightarrow> (string, application) result \<Rightarrow> string \<Rightarrow> effect_row effect_op" where
  "service_apply r key answer now = (case answer of
     Inl e \<Rightarrow> (let message = truncateError e in
       and_then (in_store (updateEffect (res_uid r) key EffIndeterminate None (Some message) now))
         (\<lambda>rec. and_then (effect_event r ''effect_indeterminate'' key (Some message) now) (\<lambda>_. return_op rec)))
   | Inr (AppApplied ext) \<Rightarrow>
       and_then (in_store (updateEffect (res_uid r) key EffApplied ext None now))
         (\<lambda>rec. and_then (effect_event r ''effect_applied'' key None now) (\<lambda>_. return_op rec))
   | Inr (AppRejected e) \<Rightarrow>
       and_then (in_store (updateEffect (res_uid r) key EffRejected None (Some e) now))
         (\<lambda>rec. and_then (effect_event r ''effect_rejected'' key None now) (\<lambda>_. return_op rec))
   | Inr (AppIndeterminate e) \<Rightarrow>
       and_then (in_store (updateEffect (res_uid r) key EffIndeterminate None e now))
         (\<lambda>rec. and_then (effect_event r ''effect_indeterminate'' key None now) (\<lambda>_. return_op rec)))"

text \<open>
  One call of \<open>ensure\<close>.  The store after an await is \<open>during\<close> of the store before it: other
  processes may act meanwhile.  The calls of the definition made so far go beside the store, so
  that a pass that throws shows them as well.
\<close>

record world =
  w_observe :: "(string, observation) result"
  w_apply :: "(string, application) result"
  w_during :: "db \<Rightarrow> db"
  w_now :: string

type_synonym 'a logged_op = "(effect_error, db \<times> effect_call list, 'a) op"

definition on_db :: "'a effect_op \<Rightarrow> 'a logged_op" where
  "on_db f s = (case f (fst s) of (answer, d) \<Rightarrow> (answer, (d, snd s)))"

definition calling :: "effect_call \<Rightarrow> (db \<Rightarrow> db) \<Rightarrow> 'a effect_op \<Rightarrow> 'a logged_op" where
  "calling call during f s = on_db f (during (fst s), snd s @ [call])"

definition ensure_apply :: "resource \<Rightarrow> string \<Rightarrow> world \<Rightarrow> effect_row logged_op" where
  "ensure_apply r key w = calling CallApply (w_during w) (service_apply r key (w_apply w) (w_now w))"

definition ensure_reserved :: "resource \<Rightarrow> string \<Rightarrow> world \<Rightarrow> effect_row \<times> bool \<Rightarrow> effect_row logged_op" where
  "ensure_reserved r key w res = (case res of (rec, created) \<Rightarrow>
     if final_effect (e_state rec) then return_op rec
     else if created then ensure_apply r key w
     else and_then (calling CallObserve (w_during w) (service_observe r key (w_observe w) (w_now w))) (\<lambda>obs.
       and_then (on_db (applyObservation r key obs (w_now w))) (\<lambda>recovered. (case recovered of
         Some rec' \<Rightarrow> return_op rec'
       | None \<Rightarrow> ensure_apply r key w))))"

definition ensure_effect ::
    "(string \<Rightarrow> string) \<Rightarrow> world \<Rightarrow> effect_definition \<Rightarrow> effect_service \<Rightarrow> db \<Rightarrow>
     ((effect_error, effect_row) result \<times> db \<times> effect_call list) \<times> effect_service" where
  "ensure_effect sha256 w def svc d =
     (if s_used svc then ((Inl OneEffectOnly, (d, [])), svc)
      else let r = s_resource svc in
        ((case jsonFingerprint sha256 (d_request def) of
            Inl e \<Rightarrow> (Inl (EffStore (BadJson e)), (d, []))
          | Inr fingerprint \<Rightarrow> and_then
              (on_db (in_store (reserveEffect (d_key def) (res_uid r) (res_generation r) (d_kind def) fingerprint (w_now w))))
              (ensure_reserved r (d_key def) w) (d, [])),
         svc\<lparr>s_used := True\<rparr>))"

section \<open>Effects are decided once\<close>

text \<open>A decided effect: its row and state stay while its resource is there.\<close>

definition decided_stays :: "db \<Rightarrow> db \<Rightarrow> bool" where
  "decided_stays d d' \<longleftrightarrow> (\<forall>uid key row. effectRow uid key d = Some row \<and> final_effect (e_state row) \<longrightarrow>
     (\<exists>row'. effectRow uid key d' = Some row' \<and> e_state row' = e_state row))"

lemma decided_relation: "reflp decided_stays" "transp decided_stays"
proof -
  show "reflp decided_stays" by (auto simp: reflp_def decided_stays_def)
  show "transp decided_stays"
  proof (rule transpI)
    fix a b c assume ab: "decided_stays a b" and bc: "decided_stays b c"
    show "decided_stays a c"
      unfolding decided_stays_def
    proof (intro allI impI)
      fix uid key row assume "effectRow uid key a = Some row \<and> final_effect (e_state row)"
      then obtain r2 where "effectRow uid key b = Some r2" "e_state r2 = e_state row" "final_effect (e_state row)"
        using ab unfolding decided_stays_def by blast
      then show "\<exists>row'. effectRow uid key c = Some row' \<and> e_state row' = e_state row"
        using bc unfolding decided_stays_def by metis
    qed
  qed
qed

lemma decided_frame: "effects d' = effects d \<Longrightarrow> decided_stays d d'"
  by (simp add: decided_stays_def effectRow_def)

lemma requireEffect_state [simp]: "snd (requireEffect uid key d) = d"
  by (simp add: requireEffect_def split: option.split)

lemma keeps_requireEffect: "keeps decided_stays (requireEffect uid key)"
  by (simp add: keeps_def decided_frame)

lemma keeps_insert_effect: "keeps decided_stays (insert_effect row)"
  unfolding keeps_def
proof
  fix d
  show "decided_stays d (snd (insert_effect row d))"
    by (auto simp: insert_effect_def decided_stays_def effectRow_def sql_get_append split: option.split)
qed

lemma keeps_reserveEffect: "keeps decided_stays (reserveEffect key uid g kind fp now)"
proof -
  have "keeps decided_stays (and_then (insert_effect row)
      (\<lambda>_. and_then (requireEffect uid key) (\<lambda>e. return_op (e, True))))" for row
    by (intro keeps_and_then keeps_insert_effect keeps_requireEffect keeps_return decided_relation)
  then show ?thesis
    unfolding reserveEffect_def
    by (intro keeps_guarded keeps_transact decided_relation)
      (simp add: keeps_def decided_frame split: option.split)
qed

lemma decided_update:
  assumes "\<And>e. key_of (f e) = key_of e" and "key_of = (\<lambda>e. (e_uid e, e_key e))"
    and "\<And>row. effectRow uid key d = Some row \<Longrightarrow> final_effect (e_state row) \<Longrightarrow> e_state (f row) = e_state row"
  shows "decided_stays d (d\<lparr>effects := sql_update (\<lambda>e. e_uid e = uid \<and> e_key e = key) f (effects d)\<rparr>)"
  unfolding decided_stays_def
proof (intro allI impI)
  fix uid' key' row assume row: "effectRow uid' key' d = Some row \<and> final_effect (e_state row)"
  then have here: "e_uid row = uid'" "e_key row = key'" by (auto simp: effectRow_def dest: sql_get_Some)
  have "effectRow uid' key' (d\<lparr>effects := sql_update (\<lambda>e. e_uid e = uid \<and> e_key e = key) f (effects d)\<rparr>) =
      Some (if e_uid row = uid \<and> e_key row = key then f row else row)"
    using row assms(1,2) by (simp add: effectRow_def sql_get_sql_update)
  moreover have "e_state (if e_uid row = uid \<and> e_key row = key then f row else row) = e_state row"
    using assms(3)[of row] row here by auto
  ultimately show "\<exists>row'. effectRow uid' key' (d\<lparr>effects := sql_update (\<lambda>e. e_uid e = uid \<and> e_key e = key) f (effects d)\<rparr>) = Some row' \<and>
      e_state row' = e_state row" by blast
qed

lemma keeps_updateEffect: "keeps decided_stays (updateEffect uid key state ext err now)"
  unfolding keeps_def
proof
  fix d
  show "decided_stays d (snd (updateEffect uid key state ext err now d))"
    by (auto simp: updateEffect_def guarded_def decided_frame split: option.split
        intro!: decided_update[where key_of = "\<lambda>e. (e_uid e, e_key e)"])
qed

lemma keeps_recordEvent: "keeps decided_stays (recordEvent c k type payload now)"
  unfolding recordEvent_def
  by (intro keeps_guarded keeps_with_result decided_relation)
    (simp add: keeps_def Let_def requireEvent_def decided_frame split: option.split)

lemma keeps_in_store: "keeps R f \<Longrightarrow> keeps R (in_store f)"
  by (auto simp: keeps_def in_store_def split: prod.split sum.split) (metis snd_conv)+

lemma keeps_effect_event: "keeps decided_stays (effect_event r type key err now)"
  unfolding effect_event_def
  by (intro keeps_in_store keeps_and_then keeps_recordEvent keeps_return decided_relation)

lemmas keeps_service = keeps_and_then keeps_in_store keeps_updateEffect keeps_effect_event keeps_return
  keeps_throw decided_relation

lemma keeps_service_apply: "keeps decided_stays (service_apply r key answer now)"
  unfolding service_apply_def Let_def
  by (cases answer; (rename_tac x, case_tac x)?; simp; intro keeps_service)

lemma keeps_service_observe: "keeps decided_stays (service_observe r key answer now)"
  unfolding service_observe_def by (cases answer; simp; intro keeps_service)

lemma keeps_applyObservation: "keeps decided_stays (applyObservation r key obs now)"
  unfolding applyObservation_def by (cases obs; simp; intro keeps_service)

text \<open>The same of the store beside the calls.\<close>

definition decided_stays_logged :: "db \<times> effect_call list \<Rightarrow> db \<times> effect_call list \<Rightarrow> bool" where
  "decided_stays_logged s s' \<longleftrightarrow> decided_stays (fst s) (fst s')"

lemma logged_relation: "reflp decided_stays_logged" "transp decided_stays_logged"
  using decided_relation by (auto simp: decided_stays_logged_def reflp_def transp_def)

lemma on_db_store [simp]: "fst (snd (on_db f s)) = snd (f (fst s))"
  and on_db_calls [simp]: "snd (snd (on_db f s)) = snd s"
  and on_db_answer [simp]: "fst (on_db f s) = fst (f (fst s))"
  by (simp_all add: on_db_def split: prod.split)

lemma keeps_on_db: "keeps decided_stays f \<Longrightarrow> keeps decided_stays_logged (on_db f)"
  by (simp add: keeps_def decided_stays_logged_def)

lemma keeps_calling:
  "(\<And>d. decided_stays d (during d)) \<Longrightarrow> keeps decided_stays f \<Longrightarrow> keeps decided_stays_logged (calling c during f)"
  unfolding keeps_def decided_stays_logged_def calling_def
  using decided_relation(2) by (auto dest: transpD)

lemma keeps_ensure_reserved:
  assumes "\<And>d. decided_stays d (w_during w d)"
  shows "keeps decided_stays_logged (ensure_reserved r key w res)"
proof -
  have applies: "keeps decided_stays_logged (ensure_apply r key w)"
    unfolding ensure_apply_def by (intro keeps_calling assms keeps_service_apply)
  have "keeps decided_stays_logged (case recovered of Some rec' \<Rightarrow> return_op rec' | None \<Rightarrow> ensure_apply r key w)" for recovered
    by (cases recovered) (simp_all add: applies keeps_return logged_relation)
  then show ?thesis
    unfolding ensure_reserved_def
    by (cases res) (simp add: applies keeps_return logged_relation keeps_calling assms keeps_and_then
        keeps_service_observe keeps_on_db keeps_applyObservation)
qed

text \<open>
  A decided effect stays decided.  An effect recorded as applied or rejected keeps that state
  through every further ensure of any effect, whatever observe and apply answer, also while other
  processes act during the awaits, as long as those keep decided effects themselves.
\<close>

theorem decided_effects_are_final:
  assumes "\<forall>d. decided_stays d (w_during w d)"
    and "effectRow uid key d = Some row" and "final_effect (e_state row)"
  shows "\<exists>row'. effectRow uid key (fst (snd (fst (ensure_effect sha256 w def svc d)))) = Some row' \<and>
    e_state row' = e_state row"
proof -
  have reserved: "keeps decided_stays_logged (ensure_reserved r k w res)" for r k res
    using assms(1) by (intro keeps_ensure_reserved) simp
  have "keeps decided_stays_logged (and_then (on_db (in_store (reserveEffect k uid' g kind fp now))) (ensure_reserved r k' w))"
    for k uid' g kind fp now r k'
    by (intro keeps_and_then keeps_on_db keeps_in_store keeps_reserveEffect reserved logged_relation)
  then have "decided_stays d (fst (snd (fst (ensure_effect sha256 w def svc d))))"
    by (simp add: ensure_effect_def Let_def keeps_def decided_stays_logged_def decided_frame split: sum.split)
  then show ?thesis using assms(2,3) unfolding decided_stays_def by blast
qed

lemma in_store_Inr: "in_store f d = (Inr a, d') \<longleftrightarrow> f d = (Inr a, d')"
  by (auto simp: in_store_def split: prod.splits sum.splits)

lemma reserveEffect_Inr:
  assumes "reserveEffect key uid g kind fp now d = (Inr (rec, created), d')"
  shows "if created then effectRow uid key d = None \<and> e_state rec = EffPending
    else effectRow uid key d = Some rec \<and> d' = d \<and> e_fingerprint rec = fp \<and> e_generation rec = g \<and> e_kind rec = kind"
proof (cases "effectRow uid key d")
  case None
  let ?row = "\<lparr>e_key = key, e_uid = uid, e_generation = g, e_kind = kind, e_state = EffPending,
    e_fingerprint = fp, e_started = now, e_completed = None, e_external = None, e_error = None\<rparr>"
  obtain t where t: "insert_effect ?row d = (Inr (), t)" "requireEffect uid key t = (Inr rec, d')" and created
    using assms None by (auto simp: reserveEffect_def op_Inr return_op_def)
  have "effectRow uid key t = Some ?row"
    using t(1) None by (auto simp: insert_effect_def effectRow_def sql_get_append split: if_splits) (simp add: sql_get_def)
  then have "rec = ?row" using t(2) by (simp add: requireEffect_def getEffect_def effectFromRow_def)
  then show ?thesis using None \<open>created\<close> by simp
next
  case (Some row)
  then show ?thesis
    using assms by (auto simp: reserveEffect_def op_Inr effectFromRow_def split: if_splits)
qed

lemma reserveEffect_Inl: "reserveEffect key uid g kind fp now d = (Inl e, d') \<Longrightarrow> d' = d"
  by (auto simp: reserveEffect_def guarded_def transact_def split: option.splits prod.splits sum.splits)

text \<open>What a step that ran, or that failed, has left of the calls.\<close>

lemma and_then_calls:
  "snd (snd (and_then m f s)) =
     (case fst (m s) of Inl e \<Rightarrow> snd (snd (m s)) | Inr b \<Rightarrow> snd (snd (f b (snd (m s)))))"
  by (simp add: and_then_def split: prod.split sum.split)

lemma calling_calls [simp]: "snd (snd (calling c during f s)) = snd s @ [c]"
  and calling_answer [simp]: "fst (calling c during f s) = fst (f (during (fst s)))"
  by (simp_all add: calling_def)

lemma ensure_apply_calls [simp]: "snd (snd (ensure_apply r key w s)) = snd s @ [CallApply]"
  by (simp add: ensure_apply_def)

lemma return_calls [simp]: "snd (snd (return_op a s)) = snd s"
  by (simp add: return_op_def)

lemma applyObservation_None: "fst (applyObservation r key obs now d) = Inr None \<Longrightarrow> obs = ObsNotApplied"
  by (cases obs) (auto simp: applyObservation_def and_then_def return_op_def split: prod.splits sum.splits)

lemma service_observe_answer: "fst (service_observe r key answer now d) = Inr obs \<Longrightarrow> answer = Inr obs"
  by (cases answer) (auto simp: service_observe_def and_then_def return_op_def split: prod.splits sum.splits)

text \<open>A known, undecided effect is observed first, and applied only when observed not applied.\<close>

lemma ensure_undecided:
  assumes "\<not> final_effect (e_state row)"
  shows "snd (snd (ensure_reserved r key w (row, False) (d, []))) =
    (if w_observe w = Inr ObsNotApplied then [CallObserve, CallApply] else [CallObserve])"
proof (cases "w_observe w")
  case (Inl e)
  then show ?thesis
    using assms Inl by (auto simp: ensure_reserved_def and_then_calls split: sum.split dest: service_observe_answer)
next
  case (Inr obs)
  then show ?thesis
    using assms by (cases obs)
      (auto simp: ensure_reserved_def and_then_calls service_observe_def return_op_def applyObservation_def[of _ _ ObsNotApplied]
        split: sum.split option.split dest: applyObservation_None)
qed

text \<open>
  C37: An effect is not applied twice on a hunch, whether ensure answers or throws.  A key that is
  new to the store is applied at most once, without observing, and exactly once when ensure
  answers.  For a key the store knows, a decided effect and one of another request, generation or
  kind cost no call and leave the store alone; an undecided one is observed at most once, and
  applied at most once, after observe and only when observe answered "not applied" - never after an
  observe that threw.  An answer for a known effect is about the same request, generation and kind,
  and is the recorded row when that is decided.  A second ensure of a pass makes no call.
\<close>

theorem ensure_calls_justified:
  assumes "ensure_effect sha256 w def svc d = ((answer, d', calls), svc')"
  shows "(case effectRow (res_uid (s_resource svc)) (d_key def) d of
      None \<Rightarrow> calls = [] \<and> isl answer \<or> calls = [CallApply]
    | Some row \<Rightarrow>
        if final_effect (e_state row) \<or> jsonFingerprint sha256 (d_request def) \<noteq> Inr (e_fingerprint row) \<or>
          e_generation row \<noteq> res_generation (s_resource svc) \<or> e_kind row \<noteq> d_kind def
        then calls = [] \<and> d' = d \<and>
          (\<forall>rec. answer = Inr rec \<longrightarrow> rec = row \<and> final_effect (e_state row) \<and>
            jsonFingerprint sha256 (d_request def) = Inr (e_fingerprint row) \<and>
            e_generation row = res_generation (s_resource svc) \<and> e_kind row = d_kind def)
        else calls = [] \<and> isl answer \<or>
          calls = (if w_observe w = Inr ObsNotApplied then [CallObserve, CallApply] else [CallObserve])) \<and>
    s_used svc' \<and> (s_used svc \<longrightarrow> calls = [] \<and> answer = Inl OneEffectOnly)"
proof (cases "s_used svc \<or> isl (jsonFingerprint sha256 (d_request def))")
  case True
  then have "calls = []" "isl answer" "d' = d" "s_used svc'" "s_used svc \<longrightarrow> answer = Inl OneEffectOnly"
    using assms by (auto simp: ensure_effect_def Let_def isl_def split: if_splits)
  then show ?thesis by (auto split: option.split)
next
  case False
  then obtain fp where fp: "jsonFingerprint sha256 (d_request def) = Inr fp" and new: "\<not> s_used svc"
    by (auto simp: isl_def) (meson sum.exhaust)
  let ?r = "s_resource svc"
  obtain res d1 where res:
    "reserveEffect (d_key def) (res_uid ?r) (res_generation ?r) (d_kind def) fp (w_now w) d = (res, d1)"
    by fastforce
  show ?thesis
  proof (cases res)
    case (Inl e)
    then have "calls = []" "isl answer" "d' = d1" "s_used svc'"
      using assms res fp new by (auto simp: ensure_effect_def Let_def and_then_def on_db_def in_store_def)
    moreover have "d1 = d" using res Inl by (simp add: reserveEffect_Inl)
    ultimately show ?thesis using new by (auto split: option.split)
  next
    case (Inr p)
    obtain row created where p: "p = (row, created)" by (cases p)
    note reserved = reserveEffect_Inr[OF res[unfolded Inr p]]
    have run: "ensure_reserved ?r (d_key def) w (row, created) (d1, []) = (answer, d', calls)" and used: "s_used svc'"
      using assms res fp new Inr p by (auto simp: ensure_effect_def Let_def and_then_def on_db_def in_store_def)
    then have calls: "calls = snd (snd (ensure_reserved ?r (d_key def) w (row, created) (d1, [])))" by simp
    show ?thesis
    proof (cases created)
      case True
      then have "calls = [CallApply]"
        using calls reserved by (simp add: ensure_reserved_def final_effect_def)
      then show ?thesis using True reserved used new by simp
    next
      case known: False
      then have row: "effectRow (res_uid ?r) (d_key def) d = Some row" and same: "d1 = d"
        "e_fingerprint row = fp" "e_generation row = res_generation ?r" "e_kind row = d_kind def"
        using reserved by simp_all
      show ?thesis
      proof (cases "final_effect (e_state row)")
        case True
        then have "calls = []" "answer = Inr row" "d' = d"
          using run known same by (simp_all add: ensure_reserved_def return_op_def)
        then show ?thesis using row same fp used new True by simp
      next
        case undecided: False
        then show ?thesis using calls known row same fp used new ensure_undecided[OF undecided] by simp
      qed
    qed
  qed
qed

text \<open>
  One effect per pass, one request per key.  Ensuring a known key with another request,
  generation or kind is a conflict: nothing is called, the store stays as it is, and the pass has
  used its one effect, so any further ensure of this pass is refused without effect, too.
\<close>

theorem ensure_conflict_refused:
  assumes "\<not> s_used svc" and "jsonFingerprint sha256 (d_request def) = Inr fp"
    and "valid_key (d_key def)" and "name_pattern (d_kind def)" and "date_parse (w_now w) \<noteq> None"
    and "effectRow (res_uid (s_resource svc)) (d_key def) d = Some row"
    and "e_fingerprint row \<noteq> fp \<or> e_generation row \<noteq> res_generation (s_resource svc) \<or> e_kind row \<noteq> d_kind def"
  shows "ensure_effect sha256 w def svc d =
      ((Inl (EffStore (EffectRequestConflict (d_key def))), (d, [])), svc\<lparr>s_used := True\<rparr>) \<and>
    ensure_effect sha256 w2 def2 (svc\<lparr>s_used := True\<rparr>) d2 = ((Inl OneEffectOnly, (d2, [])), svc\<lparr>s_used := True\<rparr>)"
proof -
  have "reserveEffect (d_key def) (res_uid (s_resource svc)) (res_generation (s_resource svc)) (d_kind def) fp (w_now w) d =
      (Inl (EffectRequestConflict (d_key def)), d)"
    using assms(3-7) by (simp add: reserveEffect_def guarded_pass validator_defs transact_def)
  then show ?thesis
    using assms(1,2) by (simp add: ensure_effect_def Let_def and_then_def on_db_def in_store_def)
qed

section \<open>The properties at work\<close>

definition sample_effect :: effect_row where
  "sample_effect = \<lparr>e_key = ''mail'', e_uid = ''u'', e_generation = 1, e_kind = ''send'', e_state = EffApplied,
     e_fingerprint = ''null'', e_started = ''1970-01-01T00:00:01.000Z'',
     e_completed = Some ''1970-01-01T00:00:01.000Z'', e_external = None, e_error = None\<rparr>"

definition effect_db :: db where
  "effect_db = empty_db\<lparr>effects := [sample_effect]\<rparr>"

definition sample_service :: effect_service where
  "sample_service = \<lparr>s_resource = \<lparr>res_uid = ''u'', res_controller = ''c'', res_key = ''k'', res_version = 1,
     res_generation = 1, res_deletion = None, res_finalizers = [], res_spec = JNull, res_status = JNull\<rparr>, s_used = False\<rparr>"

definition sample_world :: world where
  "sample_world = \<lparr>w_observe = Inr ObsNotApplied, w_apply = Inr (AppApplied None), w_during = (\<lambda>d. d),
     w_now = ''1970-01-01T00:00:01.000Z''\<rparr>"

definition mail :: "jv \<Rightarrow> effect_definition" where
  "mail request = \<lparr>d_key = ''mail'', d_kind = ''send'', d_request = request\<rparr>"

lemma sample_effect_row: "effectRow ''u'' ''mail'' effect_db = Some sample_effect"
  by (simp add: effect_db_def effectRow_def sql_get_def sample_effect_def)

theorem decided_effects_are_final_witness:
  "\<exists>row'. effectRow ''u'' ''mail'' (fst (snd (fst (ensure_effect id sample_world (mail JNull) sample_service effect_db)))) = Some row' \<and>
    e_state row' = EffApplied"
  using decided_effects_are_final[of sample_world, OF _ sample_effect_row, of id "mail JNull" sample_service]
    reflpD[OF decided_relation(1)]
  by (simp add: sample_world_def final_effect_def sample_effect_def)

text \<open>The mail may or may not be out, and observe throws: it is not sent again.\<close>

definition unsure_db :: db where
  "unsure_db = empty_db\<lparr>effects := [sample_effect\<lparr>e_state := EffIndeterminate\<rparr>]\<rparr>"

definition blind_world :: world where
  "blind_world = sample_world\<lparr>w_observe := Inl ''unreachable''\<rparr>"

lemma unsure_row: "effectRow ''u'' ''mail'' unsure_db = Some (sample_effect\<lparr>e_state := EffIndeterminate\<rparr>)"
  by (simp add: unsure_db_def effectRow_def sql_get_def sample_effect_def)

lemma unsure_reserved:
  "reserveEffect ''mail'' ''u'' 1 ''send'' ''null'' ''1970-01-01T00:00:01.000Z'' unsure_db =
     (Inr (sample_effect\<lparr>e_state := EffIndeterminate\<rparr>, False), unsure_db)"
  using unsure_row
  by (simp add: reserveEffect_def store_eval sample_times effectFromRow_def) (simp add: sample_effect_def)

lemma unsure_observed:
  "snd (snd (fst (ensure_effect id blind_world (mail JNull) sample_service unsure_db))) \<noteq> []"
  using unsure_reserved ensure_undecided[of "sample_effect\<lparr>e_state := EffIndeterminate\<rparr>"]
  by (simp add: ensure_effect_def sample_service_def blind_world_def sample_world_def mail_def jsonFingerprint_def
      canonicalJson_def Let_def and_then_def in_store_def final_effect_def on_db_def)

theorem ensure_calls_justified_witness:
  "snd (snd (fst (ensure_effect id blind_world (mail JNull) sample_service unsure_db))) = [CallObserve]"
proof -
  obtain answer d' calls svc' where run:
    "ensure_effect id blind_world (mail JNull) sample_service unsure_db = ((answer, d', calls), svc')"
    by (metis prod.exhaust)
  then show ?thesis
    using ensure_calls_justified[OF run] unsure_row unsure_observed
    by (auto simp: sample_service_def mail_def blind_world_def sample_effect_def final_effect_def split: if_splits)
qed

theorem ensure_conflict_refused_witness:
  "ensure_effect id sample_world (mail (JBool True)) sample_service effect_db =
      ((Inl (EffStore (EffectRequestConflict (d_key (mail (JBool True))))), (effect_db, [])), sample_service\<lparr>s_used := True\<rparr>) \<and>
    ensure_effect id sample_world (mail JNull) (sample_service\<lparr>s_used := True\<rparr>) effect_db =
      ((Inl OneEffectOnly, (effect_db, [])), sample_service\<lparr>s_used := True\<rparr>)"
  by (rule ensure_conflict_refused[where fp = "''true''" and row = sample_effect])
    (simp_all add: sample_service_def mail_def jsonFingerprint_def canonicalJson_def sample_world_def sample_times
      valid_key_def MAX_KEY_LENGTH_def name_pattern_def char_class_defs sample_effect_row,
      simp add: sample_effect_def)

end
