(* ===== verification/ChildWorkflows.thy ===== *)
theory ChildWorkflows
  imports EventStore WorkQueue
begin

text \<open>
  Child workflows of a resource: the request table (src/controllers/sqlite.ts, \<open>reserveWorkflow\<close> to
  \<open>listWorkflows\<close>), the coordinator that asks for a run and hears of its end
  (src/controllers/workflows.ts), and the scheduler's decision what to do with a request
  (src/controllers/workflow-engine-scheduler.ts).  The scheduler's answer, the run identifiers it
  reserves and what other processes do during an await are arguments.
\<close>

section \<open>The request table\<close>

text \<open>A \<open>ChildWorkflowRecord\<close> is its row, absent fields for null columns.\<close>

definition workflowFromRow :: "request_row \<Rightarrow> request_row" where
  "workflowFromRow row = row"

definition workflowRow :: "string \<Rightarrow> string \<Rightarrow> db \<Rightarrow> request_row option" where
  "workflowRow uid key d = sql_get (\<lambda>w. w_uid w = uid \<and> w_key w = key) (requests d)"

definition getWorkflow :: "string \<Rightarrow> string \<Rightarrow> db \<Rightarrow> request_row option" where
  "getWorkflow uid key d = map_option workflowFromRow (workflowRow uid key d)"

definition getWorkflowByRequestId :: "string \<Rightarrow> db \<Rightarrow> request_row option" where
  "getWorkflowByRequestId rid d = map_option workflowFromRow (sql_get (\<lambda>w. w_id w = rid) (requests d))"

definition requireWorkflow :: "string \<Rightarrow> request_row store_op" where
  "requireWorkflow rid d = (case getWorkflowByRequestId rid d of
     None \<Rightarrow> (Inl (WorkflowRequestNotFound rid), d) | Some w \<Rightarrow> (Inr w, d))"

definition insert_request :: "request_row \<Rightarrow> unit store_op" where
  "insert_request row d =
     (if w_uid row \<notin> rr_uid ` set (resources d) \<or> w_id row \<in> w_id ` set (requests d) \<or>
         workflowRow (w_uid row) (w_key row) d \<noteq> None
      then (Inl (SqlConstraint ''workflow_requests''), d)
      else (Inr (), d\<lparr>requests := requests d @ [row]\<rparr>))"

definition reserveWorkflow ::
    "string \<Rightarrow> string \<Rightarrow> string \<Rightarrow> string \<Rightarrow> string \<Rightarrow> (request_row \<times> bool) store_op" where
  "reserveWorkflow uid key workflow fingerprint rid =
     guarded [validateKey key ''workflow request key'', validateKey workflow ''workflow name'']
      (transact (\<lambda>d. case workflowRow uid key d of
         Some existing \<Rightarrow>
           if w_fingerprint existing \<noteq> fingerprint \<or> w_workflow existing \<noteq> workflow
           then (Inl (WorkflowRequestConflict key), d)
           else (Inr (workflowFromRow existing, False), d)
       | None \<Rightarrow> and_then (insert_request \<lparr>w_id = rid, w_uid = uid, w_key = key, w_fingerprint = fingerprint,
             w_workflow = workflow, w_run = None, w_state = ChPending, w_attempt = 0, w_error = None\<rparr>)
           (\<lambda>_. and_then (requireWorkflow rid) (\<lambda>w. return_op (w, True))) d))"

text \<open>\<open>WorkflowRecordUpdate\<close>: an outer \<open>None\<close> is \<open>undefined\<close>, an inner one \<open>null\<close>.\<close>

record request_update =
  up_run :: "string option option"
  up_state :: child_state
  up_attempt :: "nat option"
  up_error :: "string option option"

definition apply_update :: "request_update \<Rightarrow> request_row \<Rightarrow> request_row" where
  "apply_update u existing = existing\<lparr>
     w_run := (case up_run u of None \<Rightarrow> w_run existing | Some r \<Rightarrow> r),
     w_state := up_state u,
     w_attempt := (case up_attempt u of None \<Rightarrow> w_attempt existing | Some n \<Rightarrow> n),
     w_error := (case up_error u of None \<Rightarrow> w_error existing | Some e \<Rightarrow> map_option truncateError e)\<rparr>"

definition updateWorkflow :: "string \<Rightarrow> request_update \<Rightarrow> request_row store_op" where
  "updateWorkflow rid u d = (case sql_get (\<lambda>w. w_id w = rid) (requests d) of
     None \<Rightarrow> (Inl (WorkflowRequestNotFound rid), d)
   | Some existing \<Rightarrow> requireWorkflow rid
       (d\<lparr>requests := sql_update (\<lambda>w. w_id w = rid) (\<lambda>_. apply_update u existing) (requests d)\<rparr>))"

definition listWorkflows :: "string \<Rightarrow> db \<Rightarrow> request_row list" where
  "listWorkflows uid d = map workflowFromRow (filter (\<lambda>w. w_uid w = uid) (requests d))"

section \<open>The coordinator\<close>

record scheduler_request =
  sq_id :: string
  sq_attempt :: nat
  sq_workflow :: string
  sq_input :: jv
  sq_run :: string

record scheduler_result =
  sr_state :: child_state
  sr_run :: "string option"
  sr_error :: "string option"

datatype child_error = ChildStore store_error | NoRunId string | SchedulerThrew string

type_synonym 'a child_op = "(child_error, db, 'a) op"

definition child_store :: "'a store_op \<Rightarrow> 'a child_op" where
  "child_store f d = (case f d of (Inl e, d') \<Rightarrow> (Inl (ChildStore e), d') | (Inr a, d') \<Rightarrow> (Inr a, d'))"

definition child_state_text :: "child_state \<Rightarrow> string" where
  "child_state_text s = (case s of ChPending \<Rightarrow> ''pending'' | ChRunning \<Rightarrow> ''running'' | ChWaiting \<Rightarrow> ''waiting''
     | ChSucceeded \<Rightarrow> ''succeeded'' | ChFailed \<Rightarrow> ''failed'' | ChInterrupted \<Rightarrow> ''interrupted'')"

definition result_update :: "scheduler_result \<Rightarrow> request_update" where
  "result_update r = \<lparr>up_run = map_option Some (sr_run r), up_state = sr_state r, up_attempt = None,
     up_error = Some (sr_error r)\<rparr>"

definition enqueueParent :: "string \<Rightarrow> string \<Rightarrow> unit store_op" where
  "enqueueParent uid now d = with_result (getResourceByUid uid d) (\<lambda>resource. (case resource of
     None \<Rightarrow> return_op () | Some r \<Rightarrow> enqueue (res_controller r, res_key r) now)) d"

definition record_request_event :: "request_row \<Rightarrow> string \<Rightarrow> string \<Rightarrow> unit store_op" where
  "record_request_event w type now d = with_result (getResourceByUid (w_uid w) d) (\<lambda>resource. (case resource of
     None \<Rightarrow> return_op ()
   | Some r \<Rightarrow> and_then (recordEvent (res_controller r) (res_key r) type (Some (JObj ([
         (''requestId'', JStr (w_id w)), (''requestKey'', JStr (w_key w)),
         (''state'', JStr (child_state_text (w_state w))),
         (''attempt'', JNum (NumFin (nat_dec (w_attempt w))))] @
         (case w_run w of None \<Rightarrow> [] | Some k \<Rightarrow> [(''runId'', JStr k)])))) now) (\<lambda>_. return_op ()))) d"

definition complete_request :: "string \<Rightarrow> scheduler_result \<Rightarrow> string \<Rightarrow> request_row store_op" where
  "complete_request rid result now d = (case getWorkflowByRequestId rid d of
     None \<Rightarrow> (Inl (WorkflowRequestNotFound rid), d)
   | Some _ \<Rightarrow> and_then (updateWorkflow rid (result_update result)) (\<lambda>w.
       and_then (enqueueParent (w_uid w) now) (\<lambda>_.
         and_then (record_request_event w ''workflow_state_changed'' now) (\<lambda>_. return_op w))) d)"

text \<open>What the record needs before the scheduler is asked: a run identifier, and a new attempt
  after an interruption or before the first run.\<close>

definition prepare_attempt :: "string \<Rightarrow> request_row \<Rightarrow> request_row store_op" where
  "prepare_attempt newRun w =
     (if w_state w = ChInterrupted \<or> w_attempt w = 0 then
        updateWorkflow (w_id w) \<lparr>up_run = Some (Some newRun), up_state = ChPending,
          up_attempt = Some (w_attempt w + 1), up_error = Some None\<rparr>
      else if w_run w = None then
        updateWorkflow (w_id w) \<lparr>up_run = Some (Some newRun), up_state = ChPending,
          up_attempt = None, up_error = Some None\<rparr>
      else return_op w)"

definition settled_child :: "child_state \<Rightarrow> bool" where
  "settled_child s \<longleftrightarrow> s = ChSucceeded \<or> s = ChFailed \<or> s = ChWaiting"

text \<open>
  The answer also names the request handed to the scheduler, if any.  \<open>answer\<close> is the scheduler:
  its result or what it threw.  \<open>during\<close> is what happened to the store while it was awaited.
\<close>

definition ask_scheduler ::
    "(scheduler_request \<Rightarrow> (string, scheduler_result) result) \<Rightarrow> (db \<Rightarrow> db) \<Rightarrow> bool \<Rightarrow> jv \<Rightarrow> string \<Rightarrow>
     request_row \<Rightarrow> (request_row \<times> scheduler_request option) child_op" where
  "ask_scheduler answer during created input now w d = (case w_run w of
     None \<Rightarrow> (Inl (NoRunId (w_id w)), d)
   | Some k \<Rightarrow>
       let request = \<lparr>sq_id = w_id w, sq_attempt = w_attempt w, sq_workflow = w_workflow w,
             sq_input = input, sq_run = k\<rparr> in
       (case answer request of
          Inl e \<Rightarrow> (Inl (SchedulerThrew e), during d)
        | Inr result \<Rightarrow>
            and_then (child_store (updateWorkflow (w_id w) (result_update result))) (\<lambda>w'.
              and_then (child_store
                (if created \<or> sr_state result \<noteq> ChRunning
                 then record_request_event w' (if created then ''workflow_requested'' else ''workflow_state_changed'') now
                 else return_op ()))
              (\<lambda>_. return_op (w', Some request))) (during d)))"

definition ensure_child ::
    "(string \<Rightarrow> string) \<Rightarrow> (scheduler_request \<Rightarrow> (string, scheduler_result) result) option \<Rightarrow> (db \<Rightarrow> db) \<Rightarrow>
     resource \<Rightarrow> string \<Rightarrow> string \<Rightarrow> jv \<Rightarrow> string \<Rightarrow> string \<Rightarrow> string \<Rightarrow> (request_row \<times> scheduler_request option) child_op" where
  "ensure_child sha256 scheduler during r key workflow input rid newRun now =
     with_result (case jsonFingerprint sha256 input of Inl e \<Rightarrow> Inl (ChildStore (BadJson e)) | Inr f \<Rightarrow> Inr f) (\<lambda>fingerprint.
     and_then (child_store (reserveWorkflow (res_uid r) key workflow fingerprint rid)) (\<lambda>(w0, created).
       if settled_child (w_state w0) then return_op (w0, None)
       else (case scheduler of
         None \<Rightarrow> return_op (w0, None)
       | Some answer \<Rightarrow> and_then (child_store (prepare_attempt newRun w0)) (ask_scheduler answer during created input now))))"

section \<open>The scheduler\<close>

definition resultFromStatus :: "run_status \<Rightarrow> string \<Rightarrow> string option \<Rightarrow> bool \<Rightarrow> scheduler_result" where
  "resultFromStatus status runId err interrupted =
     (if interrupted then \<lparr>sr_state = ChInterrupted, sr_run = Some runId, sr_error = err\<rparr>
      else (case status of
        StRunning \<Rightarrow> \<lparr>sr_state = ChRunning, sr_run = Some runId, sr_error = None\<rparr>
      | StWaiting \<Rightarrow> \<lparr>sr_state = ChWaiting, sr_run = Some runId, sr_error = None\<rparr>
      | StCompleted \<Rightarrow> \<lparr>sr_state = ChSucceeded, sr_run = Some runId, sr_error = None\<rparr>
      | StFailed \<Rightarrow> \<lparr>sr_state = ChFailed, sr_run = Some runId, sr_error = err\<rparr>
      | StTimedOut \<Rightarrow> \<lparr>sr_state = ChFailed, sr_run = Some runId, sr_error = err\<rparr>
      | StCancelled \<Rightarrow> \<lparr>sr_state = ChFailed, sr_run = Some runId, sr_error = err\<rparr>))"

definition requestKey :: "scheduler_request \<Rightarrow> string" where
  "requestKey q = sq_id q @ '':'' @ nat_dec (sq_attempt q)"

text \<open>
  What \<open>WorkflowEngineScheduler.ensure\<close> sees: whether the signal is aborted before and after the
  workflow is resolved, the run bundle on disk with the answer of \<open>markRunInterrupted\<close> for a
  running one, the type of the last trace event, and whether resolving the workflow succeeds.
\<close>

record bundle_view =
  bv_status :: run_status
  bv_error :: "string option"
  bv_interrupted :: bool

record scheduler_world =
  sw_aborted :: bool
  sw_bundle :: "bundle_view option"
  sw_marked :: "bundle_view option"
  sw_resolved :: "(string, unit) result"
  sw_aborted_late :: bool

datatype scheduler_error = SchedulingAborted | ResolveFailed string

text \<open>The answer, the new table of active runs, and whether an engine run was started.\<close>

definition scheduler_ensure ::
    "scheduler_world \<Rightarrow> scheduler_request \<Rightarrow> (string \<times> string) list \<Rightarrow>
     (scheduler_error, scheduler_result) result \<times> (string \<times> string) list \<times> bool" where
  "scheduler_ensure w q active =
     (if sw_aborted w then (Inl SchedulingAborted, active, False)
      else (case map_of active (requestKey q) of
        Some k \<Rightarrow> (Inr \<lparr>sr_state = ChRunning, sr_run = Some k, sr_error = None\<rparr>, active, False)
      | None \<Rightarrow> (case sw_bundle w of
          Some b \<Rightarrow>
            (case (if bv_status b = StRunning then sw_marked w else Some b) of
               None \<Rightarrow> (Inr \<lparr>sr_state = ChPending, sr_run = None, sr_error = None\<rparr>, active, False)
             | Some recovered \<Rightarrow> (Inr (resultFromStatus (bv_status recovered) (sq_run q) (bv_error recovered)
                 (bv_interrupted recovered)), active, False))
        | None \<Rightarrow> (case sw_resolved w of
            Inl e \<Rightarrow> (Inl (ResolveFailed e), active, False)
          | Inr _ \<Rightarrow>
              if sw_aborted_late w then (Inl SchedulingAborted, active, False)
              else (Inr \<lparr>sr_state = ChRunning, sr_run = Some (sq_run q), sr_error = None\<rparr>,
                AList.update (requestKey q) (sq_run q) active, True)))))"

section \<open>One run per attempt\<close>

lemma child_store_Inr: "child_store f d = (Inr a, d') \<longleftrightarrow> f d = (Inr a, d')"
  by (auto simp: child_store_def split: prod.splits sum.splits)

lemma workflowRow_Some: "workflowRow uid key d = Some w \<Longrightarrow> w \<in> set (requests d) \<and> w_uid w = uid \<and> w_key w = key"
  by (auto simp: workflowRow_def dest: sql_get_Some)

lemma reserveWorkflow_Inr:
  assumes "reserveWorkflow uid key workflow fp rid d = (Inr (w, created), d')"
  shows "if created then workflowRow uid key d = None \<and> w_state w = ChPending \<and> w_attempt w = 0 \<and>
      w_workflow w = workflow \<and> w_id w = rid \<and> w_run w = None
    else workflowRow uid key d = Some w \<and> d' = d \<and> w_fingerprint w = fp \<and> w_workflow w = workflow"
proof (cases "workflowRow uid key d")
  case None
  let ?row = "\<lparr>w_id = rid, w_uid = uid, w_key = key, w_fingerprint = fp,
    w_workflow = workflow, w_run = None, w_state = ChPending, w_attempt = 0, w_error = None\<rparr>"
  obtain t where t: "insert_request ?row d = (Inr (), t)" "requireWorkflow rid t = (Inr w, d')" and created
    using assms None by (auto simp: reserveWorkflow_def op_Inr return_op_def)
  have new: "rid \<notin> w_id ` set (requests d)" "t = d\<lparr>requests := requests d @ [?row]\<rparr>"
    using t(1) by (auto simp: insert_request_def split: if_splits)
  have "sql_get (\<lambda>w. w_id w = rid) (requests d) = None" using new(1) by (auto simp: sql_get_None)
  then have "sql_get (\<lambda>w. w_id w = rid) (requests t) = Some ?row"
    by (simp add: new(2) sql_get_append) (simp add: sql_get_def)
  then have "w = ?row"
    using t(2) by (simp add: requireWorkflow_def getWorkflowByRequestId_def workflowFromRow_def)
  then show ?thesis using None \<open>created\<close> by simp
next
  case (Some row)
  then show ?thesis
    using assms by (auto simp: reserveWorkflow_def op_Inr workflowFromRow_def split: if_splits)
qed

lemma updateWorkflow_Inr:
  assumes "updateWorkflow rid u d = (Inr w, d')"
  obtains w0 where "sql_get (\<lambda>w. w_id w = rid) (requests d) = Some w0" and "w = apply_update u w0"
    and "d' = d\<lparr>requests := sql_update (\<lambda>w. w_id w = rid) (\<lambda>_. apply_update u w0) (requests d)\<rparr>"
proof (cases "sql_get (\<lambda>w. w_id w = rid) (requests d)")
  case None
  then show ?thesis using assms by (simp add: updateWorkflow_def)
next
  case (Some w0)
  then have id: "w_id w0 = rid" by (auto dest: sql_get_Some)
  have "sql_get (\<lambda>w. w_id w = rid) (sql_update (\<lambda>w. w_id w = rid) (\<lambda>_. apply_update u w0) (requests d)) =
      Some (apply_update u w0)"
    using Some id sql_get_sql_update[of "\<lambda>w. w_id w = rid" "\<lambda>w. w_id w = rid" "\<lambda>_. apply_update u w0" "requests d"]
    by (simp add: apply_update_def)
  then show ?thesis
    using assms Some that by (auto simp: updateWorkflow_def requireWorkflow_def getWorkflowByRequestId_def
        workflowFromRow_def)
qed

text \<open>The request a row leads to: the attempt and the run it is tried under.\<close>

definition next_attempt :: "request_row option \<Rightarrow> nat" where
  "next_attempt w = (case w of None \<Rightarrow> 1
     | Some r \<Rightarrow> if w_state r = ChInterrupted \<or> w_attempt r = 0 then w_attempt r + 1 else w_attempt r)"

definition next_run :: "string \<Rightarrow> request_row option \<Rightarrow> string" where
  "next_run newRun w = (case w of None \<Rightarrow> newRun
     | Some r \<Rightarrow> if w_state r = ChInterrupted \<or> w_attempt r = 0 then newRun
         else (case w_run r of None \<Rightarrow> newRun | Some k \<Rightarrow> k))"

lemma prepare_attempt_Inr:
  assumes "prepare_attempt newRun w0 d = (Inr w, d')" and "keyed w_id (requests d)" and "w0 \<in> set (requests d)"
  shows "w_id w = w_id w0 \<and> w_attempt w = next_attempt (Some w0) \<and>
    w_run w = Some (next_run newRun (Some w0)) \<and> w_workflow w = w_workflow w0"
proof -
  have get: "sql_get (\<lambda>w. w_id w = w_id w0) (requests d) = Some w0"
    by (rule sql_get_keyed[OF assms(2,3)])
  have upd: "w = apply_update u w0" if "updateWorkflow (w_id w0) u d = (Inr w, d')" for u
    by (rule updateWorkflow_Inr[OF that]) (simp add: get)
  show ?thesis
    using assms(1)
    by (auto simp: prepare_attempt_def next_attempt_def next_run_def return_op_def apply_update_def
        split: if_splits option.splits dest!: upd)
qed

text \<open>The requests have one identifier and one key each.\<close>

definition requests_ok :: "db \<Rightarrow> bool" where
  "requests_ok d \<longleftrightarrow> keyed w_id (requests d) \<and> keyed (\<lambda>w. (w_uid w, w_key w)) (requests d)"

lemma reserveWorkflow_keyed:
  assumes "reserveWorkflow uid key workflow fp rid d = (Inr (w, created), d')" and "keyed w_id (requests d)"
  shows "keyed w_id (requests d') \<and> w \<in> set (requests d')"
proof (cases "workflowRow uid key d")
  case None
  let ?row = "\<lparr>w_id = rid, w_uid = uid, w_key = key, w_fingerprint = fp,
    w_workflow = workflow, w_run = None, w_state = ChPending, w_attempt = 0, w_error = None\<rparr>"
  obtain t where t: "insert_request ?row d = (Inr (), t)" "requireWorkflow rid t = (Inr w, d')"
    using assms(1) None by (auto simp: reserveWorkflow_def op_Inr return_op_def)
  have "rid \<notin> w_id ` set (requests d)" "t = d\<lparr>requests := requests d @ [?row]\<rparr>"
    using t(1) by (auto simp: insert_request_def split: if_splits)
  moreover have "d' = t" "w \<in> set (requests t)"
    using t(2) by (auto simp: requireWorkflow_def getWorkflowByRequestId_def workflowFromRow_def split: option.splits
        dest: sql_get_Some)
  ultimately show ?thesis using assms(2) by (simp add: keyed_append)
next
  case (Some row)
  then show ?thesis using assms workflowRow_Some[OF Some]
    by (auto simp: reserveWorkflow_def op_Inr workflowFromRow_def split: if_splits)
qed

text \<open>
  C38: One run per attempt.  When ensure asks the scheduler, the request names the attempt and the
  run recorded for this key: the first attempt for a new key, the next one with a fresh run only
  after an interruption, and otherwise the same attempt under the same run as before, so asking
  again cannot start a second run; the workflow and the input fingerprint are those recorded, and
  a settled child (succeeded, failed or waiting) is never handed to the scheduler.
\<close>

theorem child_attempts_are_stable:
  assumes "ensure_child sha256 scheduler during r key workflow input rid newRun now d = (Inr (w, Some q), d')"
    and "requests_ok d"
  shows "sq_attempt q = next_attempt (workflowRow (res_uid r) key d) \<and>
    sq_run q = next_run newRun (workflowRow (res_uid r) key d) \<and>
    sq_workflow q = workflow \<and> sq_input q = input \<and>
    (case workflowRow (res_uid r) key d of None \<Rightarrow> sq_id q = rid
     | Some row \<Rightarrow> sq_id q = w_id row \<and> \<not> settled_child (w_state row) \<and> w_workflow row = workflow \<and>
         jsonFingerprint sha256 input = Inr (w_fingerprint row))"
proof -
  obtain answer fp w0 created d1 w1 d2 where fp: "jsonFingerprint sha256 input = Inr fp"
    and res: "reserveWorkflow (res_uid r) key workflow fp rid d = (Inr (w0, created), d1)"
    and unsettled: "\<not> settled_child (w_state w0)"
    and prep: "prepare_attempt newRun w0 d1 = (Inr w1, d2)"
    and ask: "ask_scheduler answer during created input now w1 d2 = (Inr (w, Some q), d')"
    using assms(1)
    by (auto simp: ensure_child_def op_Inr child_store_Inr return_op_def split: sum.splits option.splits if_splits)
  obtain k where run: "w_run w1 = Some k"
    and q: "q = \<lparr>sq_id = w_id w1, sq_attempt = w_attempt w1, sq_workflow = w_workflow w1, sq_input = input, sq_run = k\<rparr>"
    using ask by (auto simp: ask_scheduler_def op_Inr return_op_def Let_def split: sum.splits option.splits)
  have keyed: "keyed w_id (requests d1)" "w0 \<in> set (requests d1)"
    using reserveWorkflow_keyed[OF res] assms(2) by (simp_all add: requests_ok_def)
  note prepared = prepare_attempt_Inr[OF prep keyed]
  show ?thesis
  proof (cases created)
    case True
    then have new: "workflowRow (res_uid r) key d = None" "w_attempt w0 = 0" "w_workflow w0 = workflow" "w_id w0 = rid"
      using reserveWorkflow_Inr[OF res] by simp_all
    then have "next_attempt (Some w0) = 1" "next_run newRun (Some w0) = newRun"
      by (simp_all add: next_attempt_def next_run_def)
    then show ?thesis using prepared new run by (simp add: q next_attempt_def next_run_def)
  next
    case False
    then show ?thesis using reserveWorkflow_Inr[OF res] prepared fp run unsettled by (simp add: q)
  qed
qed

text \<open>
  A settled child is left alone.  Ensuring a child that succeeded, failed or waits, with the
  same workflow and input, returns its record and changes nothing, whatever the scheduler is; with
  another workflow or input it is a conflict that changes nothing.
\<close>

theorem settled_children_stay:
  assumes "workflowRow (res_uid r) key d = Some row" and "settled_child (w_state row)"
    and "valid_key key" and "valid_key workflow" and "jsonFingerprint sha256 input = Inr fp"
  shows "ensure_child sha256 scheduler during r key workflow input rid newRun now d =
    (if fp = w_fingerprint row \<and> workflow = w_workflow row then Inr (row, None)
     else Inl (ChildStore (WorkflowRequestConflict key)), d)"
  using assms
  by (auto simp: ensure_child_def reserveWorkflow_def guarded_pass validator_defs transact_def with_result_def
      and_then_def child_store_def return_op_def workflowFromRow_def)

section \<open>The end of a run wakes its parent\<close>

lemma recordEvent_frame:
  "recordEvent c k type payload now d = (r, d') \<Longrightarrow>
    queue d' = queue d \<and> requests d' = requests d \<and> resources d' = resources d"
  by (auto simp: recordEvent_def guarded_def with_result_def requireEvent_def Let_def split: option.splits sum.splits)

lemma record_request_event_frame:
  assumes "record_request_event w type now d = (r, d')"
  shows "queue d' = queue d \<and> requests d' = requests d"
proof -
  have "keeps (\<lambda>d d'. queue d' = queue d \<and> requests d' = requests d) (recordEvent c k type payload now)"
    for c k type payload now
    unfolding keeps_def using recordEvent_frame[of c k type payload now] by (metis surjective_pairing)
  moreover have "reflp (\<lambda>d d' :: db. queue d' = queue d \<and> requests d' = requests d)"
    "transp (\<lambda>d d' :: db. queue d' = queue d \<and> requests d' = requests d)"
    by (auto simp: reflp_def transp_def)
  ultimately have "keeps (\<lambda>d d'. queue d' = queue d \<and> requests d' = requests d)
      (and_then (recordEvent c k type payload now) (\<lambda>_. return_op ()))" for c k type payload now
    by (intro keeps_and_then keeps_return)
  then have "queue (snd (record_request_event w type now d)) = queue d \<and>
      requests (snd (record_request_event w type now d)) = requests d"
    unfolding record_request_event_def keeps_def
    by (auto simp: with_result_def return_op_def split: sum.split option.split)
  then show ?thesis using assms by simp
qed

lemma enqueue_due:
  assumes "enqueue ref at d = (Inr (), d')" and "date_parse at = Some m"
  shows "(\<exists>q. queue_row_of ref d' = Some q \<and> q_available q \<le> m) \<and> requests d' = requests d"
proof -
  have due: "enqueueRow ref m d = (Inr (), d')"
    using assms by (auto simp: enqueue_def op_Inr epoch_Inr split: if_splits)
  show ?thesis
  proof (cases "queue_row_of ref d")
    case None
    then have no: "\<not> (\<exists>q \<in> set (queue d). q_ref q = ref)" by (simp add: queue_row_of_def sql_get_None)
    let ?q = "\<lparr>q_controller = fst ref, q_key = snd ref, q_available = m, q_version = 1, q_errors = 0,
      q_last_error = None, q_token = None, q_claim_version = None, q_expires = None\<rparr>"
    have "d' = d\<lparr>queue := queue d @ [?q]\<rparr>" using due no by (auto simp: enqueueRow_def split: if_splits)
    then have "queue_row_of ref d' = Some ?q"
      using None by (simp add: queue_row_of_def sql_get_append) (simp add: sql_get_def q_ref_def)
    then show ?thesis using \<open>d' = _\<close> by simp
  next
    case (Some q)
    then have row: "q \<in> set (queue d)" "q_ref q = ref" by (auto simp: queue_row_of_def dest: sql_get_Some)
    then have "d' = d\<lparr>queue := sql_update (\<lambda>q. q_ref q = ref)
        (\<lambda>q. q\<lparr>q_available := min (q_available q) m, q_version := q_version q + 1\<rparr>) (queue d)\<rparr>"
      using due by (auto simp: enqueueRow_def split: if_splits)
    then show ?thesis using Some row by (auto simp: queue_row_of_def sql_get_sql_update)
  qed
qed

text \<open>
  C39: The end of a child run reaches its parent.  When complete is called for a known request, its
  row takes the state and error reported (and the run identifier, when one is given) and keeps its
  key, attempt and workflow; and if the resource still exists, it is in the work queue and due no
  later than now, so the controller will reconcile it.
\<close>

theorem completion_wakes_parent:
  assumes "complete_request rid result now d = (Inr w, d')" and "date_parse now = Some m"
    and "sql_get (\<lambda>w. w_id w = rid) (requests d) = Some w0"
    and "getResourceByUid (w_uid w0) (d\<lparr>requests := sql_update (\<lambda>w. w_id w = rid)
          (\<lambda>_. apply_update (result_update result) w0) (requests d)\<rparr>) = Inr (Some r)"
  shows "w_state w = sr_state result \<and> w_attempt w = w_attempt w0 \<and> w_key w = w_key w0 \<and>
    w_workflow w = w_workflow w0 \<and> w_run w = (case sr_run result of None \<Rightarrow> w_run w0 | Some k \<Rightarrow> Some k) \<and>
    getWorkflowByRequestId rid d' = Some w \<and>
    (\<exists>q. queue_row_of (res_controller r, res_key r) d' = Some q \<and> q_available q \<le> m)"
proof -
  obtain d1 d2 where upd: "updateWorkflow rid (result_update result) d = (Inr w, d1)"
    and enq: "enqueueParent (w_uid w) now d1 = (Inr (), d2)"
    and ev: "record_request_event w ''workflow_state_changed'' now d2 = (Inr (), d')"
    using assms(1) by (auto simp: complete_request_def op_Inr return_op_def split: option.splits)
  have row: "w = apply_update (result_update result) w0"
    and d1: "d1 = d\<lparr>requests := sql_update (\<lambda>w. w_id w = rid) (\<lambda>_. apply_update (result_update result) w0) (requests d)\<rparr>"
    by (rule updateWorkflow_Inr[OF upd]; use assms(3) in simp)+
  have "enqueue (res_controller r, res_key r) now d1 = (Inr (), d2)"
    using enq assms(4) by (simp add: enqueueParent_def with_result_def d1 row apply_update_def)
  note woken = enqueue_due[OF this assms(2)]
  have id: "w_id w0 = rid" using assms(3) by (auto dest: sql_get_Some)
  have "sql_get (\<lambda>w. w_id w = rid) (requests d1) = Some w"
    using assms(3) id
      sql_get_sql_update[of "\<lambda>w. w_id w = rid" "\<lambda>w. w_id w = rid" "\<lambda>_. apply_update (result_update result) w0" "requests d"]
    by (simp add: d1 row) (simp add: apply_update_def)
  then have "getWorkflowByRequestId rid d' = Some w"
    using woken record_request_event_frame[OF ev] by (simp add: getWorkflowByRequestId_def workflowFromRow_def)
  then show ?thesis
    using woken record_request_event_frame[OF ev]
    by (auto simp: row apply_update_def result_update_def queue_row_of_def split: option.split)
qed

section \<open>One engine per attempt\<close>

lemma last_segment: "c \<notin> set y \<Longrightarrow> takeWhile (\<lambda>x. x \<noteq> c) (rev (a @ c # y)) = rev y"
  by (auto simp: takeWhile_append takeWhile_eq_all_conv)

lemma requestKey_injective: "requestKey q = requestKey q' \<longleftrightarrow> sq_id q = sq_id q' \<and> sq_attempt q = sq_attempt q'"
proof
  assume same: "requestKey q = requestKey q'"
  have digits: "CHR '':'' \<notin> set (nat_dec n)" for n
    using dec_digits_digits[of n] by (auto simp: list_all_iff nat_dec_def is_digit_def code_of_def)
  have text_eq: "sq_id q @ CHR '':'' # nat_dec (sq_attempt q) = sq_id q' @ CHR '':'' # nat_dec (sq_attempt q')"
    using same by (simp add: requestKey_def)
  have "rev (nat_dec (sq_attempt q)) = rev (nat_dec (sq_attempt q'))"
    using last_segment[OF digits, of "sq_id q" "sq_attempt q"] last_segment[OF digits, of "sq_id q'" "sq_attempt q'"]
    unfolding text_eq by (rule trans[OF sym])
  then have dec: "nat_dec (sq_attempt q) = nat_dec (sq_attempt q')" by simp
  then have "sq_attempt q = sq_attempt q'" by (metis dec_val_digits nat_dec_def)
  then show "sq_id q = sq_id q' \<and> sq_attempt q = sq_attempt q'" using same dec by (simp add: requestKey_def)
qed (simp add: requestKey_def)

text \<open>
  One engine per attempt.  When the scheduler starts an engine, no engine was active for this
  request and attempt and no run bundle existed under its run identifier; from then on every
  request for the same attempt is answered "running" under the same run without starting another
  engine, whatever the disk holds and until the run ends; and no other request is affected.
\<close>

theorem one_engine_per_attempt:
  assumes "scheduler_ensure w q active = (Inr res, active', True)"
  shows "map_of active (requestKey q) = None \<and> sw_bundle w = None \<and>
    res = \<lparr>sr_state = ChRunning, sr_run = Some (sq_run q), sr_error = None\<rparr> \<and>
    (\<not> sw_aborted w2 \<longrightarrow> sq_id q2 = sq_id q \<longrightarrow> sq_attempt q2 = sq_attempt q \<longrightarrow>
      scheduler_ensure w2 q2 active' = (Inr res, active', False)) \<and>
    (sq_id q2 \<noteq> sq_id q \<or> sq_attempt q2 \<noteq> sq_attempt q \<longrightarrow>
      map_of active' (requestKey q2) = map_of active (requestKey q2))"
proof -
  have started: "map_of active (requestKey q) = None" "sw_bundle w = None"
      "res = \<lparr>sr_state = ChRunning, sr_run = Some (sq_run q), sr_error = None\<rparr>"
      "active' = AList.update (requestKey q) (sq_run q) active"
    using assms by (auto simp: scheduler_ensure_def split: if_splits option.splits sum.splits)
  then have "map_of active' = (map_of active)(requestKey q \<mapsto> sq_run q)" by (simp add: update_conv')
  then show ?thesis using started(1-3) requestKey_injective[of q2 q] by (auto simp: scheduler_ensure_def)
qed

section \<open>The properties at work\<close>

definition child_row :: "child_state \<Rightarrow> request_row" where
  "child_row s = \<lparr>w_id = ''req'', w_uid = ''u'', w_key = ''build'', w_fingerprint = ''null'', w_workflow = ''plan'',
     w_run = Some ''run-1'', w_state = s, w_attempt = 1, w_error = None\<rparr>"

definition child_db :: "child_state \<Rightarrow> db" where
  "child_db s = sample_db\<lparr>requests := [child_row s]\<rparr>"

definition child_resource :: resource where
  "child_resource = \<lparr>res_uid = ''u'', res_controller = ''c'', res_key = ''k'', res_version = 1,
     res_generation = 1, res_deletion = None, res_finalizers = [], res_spec = JNull, res_status = JNull\<rparr>"

definition still_running :: "scheduler_request \<Rightarrow> (string, scheduler_result) result" where
  "still_running q = Inr \<lparr>sr_state = ChRunning, sr_run = Some (sq_run q), sr_error = None\<rparr>"

lemma sample_child: "workflowRow ''u'' ''build'' (child_db s) = Some (child_row s)"
  by (simp add: child_db_def workflowRow_def sql_get_def child_row_def)

theorem settled_children_stay_witness:
  "ensure_child id None id child_resource ''build'' ''plan'' JNull ''x'' ''y'' ''z'' (child_db ChWaiting) =
    (if ''null'' = w_fingerprint (child_row ChWaiting) \<and> ''plan'' = w_workflow (child_row ChWaiting)
     then Inr (child_row ChWaiting, None)
     else Inl (ChildStore (WorkflowRequestConflict ''build'')), child_db ChWaiting)"
proof (rule settled_children_stay)
  show "workflowRow (res_uid child_resource) ''build'' (child_db ChWaiting) = Some (child_row ChWaiting)"
    using sample_child by (simp add: child_resource_def)
qed (simp_all add: settled_child_def child_row_def valid_key_def MAX_KEY_LENGTH_def char_class_defs
    jsonFingerprint_def canonicalJson_def)

lemma sample_asked:
  "\<exists>d'. ensure_child id (Some still_running) id child_resource ''build'' ''plan'' JNull ''x'' ''y'' ''z'' (child_db ChRunning) =
    (Inr (child_row ChRunning, Some \<lparr>sq_id = ''req'', sq_attempt = 1, sq_workflow = ''plan'', sq_input = JNull,
       sq_run = ''run-1''\<rparr>), d')"
proof -
  have "reserveWorkflow ''u'' ''build'' ''plan'' ''null'' ''x'' (child_db ChRunning) =
      (Inr (child_row ChRunning, False), child_db ChRunning)"
    unfolding reserveWorkflow_def
    by (subst guarded_pass)
      (simp_all add: validator_defs valid_key_def MAX_KEY_LENGTH_def char_class_defs transact_def sample_child
        workflowFromRow_def, simp add: child_row_def)
  then show ?thesis
    by (simp add: ensure_child_def child_resource_def jsonFingerprint_def canonicalJson_def with_result_def
        and_then_def child_store_def prepare_attempt_def return_op_def ask_scheduler_def Let_def still_running_def
        updateWorkflow_def requireWorkflow_def getWorkflowByRequestId_def child_db_def sql_get_def sql_update_def
        child_row_def settled_child_def apply_update_def result_update_def workflowFromRow_def)
qed

theorem child_attempts_are_stable_witness:
  "next_attempt (workflowRow ''u'' ''build'' (child_db ChRunning)) = 1 \<and>
   next_run ''y'' (workflowRow ''u'' ''build'' (child_db ChRunning)) = ''run-1''"
proof -
  obtain d' where run: "ensure_child id (Some still_running) id child_resource ''build'' ''plan'' JNull ''x'' ''y'' ''z''
      (child_db ChRunning) = (Inr (child_row ChRunning, Some \<lparr>sq_id = ''req'', sq_attempt = 1, sq_workflow = ''plan'',
       sq_input = JNull, sq_run = ''run-1''\<rparr>), d')"
    using sample_asked by blast
  show ?thesis
    using child_attempts_are_stable[OF run]
    by (simp add: requests_ok_def child_db_def keyed_def child_resource_def)
qed

theorem one_engine_per_attempt_witness:
  "scheduler_ensure \<lparr>sw_aborted = False, sw_bundle = None, sw_marked = None, sw_resolved = Inl ''gone'', sw_aborted_late = False\<rparr>
     \<lparr>sq_id = ''a'', sq_attempt = 1, sq_workflow = ''w'', sq_input = JNull, sq_run = ''r2''\<rparr> [(''a:1'', ''r'')] =
   (Inr \<lparr>sr_state = ChRunning, sr_run = Some ''r'', sr_error = None\<rparr>, [(''a:1'', ''r'')], False)"
proof -
  have start: "scheduler_ensure \<lparr>sw_aborted = False, sw_bundle = None, sw_marked = None, sw_resolved = Inr (),
       sw_aborted_late = False\<rparr> \<lparr>sq_id = ''a'', sq_attempt = 1, sq_workflow = ''w'', sq_input = JNull, sq_run = ''r''\<rparr> [] =
    (Inr \<lparr>sr_state = ChRunning, sr_run = Some ''r'', sr_error = None\<rparr>, [(''a:1'', ''r'')], True)"
    by (simp add: scheduler_ensure_def requestKey_def nat_dec_def dec_digits.simps digit_chars)
  show ?thesis using one_engine_per_attempt[OF start] by simp
qed

definition succeeded :: scheduler_result where
  "succeeded = \<lparr>sr_state = ChSucceeded, sr_run = None, sr_error = None\<rparr>"

lemma sample_parent: "getResourceByUid ''u'' (child_db s) = Inr (Some (child_resource\<lparr>res_spec := JObj [], res_status := JObj []\<rparr>))"
  by (simp add: getResourceByUid_def child_db_def sample_db_def resourceFromRow_def stored_json_def parseStoredJson_def
      sample_parse stored_finalizers_def sql_get_def validateFinalizers_def child_resource_def)

lemma sample_finished:
  "updateWorkflow ''req'' (result_update succeeded) (child_db ChRunning) = (Inr (child_row ChSucceeded), child_db ChSucceeded)"
  by (simp add: updateWorkflow_def requireWorkflow_def getWorkflowByRequestId_def child_db_def sql_get_def sql_update_def
      child_row_def apply_update_def result_update_def workflowFromRow_def succeeded_def)

definition sample_payload :: jv where
  "sample_payload = JObj [(''requestId'', JStr ''req''), (''requestKey'', JStr ''build''),
     (''state'', JStr ''succeeded''), (''attempt'', JNum (NumFin ''1'')), (''runId'', JStr ''run-1'')]"

definition sample_text :: string where
  "sample_text = ''{\"attempt\":1,\"requestId\":\"req\",\"requestKey\":\"build\",\"runId\":\"run-1\",\"state\":\"succeeded\"}''"

lemma sample_column: "json_column sample_payload ''controller event payload'' = Inr sample_text"
  by code_simp

lemma sample_column_reads: "\<exists>v. stored_json sample_text ''controller event payload'' = Inr v"
  by (rule json_column_reads_back[OF _ sample_column]) code_simp

lemma sample_column_size: "utf8_length sample_text \<le> MAX_EVENT_BYTES"
  by (simp add: utf8_length_def sample_text_def MAX_EVENT_BYTES_def code_of_def)

lemma sample_recorded:
  assumes "last_event d = 0" and "events d = []"
  shows "\<exists>e d'. recordEvent ''c'' ''k'' ''workflow_state_changed'' (Some sample_payload) ''1970-01-01T00:00:01.000Z'' d =
    (Inr e, d')"
proof -
  obtain v where "stored_json sample_text ''controller event payload'' = Inr v" using sample_column_reads ..
  then show ?thesis
    unfolding recordEvent_def
    by (subst guarded_pass)
      (simp_all add: validator_defs name_pattern_def valid_key_def MAX_KEY_LENGTH_def char_class_defs sample_times
        sample_column with_result_def guarded_pass sample_column_size requireEvent_def eventFromRow_def sql_get_def assms Let_def)
qed

lemma sample_completed:
  "\<exists>d'. complete_request ''req'' succeeded ''1970-01-01T00:00:01.000Z'' (child_db ChRunning) =
    (Inr (child_row ChSucceeded), d')"
proof -
  let ?ref = "(''c'', ''k'')" and ?now = "''1970-01-01T00:00:01.000Z''" and ?w = "child_row ChSucceeded"
  have uid: "w_uid ?w = ''u''" by (simp add: child_row_def)
  let ?d = "child_db ChSucceeded\<lparr>queue := map (\<lambda>q. q\<lparr>q_available := 0, q_version := 2\<rparr>) (queue sample_db)\<rparr>"
  have "enqueue ?ref ?now (child_db ChSucceeded) = (Inr (), ?d)"
    by (simp add: enqueue_def store_eval sample_times enqueueRow_def child_db_def sample_db_def q_ref_def
        resourceRow_def rr_ref_def empty_db_def)
  then have "enqueueParent ''u'' ?now (child_db ChSucceeded) = (Inr (), ?d)"
    by (simp add: enqueueParent_def sample_parent with_result_def child_resource_def)
  moreover have "\<exists>d'. record_request_event ?w ''workflow_state_changed'' ?now ?d = (Inr (), d')"
  proof -
    obtain e d' where "recordEvent ''c'' ''k'' ''workflow_state_changed'' (Some sample_payload) ?now ?d = (Inr e, d')"
      using sample_recorded[of ?d] by (auto simp: child_db_def sample_db_def empty_db_def)
    moreover have "getResourceByUid ''u'' ?d = getResourceByUid ''u'' (child_db ChSucceeded)"
      by (simp add: getResourceByUid_def)
    ultimately show ?thesis
      by (simp add: record_request_event_def uid sample_parent with_result_def child_resource_def and_then_def return_op_def)
        (simp add: return_op_def child_row_def child_state_text_def sample_payload_def nat_dec_def dec_digits.simps digit_chars)
  qed
  moreover have "getWorkflowByRequestId ''req'' (child_db ChRunning) = Some (child_row ChRunning)"
    by (simp add: getWorkflowByRequestId_def child_db_def sql_get_def child_row_def workflowFromRow_def)
  ultimately show ?thesis
    by (auto simp: complete_request_def and_then_def return_op_def sample_finished uid)
qed

theorem completion_wakes_parent_witness:
  "\<exists>d'. getWorkflowByRequestId ''req'' d' = Some (child_row ChSucceeded) \<and>
    (\<exists>q. queue_row_of (''c'', ''k'') d' = Some q \<and> q_available q \<le> 1000)"
proof -
  obtain d' where run: "complete_request ''req'' succeeded ''1970-01-01T00:00:01.000Z'' (child_db ChRunning) =
      (Inr (child_row ChSucceeded), d')" using sample_completed by blast
  have get: "sql_get (\<lambda>w. w_id w = ''req'') (requests (child_db ChRunning)) = Some (child_row ChRunning)"
    by (simp add: child_db_def sql_get_def child_row_def)
  have parent: "getResourceByUid (w_uid (child_row ChRunning)) (child_db ChRunning\<lparr>requests := rs\<rparr>) =
      Inr (Some (child_resource\<lparr>res_spec := JObj [], res_status := JObj []\<rparr>))" for rs
    using sample_parent[of ChRunning] by (simp add: getResourceByUid_def child_row_def)
  show ?thesis
    using completion_wakes_parent[OF run sample_times(1) get parent]
    by (intro exI[of _ d']) (simp add: child_resource_def)
qed

end
