(* ===== verification/TurnIntents.thy ===== *)
theory TurnIntents
  imports RunQueue Lease
begin

text \<open>
  Deferred turn intents (src/controllers/sqlite.ts, \<open>ensureWorkflowTurnIntent\<close> to
  \<open>listWorkflowTurnIntents\<close>): the outbox of turns a run wants in its origin session.  An intent is
  stored once, becomes eligible, is claimed under a lease by a deliverer and resolved once.
\<close>

section \<open>Facts\<close>

definition TURN_INTENT_FACTS_SCHEMA :: string where
  "TURN_INTENT_FACTS_SCHEMA = ''pi-workflows.deferred-turn-facts.v1''"

definition cause_text :: "intent_cause \<Rightarrow> string" where
  "cause_text c = (case c of AgentCancelled \<Rightarrow> ''agentCancelled'' | TimedOut \<Rightarrow> ''timedOut'' | CauseFailed \<Rightarrow> ''failed''
     | LaunchFailed \<Rightarrow> ''launchFailed'' | ControllerInterrupted \<Rightarrow> ''controllerInterrupted'' | ClaimLost \<Rightarrow> ''claimLost'')"

definition validateWorkflowTurnIntentCause :: "string \<Rightarrow> (store_error, intent_cause) result" where
  "validateWorkflowTurnIntentCause v =
     (case find_result (\<lambda>c. cause_text c = v)
         [AgentCancelled, TimedOut, CauseFailed, LaunchFailed, ControllerInterrupted, ClaimLost] of
        None \<Rightarrow> Inl (BadFacts ''cause'') | Some c \<Rightarrow> Inr c)"

definition string_field :: "jv obj \<Rightarrow> string \<Rightarrow> string option" where
  "string_field ob k = (case obj_get ob k of Some (JStr s) \<Rightarrow> Some s | _ \<Rightarrow> None)"

definition is_null :: "jv obj \<Rightarrow> string \<Rightarrow> bool" where
  "is_null ob k \<longleftrightarrow> obj_get ob k = Some JNull"

definition facts_keys :: "string list" where
  "facts_keys = [''schema'', ''workflowName'', ''runId'', ''observedState'', ''cause'', ''nodeId'', ''attemptId'',
     ''reason'', ''handoff'']"

text \<open>The checks in source order; a check may rely on those before it, as the source does.\<close>

definition facts_checks :: "jv obj \<Rightarrow> (bool \<times> store_error) list" where
  "facts_checks ob =
     (let text_of = (\<lambda>k. (case string_field ob k of None \<Rightarrow> [] | Some s \<Rightarrow> s));
          string = (\<lambda>k. (string_field ob k \<noteq> None, BadFacts k));
          string_or_null = (\<lambda>k. (is_null ob k \<or> string_field ob k \<noteq> None, BadFacts k)) in
     (string_field ob ''schema'' = Some TURN_INTENT_FACTS_SCHEMA, BadFacts ''schema'') #
     map (\<lambda>k. (k \<in> set facts_keys, BadFacts k)) (obj_keys ob) @
     [string ''workflowName'', string ''runId'', string ''observedState'', string ''cause'',
      validateKey (text_of ''workflowName'') ''workflow turn facts workflow name'',
      validateRunId (text_of ''runId''),
      validateKey (text_of ''observedState'') ''workflow turn facts observed state'',
      (validateWorkflowTurnIntentCause (text_of ''cause'') \<noteq> Inl (BadFacts ''cause''), BadFacts ''cause''),
      string_or_null ''nodeId'', string_or_null ''attemptId'', string_or_null ''reason''] @
     (if is_null ob ''nodeId'' then [] else [validateKey (text_of ''nodeId'') ''workflow turn facts node id'']) @
     (if is_null ob ''attemptId'' then [] else [validateKey (text_of ''attemptId'') ''workflow turn facts attempt id'']) @
     [(is_null ob ''reason'' \<or> length (text_of ''reason'') \<le> MAX_ERROR_LENGTH, BadFacts ''reason''),
      (obj_get ob ''handoff'' \<in> {Some (JBool True), Some (JBool False)}, BadFacts ''handoff'')])"

definition validateWorkflowTurnIntentFacts :: "jv \<Rightarrow> store_error option" where
  "validateWorkflowTurnIntentFacts v = (case v of
     JObj ob \<Rightarrow> first_failure (facts_checks ob) | _ \<Rightarrow> Some (BadFacts ''not an object''))"

definition workflowTurnIntentFactsJson :: "jv \<Rightarrow> (store_error, string) result" where
  "workflowTurnIntentFactsJson facts = (case validateWorkflowTurnIntentFacts facts of
     Some e \<Rightarrow> Inl e
   | None \<Rightarrow> (case json_column facts ''workflow turn intent facts'' of
       Inl e \<Rightarrow> Inl e
     | Inr t \<Rightarrow> if utf8_length t \<le> MAX_EVENT_BYTES then Inr t else Inl (TooLarge ''Workflow turn intent facts'')))"

section \<open>Records\<close>

record turn_intent =
  ti_id :: string
  ti_source :: string
  ti_run :: string
  ti_ref :: string
  ti_session :: string
  ti_cause :: intent_cause
  ti_node :: "string option"
  ti_attempt :: "string option"
  ti_facts :: jv
  ti_requested :: string
  ti_eligible :: "string option"
  ti_resolved :: "string option"
  ti_resolution :: "intent_resolution option"
  ti_message :: "string option"
  ti_expires :: "string option"

definition opt_timestamp :: "string option \<Rightarrow> (bool \<times> store_error) list" where
  "opt_timestamp t = (case t of None \<Rightarrow> [] | Some s \<Rightarrow> [validTimestamp s])"

definition intent_row_checks :: "intent_row \<Rightarrow> (bool \<times> store_error) list" where
  "intent_row_checks row =
     [validateKey (i_id row) ''workflow turn intent id'', validateKey (i_source row) ''workflow turn source event id'',
      validateRunId (i_run row), validateKey (i_ref row) ''workflow turn workflow ref'',
      validateKey (i_session row) ''workflow turn target session id'', validTimestamp (i_requested row)] @
     opt_timestamp (i_eligible row) @ opt_timestamp (i_resolved row) @
     [((i_resolved row = None \<and> i_resolution row = None \<and> i_message row = None) \<or>
       (i_resolved row \<noteq> None \<and> i_resolution row \<noteq> None \<and> i_message row \<noteq> None),
       CorruptRow ''inconsistent resolution fields'')]"

definition workflowTurnIntentFromRow :: "intent_row \<Rightarrow> (store_error, turn_intent) result" where
  "workflowTurnIntentFromRow row =
     (case stored_json (i_facts row) ''workflow turn intent facts'' of Inl e \<Rightarrow> Inl e
      | Inr facts \<Rightarrow> (case validateWorkflowTurnIntentFacts facts of Some e \<Rightarrow> Inl e
      | None \<Rightarrow> (case first_failure (intent_row_checks row) of Some e \<Rightarrow> Inl e
      | None \<Rightarrow> (case iso_opt (i_expires row) of Inl e \<Rightarrow> Inl e
      | Inr expires \<Rightarrow> Inr \<lparr>ti_id = i_id row, ti_source = i_source row, ti_run = i_run row, ti_ref = i_ref row,
          ti_session = i_session row, ti_cause = i_cause row, ti_node = i_node row, ti_attempt = i_attempt row,
          ti_facts = facts, ti_requested = i_requested row, ti_eligible = i_eligible row, ti_resolved = i_resolved row,
          ti_resolution = i_resolution row, ti_message = i_message row, ti_expires = expires\<rparr>))))"

section \<open>Operations\<close>

definition intent_of :: "string \<Rightarrow> db \<Rightarrow> intent_row option" where
  "intent_of k d = sql_get (\<lambda>i. i_id i = k) (intents d)"

definition getWorkflowTurnIntent :: "string \<Rightarrow> turn_intent option store_op" where
  "getWorkflowTurnIntent k = guarded [validateKey k ''workflow turn intent id''] (\<lambda>d. (case intent_of k d of
     None \<Rightarrow> (Inr None, d)
   | Some row \<Rightarrow> (case workflowTurnIntentFromRow row of Inl e \<Rightarrow> (Inl e, d) | Inr i \<Rightarrow> (Inr (Some i), d))))"

record intent_request =
  iq_id :: string
  iq_source :: string
  iq_run :: string
  iq_ref :: string
  iq_session :: string
  iq_cause :: intent_cause
  iq_node :: "string option"
  iq_attempt :: "string option"
  iq_facts :: jv
  iq_eligible :: bool
  iq_now :: string

definition opt_key :: "string option \<Rightarrow> string \<Rightarrow> (bool \<times> store_error) list" where
  "opt_key v description = (case v of None \<Rightarrow> [] | Some s \<Rightarrow> [validateKey s description])"

definition pending_for :: "string \<Rightarrow> string \<Rightarrow> intent_row \<Rightarrow> bool" where
  "pending_for run session i \<longleftrightarrow> i_run i = run \<and> i_session i = session \<and> i_resolved i = None"

text \<open>
  The \<open>INSERT ... ON CONFLICT(intent_id) DO NOTHING\<close>: the conflict clause is tried first, then the
  unique index of one pending intent per run and session.
\<close>

definition insert_intent :: "intent_row \<Rightarrow> unit store_op" where
  "insert_intent row d =
     (if intent_of (i_id row) d \<noteq> None then (Inr (), d)
      else if list_ex (pending_for (i_run row) (i_session row)) (intents d)
      then (Inl (SqlConstraint ''workflow_turn_intents''), d)
      else (Inr (), d\<lparr>intents := intents d @ [row]\<rparr>))"

definition new_intent :: "intent_request \<Rightarrow> string \<Rightarrow> intent_row" where
  "new_intent q facts = \<lparr>i_id = iq_id q, i_source = iq_source q, i_run = iq_run q, i_ref = iq_ref q,
     i_session = iq_session q, i_cause = iq_cause q, i_node = iq_node q, i_attempt = iq_attempt q, i_facts = facts,
     i_requested = iq_now q, i_eligible = (if iq_eligible q then Some (iq_now q) else None), i_resolved = None,
     i_resolution = None, i_message = None, i_token = None, i_expires = None\<rparr>"

definition same_intent :: "intent_request \<Rightarrow> turn_intent \<Rightarrow> bool" where
  "same_intent q i \<longleftrightarrow> ti_source i = iq_source q \<and> ti_run i = iq_run q \<and> ti_ref i = iq_ref q \<and>
     ti_session i = iq_session q \<and> ti_cause i = iq_cause q \<and> ti_node i = iq_node q \<and> ti_attempt i = iq_attempt q"

definition ensureWorkflowTurnIntent :: "intent_request \<Rightarrow> turn_intent store_op" where
  "ensureWorkflowTurnIntent q =
     guarded ([validateKey (iq_id q) ''workflow turn intent id'', validateKey (iq_source q) ''workflow turn source event id'',
         validateRunId (iq_run q), validateKey (iq_ref q) ''workflow turn workflow ref'',
         validateKey (iq_session q) ''workflow turn target session id''] @
         opt_key (iq_node q) ''workflow turn node id'' @ opt_key (iq_attempt q) ''workflow turn attempt id'')
      (with_result (workflowTurnIntentFactsJson (iq_facts q)) (\<lambda>facts. guarded [validTimestamp (iq_now q)]
        (and_then (insert_intent (new_intent q facts)) (\<lambda>_.
          and_then (getWorkflowTurnIntent (iq_id q)) (\<lambda>existing d. (case existing of
            None \<Rightarrow> (Inl (IntentNotStored (iq_id q)), d)
          | Some i \<Rightarrow> if same_intent q i then (Inr i, d) else (Inl (IntentConflict (iq_id q)), d)))))))"

definition intent_order :: "intent_row \<Rightarrow> string \<times> string" where
  "intent_order i = (i_requested i, i_id i)"

definition findPendingWorkflowTurnIntent :: "string \<Rightarrow> string \<Rightarrow> turn_intent option store_op" where
  "findPendingWorkflowTurnIntent run session =
     guarded [validateRunId run, validateKey session ''workflow turn target session id''] (\<lambda>d.
       (case rev (sql_all (pending_for run session) intent_order (intents d)) of
          [] \<Rightarrow> (Inr None, d)
        | row # _ \<Rightarrow> (case workflowTurnIntentFromRow row of Inl e \<Rightarrow> (Inl e, d) | Inr i \<Rightarrow> (Inr (Some i), d))))"

text \<open>\<open>delivery_claim_expires_at IS NULL OR delivery_claim_expires_at <= ?\<close>\<close>

definition claim_over :: "int \<Rightarrow> int option \<Rightarrow> bool" where
  "claim_over now expires = (case expires of None \<Rightarrow> True | Some e \<Rightarrow> e \<le> now)"

definition take_intent :: "string \<Rightarrow> int \<Rightarrow> intent_row \<Rightarrow> intent_row" where
  "take_intent token e i = i\<lparr>i_token := Some token, i_expires := Some e\<rparr>"

definition update_intents :: "(intent_row \<Rightarrow> bool) \<Rightarrow> (intent_row \<Rightarrow> intent_row) \<Rightarrow> db \<Rightarrow> db" where
  "update_intents p f d = d\<lparr>intents := sql_update p f (intents d)\<rparr>"

definition intent_free :: "int \<Rightarrow> intent_row \<Rightarrow> bool" where
  "intent_free now i \<longleftrightarrow> i_resolved i = None \<and> claim_over now (i_expires i)"

definition claimWorkflowTurnIntent ::
    "string \<Rightarrow> string \<Rightarrow> string \<Rightarrow> int \<Rightarrow> string \<Rightarrow> turn_intent option store_op" where
  "claimWorkflowTurnIntent k session token lease now =
     guarded [validateKey k ''workflow turn intent id'', validateKey session ''workflow turn target session id'',
         validateKey token ''workflow turn claim token'', validateDuration lease ''leaseMs'', validTimestamp now]
      (with_result (epoch now) (\<lambda>n d.
        let p = (\<lambda>i. i_id i = k \<and> i_session i = session \<and> intent_free n i);
            d' = update_intents p (take_intent token (n + lease)) d in
        if sql_changes p (intents d) \<noteq> 1 then (Inr None, d')
        else (case intent_of k d' of None \<Rightarrow> (Inl (IntentNotStored k), d')
          | Some row \<Rightarrow> (case workflowTurnIntentFromRow row of Inl e \<Rightarrow> (Inl e, d') | Inr i \<Rightarrow> (Inr (Some i), d')))))"

text \<open>SQLite sorts \<open>NULL\<close> first.\<close>

definition eligible_order :: "intent_row \<Rightarrow> string list \<times> string" where
  "eligible_order i = (case i_eligible i of None \<Rightarrow> [] | Some t \<Rightarrow> [t], i_id i)"

definition deliverable :: "string \<Rightarrow> string \<Rightarrow> int \<Rightarrow> intent_row \<Rightarrow> bool" where
  "deliverable session now n i \<longleftrightarrow> i_session i = session \<and> i_resolved i = None \<and>
     (case i_eligible i of None \<Rightarrow> False | Some t \<Rightarrow> t \<le> now) \<and> claim_over n (i_expires i)"

definition claimEligibleWorkflowTurnIntents ::
    "string \<Rightarrow> string \<Rightarrow> int \<Rightarrow> int option \<Rightarrow> string \<Rightarrow> turn_intent list store_op" where
  "claimEligibleWorkflowTurnIntents session token lease lim now =
     (let limit = (case lim of None \<Rightarrow> 20 | Some m \<Rightarrow> m) in
     guarded [validateKey session ''workflow turn target session id'', validateKey token ''workflow turn claim token'',
         validateDuration lease ''leaseMs'', (0 < limit \<and> limit \<le> 100, BadLimit), validTimestamp now]
      (with_result (epoch now) (\<lambda>n. transact (\<lambda>d.
        let ids = map i_id (take (nat limit) (sql_all (deliverable session now n) eligible_order (intents d))) in
        if ids = [] then (Inr [], d)
        else let d' = update_intents (\<lambda>i. i_id i \<in> set ids \<and> intent_free n i) (take_intent token (n + lease)) d in
          (seq_items (map workflowTurnIntentFromRow
             (sql_all (\<lambda>i. i_token i = Some token) eligible_order (intents d'))), d')))))"

definition make_eligible :: "string \<Rightarrow> string \<Rightarrow> intent_row \<Rightarrow> intent_row" where
  "make_eligible facts now i = i\<lparr>i_facts := facts,
     i_eligible := (case i_eligible i of None \<Rightarrow> Some now | Some t \<Rightarrow> Some t)\<rparr>"

definition changed_one :: "(intent_row \<Rightarrow> bool) \<Rightarrow> (intent_row \<Rightarrow> intent_row) \<Rightarrow> bool store_op" where
  "changed_one p f d = (Inr (sql_changes p (intents d) = 1), update_intents p f d)"

definition makeWorkflowTurnIntentEligible :: "string \<Rightarrow> jv \<Rightarrow> string \<Rightarrow> bool store_op" where
  "makeWorkflowTurnIntentEligible k facts now =
     guarded [validateKey k ''workflow turn intent id'']
      (with_result (workflowTurnIntentFactsJson facts) (\<lambda>factsJson. guarded [validTimestamp now]
        (changed_one (\<lambda>i. i_id i = k \<and> i_resolved i = None) (make_eligible factsJson now))))"

definition resolve_intent :: "string \<Rightarrow> intent_resolution \<Rightarrow> string \<Rightarrow> intent_row \<Rightarrow> intent_row" where
  "resolve_intent now resolution message i = i\<lparr>i_resolved := Some now, i_resolution := Some resolution,
     i_message := Some message, i_token := None, i_expires := None\<rparr>"

definition held_intent :: "string \<Rightarrow> string \<Rightarrow> string \<Rightarrow> intent_row \<Rightarrow> bool" where
  "held_intent k session token i \<longleftrightarrow> i_id i = k \<and> i_session i = session \<and> i_resolved i = None \<and> i_token i = Some token"

definition resolveWorkflowTurnIntent ::
    "string \<Rightarrow> string \<Rightarrow> string \<Rightarrow> intent_resolution \<Rightarrow> string \<Rightarrow> string \<Rightarrow> bool store_op" where
  "resolveWorkflowTurnIntent k session token resolution message now =
     guarded [validateKey k ''workflow turn intent id'', validateKey session ''workflow turn target session id'',
         validateKey token ''workflow turn claim token'', validateKey message ''workflow turn resolution message id'',
         validTimestamp now]
      (changed_one (held_intent k session token) (resolve_intent now resolution message))"

definition releaseWorkflowTurnIntentClaim :: "string \<Rightarrow> string \<Rightarrow> string \<Rightarrow> bool store_op" where
  "releaseWorkflowTurnIntentClaim k session token =
     guarded [validateKey k ''workflow turn intent id'', validateKey session ''workflow turn target session id'',
         validateKey token ''workflow turn claim token'']
      (changed_one (held_intent k session token) (\<lambda>i. i\<lparr>i_token := None, i_expires := None\<rparr>))"

definition listWorkflowTurnIntents ::
    "string option \<Rightarrow> string option \<Rightarrow> int option \<Rightarrow> turn_intent list store_op" where
  "listWorkflowTurnIntents session run lim =
     (let limit = (case lim of None \<Rightarrow> 20 | Some m \<Rightarrow> m) in
     guarded (opt_key session ''workflow turn target session id'' @
         (case run of None \<Rightarrow> [] | Some k \<Rightarrow> [validateRunId k]) @ [(0 < limit \<and> limit \<le> 100, BadLimit)])
      (\<lambda>d. (seq_items (map workflowTurnIntentFromRow (take (nat limit) (rev (sql_all
         (\<lambda>i. (case session of None \<Rightarrow> True | Some s \<Rightarrow> i_session i = s) \<and> (case run of None \<Rightarrow> True | Some k \<Rightarrow> i_run i = k))
         intent_order (intents d))))), d)))"

end
