(* ===== verification/IntentDelivery.thy ===== *)
theory IntentDelivery
  imports TurnIntents WorkQueue
begin

text \<open>
  What the outbox of turn intents promises: one pending intent per run and session, exclusive
  delivery under a lease, and one resolution that nothing takes back.  Every operation is described
  once by what it may do to a single row; the properties follow from that description.
\<close>

section \<open>Acts\<close>

datatype intent_act =
    EnsureIntent intent_request
  | ClaimIntent string string string int string
  | ClaimEligible string string int "int option" string
  | MakeEligible string jv string
  | ResolveIntent string string string intent_resolution string string
  | ReleaseIntent string string string

fun intent_step :: "intent_act \<Rightarrow> db \<Rightarrow> db" where
  "intent_step (EnsureIntent q) d = snd (ensureWorkflowTurnIntent q d)"
| "intent_step (ClaimIntent k session token lease now) d = snd (claimWorkflowTurnIntent k session token lease now d)"
| "intent_step (ClaimEligible session token lease lim now) d =
     snd (claimEligibleWorkflowTurnIntents session token lease lim now d)"
| "intent_step (MakeEligible k facts now) d = snd (makeWorkflowTurnIntentEligible k facts now d)"
| "intent_step (ResolveIntent k session token resolution message now) d =
     snd (resolveWorkflowTurnIntent k session token resolution message now d)"
| "intent_step (ReleaseIntent k session token) d = snd (releaseWorkflowTurnIntentClaim k session token d)"

text \<open>What an act may make of a row.\<close>

fun row_change :: "intent_act \<Rightarrow> intent_row \<Rightarrow> intent_row \<Rightarrow> bool" where
  "row_change (EnsureIntent q) i i' = False"
| "row_change (ClaimIntent k session token lease now) i i' =
     (\<exists>n. date_parse now = Some n \<and> i_id i = k \<and> intent_free n i \<and> i' = take_intent token (n + lease) i)"
| "row_change (ClaimEligible session token lease lim now) i i' =
     (\<exists>n. date_parse now = Some n \<and> intent_free n i \<and> i' = take_intent token (n + lease) i)"
| "row_change (MakeEligible k facts now) i i' =
     (i_id i = k \<and> i_resolved i = None \<and> (\<exists>t. i' = make_eligible t now i))"
| "row_change (ResolveIntent k session token resolution message now) i i' =
     (held_intent k session token i \<and> i' = resolve_intent now resolution message i)"
| "row_change (ReleaseIntent k session token) i i' =
     (held_intent k session token i \<and> i' = i\<lparr>i_token := None, i_expires := None\<rparr>)"

text \<open>The table after an act: every row unchanged or changed as the act may, and perhaps a new one.\<close>

definition fresh_intent :: "intent_row \<Rightarrow> db \<Rightarrow> bool" where
  "fresh_intent i d \<longleftrightarrow> i_resolved i = None \<and> i_resolution i = None \<and> i_message i = None \<and> i_token i = None \<and>
     i_expires i = None \<and> intent_of (i_id i) d = None \<and> \<not> list_ex (pending_for (i_run i) (i_session i)) (intents d)"

definition table_step :: "(intent_row \<Rightarrow> intent_row \<Rightarrow> bool) \<Rightarrow> db \<Rightarrow> db \<Rightarrow> bool" where
  "table_step change d d' \<longleftrightarrow>
     (\<exists>p f. intents d' = sql_update p f (intents d) \<and> (\<forall>i. p i \<longrightarrow> i_id (f i) = i_id i \<and> change i (f i))) \<or>
     (\<exists>i. intents d' = intents d @ [i] \<and> fresh_intent i d)"

lemma table_same: "intents d' = intents d \<Longrightarrow> table_step change d d'"
proof -
  assume "intents d' = intents d"
  then have "intents d' = sql_update (\<lambda>_. False) id (intents d)" by (simp add: sql_update_def)
  then show ?thesis unfolding table_step_def by blast
qed

lemma table_update:
  "(\<And>i. p i \<Longrightarrow> i_id (f i) = i_id i \<and> change i (f i)) \<Longrightarrow> table_step change d (update_intents p f d)"
  unfolding table_step_def update_intents_def by auto

lemma table_guarded:
  "(list_all fst checks \<Longrightarrow> table_step c d (snd (f d))) \<Longrightarrow> table_step c d (snd (guarded checks f d))"
  by (auto simp: guarded_def first_failure_None[symmetric] table_same split: option.split)

lemma table_with_result:
  "(\<And>b. r = Inr b \<Longrightarrow> table_step c d (snd (f b d))) \<Longrightarrow> table_step c d (snd (with_result r f d))"
  by (auto simp: with_result_def table_same split: sum.split)

lemma table_transact: "table_step c d (snd (f d)) \<Longrightarrow> table_step c d (snd (transact f d))"
  by (auto simp: transact_def table_same split: prod.split sum.split)

lemma getWorkflowTurnIntent_state [simp]: "snd (getWorkflowTurnIntent k d) = d"
  by (simp add: getWorkflowTurnIntent_def guarded_def split: option.split sum.split)

lemma intent_updates_id [simp]:
  "i_id (take_intent token e i) = i_id i" "i_id (make_eligible t now i) = i_id i"
  "i_id (resolve_intent now resolution message i) = i_id i"
  by (simp_all add: take_intent_def make_eligible_def resolve_intent_def)

lemma insert_intent_step: "fresh_intent i d \<or> intent_of (i_id i) d \<noteq> None \<or> list_ex (pending_for (i_run i) (i_session i)) (intents d) \<Longrightarrow>
    table_step change d (snd (insert_intent i d))"
  by (auto simp: insert_intent_def table_same) (auto simp: table_step_def)

lemma table_ensure: "table_step change d (snd (ensureWorkflowTurnIntent q d))"
proof -
  have new: "table_step change d (snd (insert_intent (new_intent q facts) d))" for facts
    by (rule insert_intent_step) (auto simp: fresh_intent_def new_intent_def)
  have tail: "snd (and_then (getWorkflowTurnIntent k) (\<lambda>existing d. (case existing of
            None \<Rightarrow> (Inl (IntentNotStored k), d)
          | Some i \<Rightarrow> if same_intent q i then (Inr i, d) else (Inl (IntentConflict k), d))) d) = d" for k d
  proof -
    obtain r where "getWorkflowTurnIntent k d = (r, d)"
      using getWorkflowTurnIntent_state[of k d] by (metis prod.collapse)
    then show ?thesis by (cases r) (auto simp: and_then_def split: option.split)
  qed
  have "table_step change d (snd (and_then (insert_intent (new_intent q facts)) (\<lambda>_.
          and_then (getWorkflowTurnIntent (iq_id q)) (\<lambda>existing d. (case existing of
            None \<Rightarrow> (Inl (IntentNotStored (iq_id q)), d)
          | Some i \<Rightarrow> if same_intent q i then (Inr i, d) else (Inl (IntentConflict (iq_id q)), d)))) d))" for facts
  proof (cases "insert_intent (new_intent q facts) d")
    case (Pair r t)
    have "table_step change d t" using new[of facts] by (simp add: Pair)
    then show ?thesis unfolding and_then_def[of "insert_intent _"] Pair
      by (cases r) (simp_all add: tail)
  qed
  then show ?thesis unfolding ensureWorkflowTurnIntent_def by (intro table_guarded table_with_result)
qed

lemma table_act: "table_step (row_change a) d (intent_step a d)"
proof (cases a)
  case (EnsureIntent q)
  then show ?thesis by (simp add: table_ensure)
next
  case (ClaimIntent k session token lease now)
  have "table_step (row_change a) d (update_intents (\<lambda>i. i_id i = k \<and> i_session i = session \<and> intent_free n i)
      (take_intent token (n + lease)) d)" if "epoch now = Inr n" for n
    using that by (intro table_update) (simp add: ClaimIntent epoch_Inr)
  then show ?thesis
    unfolding ClaimIntent intent_step.simps claimWorkflowTurnIntent_def
    by (intro table_guarded table_with_result) (auto simp: Let_def ClaimIntent split: option.split sum.split)
next
  case (ClaimEligible session token lease lim now)
  have "table_step (row_change a) d (update_intents (\<lambda>i. i_id i \<in> ids \<and> intent_free n i)
      (take_intent token (n + lease)) d)" if "epoch now = Inr n" for n ids
    using that by (intro table_update) (simp add: ClaimEligible epoch_Inr)
  then show ?thesis
    unfolding ClaimEligible intent_step.simps claimEligibleWorkflowTurnIntents_def Let_def
    by (intro table_guarded table_with_result table_transact) (auto simp: ClaimEligible table_same)
next
  case (MakeEligible k facts now)
  then show ?thesis
    unfolding MakeEligible intent_step.simps makeWorkflowTurnIntentEligible_def changed_one_def snd_conv
    by (intro table_guarded table_with_result, unfold snd_conv) (intro table_update, auto)
next
  case (ResolveIntent k session token resolution message now)
  show ?thesis
    unfolding ResolveIntent intent_step.simps resolveWorkflowTurnIntent_def changed_one_def
    by (intro table_guarded, unfold snd_conv) (intro table_update, auto)
next
  case (ReleaseIntent k session token)
  show ?thesis
    unfolding ReleaseIntent intent_step.simps releaseWorkflowTurnIntentClaim_def changed_one_def
    by (intro table_guarded, unfold snd_conv) (intro table_update, auto)
qed

text \<open>One row seen through an act.\<close>

lemma intent_of_step:
  assumes "intent_of k d = Some i"
  shows "\<exists>i'. intent_of k (intent_step a d) = Some i' \<and> (i' = i \<or> row_change a i i')"
  using table_act[of a d] unfolding table_step_def
proof (elim disjE exE conjE)
  fix p f
  assume upd: "intents (intent_step a d) = sql_update p f (intents d)"
    and f: "\<forall>i. p i \<longrightarrow> i_id (f i) = i_id i \<and> row_change a i (f i)"
  have "intent_of k (intent_step a d) = map_option (\<lambda>i. if p i then f i else i) (intent_of k d)"
    unfolding intent_of_def upd by (rule sql_get_sql_update) (use f in simp)
  then show ?thesis using assms f by auto
next
  fix j
  assume "intents (intent_step a d) = intents d @ [j]"
  then show ?thesis using assms by (simp add: intent_of_def sql_get_append)
qed

section \<open>The invariant of the outbox\<close>

definition intent_row_ok :: "intent_row \<Rightarrow> bool" where
  "intent_row_ok i \<longleftrightarrow> (i_token i = None \<longleftrightarrow> i_expires i = None) \<and> (i_resolved i \<noteq> None \<longrightarrow> i_token i = None) \<and>
     (i_resolved i = None \<longleftrightarrow> i_resolution i = None) \<and> (i_resolved i = None \<longleftrightarrow> i_message i = None)"

definition pending_intents :: "intent_row list \<Rightarrow> intent_row list" where
  "pending_intents is = filter (\<lambda>i. i_resolved i = None) is"

definition intents_ok :: "db \<Rightarrow> bool" where
  "intents_ok d \<longleftrightarrow> keyed i_id (intents d) \<and> list_all intent_row_ok (intents d) \<and>
     keyed (\<lambda>i. (i_run i, i_session i)) (pending_intents (intents d))"

lemmas row_change_defs = take_intent_def make_eligible_def resolve_intent_def held_intent_def intent_free_def

lemma row_change_frame: "row_change a i i' \<Longrightarrow> i_id i' = i_id i \<and> i_run i' = i_run i \<and> i_session i' = i_session i \<and>
    i_cause i' = i_cause i \<and> i_source i' = i_source i \<and> i_resolved i = None"
  by (cases a) (auto simp: row_change_defs)

lemma row_change_ok: "row_change a i i' \<Longrightarrow> intent_row_ok i \<Longrightarrow> intent_row_ok i'"
  by (cases a) (auto simp: row_change_defs intent_row_ok_def)

lemma keyed_pending_update:
  assumes "\<And>i. p i \<Longrightarrow> k (f i) = k i \<and> i_resolved i = None" and "keyed k (pending_intents is)"
  shows "keyed k (pending_intents (sql_update p f is))"
proof -
  have sub: "k ` set (pending_intents (sql_update p f js)) \<subseteq> k ` set (pending_intents js)" for js
    using assms(1) by (fastforce simp: pending_intents_def in_sql_update)
  show ?thesis
    using assms(2)
  proof (induction "is")
    case Nil
    then show ?case by (simp add: pending_intents_def sql_update_def)
  next
    case (Cons i js)
    then show ?case
      using assms(1)[of i] sub[of js] by (auto simp: pending_intents_def sql_update_def keyed_def split: if_splits)
  qed
qed

lemma keyed_step: "keyed i_id (intents d) \<Longrightarrow> keyed i_id (intents (intent_step a d))"
  using table_act[of a d] unfolding table_step_def
proof (elim disjE exE conjE)
  fix p f
  assume keyed: "keyed i_id (intents d)" and upd: "intents (intent_step a d) = sql_update p f (intents d)"
    and f: "\<forall>i. p i \<longrightarrow> i_id (f i) = i_id i \<and> row_change a i (f i)"
  have "map i_id (sql_update p f (intents d)) = map i_id (intents d)"
    by (rule sql_update_frame) (use f in simp)
  then show ?thesis using keyed by (simp add: upd keyed_def)
next
  fix j
  assume "keyed i_id (intents d)" "intents (intent_step a d) = intents d @ [j]" "fresh_intent j d"
  then show ?thesis by (auto simp: keyed_append fresh_intent_def intent_of_def sql_get_None)
qed

lemma intents_ok_step: "intents_ok d \<Longrightarrow> intents_ok (intent_step a d)"
  using table_act[of a d] unfolding table_step_def
proof (elim disjE exE conjE)
  fix p f
  assume ok: "intents_ok d" and upd: "intents (intent_step a d) = sql_update p f (intents d)"
    and f: "\<forall>i. p i \<longrightarrow> i_id (f i) = i_id i \<and> row_change a i (f i)"
  have "keyed i_id (sql_update p f (intents d))" using ok keyed_step[of d a] by (simp add: intents_ok_def upd)
  moreover have "list_all intent_row_ok (sql_update p f (intents d))"
    using ok f row_change_ok by (fastforce simp: intents_ok_def list_all_iff in_sql_update)
  moreover have "keyed (\<lambda>i. (i_run i, i_session i)) (pending_intents (sql_update p f (intents d)))"
    using ok f row_change_frame by (intro keyed_pending_update) (auto simp: intents_ok_def)
  ultimately show "intents_ok (intent_step a d)" by (simp add: intents_ok_def upd)
next
  fix j
  assume ok: "intents_ok d" and new: "intents (intent_step a d) = intents d @ [j]" and "fresh_intent j d"
  then show "intents_ok (intent_step a d)"
    by (auto simp: intents_ok_def new keyed_append pending_intents_def fresh_intent_def intent_row_ok_def
        intent_of_def sql_get_None pending_for_def list_ex_iff)
qed

section \<open>The lease of a claimed intent\<close>

definition intent_holder :: "db \<Rightarrow> string \<Rightarrow> (string \<times> int) option" where
  "intent_holder d k = (case intent_of k d of None \<Rightarrow> None | Some i \<Rightarrow>
     (case (i_token i, i_expires i) of (Some t, Some e) \<Rightarrow> Some (t, e) | _ \<Rightarrow> None))"

fun intent_clock :: "intent_act \<Rightarrow> int option" where
  "intent_clock (ClaimIntent k session token lease now) = date_parse now"
| "intent_clock (ClaimEligible session token lease lim now) = date_parse now"
| "intent_clock _ = None"

text \<open>The acts that present the claim's token.\<close>

fun touches_intent :: "intent_act \<Rightarrow> string \<Rightarrow> string \<Rightarrow> bool" where
  "touches_intent (ResolveIntent k session token resolution message now) k' t = (k = k' \<and> token = t)"
| "touches_intent (ReleaseIntent k session token) k' t = (k = k' \<and> token = t)"
| "touches_intent (ClaimIntent k session token lease now) k' t = (k = k' \<and> token = t)"
| "touches_intent (ClaimEligible session token lease lim now) k' t = (token = t)"
| "touches_intent _ k' t = False"

text \<open>The intents an act hands out for delivery.\<close>

fun handed_out :: "intent_act \<Rightarrow> db \<Rightarrow> string set" where
  "handed_out (ClaimIntent k session token lease now) d =
     (case fst (claimWorkflowTurnIntent k session token lease now d) of Inr (Some i) \<Rightarrow> {k} | _ \<Rightarrow> {})"
| "handed_out (ClaimEligible session token lease lim now) d =
     (case fst (claimEligibleWorkflowTurnIntents session token lease lim now d) of Inr is \<Rightarrow> set (map ti_id is) | _ \<Rightarrow> {})"
| "handed_out _ d = {}"

definition intent_grants :: "intent_act \<Rightarrow> db \<Rightarrow> string \<Rightarrow> (string \<times> int) option" where
  "intent_grants a d k = (if k \<in> handed_out a d then intent_holder (intent_step a d) k else None)"

fun claim_token :: "intent_act \<Rightarrow> string option" where
  "claim_token (ClaimIntent k session token lease now) = Some token"
| "claim_token (ClaimEligible session token lease lim now) = Some token"
| "claim_token _ = None"

lemma fromRow_id: "workflowTurnIntentFromRow row = Inr i \<Longrightarrow> ti_id i = i_id row \<and> ti_session i = i_session row"
  by (auto simp: workflowTurnIntentFromRow_def split: sum.splits option.splits)

lemma seq_items_in: "seq_items (map f rows) = Inr is \<Longrightarrow> i \<in> set is \<Longrightarrow> \<exists>row \<in> set rows. f row = Inr i"
proof (induction rows arbitrary: "is")
  case (Cons r rows)
  then show ?case by (cases "f r") (auto split: sum.splits)
qed simp

text \<open>Whatever is handed out is held under the token of the claim.\<close>

lemma handed_out_held:
  assumes "k \<in> handed_out a d" and "keyed i_id (intents d)"
  shows "\<exists>i token. claim_token a = Some token \<and> intent_of k (intent_step a d) = Some i \<and> i_token i = Some token"
proof (cases a)
  case (ClaimIntent k' session token lease now)
  obtain i where i: "fst (claimWorkflowTurnIntent k' session token lease now d) = Inr (Some i)" and same: "k = k'"
    using assms(1) by (auto simp: ClaimIntent split: sum.splits option.splits)
  then obtain d' where run: "claimWorkflowTurnIntent k' session token lease now d = (Inr (Some i), d')"
    by (metis prod.collapse)
  then obtain n row where n: "epoch now = Inr n"
    and d': "d' = update_intents (\<lambda>i. i_id i = k' \<and> i_session i = session \<and> intent_free n i) (take_intent token (n + lease)) d"
    and one: "sql_changes (\<lambda>i. i_id i = k' \<and> i_session i = session \<and> intent_free n i) (intents d) = 1"
    and row: "intent_of k' d' = Some row" "workflowTurnIntentFromRow row = Inr i"
    by (auto simp: claimWorkflowTurnIntent_def op_Inr Let_def split: if_splits option.splits sum.splits)
  let ?p = "\<lambda>i. i_id i = k' \<and> i_session i = session \<and> intent_free n i"
  obtain q where q: "q \<in> set (intents d)" "?p q"
    using one sql_changes_0[of ?p "intents d"] by auto
  have "intent_of k' d' = Some (take_intent token (n + lease) q)"
    using sql_get_sql_update_keyed[OF assms(2) q(1), of k' "take_intent token (n + lease)" ?p] q(2)
    by (simp add: d' update_intents_def intent_of_def)
  then show ?thesis using run same by (auto simp: ClaimIntent take_intent_def)
next
  case (ClaimEligible session token lease lim now)
  obtain "is" where "fst (claimEligibleWorkflowTurnIntents session token lease lim now d) = Inr is" "k \<in> set (map ti_id is)"
    using assms(1) by (auto simp: ClaimEligible split: sum.splits)
  then obtain d' where run: "claimEligibleWorkflowTurnIntents session token lease lim now d = (Inr is, d')"
    and k: "k \<in> set (map ti_id is)" by (metis prod.collapse)
  then obtain row i where row: "row \<in> set (intents d')" "i_token row = Some token" "workflowTurnIntentFromRow row = Inr i" "ti_id i = k"
    by (auto simp: claimEligibleWorkflowTurnIntents_def op_Inr Let_def split: if_splits dest!: seq_items_in)
  have "d' = intent_step a d" by (simp add: ClaimEligible run)
  moreover have "keyed i_id (intents (intent_step a d))" by (rule keyed_step[OF assms(2)])
  ultimately have "intent_of k (intent_step a d) = Some row"
    using sql_get_keyed[of i_id "intents d'" row] row fromRow_id[OF row(3)] by (simp add: intent_of_def)
  then show ?thesis using row(2) by (simp add: ClaimEligible)
qed (use assms in simp_all)

lemma holder_Some: "intent_holder d k = Some (t, e) \<longleftrightarrow>
    (\<exists>i. intent_of k d = Some i \<and> i_token i = Some t \<and> i_expires i = Some e)"
  by (auto simp: intent_holder_def split: option.splits)

lemma intent_of_in: "intent_of k d = Some i \<Longrightarrow> i \<in> set (intents d) \<and> i_id i = k"
  by (auto simp: intent_of_def dest: sql_get_Some)

lemma held_change:
  assumes "row_change a i i'" and "i_id i = k" and "i_token i = Some t" and "i_expires i = Some e"
    and "\<not> touches_intent a k t" and "\<And>n. intent_clock a = Some n \<Longrightarrow> n < e"
  shows "i_token i' = Some t \<and> i_expires i' = Some e"
  using assms by (cases a) (auto simp: row_change_defs claim_over_def)

interpretation deliveries: lease_table intents_ok "\<lambda>_. True" intent_step intent_holder intent_clock touches_intent intent_grants
proof
  fix d a assume "intents_ok d"
  then show "intents_ok (intent_step a d)" by (rule intents_ok_step)
next
  fix d a k t e assume "intent_grants a d k = Some (t, e)"
  then show "intent_holder (intent_step a d) k = Some (t, e)" by (simp add: intent_grants_def split: if_splits)
next
  fix d k t e a
  assume held: "intent_holder d k = Some (t, e)" "\<not> touches_intent a k t" "\<And>n. intent_clock a = Some n \<Longrightarrow> n < e"
  then obtain i where i: "intent_of k d = Some i" "i_token i = Some t" "i_expires i = Some e" by (auto simp: holder_Some)
  obtain i' where "intent_of k (intent_step a d) = Some i'" "i' = i \<or> row_change a i i'"
    using intent_of_step[OF i(1)] by blast
  then show "intent_holder (intent_step a d) k = Some (t, e)"
    using held_change[OF _ _ i(2,3) held(2,3)] intent_of_in[OF i(1)] i by (auto simp: holder_Some)
next
  fix d k t e a
  assume ok: "intents_ok d" and held: "intent_holder d k = Some (t, e)" "\<not> touches_intent a k t"
    and "intent_grants a d k \<noteq> None"
  then have out: "k \<in> handed_out a d" by (simp add: intent_grants_def split: if_splits)
  obtain i where i: "intent_of k d = Some i" "i_token i = Some t" "i_expires i = Some e"
    using held by (auto simp: holder_Some)
  obtain i' token where i': "claim_token a = Some token" "intent_of k (intent_step a d) = Some i'" "i_token i' = Some token"
    using handed_out_held[OF out] ok by (auto simp: intents_ok_def)
  have change: "i' = i \<or> row_change a i i'" using intent_of_step[OF i(1), of a] i'(2) by auto
  show "\<exists>n. intent_clock a = Some n \<and> e \<le> n"
    using change i i' held(2) intent_of_in[OF i(1)] out
    by (cases a) (auto simp: row_change_defs claim_over_def split: sum.splits option.splits)
qed

definition intent_run :: "intent_act list \<Rightarrow> db \<Rightarrow> db" where
  "intent_run as d = fold intent_step as d"

lemma intent_run_eq: "intent_run as d = deliveries.run as d"
  by (induction as arbitrary: d) (simp_all add: intent_run_def)

lemma intents_ok_run: "intents_ok d \<Longrightarrow> intents_ok (intent_run as d)"
  unfolding intent_run_eq by (rule deliveries.inv_run) (simp_all add: list_all_iff)

text \<open>Acts of others: they do not present the token, and their clock is before the expiry.\<close>

definition others :: "string \<Rightarrow> string \<Rightarrow> int \<Rightarrow> intent_act \<Rightarrow> bool" where
  "others k t e a \<longleftrightarrow> \<not> touches_intent a k t \<and> (case intent_clock a of None \<Rightarrow> True | Some n \<Rightarrow> n < e)"

section \<open>Properties\<close>

text \<open>
  C18: A turn is delivered by one deliverer at a time.  Once an act hands out an intent under a
  token until an expiry, no other act hands it out again before that expiry, whatever sequence of
  acts of others happens in between.
\<close>

theorem intent_delivery_exclusive:
  assumes "intents_ok d" and "k \<in> handed_out a d" and "intent_holder (intent_step a d) k = Some (t, e)"
    and "list_all (others k t e) as" and "others k t e b"
  shows "k \<notin> handed_out b (intent_run (a # as) d)"
proof
  assume out: "k \<in> handed_out b (intent_run (a # as) d)"
  have quiet: "list_all (deliveries.quiet k t e) as"
    using assms(4) by (auto simp: list_all_iff others_def deliveries.quiet_def split: option.splits)
  have "intent_grants b (deliveries.run (a # as) d) k = None"
  proof (rule deliveries.exclusive[OF assms(1) _ _ quiet])
    show "intent_grants a d k = Some (t, e)" using assms(2,3) by (simp add: intent_grants_def)
  qed (use assms(5) in \<open>auto simp: others_def split: option.splits\<close>)
  then have none: "intent_holder (intent_step b (intent_run (a # as) d)) k = None"
    using out by (simp add: intent_grants_def intent_run_eq)
  have ok: "intents_ok (intent_run (a # as) d)" by (rule intents_ok_run[OF assms(1)])
  obtain i where i: "intent_of k (intent_step b (intent_run (a # as) d)) = Some i" "i_token i \<noteq> None"
    using handed_out_held[OF out] ok by (auto simp: intents_ok_def)
  have "intent_row_ok i"
    using intents_ok_step[OF ok, of b] intent_of_in[OF i(1)] by (auto simp: intents_ok_def list_all_iff)
  then show False using none i by (auto simp: intent_holder_def intent_row_ok_def split: option.splits)
qed

lemma resolved_row_stays: "intent_of k d = Some i \<Longrightarrow> i_resolved i \<noteq> None \<Longrightarrow> intent_of k (intent_run as d) = Some i"
proof (induction as arbitrary: d)
  case Nil
  then show ?case by (simp add: intent_run_def)
next
  case (Cons a as)
  have "intent_of k (intent_step a d) = Some i"
    using intent_of_step[OF Cons.prems(1), of a] row_change_frame[of a i] Cons.prems(2) by auto
  then show ?case using Cons by (simp add: intent_run_def)
qed

text \<open>
  A turn is resolved once.  After a successful resolve the intent carries this resolution and
  message identifier for ever, whatever operations follow; nobody is handed it again, and no other
  resolve of it succeeds.
\<close>

theorem intent_resolved_once:
  assumes "intents_ok d" and "resolveWorkflowTurnIntent k session token resolution message now d = (Inr True, d1)"
  shows "\<exists>i. intent_of k (intent_run as d1) = Some i \<and> i_resolved i = Some now \<and> i_resolution i = Some resolution \<and>
      i_message i = Some message \<and> k \<notin> handed_out b (intent_run as d1) \<and>
      fst (resolveWorkflowTurnIntent k session2 token2 resolution2 message2 now2 (intent_run as d1)) \<noteq> Inr True"
proof -
  let ?p = "held_intent k session token" and ?f = "resolve_intent now resolution message"
  have one: "sql_changes ?p (intents d) = 1" and d1: "d1 = update_intents ?p ?f d"
    using assms(2) by (auto simp: resolveWorkflowTurnIntent_def op_Inr changed_one_def)
  obtain q where q: "q \<in> set (intents d)" "?p q" using one sql_changes_0[of ?p "intents d"] by auto
  have keyed: "keyed i_id (intents d)" using assms(1) by (simp add: intents_ok_def)
  have row: "intent_of k d1 = Some (?f q)"
    using sql_get_sql_update_keyed[OF keyed q(1), of k ?f ?p] q(2)
    by (simp add: d1 update_intents_def intent_of_def held_intent_def)
  have stays: "intent_of k (intent_run as d1) = Some (?f q)"
    by (rule resolved_row_stays[OF row]) (simp add: resolve_intent_def)
  have ok: "intents_ok (intent_run as d1)"
    using intents_ok_run[OF intents_ok_step[OF assms(1), of "ResolveIntent k session token resolution message now"], of as]
      assms(2) by simp
  then have keyed1: "keyed i_id (intents (intent_run as d1))" by (simp add: intents_ok_def)
  have "k \<notin> handed_out b (intent_run as d1)"
  proof
    assume "k \<in> handed_out b (intent_run as d1)"
    then obtain i' t where "intent_of k (intent_step b (intent_run as d1)) = Some i'" "i_token i' = Some t"
      using handed_out_held keyed1 by blast
    then show False using resolved_row_stays[OF stays, of "[b]"] by (simp add: resolve_intent_def intent_run_def)
  qed
  moreover have "\<forall>i \<in> set (intents (intent_run as d1)). \<not> held_intent k session2 token2 i"
    using keyed_unique[OF keyed1, of "?f q"] intent_of_in[OF stays] by (fastforce simp: held_intent_def resolve_intent_def)
  then have "sql_changes (held_intent k session2 token2) (intents (intent_run as d1)) = 0" by (simp add: sql_changes_0)
  then have "fst (resolveWorkflowTurnIntent k session2 token2 resolution2 message2 now2 (intent_run as d1)) \<noteq> Inr True"
    by (auto simp: resolveWorkflowTurnIntent_def changed_one_def guarded_def split: option.split)
  ultimately show ?thesis using stays by (simp add: resolve_intent_def)
qed

text \<open>
  One pending turn per run and session.  In every store reached from the empty one by any
  sequence of acts, two unresolved intents of the same run for the same session are the same row,
  identifiers are unique, a resolved intent is not claimed, and the resolution fields are set
  together.
\<close>

theorem one_pending_intent:
  assumes "i \<in> set (intents (intent_run as empty_db))" and "j \<in> set (intents (intent_run as empty_db))"
    and "i_id i = i_id j \<or> pending_for (i_run j) (i_session j) i \<and> i_resolved j = None"
  shows "i = j \<and> (i_resolved i \<noteq> None \<longrightarrow> i_token i = None) \<and>
    (i_resolved i = None \<longleftrightarrow> i_resolution i = None) \<and> (i_resolved i = None \<longleftrightarrow> i_message i = None)"
proof -
  have ok: "intents_ok (intent_run as empty_db)"
    by (rule intents_ok_run) (simp add: intents_ok_def empty_db_def pending_intents_def)
  have "i = j"
    using assms(3)
  proof
    assume "i_id i = i_id j"
    then show ?thesis using ok assms(1,2) keyed_unique[of i_id] by (auto simp: intents_ok_def)
  next
    assume "pending_for (i_run j) (i_session j) i \<and> i_resolved j = None"
    then show ?thesis
      using ok assms(1,2) keyed_unique[of "\<lambda>i. (i_run i, i_session i)" _ i j]
      by (auto simp: intents_ok_def pending_intents_def pending_for_def)
  qed
  moreover have "intent_row_ok i" using ok assms(1) by (auto simp: intents_ok_def list_all_iff)
  ultimately show ?thesis by (auto simp: intent_row_ok_def)
qed

section \<open>The properties at work\<close>

definition sample_facts :: jv where
  "sample_facts = JObj [(''attemptId'', JNull), (''cause'', JStr ''failed''), (''handoff'', JBool False), (''nodeId'', JNull),
     (''observedState'', JStr ''failed''), (''reason'', JNull), (''runId'', JStr ''r''),
     (''schema'', JStr ''pi-workflows.deferred-turn-facts.v1''), (''workflowName'', JStr ''w'')]"

definition sample_facts_text :: string where
  "sample_facts_text = ''{\"attemptId\":null,\"cause\":\"failed\",\"handoff\":false,\"nodeId\":null,\"observedState\":\"failed\",\"reason\":null,\"runId\":\"r\",\"schema\":\"pi-workflows.deferred-turn-facts.v1\",\"workflowName\":\"w\"}''"

lemma sample_facts_read: "stored_json sample_facts_text d = Inr sample_facts"
proof -
  have "json_parse sample_facts_text = Some sample_facts" by code_simp
  then show ?thesis by (simp add: stored_json_def parseStoredJson_def) (simp add: sample_facts_def mk_obj_def js_order_def is_index_def is_digit_def)
qed

lemma sample_facts_valid: "validateWorkflowTurnIntentFacts sample_facts = None"
proof -
  have "run_id_pattern ''r''" by code_simp
  then show ?thesis
    by (simp add: validateWorkflowTurnIntentFacts_def sample_facts_def facts_checks_def Let_def string_field_def is_null_def
        obj_get_def facts_keys_def obj_keys_def TURN_INTENT_FACTS_SCHEMA_def validator_defs valid_key_def MAX_KEY_LENGTH_def
        code_of_def validateWorkflowTurnIntentCause_def cause_text_def)
qed

definition sample_intent :: intent_row where
  "sample_intent = \<lparr>i_id = ''i'', i_source = ''s'', i_run = ''r'', i_ref = ''w'', i_session = ''me'', i_cause = CauseFailed,
     i_node = None, i_attempt = None, i_facts = sample_facts_text, i_requested = ''1970-01-01T00:00:01.000Z'',
     i_eligible = None, i_resolved = None, i_resolution = None, i_message = None, i_token = None, i_expires = None\<rparr>"

definition intent_db :: db where
  "intent_db = empty_db\<lparr>intents := [sample_intent]\<rparr>"

definition claimed_intent_db :: db where
  "claimed_intent_db = empty_db\<lparr>intents := [take_intent ''t'' 6000 sample_intent]\<rparr>"

lemma sample_intents_ok: "intents_ok intent_db" "intents_ok claimed_intent_db"
  by (simp_all add: intents_ok_def intent_db_def claimed_intent_db_def pending_intents_def sample_intent_def
      intent_row_ok_def take_intent_def keyed_def)

lemma sample_intent_claimed:
  "\<exists>i. claimWorkflowTurnIntent ''i'' ''me'' ''t'' 5000 ''1970-01-01T00:00:01.000Z'' intent_db =
    (Inr (Some i), claimed_intent_db)"
proof -
  have ids: "run_id_pattern ''r''" by code_simp
  have "\<exists>i. workflowTurnIntentFromRow (take_intent ''t'' 6000 sample_intent) = Inr i"
    using ids by (simp add: workflowTurnIntentFromRow_def take_intent_def sample_intent_def sample_facts_read sample_facts_valid
        intent_row_checks_def validator_defs valid_key_def MAX_KEY_LENGTH_def code_of_def sample_times opt_timestamp_def
        iso_opt_def iso_def sample_iso)
  then obtain i where "workflowTurnIntentFromRow (take_intent ''t'' 6000 sample_intent) = Inr i" ..
  then show ?thesis
    by (simp add: claimWorkflowTurnIntent_def guarded_pass validator_defs valid_key_def MAX_KEY_LENGTH_def code_of_def
        sample_times MAX_SAFE_INTEGER_def with_result_def epoch_def Let_def sql_changes_def intent_db_def update_intents_def
        sql_update_def intent_of_def sql_get_def intent_free_def claim_over_def claimed_intent_db_def)
      (simp add: sample_intent_def take_intent_def claim_over_def)
qed

theorem intent_delivery_exclusive_witness:
  "''i'' \<notin> handed_out (ClaimIntent ''i'' ''me'' ''u'' 5000 ''1970-01-01T00:00:02.000Z'')
     (intent_run [ClaimIntent ''i'' ''me'' ''t'' 5000 ''1970-01-01T00:00:01.000Z'', ReleaseIntent ''i'' ''me'' ''x''] intent_db)"
proof (rule intent_delivery_exclusive[OF sample_intents_ok(1)])
  obtain i where run: "claimWorkflowTurnIntent ''i'' ''me'' ''t'' 5000 ''1970-01-01T00:00:01.000Z'' intent_db =
    (Inr (Some i), claimed_intent_db)" using sample_intent_claimed by blast
  show "''i'' \<in> handed_out (ClaimIntent ''i'' ''me'' ''t'' 5000 ''1970-01-01T00:00:01.000Z'') intent_db" by (simp add: run)
  show "intent_holder (intent_step (ClaimIntent ''i'' ''me'' ''t'' 5000 ''1970-01-01T00:00:01.000Z'') intent_db) ''i'' =
      Some (''t'', 6000)"
    by (simp add: run intent_holder_def intent_of_def claimed_intent_db_def sql_get_def take_intent_def sample_intent_def)
qed (simp_all add: others_def sample_times)

theorem intent_resolved_once_witness:
  "\<exists>i. intent_of ''i'' (snd (resolveWorkflowTurnIntent ''i'' ''me'' ''t'' Fallback ''m'' ''1970-01-01T00:00:02.000Z'' claimed_intent_db)) = Some i \<and>
    i_resolution i = Some Fallback"
proof -
  have "\<exists>d1. resolveWorkflowTurnIntent ''i'' ''me'' ''t'' Fallback ''m'' ''1970-01-01T00:00:02.000Z'' claimed_intent_db = (Inr True, d1)"
    by (simp add: resolveWorkflowTurnIntent_def guarded_pass validator_defs valid_key_def MAX_KEY_LENGTH_def code_of_def
        sample_times changed_one_def claimed_intent_db_def sql_changes_def held_intent_def take_intent_def sample_intent_def)
  then obtain d1 where run: "resolveWorkflowTurnIntent ''i'' ''me'' ''t'' Fallback ''m'' ''1970-01-01T00:00:02.000Z'' claimed_intent_db =
    (Inr True, d1)" ..
  show ?thesis using intent_resolved_once[OF sample_intents_ok(2) run, of "[]" "ReleaseIntent [] [] []" "[]" "[]" Fallback "[]" "[]"] run
    by (auto simp: intent_run_def)
qed

definition sample_request :: intent_request where
  "sample_request = \<lparr>iq_id = ''i'', iq_source = ''s'', iq_run = ''r'', iq_ref = ''w'', iq_session = ''me'', iq_cause = CauseFailed,
     iq_node = None, iq_attempt = None, iq_facts = sample_facts, iq_eligible = False, iq_now = ''1970-01-01T00:00:01.000Z''\<rparr>"

lemma sample_intent_ensured: "intents (intent_run [EnsureIntent sample_request] empty_db) = [sample_intent]"
proof -
  have ids: "run_id_pattern ''r''" by code_simp
  have column: "json_column sample_facts ''workflow turn intent facts'' = Inr sample_facts_text" by code_simp
  have size: "utf8_length sample_facts_text \<le> MAX_EVENT_BYTES"
    by (simp add: utf8_length_def sample_facts_text_def MAX_EVENT_BYTES_def code_of_def)
  have facts: "workflowTurnIntentFactsJson sample_facts = Inr sample_facts_text"
    using column size by (simp add: workflowTurnIntentFactsJson_def sample_facts_valid)
  have row: "new_intent sample_request sample_facts_text = sample_intent"
    by (simp add: new_intent_def sample_request_def sample_intent_def)
  obtain r where get: "getWorkflowTurnIntent ''i'' intent_db = (r, intent_db)"
    using getWorkflowTurnIntent_state[of "''i''" intent_db] by (metis prod.collapse)
  have fields: "iq_id sample_request = ''i''" "iq_facts sample_request = sample_facts"
    by (simp_all add: sample_request_def)
  have "insert_intent sample_intent empty_db = (Inr (), intent_db)"
    by (simp add: insert_intent_def intent_of_def empty_db_def sql_get_def intent_db_def)
  moreover have "snd (ensureWorkflowTurnIntent sample_request empty_db) =
      snd (and_then (insert_intent sample_intent) (\<lambda>_. and_then (getWorkflowTurnIntent ''i'') (\<lambda>existing d. (case existing of
            None \<Rightarrow> (Inl (IntentNotStored ''i''), d)
          | Some i \<Rightarrow> if same_intent sample_request i then (Inr i, d) else (Inl (IntentConflict ''i''), d)))) empty_db)"
  proof -
    have checks: "list_all fst ([validateKey (iq_id sample_request) ''workflow turn intent id'',
         validateKey (iq_source sample_request) ''workflow turn source event id'',
         validateRunId (iq_run sample_request), validateKey (iq_ref sample_request) ''workflow turn workflow ref'',
         validateKey (iq_session sample_request) ''workflow turn target session id''] @
         opt_key (iq_node sample_request) ''workflow turn node id'' @
         opt_key (iq_attempt sample_request) ''workflow turn attempt id'')"
      "list_all fst [validTimestamp (iq_now sample_request)]"
      using ids by (simp_all add: sample_request_def validator_defs valid_key_def MAX_KEY_LENGTH_def code_of_def sample_times
          opt_key_def)
    show ?thesis
      unfolding ensureWorkflowTurnIntent_def guarded_pass[OF checks(1)]
      unfolding fields facts
      by (simp add: with_result_def guarded_pass[OF checks(2)] row)
  qed
  ultimately have "snd (ensureWorkflowTurnIntent sample_request empty_db) = intent_db"
    using get by (cases r) (auto simp: and_then_def split: option.split)
  then show ?thesis by (simp add: intent_run_def intent_db_def)
qed

theorem one_pending_intent_witness: "intent_row_ok sample_intent \<and> i_token sample_intent = None"
  using one_pending_intent[of sample_intent "[EnsureIntent sample_request]" sample_intent] sample_intent_ensured
  by (simp add: intent_row_ok_def sample_intent_def)

end
