(* ===== verification/Notifications.thy ===== *)
theory Notifications
  imports RunQueue Lease WorkQueue
begin

text \<open>
  The notification outbox (src/controllers/sqlite.ts, \<open>enqueueWorkflowNotification\<close> to
  \<open>markWorkflowNotificationDelivered\<close>): one notification per run, node and index, claimed in
  batches under a lease by the session it is for, and delivered once.
\<close>

section \<open>Operations\<close>

record notification =
  no_id :: string
  no_run :: string
  no_node :: string
  no_attempt :: string
  no_index :: int
  no_session :: string
  no_kind :: notification_kind
  no_content :: string
  no_created :: string
  no_expires :: "string option"
  no_delivered :: "string option"

definition workflowNotificationFromRow :: "notification_row \<Rightarrow> (store_error, notification) result" where
  "workflowNotificationFromRow row = (case iso_opt (n_expires row) of Inl e \<Rightarrow> Inl e
     | Inr expires \<Rightarrow> Inr \<lparr>no_id = n_id row, no_run = n_run row, no_node = n_node row, no_attempt = n_attempt row,
         no_index = n_index row, no_session = n_session row, no_kind = n_kind row, no_content = n_content row,
         no_created = n_created row, no_expires = expires, no_delivered = n_delivered row\<rparr>)"

definition n_slot :: "notification_row \<Rightarrow> string \<times> string \<times> int" where
  "n_slot n = (n_run n, n_node n, n_index n)"

text \<open>\<open>ON CONFLICT(run_id, node_id, notification_index) DO NOTHING\<close>, then the primary key.\<close>

definition insert_notification :: "notification_row \<Rightarrow> unit store_op" where
  "insert_notification row d =
     (if n_slot row \<in> n_slot ` set (notifications d) then (Inr (), d)
      else if n_id row \<in> n_id ` set (notifications d) then (Inl (SqlConstraint ''workflow_notifications''), d)
      else (Inr (), d\<lparr>notifications := notifications d @ [row]\<rparr>))"

record notification_request =
  nq_run :: string
  nq_node :: string
  nq_attempt :: string
  nq_index :: int
  nq_session :: string
  nq_kind :: notification_kind
  nq_content :: string
  nq_id :: string
  nq_now :: string

definition new_notification :: "notification_request \<Rightarrow> notification_row" where
  "new_notification q = \<lparr>n_id = nq_id q, n_run = nq_run q, n_node = nq_node q, n_attempt = nq_attempt q,
     n_index = nq_index q, n_session = nq_session q, n_kind = nq_kind q, n_content = trim (nq_content q),
     n_created = nq_now q, n_token = None, n_expires = None, n_delivered = None\<rparr>"

definition nq_slot :: "notification_request \<Rightarrow> string \<times> string \<times> int" where
  "nq_slot q = (nq_run q, nq_node q, nq_index q)"

definition enqueueWorkflowNotification :: "notification_request \<Rightarrow> notification store_op" where
  "enqueueWorkflowNotification q =
     guarded [validateRunId (nq_run q), validateKey (nq_node q) ''workflow node id'',
         validateKey (nq_attempt q) ''workflow attempt id'', (0 < nq_index q \<and> nq_index q \<le> MAX_SAFE_INTEGER, BadIndex),
         validateKey (nq_session q) ''target session id'',
         (trim (nq_content q) \<noteq> [] \<and> length (nq_content q) \<le> MAX_EVENT_BYTES, BadContent),
         validateKey (nq_id q) ''notification id'', validTimestamp (nq_now q)]
      (and_then (insert_notification (new_notification q)) (\<lambda>_ d.
         (case sql_get (\<lambda>n. n_slot n = nq_slot q) (notifications d) of
            None \<Rightarrow> (Inl (SqlConstraint ''workflow_notifications''), d)
          | Some row \<Rightarrow> (workflowNotificationFromRow row, d))))"

definition notification_free :: "int \<Rightarrow> notification_row \<Rightarrow> bool" where
  "notification_free now n \<longleftrightarrow> n_delivered n = None \<and> (case n_expires n of None \<Rightarrow> True | Some e \<Rightarrow> e \<le> now)"

definition take_notification :: "string \<Rightarrow> int \<Rightarrow> notification_row \<Rightarrow> notification_row" where
  "take_notification token e n = n\<lparr>n_token := Some token, n_expires := Some e\<rparr>"

definition update_notifications :: "(notification_row \<Rightarrow> bool) \<Rightarrow> (notification_row \<Rightarrow> notification_row) \<Rightarrow> db \<Rightarrow> db" where
  "update_notifications p f d = d\<lparr>notifications := sql_update p f (notifications d)\<rparr>"

definition created_order :: "notification_row \<Rightarrow> string \<times> string" where
  "created_order n = (n_created n, n_id n)"

definition claimPendingWorkflowNotifications ::
    "string \<Rightarrow> string \<Rightarrow> int \<Rightarrow> int option \<Rightarrow> string \<Rightarrow> notification list store_op" where
  "claimPendingWorkflowNotifications session token lease lim now =
     (let limit = (case lim of None \<Rightarrow> 20 | Some m \<Rightarrow> m) in
     guarded [validateKey session ''target session id'', validateKey token ''notification claim token'',
         validateDuration lease ''notification leaseMs'', (0 < limit \<and> limit \<le> 100, BadLimit), validTimestamp now]
      (with_result (epoch now) (\<lambda>n. transact (\<lambda>d.
        let ids = map n_id (take (nat limit) (sql_all (\<lambda>r. n_session r = session \<and> notification_free n r) created_order
              (notifications d))) in
        if ids = [] then (Inr [], d)
        else let d' = update_notifications (\<lambda>r. n_id r \<in> set ids \<and> notification_free n r)
              (take_notification token (n + lease)) d in
          (seq_items (map workflowNotificationFromRow
             (sql_all (\<lambda>r. n_token r = Some token) created_order (notifications d'))), d')))))"

definition held_notification :: "string \<Rightarrow> string \<Rightarrow> string \<Rightarrow> notification_row \<Rightarrow> bool" where
  "held_notification k session token n \<longleftrightarrow>
     n_id n = k \<and> n_session n = session \<and> n_token n = Some token \<and> n_delivered n = None"

definition deliver :: "string \<Rightarrow> notification_row \<Rightarrow> notification_row" where
  "deliver now n = n\<lparr>n_delivered := Some now, n_token := None, n_expires := None\<rparr>"

definition markWorkflowNotificationDelivered :: "string \<Rightarrow> string \<Rightarrow> string \<Rightarrow> string \<Rightarrow> bool store_op" where
  "markWorkflowNotificationDelivered k session token now =
     guarded [validateKey k ''notification id'', validateKey session ''target session id'',
         validateKey token ''notification claim token'', validTimestamp now]
      (\<lambda>d. (Inr (sql_changes (held_notification k session token) (notifications d) = 1),
         update_notifications (held_notification k session token) (deliver now) d))"

section \<open>Acts and what they may do to a row\<close>

datatype note_act =
    EnqueueNote notification_request
  | ClaimNotes string string int "int option" string
  | MarkDelivered string string string string

fun note_step :: "note_act \<Rightarrow> db \<Rightarrow> db" where
  "note_step (EnqueueNote q) d = snd (enqueueWorkflowNotification q d)"
| "note_step (ClaimNotes session token lease lim now) d = snd (claimPendingWorkflowNotifications session token lease lim now d)"
| "note_step (MarkDelivered k session token now) d = snd (markWorkflowNotificationDelivered k session token now d)"

fun note_change :: "note_act \<Rightarrow> notification_row \<Rightarrow> notification_row \<Rightarrow> bool" where
  "note_change (EnqueueNote q) n n' = False"
| "note_change (ClaimNotes session token lease lim now) n n' =
     (\<exists>m. date_parse now = Some m \<and> notification_free m n \<and> n' = take_notification token (m + lease) n)"
| "note_change (MarkDelivered k session token now) n n' = (held_notification k session token n \<and> n' = deliver now n)"

text \<open>Every row is kept or changed as the act may, and at most one fresh row appears.\<close>

definition notes_step :: "(notification_row \<Rightarrow> notification_row \<Rightarrow> bool) \<Rightarrow> notification_row list \<Rightarrow> notification_row list \<Rightarrow> bool" where
  "notes_step change ns ns' \<longleftrightarrow>
     (\<exists>f. ns' = map f ns \<and> (\<forall>n \<in> set ns. f n = n \<or> change n (f n))) \<or>
     (\<exists>n. ns' = ns @ [n] \<and> n_delivered n = None \<and> n_token n = None \<and> n_expires n = None \<and>
        n_slot n \<notin> n_slot ` set ns \<and> n_id n \<notin> n_id ` set ns)"

lemma notes_same: "notes_step change ns ns"
  unfolding notes_step_def by (rule disjI1) (rule exI[of _ id], simp)

lemma notes_update: "(\<And>n. n \<in> set ns \<Longrightarrow> p n \<Longrightarrow> change n (f n)) \<Longrightarrow> notes_step change ns (sql_update p f ns)"
  unfolding notes_step_def sql_update_def by (rule disjI1) (rule exI[of _ "\<lambda>n. if p n then f n else n"], simp)

definition notes_rel :: "(notification_row \<Rightarrow> notification_row \<Rightarrow> bool) \<Rightarrow> db \<Rightarrow> db \<Rightarrow> bool" where
  "notes_rel change d d' \<longleftrightarrow> notes_step change (notifications d) (notifications d')"

lemma notes_rel_refl: "notes_rel change d d"
  by (simp add: notes_rel_def notes_same)

lemma notes_guards:
  "(list_all fst checks \<Longrightarrow> notes_rel c d (snd (f d))) \<Longrightarrow> notes_rel c d (snd (guarded checks f d))"
  "(\<And>b. r = Inr b \<Longrightarrow> notes_rel c d (snd (g b d))) \<Longrightarrow> notes_rel c d (snd (with_result r g d))"
  "notes_rel c d (snd (f d)) \<Longrightarrow> notes_rel c d (snd (transact f d))"
  by (auto simp: guarded_def with_result_def transact_def first_failure_None[symmetric] notes_rel_refl
      split: option.split sum.split prod.split)

lemma note_act_step: "notes_rel (note_change a) d (note_step a d)"
proof (cases a)
  case (EnqueueNote q)
  have "notes_rel (note_change a) d (snd (insert_notification (new_notification q) d))"
    by (auto simp: insert_notification_def notes_rel_refl) (auto simp: notes_rel_def notes_step_def new_notification_def)
  then have "notes_rel (note_change a) d (snd (and_then (insert_notification (new_notification q)) (\<lambda>_ d.
         (case sql_get (\<lambda>n. n_slot n = nq_slot q) (notifications d) of
            None \<Rightarrow> (Inl (SqlConstraint ''workflow_notifications''), d)
          | Some row \<Rightarrow> (workflowNotificationFromRow row, d))) d))"
    by (auto simp: and_then_def split: prod.split sum.split option.split)
  then show ?thesis unfolding EnqueueNote note_step.simps enqueueWorkflowNotification_def by (intro notes_guards)
next
  case (ClaimNotes session token lease lim now)
  have "notes_rel (note_change a) d (update_notifications (\<lambda>r. n_id r \<in> ids \<and> notification_free m r)
      (take_notification token (m + lease)) d)" if "epoch now = Inr m" for m ids
    using that by (auto simp: notes_rel_def update_notifications_def ClaimNotes epoch_Inr intro!: notes_update)
  then show ?thesis
    unfolding ClaimNotes note_step.simps claimPendingWorkflowNotifications_def Let_def
    by (intro notes_guards) (auto simp: ClaimNotes notes_rel_refl)
next
  case (MarkDelivered k session token now)
  show ?thesis
    unfolding MarkDelivered note_step.simps markWorkflowNotificationDelivered_def
    by (intro notes_guards) (auto simp: notes_rel_def update_notifications_def intro: notes_update)
qed

section \<open>The invariant and the lease\<close>

definition note_of :: "string \<Rightarrow> db \<Rightarrow> notification_row option" where
  "note_of k d = sql_get (\<lambda>n. n_id n = k) (notifications d)"

definition note_row_ok :: "notification_row \<Rightarrow> bool" where
  "note_row_ok n \<longleftrightarrow> (n_token n = None \<longleftrightarrow> n_expires n = None) \<and> (n_delivered n \<noteq> None \<longrightarrow> n_token n = None)"

definition notes_ok :: "db \<Rightarrow> bool" where
  "notes_ok d \<longleftrightarrow> keyed n_id (notifications d) \<and> keyed n_slot (notifications d) \<and> list_all note_row_ok (notifications d)"

lemmas note_change_defs = take_notification_def deliver_def held_notification_def notification_free_def n_slot_def

text \<open>What identifies a notification and what it says never change, and a delivered one not at all.\<close>

definition note_body :: "notification_row \<Rightarrow> notification_row" where
  "note_body n = n\<lparr>n_token := None, n_expires := None, n_delivered := None\<rparr>"

lemma note_change_frame: "note_change a n n' \<Longrightarrow> n_id n' = n_id n \<and> n_slot n' = n_slot n \<and> note_body n' = note_body n \<and>
    n_delivered n = None \<and> (note_row_ok n \<longrightarrow> note_row_ok n')"
  by (cases a) (auto simp: note_change_defs note_row_ok_def note_body_def)

lemma notes_ok_step: "notes_ok d \<Longrightarrow> notes_ok (note_step a d)"
  using note_act_step[of a d] unfolding notes_rel_def notes_step_def
proof (elim disjE exE conjE)
  fix f
  assume ok: "notes_ok d" and upd: "notifications (note_step a d) = map f (notifications d)"
    and f: "\<forall>n \<in> set (notifications d). f n = n \<or> note_change a n (f n)"
  have keys: "\<forall>n \<in> set (notifications d). n_id (f n) = n_id n \<and> n_slot (f n) = n_slot n"
  proof
    fix n assume "n \<in> set (notifications d)"
    then show "n_id (f n) = n_id n \<and> n_slot (f n) = n_slot n" using f note_change_frame[of a n "f n"] by auto
  qed
  have rows: "note_row_ok (f n)" if "n \<in> set (notifications d)" for n
    using that ok f note_change_frame[of a n "f n"] by (auto simp: notes_ok_def list_all_iff)
  from keys have maps: "map (n_id \<circ> f) (notifications d) = map n_id (notifications d)"
    "map (n_slot \<circ> f) (notifications d) = map n_slot (notifications d)" by simp_all
  show ?thesis using ok rows unfolding notes_ok_def upd keyed_def map_map maps by (simp add: list_all_iff)
next
  fix n
  assume "notes_ok d" "notifications (note_step a d) = notifications d @ [n]" "n_delivered n = None" "n_token n = None"
    "n_expires n = None" "n_slot n \<notin> n_slot ` set (notifications d)" "n_id n \<notin> n_id ` set (notifications d)"
  then show ?thesis by (simp add: notes_ok_def keyed_append note_row_ok_def)
qed

lemma note_of_in: "note_of k d = Some n \<Longrightarrow> n \<in> set (notifications d) \<and> n_id n = k"
  by (auto simp: note_of_def dest: sql_get_Some)

lemma note_of_keyed: "notes_ok d \<Longrightarrow> n \<in> set (notifications d) \<Longrightarrow> note_of (n_id n) d = Some n"
  unfolding note_of_def by (rule sql_get_keyed) (simp_all add: notes_ok_def)

lemma note_of_step:
  assumes "notes_ok d" and "note_of k d = Some n"
  shows "\<exists>n'. note_of k (note_step a d) = Some n' \<and> (n' = n \<or> note_change a n n')"
proof -
  have n: "n \<in> set (notifications d)" "n_id n = k" using note_of_in[OF assms(2)] by simp_all
  have "\<exists>n' \<in> set (notifications (note_step a d)). n' = n \<or> note_change a n n'"
    using note_act_step[of a d] unfolding notes_rel_def notes_step_def
  proof (elim disjE exE conjE)
    fix f assume "notifications (note_step a d) = map f (notifications d)"
      "\<forall>n \<in> set (notifications d). f n = n \<or> note_change a n (f n)"
    then show ?thesis using n(1) by (intro bexI[of _ "f n"]) auto
  next
    fix m assume "notifications (note_step a d) = notifications d @ [m]"
    then show ?thesis using n(1) by (intro bexI[of _ n]) auto
  qed
  then obtain n' where n': "n' \<in> set (notifications (note_step a d))" "n' = n \<or> note_change a n n'" by blast
  then have "n_id n' = k" using note_change_frame[of a n n'] n by auto
  then show ?thesis using note_of_keyed[OF notes_ok_step[OF assms(1)] n'(1)] n'(2) by auto
qed

definition note_holder :: "db \<Rightarrow> string \<Rightarrow> (string \<times> int) option" where
  "note_holder d k = (case note_of k d of None \<Rightarrow> None | Some n \<Rightarrow>
     (case (n_token n, n_expires n) of (Some t, Some e) \<Rightarrow> Some (t, e) | _ \<Rightarrow> None))"

fun note_clock :: "note_act \<Rightarrow> int option" where
  "note_clock (ClaimNotes session token lease lim now) = date_parse now"
| "note_clock _ = None"

fun touches_note :: "note_act \<Rightarrow> string \<Rightarrow> string \<Rightarrow> bool" where
  "touches_note (ClaimNotes session token lease lim now) k' t = (token = t)"
| "touches_note (MarkDelivered k session token now) k' t = (k = k' \<and> token = t)"
| "touches_note _ k' t = False"

text \<open>The notifications an act hands out.\<close>

fun notes_out :: "note_act \<Rightarrow> db \<Rightarrow> string set" where
  "notes_out (ClaimNotes session token lease lim now) d =
     (case fst (claimPendingWorkflowNotifications session token lease lim now d) of Inr ns \<Rightarrow> set (map no_id ns) | Inl e \<Rightarrow> {})"
| "notes_out _ d = {}"

definition note_grants :: "note_act \<Rightarrow> db \<Rightarrow> string \<Rightarrow> (string \<times> int) option" where
  "note_grants a d k = (if k \<in> notes_out a d then note_holder (note_step a d) k else None)"

lemma note_holder_Some: "note_holder d k = Some (t, e) \<longleftrightarrow>
    (\<exists>n. note_of k d = Some n \<and> n_token n = Some t \<and> n_expires n = Some e)"
  by (auto simp: note_holder_def split: option.splits)

lemma seq_items_source: "seq_items (map f rows) = Inr xs \<Longrightarrow> x \<in> set xs \<Longrightarrow> \<exists>row \<in> set rows. f row = Inr x"
proof (induction rows arbitrary: xs)
  case (Cons r rows)
  then show ?case by (cases "f r") (auto split: sum.splits)
qed simp

lemma notes_out_held:
  assumes "notes_ok d" and "k \<in> notes_out a d"
  shows "\<exists>session token lease lim now n. a = ClaimNotes session token lease lim now \<and>
    note_of k (note_step a d) = Some n \<and> n_token n = Some token"
proof (cases a)
  case (ClaimNotes session token lease lim now)
  obtain ns d' where run: "claimPendingWorkflowNotifications session token lease lim now d = (Inr ns, d')"
    and k: "k \<in> set (map no_id ns)"
    using assms(2) by (auto simp: ClaimNotes split: sum.splits) (metis prod.collapse image_eqI)
  then obtain row n where row: "row \<in> set (notifications d')" "n_token row = Some token"
      "workflowNotificationFromRow row = Inr n" "no_id n = k"
    by (auto simp: claimPendingWorkflowNotifications_def op_Inr Let_def split: if_splits dest!: seq_items_source)
  have "n_id row = k" using row(3,4) by (auto simp: workflowNotificationFromRow_def split: sum.splits)
  moreover have "d' = note_step a d" by (simp add: ClaimNotes run)
  ultimately have "note_of k (note_step a d) = Some row"
    using note_of_keyed[OF notes_ok_step[OF assms(1)], of row a] row(1) by simp
  then show ?thesis using row(2) ClaimNotes by blast
qed (use assms in simp_all)

interpretation outbox: lease_table notes_ok "\<lambda>_. True" note_step note_holder note_clock touches_note note_grants
proof
  fix d a assume "notes_ok d"
  then show "notes_ok (note_step a d)" by (rule notes_ok_step)
next
  fix d a k t e assume "note_grants a d k = Some (t, e)"
  then show "note_holder (note_step a d) k = Some (t, e)" by (simp add: note_grants_def split: if_splits)
next
  fix d k t e a
  assume ok: "notes_ok d" and held: "note_holder d k = Some (t, e)" "\<not> touches_note a k t" "\<And>n. note_clock a = Some n \<Longrightarrow> n < e"
  then obtain n where n: "note_of k d = Some n" "n_token n = Some t" "n_expires n = Some e" by (auto simp: note_holder_Some)
  obtain n' where "note_of k (note_step a d) = Some n'" "n' = n \<or> note_change a n n'"
    using note_of_step[OF ok n(1)] by blast
  then show "note_holder (note_step a d) k = Some (t, e)"
    using n held(2,3) note_of_in[OF n(1)] by (cases a) (auto simp: note_holder_Some note_change_defs)
next
  fix d k t e a
  assume ok: "notes_ok d" and held: "note_holder d k = Some (t, e)" "\<not> touches_note a k t" and "note_grants a d k \<noteq> None"
  then have out: "k \<in> notes_out a d" by (simp add: note_grants_def split: if_splits)
  obtain n where n: "note_of k d = Some n" "n_token n = Some t" "n_expires n = Some e"
    using held by (auto simp: note_holder_Some)
  obtain session token lease lim now n' where a: "a = ClaimNotes session token lease lim now"
    and n': "note_of k (note_step a d) = Some n'" "n_token n' = Some token"
    using notes_out_held[OF ok out] by blast
  then have "n' = n \<or> note_change a n n'" using note_of_step[OF ok n(1), of a] by auto
  then show "\<exists>m. note_clock a = Some m \<and> e \<le> m"
    using n n' held(2) by (auto simp: a note_change_defs)
qed

definition note_run :: "note_act list \<Rightarrow> db \<Rightarrow> db" where
  "note_run as d = fold note_step as d"

lemma note_run_eq: "note_run as d = outbox.run as d"
  by (induction as arbitrary: d) (simp_all add: note_run_def)

lemma notes_ok_run: "notes_ok d \<Longrightarrow> notes_ok (note_run as d)"
  unfolding note_run_eq by (rule outbox.inv_run) (simp_all add: list_all_iff)

definition other_notes :: "string \<Rightarrow> string \<Rightarrow> int \<Rightarrow> note_act \<Rightarrow> bool" where
  "other_notes k t e a \<longleftrightarrow> \<not> touches_note a k t \<and> (case note_clock a of None \<Rightarrow> True | Some n \<Rightarrow> n < e)"

lemma note_run_row:
  "notes_ok d \<Longrightarrow> note_of k d = Some n \<Longrightarrow> \<exists>n'. note_of k (note_run as d) = Some n' \<and> note_body n' = note_body n \<and>
    n_slot n' = n_slot n \<and> (n_delivered n \<noteq> None \<longrightarrow> n' = n)"
proof (induction as arbitrary: d n)
  case Nil
  then show ?case by (simp add: note_run_def)
next
  case (Cons a as)
  obtain m where m: "note_of k (note_step a d) = Some m" "m = n \<or> note_change a n m"
    using note_of_step[OF Cons.prems] by blast
  then have "note_body m = note_body n" "n_slot m = n_slot n" "n_delivered n \<noteq> None \<longrightarrow> m = n"
    using note_change_frame[of a n m] by auto
  then show ?case using Cons.IH[OF notes_ok_step[OF Cons.prems(1)] m(1)] by (auto simp: note_run_def)
qed

section \<open>Properties\<close>

text \<open>
  A notification is handed to one deliverer at a time.  Once a batch claim hands out a
  notification under a token until an expiry, no other claim hands it out again before that expiry,
  whatever acts of others happen in between.
\<close>

theorem notification_delivery_exclusive:
  assumes "notes_ok d" and "k \<in> notes_out a d" and "note_holder (note_step a d) k = Some (t, e)"
    and "list_all (other_notes k t e) as" and "other_notes k t e b"
  shows "k \<notin> notes_out b (note_run (a # as) d)"
proof
  assume out: "k \<in> notes_out b (note_run (a # as) d)"
  have quiet: "list_all (outbox.quiet k t e) as"
    using assms(4) by (auto simp: list_all_iff other_notes_def outbox.quiet_def split: option.splits)
  have "note_grants b (outbox.run (a # as) d) k = None"
  proof (rule outbox.exclusive[OF assms(1) _ _ quiet])
    show "note_grants a d k = Some (t, e)" using assms(2,3) by (simp add: note_grants_def)
  qed (use assms(5) in \<open>auto simp: other_notes_def split: option.splits\<close>)
  then have none: "note_holder (note_step b (note_run (a # as) d)) k = None"
    using out by (simp add: note_grants_def note_run_eq)
  have ok: "notes_ok (note_run (a # as) d)" by (rule notes_ok_run[OF assms(1)])
  obtain n token where n: "note_of k (note_step b (note_run (a # as) d)) = Some n" "n_token n = Some token"
    using notes_out_held[OF ok out] by blast
  have "note_row_ok n" using notes_ok_step[OF ok, of b] note_of_in[OF n(1)] by (auto simp: notes_ok_def list_all_iff)
  then show False using none n by (auto simp: note_holder_def note_row_ok_def split: option.splits)
qed

text \<open>
  One notification per run, node and index.  Once stored, a notification keeps its place, its
  session, kind and content through every sequence of operations, however often it is enqueued again; it
  stays the only row for its run, node and index; and once delivered it does not change at all and
  is never handed out again.
\<close>

theorem notification_stored_once:
  assumes "notes_ok d" and "n \<in> set (notifications d)"
  shows "\<exists>n'. n' \<in> set (notifications (note_run as d)) \<and> note_body n' = note_body n \<and>
    (\<forall>m \<in> set (notifications (note_run as d)). n_slot m = n_slot n \<longrightarrow> m = n') \<and>
    (n_delivered n \<noteq> None \<longrightarrow> n' = n \<and> n_id n \<notin> notes_out b (note_run as d))"
proof -
  have row: "note_of (n_id n) d = Some n" by (rule note_of_keyed[OF assms])
  obtain n' where n': "note_of (n_id n) (note_run as d) = Some n'" "note_body n' = note_body n"
      "n_slot n' = n_slot n" "n_delivered n \<noteq> None \<longrightarrow> n' = n"
    using note_run_row[OF assms(1) row] by blast
  have ok: "notes_ok (note_run as d)" by (rule notes_ok_run[OF assms(1)])
  have only: "m = n'" if "m \<in> set (notifications (note_run as d))" "n_slot m = n_slot n" for m
    using that ok n' note_of_in[OF n'(1)] keyed_unique[of n_slot _ m n'] by (auto simp: notes_ok_def)
  have "n_id n \<notin> notes_out b (note_run as d)" if final: "n_delivered n \<noteq> None"
  proof
    assume "n_id n \<in> notes_out b (note_run as d)"
    then obtain m token where m: "note_of (n_id n) (note_step b (note_run as d)) = Some m" "n_token m = Some token"
      using notes_out_held[OF ok] by blast
    have "m = n"
      using note_run_row[OF ok n'(1), of "[b]"] m(1) n'(4) final by (auto simp: note_run_def)
    then have "note_row_ok n" "n_token n = Some token"
      using m(2) assms by (auto simp: notes_ok_def list_all_iff)
    then show False using final by (auto simp: note_row_ok_def)
  qed
  then show ?thesis using n' only note_of_in[OF n'(1)] by blast
qed

section \<open>The properties at work\<close>

definition sample_note :: notification_row where
  "sample_note = \<lparr>n_id = ''n'', n_run = ''r'', n_node = ''a'', n_attempt = ''1'', n_index = 1, n_session = ''me'',
     n_kind = NkFinal, n_content = ''hello'', n_created = ''1970-01-01T00:00:01.000Z'', n_token = None, n_expires = None,
     n_delivered = None\<rparr>"

definition note_db :: db where
  "note_db = empty_db\<lparr>notifications := [sample_note]\<rparr>"

lemma sample_notes_ok: "notes_ok note_db"
  by (simp add: notes_ok_def note_db_def note_row_ok_def sample_note_def keyed_def)

definition sample_note_claim :: note_act where
  "sample_note_claim = ClaimNotes ''me'' ''t'' 5000 None ''1970-01-01T00:00:01.000Z''"

lemma sample_note_claimed:
  "\<exists>x. claimPendingWorkflowNotifications ''me'' ''t'' 5000 None ''1970-01-01T00:00:01.000Z'' note_db =
    (Inr [x], note_db\<lparr>notifications := [take_notification ''t'' 6000 sample_note]\<rparr>) \<and> no_id x = ''n''"
  by (simp add: claimPendingWorkflowNotifications_def store_eval code_of_def sample_times note_db_def sample_note_def
      notification_free_def update_notifications_def take_notification_def workflowNotificationFromRow_def iso_opt_def
      iso_def sample_iso created_order_def)

theorem notification_delivery_exclusive_witness:
  "''n'' \<notin> notes_out (ClaimNotes ''me'' ''u'' 5000 None ''1970-01-01T00:00:02.000Z'') (note_run [sample_note_claim] note_db)"
proof (rule notification_delivery_exclusive[OF sample_notes_ok])
  obtain x where run: "claimPendingWorkflowNotifications ''me'' ''t'' 5000 None ''1970-01-01T00:00:01.000Z'' note_db =
    (Inr [x], note_db\<lparr>notifications := [take_notification ''t'' 6000 sample_note]\<rparr>)" "no_id x = ''n''"
    using sample_note_claimed by blast
  show "''n'' \<in> notes_out sample_note_claim note_db" by (simp add: sample_note_claim_def run)
  show "note_holder (note_step sample_note_claim note_db) ''n'' = Some (''t'', 6000)"
    by (simp add: sample_note_claim_def run note_holder_def note_of_def sql_get_def take_notification_def sample_note_def)
qed (simp_all add: other_notes_def sample_times)

theorem notification_stored_once_witness:
  "\<exists>n'. n' \<in> set (notifications (note_run [sample_note_claim] note_db)) \<and> note_body n' = note_body sample_note"
proof -
  have "sample_note \<in> set (notifications note_db)" by (simp add: note_db_def)
  then show ?thesis using notification_stored_once[OF sample_notes_ok, of sample_note "[sample_note_claim]"] by blast
qed

end
