(* ===== verification/WorkflowShape.thy ===== *)
theory WorkflowShape
  imports Json
begin

text \<open>
  The definitions of workflows as far as the compiler, the graph and the engine read them: the flat
  graph of a compiled workflow, the definition an author writes, and the check of their shape
  (src/workflows/schema.ts), which both go through.
\<close>

section \<open>Definitions\<close>

datatype node_type = NAgent | NCompute | NNotify | NAction | NCheckpoint

text \<open>\<open>nd_exec\<close> is \<open>"exec" in node\<close>; a timeout is absent, null, a number or a function.\<close>

datatype timeout_spec = TmDefault | TmNone | TmMs int | TmFunction

record node =
  nd_type :: node_type
  nd_exec :: bool
  nd_timeout :: timeout_spec
  nd_detail :: "string option"

datatype edge =
    EdgeTo (edge_from: string) string
  | EdgeSwitch (edge_from: string) string "string obj"

definition edge_targets :: "edge \<Rightarrow> string list" where
  "edge_targets e = (case e of EdgeTo a b \<Rightarrow> [b] | EdgeSwitch a on cases \<Rightarrow> map snd cases)"

text \<open>The composition metadata of a compiled workflow: its include entries, exits and scopes.\<close>

record exit_point =
  ex_mount :: string
  ex_name :: string

record scope =
  sc_path :: string
  sc_workflow :: string
  sc_max :: "nat option"

record composition =
  co_entries :: "string list"
  co_exits :: "exit_point obj"
  co_scopes :: "scope list"

record workflow =
  wf_name :: string
  wf_contract :: "string option"
  wf_start :: string
  wf_nodes :: "node obj"
  wf_edges :: "edge list"
  wf_max :: "nat option"
  wf_composition :: "composition option"

text \<open>\<open>Named\<close> is a reference that a loader resolved (or not) to the workflow of its contract.\<close>

datatype include_target = Direct nat | Named string "nat option"

record authored =
  au_name :: string
  au_contract :: "string option"
  au_start :: string
  au_max :: "nat option"
  au_nodes :: "node obj"
  au_includes :: "include_target obj"
  au_exits :: "string obj option"
  au_edges :: "edge list"

definition exits_of :: "authored \<Rightarrow> string obj" where
  "exits_of a = (case au_exits a of None \<Rightarrow> [] | Some xs \<Rightarrow> xs)"

section \<open>The shape of a definition\<close>

definition RESERVED_WORKFLOW_NAMES :: "string list" where
  "RESERVED_WORKFLOW_NAMES = [''answer'', ''cancel'', ''list'', ''pause'', ''resume'', ''status'']"

text \<open>\<open>/^[A-Za-z0-9][A-Za-z0-9._:-]{0,127}$/\<close>\<close>

definition contract_pattern :: "string \<Rightarrow> bool" where
  "contract_pattern s = (case s of [] \<Rightarrow> False
     | c # cs \<Rightarrow> is_alnum c \<and> length cs \<le> 127 \<and> list_all (\<lambda>x. is_alnum x \<or> x \<in> set ''._:-'') cs)"

definition invalid :: "bool \<Rightarrow> string \<Rightarrow> bool \<times> string" where
  "invalid bad message = (\<not> bad, ''Invalid workflow definition: '' @ message)"

text \<open>
  The checks of the node kinds ask whether callbacks are functions, which they are here by type;
  what is left is the timeout.
\<close>

definition assertCommonNodeFields :: "node \<Rightarrow> string \<Rightarrow> (bool \<times> string) list" where
  "assertCommonNodeFields nd n = [invalid (case nd_timeout nd of TmMs ms \<Rightarrow> ms \<le> 0 | _ \<Rightarrow> False)
     (''node '' @ n @ '' timeoutMs must be null, a finite positive number, or a function'')]"

definition assertValidEdgeShape :: "edge \<Rightarrow> nat \<Rightarrow> (bool \<times> string) list" where
  "assertValidEdgeShape e index = (let at = ''edge '' @ nat_dec index in
     invalid (edge_from e = []) (at @ '' requires a from node id'') #
     (case e of
        EdgeTo a b \<Rightarrow> [invalid (b = []) (at @ '' requires a to node id'')]
      | EdgeSwitch a on cases \<Rightarrow>
          invalid (on = []) (at @ '' switch.on must be a JSON path string'') #
          invalid (\<not> starts_with on ''$.'' \<and> \<not> starts_with on ''$output.'' \<and> \<not> starts_with on ''$result.'')
            (at @ '' switch.on must start with \"$.\", \"$output.\", or \"$result.\"'') #
          invalid (cases = []) (at @ '' switch.cases must not be empty'') #
          map (\<lambda>(k, t). invalid (t = []) (at @ '' switch case '' @ quote_json k @ '' must map to a node id'')) cases))"

definition bad_id :: "string \<Rightarrow> bool" where
  "bad_id s \<longleftrightarrow> \<not> node_id_pattern s \<or> starts_with s ''__piw_''"

definition node_id_checks :: "bool \<Rightarrow> string \<Rightarrow> node \<Rightarrow> (bool \<times> string) list" where
  "node_id_checks compiled n nd = (let segments = split_on CHR ''/'' n in
     invalid (list_ex (\<lambda>s. \<not> node_id_pattern s \<or> \<not> compiled \<and> starts_with s ''__piw_'') segments \<or>
         \<not> compiled \<and> length segments \<noteq> 1)
       (''node id '' @ quote_json n @ '' must match ^[A-Za-z_][A-Za-z0-9_-]*$'') #
     invalid (n \<in> set object_prototype_members)
       (''node id '' @ quote_json n @ '' shadows an Object prototype member'') #
     assertCommonNodeFields nd n)"

definition include_checks :: "node obj \<Rightarrow> string \<Rightarrow> (bool \<times> string) list" where
  "include_checks nodes n =
     [invalid (bad_id n) (''include name '' @ quote_json n @ '' must match ^[A-Za-z_][A-Za-z0-9_-]*$''),
      invalid (has_own nodes n) (''include name '' @ quote_json n @ '' collides with a node id'')]"

definition exit_checks :: "string \<times> string \<Rightarrow> (bool \<times> string) list" where
  "exit_checks x = (case x of (n, from) \<Rightarrow>
     [invalid (bad_id n) (''exit name '' @ quote_json n @ '' must match ^[A-Za-z_][A-Za-z0-9_-]*$''),
      invalid (from = []) (''exit '' @ n @ '' requires from'')])"

definition assertValidWorkflowDefinitionShape :: "bool \<Rightarrow> authored \<Rightarrow> string option" where
  "assertValidWorkflowDefinitionShape compiled a = first_failure (
     [invalid (au_name a = []) ''workflow requires a name'',
      invalid (au_name a \<in> set RESERVED_WORKFLOW_NAMES)
        (''workflow name '' @ quote_json (au_name a) @ '' is reserved for /workflow subcommands''),
      invalid (case au_contract a of None \<Rightarrow> False | Some c \<Rightarrow> \<not> contract_pattern c)
        ''workflow contractId must be a stable identifier'',
      invalid (au_start a = []) ''workflow requires startAt'',
      invalid (au_max a = Some 0) ''workflow maxSteps must be a positive integer'',
      invalid (au_nodes a = []) ''workflow requires at least one node''] @
     concat (map (\<lambda>(n, nd). node_id_checks compiled n nd) (au_nodes a)) @
     concat (map (include_checks (au_nodes a)) (obj_keys (au_includes a))) @
     invalid (au_exits a = Some []) ''workflow exits must not be empty'' #
     concat (map exit_checks (exits_of a)) @
     concat (map (\<lambda>(index, e). assertValidEdgeShape e index) (List.enumerate 0 (au_edges a))))"

text \<open>A compiled workflow as a definition: the compiler has taken its includes and exits away.\<close>

definition flat_definition :: "workflow \<Rightarrow> authored" where
  "flat_definition w = \<lparr>au_name = wf_name w, au_contract = wf_contract w, au_start = wf_start w, au_max = wf_max w,
     au_nodes = wf_nodes w, au_includes = [], au_exits = None, au_edges = wf_edges w\<rparr>"

section \<open>What the check establishes\<close>

definition node_timeout_ok :: "node \<Rightarrow> bool" where
  "node_timeout_ok nd \<longleftrightarrow> (case nd_timeout nd of TmMs ms \<Rightarrow> 0 < ms | _ \<Rightarrow> True)"

definition switch_ok :: "edge \<Rightarrow> bool" where
  "switch_ok e \<longleftrightarrow> (case e of EdgeTo a b \<Rightarrow> True
     | EdgeSwitch a on cases \<Rightarrow> (starts_with on ''$.'' \<or> starts_with on ''$output.'' \<or> starts_with on ''$result.'') \<and> cases \<noteq> [])"

text \<open>A node id of a compiled workflow: a path of identifiers that no plain object inherits.\<close>

definition path_id :: "string \<Rightarrow> bool" where
  "path_id n \<longleftrightarrow> list_all node_id_pattern (split_on CHR ''/'' n)"

definition frame_ok :: "string \<Rightarrow> string option \<Rightarrow> string \<Rightarrow> nat option \<Rightarrow> bool" where
  "frame_ok name contract start limit \<longleftrightarrow> name \<noteq> [] \<and> name \<notin> set RESERVED_WORKFLOW_NAMES \<and>
     (case contract of None \<Rightarrow> True | Some c \<Rightarrow> contract_pattern c) \<and> start \<noteq> [] \<and> limit \<noteq> Some 0"

definition nodes_ok :: "node obj \<Rightarrow> bool" where
  "nodes_ok nodes \<longleftrightarrow> nodes \<noteq> [] \<and>
     (\<forall>(n, nd) \<in> set nodes. path_id n \<and> n \<notin> set object_prototype_members \<and> node_timeout_ok nd)"

definition edges_ok :: "edge list \<Rightarrow> bool" where
  "edges_ok es \<longleftrightarrow> (\<forall>e \<in> set es. edge_from e \<noteq> [] \<and> [] \<notin> set (edge_targets e) \<and> switch_ok e)"

lemma edge_shape_ok:
  "list_all fst (assertValidEdgeShape e k) \<longleftrightarrow> edge_from e \<noteq> [] \<and> [] \<notin> set (edge_targets e) \<and> switch_ok e"
proof (cases e)
  case (EdgeSwitch a on cases)
  have "list_all (\<lambda>x. snd x \<noteq> []) cases \<longleftrightarrow> [] \<notin> set (map snd cases)" by (induction cases) auto
  then show ?thesis
    by (auto simp: EdgeSwitch assertValidEdgeShape_def Let_def invalid_def switch_ok_def edge_targets_def list.pred_map
        comp_def case_prod_beta starts_with_def)
qed (auto simp: assertValidEdgeShape_def Let_def invalid_def switch_ok_def edge_targets_def)

lemma edge_shapes_ok:
  "list_all fst (concat (map (\<lambda>(k, e). assertValidEdgeShape e k) (List.enumerate i es))) \<longleftrightarrow> edges_ok es"
  by (induction es arbitrary: i) (simp_all add: edge_shape_ok edges_ok_def)

lemma node_shape_ok:
  "list_all fst (node_id_checks True n nd) \<longleftrightarrow> path_id n \<and> n \<notin> set object_prototype_members \<and> node_timeout_ok nd"
  by (auto simp: node_id_checks_def assertCommonNodeFields_def Let_def invalid_def path_id_def node_timeout_ok_def list_all_iff
      list_ex_iff split: timeout_spec.splits)

lemma node_shapes_ok:
  "list_all fst (concat (map (\<lambda>(n, nd). node_id_checks True n nd) nodes)) \<longleftrightarrow>
     (\<forall>(n, nd) \<in> set nodes. path_id n \<and> n \<notin> set object_prototype_members \<and> node_timeout_ok nd)"
  by (induction nodes) (auto simp: node_shape_ok)

lemma flat_shape_ok:
  "assertValidWorkflowDefinitionShape True (flat_definition w) = None \<longleftrightarrow>
     frame_ok (wf_name w) (wf_contract w) (wf_start w) (wf_max w) \<and> nodes_ok (wf_nodes w) \<and> edges_ok (wf_edges w)"
  unfolding assertValidWorkflowDefinitionShape_def first_failure_None flat_definition_def
  by (auto simp: edge_shapes_ok node_shapes_ok invalid_def frame_ok_def nodes_ok_def exits_of_def obj_keys_def
      split: option.splits)

end
