(* ===== verification/WorkflowGraph.thy ===== *)
theory WorkflowGraph
  imports WorkflowShape
begin

text \<open>
  Workflow graphs (src/workflows/graph.ts): the validation of a compiled workflow and the routing
  from a finished node to the next.  What validates is a definition of the right shape whose graph is
  one in which every edge leads to a node and every node is reachable; the
  breadth-first search is proved against the reflexive transitive closure of the edges.
\<close>

section \<open>Results\<close>

datatype outcome = OutOk | OutTimedOut | OutFailed | OutCancelled

record node_result =
  nr_attempt :: string
  nr_node :: string
  nr_type :: node_type
  nr_outcome :: outcome
  nr_started :: string
  nr_finished :: string
  nr_duration :: jnum
  nr_output :: "jv option"
  nr_error :: "string option"

section \<open>Validation\<close>

datatype graph_error =
    InvalidShape string
  | StartMissing string
  | UnknownFrom string
  | MultipleEdges string
  | UnknownTo string
  | UnknownCase string
  | Unreachable "string list"

definition assertKnownNode :: "workflow \<Rightarrow> string \<Rightarrow> graph_error \<Rightarrow> bool \<times> graph_error" where
  "assertKnownNode w n e = (has_own (wf_nodes w) n, e)"

text \<open>The checks of one edge, given the nodes that already have an outgoing edge.\<close>

definition validateWorkflowEdge :: "workflow \<Rightarrow> edge \<Rightarrow> string list \<Rightarrow> (bool \<times> graph_error) list" where
  "validateWorkflowEdge w e outgoing =
     assertKnownNode w (edge_from e) (UnknownFrom (edge_from e)) #
     (edge_from e \<notin> set outgoing, MultipleEdges (edge_from e)) #
     (case e of
        EdgeTo a b \<Rightarrow> [assertKnownNode w b (UnknownTo b)]
      | EdgeSwitch a on cases \<Rightarrow> map (\<lambda>(k, b). assertKnownNode w b (UnknownCase b)) cases)"

fun edge_checks :: "workflow \<Rightarrow> edge list \<Rightarrow> string list \<Rightarrow> (bool \<times> graph_error) list" where
  "edge_checks w [] outgoing = []"
| "edge_checks w (e # es) outgoing =
     validateWorkflowEdge w e outgoing @ edge_checks w es (edge_from e # outgoing)"

text \<open>\<open>if (!reachable.has(target)) { reachable.add(target); queue.push(target); }\<close>\<close>

definition discover :: "string \<Rightarrow> string list \<times> string list \<Rightarrow> string list \<times> string list" where
  "discover t rq = (case rq of (seen, queue) \<Rightarrow>
     if t \<in> set seen then (seen, queue) else (seen @ [t], queue @ [t]))"

definition targets_of :: "edge list \<Rightarrow> string \<Rightarrow> string list" where
  "targets_of es n = concat (map edge_targets (filter (\<lambda>e. edge_from e = n) es))"

definition unseen :: "edge list \<Rightarrow> string list \<Rightarrow> nat" where
  "unseen es seen = card (set (concat (map edge_targets es)) - set seen)"

lemma discover_measure:
  assumes "set ts \<subseteq> set (concat (map edge_targets es))" and "fold discover ts (seen, queue) = (seen', queue')"
  shows "unseen es seen' + length queue' = unseen es seen + length queue"
  using assms
proof (induction ts arbitrary: seen queue)
  case Nil
  then show ?case by simp
next
  case (Cons t ts)
  show ?case
  proof (cases "t \<in> set seen")
    case True
    then have "discover t (seen, queue) = (seen, queue)" by (simp add: discover_def)
    then show ?thesis using Cons by simp
  next
    case False
    have "set (concat (map edge_targets es)) - set (seen @ [t]) = (set (concat (map edge_targets es)) - set seen) - {t}"
      by auto
    moreover have "t \<in> set (concat (map edge_targets es)) - set seen" using Cons.prems(1) False by simp
    ultimately have "Suc (unseen es (seen @ [t])) = unseen es seen"
      unfolding unseen_def using card_Suc_Diff1[of "set (concat (map edge_targets es)) - set seen" t] by simp
    moreover have "discover t (seen, queue) = (seen @ [t], queue @ [t])" using False by (simp add: discover_def)
    then have "fold discover ts (seen @ [t], queue @ [t]) = (seen', queue')" using Cons.prems(2) by simp
    ultimately show ?thesis using Cons.IH[of "seen @ [t]" "queue @ [t]"] Cons.prems(1) by simp
  qed
qed

lemma targets_of_subset: "set (targets_of es n) \<subseteq> set (concat (map edge_targets es))"
  by (auto simp: targets_of_def)

function reach :: "edge list \<Rightarrow> string list \<Rightarrow> string list \<Rightarrow> string list" where
  "reach es seen [] = seen"
| "reach es seen (n # queue) =
     (case fold discover (targets_of es n) (seen, queue) of (seen', queue') \<Rightarrow> reach es seen' queue')"
  by pat_completeness auto
termination
proof (relation "measure (\<lambda>(es, seen, queue). unseen es seen + length queue)", simp, goal_cases)
  case (1 es seen n queue seen' queue')
  then have "unseen es seen' + length queue' = unseen es seen + length queue"
    using discover_measure[OF targets_of_subset, of es n seen queue seen' queue'] by simp
  then show ?case by simp
qed

definition assertAllNodesReachable :: "workflow \<Rightarrow> graph_error option" where
  "assertAllNodesReachable w =
     (let seen = reach (wf_edges w) [wf_start w] [wf_start w];
          unreachable = filter (\<lambda>n. n \<notin> set seen) (obj_keys (wf_nodes w)) in
      if unreachable = [] then None else Some (Unreachable unreachable))"

definition validateWorkflowDefinition :: "workflow \<Rightarrow> graph_error option" where
  "validateWorkflowDefinition w = (case assertValidWorkflowDefinitionShape True (flat_definition w) of
     Some message \<Rightarrow> Some (InvalidShape message)
   | None \<Rightarrow> (case first_failure ((has_own (wf_nodes w) (wf_start w), StartMissing (wf_start w)) # edge_checks w (wf_edges w) []) of
        Some e \<Rightarrow> Some e
      | None \<Rightarrow> assertAllNodesReachable w))"

section \<open>Routing\<close>

datatype route_error = UnsupportedPath string | NotScalar string | NoCase string string

text \<open>
  A property read: an own property, an array element or length, or what the prototypes hold.  The
  only values there that are not functions are \<open>__proto__\<close> itself and the length 0 of the array
  prototype, so those two objects are kept apart from \<open>undefined\<close>.
\<close>

datatype path_value = PV jv | ObjectProto | ArrayProto

definition array_index :: "jv list \<Rightarrow> string \<Rightarrow> jv" where
  "array_index vs k = (if is_index k \<and> dec_val 0 k < length vs then vs ! dec_val 0 k else JUndef)"

fun read_key :: "path_value \<Rightarrow> string \<Rightarrow> path_value" where
  "read_key (PV (JObj ob)) k = (case obj_get ob k of
     Some v \<Rightarrow> PV v
   | None \<Rightarrow> if k = ''__proto__'' then ObjectProto else PV JUndef)"
| "read_key (PV (JArr vs)) k =
     (if k = ''length'' then PV (jnat (length vs)) else if k = ''__proto__'' then ArrayProto else PV (array_index vs k))"
| "read_key ObjectProto k = (if k = ''__proto__'' then PV JNull else PV JUndef)"
| "read_key ArrayProto k =
     (if k = ''length'' then PV (jnat 0) else if k = ''__proto__'' then ObjectProto else PV JUndef)"
| "read_key (PV v) k = PV JUndef"

definition getByPath :: "jv \<Rightarrow> string \<Rightarrow> (route_error, path_value) result" where
  "getByPath v path =
     (if \<not> starts_with path ''$.'' then Inl (UnsupportedPath path)
      else Inr (fold (\<lambda>k cur. read_key cur k) (split_on CHR ''.'' (drop 2 path)) (PV v)))"

definition node_type_text :: "node_type \<Rightarrow> string" where
  "node_type_text t = (case t of NAgent \<Rightarrow> ''agent'' | NCompute \<Rightarrow> ''compute'' | NNotify \<Rightarrow> ''notify''
     | NAction \<Rightarrow> ''action'' | NCheckpoint \<Rightarrow> ''checkpoint'')"

definition outcome_text :: "outcome \<Rightarrow> string" where
  "outcome_text out = (case out of OutOk \<Rightarrow> ''ok'' | OutTimedOut \<Rightarrow> ''timed_out'' | OutFailed \<Rightarrow> ''failed''
     | OutCancelled \<Rightarrow> ''cancelled'')"

text \<open>The result as the object routing looks into.\<close>

definition result_value :: "node_result \<Rightarrow> jv" where
  "result_value r = JObj ([(''attemptId'', JStr (nr_attempt r)), (''nodeId'', JStr (nr_node r)),
     (''nodeType'', JStr (node_type_text (nr_type r))), (''outcome'', JStr (outcome_text (nr_outcome r))),
     (''startedAt'', JStr (nr_started r)), (''finishedAt'', JStr (nr_finished r)), (''durationMs'', JNum (nr_duration r))] @
     (case nr_output r of None \<Rightarrow> [] | Some v \<Rightarrow> [(''output'', v)]) @
     (case nr_error r of None \<Rightarrow> [] | Some e \<Rightarrow> [(''error'', JStr e)]))"

definition result_or_undef :: "node_result option \<Rightarrow> jv" where
  "result_or_undef r = (case r of None \<Rightarrow> JUndef | Some r \<Rightarrow> result_value r)"

definition getBySwitchPath :: "jv \<Rightarrow> node_result option \<Rightarrow> string \<Rightarrow> (route_error, path_value) result" where
  "getBySwitchPath out r path =
     (if starts_with path ''$result.'' then getByPath (result_or_undef r) (''$.'' @ drop 8 path)
      else if starts_with path ''$output.'' then getByPath out (''$.'' @ drop 8 path)
      else getByPath out path)"

text \<open>\<open>String(value)\<close> of a scalar.\<close>

fun scalar_text :: "jv \<Rightarrow> string option" where
  "scalar_text (JStr s) = Some s"
| "scalar_text (JBool b) = Some (if b then ''true'' else ''false'')"
| "scalar_text (JNum NumNaN) = Some ''NaN''"
| "scalar_text (JNum (NumInf neg)) = Some (if neg then ''-Infinity'' else ''Infinity'')"
| "scalar_text (JNum n) = Some (num_text n)"
| "scalar_text _ = None"

text \<open>
  \<open>cases[String(value)]\<close> also finds what the object prototype holds: then the target is a function
  (or the prototype), which no node map has; it stands here as the text it turns into as a key.
\<close>

definition inherited_target :: "string \<Rightarrow> string" where
  "inherited_target k = (if k = ''__proto__'' then ''[object Object]''
     else ''function '' @ (if k = ''constructor'' then ''Object'' else k) @ ''() { [native code] }'')"

definition case_target :: "string obj \<Rightarrow> string \<Rightarrow> string option" where
  "case_target cases k = (case obj_get cases k of
     Some t \<Rightarrow> if t = [] then None else Some t
   | None \<Rightarrow> if k \<in> set object_prototype_members then Some (inherited_target k) else None)"

definition resolveSwitchTarget ::
    "string \<Rightarrow> string obj \<Rightarrow> jv \<Rightarrow> node_result option \<Rightarrow> (route_error, string) result" where
  "resolveSwitchTarget on cases out r =
     (case getBySwitchPath out r on of
        Inl e \<Rightarrow> Inl e
      | Inr (PV v) \<Rightarrow> (case scalar_text v of
            None \<Rightarrow> Inl (NotScalar on)
          | Some k \<Rightarrow> (case case_target cases k of None \<Rightarrow> Inl (NoCase on k) | Some t \<Rightarrow> Inr t))
      | Inr _ \<Rightarrow> Inl (NotScalar on))"

definition edge_of :: "edge list \<Rightarrow> string \<Rightarrow> edge option" where
  "edge_of es n = find_result (\<lambda>e. edge_from e = n) es"

definition resolveNext ::
    "edge list \<Rightarrow> string \<Rightarrow> jv \<Rightarrow> node_result option \<Rightarrow> (route_error, string option) result" where
  "resolveNext es n out r = (case edge_of es n of
     None \<Rightarrow> Inr None
   | Some (EdgeTo a b) \<Rightarrow> Inr (Some b)
   | Some (EdgeSwitch a on cases) \<Rightarrow> (case resolveSwitchTarget on cases out r of Inl e \<Rightarrow> Inl e | Inr t \<Rightarrow> Inr (Some t)))"

definition resolveNextForOutcome ::
    "edge list \<Rightarrow> string \<Rightarrow> node_result \<Rightarrow> (route_error, string option) result" where
  "resolveNextForOutcome es n r = (case edge_of es n of
     Some (EdgeSwitch a on cases) \<Rightarrow>
       if starts_with on ''$result.'' then
         (case resolveSwitchTarget on cases JUndef (Some r) of Inl e \<Rightarrow> Inl e | Inr t \<Rightarrow> Inr (Some t))
       else Inr None
   | _ \<Rightarrow> Inr None)"

section \<open>The search finds exactly the reachable nodes\<close>

definition edge_rel :: "edge list \<Rightarrow> (string \<times> string) set" where
  "edge_rel es = {(a, b). b \<in> set (targets_of es a)}"

lemma discover_all:
  assumes "fold discover ts (seen, queue) = (seen', queue')"
  shows "set seen' = set seen \<union> set ts \<and> set queue' = set queue \<union> (set ts - set seen)"
  using assms
proof (induction ts arbitrary: seen queue)
  case (Cons t ts)
  show ?case
  proof (cases "t \<in> set seen")
    case True
    then have "discover t (seen, queue) = (seen, queue)" by (simp add: discover_def)
    then have "set seen' = set seen \<union> set ts \<and> set queue' = set queue \<union> (set ts - set seen)"
      using Cons by simp
    then show ?thesis using True by auto
  next
    case False
    then have "discover t (seen, queue) = (seen @ [t], queue @ [t])" by (simp add: discover_def)
    then have "set seen' = set (seen @ [t]) \<union> set ts \<and> set queue' = set (queue @ [t]) \<union> (set ts - set (seen @ [t]))"
      using Cons.IH[of "seen @ [t]" "queue @ [t]"] Cons.prems by simp
    then show ?thesis using False by auto
  qed
qed simp

text \<open>Every node seen and no longer queued has been expanded.\<close>

lemma reach_closure:
  assumes "set queue \<subseteq> set seen"
    and "\<And>a b. a \<in> set seen - set queue \<Longrightarrow> (a, b) \<in> edge_rel es \<Longrightarrow> b \<in> set seen"
  shows "set (reach es seen queue) = (edge_rel es)\<^sup>* `` set seen"
  using assms
proof (induction es seen queue rule: reach.induct)
  case (1 es seen)
  have "b \<in> set seen" if "(a, b) \<in> (edge_rel es)\<^sup>*" "a \<in> set seen" for a b
    using that by (induction rule: rtrancl_induct) (use 1 in auto)
  then show ?case by auto
next
  case (2 es seen n queue)
  obtain seen' queue' where step: "fold discover (targets_of es n) (seen, queue) = (seen', queue')"
    by (cases "fold discover (targets_of es n) (seen, queue)")
  note sets = discover_all[OF step]
  have "set (reach es seen' queue') = (edge_rel es)\<^sup>* `` set seen'"
  proof (rule 2(1)[OF step[symmetric]])
    show "set queue' \<subseteq> set seen'" using sets 2(2) by auto
    fix a b assume a: "a \<in> set seen' - set queue'" and ab: "(a, b) \<in> edge_rel es"
    show "b \<in> set seen'"
    proof (cases "a = n")
      case True
      then show ?thesis using ab sets by (simp add: edge_rel_def)
    next
      case False
      then show ?thesis using a ab sets 2(3)[of a b] by auto
    qed
  qed
  moreover have "(edge_rel es)\<^sup>* `` set seen' = (edge_rel es)\<^sup>* `` set seen"
  proof -
    have "n \<in> set seen" using 2(2) by simp
    then have "set seen' \<subseteq> (edge_rel es)\<^sup>* `` set seen" using sets by (auto simp: edge_rel_def)
    then have "(edge_rel es)\<^sup>* `` set seen' \<subseteq> (edge_rel es)\<^sup>* `` ((edge_rel es)\<^sup>* `` set seen)" by blast
    also have "\<dots> = (edge_rel es)\<^sup>* `` set seen" by (metis rtrancl_idemp_self_comp relcomp_Image)
    finally show ?thesis using sets by blast
  qed
  ultimately show ?case by (simp add: step)
qed

corollary reach_start: "set (reach es [n] [n]) = (edge_rel es)\<^sup>* `` {n}"
  by (subst reach_closure) auto

text \<open>What a sound workflow graph is.\<close>

definition graph_ok :: "workflow \<Rightarrow> bool" where
  "graph_ok w \<longleftrightarrow> frame_ok (wf_name w) (wf_contract w) (wf_start w) (wf_max w) \<and> nodes_ok (wf_nodes w) \<and>
     edges_ok (wf_edges w) \<and> has_own (wf_nodes w) (wf_start w) \<and> distinct (map edge_from (wf_edges w)) \<and>
     (\<forall>e \<in> set (wf_edges w). has_own (wf_nodes w) (edge_from e) \<and> (\<forall>t \<in> set (edge_targets e). has_own (wf_nodes w) t)) \<and>
     (\<forall>n. has_own (wf_nodes w) n \<longrightarrow> (wf_start w, n) \<in> (edge_rel (wf_edges w))\<^sup>*)"

lemma validateWorkflowEdge_ok:
  "list_all fst (validateWorkflowEdge w e outgoing) \<longleftrightarrow> has_own (wf_nodes w) (edge_from e) \<and> edge_from e \<notin> set outgoing \<and>
     (\<forall>t \<in> set (edge_targets e). has_own (wf_nodes w) t)"
  by (cases e) (auto simp: validateWorkflowEdge_def assertKnownNode_def edge_targets_def list_all_iff)

lemma edge_checks_ok:
  "list_all fst (edge_checks w es outgoing) \<longleftrightarrow>
     (\<forall>e \<in> set es. has_own (wf_nodes w) (edge_from e) \<and> (\<forall>t \<in> set (edge_targets e). has_own (wf_nodes w) t)) \<and>
     distinct (map edge_from es) \<and> set (map edge_from es) \<inter> set outgoing = {}"
  by (induction es arbitrary: outgoing) (auto simp: validateWorkflowEdge_ok)

lemma validate_graph_ok: "validateWorkflowDefinition w = None \<longleftrightarrow> graph_ok w"
proof -
  have "assertAllNodesReachable w = None \<longleftrightarrow>
      (\<forall>n. has_own (wf_nodes w) n \<longrightarrow> (wf_start w, n) \<in> (edge_rel (wf_edges w))\<^sup>*)"
    by (auto simp: assertAllNodesReachable_def Let_def filter_empty_conv reach_start has_own_def simp del: reach.simps)
  moreover have "first_failure ((has_own (wf_nodes w) (wf_start w), StartMissing (wf_start w)) # edge_checks w (wf_edges w) []) = None \<longleftrightarrow>
      has_own (wf_nodes w) (wf_start w) \<and> distinct (map edge_from (wf_edges w)) \<and>
      (\<forall>e \<in> set (wf_edges w). has_own (wf_nodes w) (edge_from e) \<and> (\<forall>t \<in> set (edge_targets e). has_own (wf_nodes w) t))"
    unfolding first_failure_None by (auto simp: edge_checks_ok)
  moreover have "validateWorkflowDefinition w = None \<longleftrightarrow>
      assertValidWorkflowDefinitionShape True (flat_definition w) = None \<and>
      first_failure ((has_own (wf_nodes w) (wf_start w), StartMissing (wf_start w)) # edge_checks w (wf_edges w) []) = None \<and>
      assertAllNodesReachable w = None"
    unfolding validateWorkflowDefinition_def by (simp only: option.case_eq_if split: if_split) blast
  ultimately show ?thesis by (simp only: graph_ok_def flat_shape_ok conj_assoc)
qed


section \<open>Routing stays in the graph\<close>

lemma edge_of_Some: "edge_of es n = Some e \<Longrightarrow> e \<in> set es \<and> edge_from e = n"
  unfolding edge_of_def by (auto dest: find_result_Some)

lemma case_target_cases:
  "case_target cases k = Some t \<Longrightarrow> t \<in> set (map snd cases) \<or>
     (obj_get cases k = None \<and> k \<in> set object_prototype_members \<and> t = inherited_target k)"
  by (force simp: case_target_def obj_get_def split: option.splits if_splits dest: map_of_SomeD)

text \<open>The value a switch decides on, when it is a scalar.\<close>

definition switch_key :: "edge list \<Rightarrow> string \<Rightarrow> jv \<Rightarrow> node_result option \<Rightarrow> string option" where
  "switch_key es n out r = (case edge_of es n of
     Some (EdgeSwitch a on cases) \<Rightarrow> (case getBySwitchPath out r on of Inr (PV v) \<Rightarrow> scalar_text v | _ \<Rightarrow> None)
   | _ \<Rightarrow> None)"

lemma resolveSwitchTarget_Inr:
  assumes "resolveSwitchTarget on cases out r = Inr t"
  shows "\<exists>v k. getBySwitchPath out r on = Inr (PV v) \<and> scalar_text v = Some k \<and> case_target cases k = Some t"
  using assms by (auto simp: resolveSwitchTarget_def split: sum.splits path_value.splits option.splits)

lemma resolveNext_target:
  assumes "graph_ok w" and "resolveNext (wf_edges w) n out r = Inr (Some t)"
  shows "has_own (wf_nodes w) t \<and> (n, t) \<in> edge_rel (wf_edges w) \<or>
    (\<exists>k. switch_key (wf_edges w) n out r = Some k \<and> k \<in> set object_prototype_members \<and> t = inherited_target k)"
proof -
  obtain e where e: "edge_of (wf_edges w) n = Some e" using assms(2) by (auto simp: resolveNext_def split: option.splits)
  have edge: "e \<in> set (wf_edges w)" "edge_from e = n" using edge_of_Some[OF e] by simp_all
  have inside: "has_own (wf_nodes w) t \<and> (n, t) \<in> edge_rel (wf_edges w)" if "t \<in> set (edge_targets e)"
    using that assms(1) edge by (auto simp: graph_ok_def edge_rel_def targets_of_def)
  show ?thesis
  proof (cases e)
    case (EdgeTo a b)
    then show ?thesis using assms(2) e inside by (simp add: resolveNext_def edge_targets_def)
  next
    case (EdgeSwitch a on cases)
    then have "resolveSwitchTarget on cases out r = Inr t"
      using assms(2) e by (auto simp: resolveNext_def split: sum.splits)
    then obtain v k where "getBySwitchPath out r on = Inr (PV v)" "scalar_text v = Some k" "case_target cases k = Some t"
      using resolveSwitchTarget_Inr by blast
    then show ?thesis
      using case_target_cases[of cases k t] inside EdgeSwitch e by (auto simp: switch_key_def edge_targets_def)
  qed
qed

lemma outcome_ignores_output:
  "starts_with on ''$result.'' \<Longrightarrow> resolveSwitchTarget on cases out r = resolveSwitchTarget on cases JUndef r"
  by (simp add: resolveSwitchTarget_def getBySwitchPath_def)

text \<open>
  Routing stays in the graph.  In a validated workflow a resolved next node is a node of the
  workflow, one an edge leads to from here, unless the switch value is the name of a member of the
  object prototype; without an outgoing edge the run ends here, and a plain edge never fails.
  Routing after a failure only ever goes where routing with the result would go.
\<close>

theorem routing_stays_in_graph:
  assumes "validateWorkflowDefinition w = None"
    and "switch_key (wf_edges w) n out r \<notin> Some ` set object_prototype_members"
  shows "(case resolveNext (wf_edges w) n out r of
      Inl e \<Rightarrow> \<exists>on cases. edge_of (wf_edges w) n = Some (EdgeSwitch n on cases)
    | Inr None \<Rightarrow> edge_of (wf_edges w) n = None
    | Inr (Some t) \<Rightarrow> has_own (wf_nodes w) t \<and> (n, t) \<in> edge_rel (wf_edges w)) \<and>
    (\<forall>res t. r = Some res \<longrightarrow> resolveNextForOutcome (wf_edges w) n res = Inr (Some t) \<longrightarrow>
      resolveNext (wf_edges w) n out r = Inr (Some t))"
proof -
  have ok: "graph_ok w" using assms(1) validate_graph_ok by simp
  have "(case resolveNext (wf_edges w) n out r of
      Inl e \<Rightarrow> \<exists>on cases. edge_of (wf_edges w) n = Some (EdgeSwitch n on cases)
    | Inr None \<Rightarrow> edge_of (wf_edges w) n = None
    | Inr (Some t) \<Rightarrow> has_own (wf_nodes w) t \<and> (n, t) \<in> edge_rel (wf_edges w))"
  proof (cases "resolveNext (wf_edges w) n out r")
    case (Inl e)
    then show ?thesis
      by (auto simp: resolveNext_def dest: edge_of_Some split: option.splits edge.splits sum.splits)
  next
    case (Inr nx)
    then show ?thesis
      using resolveNext_target[OF ok, of n out r] assms(2)
      by (cases nx) (auto simp: resolveNext_def image_iff split: option.splits edge.splits sum.splits)
  qed
  moreover have "resolveNext (wf_edges w) n out r = Inr (Some t)"
    if r: "r = Some res" and to: "resolveNextForOutcome (wf_edges w) n res = Inr (Some t)" for res t
  proof -
    obtain a on cases where e: "edge_of (wf_edges w) n = Some (EdgeSwitch a on cases)" "starts_with on ''$result.''"
      and "resolveSwitchTarget on cases JUndef (Some res) = Inr t"
      using to by (auto simp: resolveNextForOutcome_def split: option.splits edge.splits sum.splits if_splits)
    then show ?thesis using outcome_ignores_output[OF e(2), of cases out "Some res"] r by (simp add: resolveNext_def)
  qed
  ultimately show ?thesis by blast
qed

definition verdict_workflow :: workflow where
  "verdict_workflow = \<lparr>wf_name = ''w'', wf_contract = None, wf_start = ''ask'', wf_nodes = [
      (''ask'', \<lparr>nd_type = NAgent, nd_exec = False, nd_timeout = TmDefault, nd_detail = None\<rparr>),
      (''end'', \<lparr>nd_type = NCompute, nd_exec = False, nd_timeout = TmDefault, nd_detail = None\<rparr>)],
    wf_edges = [EdgeSwitch ''ask'' ''$.verdict'' [(''yes'', ''end'')]], wf_max = None, wf_composition = None\<rparr>"

text \<open>
  A switch value can name an inherited member.  With the valid two-node workflow below, a first
  node whose output has the verdict "constructor" (a verdict no case lists) is not refused as a
  missing case: routing answers a target that is no node of the workflow.
\<close>

theorem inherited_case_leaves_graph:
  "validateWorkflowDefinition verdict_workflow = None \<and>
   (case resolveNext (wf_edges verdict_workflow) ''ask'' (JObj [(''verdict'', JStr ''constructor'')]) None of
      Inr (Some t) \<Rightarrow> \<not> has_own (wf_nodes verdict_workflow) t | _ \<Rightarrow> False) \<and>
   resolveNext (wf_edges verdict_workflow) ''ask'' (JObj [(''verdict'', JStr ''no'')]) None = Inl (NoCase ''$.verdict'' ''no'')"
  by code_simp

theorem routing_stays_in_graph_witness:
  "has_own (wf_nodes verdict_workflow) ''end'' \<and> (''ask'', ''end'') \<in> edge_rel (wf_edges verdict_workflow)"
proof -
  have facts: "validateWorkflowDefinition verdict_workflow = None"
    "switch_key (wf_edges verdict_workflow) ''ask'' (JObj [(''verdict'', JStr ''yes'')]) None = Some ''yes''"
    "resolveNext (wf_edges verdict_workflow) ''ask'' (JObj [(''verdict'', JStr ''yes'')]) None = Inr (Some ''end'')"
    by code_simp+
  then have "switch_key (wf_edges verdict_workflow) ''ask'' (JObj [(''verdict'', JStr ''yes'')]) None \<notin>
      Some ` set object_prototype_members"
    by (auto simp: object_prototype_members_def)
  then show ?thesis using routing_stays_in_graph[OF facts(1)] facts(3) by fastforce
qed

end
