(* ===== verification/Engine.thy ===== *)
theory Engine
  imports WorkflowGraph JsTime
begin

text \<open>
  The workflow engine (src/workflows/engine.ts) as a machine.  Its state is the engine object, the
  run state it mutates and the trace of persisted snapshots; its program counter names the await
  the engine stands at.  An event settles that await or is a call of \<open>cancel\<close>, \<open>park\<close>, \<open>pause\<close> or
  \<open>resume\<close>, which may come at any await.  What node callbacks, executors and the disk answer is
  part of the event, so every interleaving is a list of events.
\<close>

section \<open>Errors and outcomes\<close>

text \<open>Errors by what the engine asks of them; \<open>ErrAbort\<close> is an error named \<open>AbortError\<close>.\<close>

datatype engine_error = ErrTimeout int | ErrCancelled | ErrAbort string | ErrParked | ErrClaimLost | ErrOther string

definition isAbortLikeError :: "engine_error \<Rightarrow> bool" where
  "isAbortLikeError e = (case e of ErrCancelled \<Rightarrow> True | ErrAbort m \<Rightarrow> True | _ \<Rightarrow> False)"

definition errorMessage :: "engine_error \<Rightarrow> string" where
  "errorMessage e = (case e of
     ErrTimeout ms \<Rightarrow> ''Timed out after '' @ int_dec ms @ ''ms''
   | ErrCancelled \<Rightarrow> ''Workflow run was cancelled''
   | ErrAbort m \<Rightarrow> m
   | ErrParked \<Rightarrow> ''Workflow run was parked''
   | ErrClaimLost \<Rightarrow> ''Workflow run claim lost''
   | ErrOther m \<Rightarrow> m)"

definition outcomeForError :: "bool \<Rightarrow> engine_error \<Rightarrow> outcome" where
  "outcomeForError cancelled e = (case e of
     ErrTimeout ms \<Rightarrow> OutTimedOut
   | _ \<Rightarrow> if cancelled \<or> isAbortLikeError e then OutCancelled else OutFailed)"

section \<open>The run state\<close>

text \<open>What a node leaves besides its output: the prompt sent, the receipt, the conversation range.\<close>

record meta =
  me_prompt :: "string option"
  me_action :: "jv option"
  me_conversation :: "jv option"

definition no_meta :: meta where
  "no_meta = \<lparr>me_prompt = None, me_action = None, me_conversation = None\<rparr>"

record step_record =
  st_attempt :: string
  st_node :: string
  st_type :: node_type
  st_outcome :: outcome
  st_started :: string
  st_finished :: string
  st_meta :: meta
  st_output :: jv
  st_error :: "string option"

record run_state =
  rs_status :: run_status
  rs_input :: jv
  rs_outputs :: "jv obj"
  rs_results :: "node_result obj"
  rs_steps :: "step_record list"
  rs_current :: "string option"
  rs_attempt :: "string option"
  rs_node_started :: "string option"
  rs_detail :: "string option"
  rs_paused :: bool
  rs_error :: "string option"
  rs_waiting :: "string option"
  rs_final :: "jv option"
  rs_finished :: "string option"
  rs_carried :: nat

definition createRunState :: "jv \<Rightarrow> run_state" where
  "createRunState input = \<lparr>rs_status = StRunning, rs_input = input, rs_outputs = [], rs_results = [], rs_steps = [],
     rs_current = None, rs_attempt = None, rs_node_started = None, rs_detail = None, rs_paused = False, rs_error = None,
     rs_waiting = None, rs_final = None, rs_finished = None, rs_carried = 0\<rparr>"

record attempt =
  at_result :: node_result
  at_meta :: meta
  at_error :: "engine_error option"

definition duration :: "string \<Rightarrow> string \<Rightarrow> jnum" where
  "duration started finished = (case (date_parse started, date_parse finished) of
     (Some a, Some b) \<Rightarrow> NumFin (int_dec (b - a)) | _ \<Rightarrow> NumNaN)"

definition createNodeResult ::
    "string \<Rightarrow> node \<Rightarrow> string \<Rightarrow> string \<Rightarrow> string \<Rightarrow> outcome \<Rightarrow> jv option \<Rightarrow> string option \<Rightarrow> node_result" where
  "createNodeResult n nd att started finished out output err = \<lparr>nr_attempt = att, nr_node = n, nr_type = nd_type nd,
     nr_outcome = out, nr_started = started, nr_finished = finished, nr_duration = duration started finished,
     nr_output = output, nr_error = err\<rparr>"

section \<open>Composition\<close>

definition is_entry :: "workflow \<Rightarrow> string \<Rightarrow> bool" where
  "is_entry w n = (case wf_composition w of None \<Rightarrow> False | Some c \<Rightarrow> n \<in> set (co_entries c))"

definition exit_of :: "workflow \<Rightarrow> string \<Rightarrow> exit_point option" where
  "exit_of w n = (case wf_composition w of None \<Rightarrow> None | Some c \<Rightarrow> obj_get (co_exits c) n)"

definition is_transition :: "workflow \<Rightarrow> string \<Rightarrow> bool" where
  "is_transition w n \<longleftrightarrow> is_entry w n \<or> exit_of w n \<noteq> None"

definition countExecutableSteps :: "workflow \<Rightarrow> step_record list \<Rightarrow> nat" where
  "countExecutableSteps w steps = length (filter (\<lambda>s. \<not> is_transition w (st_node s)) steps)"

text \<open>The steps after the last one of a node.\<close>

fun after_last :: "string \<Rightarrow> step_record list \<Rightarrow> step_record list option" where
  "after_last p [] = None"
| "after_last p (s # ss) = (case after_last p ss of Some r \<Rightarrow> Some r
     | None \<Rightarrow> if st_node s = p then Some ss else None)"

definition scope_attempts :: "workflow \<Rightarrow> scope \<Rightarrow> step_record list \<Rightarrow> nat" where
  "scope_attempts w sc steps =
     length (filter (\<lambda>s. starts_with (st_node s) (sc_path sc @ ''/'') \<and> \<not> is_transition w (st_node s)) steps)"

definition scope_error :: "workflow \<Rightarrow> step_record list \<Rightarrow> scope \<Rightarrow> engine_error option" where
  "scope_error w steps sc = (case after_last (sc_path sc) steps of
     None \<Rightarrow> Some (ErrOther (''Workflow include entry is missing: '' @ sc_path sc))
   | Some rest \<Rightarrow> (case sc_max sc of
       None \<Rightarrow> None
     | Some m \<Rightarrow> if m \<le> scope_attempts w sc rest
         then Some (ErrOther (''Included workflow '' @ sc_workflow sc @ '' at '' @ sc_path sc @
           '' exceeded maxSteps='' @ int_dec (int m))) else None))"

fun first_some :: "('a \<Rightarrow> 'b option) \<Rightarrow> 'a list \<Rightarrow> 'b option" where
  "first_some f [] = None"
| "first_some f (x # xs) = (case f x of Some y \<Rightarrow> Some y | None \<Rightarrow> first_some f xs)"

definition assertInvocationStepLimit :: "workflow \<Rightarrow> string \<Rightarrow> step_record list \<Rightarrow> engine_error option" where
  "assertInvocationStepLimit w n steps = (case wf_composition w of
     None \<Rightarrow> None
   | Some c \<Rightarrow> first_some (scope_error w steps) (sort_key (\<lambda>sc. length (sc_path sc))
       (filter (\<lambda>sc. sc_path sc \<noteq> [] \<and> sc_max sc \<noteq> None \<and> starts_with n (sc_path sc @ ''/'')) (co_scopes c))))"

section \<open>Recording an attempt\<close>

definition step_of :: "attempt \<Rightarrow> step_record" where
  "step_of a = (let r = at_result a in \<lparr>st_attempt = nr_attempt r, st_node = nr_node r, st_type = nr_type r,
     st_outcome = nr_outcome r, st_started = nr_started r, st_finished = nr_finished r, st_meta = at_meta a,
     st_output = (case nr_output r of None \<Rightarrow> JNull | Some v \<Rightarrow> v), st_error = nr_error r\<rparr>)"

definition output_value :: "node_result \<Rightarrow> jv" where
  "output_value r = (case nr_output r of None \<Rightarrow> JUndef | Some v \<Rightarrow> v)"

definition clear_current :: "run_state \<Rightarrow> run_state" where
  "clear_current s = s\<lparr>rs_current := None, rs_attempt := None, rs_node_started := None\<rparr>"

definition record_result :: "node_result \<Rightarrow> run_state \<Rightarrow> run_state" where
  "record_result r s = s\<lparr>rs_results := obj_put (nr_node r) r (rs_results s),
     rs_outputs := (if nr_outcome r = OutOk then obj_put (nr_node r) (output_value r) (rs_outputs s)
       else obj_delete (nr_node r) (rs_outputs s))\<rparr>"

definition recordAttempt :: "workflow \<Rightarrow> attempt \<Rightarrow> run_state \<Rightarrow> run_state" where
  "recordAttempt w a s =
     (let r = at_result a;
          s1 = record_result r s;
          s2 = (case exit_of w (nr_node r) of
            Some x \<Rightarrow> if nr_outcome r = OutOk then record_result (r\<lparr>nr_node := ex_mount x\<rparr>) s1 else s1
          | None \<Rightarrow> s1) in
      (clear_current s2)\<lparr>rs_steps := rs_steps s2 @ [step_of a], rs_detail := None\<rparr>)"

section \<open>The resume point\<close>

record resume_point =
  rp_node :: "string option"
  rp_last :: "jv option"
  rp_failed :: "node_result option"
  rp_waiting :: "string option"

definition point :: "string option \<Rightarrow> jv option \<Rightarrow> node_result option \<Rightarrow> string option \<Rightarrow> resume_point" where
  "point n out failed waiting = \<lparr>rp_node = n, rp_last = out, rp_failed = failed, rp_waiting = waiting\<rparr>"

definition route_message :: "route_error \<Rightarrow> string" where
  "route_message e = (case e of UnsupportedPath p \<Rightarrow> ''Unsupported JSON path: '' @ p
     | NotScalar p \<Rightarrow> ''Workflow switch value must be scalar for '' @ p
     | NoCase p k \<Rightarrow> ''No workflow switch case for '' @ p @ ''='' @ k)"

definition node_of :: "workflow \<Rightarrow> string \<Rightarrow> node option" where
  "node_of w n = obj_get (wf_nodes w) n"

text \<open>\<open>wait\<close> is the checkpoint behaviour \<open>"wait"\<close>, otherwise \<open>"continue"\<close>.\<close>

definition resumePointFor :: "workflow \<Rightarrow> bool \<Rightarrow> run_state \<Rightarrow> (engine_error, resume_point) result" where
  "resumePointFor w wait s = (case rs_current s of
     Some n \<Rightarrow> if node_of w n = None then Inl (ErrOther (''Resume node is missing from the workflow: '' @ n))
       else Inr (point (Some n) None None None)
   | None \<Rightarrow> if rs_steps s = [] then Inr (point (Some (wf_start w)) None None None)
       else let n = st_node (last (rs_steps s)) in (case obj_get (rs_results s) n of
         None \<Rightarrow> Inr (point (Some n) None None None)
       | Some r \<Rightarrow>
           if nr_outcome r = OutOk then
             (if wait \<and> \<not> length (rs_steps s) \<le> rs_carried s \<and> map_option nd_type (node_of w n) = Some NCheckpoint
              then Inr (point None (nr_output r) None (Some n))
              else (case resolveNext (wf_edges w) n (output_value r) (Some r) of
                Inl e \<Rightarrow> Inl (ErrOther (route_message e))
              | Inr next \<Rightarrow> Inr (point next (nr_output r) None None)))
           else (case resolveNextForOutcome (wf_edges w) n r of
             Inl e \<Rightarrow> Inl (ErrOther (route_message e))
           | Inr None \<Rightarrow> Inr (point None None (Some r) None)
           | Inr (Some next) \<Rightarrow> Inr (point (Some next) None None None))))"

section \<open>The machine\<close>

datatype trace_event =
    TvRunStarted
  | TvRunResumed
  | TvRunPaused
  | TvNodeStarted string
  | TvNodeFinished string
  | TvNodeFailed string
  | TvIncludeEntered string
  | TvIncludeExited string
  | TvRunFinished run_status

record finish =
  ff_error :: "string option"
  ff_waiting :: "string option"
  ff_final :: "jv option"

text \<open>Who finishes the run: the graph, the handler of an error, or a resume that found it done.\<close>

datatype finisher = ByGraph | ByError engine_error | ByResume

datatype ending = Returned | Parked_run | Threw engine_error

text \<open>What the start leads to: a node, an ending, or an error the caller gets.\<close>

datatype boot = BootNode string | BootFinish run_status finish | BootThrow engine_error

text \<open>
  The awaits.  \<open>PStarted\<close> is the hook \<open>onRunStarted\<close>, \<open>PHold\<close> the head of the loop, \<open>PPaused\<close> the
  promise \<open>wakePause\<close> resolves, \<open>PDispatch\<close> the point after the pause gate; the others are the
  write, callback or race awaited.
\<close>

datatype pc =
    PBoot trace_event boot
  | PStarted boot
  | PHold string
  | PPauseSave string
  | PPaused string
  | PResumeSave string
  | PDispatch string
  | PStartSave string
  | PTimeoutWait string
  | PRunning string "int option"
  | PGrace string engine_error
  | PAttempt attempt
  | PNodeSave attempt
  | PEnteredSave attempt
  | PExitedSave attempt
  | PFinishing run_status finish finisher
  | PFinishSave run_status finisher
  | PDone ending

datatype abort = Active | Aborted engine_error

text \<open>
  \<open>en_wake\<close> is \<open>wakePause\<close>: none while it is null, otherwise whether the promise of the hold has been
  resolved.  \<open>en_meta\<close> is the \<open>meta\<close> object of the node in flight.
\<close>

record engine =
  en_cancelled :: bool
  en_parked :: bool
  en_paused :: bool
  en_wake :: "bool option"
  en_abort :: "abort option"
  en_executed :: nat
  en_last :: "jv option"
  en_meta :: meta
  en_state :: run_state
  en_trace :: "(trace_event \<times> run_state) list"
  en_pc :: pc

text \<open>What settles an await, with the time and a fresh identifier at that moment.\<close>

datatype io =
    Go                                     \<comment> \<open>the awaited promise settled without data\<close>
  | Saved                                  \<comment> \<open>the snapshot was written\<close>
  | SaveFails engine_error
  | TimeoutIs "(engine_error, int option) result"
  | Resolves jv meta
  | Rejects engine_error
  | Notes meta                             \<comment> \<open>the node has set the prompt or the receipt in \<open>meta\<close>\<close>
  | TimerFires

datatype event = Cancel | Park | Pause | Resume | Io string string io

definition persist :: "trace_event \<Rightarrow> engine \<Rightarrow> engine" where
  "persist t e = e\<lparr>en_trace := en_trace e @ [(t, en_state e)]\<rparr>"

definition goto :: "pc \<Rightarrow> engine \<Rightarrow> engine" where
  "goto pc e = e\<lparr>en_pc := pc\<rparr>"

definition finishRun :: "run_status \<Rightarrow> finish \<Rightarrow> finisher \<Rightarrow> engine \<Rightarrow> engine" where
  "finishRun st f who e = goto (PFinishing
     (if st = StFailed \<and> rs_status (en_state e) = StTimedOut then StTimedOut else st) f who) e"

definition apply_finish :: "run_status \<Rightarrow> finish \<Rightarrow> string \<Rightarrow> run_state \<Rightarrow> run_state" where
  "apply_finish st f now s = (clear_current s)\<lparr>rs_status := st, rs_finished := Some now,
     rs_error := (case ff_error f of None \<Rightarrow> rs_error s | Some x \<Rightarrow> Some x),
     rs_waiting := (case ff_waiting f of None \<Rightarrow> rs_waiting s | Some x \<Rightarrow> Some x),
     rs_final := (case ff_final f of None \<Rightarrow> rs_final s | Some x \<Rightarrow> Some x)\<rparr>"

definition failure :: "string \<Rightarrow> finish" where
  "failure m = \<lparr>ff_error = Some m, ff_waiting = None, ff_final = None\<rparr>"

definition finishAfterError :: "engine_error \<Rightarrow> engine \<Rightarrow> engine" where
  "finishAfterError err e = finishRun (if en_cancelled e \<or> isAbortLikeError err then StCancelled else StFailed)
     (failure (errorMessage err)) (ByError err) e"

text \<open>The \<open>catch\<close> around \<open>executeGraph\<close>.\<close>

definition catch_error :: "engine_error \<Rightarrow> engine \<Rightarrow> engine" where
  "catch_error err e = (if err = ErrParked \<or> en_parked e then goto (PDone Parked_run) e else finishAfterError err e)"

text \<open>From the pause gate to the write of \<open>node_started\<close>.\<close>

definition max_steps :: "workflow \<Rightarrow> nat \<Rightarrow> nat" where
  "max_steps w limit = (case wf_max w of None \<Rightarrow> limit | Some m \<Rightarrow> m)"

definition count_step :: "workflow \<Rightarrow> nat \<Rightarrow> string \<Rightarrow> engine \<Rightarrow> engine_error option \<times> engine" where
  "count_step w limit n e =
     (if is_transition w n then (None, e)
      else let e' = e\<lparr>en_executed := en_executed e + 1\<rparr> in
        if max_steps w limit < en_executed e'
        then (Some (ErrOther (''Workflow exceeded maxSteps='' @ int_dec (int (max_steps w limit)) @
            ''; aborting to avoid an unbounded loop'')), e')
        else (assertInvocationStepLimit w n (rs_steps (en_state e)), e'))"

definition dispatch_node :: "workflow \<Rightarrow> nat \<Rightarrow> string \<Rightarrow> string \<Rightarrow> string \<Rightarrow> engine \<Rightarrow> engine" where
  "dispatch_node w limit now uuid n e = (case count_step w limit n e of
     (Some err, e') \<Rightarrow> catch_error err e'
   | (None, e') \<Rightarrow> (case node_of w n of
       None \<Rightarrow> catch_error (ErrOther (''Workflow node is missing: '' @ n)) e'
     | Some nd \<Rightarrow> goto (PStartSave n) (e'\<lparr>en_state := (en_state e')\<lparr>rs_current := Some n, rs_attempt := Some uuid,
           rs_node_started := Some now,
           rs_detail := (case nd_detail nd of None \<Rightarrow> rs_detail (en_state e') | Some t \<Rightarrow> Some t)\<rparr>\<rparr>)))"

definition holdWhilePaused :: "workflow \<Rightarrow> nat \<Rightarrow> string \<Rightarrow> string \<Rightarrow> string \<Rightarrow> engine \<Rightarrow> engine" where
  "holdWhilePaused w limit now uuid n e =
     (if en_parked e then catch_error ErrParked e
      else if en_cancelled e then catch_error ErrCancelled e
      else if \<not> en_paused e then dispatch_node w limit now uuid n e
      else goto (PPauseSave n) (e\<lparr>en_state := (en_state e)\<lparr>rs_paused := True\<rparr>\<rparr>))"

text \<open>After the loop of the hold, and one turn of that loop.\<close>

definition leavePause :: "string \<Rightarrow> engine \<Rightarrow> engine" where
  "leavePause n e0 = (let e = e0\<lparr>en_wake := None\<rparr> in
     if en_parked e then catch_error ErrParked e
     else let e' = e\<lparr>en_state := (en_state e)\<lparr>rs_paused := False\<rparr>\<rparr> in
       if en_cancelled e then catch_error ErrCancelled e' else goto (PResumeSave n) e')"

definition hold_on :: "string \<Rightarrow> engine \<Rightarrow> engine" where
  "hold_on n e =
     (if en_paused e \<and> \<not> en_cancelled e \<and> \<not> en_parked e then goto (PPaused n) (e\<lparr>en_wake := Some False\<rparr>)
      else leavePause n e)"

text \<open>\<open>this.wakePause?.()\<close>: a promise that is there is resolved.\<close>

definition wakePause :: "engine \<Rightarrow> engine" where
  "wakePause e = e\<lparr>en_wake := map_option (\<lambda>b. True) (en_wake e)\<rparr>"

text \<open>The end of \<open>executeNode\<close>: what the node answered, or the error it was ended with.\<close>

definition started_at :: "engine \<Rightarrow> string" where
  "started_at e = (case rs_node_started (en_state e) of None \<Rightarrow> [] | Some t \<Rightarrow> t)"

definition attempt_id :: "engine \<Rightarrow> string" where
  "attempt_id e = (case rs_attempt (en_state e) of None \<Rightarrow> [] | Some t \<Rightarrow> t)"

definition attempt_done :: "attempt \<Rightarrow> engine \<Rightarrow> engine" where
  "attempt_done a e = goto (PAttempt a) (e\<lparr>en_abort := None\<rparr>)"

definition node_failed :: "string \<Rightarrow> string \<Rightarrow> node \<Rightarrow> engine_error \<Rightarrow> meta \<Rightarrow> engine \<Rightarrow> engine" where
  "node_failed now n nd err m e = attempt_done
     \<lparr>at_result = createNodeResult n nd (attempt_id e) (started_at e) now (outcomeForError (en_cancelled e) err) None
        (Some (errorMessage err)),
      at_meta = m\<lparr>me_conversation := None\<rparr>, at_error = Some err\<rparr> e"

definition node_ok :: "string \<Rightarrow> string \<Rightarrow> node \<Rightarrow> jv \<Rightarrow> meta \<Rightarrow> engine \<Rightarrow> engine" where
  "node_ok now n nd v m e = attempt_done
     \<lparr>at_result = createNodeResult n nd (attempt_id e) (started_at e) now OutOk (Some v) None,
      at_meta = m, at_error = None\<rparr> e"

text \<open>\<open>JSON.parse(JSON.stringify(value))\<close> is \<open>value\<close>: no undefined, function, foreign object, -0 or NaN.\<close>

fun json_safe :: "jv \<Rightarrow> bool" where
  "json_safe (JNum (NumFin t)) = True"
| "json_safe (JNum _) = False"
| "json_safe (JArr vs) = list_all json_safe vs"
| "json_safe (JObj kvs) = list_all (\<lambda>kv. json_safe (snd kv)) kvs"
| "json_safe JUndef = False"
| "json_safe JFun = False"
| "json_safe JExotic = False"
| "json_safe _ = True"

definition shell_node :: "node \<Rightarrow> bool" where
  "shell_node nd \<longleftrightarrow> nd_type nd = NAction \<and> nd_exec nd"

definition nullify :: "jv \<Rightarrow> jv" where
  "nullify v = (if v = JUndef then JNull else v)"

text \<open>An error in \<open>runNodeWithTimeout\<close> after the dispatch: a shell node first gets its grace period.\<close>

definition node_throws :: "string \<Rightarrow> string \<Rightarrow> node \<Rightarrow> engine_error \<Rightarrow> engine \<Rightarrow> engine" where
  "node_throws now n nd err e =
     (if shell_node nd then goto (PGrace n err) e else node_failed now n nd err (en_meta e) e)"

text \<open>\<open>reason instanceof TimeoutError || reason instanceof CancelledError ? reason : error\<close>\<close>

definition thrown :: "engine_error \<Rightarrow> engine \<Rightarrow> engine_error" where
  "thrown err e = (case en_abort e of
     Some (Aborted (ErrTimeout ms)) \<Rightarrow> ErrTimeout ms | Some (Aborted ErrCancelled) \<Rightarrow> ErrCancelled | _ \<Rightarrow> err)"

definition fire :: "engine_error \<Rightarrow> engine \<Rightarrow> engine" where
  "fire reason e = (case en_abort e of Some Active \<Rightarrow> e\<lparr>en_abort := Some (Aborted reason)\<rparr> | _ \<Rightarrow> e)"

definition TIMEOUT_RESOLUTION_TIMEOUT_MS :: int where
  "TIMEOUT_RESOLUTION_TIMEOUT_MS = 30000"

definition valid_timeout :: "string \<Rightarrow> string \<Rightarrow> node \<Rightarrow> int option \<Rightarrow> engine \<Rightarrow> engine" where
  "valid_timeout now n nd tm e = (case tm of
     None \<Rightarrow> goto (PRunning n None) e
   | Some ms \<Rightarrow> if 0 < ms then goto (PRunning n (Some ms)) e
       else node_failed now n nd (ErrOther ''Node timeoutMs must resolve to a finite positive number'') no_meta e)"

definition begin_node :: "int \<Rightarrow> string \<Rightarrow> string \<Rightarrow> node \<Rightarrow> engine \<Rightarrow> engine" where
  "begin_node dflt now n nd e =
     (if en_parked e then node_failed now n nd ErrParked no_meta e
      else if en_cancelled e then node_failed now n nd ErrCancelled no_meta e
      else let e' = e\<lparr>en_abort := Some Active, en_meta := no_meta\<rparr> in (case nd_timeout nd of
          TmNone \<Rightarrow> valid_timeout now n nd None e'
        | TmDefault \<Rightarrow> valid_timeout now n nd (Some dflt) e'
        | TmMs ms \<Rightarrow> valid_timeout now n nd (Some ms) e'
        | TmFunction \<Rightarrow> goto (PTimeoutWait n) e'))"

definition timeout_step :: "string \<Rightarrow> io \<Rightarrow> string \<Rightarrow> node \<Rightarrow> engine \<Rightarrow> engine" where
  "timeout_step now x n nd e = (case x of
     TimerFires \<Rightarrow> fire (ErrTimeout TIMEOUT_RESOLUTION_TIMEOUT_MS) e
   | TimeoutIs r \<Rightarrow> if en_abort e \<noteq> Some Active then e
       else (case r of Inl err \<Rightarrow> node_failed now n nd err no_meta e | Inr tm \<Rightarrow> valid_timeout now n nd tm e)
   | Go \<Rightarrow> (case en_abort e of Some (Aborted reason) \<Rightarrow> node_failed now n nd (thrown reason e) no_meta e | _ \<Rightarrow> e)
   | _ \<Rightarrow> e)"

text \<open>The race of the dispatch against the abort signal, and the grace period of a shell node.\<close>

definition running_step :: "string \<Rightarrow> io \<Rightarrow> string \<Rightarrow> node \<Rightarrow> int option \<Rightarrow> engine \<Rightarrow> engine" where
  "running_step now x n nd tm e = (case x of
     TimerFires \<Rightarrow> (case tm of None \<Rightarrow> e | Some ms \<Rightarrow> fire (ErrTimeout ms) e)
   | Notes m \<Rightarrow> e\<lparr>en_meta := m\<rparr>
   | Resolves v m \<Rightarrow> if en_abort e \<noteq> Some Active then e
       else if json_safe (nullify v) then node_ok now n nd (nullify v) m e
       else node_throws now n nd (ErrOther (''Node '' @ n @ '' output does not survive a JSON round-trip'')) e
   | Rejects err \<Rightarrow> if en_abort e \<noteq> Some Active then e else node_throws now n nd err e
   | Go \<Rightarrow> (case en_abort e of Some (Aborted reason) \<Rightarrow> node_throws now n nd (thrown reason e) e | _ \<Rightarrow> e)
   | _ \<Rightarrow> e)"

definition grace_step :: "string \<Rightarrow> io \<Rightarrow> string \<Rightarrow> engine_error \<Rightarrow> node \<Rightarrow> engine \<Rightarrow> engine" where
  "grace_step now x n err nd e = (case x of
     Notes m \<Rightarrow> e\<lparr>en_meta := m\<rparr>
   | Go \<Rightarrow> node_failed now n nd (thrown err e) (en_meta e) e
   | _ \<Rightarrow> e)"

text \<open>The rest of the loop body after the attempt is persisted.\<close>

definition routeAfterFailure :: "workflow \<Rightarrow> attempt \<Rightarrow> engine \<Rightarrow> engine" where
  "routeAfterFailure w a e = (let r = at_result a in
     if nr_outcome r = OutCancelled \<or> en_cancelled e then catch_error ErrCancelled e
     else (case resolveNextForOutcome (wf_edges w) (nr_node r) r of
       Inl err \<Rightarrow> catch_error (ErrOther (route_message err)) e
     | Inr (Some next) \<Rightarrow> goto (PHold next) e
     | Inr None \<Rightarrow> catch_error (case at_error a of Some err \<Rightarrow> err | None \<Rightarrow> ErrOther (case nr_error r of None \<Rightarrow> ''Workflow node failed: '' @ nr_node r | Some m \<Rightarrow> m))
         (if nr_outcome r = OutTimedOut then e\<lparr>en_state := (en_state e)\<lparr>rs_status := StTimedOut\<rparr>\<rparr> else e)))"

definition after_ok :: "workflow \<Rightarrow> attempt \<Rightarrow> engine \<Rightarrow> engine" where
  "after_ok w a e = (let r = at_result a; e' = e\<lparr>en_last := nr_output r\<rparr> in
     if nr_type r = NCheckpoint then
       finishRun StWaiting \<lparr>ff_error = None, ff_waiting = Some (nr_node r), ff_final = nr_output r\<rparr> ByGraph e'
     else (case resolveNext (wf_edges w) (nr_node r) (output_value r) (Some r) of
       Inl err \<Rightarrow> catch_error (ErrOther (route_message err)) e'
     | Inr (Some next) \<Rightarrow> goto (PHold next) e'
     | Inr None \<Rightarrow> finishRun StCompleted \<lparr>ff_error = None, ff_waiting = None, ff_final = nr_output r\<rparr> ByGraph e'))"

definition after_entered :: "workflow \<Rightarrow> attempt \<Rightarrow> engine \<Rightarrow> engine" where
  "after_entered w a e = (if exit_of w (nr_node (at_result a)) \<noteq> None then goto (PExitedSave a) e else after_ok w a e)"

definition after_node :: "workflow \<Rightarrow> attempt \<Rightarrow> engine \<Rightarrow> engine" where
  "after_node w a e =
     (if nr_outcome (at_result a) \<noteq> OutOk then routeAfterFailure w a e
      else if is_entry w (nr_node (at_result a)) then goto (PEnteredSave a) e
      else after_entered w a e)"

definition attempt_step :: "workflow \<Rightarrow> attempt \<Rightarrow> engine \<Rightarrow> engine" where
  "attempt_step w a e =
     (if en_parked e then catch_error ErrParked e
      else goto (PNodeSave a) (e\<lparr>en_state := recordAttempt w a (en_state e)\<rparr>))"

definition node_event :: "attempt \<Rightarrow> trace_event" where
  "node_event a = (if nr_outcome (at_result a) = OutOk then TvNodeFinished (nr_node (at_result a))
     else TvNodeFailed (nr_node (at_result a)))"

text \<open>A write either lands in the trace and the machine goes on, or throws.\<close>

definition save :: "trace_event \<Rightarrow> (engine \<Rightarrow> engine) \<Rightarrow> (engine_error \<Rightarrow> engine \<Rightarrow> engine) \<Rightarrow> io \<Rightarrow> engine \<Rightarrow> engine" where
  "save t next throw x e = (case x of
     Saved \<Rightarrow> next (persist t e) | SaveFails err \<Rightarrow> throw err e | _ \<Rightarrow> e)"

definition boot_step :: "boot \<Rightarrow> engine \<Rightarrow> engine" where
  "boot_step b e = (case b of BootNode n \<Rightarrow> goto (PHold n) e | BootFinish st f \<Rightarrow> finishRun st f ByResume e
   | BootThrow err \<Rightarrow> goto (PDone (Threw err)) e)"

text \<open>The hook runs before the \<open>try\<close>: when it throws, the caller gets the error.\<close>

definition hook_step :: "boot \<Rightarrow> io \<Rightarrow> engine \<Rightarrow> engine" where
  "hook_step b x e = (case x of Go \<Rightarrow> boot_step b e | Rejects err \<Rightarrow> goto (PDone (Threw err)) e | _ \<Rightarrow> e)"

definition finish_failed :: "finisher \<Rightarrow> engine_error \<Rightarrow> engine \<Rightarrow> engine" where
  "finish_failed who err e = (case who of
     ByGraph \<Rightarrow> catch_error err e
   | ByResume \<Rightarrow> goto (PDone (Threw err)) e
   | ByError original \<Rightarrow> goto (PDone (Threw (if err = ErrClaimLost then err else original))) e)"

definition with_node :: "workflow \<Rightarrow> string \<Rightarrow> (node \<Rightarrow> engine \<Rightarrow> engine) \<Rightarrow> engine \<Rightarrow> engine" where
  "with_node w n f e = (case node_of w n of None \<Rightarrow> e | Some nd \<Rightarrow> f nd e)"

definition is_go :: "io \<Rightarrow> bool" where
  "is_go x = (case x of Go \<Rightarrow> True | _ \<Rightarrow> False)"

definition io_step :: "workflow \<Rightarrow> nat \<Rightarrow> int \<Rightarrow> string \<Rightarrow> string \<Rightarrow> io \<Rightarrow> engine \<Rightarrow> engine" where
  "io_step w limit dflt now uuid x e = (case en_pc e of
     PBoot t b \<Rightarrow> save t (goto (PStarted b)) (\<lambda>err. goto (PDone (Threw err))) x e
   | PStarted b \<Rightarrow> hook_step b x e
   | PHold n \<Rightarrow> if is_go x then holdWhilePaused w limit now uuid n e else e
   | PPauseSave n \<Rightarrow> save TvRunPaused (hold_on n) catch_error x e
   | PPaused n \<Rightarrow> if is_go x \<and> en_wake e = Some True then hold_on n e else e
   | PResumeSave n \<Rightarrow> save TvRunResumed (goto (PDispatch n)) catch_error x e
   | PDispatch n \<Rightarrow> if is_go x then dispatch_node w limit now uuid n e else e
   | PStartSave n \<Rightarrow> save (TvNodeStarted n) (with_node w n (begin_node dflt now n)) catch_error x e
   | PTimeoutWait n \<Rightarrow> with_node w n (timeout_step now x n) e
   | PRunning n tm \<Rightarrow> with_node w n (\<lambda>nd. running_step now x n nd tm) e
   | PGrace n err \<Rightarrow> with_node w n (grace_step now x n err) e
   | PAttempt a \<Rightarrow> if is_go x then attempt_step w a e else e
   | PNodeSave a \<Rightarrow> save (node_event a) (after_node w a) catch_error x e
   | PEnteredSave a \<Rightarrow> save (TvIncludeEntered (nr_node (at_result a))) (after_entered w a) catch_error x e
   | PExitedSave a \<Rightarrow> save (TvIncludeExited (nr_node (at_result a))) (after_ok w a) catch_error x e
   | PFinishing st f who \<Rightarrow> if is_go x
       then goto (PFinishSave st who) (e\<lparr>en_state := apply_finish st f now (en_state e)\<rparr>) else e
   | PFinishSave st who \<Rightarrow> save (TvRunFinished st) (goto (PDone Returned)) (finish_failed who) x e
   | PDone d \<Rightarrow> e)"

definition engine_step :: "workflow \<Rightarrow> nat \<Rightarrow> int \<Rightarrow> event \<Rightarrow> engine \<Rightarrow> engine" where
  "engine_step w limit dflt ev e = (case ev of
     Cancel \<Rightarrow> wakePause (fire ErrCancelled (e\<lparr>en_cancelled := True\<rparr>))
   | Park \<Rightarrow> wakePause (fire ErrCancelled (e\<lparr>en_parked := True\<rparr>))
   | Pause \<Rightarrow> e\<lparr>en_paused := True\<rparr>
   | Resume \<Rightarrow> wakePause (e\<lparr>en_paused := False\<rparr>)
   | Io now uuid x \<Rightarrow> io_step w limit dflt now uuid x e)"

definition engine_run :: "workflow \<Rightarrow> nat \<Rightarrow> int \<Rightarrow> event list \<Rightarrow> engine \<Rightarrow> engine" where
  "engine_run w limit dflt evs e = fold (engine_step w limit dflt) evs e"

section \<open>Starting, resuming and continuing\<close>

definition new_engine :: "nat \<Rightarrow> jv option \<Rightarrow> run_state \<Rightarrow> pc \<Rightarrow> engine" where
  "new_engine executed out s pc = \<lparr>en_cancelled = False, en_parked = False, en_paused = False, en_wake = None,
     en_abort = None, en_executed = executed, en_last = out, en_meta = no_meta, en_state = s, en_trace = [], en_pc = pc\<rparr>"

text \<open>\<open>run\<close>, from the write of \<open>run_started\<close> on.\<close>

definition start_run :: "workflow \<Rightarrow> jv \<Rightarrow> engine" where
  "start_run w input = new_engine 0 None (createRunState input) (PBoot TvRunStarted (BootNode (wf_start w)))"

definition resume_state :: "run_state \<Rightarrow> run_state" where
  "resume_state s = (clear_current s)\<lparr>rs_paused := False, rs_detail := None\<rparr>"

definition resume_boot :: "resume_point \<Rightarrow> boot" where
  "resume_boot p = (case rp_node p of
     Some n \<Rightarrow> BootNode n
   | None \<Rightarrow> (case rp_waiting p of
       Some g \<Rightarrow> BootFinish StWaiting \<lparr>ff_error = None, ff_waiting = Some g, ff_final = rp_last p\<rparr>
     | None \<Rightarrow> (case rp_failed p of
         None \<Rightarrow> BootFinish StCompleted \<lparr>ff_error = None, ff_waiting = None, ff_final = rp_last p\<rparr>
       | Some r \<Rightarrow> BootFinish (if nr_outcome r = OutTimedOut then StTimedOut else StFailed)
           (failure (case nr_error r of None \<Rightarrow> ''Workflow node failed: '' @ nr_node r | Some m \<Rightarrow> m)))))"

datatype start_error = SourceChanged | NotRunning | NotWaiting | DecisionRefused string | DecisionMissing string | Engine engine_error

text \<open>
  \<open>resumeRun\<close>: \<open>mismatch\<close> is \<open>workflowIdentityMismatch\<close>, \<open>s\<close> the state of the bundle, which
  \<open>prepareRunResume\<close> refuses unless it is running.
\<close>

definition resumeRun :: "workflow \<Rightarrow> bool \<Rightarrow> bool \<Rightarrow> run_state \<Rightarrow> (start_error, engine) result" where
  "resumeRun w mismatch force s =
     (if rs_status s \<noteq> StRunning then Inl NotRunning
      else if mismatch \<and> \<not> force then Inl SourceChanged
      else (case resumePointFor w True s of
        Inl err \<Rightarrow> Inl (Engine err)
      | Inr p \<Rightarrow> Inr (new_engine (countExecutableSteps w (rs_steps s)) (rp_last p) (resume_state s)
          (PBoot TvRunResumed (resume_boot p)))))"

text \<open>The accepted answer of a human decision, written over the waiting step.\<close>

fun replace_last :: "('a \<Rightarrow> bool) \<Rightarrow> ('a \<Rightarrow> 'a) \<Rightarrow> 'a list \<Rightarrow> 'a list option" where
  "replace_last p f [] = None"
| "replace_last p f (x # xs) = (case replace_last p f xs of Some ys \<Rightarrow> Some (x # ys)
     | None \<Rightarrow> if p x then Some (f x # xs) else None)"

definition answer_state :: "string \<Rightarrow> jv \<Rightarrow> run_state \<Rightarrow> (start_error, run_state) result" where
  "answer_state n v s = (case obj_get (rs_results s) n of
     None \<Rightarrow> Inl (DecisionMissing n)
   | Some r \<Rightarrow> (case replace_last (\<lambda>st. st_node st = n) (\<lambda>st. st\<lparr>st_output := v\<rparr>) (rs_steps s) of
       None \<Rightarrow> Inl (DecisionMissing n)
     | Some steps \<Rightarrow> Inr (s\<lparr>rs_outputs := obj_put n v (rs_outputs s),
         rs_results := obj_put n (r\<lparr>nr_output := Some v\<rparr>) (rs_results s), rs_steps := steps\<rparr>)))"

definition carried_state :: "run_state \<Rightarrow> jv \<Rightarrow> run_state" where
  "carried_state parent input = (createRunState input)\<lparr>rs_outputs := rs_outputs parent, rs_results := rs_results parent,
     rs_steps := rs_steps parent\<rparr>"

definition answered :: "string \<Rightarrow> jv option \<Rightarrow> run_state \<Rightarrow> (start_error, run_state) result" where
  "answered gate response s = (case response of None \<Rightarrow> Inr s | Some v \<Rightarrow> answer_state gate v s)"

definition continue_last :: "(engine_error, resume_point) result \<Rightarrow> jv option" where
  "continue_last p = (case p of Inl err \<Rightarrow> None | Inr q \<Rightarrow> rp_last q)"

definition continue_boot :: "(engine_error, resume_point) result \<Rightarrow> boot" where
  "continue_boot p = (case p of
     Inl err \<Rightarrow> BootThrow err
   | Inr q \<Rightarrow> (case rp_node q of Some n \<Rightarrow> BootNode n
       | None \<Rightarrow> BootFinish StCompleted \<lparr>ff_error = None, ff_waiting = None, ff_final = rp_last q\<rparr>))"

text \<open>
  \<open>continueRun\<close> from the state of the parent bundle.  \<open>decision\<close> is what the checks of the human
  decision say: the accepted response, none where the checkpoint has no contract, or a refusal.
  Where the run goes on is looked up after \<open>run_started\<close> is written, so a route that fails is an
  error of a run whose bundle exists.
\<close>

definition continueRun ::
    "workflow \<Rightarrow> bool \<Rightarrow> bool \<Rightarrow> run_state \<Rightarrow> (string, jv option) result \<Rightarrow> jv \<Rightarrow> (start_error, engine) result" where
  "continueRun w mismatch force parent decision input =
     (case (rs_status parent, rs_waiting parent) of
        (StWaiting, Some gate) \<Rightarrow>
          (if mismatch \<and> \<not> force then Inl SourceChanged
           else (case decision of
             Inl e \<Rightarrow> Inl (DecisionRefused e)
           | Inr response \<Rightarrow>
               (case answered gate response (carried_state parent input) of
                  Inl e \<Rightarrow> Inl e
                | Inr s1 \<Rightarrow>
                    let s2 = s1\<lparr>rs_carried := length (rs_steps s1)\<rparr>; p = resumePointFor w False s2 in
                    Inr (new_engine (countExecutableSteps w (rs_steps s2)) (continue_last p) s2
                      (PBoot TvRunStarted (continue_boot p))))))
      | _ \<Rightarrow> Inl NotWaiting)"

end
