(* ===== verification/EngineRuns.thy ===== *)
theory EngineRuns
  imports Engine
begin

text \<open>
  What holds in every run of the engine, whatever the nodes, the disk and the operator do: bounds on
  the steps, the agreement of outputs and results, and that the last snapshot always says where the
  run stands.
\<close>

section \<open>Outputs agree with results\<close>

definition results_agree :: "run_state \<Rightarrow> bool" where
  "results_agree s \<longleftrightarrow> (\<forall>n. obj_get (rs_outputs s) n = (case obj_get (rs_results s) n of
     None \<Rightarrow> None | Some r \<Rightarrow> if nr_outcome r = OutOk then Some (output_value r) else None))"

lemma results_agree_record: "results_agree s \<Longrightarrow> results_agree (record_result r s)"
  by (auto simp: results_agree_def record_result_def)

lemma output_value_node [simp]: "output_value (r\<lparr>nr_node := n\<rparr>) = output_value r"
  by (simp add: output_value_def)

lemma record_result_fields [simp]:
  "rs_steps (record_result r s) = rs_steps s" "rs_status (record_result r s) = rs_status s"
  "rs_carried (record_result r s) = rs_carried s"
  by (simp_all add: record_result_def)

lemma clear_current_fields [simp]:
  "rs_steps (clear_current s) = rs_steps s" "rs_status (clear_current s) = rs_status s"
  "rs_carried (clear_current s) = rs_carried s" "rs_outputs (clear_current s) = rs_outputs s"
  "rs_results (clear_current s) = rs_results s" "rs_current (clear_current s) = None"
  by (simp_all add: clear_current_def)

lemma recordAttempt_fields [simp]:
  "rs_steps (recordAttempt w a s) = rs_steps s @ [step_of a]" "rs_status (recordAttempt w a s) = rs_status s"
  "rs_carried (recordAttempt w a s) = rs_carried s" "rs_current (recordAttempt w a s) = None"
  by (auto simp: recordAttempt_def Let_def split: option.split)

lemma results_agree_recordAttempt: "results_agree s \<Longrightarrow> results_agree (recordAttempt w a s)"
proof -
  assume agree: "results_agree s"
  have "results_agree (record_result r2 (record_result r1 s))" "results_agree (record_result r1 s)" for r1 r2
    using agree by (simp_all add: results_agree_record)
  then show ?thesis
    by (auto simp: recordAttempt_def Let_def results_agree_def split: option.split)
qed

lemma recordAttempt_result:
  "\<exists>r. obj_get (rs_results (recordAttempt w a s)) (nr_node (at_result a)) = Some r \<and>
     nr_outcome r = nr_outcome (at_result a) \<and> nr_output r = nr_output (at_result a) \<and> r = at_result a"
  by (auto simp: recordAttempt_def Let_def record_result_def split: option.split)

section \<open>Where a state stands\<close>

definition coherent :: "workflow \<Rightarrow> run_state \<Rightarrow> string \<Rightarrow> bool" where
  "coherent w s n \<longleftrightarrow> (\<exists>p. resumePointFor w True (clear_current s) = Inr p \<and> rp_node p = Some n)"

text \<open>The state of a run that is about to execute a node, or executing it.\<close>

definition at_node :: "workflow \<Rightarrow> run_state \<Rightarrow> string \<Rightarrow> bool" where
  "at_node w s n \<longleftrightarrow> coherent w s n \<and> (rs_current s = None \<or> rs_current s = Some n \<and> node_of w n \<noteq> None)"

text \<open>The state of a run that has just recorded an attempt.\<close>

definition recorded :: "workflow \<Rightarrow> run_state \<Rightarrow> attempt \<Rightarrow> bool" where
  "recorded w s a \<longleftrightarrow> rs_current s = None \<and> rs_steps s \<noteq> [] \<and> st_node (last (rs_steps s)) = nr_node (at_result a) \<and>
     obj_get (rs_results s) (nr_node (at_result a)) = Some (at_result a) \<and> rs_carried s < length (rs_steps s)"

definition attempt_ok :: "workflow \<Rightarrow> attempt \<Rightarrow> bool" where
  "attempt_ok w a \<longleftrightarrow> (case node_of w (nr_node (at_result a)) of None \<Rightarrow> False
     | Some nd \<Rightarrow> nr_type (at_result a) = nd_type nd) \<and>
     (nr_outcome (at_result a) = OutOk \<longleftrightarrow> at_error a = None)"

lemma point_fields [simp]: "rp_node (point n out failed waiting) = n" "rp_last (point n out failed waiting) = out"
  "rp_failed (point n out failed waiting) = failed" "rp_waiting (point n out failed waiting) = waiting"
  by (simp_all add: point_def)

lemma coherent_cong:
  assumes "rs_steps s' = rs_steps s" and "rs_results s' = rs_results s" and "rs_carried s' = rs_carried s"
  shows "coherent w s' n = coherent w s n"
  unfolding coherent_def resumePointFor_def Let_def clear_current_fields assms ..

lemma resume_clear:
  assumes "rs_current s = None"
  shows "resumePointFor w wait (clear_current s) = resumePointFor w wait s"
  unfolding resumePointFor_def Let_def clear_current_fields assms ..

lemma at_node_resumes:
  assumes "at_node w s n"
  shows "\<exists>p. resumePointFor w True s = Inr p \<and> rp_node p = Some n"
proof (cases "rs_current s")
  case None
  then show ?thesis using assms resume_clear[OF None, of w True] by (simp add: at_node_def coherent_def)
next
  case (Some m)
  then show ?thesis using assms by (auto simp: at_node_def resumePointFor_def)
qed

text \<open>The successor the engine takes after a recorded attempt is the one a resume would take.\<close>

lemma recorded_failed_next:
  assumes "recorded w s a" and "nr_outcome (at_result a) \<noteq> OutOk"
    and "resolveNextForOutcome (wf_edges w) (nr_node (at_result a)) (at_result a) = Inr (Some n)"
  shows "at_node w s n"
  using assms by (simp add: at_node_def coherent_def resumePointFor_def recorded_def Let_def)

lemma recorded_ok_next:
  assumes "recorded w s a" and "nr_outcome (at_result a) = OutOk" and "attempt_ok w a"
    and "nr_type (at_result a) \<noteq> NCheckpoint"
    and "resolveNext (wf_edges w) (nr_node (at_result a)) (output_value (at_result a)) (Some (at_result a)) = Inr (Some n)"
  shows "at_node w s n"
  using assms
  by (auto simp: at_node_def coherent_def resumePointFor_def recorded_def Let_def attempt_ok_def split: option.splits)

text \<open>The ending of a graph that is done, and a snapshot from which a resume takes just that ending.\<close>

definition graph_end :: "string option \<Rightarrow> jv option \<Rightarrow> finish" where
  "graph_end gate out = \<lparr>ff_error = None, ff_waiting = gate, ff_final = out\<rparr>"

definition finished_point :: "workflow \<Rightarrow> run_state \<Rightarrow> run_status \<Rightarrow> finish \<Rightarrow> bool" where
  "finished_point w s st f \<longleftrightarrow> (st = StCompleted \<or> st = StWaiting) \<and> ff_error f = None \<and>
     (\<exists>p. resumePointFor w True s = Inr p \<and> resume_boot p = BootFinish st f)"

lemma recorded_ok_done:
  assumes "recorded w s a" and "nr_outcome (at_result a) = OutOk" and "attempt_ok w a"
    and "nr_type (at_result a) \<noteq> NCheckpoint"
    and "resolveNext (wf_edges w) (nr_node (at_result a)) (output_value (at_result a)) (Some (at_result a)) = Inr None"
  shows "finished_point w s StCompleted (graph_end None (nr_output (at_result a)))"
  using assms
  by (auto simp: finished_point_def graph_end_def resume_boot_def resumePointFor_def recorded_def Let_def attempt_ok_def
      split: option.splits)

lemma recorded_ok_waiting:
  assumes "recorded w s a" and "nr_outcome (at_result a) = OutOk" and "attempt_ok w a"
    and "nr_type (at_result a) = NCheckpoint"
  shows "finished_point w s StWaiting (graph_end (Some (nr_node (at_result a))) (nr_output (at_result a)))"
  using assms
  by (auto simp: finished_point_def graph_end_def resume_boot_def resumePointFor_def recorded_def Let_def attempt_ok_def
      split: option.splits)

lemma recordAttempt_recorded: "rs_carried s \<le> length (rs_steps s) \<Longrightarrow> recorded w (recordAttempt w a s) a"
  using recordAttempt_result[of w a s] by (auto simp: recorded_def step_of_def Let_def)

section \<open>The invariant of the machine\<close>

definition steps_ok :: "workflow \<Rightarrow> nat \<Rightarrow> run_state \<Rightarrow> bool" where
  "steps_ok w limit s \<longleftrightarrow> results_agree s \<and> countExecutableSteps w (rs_steps s) \<le> max_steps w limit \<and>
     rs_carried s \<le> length (rs_steps s)"

definition is_finish :: "trace_event \<Rightarrow> bool" where
  "is_finish t = (case t of TvRunFinished st \<Rightarrow> True | _ \<Rightarrow> False)"

definition stands :: "workflow \<Rightarrow> run_state \<Rightarrow> bool" where
  "stands w s \<longleftrightarrow> (case rs_current s of None \<Rightarrow> True | Some n \<Rightarrow> at_node w s n)"

lemma stands_at: "rs_current s = None \<Longrightarrow> stands w s" "at_node w s n \<Longrightarrow> stands w s" "recorded w s a \<Longrightarrow> stands w s"
  by (auto simp: stands_def at_node_def recorded_def)

definition snapshot_ok :: "workflow \<Rightarrow> nat \<Rightarrow> trace_event \<times> run_state \<Rightarrow> bool" where
  "snapshot_ok w limit x \<longleftrightarrow> \<not> is_finish (fst x) \<and> steps_ok w limit (snd x) \<and> rs_status (snd x) = StRunning \<and>
     stands w (snd x)"

text \<open>A run that has not finished: every snapshot is one a resume accepts.\<close>

definition unfinished :: "workflow \<Rightarrow> nat \<Rightarrow> engine \<Rightarrow> bool" where
  "unfinished w limit e \<longleftrightarrow> list_all (snapshot_ok w limit) (en_trace e)"

definition snap :: "engine \<Rightarrow> run_state" where
  "snap e = snd (last (en_trace e))"

definition running :: "workflow \<Rightarrow> nat \<Rightarrow> engine \<Rightarrow> bool" where
  "running w limit e \<longleftrightarrow> unfinished w limit e \<and> en_trace e \<noteq> [] \<and> rs_status (en_state e) = StRunning"

text \<open>The snapshot has everything recorded so far.\<close>

definition same_record :: "run_state \<Rightarrow> run_state \<Rightarrow> bool" where
  "same_record s s' \<longleftrightarrow> rs_steps s = rs_steps s' \<and> rs_outputs s = rs_outputs s' \<and> rs_results s = rs_results s' \<and>
     rs_carried s = rs_carried s'"

lemma same_record_frame [simp]: "same_record s s" "same_record s (t\<lparr>rs_paused := b\<rparr>) = same_record s t"
  "same_record s (t\<lparr>rs_current := c, rs_attempt := a, rs_node_started := n, rs_detail := d\<rparr>) = same_record s t"
  by (simp_all add: same_record_def)

definition loop_inv :: "workflow \<Rightarrow> nat \<Rightarrow> engine \<Rightarrow> string \<Rightarrow> bool" where
  "loop_inv w limit e n \<longleftrightarrow> running w limit e \<and> at_node w (en_state e) n \<and> rs_current (en_state e) = None \<and>
     at_node w (snap e) n \<and> same_record (snap e) (en_state e) \<and>
     en_executed e = countExecutableSteps w (rs_steps (en_state e))"

definition fly_inv :: "workflow \<Rightarrow> nat \<Rightarrow> engine \<Rightarrow> string \<Rightarrow> bool" where
  "fly_inv w limit e n \<longleftrightarrow> running w limit e \<and> at_node w (en_state e) n \<and> rs_current (en_state e) = Some n \<and>
     at_node w (snap e) n \<and> same_record (snap e) (en_state e) \<and> en_executed e \<le> max_steps w limit \<and>
     en_executed e = countExecutableSteps w (rs_steps (en_state e)) + (if is_transition w n then 0 else 1)"

definition done_inv :: "workflow \<Rightarrow> nat \<Rightarrow> engine \<Rightarrow> attempt \<Rightarrow> bool" where
  "done_inv w limit e a \<longleftrightarrow> running w limit e \<and> recorded w (en_state e) a \<and> attempt_ok w a \<and>
     (nr_outcome (at_result a) = OutOk \<longrightarrow> nr_output (at_result a) \<noteq> None) \<and>
     en_executed e = countExecutableSteps w (rs_steps (en_state e))"

text \<open>What is persisted lacks at most the attempt being written.\<close>

definition behind :: "workflow \<Rightarrow> engine \<Rightarrow> attempt \<Rightarrow> bool" where
  "behind w e a \<longleftrightarrow> (\<exists>s. same_record (snap e) s \<and> en_state e = recordAttempt w a s)"

fun pc_inv :: "workflow \<Rightarrow> nat \<Rightarrow> engine \<Rightarrow> pc \<Rightarrow> bool" where
  "pc_inv w limit e (PBoot t b) \<longleftrightarrow> en_trace e = [] \<and> \<not> is_finish t \<and> rs_current (en_state e) = None \<and>
     rs_status (en_state e) = StRunning \<and> en_executed e = countExecutableSteps w (rs_steps (en_state e)) \<and>
     (case b of BootNode n \<Rightarrow> at_node w (en_state e) n | _ \<Rightarrow> True)"
| "pc_inv w limit e (PStarted b) \<longleftrightarrow> running w limit e \<and>
     (case b of BootNode n \<Rightarrow> loop_inv w limit e n | _ \<Rightarrow> True)"
| "pc_inv w limit e (PHold n) \<longleftrightarrow> loop_inv w limit e n"
| "pc_inv w limit e (PPauseSave n) \<longleftrightarrow> loop_inv w limit e n"
| "pc_inv w limit e (PPaused n) \<longleftrightarrow> loop_inv w limit e n"
| "pc_inv w limit e (PResumeSave n) \<longleftrightarrow> loop_inv w limit e n"
| "pc_inv w limit e (PDispatch n) \<longleftrightarrow> loop_inv w limit e n"
| "pc_inv w limit e (PStartSave n) \<longleftrightarrow> fly_inv w limit e n"
| "pc_inv w limit e (PTimeoutWait n) \<longleftrightarrow> fly_inv w limit e n \<and> rs_current (snap e) = Some n"
| "pc_inv w limit e (PRunning n tm) \<longleftrightarrow> fly_inv w limit e n \<and> rs_current (snap e) = Some n"
| "pc_inv w limit e (PGrace n err) \<longleftrightarrow> fly_inv w limit e n \<and> rs_current (snap e) = Some n"
| "pc_inv w limit e (PAttempt a) \<longleftrightarrow> fly_inv w limit e (nr_node (at_result a)) \<and>
     rs_current (snap e) = Some (nr_node (at_result a)) \<and> attempt_ok w a \<and>
     (nr_outcome (at_result a) = OutOk \<longrightarrow> nr_output (at_result a) \<noteq> None)"
| "pc_inv w limit e (PNodeSave a) \<longleftrightarrow> done_inv w limit e a \<and> at_node w (snap e) (nr_node (at_result a)) \<and>
     rs_current (snap e) = Some (nr_node (at_result a)) \<and> behind w e a"
| "pc_inv w limit e (PEnteredSave a) \<longleftrightarrow> done_inv w limit e a \<and> recorded w (snap e) a \<and> same_record (snap e) (en_state e) \<and>
     nr_outcome (at_result a) = OutOk"
| "pc_inv w limit e (PExitedSave a) \<longleftrightarrow> done_inv w limit e a \<and> recorded w (snap e) a \<and> same_record (snap e) (en_state e) \<and>
     nr_outcome (at_result a) = OutOk"
| "pc_inv w limit e (PFinishing st f who) \<longleftrightarrow> unfinished w limit e \<and> en_trace e \<noteq> [] \<and>
     (who = ByGraph \<longrightarrow> finished_point w (snap e) st f \<and> ff_final f \<noteq> None \<and> same_record (snap e) (en_state e))"
| "pc_inv w limit e (PFinishSave st who) \<longleftrightarrow> unfinished w limit e \<and> en_trace e \<noteq> [] \<and> rs_status (en_state e) = st \<and>
     (who = ByGraph \<longrightarrow> same_record (snap e) (en_state e) \<and> (\<exists>f. finished_point w (snap e) st f \<and>
       rs_final (en_state e) = ff_final f \<and> (ff_waiting f \<noteq> None \<longrightarrow> rs_waiting (en_state e) = ff_waiting f)))"
| "pc_inv w limit e (PDone Returned) \<longleftrightarrow> (\<exists>ts st s. en_trace e = ts @ [(TvRunFinished st, s)] \<and> ts \<noteq> [] \<and>
     list_all (snapshot_ok w limit) ts \<and> rs_status s = st)"
| "pc_inv w limit e (PDone d) \<longleftrightarrow> unfinished w limit e"

definition inv :: "workflow \<Rightarrow> nat \<Rightarrow> engine \<Rightarrow> bool" where
  "inv w limit e \<longleftrightarrow> steps_ok w limit (en_state e) \<and> pc_inv w limit e (en_pc e)"

lemmas inv_parts = loop_inv_def fly_inv_def done_inv_def running_def unfinished_def snap_def

text \<open>Flags, abort signals and counters of the engine object are not looked at by most of it.\<close>

lemma engine_frame [simp]:
  "unfinished w limit (e\<lparr>en_pc := pc\<rparr>) = unfinished w limit e" "snap (e\<lparr>en_pc := pc\<rparr>) = snap e"
  "unfinished w limit (e\<lparr>en_abort := ab\<rparr>) = unfinished w limit e" "snap (e\<lparr>en_abort := ab\<rparr>) = snap e"
  "unfinished w limit (e\<lparr>en_state := s\<rparr>) = unfinished w limit e" "snap (e\<lparr>en_state := s\<rparr>) = snap e"
  "unfinished w limit (e\<lparr>en_last := v\<rparr>) = unfinished w limit e" "snap (e\<lparr>en_last := v\<rparr>) = snap e"
  "unfinished w limit (e\<lparr>en_executed := k\<rparr>) = unfinished w limit e" "snap (e\<lparr>en_executed := k\<rparr>) = snap e"
  "unfinished w limit (e\<lparr>en_cancelled := b\<rparr>) = unfinished w limit e" "snap (e\<lparr>en_cancelled := b\<rparr>) = snap e"
  "unfinished w limit (e\<lparr>en_parked := b\<rparr>) = unfinished w limit e" "snap (e\<lparr>en_parked := b\<rparr>) = snap e"
  "unfinished w limit (e\<lparr>en_paused := b\<rparr>) = unfinished w limit e" "snap (e\<lparr>en_paused := b\<rparr>) = snap e"
  "unfinished w limit (e\<lparr>en_wake := k'\<rparr>) = unfinished w limit e" "snap (e\<lparr>en_wake := k'\<rparr>) = snap e"
  "unfinished w limit (e\<lparr>en_meta := m\<rparr>) = unfinished w limit e" "snap (e\<lparr>en_meta := m\<rparr>) = snap e"
  by (simp_all add: unfinished_def snap_def)

lemma inv_catch: "steps_ok w limit (en_state e) \<Longrightarrow> unfinished w limit e \<Longrightarrow> en_trace e \<noteq> [] \<Longrightarrow> inv w limit (catch_error err e)"
  by (auto simp: catch_error_def inv_def goto_def finishAfterError_def finishRun_def failure_def)

lemma persist_fields [simp]: "en_trace (persist t e) = en_trace e @ [(t, en_state e)]" "en_state (persist t e) = en_state e"
  "en_executed (persist t e) = en_executed e" "en_pc (persist t e) = en_pc e" "snap (persist t e) = en_state e"
  "en_cancelled (persist t e) = en_cancelled e" "en_parked (persist t e) = en_parked e" "en_abort (persist t e) = en_abort e"
  "en_paused (persist t e) = en_paused e" "en_wake (persist t e) = en_wake e"
  by (simp_all add: persist_def snap_def)

lemma unfinished_persist: "unfinished w limit e \<Longrightarrow> \<not> is_finish t \<Longrightarrow> steps_ok w limit (en_state e) \<Longrightarrow>
    rs_status (en_state e) = StRunning \<Longrightarrow> stands w (en_state e) \<Longrightarrow> unfinished w limit (persist t e)"
  by (simp add: unfinished_def snapshot_ok_def)

text \<open>A write: the machine goes on from the snapshot, or catches the error.\<close>

lemma inv_save:
  assumes "inv w limit e" and "unfinished w limit e" and "en_trace e \<noteq> []" and "inv w limit (cont (persist t e))"
  shows "inv w limit (save t cont catch_error x e)"
  using assms inv_catch[OF _ assms(2,3)] by (cases x) (auto simp: save_def inv_def)

section \<open>Every step keeps the invariant\<close>

lemma outcomeForError_not_ok [simp]: "outcomeForError c err \<noteq> OutOk"
  by (simp add: outcomeForError_def split: engine_error.split)

lemma createNodeResult_fields [simp]:
  "nr_node (createNodeResult n nd att t now out v err) = n" "nr_outcome (createNodeResult n nd att t now out v err) = out"
  "nr_output (createNodeResult n nd att t now out v err) = v" "nr_type (createNodeResult n nd att t now out v err) = nd_type nd"
  by (simp_all add: createNodeResult_def)

text \<open>A node in flight, its start persisted.\<close>

definition flying :: "workflow \<Rightarrow> nat \<Rightarrow> engine \<Rightarrow> string \<Rightarrow> node \<Rightarrow> bool" where
  "flying w limit e n nd \<longleftrightarrow> steps_ok w limit (en_state e) \<and> fly_inv w limit e n \<and> rs_current (snap e) = Some n \<and>
     node_of w n = Some nd"

lemma flying_frame [simp]:
  "flying w limit (e\<lparr>en_abort := ab\<rparr>) n nd = flying w limit e n nd"
  "flying w limit (e\<lparr>en_pc := pc\<rparr>) n nd = flying w limit e n nd"
  "flying w limit (e\<lparr>en_meta := m\<rparr>) n nd = flying w limit e n nd"
  by (simp_all add: flying_def fly_inv_def running_def)

lemma inv_node_failed: "flying w limit e n nd \<Longrightarrow> inv w limit (node_failed now n nd err m e)"
  by (simp add: node_failed_def attempt_done_def goto_def inv_def flying_def fly_inv_def running_def attempt_ok_def)

lemma inv_node_ok: "flying w limit e n nd \<Longrightarrow> inv w limit (node_ok now n nd v m e)"
  by (simp add: node_ok_def attempt_done_def goto_def inv_def flying_def fly_inv_def running_def attempt_ok_def)

lemma inv_node_throws: "flying w limit e n nd \<Longrightarrow> inv w limit (node_throws now n nd err e)"
  by (simp add: node_throws_def inv_node_failed) (simp add: goto_def inv_def flying_def fly_inv_def running_def)

lemma inv_valid_timeout: "flying w limit e n nd \<Longrightarrow> inv w limit (valid_timeout now n nd tm e)"
  by (simp add: valid_timeout_def inv_node_failed split: option.split)
    (simp add: goto_def inv_def flying_def fly_inv_def running_def)

lemma inv_begin_node: "flying w limit e n nd \<Longrightarrow> inv w limit (begin_node dflt now n nd e)"
  by (simp add: begin_node_def inv_node_failed inv_valid_timeout Let_def split: timeout_spec.split)
    (simp add: goto_def inv_def flying_def fly_inv_def running_def)

lemma fire_frame [simp]: "en_trace (fire r e) = en_trace e" "en_state (fire r e) = en_state e" "en_pc (fire r e) = en_pc e"
  "en_executed (fire r e) = en_executed e" "unfinished w limit (fire r e) = unfinished w limit e" "snap (fire r e) = snap e"
  "en_cancelled (fire r e) = en_cancelled e" "en_parked (fire r e) = en_parked e" "en_paused (fire r e) = en_paused e"
  "en_wake (fire r e) = en_wake e"
  by (simp_all add: fire_def unfinished_def snap_def split: option.split abort.split)

text \<open>The invariant reads nothing that the operator's calls change.\<close>

lemma pc_inv_cong:
  assumes "en_trace e' = en_trace e" and "en_state e' = en_state e" and "en_executed e' = en_executed e"
  shows "pc_inv w limit e' pc = pc_inv w limit e pc"
proof -
  have same: "unfinished w limit e' = unfinished w limit e" "snap e' = snap e" "running w limit e' = running w limit e"
    "loop_inv w limit e' n = loop_inv w limit e n" "fly_inv w limit e' n = fly_inv w limit e n"
    "done_inv w limit e' a = done_inv w limit e a" "behind w e' a = behind w e a" for n a
    using assms by (simp_all add: inv_parts behind_def)
  show ?thesis
  proof (cases pc)
    case (PDone d)
    then show ?thesis using assms by (cases d) (simp_all add: same)
  qed (use assms in \<open>simp_all add: same split: boot.split\<close>)
qed

lemma inv_cong:
  "en_trace e' = en_trace e \<Longrightarrow> en_state e' = en_state e \<Longrightarrow> en_executed e' = en_executed e \<Longrightarrow> en_pc e' = en_pc e \<Longrightarrow>
    inv w limit e' = inv w limit e"
  using pc_inv_cong[of e' e w limit "en_pc e"] by (simp add: inv_def)

lemma wakePause_frame [simp]: "en_trace (wakePause e) = en_trace e" "en_state (wakePause e) = en_state e"
  "en_pc (wakePause e) = en_pc e" "en_executed (wakePause e) = en_executed e" "en_abort (wakePause e) = en_abort e"
  "en_cancelled (wakePause e) = en_cancelled e" "en_parked (wakePause e) = en_parked e" "en_paused (wakePause e) = en_paused e"
  by (simp_all add: wakePause_def)

lemma inv_wakePause [simp]: "inv w limit (wakePause e) = inv w limit e"
  by (rule inv_cong) simp_all

lemma inv_meta [simp]: "inv w limit (e\<lparr>en_meta := m\<rparr>) = inv w limit e"
  by (rule inv_cong) simp_all

lemma inv_timeout_step:
  assumes "flying w limit e n nd" and "inv w limit e"
  shows "inv w limit (timeout_step now x n nd e)"
proof (cases x)
  case (TimeoutIs r)
  then show ?thesis using assms
    by (cases r) (simp_all add: timeout_step_def inv_node_failed inv_valid_timeout)
next
  case TimerFires
  then show ?thesis using assms(2) inv_cong[of "fire (ErrTimeout TIMEOUT_RESOLUTION_TIMEOUT_MS) e" e]
    by (simp add: timeout_step_def)
qed (use assms in \<open>simp_all add: timeout_step_def inv_node_failed split: option.split abort.split\<close>)

lemma inv_running_step:
  assumes "flying w limit e n nd" and "inv w limit e"
  shows "inv w limit (running_step now x n nd tm e)"
proof (cases x)
  case TimerFires
  then show ?thesis using assms(2) inv_cong[of "fire r e" e for r] by (simp add: running_step_def split: option.split)
qed (use assms in \<open>simp_all add: running_step_def inv_node_ok inv_node_throws split: option.split abort.split\<close>)

lemma inv_grace_step:
  assumes "flying w limit e n nd" and "inv w limit e"
  shows "inv w limit (grace_step now x n err nd e)"
  using assms by (cases x) (simp_all add: grace_step_def inv_node_failed)

text \<open>From the loop head to the start of a node.\<close>

lemma count_step_cases:
  assumes "count_step w limit n e = (r, e')" and "en_executed e = countExecutableSteps w (rs_steps (en_state e))"
    and "countExecutableSteps w (rs_steps (en_state e)) \<le> max_steps w limit"
  shows "en_trace e' = en_trace e \<and> en_state e' = en_state e \<and> en_cancelled e' = en_cancelled e \<and> en_parked e' = en_parked e \<and>
    en_abort e' = en_abort e \<and> en_paused e' = en_paused e \<and>
    (r = None \<longrightarrow> en_executed e' \<le> max_steps w limit \<and>
      en_executed e' = countExecutableSteps w (rs_steps (en_state e)) + (if is_transition w n then 0 else 1))"
  using assms by (auto simp: count_step_def Let_def split: if_splits)

lemma at_node_start:
  "at_node w s n \<Longrightarrow> node_of w n = Some nd \<Longrightarrow>
    at_node w (s\<lparr>rs_current := Some n, rs_attempt := a, rs_node_started := t, rs_detail := d\<rparr>) n"
  using coherent_cong[of "s\<lparr>rs_current := Some n, rs_attempt := a, rs_node_started := t, rs_detail := d\<rparr>" s w n]
  by (simp add: at_node_def)

lemma steps_ok_frame [simp]:
  "steps_ok w limit (s\<lparr>rs_paused := b\<rparr>) = steps_ok w limit s" "steps_ok w limit (s\<lparr>rs_status := st\<rparr>) = steps_ok w limit s"
  by (simp_all add: steps_ok_def results_agree_def)

lemma inv_dispatch_node:
  assumes "steps_ok w limit (en_state e)" and "loop_inv w limit e n"
  shows "inv w limit (dispatch_node w limit now uuid n e)"
proof -
  obtain r e' where step: "count_step w limit n e = (r, e')" by (cases "count_step w limit n e")
  note same = count_step_cases[OF step]
  have frame: "en_trace e' = en_trace e" "en_state e' = en_state e"
    and counted: "r = None \<longrightarrow> en_executed e' \<le> max_steps w limit \<and>
      en_executed e' = countExecutableSteps w (rs_steps (en_state e)) + (if is_transition w n then 0 else 1)"
    using same assms by (auto simp: loop_inv_def steps_ok_def)
  have run: "running w limit e'" "snap e' = snap e" using assms(2) frame by (simp_all add: inv_parts)
  have caught: "inv w limit (catch_error err e')" for err
    using assms run by (intro inv_catch) (simp_all add: frame running_def)
  show ?thesis
  proof (cases r)
    case None
    show ?thesis
    proof (cases "node_of w n")
      case None
      then show ?thesis using caught \<open>r = None\<close> by (simp add: dispatch_node_def step)
    next
      case (Some nd)
      have "at_node w (en_state e) n" using assms(2) by (simp add: loop_inv_def)
      note started = at_node_start[OF this Some]
      show ?thesis
        using started Some assms run counted \<open>r = None\<close> frame
        by (simp add: dispatch_node_def step goto_def inv_def fly_inv_def running_def loop_inv_def)
          (simp add: steps_ok_def results_agree_def)
    qed
  next
    case (Some err)
    then show ?thesis using caught by (simp add: dispatch_node_def step)
  qed
qed

lemma loop_inv_paused:
  assumes "loop_inv w limit e n"
  shows "loop_inv w limit (e\<lparr>en_state := (en_state e)\<lparr>rs_paused := b\<rparr>\<rparr>) n"
  using assms coherent_cong[of "(en_state e)\<lparr>rs_paused := b\<rparr>" "en_state e" w n]
  by (simp add: loop_inv_def running_def at_node_def)

lemma inv_hold:
  assumes "steps_ok w limit (en_state e)" and "loop_inv w limit e n"
  shows "inv w limit (holdWhilePaused w limit now uuid n e)"
proof -
  have "inv w limit (catch_error err e)" for err
    using assms by (intro inv_catch) (simp_all add: loop_inv_def running_def)
  moreover have "steps_ok w limit ((en_state e)\<lparr>rs_paused := True\<rparr>)" using assms(1) by simp
  ultimately show ?thesis
    using inv_dispatch_node[OF assms] loop_inv_paused[OF assms(2), of True]
    by (simp add: holdWhilePaused_def) (simp add: goto_def inv_def inv_parts)
qed

lemma inv_leavePause:
  assumes "steps_ok w limit (en_state e)" and "loop_inv w limit e n"
  shows "inv w limit (leavePause n e)" and "inv w limit (hold_on n e)"
proof -
  let ?u = "e\<lparr>en_wake := None\<rparr>"
  let ?e = "?u\<lparr>en_state := (en_state e)\<lparr>rs_paused := False\<rparr>\<rparr>"
  have ok: "steps_ok w limit (en_state ?u)" "steps_ok w limit (en_state ?e)" using assms(1) by simp_all
  have loop: "loop_inv w limit (e\<lparr>en_wake := k\<rparr>) n" for k using assms(2) by (simp add: loop_inv_def running_def)
  have caught: "inv w limit (catch_error err ?u)" "inv w limit (catch_error err ?e)" for err
    using assms(2) ok by (intro inv_catch; simp add: loop_inv_def running_def)+
  have resumed: "inv w limit (goto (PResumeSave n) ?e)"
    using ok loop_inv_paused[OF loop[of None], of False] by (simp add: goto_def inv_def inv_parts)
  show leave: "inv w limit (leavePause n e)"
    using caught(1)[of ErrParked] caught(2)[of ErrCancelled] resumed by (simp add: leavePause_def Let_def)
  have "inv w limit (goto (PPaused n) (e\<lparr>en_wake := Some False\<rparr>))"
    using assms(1) loop[of "Some False"] by (simp add: goto_def inv_def loop_inv_def running_def)
  then show "inv w limit (hold_on n e)" using leave by (simp add: hold_on_def)
qed

lemma step_of_node [simp]: "st_node (step_of a) = nr_node (at_result a)"
  by (simp add: step_of_def Let_def)

lemma countExecutableSteps_append [simp]:
  "countExecutableSteps w (ss @ [s]) = countExecutableSteps w ss + (if is_transition w (st_node s) then 0 else 1)"
  by (simp add: countExecutableSteps_def)

lemma inv_attempt_step:
  assumes "steps_ok w limit (en_state e)" and "pc_inv w limit e (PAttempt a)"
  shows "inv w limit (attempt_step w a e)"
proof (cases "en_parked e")
  case True
  then show ?thesis using assms by (simp add: attempt_step_def inv_catch fly_inv_def running_def)
next
  case False
  have "steps_ok w limit (recordAttempt w a (en_state e))"
    using assms results_agree_recordAttempt[of "en_state e" w a] by (simp add: steps_ok_def fly_inv_def)
  moreover have "recorded w (recordAttempt w a (en_state e)) a"
    by (rule recordAttempt_recorded) (use assms(1) in \<open>simp add: steps_ok_def\<close>)
  ultimately show ?thesis
    using False assms(2) by (auto simp: attempt_step_def goto_def inv_def done_inv_def fly_inv_def running_def behind_def)
qed

text \<open>After the attempt is persisted: the snapshot is the state just recorded.\<close>

definition settled_attempt :: "workflow \<Rightarrow> nat \<Rightarrow> attempt \<Rightarrow> engine \<Rightarrow> bool" where
  "settled_attempt w limit a e \<longleftrightarrow> steps_ok w limit (en_state e) \<and> done_inv w limit e a \<and> recorded w (snap e) a \<and>
     same_record (snap e) (en_state e)"

lemma settled_next:
  assumes "settled_attempt w limit a e" and "at_node w (en_state e) n" and "at_node w (snap e) n"
  shows "inv w limit (goto (PHold n) e)"
  using assms by (simp add: settled_attempt_def goto_def inv_def done_inv_def loop_inv_def running_def recorded_def)

lemma settled_catch: "settled_attempt w limit a e \<Longrightarrow> inv w limit (catch_error err e)"
  by (rule inv_catch) (simp_all add: settled_attempt_def done_inv_def running_def)

lemma settled_last: "settled_attempt w limit a e \<Longrightarrow> settled_attempt w limit a (e\<lparr>en_last := v\<rparr>)"
  by (simp add: settled_attempt_def done_inv_def running_def)

lemma inv_routeAfterFailure:
  assumes "settled_attempt w limit a e" and "nr_outcome (at_result a) \<noteq> OutOk"
  shows "inv w limit (routeAfterFailure w a e)"
proof -
  have goes: "inv w limit (goto (PHold n) e)"
    if "resolveNextForOutcome (wf_edges w) (nr_node (at_result a)) (at_result a) = Inr (Some n)" for n
    using assms that recorded_failed_next[OF _ assms(2) that]
    by (intro settled_next[OF assms(1)]) (simp_all add: settled_attempt_def done_inv_def)
  have timed: "inv w limit (catch_error err (e\<lparr>en_state := (en_state e)\<lparr>rs_status := StTimedOut\<rparr>\<rparr>))" for err
    using assms(1) by (intro inv_catch) (simp_all add: settled_attempt_def done_inv_def running_def)
  show ?thesis
    using settled_catch[OF assms(1)] goes timed
    by (auto simp: routeAfterFailure_def Let_def split: sum.split option.split)
qed

lemma inv_after_ok:
  assumes "settled_attempt w limit a e" and "nr_outcome (at_result a) = OutOk"
  shows "inv w limit (after_ok w a e)"
proof -
  let ?r = "at_result a" and ?e = "e\<lparr>en_last := nr_output (at_result a)\<rparr>"
  have settled: "settled_attempt w limit a ?e" by (rule settled_last[OF assms(1)])
  have parts: "recorded w (en_state e) a" "recorded w (snap e) a" "attempt_ok w a" "nr_output ?r \<noteq> None"
    "steps_ok w limit (en_state e)" "unfinished w limit e" "en_trace e \<noteq> []"
    using assms by (simp_all add: settled_attempt_def done_inv_def running_def)
  have waits: "finished_point w (snap e) StWaiting (graph_end (Some (nr_node ?r)) (nr_output ?r))" if "nr_type ?r = NCheckpoint"
    by (rule recorded_ok_waiting[OF parts(2) assms(2) parts(3) that])
  have goes: "inv w limit (goto (PHold n) ?e)" if "nr_type ?r \<noteq> NCheckpoint"
    "resolveNext (wf_edges w) (nr_node ?r) (output_value ?r) (Some ?r) = Inr (Some n)" for n
    using recorded_ok_next[OF parts(1) assms(2) parts(3) that] recorded_ok_next[OF parts(2) assms(2) parts(3) that]
    by (intro settled_next[OF settled]) simp_all
  have ends: "finished_point w (snap e) StCompleted (graph_end None (nr_output ?r))" if "nr_type ?r \<noteq> NCheckpoint"
    "resolveNext (wf_edges w) (nr_node ?r) (output_value ?r) (Some ?r) = Inr None"
    by (rule recorded_ok_done[OF parts(2) assms(2) parts(3) that])
  show ?thesis
    using waits goes ends settled_catch[OF settled] parts(4-7) assms(1)
    by (auto simp: after_ok_def Let_def finishRun_def goto_def inv_def graph_end_def settled_attempt_def
        split: sum.split option.split)
qed

lemma inv_after_entered:
  assumes "settled_attempt w limit a e" and "nr_outcome (at_result a) = OutOk"
  shows "inv w limit (after_entered w a e)"
  using assms inv_after_ok[OF assms]
  by (simp add: after_entered_def) (auto simp: goto_def inv_def settled_attempt_def done_inv_def running_def)

lemma inv_after_node: "settled_attempt w limit a e \<Longrightarrow> inv w limit (after_node w a e)"
  using inv_after_entered[of w limit a e] inv_routeAfterFailure[of w limit a e]
  by (simp add: after_node_def) (auto simp: goto_def inv_def settled_attempt_def done_inv_def running_def)

lemma running_persist:
  "running w limit e \<Longrightarrow> steps_ok w limit (en_state e) \<Longrightarrow> \<not> is_finish t \<Longrightarrow> stands w (en_state e) \<Longrightarrow> running w limit (persist t e)"
  by (simp add: running_def unfinished_persist)

lemma inv_loop_save:
  assumes "inv w limit e" and "loop_inv w limit e n" and "\<not> is_finish t"
    and "\<And>e'. pc_inv w limit e' (pc n) = loop_inv w limit e' n"
  shows "inv w limit (save t (goto (pc n)) catch_error x e)"
proof (rule inv_save[OF assms(1)])
  show "unfinished w limit e" "en_trace e \<noteq> []" using assms(2) by (simp_all add: loop_inv_def running_def)
  have "running w limit (persist t e)"
    using assms by (intro running_persist) (simp_all add: loop_inv_def inv_def stands_at)
  then show "inv w limit (goto (pc n) (persist t e))"
    using assms by (simp add: inv_def goto_def loop_inv_def running_def)
qed

lemma inv_pause_save:
  assumes "inv w limit e" and "loop_inv w limit e n"
  shows "inv w limit (save TvRunPaused (hold_on n) catch_error x e)"
proof (rule inv_save[OF assms(1)])
  show "unfinished w limit e" "en_trace e \<noteq> []" using assms(2) by (simp_all add: loop_inv_def running_def)
  have "running w limit (persist TvRunPaused e)"
    using assms by (intro running_persist) (simp_all add: loop_inv_def inv_def stands_at is_finish_def)
  then have "loop_inv w limit (persist TvRunPaused e) n" using assms by (simp add: loop_inv_def)
  then show "inv w limit (hold_on n (persist TvRunPaused e))"
    using assms(1) by (intro inv_leavePause) (simp_all add: inv_def)
qed

lemma inv_start_save:
  assumes "inv w limit e" and "fly_inv w limit e n"
  shows "inv w limit (save (TvNodeStarted n) (with_node w n (begin_node dflt now n)) catch_error x e)"
proof (rule inv_save[OF assms(1)])
  show "unfinished w limit e" "en_trace e \<noteq> []" using assms(2) by (simp_all add: fly_inv_def running_def)
  obtain nd where nd: "node_of w n = Some nd" using assms(2) by (auto simp: fly_inv_def at_node_def)
  have "running w limit (persist (TvNodeStarted n) e)"
    using assms by (intro running_persist stands_at(2)[of w "en_state e" n]) (simp_all add: fly_inv_def inv_def is_finish_def)
  then have "flying w limit (persist (TvNodeStarted n) e) n nd"
    using assms nd by (simp add: flying_def fly_inv_def inv_def)
  then show "inv w limit (with_node w n (begin_node dflt now n) (persist (TvNodeStarted n) e))"
    by (simp add: with_node_def nd inv_begin_node)
qed

lemma inv_done_save:
  assumes "inv w limit e" and "done_inv w limit e a" and "\<not> is_finish t"
    and "\<And>e'. settled_attempt w limit a e' \<Longrightarrow> inv w limit (cont e')"
  shows "inv w limit (save t cont catch_error x e)"
proof (rule inv_save[OF assms(1)])
  show "unfinished w limit e" "en_trace e \<noteq> []" using assms(2) by (simp_all add: done_inv_def running_def)
  have "running w limit (persist t e)"
    using assms(1-3) by (intro running_persist stands_at(3)[of w "en_state e" a]) (simp_all add: done_inv_def inv_def)
  then have "settled_attempt w limit a (persist t e)"
    using assms(1,2) by (simp add: settled_attempt_def done_inv_def inv_def)
  then show "inv w limit (cont (persist t e))" by (rule assms(4))
qed

lemma inv_in_flight:
  assumes "inv w limit e" and "fly_inv w limit e n" and "rs_current (snap e) = Some n"
    and "\<And>nd. flying w limit e n nd \<Longrightarrow> inv w limit (f nd e)"
  shows "inv w limit (with_node w n f e)"
  using assms by (cases "node_of w n") (auto simp: with_node_def flying_def inv_def)

lemma inv_boot:
  assumes "inv w limit e" and "en_pc e = PBoot t b"
  shows "inv w limit (save t (goto (PStarted b)) (\<lambda>err. goto (PDone (Threw err))) x e)"
proof -
  have "running w limit (persist t e)"
    using assms by (simp add: inv_def running_def unfinished_def snapshot_ok_def stands_at)
  then show ?thesis
    using assms by (cases x; cases b)
      (auto simp: save_def inv_def goto_def loop_inv_def running_def unfinished_def)
qed

lemma inv_hook:
  assumes "inv w limit e" and "en_pc e = PStarted b"
  shows "inv w limit (hook_step b x e)"
  using assms by (cases x; cases b)
    (auto simp: hook_step_def boot_step_def inv_def goto_def loop_inv_def running_def finishRun_def unfinished_def)

lemma inv_finish:
  assumes "inv w limit e"
  shows "en_pc e = PFinishing st f who \<Longrightarrow>
      inv w limit (goto (PFinishSave st who) (e\<lparr>en_state := apply_finish st f now (en_state e)\<rparr>))"
    and "en_pc e = PFinishSave st who \<Longrightarrow>
      inv w limit (save (TvRunFinished st) (goto (PDone Returned)) (finish_failed who) x e)"
proof -
  assume pc: "en_pc e = PFinishing st f who"
  have "steps_ok w limit (apply_finish st f now (en_state e))"
    using assms by (simp add: inv_def steps_ok_def results_agree_def apply_finish_def)
  moreover have "same_record (snap e) (apply_finish st f now (en_state e)) \<and> finished_point w (snap e) st f \<and>
      rs_final (apply_finish st f now (en_state e)) = ff_final f \<and>
      (ff_waiting f \<noteq> None \<longrightarrow> rs_waiting (apply_finish st f now (en_state e)) = ff_waiting f)" if "who = ByGraph"
    using assms pc that by (auto simp: inv_def apply_finish_def same_record_def)
  ultimately show "inv w limit (goto (PFinishSave st who) (e\<lparr>en_state := apply_finish st f now (en_state e)\<rparr>))"
    using assms pc by (auto simp: inv_def goto_def apply_finish_def)
next
  assume pc: "en_pc e = PFinishSave st who"
  have "inv w limit (catch_error err e)" for err using assms pc by (intro inv_catch) (simp_all add: inv_def)
  then show "inv w limit (save (TvRunFinished st) (goto (PDone Returned)) (finish_failed who) x e)"
    using assms pc by (cases x; cases who) (auto simp: save_def inv_def goto_def finish_failed_def unfinished_def)
qed

lemma inv_io_step:
  assumes "inv w limit e"
  shows "inv w limit (io_step w limit dflt now uuid x e)"
proof -
  have ok: "steps_ok w limit (en_state e)" and pc: "pc_inv w limit e (en_pc e)" using assms by (simp_all add: inv_def)
  show ?thesis
  proof (cases "en_pc e")
    case (PBoot t b)
    then show ?thesis using inv_boot[OF assms PBoot] by (simp add: io_step_def)
  next
    case (PStarted b)
    then show ?thesis using inv_hook[OF assms PStarted] by (simp add: io_step_def)
  next
    case (PPauseSave n)
    then show ?thesis using inv_pause_save[OF assms] pc by (simp add: io_step_def)
  next
    case (PGrace n err)
    have "inv w limit (with_node w n (grace_step now x n err) e)"
      by (rule inv_in_flight[OF assms]) (use PGrace pc assms in \<open>simp_all add: inv_grace_step\<close>)
    then show ?thesis by (simp add: io_step_def PGrace)
  next
    case (PTimeoutWait n)
    have "inv w limit (with_node w n (timeout_step now x n) e)"
      by (rule inv_in_flight[OF assms]) (use PTimeoutWait pc assms in \<open>simp_all add: inv_timeout_step\<close>)
    then show ?thesis by (simp add: io_step_def PTimeoutWait)
  next
    case (PRunning n tm)
    have "inv w limit (with_node w n (\<lambda>nd. running_step now x n nd tm) e)"
      by (rule inv_in_flight[OF assms]) (use PRunning pc assms in \<open>simp_all add: inv_running_step\<close>)
    then show ?thesis by (simp add: io_step_def PRunning)
  next
    case (PNodeSave a)
    then show ?thesis
      using inv_done_save[OF assms, of a "node_event a" "after_node w a" x] pc inv_after_node
      by (simp add: io_step_def node_event_def is_finish_def)
  next
    case (PEnteredSave a)
    then show ?thesis
      using inv_done_save[OF assms, of a "TvIncludeEntered (nr_node (at_result a))" "after_entered w a" x] pc inv_after_entered
      by (simp add: io_step_def is_finish_def)
  next
    case (PExitedSave a)
    then show ?thesis
      using inv_done_save[OF assms, of a "TvIncludeExited (nr_node (at_result a))" "after_ok w a" x] pc inv_after_ok
      by (simp add: io_step_def is_finish_def)
  next
    case (PFinishing st f who)
    then show ?thesis using inv_finish(1)[OF assms PFinishing] assms by (simp add: io_step_def)
  next
    case (PFinishSave st who)
    then show ?thesis using inv_finish(2)[OF assms PFinishSave] by (simp add: io_step_def)
  qed (use assms ok pc in \<open>simp_all add: io_step_def inv_hold inv_leavePause inv_dispatch_node inv_loop_save
      inv_start_save inv_attempt_step is_finish_def\<close>)
qed

lemma inv_step: "inv w limit e \<Longrightarrow> inv w limit (engine_step w limit dflt ev e)"
proof (cases ev)
  case (Io now uuid x)
  assume "inv w limit e"
  then show ?thesis by (simp add: Io engine_step_def inv_io_step)
next
  case Cancel
  assume "inv w limit e"
  then show ?thesis using inv_cong[of "fire ErrCancelled (e\<lparr>en_cancelled := True\<rparr>)" e] by (simp add: Cancel engine_step_def)
next
  case Park
  assume "inv w limit e"
  then show ?thesis using inv_cong[of "fire ErrCancelled (e\<lparr>en_parked := True\<rparr>)" e] by (simp add: Park engine_step_def)
next
  case Pause
  assume "inv w limit e"
  then show ?thesis using inv_cong[of "e\<lparr>en_paused := True\<rparr>" e] by (simp add: Pause engine_step_def)
next
  case Resume
  assume "inv w limit e"
  then show ?thesis using inv_cong[of "e\<lparr>en_paused := False\<rparr>" e] by (simp add: Resume engine_step_def)
qed

lemma inv_engine_run: "inv w limit e \<Longrightarrow> inv w limit (engine_run w limit dflt evs e)"
  by (induction evs arbitrary: e) (simp_all add: engine_run_def inv_step)

section \<open>Starts\<close>

lemma inv_start_run: "inv w limit (start_run w input)"
  by (simp add: inv_def start_run_def new_engine_def createRunState_def steps_ok_def results_agree_def
      countExecutableSteps_def is_finish_def at_node_def coherent_def resumePointFor_def)

text \<open>A resume of a snapshot: the new engine stands where the snapshot says.\<close>

lemma coherent_resume_state: "coherent w (resume_state s) n = coherent w s n"
  by (rule coherent_cong) (simp_all add: resume_state_def)

lemma resume_point_coherent:
  assumes "resumePointFor w True s = Inr p" and "rp_node p = Some n" and "stands w s"
  shows "coherent w s n"
proof (cases "rs_current s")
  case None
  then show ?thesis using assms resume_clear[OF None, of w True] by (auto simp: coherent_def)
next
  case (Some m)
  then have "n = m" using assms(1,2) by (auto simp: resumePointFor_def split: if_splits)
  then show ?thesis using assms(3) Some by (simp add: stands_def at_node_def)
qed

lemma inv_resumeRun:
  assumes "resumeRun w mismatch force s = Inr e" and "steps_ok w limit s" and "stands w s"
  shows "inv w limit e"
proof -
  obtain p where p: "resumePointFor w True s = Inr p" and running: "rs_status s = StRunning"
    and e: "e = new_engine (countExecutableSteps w (rs_steps s)) (rp_last p) (resume_state s)
          (PBoot TvRunResumed (resume_boot p))"
    using assms(1) by (auto simp: resumeRun_def split: if_splits sum.splits)
  have fields: "rs_current (resume_state s) = None" "rs_steps (resume_state s) = rs_steps s"
    "rs_status (resume_state s) = rs_status s" "rs_results (resume_state s) = rs_results s"
    "rs_outputs (resume_state s) = rs_outputs s" "rs_carried (resume_state s) = rs_carried s"
    by (simp_all add: resume_state_def)
  have "steps_ok w limit (resume_state s)"
    using assms(2) by (simp add: steps_ok_def results_agree_def fields)
  moreover have "case resume_boot p of BootNode n \<Rightarrow> at_node w (resume_state s) n | BootFinish st f \<Rightarrow> True"
    using resume_point_coherent[OF p _ assms(3)] coherent_resume_state[of w s]
    by (auto simp: resume_boot_def at_node_def fields split: option.split)
  ultimately show ?thesis using running
    by (simp add: inv_def e new_engine_def fields is_finish_def split: boot.splits)
qed

lemma replace_last_frame:
  "replace_last p f xs = Some ys \<Longrightarrow> (\<And>x. g (f x) = g x) \<Longrightarrow> map g ys = map g xs"
  by (induction xs arbitrary: ys) (auto split: option.splits if_splits)

lemma countExecutableSteps_nodes:
  assumes "map st_node ss = map st_node ts"
  shows "countExecutableSteps w ss = countExecutableSteps w ts"
proof -
  have "countExecutableSteps w rs = length (filter (\<lambda>n. \<not> is_transition w n) (map st_node rs))" for rs
    by (simp add: countExecutableSteps_def filter_map comp_def)
  then show ?thesis using assms by metis
qed

text \<open>The answer of a human decision changes neither the path taken nor what counts.\<close>

lemma answer_state_ok:
  assumes "answer_state n v s = Inr s'" and "steps_ok w limit s"
    and "\<And>r. obj_get (rs_results s) n = Some r \<Longrightarrow> nr_outcome r = OutOk"
  shows "steps_ok w limit s' \<and> map st_node (rs_steps s') = map st_node (rs_steps s) \<and> rs_carried s' = rs_carried s \<and>
    rs_status s' = rs_status s \<and> rs_current s' = rs_current s"
proof -
  obtain r steps where r: "obj_get (rs_results s) n = Some r"
    and steps: "replace_last (\<lambda>st. st_node st = n) (\<lambda>st. st\<lparr>st_output := v\<rparr>) (rs_steps s) = Some steps"
    and s': "s' = s\<lparr>rs_outputs := obj_put n v (rs_outputs s),
         rs_results := obj_put n (r\<lparr>nr_output := Some v\<rparr>) (rs_results s), rs_steps := steps\<rparr>"
    using assms(1) by (auto simp: answer_state_def split: option.splits)
  have nodes: "map st_node steps = map st_node (rs_steps s)" by (rule replace_last_frame[OF steps]) simp
  then have "length steps = length (rs_steps s)" by (metis length_map)
  then show ?thesis
    using assms(2,3) r nodes countExecutableSteps_nodes[OF nodes, of w]
    by (auto simp: s' steps_ok_def results_agree_def output_value_def)
qed

lemma carried_continues:
  assumes "rs_carried s = length (rs_steps s)" and "rs_current s = None"
  shows "resumePointFor w True (clear_current s) = resumePointFor w False s"
  unfolding resumePointFor_def Let_def clear_current_fields assms
  by (cases "obj_get (rs_results s) (st_node (last (rs_steps s)))") simp_all

lemma inv_continueRun:
  assumes "continueRun w mismatch force parent decision input = Inr e" and "steps_ok w limit parent"
    and "\<And>g r. rs_waiting parent = Some g \<Longrightarrow> obj_get (rs_results parent) g = Some r \<Longrightarrow> nr_outcome r = OutOk"
  shows "inv w limit e"
proof -
  let ?s = "carried_state parent input"
  obtain gate response s1 where gate: "rs_waiting parent = Some gate"
    and s1: "answered gate response ?s = Inr s1"
    and e: "e = new_engine (countExecutableSteps w (rs_steps s1))
         (continue_last (resumePointFor w False (s1\<lparr>rs_carried := length (rs_steps s1)\<rparr>))) (s1\<lparr>rs_carried := length (rs_steps s1)\<rparr>)
         (PBoot TvRunStarted (continue_boot (resumePointFor w False (s1\<lparr>rs_carried := length (rs_steps s1)\<rparr>))))"
    using assms(1) by (auto simp: continueRun_def Let_def split: run_status.splits option.splits if_splits sum.splits)
  let ?t = "s1\<lparr>rs_carried := length (rs_steps s1)\<rparr>"
  have "steps_ok w limit ?s" using assms(2) by (simp add: steps_ok_def results_agree_def carried_state_def createRunState_def)
  then have s1_ok: "steps_ok w limit s1 \<and> rs_status s1 = StRunning \<and> rs_current s1 = None"
    using s1 answer_state_ok[of gate _ ?s s1 w limit] assms(3)[OF gate]
    by (cases response) (auto simp: answered_def carried_state_def createRunState_def)
  then have ok: "steps_ok w limit ?t" by (simp add: steps_ok_def results_agree_def)
  have "at_node w ?t n" if "continue_boot (resumePointFor w False ?t) = BootNode n" for n
    using carried_continues[of ?t w] that s1_ok
    by (auto simp: coherent_def at_node_def continue_boot_def split: sum.splits option.splits)
  then show ?thesis
    using ok s1_ok e by (auto simp: inv_def new_engine_def is_finish_def split: boot.split)
qed

section \<open>Runs, and runs after crashes\<close>

text \<open>
  A run as the bundle sees it: it starts; the machine takes events; and at any moment the process
  may die, and a new engine resumes the last snapshot.
\<close>

inductive life :: "workflow \<Rightarrow> nat \<Rightarrow> int \<Rightarrow> engine \<Rightarrow> bool" for w limit dflt where
  born: "life w limit dflt (start_run w input)"
| lives: "life w limit dflt e \<Longrightarrow> life w limit dflt (engine_step w limit dflt ev e)"
| crash: "life w limit dflt e \<Longrightarrow> en_trace e \<noteq> [] \<Longrightarrow> \<not> is_finish (fst (last (en_trace e))) \<Longrightarrow>
    resumeRun w mismatch force (snap e) = Inr e' \<Longrightarrow> life w limit dflt e'"

inductive_cases lifeE: "life w limit dflt e"

lemma unfinished_last: "unfinished w limit e \<Longrightarrow> en_trace e \<noteq> [] \<Longrightarrow> snapshot_ok w limit (last (en_trace e))"
  by (simp add: unfinished_def list_all_iff)

lemma inv_unfinished:
  assumes "inv w limit e" and "en_trace e \<noteq> []" and "\<not> is_finish (fst (last (en_trace e)))"
  shows "unfinished w limit e"
proof (cases "en_pc e")
  case (PDone d)
  then show ?thesis using assms by (cases d) (auto simp: inv_def is_finish_def)
qed (use assms in \<open>auto simp: inv_def loop_inv_def fly_inv_def done_inv_def running_def\<close>)

lemma life_inv: "life w limit dflt e \<Longrightarrow> inv w limit e"
proof (induction rule: life.induct)
  case (born input)
  then show ?case by (rule inv_start_run)
next
  case (lives e ev)
  then show ?case by (intro inv_step)
next
  case (crash e mismatch force e')
  have "snapshot_ok w limit (last (en_trace e))"
    using crash inv_unfinished unfinished_last by blast
  then have "steps_ok w limit (snap e)" "stands w (snap e)" by (simp_all add: snapshot_ok_def snap_def)
  moreover have "resumeRun w mismatch force (snap e) = Inr e'" using crash by simp
  ultimately show ?case by (rule inv_resumeRun[rotated])
qed

lemma life_run: "life w limit dflt e \<Longrightarrow> life w limit dflt (engine_run w limit dflt evs e)"
  by (induction evs arbitrary: e) (simp_all add: engine_run_def life.lives)

end
