(* ===== verification/EngineLaws.thy ===== *)
theory EngineLaws
  imports EngineRuns
begin

text \<open>
  The promises of the engine: a crash or a park loses no finished node and repeats only the one in
  flight, the step limit bounds every life of a run, a terminal event is the last word, and cancel,
  park and pause do what they say at whatever await they arrive.
\<close>

section \<open>Crash and resume\<close>

text \<open>The node a machine stands before or in.\<close>

fun standing :: "pc \<Rightarrow> string option" where
  "standing (PStarted (BootNode n)) = Some n"
| "standing (PHold n) = Some n"
| "standing (PPauseSave n) = Some n"
| "standing (PPaused n) = Some n"
| "standing (PResumeSave n) = Some n"
| "standing (PDispatch n) = Some n"
| "standing (PStartSave n) = Some n"
| "standing (PTimeoutWait n) = Some n"
| "standing (PRunning n tm) = Some n"
| "standing (PGrace n err) = Some n"
| "standing (PAttempt a) = Some (nr_node (at_result a))"
| "standing _ = None"

lemma standing_inv:
  assumes "inv w limit e" and "standing (en_pc e) = Some n"
  shows "at_node w (snap e) n \<and> same_record (snap e) (en_state e) \<and> unfinished w limit e \<and> en_trace e \<noteq> []"
proof (cases "en_pc e")
  case (PStarted b)
  then show ?thesis using assms by (cases b) (auto simp: inv_def loop_inv_def running_def)
qed (use assms in \<open>auto simp: inv_def loop_inv_def fly_inv_def running_def\<close>)

text \<open>Resuming a snapshot starts an engine that goes on as given, with the given record of the run.\<close>

definition resumes_with :: "workflow \<Rightarrow> bool \<Rightarrow> run_state \<Rightarrow> boot \<Rightarrow> run_state \<Rightarrow> bool" where
  "resumes_with w force s b rec \<longleftrightarrow> (\<exists>e'. resumeRun w False force s = Inr e' \<and> en_pc e' = PBoot TvRunResumed b \<and>
     same_record rec (en_state e') \<and> en_executed e' = countExecutableSteps w (rs_steps rec))"

lemma resume_node_state [simp]: "same_record s (resume_state s')= same_record s s'"
  by (simp add: resume_state_def same_record_def)

lemma resumes_point:
  assumes "rs_status s = StRunning" and "resumePointFor w True s = Inr p" and "same_record s rec"
  shows "resumes_with w force s (resume_boot p) rec"
  using assms by (simp add: resumes_with_def resumeRun_def new_engine_def same_record_def resume_state_def)

lemma resumes_at_node:
  assumes "rs_status s = StRunning" and "at_node w s n" and "same_record s rec"
  shows "resumes_with w force s (BootNode n) rec"
proof -
  obtain p where "resumePointFor w True s = Inr p" "rp_node p = Some n" using at_node_resumes[OF assms(2)] by blast
  then show ?thesis using resumes_point[OF assms(1) _ assms(3)] by (force simp: resume_boot_def)
qed

lemma unfinished_status: "unfinished w limit e \<Longrightarrow> en_trace e \<noteq> [] \<Longrightarrow> rs_status (snap e) = StRunning \<and> stands w (snap e)"
  using unfinished_last[of w limit e] by (simp add: snapshot_ok_def snap_def)

text \<open>A resume does what the live engine, given by where it would go next, was about to do.\<close>

definition resumes_like :: "workflow \<Rightarrow> bool \<Rightarrow> engine \<Rightarrow> pc \<Rightarrow> bool" where
  "resumes_like w force e next = (case next of
     PHold n \<Rightarrow> resumes_with w force (snap e) (BootNode n) (en_state e)
   | PFinishing st f ByGraph \<Rightarrow> resumes_with w force (snap e) (BootFinish st f) (en_state e)
   | _ \<Rightarrow> (\<exists>err. resumeRun w False force (snap e) = Inl (Engine err)))"

lemma not_graph_caught: "resumes_like w force e (en_pc (catch_error err e')) =
    (\<exists>err. resumeRun w False force (snap e) = Inl (Engine err))"
  by (simp add: resumes_like_def catch_error_def finishAfterError_def finishRun_def goto_def)

lemma recorded_resumes:
  assumes "recorded w (snap e) a" and "nr_outcome (at_result a) = OutOk" and "attempt_ok w a"
    and "rs_status (snap e) = StRunning" and "same_record (snap e) (en_state e)"
  shows "resumes_like w force e (en_pc (after_ok w a e))"
proof (cases "nr_type (at_result a) = NCheckpoint")
  case True
  obtain p where "resumePointFor w True (snap e) = Inr p"
    "resume_boot p = BootFinish StWaiting (graph_end (Some (nr_node (at_result a))) (nr_output (at_result a)))"
    using recorded_ok_waiting[OF assms(1-3) True] by (auto simp: finished_point_def)
  then show ?thesis
    using resumes_point[OF assms(4) _ assms(5)] True
    by (fastforce simp: resumes_like_def after_ok_def Let_def finishRun_def goto_def graph_end_def)
next
  case False
  show ?thesis
  proof (cases "resolveNext (wf_edges w) (nr_node (at_result a)) (output_value (at_result a)) (Some (at_result a))")
    case (Inl err)
    then have "resumePointFor w True (snap e) = Inl (ErrOther (route_message err))"
      using assms False by (auto simp: resumePointFor_def recorded_def attempt_ok_def Let_def split: option.splits)
    then have "resumeRun w False force (snap e) = Inl (Engine (ErrOther (route_message err)))"
      using assms(4) by (simp add: resumeRun_def)
    then show ?thesis using Inl False by (simp add: after_ok_def Let_def not_graph_caught)
  next
    case (Inr nx)
    show ?thesis
    proof (cases nx)
      case None
      obtain p where "resumePointFor w True (snap e) = Inr p"
        "resume_boot p = BootFinish StCompleted (graph_end None (nr_output (at_result a)))"
        using recorded_ok_done[OF assms(1-3) False] Inr None by (auto simp: finished_point_def)
      then show ?thesis
        using resumes_point[OF assms(4) _ assms(5)] False Inr None
        by (fastforce simp: resumes_like_def after_ok_def Let_def finishRun_def goto_def graph_end_def)
    next
      case (Some n)
      then have "at_node w (snap e) n" using recorded_ok_next[OF assms(1-3) False] Inr by simp
      then show ?thesis
        using resumes_at_node[OF assms(4) _ assms(5)] False Inr Some
        by (simp add: resumes_like_def after_ok_def Let_def goto_def)
    qed
  qed
qed

definition resumes_unfinished :: "workflow \<Rightarrow> bool \<Rightarrow> engine \<Rightarrow> bool" where
  "resumes_unfinished w force e \<longleftrightarrow> rs_status (snap e) = StRunning \<and>
     (case rs_current (snap e) of None \<Rightarrow> True | Some n \<Rightarrow> resumes_with w force (snap e) (BootNode n) (snap e))"

lemma unfinished_resumes:
  assumes "inv w limit e" and "en_trace e \<noteq> []" and "\<not> is_finish (fst (last (en_trace e)))"
  shows "resumes_unfinished w force e"
proof -
  have "rs_status (snap e) = StRunning" "stands w (snap e)"
    using unfinished_status[OF inv_unfinished[OF assms] assms(2)] by simp_all
  then show ?thesis by (auto simp: resumes_unfinished_def stands_def intro: resumes_at_node split: option.splits)
qed

text \<open>
  C4: A crash loses at most the attempt being written.  Take any moment in the life of a run (crashes
  and resumes included) and let the process die there.  If the engine stands before or in a node,
  resuming the last snapshot continues at exactly that node, with every step, output and result
  recorded so far and the step count of the live engine.  If it is writing that an attempt ended, the
  resume is at that node again, with the record as it was before the attempt.  If it is writing that
  an include was entered or left, the resume goes where the live engine would have gone next: to the
  same node, to the same ending, or to a routing error.  If it is ending the run because the graph is
  done, before or while the ending is written, the resume writes the same ending with the same gate
  and output and runs no node.  In every other case in which something but no ending is on disk (an
  ending after an error, a cancel or a resume) the ending is forgotten: the snapshot still says
  running, and where it has a node in flight the resume runs that node again.
\<close>

theorem crash_resumes_where_it_stopped:
  assumes "life w limit dflt e"
  shows "(case standing (en_pc e) of
      Some n \<Rightarrow> resumes_with w force (snap e) (BootNode n) (en_state e)
    | None \<Rightarrow> (case en_pc e of
        PNodeSave a \<Rightarrow> (\<exists>s. en_state e = recordAttempt w a s \<and>
          resumes_with w force (snap e) (BootNode (nr_node (at_result a))) s)
      | PEnteredSave a \<Rightarrow> resumes_like w force e (en_pc (after_ok w a e))
      | PExitedSave a \<Rightarrow> resumes_like w force e (en_pc (after_ok w a e))
      | PFinishing st f ByGraph \<Rightarrow> resumes_with w force (snap e) (BootFinish st f) (en_state e)
      | PFinishSave st ByGraph \<Rightarrow> (\<exists>f. resumes_with w force (snap e) (BootFinish st f) (en_state e) \<and>
          rs_final (en_state e) = ff_final f \<and> (ff_waiting f = None \<or> rs_waiting (en_state e) = ff_waiting f))
      | _ \<Rightarrow> en_trace e = [] \<or> is_finish (fst (last (en_trace e))) \<or> resumes_unfinished w force e))"
proof -
  have inv: "inv w limit e" by (rule life_inv[OF assms])
  note rest = unfinished_resumes[OF inv, of force]
  show ?thesis
  proof (cases "standing (en_pc e)")
    case (Some n)
    then show ?thesis
      using standing_inv[OF inv Some] unfinished_status[of w limit e] by (auto intro: resumes_at_node)
  next
    case None
    show ?thesis
    proof (cases "en_pc e")
      case (PNodeSave a)
      then have written: "unfinished w limit e" "en_trace e \<noteq> []" "at_node w (snap e) (nr_node (at_result a))" "behind w e a"
        using inv by (auto simp: inv_def done_inv_def running_def)
      then show ?thesis
        using PNodeSave unfinished_status[OF written(1,2)] by (auto simp: behind_def intro: resumes_at_node)
    next
      case (PEnteredSave a)
      then show ?thesis
        using inv unfinished_status[of w limit e]
        by (auto simp: inv_def done_inv_def running_def intro: recorded_resumes)
    next
      case (PExitedSave a)
      then show ?thesis
        using inv unfinished_status[of w limit e]
        by (auto simp: inv_def done_inv_def running_def intro: recorded_resumes)
    next
      case (PFinishing st f who)
      then have "unfinished w limit e" "en_trace e \<noteq> []"
          "who = ByGraph \<longrightarrow> finished_point w (snap e) st f \<and> same_record (snap e) (en_state e)"
        using inv by (auto simp: inv_def)
      then show ?thesis
        using PFinishing rest unfinished_status[of w limit e] resumes_point[of "snap e" w _ "en_state e" force]
        by (cases who) (auto simp: finished_point_def)
    next
      case (PFinishSave st who)
      then have fin: "unfinished w limit e" "en_trace e \<noteq> []"
          "who = ByGraph \<longrightarrow> same_record (snap e) (en_state e) \<and> (\<exists>f. finished_point w (snap e) st f \<and>
             rs_final (en_state e) = ff_final f \<and> (ff_waiting f \<noteq> None \<longrightarrow> rs_waiting (en_state e) = ff_waiting f))"
        using inv by (auto simp: inv_def)
      show ?thesis
      proof (cases "who = ByGraph")
        case True
        then obtain f p where f: "resumePointFor w True (snap e) = Inr p" "resume_boot p = BootFinish st f"
            "rs_final (en_state e) = ff_final f" "ff_waiting f \<noteq> None \<longrightarrow> rs_waiting (en_state e) = ff_waiting f"
          using fin(3) by (auto simp: finished_point_def)
        then have "resumes_with w force (snap e) (BootFinish st f) (en_state e)"
          using resumes_point[of "snap e" w p "en_state e" force] unfinished_status[OF fin(1,2)] fin(3) True by simp
        then show ?thesis using PFinishSave True f(3,4) by auto
      next
        case False
        then show ?thesis using PFinishSave rest by (cases who) auto
      qed
    qed (use None rest in auto)
  qed
qed

section \<open>Bounds and agreement\<close>

text \<open>
  C17: The step limit holds for the whole life of a run.  However often a run crashes and resumes, it
  never records more executable steps (steps that are not include transitions) than its maxSteps
  allows, and a node in flight is within the limit, too.
\<close>

theorem step_limit_over_lifetime:
  assumes "life w limit dflt e"
  shows "countExecutableSteps w (rs_steps (en_state e)) \<le> max_steps w limit \<and>
    (case en_pc e of PRunning n tm \<Rightarrow>
        \<not> is_transition w n \<longrightarrow> countExecutableSteps w (rs_steps (en_state e)) < max_steps w limit
     | _ \<Rightarrow> True)"
  using life_inv[OF assms] by (auto simp: inv_def steps_ok_def fly_inv_def split: pc.split)

text \<open>
  C9: Outputs and results agree.  At every moment of the life of a run the outputs hold a value for
  a node exactly when its latest result is "ok", and then that result's value: a failed repeat
  removes an earlier output, and the mount path of an include shows what its last exit gave.
\<close>

theorem outputs_follow_results:
  assumes "life w limit dflt e"
  shows "obj_get (rs_outputs (en_state e)) n = (case obj_get (rs_results (en_state e)) n of
     None \<Rightarrow> None | Some r \<Rightarrow> if nr_outcome r = OutOk then Some (output_value r) else None)"
  using life_inv[OF assms] by (simp add: inv_def steps_ok_def results_agree_def)

section \<open>The terminal event\<close>

lemma done_stays: "en_pc e = PDone d \<Longrightarrow> en_pc (engine_step w limit dflt ev e) = PDone d \<and>
    en_trace (engine_step w limit dflt ev e) = en_trace e \<and> en_state (engine_step w limit dflt ev e) = en_state e"
  by (cases ev) (simp_all add: engine_step_def io_step_def)

lemma done_stays_run: "en_pc e = PDone d \<Longrightarrow> en_trace (engine_run w limit dflt evs e) = en_trace e \<and>
    en_state (engine_run w limit dflt evs e) = en_state e \<and> en_pc (engine_run w limit dflt evs e) = PDone d"
proof (induction evs arbitrary: e)
  case Nil
  then show ?case by (simp add: engine_run_def)
next
  case (Cons ev evs)
  show ?case
    using Cons.IH[of "engine_step w limit dflt ev e"] done_stays[OF Cons.prems, of w limit dflt ev]
    by (simp add: engine_run_def)
qed

text \<open>
  C8: The terminal event is the last word.  Once a terminal event is in the trace it is the last
  one and the only one, it carries the status the run state has, something was persisted before it,
  and neither trace nor run state change ever again, whatever is called or arrives late.
\<close>

theorem terminal_event_is_last:
  assumes "life w limit dflt e" and "TvRunFinished st \<in> fst ` set (en_trace e)"
  shows "(\<exists>ts s. en_trace e = ts @ [(TvRunFinished st, s)] \<and> ts \<noteq> [] \<and> \<not> list_ex (is_finish \<circ> fst) ts \<and>
      rs_status s = st) \<and> en_pc e = PDone Returned \<and>
    en_trace (engine_run w limit dflt evs e) = en_trace e \<and> en_state (engine_run w limit dflt evs e) = en_state e"
proof -
  have inv: "inv w limit e" by (rule life_inv[OF assms(1)])
  have fin: "is_finish (TvRunFinished st)" by (simp add: is_finish_def)
  then have "\<not> unfinished w limit e"
    using assms(2) by (force simp: unfinished_def list_all_iff snapshot_ok_def)
  then have pc: "en_pc e = PDone Returned"
    using inv
  proof (cases "en_pc e")
    case (PDone d)
    then show ?thesis using inv \<open>\<not> unfinished w limit e\<close> by (cases d) (auto simp: inv_def)
  qed (use \<open>\<not> unfinished w limit e\<close> in \<open>auto simp: inv_def loop_inv_def fly_inv_def done_inv_def running_def unfinished_def\<close>)
  then obtain ts st' s where trace: "en_trace e = ts @ [(TvRunFinished st', s)]" "ts \<noteq> []"
      "list_all (snapshot_ok w limit) ts" "rs_status s = st'"
    using inv by (auto simp: inv_def)
  have none: "\<not> list_ex (is_finish \<circ> fst) ts"
    using trace(3) by (auto simp: list_ex_iff list_all_iff snapshot_ok_def)
  then have "st' = st" using assms(2) trace(1) fin by (force simp: list_ex_iff)
  then show ?thesis using trace none pc done_stays_run[OF pc, of w limit dflt evs] by auto
qed

section \<open>Stopping\<close>

fun in_race :: "pc \<Rightarrow> bool" where
  "in_race (PTimeoutWait n) = True"
| "in_race (PRunning n tm) = True"
| "in_race _ = False"

text \<open>
  A node that races after a stop has been aborted, and an engine that is held has its promise, which
  is resolved as soon as there is something to wake for.
\<close>

definition halted :: "engine \<Rightarrow> bool" where
  "halted e \<longleftrightarrow> en_parked e \<or> en_cancelled e"

definition armed :: "engine \<Rightarrow> bool" where
  "armed e \<longleftrightarrow>
     (in_race (en_pc e) \<longrightarrow> en_abort e \<noteq> None \<and> (halted e \<longrightarrow> (\<exists>r. en_abort e = Some (Aborted r)))) \<and>
     (\<forall>n. en_pc e = PPaused n \<longrightarrow> en_wake e \<noteq> None \<and> (halted e \<or> \<not> en_paused e \<longrightarrow> en_wake e = Some True))"

fun plain :: "pc \<Rightarrow> bool" where
  "plain (PPaused n) = False"
| "plain (PTimeoutWait n) = False"
| "plain (PRunning n tm) = False"
| "plain _ = True"

lemma plain_armed: "plain (en_pc e) \<Longrightarrow> armed e"
  by (cases "en_pc e") (simp_all add: armed_def)

lemma armed_goto [simp]: "plain pc \<Longrightarrow> armed (goto pc e)"
  by (rule plain_armed) (simp add: goto_def)

lemma armed_catch [simp]: "armed (catch_error err e)"
  by (simp add: catch_error_def finishAfterError_def finishRun_def)

lemma armed_node_failed [simp]: "armed (node_failed now n nd err m e)" "armed (node_ok now n nd v m e)"
    "armed (node_throws now n nd err e)"
  by (simp_all add: node_failed_def node_ok_def node_throws_def attempt_done_def)

lemma armed_valid_timeout: "en_abort e = Some Active \<Longrightarrow> \<not> halted e \<Longrightarrow> armed (valid_timeout now n nd tm e)"
  by (simp add: valid_timeout_def split: option.split) (simp add: armed_def goto_def halted_def)

lemma armed_begin_node: "armed (begin_node dflt now n nd e)"
proof (cases "halted e")
  case True
  then show ?thesis by (auto simp: begin_node_def halted_def)
next
  case False
  let ?e = "e\<lparr>en_abort := Some Active, en_meta := no_meta\<rparr>"
  have "\<not> halted ?e" "en_abort ?e = Some Active" using False by (simp_all add: halted_def)
  moreover from this have "armed (goto (PTimeoutWait n) ?e)" by (simp add: armed_def goto_def halted_def)
  ultimately show ?thesis
    using False armed_valid_timeout[of ?e] by (simp add: begin_node_def halted_def Let_def split: timeout_spec.split)
qed

lemma armed_with_node: "armed e \<Longrightarrow> (\<And>nd. armed (f nd e)) \<Longrightarrow> armed (with_node w n f e)"
  by (simp add: with_node_def split: option.split)

lemma armed_dispatch [simp]: "armed (dispatch_node w limit now uuid n e)"
  by (simp add: dispatch_node_def split: prod.split option.split)

lemma armed_hold_on [simp]: "armed (leavePause n e)" "armed (hold_on n e)"
proof -
  show leave: "armed (leavePause n e)" by (simp add: leavePause_def Let_def)
  show "armed (hold_on n e)" by (simp add: hold_on_def leave) (simp add: armed_def goto_def halted_def)
qed

lemma armed_after [simp]: "armed (after_ok w a e)" "armed (routeAfterFailure w a e)" "armed (after_entered w a e)"
    "armed (after_node w a e)"
  by (simp_all add: after_node_def after_entered_def after_ok_def routeAfterFailure_def finishRun_def Let_def
      split: sum.split option.split)

lemma armed_save:
  assumes "armed e" and "\<And>e. armed (cont e)" and "\<And>err. armed (throw err e)"
  shows "armed (save t cont throw x e)"
  using assms by (simp add: save_def split: io.split)

lemma armed_meta: "armed (e\<lparr>en_meta := m\<rparr>) = armed e"
  by (simp add: armed_def halted_def)

lemma armed_fire: "armed e \<Longrightarrow> armed (fire r e)"
  by (cases "en_abort e"; cases "the (en_abort e)") (auto simp: armed_def fire_def halted_def)

lemma armed_race:
  assumes "armed e"
  shows "in_race (en_pc e) \<Longrightarrow> armed (timeout_step now x n nd e)" and "armed (running_step now x n nd tm e)"
    and "armed (grace_step now x n err nd e)"
proof -
  have active: "\<not> halted e" if "in_race (en_pc e)" "en_abort e = Some Active" using assms that by (auto simp: armed_def)
  show "in_race (en_pc e) \<Longrightarrow> armed (timeout_step now x n nd e)"
    using assms active by (simp add: timeout_step_def armed_fire armed_valid_timeout split: io.split sum.split option.split abort.split)
  show "armed (running_step now x n nd tm e)" "armed (grace_step now x n err nd e)"
    using assms by (simp_all add: running_step_def grace_step_def armed_fire armed_meta
        split: io.split option.split abort.split)
qed

lemma armed_io_step: "armed e \<Longrightarrow> armed (io_step w limit dflt now uuid x e)"
proof (cases "en_pc e")
  case (PStarted b)
  assume "armed e"
  then show ?thesis
    by (cases b) (simp_all add: io_step_def PStarted hook_step_def boot_step_def finishRun_def split: io.split)
next
  case (PStartSave n)
  assume "armed e"
  moreover have "armed (persist (TvNodeStarted n) e)" by (rule plain_armed) (simp add: PStartSave)
  ultimately show ?thesis
    by (auto simp: io_step_def PStartSave save_def intro: armed_with_node armed_begin_node split: io.split)
qed (auto simp: io_step_def holdWhilePaused_def attempt_step_def finish_failed_def
      intro!: armed_save armed_with_node armed_race armed_begin_node split: finisher.split)

lemma armed_step: "armed e \<Longrightarrow> armed (engine_step w limit dflt ev e)"
proof (cases ev)
  case (Io now uuid x)
  assume "armed e"
  then show ?thesis by (simp add: Io engine_step_def armed_io_step)
qed (auto simp: engine_step_def armed_def halted_def wakePause_def fire_def split: option.splits abort.splits)

lemma life_armed: "life w limit dflt e \<Longrightarrow> armed e"
proof (induction rule: life.induct)
  case (born input)
  then show ?case by (intro plain_armed) (simp add: start_run_def new_engine_def)
next
  case (crash e mismatch force e')
  then show ?case by (intro plain_armed) (auto simp: resumeRun_def new_engine_def split: if_splits sum.splits)
qed (rule armed_step)

text \<open>The status an ending under way is about to write.\<close>

fun ending :: "pc \<Rightarrow> run_status set" where
  "ending (PFinishing st f who) = {st}"
| "ending (PFinishSave st who) = {st}"
| "ending (PBoot t (BootFinish st f)) = {st}"
| "ending (PStarted (BootFinish st f)) = {st}"
| "ending _ = {}"

text \<open>A stopped engine writes only endings of \<open>A\<close> and races at most the node it raced, aborted.\<close>

definition stopped_in :: "run_status set \<Rightarrow> engine \<Rightarrow> bool" where
  "stopped_in A e \<longleftrightarrow> (en_parked e \<or> en_cancelled e \<and> StCancelled \<in> A) \<and> StCompleted \<in> A \<and> StWaiting \<in> A \<and>
     (\<forall>st s. (TvRunFinished st, s) \<in> set (en_trace e) \<longrightarrow> st \<in> A)"

definition calm :: "pc \<Rightarrow> run_status set \<Rightarrow> engine \<Rightarrow> bool" where
  "calm R A e \<longleftrightarrow> stopped_in A e \<and> ending (en_pc e) \<subseteq> A \<and>
     (in_race (en_pc e) \<longrightarrow> en_pc e = R \<and> (\<exists>r. en_abort e = Some (Aborted r)))"

lemma calm_goto: "stopped_in A e \<Longrightarrow> \<not> in_race pc \<Longrightarrow> ending pc \<subseteq> A \<Longrightarrow> calm R A (goto pc e)"
  by (simp add: calm_def goto_def stopped_in_def)

lemma stopped_frame [simp]: "stopped_in A (e\<lparr>en_state := s\<rparr>) = stopped_in A e" "stopped_in A (e\<lparr>en_abort := ab\<rparr>) = stopped_in A e"
  "stopped_in A (e\<lparr>en_last := v\<rparr>) = stopped_in A e" "stopped_in A (e\<lparr>en_executed := k\<rparr>) = stopped_in A e"
  "stopped_in A (e\<lparr>en_paused := b\<rparr>) = stopped_in A e" "stopped_in A (e\<lparr>en_wake := wk\<rparr>) = stopped_in A e"
  "stopped_in A (e\<lparr>en_meta := m\<rparr>) = stopped_in A e"
  by (simp_all add: stopped_in_def)

lemma calm_stopped: "calm R A e \<Longrightarrow> stopped_in A e"
  by (simp add: calm_def)

lemma calm_catch: "stopped_in A e \<Longrightarrow> calm R A (catch_error err e)"
  by (auto simp: catch_error_def finishAfterError_def finishRun_def stopped_in_def intro!: calm_goto)

lemma calm_node_failed: "stopped_in A e \<Longrightarrow> calm R A (node_failed now n nd err m e)"
  "stopped_in A e \<Longrightarrow> calm R A (node_throws now n nd err e)"
  by (simp_all add: node_throws_def node_failed_def attempt_done_def calm_goto)

lemma calm_begin_node: "stopped_in A e \<Longrightarrow> calm R A (begin_node dflt now n nd e)"
  by (auto simp: begin_node_def calm_node_failed) (simp_all add: stopped_in_def)

lemma calm_with_node: "calm R A e \<Longrightarrow> (\<And>nd. calm R A (f nd e)) \<Longrightarrow> calm R A (with_node w n f e)"
  by (simp add: with_node_def split: option.split)

lemma calm_dispatch: "stopped_in A e \<Longrightarrow> calm R A (dispatch_node w limit now uuid n e)"
  by (auto simp: dispatch_node_def count_step_def Let_def calm_catch calm_goto split: option.split)

lemma calm_hold: "stopped_in A e \<Longrightarrow> calm R A (holdWhilePaused w limit now uuid n e)"
  by (simp add: holdWhilePaused_def calm_catch calm_dispatch calm_goto)

lemma calm_hold_on: "stopped_in A e \<Longrightarrow> calm R A (hold_on n e)"
  by (simp add: hold_on_def leavePause_def calm_catch calm_goto Let_def)

lemma calm_after_ok: "stopped_in A e \<Longrightarrow> calm R A (after_ok w a e)"
proof -
  assume calm: "stopped_in A e"
  then have "StWaiting \<in> A" "StCompleted \<in> A" by (simp_all add: stopped_in_def)
  then show ?thesis
    using calm by (simp add: after_ok_def Let_def calm_catch calm_goto finishRun_def split: sum.split option.split)
qed

lemma calm_route: "stopped_in A e \<Longrightarrow> calm R A (routeAfterFailure w a e)"
  by (simp add: routeAfterFailure_def Let_def calm_catch calm_goto split: sum.split option.split)

lemma calm_after_node: "stopped_in A e \<Longrightarrow> calm R A (after_node w a e)" "stopped_in A e \<Longrightarrow> calm R A (after_entered w a e)"
  by (simp_all add: after_node_def after_entered_def calm_route calm_goto calm_after_ok)

lemma calm_save:
  assumes "calm R A e" and "\<And>e. stopped_in A e \<Longrightarrow> calm R A (cont e)" and "\<And>err. calm R A (throw err e)"
    and "\<And>st. t = TvRunFinished st \<Longrightarrow> st \<in> A"
  shows "calm R A (save t cont throw x e)"
proof -
  have "stopped_in A (persist t e)" using assms(1,4) by (auto simp: calm_def stopped_in_def)
  then show ?thesis using assms by (simp add: save_def split: io.split)
qed

lemma calm_meta: "calm R A e \<Longrightarrow> calm R A (e\<lparr>en_meta := m\<rparr>)"
  by (simp add: calm_def)

lemma calm_fire: "calm R A e \<Longrightarrow> calm R A (fire r e)"
  by (auto simp: calm_def stopped_in_def fire_def split: option.split abort.split)

text \<open>A race that was aborted listens to nothing but its abort.\<close>

lemma calm_race:
  assumes "calm R A e" and "in_race (en_pc e)"
  shows "calm R A (timeout_step now x n nd e)" and "calm R A (running_step now x n nd tm e)"
proof -
  obtain r where "en_abort e = Some (Aborted r)" using assms by (auto simp: calm_def)
  then show "calm R A (timeout_step now x n nd e)" "calm R A (running_step now x n nd tm e)"
    using assms(1) calm_stopped[OF assms(1)]
    by (simp_all add: timeout_step_def running_step_def calm_fire calm_meta calm_node_failed split: io.split option.split)
qed

lemma calm_boot:
  assumes "stopped_in A e" and "ending (PStarted b) \<subseteq> A" and "rs_status (en_state e) = StRunning"
  shows "calm R A (boot_step b e)"
  using assms by (cases b) (simp_all add: boot_step_def calm_goto finishRun_def)

lemma calm_io_step:
  assumes "calm R A e" and "inv w limit e"
  shows "calm R A (io_step w limit dflt now uuid x e)"
proof -
  have halt: "stopped_in A e" by (rule calm_stopped[OF assms(1)])
  note ends = calm_catch[OF halt] calm_goto[OF halt]
  show ?thesis
  proof (cases "en_pc e")
    case (PBoot t b)
    then have "\<not> is_finish t" "ending (PStarted b) \<subseteq> A"
      using assms by (cases b; auto simp: inv_def calm_def)+
    then show ?thesis
      using assms(1) by (auto simp: io_step_def PBoot is_finish_def intro!: calm_save calm_goto ends)
  next
    case (PStarted b)
    then have "ending (PStarted b) \<subseteq> A" "rs_status (en_state e) = StRunning"
      using assms by (cases b; auto simp: inv_def calm_def running_def)+
    then show ?thesis
      using assms(1) halt by (auto simp: io_step_def PStarted hook_step_def intro!: calm_boot ends split: io.split)
  next
    case (PStartSave n)
    have "stopped_in A (persist (TvNodeStarted n) e)" using halt by (auto simp: stopped_in_def)
    then show ?thesis
      using assms(1) by (auto simp: io_step_def PStartSave save_def calm_catch[OF halt] calm_begin_node calm_def[of R A "persist t e" for t]
          intro!: calm_with_node split: io.split)
  next
    case (PTimeoutWait n)
    then show ?thesis using assms(1) by (auto simp: io_step_def intro!: calm_with_node calm_race)
  next
    case (PRunning n tm)
    then show ?thesis using assms(1) by (auto simp: io_step_def intro!: calm_with_node calm_race)
  next
    case (PGrace n err)
    then show ?thesis
      using assms(1) halt
      by (auto simp: io_step_def grace_step_def calm_meta calm_node_failed intro!: calm_with_node split: io.split)
  next
    case (PFinishing st f who)
    then have "st \<in> A" using assms(1) by (simp add: calm_def)
    then show ?thesis using assms(1) halt by (simp add: io_step_def PFinishing calm_goto)
  next
    case (PFinishSave st who)
    then have "st \<in> A" using assms(1) by (simp add: calm_def)
    then show ?thesis
      using assms(1) by (auto simp: io_step_def PFinishSave finish_failed_def intro!: calm_save calm_goto ends split: finisher.split)
  qed (use assms(1) halt in \<open>auto simp: io_step_def calm_hold calm_hold_on calm_dispatch calm_begin_node attempt_step_def
      calm_after_node calm_after_ok node_event_def calm_goto ends intro!: calm_save calm_with_node\<close>)
qed

lemma calm_step:
  assumes "calm R A e" and "inv w limit e"
  shows "calm R A (engine_step w limit dflt ev e)"
proof (cases ev)
  case (Io now uuid x)
  then show ?thesis using assms by (simp add: engine_step_def calm_io_step)
qed (use assms(1) in \<open>auto simp: engine_step_def calm_def stopped_in_def wakePause_def fire_def split: option.splits abort.splits\<close>)

lemma calm_run: "calm R A e \<Longrightarrow> inv w limit e \<Longrightarrow> calm R A (engine_run w limit dflt evs e)"
  by (induction evs arbitrary: e) (simp_all add: engine_run_def calm_step inv_step)

text \<open>
  C16: Stopping stops. From the moment a run is cancelled or parked no node begins to execute,
  whatever happens next: the engine races at most the node it was already racing, and that race has
  been aborted.  An ending that is written from then on is the one whose writing was already under
  way when the stop came, or completed or waiting (when the last node had already settled), or, for
  a run that was not parked, cancelled.  So a run parked before it began to end never gets a failed,
  cancelled or timed-out ending, and another process can resume it.
\<close>

theorem stopping_stops:
  assumes "life w limit dflt e" and "en_parked e \<or> en_cancelled e"
  shows "(in_race (en_pc (engine_run w limit dflt evs e)) \<longrightarrow> en_pc (engine_run w limit dflt evs e) = en_pc e \<and>
      (\<exists>r. en_abort (engine_run w limit dflt evs e) = Some (Aborted r))) \<and>
    (\<forall>st s. (TvRunFinished st, s) \<in> set (en_trace (engine_run w limit dflt evs e)) \<longrightarrow>
      TvRunFinished st \<in> fst ` set (en_trace e) \<or>
      st \<in> ending (en_pc e) \<union> {StCompleted, StWaiting} \<union> (if en_parked e then {} else {StCancelled}))"
proof -
  let ?A = "{st. TvRunFinished st \<in> fst ` set (en_trace e)} \<union>
    (ending (en_pc e) \<union> {StCompleted, StWaiting} \<union> (if en_parked e then {} else {StCancelled}))"
  let ?e = "engine_run w limit dflt evs e"
  have "armed e" by (rule life_armed[OF assms(1)])
  then have race: "in_race (en_pc e) \<longrightarrow> (\<exists>r. en_abort e = Some (Aborted r))" using assms(2) by (auto simp: armed_def halted_def)
  have "TvRunFinished st \<in> fst ` set (en_trace e)" if "(TvRunFinished st, s) \<in> set (en_trace e)" for st s
    using that by (metis fst_conv imageI)
  then have "stopped_in ?A e" using assms(2) by (simp add: stopped_in_def) blast
  then have "calm (en_pc e) ?A e" using race by (simp add: calm_def) blast
  from calm_run[OF this life_inv[OF assms(1)]] have calm: "calm (en_pc e) ?A ?e" .
  then have "st \<in> ?A" if "(TvRunFinished st, s) \<in> set (en_trace ?e)" for st s
    using that unfolding calm_def stopped_in_def by blast
  moreover have "in_race (en_pc ?e) \<longrightarrow> en_pc ?e = en_pc e \<and> (\<exists>r. en_abort ?e = Some (Aborted r))"
    using calm unfolding calm_def by blast
  ultimately show ?thesis by blast
qed

section \<open>A cancelled run ends\<close>

text \<open>
  An event that settles the await the machine stands at: a write lands or fails, or the hook, the
  wake-up, the timer of the grace period or the aborted race it awaits comes back.
\<close>

fun writing :: "pc \<Rightarrow> bool" where
  "writing (PBoot t b) = True"
| "writing (PPauseSave n) = True"
| "writing (PResumeSave n) = True"
| "writing (PStartSave n) = True"
| "writing (PNodeSave a) = True"
| "writing (PEnteredSave a) = True"
| "writing (PExitedSave a) = True"
| "writing (PFinishSave st who) = True"
| "writing _ = False"

definition settles :: "event \<Rightarrow> engine \<Rightarrow> bool" where
  "settles ev e = (case ev of
     Io now uuid x \<Rightarrow> (case x of
       Saved \<Rightarrow> writing (en_pc e)
     | SaveFails err \<Rightarrow> writing (en_pc e)
     | Go \<Rightarrow> \<not> writing (en_pc e)
     | _ \<Rightarrow> False)
   | _ \<Rightarrow> False)"

fun settlements :: "workflow \<Rightarrow> nat \<Rightarrow> int \<Rightarrow> event list \<Rightarrow> engine \<Rightarrow> nat" where
  "settlements w limit dflt [] e = 0"
| "settlements w limit dflt (ev # evs) e =
     (if settles ev e then 1 else 0) + settlements w limit dflt evs (engine_step w limit dflt ev e)"

fun rank :: "pc \<Rightarrow> nat" where
  "rank (PDone d) = 0"
| "rank (PFinishSave st who) = (if who = ByGraph then 3 else 1)"
| "rank (PFinishing st f who) = (if who = ByGraph then 4 else 2)"
| "rank (PHold n) = 3"
| "rank (PPaused n) = 3"
| "rank (PPauseSave n) = 4"
| "rank (PStarted b) = 4"
| "rank (PBoot t b) = 5"
| "rank (PExitedSave a) = 5"
| "rank (PEnteredSave a) = 6"
| "rank (PNodeSave a) = 7"
| "rank (PAttempt a) = 8"
| "rank (PGrace n err) = 9"
| "rank (PRunning n tm) = 10"
| "rank (PTimeoutWait n) = 10"
| "rank (PStartSave n) = 10"
| "rank (PDispatch n) = 11"
| "rank (PResumeSave n) = 12"

lemma rank_zero: "rank pc = 0 \<longleftrightarrow> (\<exists>d. pc = PDone d)"
  by (cases pc) auto

lemma rank_bound: "rank pc \<le> 12"
  by (cases pc) auto

definition sinks :: "nat \<Rightarrow> engine \<Rightarrow> bool" where
  "sinks r e \<longleftrightarrow> rank (en_pc e) < r"

lemma sinks_goto: "rank pc < r \<Longrightarrow> sinks r (goto pc e)"
  by (simp add: sinks_def goto_def)

lemma sinks_catch: "2 < r \<Longrightarrow> sinks r (catch_error err e)"
  by (simp add: catch_error_def sinks_goto finishAfterError_def finishRun_def)

lemma sinks_node_failed: "8 < r \<Longrightarrow> sinks r (node_failed now n nd err m e)" "9 < r \<Longrightarrow> sinks r (node_throws now n nd err e)"
  by (simp_all add: node_throws_def node_failed_def attempt_done_def sinks_goto)

lemma sinks_dispatch: "10 < r \<Longrightarrow> sinks r (dispatch_node w limit now uuid n e)"
  by (auto simp: dispatch_node_def sinks_catch sinks_goto split: option.split prod.split)

lemma sinks_hold: "en_cancelled e \<Longrightarrow> 2 < r \<Longrightarrow> sinks r (hold_on n e)"
    "en_cancelled e \<Longrightarrow> 2 < r \<Longrightarrow> sinks r (holdWhilePaused w limit now uuid n e)"
  by (simp_all add: hold_on_def leavePause_def holdWhilePaused_def sinks_catch Let_def)

lemma sinks_after_ok: "4 < r \<Longrightarrow> sinks r (after_ok w a e)"
  by (simp add: after_ok_def Let_def sinks_catch sinks_goto finishRun_def split: sum.split option.split)

lemma sinks_after_node: "6 < r \<Longrightarrow> sinks r (after_node w a e)" "5 < r \<Longrightarrow> sinks r (after_entered w a e)"
  by (simp_all add: after_node_def after_entered_def routeAfterFailure_def Let_def sinks_catch sinks_goto sinks_after_ok
      split: sum.split option.split)

lemma sinks_begin_node: "en_cancelled e \<Longrightarrow> 8 < r \<Longrightarrow> sinks r (begin_node dflt now n nd e)"
  by (simp add: begin_node_def sinks_node_failed)

lemma with_node_known: "node_of w n \<noteq> None \<Longrightarrow> \<exists>nd. with_node w n f e = f nd e"
  by (auto simp: with_node_def)

text \<open>Once a run is cancelled, what settles its await leads on, and nothing else leads back.\<close>

lemma cancelled_sinks:
  assumes "inv w limit e" and "armed e" and "en_cancelled e" and "settles (Io now uuid x) e" and "0 < rank (en_pc e)"
  shows "sinks (rank (en_pc e)) (io_step w limit dflt now uuid x e)"
proof -
  have known: "node_of w n \<noteq> None" if "en_pc e = PTimeoutWait n \<or> en_pc e = PRunning n tm \<or> en_pc e = PGrace n err \<or> en_pc e = PStartSave n"
    for n tm err
    using that assms(1) by (auto simp: inv_def fly_inv_def at_node_def)
  have aborted: "\<exists>r. en_abort e = Some (Aborted r)" if "in_race (en_pc e)" using assms(2,3) that by (simp add: armed_def halted_def)
  show ?thesis
  proof (cases "writing (en_pc e)")
    case True
    then have "x = Saved \<or> (\<exists>err. x = SaveFails err)" using assms(4) by (cases x) (simp_all add: settles_def)
    then show ?thesis
      using assms(3) True known[of _ None undefined]
      by (cases "en_pc e"; elim disjE exE)
        (auto simp: io_step_def save_def sinks_goto sinks_catch sinks_hold sinks_after_ok sinks_after_node finish_failed_def
          with_node_def sinks_begin_node split: finisher.split)
  next
    case False
    then have x: "x = Go" using assms(4) by (cases x) (simp_all add: settles_def)
    show ?thesis
    proof (cases "en_pc e")
      case (PTimeoutWait n)
      then show ?thesis
        using aborted known[of n] by (auto simp: x io_step_def with_node_def timeout_step_def sinks_node_failed)
    next
      case (PRunning n tm)
      then show ?thesis
        using aborted known[of n tm] by (auto simp: x io_step_def with_node_def running_step_def sinks_node_failed)
    next
      case (PGrace n err)
      then show ?thesis
        using known[of n None err] by (auto simp: x io_step_def with_node_def grace_step_def sinks_node_failed)
    next
      case (PPaused n)
      then show ?thesis
        using assms(2,3) by (auto simp: x io_step_def is_go_def armed_def halted_def sinks_hold)
    next
      case (PStarted b)
      then show ?thesis
        by (cases b) (simp_all add: x io_step_def hook_step_def boot_step_def sinks_goto finishRun_def)
    next
      case (PDone d)
      then show ?thesis using assms(5) by simp
    qed (use assms(3) False in \<open>simp_all add: x io_step_def is_go_def sinks_goto sinks_hold sinks_dispatch attempt_step_def sinks_catch\<close>)
  qed
qed

lemma cancelled_never_rises:
  assumes "armed e" and "en_cancelled e" and "\<not> settles (Io now uuid x) e"
  shows "rank (en_pc (io_step w limit dflt now uuid x e)) \<le> rank (en_pc e)"
proof -
  have aborted: "\<exists>r. en_abort e = Some (Aborted r)" if "in_race (en_pc e)" using assms(1,2) that by (simp add: armed_def halted_def)
  show ?thesis
  proof (cases "en_pc e")
    case (PTimeoutWait n)
    then show ?thesis
      using aborted assms(3) by (cases x) (auto simp: io_step_def with_node_def timeout_step_def settles_def split: option.split)
  next
    case (PRunning n tm)
    then show ?thesis
      using aborted assms(3) by (cases x) (auto simp: io_step_def with_node_def running_step_def settles_def split: option.split)
  next
    case (PGrace n err)
    then show ?thesis
      using assms(3) by (cases x) (auto simp: io_step_def with_node_def grace_step_def settles_def split: option.split)
  next
    case (PStarted b)
    then show ?thesis using assms(3) by (cases x) (auto simp: io_step_def hook_step_def settles_def goto_def)
  qed (use assms(3) in \<open>cases x; auto simp: io_step_def save_def settles_def is_go_def\<close>)+
qed

text \<open>Nothing that settles withdraws a cancel.\<close>

lemma cancelled_frame [simp]:
  "en_cancelled (goto pc e) = en_cancelled e" "en_cancelled (catch_error err e) = en_cancelled e"
  "en_cancelled (finishRun st f who e) = en_cancelled e" "en_cancelled (node_failed now n nd err m e) = en_cancelled e"
  "en_cancelled (node_throws now n nd err e) = en_cancelled e" "en_cancelled (node_ok now n nd v m e) = en_cancelled e"
  "en_cancelled (valid_timeout now n nd tm e) = en_cancelled e" "en_cancelled (dispatch_node w limit now uuid n e) = en_cancelled e"
  by (auto simp: goto_def catch_error_def finishAfterError_def finishRun_def node_failed_def node_throws_def node_ok_def
      attempt_done_def valid_timeout_def dispatch_node_def count_step_def Let_def split: option.split)

lemma cancelled_after [simp]: "en_cancelled (begin_node dflt now n nd e) = en_cancelled e"
  "en_cancelled (leavePause n e) = en_cancelled e" "en_cancelled (hold_on n e) = en_cancelled e"
  "en_cancelled (holdWhilePaused w limit now uuid n e) = en_cancelled e"
  "en_cancelled (after_ok w a e) = en_cancelled e" "en_cancelled (routeAfterFailure w a e) = en_cancelled e"
  "en_cancelled (after_entered w a e) = en_cancelled e" "en_cancelled (after_node w a e) = en_cancelled e"
  "en_cancelled (boot_step b e) = en_cancelled e"
  by (simp_all add: begin_node_def leavePause_def hold_on_def holdWhilePaused_def after_node_def after_entered_def after_ok_def
      routeAfterFailure_def boot_step_def Let_def split: timeout_spec.split sum.split option.split boot.split)

lemma with_node_cancelled: "(\<And>nd. en_cancelled (f nd e) = en_cancelled e) \<Longrightarrow> en_cancelled (with_node w n f e) = en_cancelled e"
  by (simp add: with_node_def split: option.split)

lemma save_cancelled:
  assumes "\<And>e. en_cancelled (cont e) = en_cancelled e" and "\<And>err. en_cancelled (throw err e) = en_cancelled e"
  shows "en_cancelled (save t cont throw x e) = en_cancelled e"
  using assms by (simp add: save_def split: io.split)

lemma race_cancelled [simp]: "en_cancelled (timeout_step now x n nd e) = en_cancelled e"
  "en_cancelled (running_step now x n nd tm e) = en_cancelled e" "en_cancelled (grace_step now x n err nd e) = en_cancelled e"
  by (simp_all add: timeout_step_def running_step_def grace_step_def split: io.split option.split abort.split sum.split)

lemma finish_failed_cancelled: "en_cancelled (finish_failed who err e) = en_cancelled e"
  by (simp add: finish_failed_def split: finisher.split)

lemma io_cancelled: "en_cancelled (io_step w limit dflt now uuid x e) = en_cancelled e"
  by (cases "en_pc e") (simp_all add: io_step_def hook_step_def attempt_step_def finish_failed_cancelled
      save_cancelled with_node_cancelled split: io.split)

lemma step_cancelled: "en_cancelled e \<Longrightarrow> en_cancelled (engine_step w limit dflt ev e)"
  by (cases ev) (simp_all add: engine_step_def io_cancelled)

lemma cancelled_step_rank:
  assumes "inv w limit e" and "armed e" and "en_cancelled e"
  shows "rank (en_pc (engine_step w limit dflt ev e)) + (if settles ev e then 1 else 0) \<le> rank (en_pc e) \<or>
    rank (en_pc e) = 0 \<and> rank (en_pc (engine_step w limit dflt ev e)) = 0"
proof (cases ev)
  case (Io now uuid x)
  show ?thesis
  proof (cases "rank (en_pc e) = 0")
    case True
    then show ?thesis using done_stays[of e _ w limit dflt ev] by (auto simp: rank_zero)
  next
    case False
    then show ?thesis
      using cancelled_sinks[OF assms, of now uuid x dflt] cancelled_never_rises[OF assms(2,3), of now uuid x w limit dflt]
      by (cases "settles (Io now uuid x) e") (simp_all add: Io engine_step_def sinks_def)
  qed
qed (simp_all add: engine_step_def settles_def)

lemma settlements_sink:
  assumes "inv w limit e" and "armed e" and "en_cancelled e"
  shows "rank (en_pc (engine_run w limit dflt evs e)) = 0 \<or>
    rank (en_pc (engine_run w limit dflt evs e)) + settlements w limit dflt evs e \<le> rank (en_pc e)"
  using assms
proof (induction evs arbitrary: e)
  case Nil
  then show ?case by (simp add: engine_run_def)
next
  case (Cons ev evs)
  let ?e = "engine_step w limit dflt ev e"
  have run: "engine_run w limit dflt (ev # evs) e = engine_run w limit dflt evs ?e" by (simp add: engine_run_def)
  have stays: "rank (en_pc (engine_run w limit dflt evs ?e)) = 0" if "rank (en_pc ?e) = 0"
    using that done_stays_run[of ?e _ w limit dflt evs] by (auto simp: rank_zero)
  have "rank (en_pc (engine_run w limit dflt evs ?e)) = 0 \<or>
      rank (en_pc (engine_run w limit dflt evs ?e)) + settlements w limit dflt evs ?e \<le> rank (en_pc ?e)"
    using Cons.prems by (intro Cons.IH) (simp_all add: inv_step armed_step step_cancelled)
  then show ?case
    using cancelled_step_rank[OF Cons.prems, of dflt ev] stays unfolding run by fastforce
qed

text \<open>
  C5: A cancelled run ends.  From any moment of its life on, once a run is cancelled it has ended
  after at most twelve of the awaits it comes to have settled, in every schedule: writes may land or
  fail, the node in flight may answer, fail or never return, timers may fire, and the operator may
  pause, resume, park or cancel again in between.  A run held at a pause is woken by the cancel.
\<close>

theorem cancelled_run_ends:
  assumes "life w limit dflt e"
  shows "(\<exists>d. en_pc (engine_run w limit dflt evs (engine_step w limit dflt Cancel e)) = PDone d) \<or>
    settlements w limit dflt evs (engine_step w limit dflt Cancel e) < 12"
proof -
  let ?e = "engine_step w limit dflt Cancel e"
  have "inv w limit ?e" "armed ?e" "en_cancelled ?e"
    using life_inv[OF assms] life_armed[OF assms] by (simp_all add: inv_step armed_step) (simp add: engine_step_def)
  note sink = settlements_sink[OF this, of dflt evs]
  show ?thesis
  proof (cases "rank (en_pc (engine_run w limit dflt evs ?e)) = 0")
    case True
    then show ?thesis by (simp add: rank_zero)
  next
    case False
    then show ?thesis using sink rank_bound[of "en_pc ?e"] by linarith
  qed
qed

section \<open>Pausing\<close>

fun gated :: "string \<Rightarrow> pc \<Rightarrow> bool" where
  "gated n (PHold m) = (m = n)"
| "gated n (PPauseSave m) = (m = n)"
| "gated n (PPaused m) = (m = n)"
| "gated n _ = False"

definition keeps_pause :: "event \<Rightarrow> bool" where
  "keeps_pause ev = (case ev of
     Cancel \<Rightarrow> False | Park \<Rightarrow> False | Resume \<Rightarrow> False | Pause \<Rightarrow> True
   | Io now uuid x \<Rightarrow> (case x of SaveFails err \<Rightarrow> False | _ \<Rightarrow> True))"

text \<open>
  A paused run holds.  While a pause is in effect at the head of the loop and nobody resumes,
  cancels or parks (and no write fails), the engine stays at the gate before the same node: no node
  starts, nothing is recorded, and all it ever writes is that the run is paused, once.
\<close>

theorem paused_run_holds:
  assumes "en_paused e" and "\<not> en_cancelled e" and "\<not> en_parked e" and "en_pc e = PHold n"
    and "list_all keeps_pause evs"
  shows "gated n (en_pc (engine_run w limit dflt evs e)) \<and>
    same_record (en_state e) (en_state (engine_run w limit dflt evs e)) \<and>
    (map fst (en_trace (engine_run w limit dflt evs e)) = map fst (en_trace e) \<or>
     map fst (en_trace (engine_run w limit dflt evs e)) = map fst (en_trace e) @ [TvRunPaused])"
proof -
  define held where "held e' \<longleftrightarrow> en_paused e' \<and> \<not> en_cancelled e' \<and> \<not> en_parked e' \<and>
      same_record (en_state e) (en_state e') \<and>
      (en_pc e' \<in> {PHold n, PPauseSave n} \<and> map fst (en_trace e') = map fst (en_trace e) \<or>
       en_pc e' = PPaused n \<and> map fst (en_trace e') = map fst (en_trace e) @ [TvRunPaused])"
    for e' :: engine
  have step: "held (engine_step w limit dflt ev e')" if "held e'" "keeps_pause ev" for ev and e' :: engine
  proof (cases ev)
    case (Io now uuid x)
    have "en_pc e' = PHold n \<or> en_pc e' = PPauseSave n \<or> en_pc e' = PPaused n" using that(1) by (auto simp: held_def)
    then show ?thesis
      using that by (elim disjE; cases x)
        (simp_all add: Io held_def keeps_pause_def engine_step_def io_step_def is_go_def holdWhilePaused_def goto_def
          save_def hold_on_def)
  qed (use that in \<open>simp_all add: held_def keeps_pause_def engine_step_def\<close>)
  have "held (engine_run w limit dflt evs e')" if "held e'" for e' :: engine
    using assms(5) that by (induction evs arbitrary: e') (simp_all add: engine_run_def step)
  moreover have "held e" using assms by (simp add: held_def)
  ultimately have "held (engine_run w limit dflt evs e)" by blast
  then show ?thesis by (auto simp: held_def)
qed

section \<open>Concrete runs\<close>

text \<open>
  A run of the two-node workflow with its first node in flight, the same run completed, and the run
  with the ending of the graph under way.
\<close>

definition flight_events :: "event list" where
  "flight_events = [Io [] ''a1'' Saved, Io [] ''a1'' Go, Io [] ''a1'' Go, Io [] ''a1'' Saved]"

definition flight :: engine where
  "flight = engine_run verdict_workflow 9 1000 flight_events (start_run verdict_workflow (JObj []))"

definition landing_events :: "event list" where
  "landing_events = [Io [] ''a1'' (Resolves (JObj [(''verdict'', JStr ''yes'')]) no_meta), Io [] ''a1'' Go, Io [] ''a1'' Saved,
     Io [] ''a2'' Go, Io [] ''a2'' Saved, Io [] ''a2'' (Resolves (JStr ''ok'') no_meta), Io [] ''a2'' Go, Io [] ''a2'' Saved]"

definition landing :: engine where
  "landing = engine_run verdict_workflow 9 1000 landing_events flight"

definition landed :: engine where
  "landed = engine_run verdict_workflow 9 1000 [Io [] ''a2'' Go, Io [] ''a2'' Saved] landing"

lemma flight_life: "life verdict_workflow 9 1000 flight" "life verdict_workflow 9 1000 landed" "life verdict_workflow 9 1000 landing"
  unfolding flight_def landed_def landing_def by (intro life_run life.born)+

lemma flight_facts: "en_pc flight = PRunning ''ask'' (Some 1000)" "standing (en_pc flight) = Some ''ask''"
  by code_simp+

lemma landing_facts: "en_pc landing = PFinishing StCompleted (graph_end None (Some (JStr ''ok''))) ByGraph" "standing (en_pc landing) = None"
  by code_simp+

lemma landed_facts: "en_pc landed = PDone Returned" "map fst (en_trace landed) = [TvRunStarted, TvNodeStarted ''ask'',
    TvNodeFinished ''ask'', TvNodeStarted ''end'', TvNodeFinished ''end'', TvRunFinished StCompleted]"
    "obj_get (rs_results (en_state landed)) ''end'' \<noteq> None" "map_option nr_outcome (obj_get (rs_results (en_state landed)) ''end'') = Some OutOk"
  by code_simp+

theorem crash_resumes_where_it_stopped_witness:
  "resumes_with verdict_workflow False (snap flight) (BootNode ''ask'') (en_state flight) \<and>
   resumes_with verdict_workflow False (snap landing) (BootFinish StCompleted (graph_end None (Some (JStr ''ok'')))) (en_state landing)"
  using crash_resumes_where_it_stopped[OF flight_life(1), of False] flight_facts
    crash_resumes_where_it_stopped[OF flight_life(3), of False] landing_facts by simp

theorem step_limit_over_lifetime_witness:
  "countExecutableSteps verdict_workflow (rs_steps (en_state landed)) = 2 \<and>
   countExecutableSteps verdict_workflow (rs_steps (en_state landed)) \<le> 9"
proof -
  have "countExecutableSteps verdict_workflow (rs_steps (en_state landed)) = 2" by code_simp
  then show ?thesis using step_limit_over_lifetime[OF flight_life(2)] by (simp add: max_steps_def verdict_workflow_def)
qed

theorem outputs_follow_results_witness:
  "\<exists>v. obj_get (rs_outputs (en_state landed)) ''end'' = Some v"
  using outputs_follow_results[OF flight_life(2), of "''end''"] landed_facts(3,4) by auto

theorem terminal_event_is_last_witness:
  "en_state (engine_run verdict_workflow 9 1000 [Cancel, Io [] [] Saved] landed) = en_state landed"
proof -
  have "TvRunFinished StCompleted \<in> set (map fst (en_trace landed))" by (simp add: landed_facts(2))
  then show ?thesis using terminal_event_is_last[OF flight_life(2)] by simp
qed

text \<open>The run parked while its first node races.\<close>

definition stopped :: engine where
  "stopped = engine_run verdict_workflow 9 1000 [Park] flight"

theorem stopping_stops_witness:
  "TvRunFinished StFailed \<notin> fst ` set (en_trace (engine_run verdict_workflow 9 1000
     [Io [] [] (Rejects (ErrOther ''late'')), Io [] [] Go, Io [] [] Go] stopped))"
proof -
  have "life verdict_workflow 9 1000 stopped" unfolding stopped_def by (rule life_run[OF flight_life(1)])
  moreover have "en_parked stopped" "ending (en_pc stopped) = {}" "TvRunFinished StFailed \<notin> set (map fst (en_trace stopped))"
    by code_simp+
  ultimately show ?thesis using stopping_stops[of verdict_workflow 9 1000 stopped] by fastforce
qed

definition pausing :: engine where
  "pausing = engine_run verdict_workflow 9 1000 [Pause, Io [] [] Saved, Io [] [] Go] (start_run verdict_workflow (JObj []))"

text \<open>A run held at a pause, cancelled: woken, it writes its ending.\<close>

definition paused_run :: engine where
  "paused_run = engine_run verdict_workflow 9 1000 [Io [] [] Go, Io [] [] Saved] pausing"

theorem cancelled_run_ends_witness:
  "en_pc paused_run = PPaused ''ask'' \<and>
   ((\<exists>d. en_pc (engine_run verdict_workflow 9 1000 (replicate 12 (Io [] [] Go)) (engine_step verdict_workflow 9 1000 Cancel paused_run)) = PDone d) \<or>
    settlements verdict_workflow 9 1000 (replicate 12 (Io [] [] Go)) (engine_step verdict_workflow 9 1000 Cancel paused_run) < 12)"
proof -
  have "life verdict_workflow 9 1000 paused_run" unfolding paused_run_def pausing_def by (intro life_run life.born)
  moreover have "en_pc paused_run = PPaused ''ask''" by code_simp
  ultimately show ?thesis using cancelled_run_ends by simp
qed

theorem paused_run_holds_witness:
  "gated ''ask'' (en_pc (engine_run verdict_workflow 9 1000 [Io [] [] Go, Io [] [] Saved, Io [] [] Go] pausing))"
proof -
  have "en_paused pausing \<and> \<not> en_cancelled pausing \<and> \<not> en_parked pausing \<and> en_pc pausing = PHold ''ask''" by code_simp
  then show ?thesis
    using paused_run_holds[of pausing "''ask''" "[Io [] [] Go, Io [] [] Saved, Io [] [] Go]"] by (simp add: keeps_pause_def)
qed

end
