(* ===== verification/AuthoredWorkflow.thy ===== *)
theory AuthoredWorkflow
  imports WorkflowGraph
begin

text \<open>
  Workflows as authors write them: \<open>validateAuthoredWorkflow\<close> of src/workflows/composition.ts, and
  what it and the shape check of src/workflows/schema.ts say about a definition.
  JavaScript objects are shared and may refer to each other in cycles, so the definitions live in a
  list and an include names its workflow by position.
\<close>

section \<open>Definitions\<close>

definition lookup :: "authored list \<Rightarrow> nat \<Rightarrow> authored option" where
  "lookup st i = (if i < length st then Some (st ! i) else None)"

section \<open>The graph of a definition\<close>

datatype compile_error =
    AuthoredStartMissing string
  | AuthoredMultipleEdges string
  | AuthoredUnknownFrom string
  | AuthoredUnknownTo string
  | ExitUnknownNode string string
  | ExitNotTerminal string string
  | ExitTwice string
  | UndeclaredTerminals string "string list"
  | AuthoredUnreachable "string list"
  | IncludeCycle "string list"
  | IncludeUnresolved string string
  | NoExits string
  | BadExitReference string
  | UnknownExitReference string
  | UnknownTarget string
  | SourceRefused string
  | DanglingDefinition

text \<open>\<open>mount.exit\<close>, with exactly one dot that is neither first nor last.\<close>

definition parseExitReference :: "string \<Rightarrow> (string \<times> string) option" where
  "parseExitReference v = (case index_of CHR ''.'' v of
     None \<Rightarrow> None
   | Some d \<Rightarrow> if d = 0 \<or> d = length v - 1 \<or> CHR ''.'' \<in> set (drop (d + 1) v) then None
       else Some (take d v, drop (d + 1) v))"

text \<open>The workflow behind an include: the direct definition, or the contract of a reference.\<close>

definition target_id :: "include_target \<Rightarrow> nat option" where
  "target_id t = (case t of Direct i \<Rightarrow> Some i | Named ref c \<Rightarrow> c)"

definition reference :: "include_target \<Rightarrow> string" where
  "reference t = (case t of Direct i \<Rightarrow> [] | Named ref c \<Rightarrow> ref)"

definition child_of :: "authored list \<Rightarrow> include_target \<Rightarrow> authored option" where
  "child_of st t = (case target_id t of None \<Rightarrow> None | Some i \<Rightarrow> lookup st i)"

definition child_exits :: "authored list \<Rightarrow> include_target \<Rightarrow> string list" where
  "child_exits st t = (case child_of st t of None \<Rightarrow> [] | Some c \<Rightarrow> obj_keys (exits_of c))"

definition assertAuthoredFrom :: "authored list \<Rightarrow> authored \<Rightarrow> string \<Rightarrow> bool \<times> compile_error" where
  "assertAuthoredFrom st a from =
     (has_own (au_nodes a) from \<or>
      (case parseExitReference from of
         None \<Rightarrow> False
       | Some (m, x) \<Rightarrow> (case obj_get (au_includes a) m of None \<Rightarrow> False | Some t \<Rightarrow> x \<in> set (child_exits st t))),
      AuthoredUnknownFrom from)"

definition assertAuthoredTo :: "authored \<Rightarrow> string \<Rightarrow> bool \<times> compile_error" where
  "assertAuthoredTo a t = (has_own (au_nodes a) t \<or> has_own (au_includes a) t, AuthoredUnknownTo t)"

fun authored_edge_checks ::
    "authored list \<Rightarrow> authored \<Rightarrow> edge list \<Rightarrow> string list \<Rightarrow> (bool \<times> compile_error) list" where
  "authored_edge_checks st a [] outgoing = []"
| "authored_edge_checks st a (e # es) outgoing =
     (edge_from e \<notin> set outgoing, AuthoredMultipleEdges (edge_from e)) #
     assertAuthoredFrom st a (edge_from e) #
     map (assertAuthoredTo a) (edge_targets e) @
     authored_edge_checks st a es (edge_from e # outgoing)"

fun authored_exit_checks ::
    "authored \<Rightarrow> (string \<times> string) list \<Rightarrow> string list \<Rightarrow> (bool \<times> compile_error) list" where
  "authored_exit_checks a [] taken = []"
| "authored_exit_checks a ((x, from) # xs) taken =
     (has_own (au_nodes a) from, ExitUnknownNode x from) #
     (from \<notin> edge_from ` set (au_edges a), ExitNotTerminal x from) #
     (from \<notin> set taken, ExitTwice from) #
     authored_exit_checks a xs (from # taken)"

definition undeclared_terminals :: "authored \<Rightarrow> string list" where
  "undeclared_terminals a = filter
     (\<lambda>n. n \<notin> edge_from ` set (au_edges a) \<and> n \<notin> snd ` set (exits_of a)) (obj_keys (au_nodes a))"

text \<open>
  The search follows the edges and leads from an include to all its exits, written \<open>mount.exit\<close>; the
  latter are one more edge per include for \<open>reach\<close>.
\<close>

definition include_edge :: "authored list \<Rightarrow> string \<times> include_target \<Rightarrow> edge" where
  "include_edge st i = EdgeSwitch (fst i) [] (map (\<lambda>x. (x, fst i @ ''.'' @ x)) (child_exits st (snd i)))"

definition authored_unreachable :: "authored list \<Rightarrow> authored \<Rightarrow> string list" where
  "authored_unreachable st a =
     (let seen = reach (au_edges a @ map (include_edge st) (au_includes a)) [au_start a] [au_start a] in
      filter (\<lambda>n. n \<notin> set seen) (obj_keys (au_nodes a) @ obj_keys (au_includes a)))"

definition validateAuthoredWorkflow :: "authored list \<Rightarrow> authored \<Rightarrow> bool \<Rightarrow> compile_error option" where
  "validateAuthoredWorkflow st a included = first_failure (
     [(has_own (au_nodes a) (au_start a), AuthoredStartMissing (au_start a))] @
     authored_edge_checks st a (au_edges a) [] @
     authored_exit_checks a (exits_of a) [] @
     [(included \<longrightarrow> undeclared_terminals a = [], UndeclaredTerminals (au_name a) (undeclared_terminals a)),
      (authored_unreachable st a = [], AuthoredUnreachable (authored_unreachable st a))])"

section \<open>What the checks establish\<close>

lemma authored_edge_checks_ok:
  "list_all fst (authored_edge_checks st a es outgoing) \<longleftrightarrow>
     distinct (map edge_from es) \<and> set (map edge_from es) \<inter> set outgoing = {} \<and>
     (\<forall>e \<in> set es. fst (assertAuthoredFrom st a (edge_from e)) \<and>
        (\<forall>t \<in> set (edge_targets e). has_own (au_nodes a) t \<or> has_own (au_includes a) t))"
proof (induction es arbitrary: outgoing)
  case Nil
  then show ?case by simp
next
  case (Cons e es)
  have "list_all fst (map (assertAuthoredTo a) ts) \<longleftrightarrow>
      (\<forall>t \<in> set ts. has_own (au_nodes a) t \<or> has_own (au_includes a) t)" for ts
    by (simp add: list_all_iff assertAuthoredTo_def)
  then show ?case by (simp add: Cons.IH, blast)
qed

lemma authored_exit_checks_ok:
  "list_all fst (authored_exit_checks a xs taken) \<longleftrightarrow>
     distinct (map snd xs) \<and> set (map snd xs) \<inter> set taken = {} \<and>
     (\<forall>x \<in> set xs. has_own (au_nodes a) (snd x) \<and> snd x \<notin> edge_from ` set (au_edges a))"
proof (induction xs arbitrary: taken)
  case Nil
  then show ?case by simp
next
  case (Cons x xs)
  show ?case by (cases x) (simp add: Cons.IH, blast)
qed

definition authored_edges :: "authored list \<Rightarrow> authored \<Rightarrow> edge list" where
  "authored_edges st a = au_edges a @ map (include_edge st) (au_includes a)"

definition authored_ok :: "authored list \<Rightarrow> authored \<Rightarrow> bool" where
  "authored_ok st a \<longleftrightarrow> has_own (au_nodes a) (au_start a) \<and> distinct (map edge_from (au_edges a)) \<and>
     (\<forall>e \<in> set (au_edges a). fst (assertAuthoredFrom st a (edge_from e)) \<and>
        (\<forall>t \<in> set (edge_targets e). has_own (au_nodes a) t \<or> has_own (au_includes a) t)) \<and>
     distinct (map snd (exits_of a)) \<and>
     (\<forall>x \<in> set (exits_of a). has_own (au_nodes a) (snd x) \<and> snd x \<notin> edge_from ` set (au_edges a)) \<and>
     (\<forall>n. has_own (au_nodes a) n \<or> has_own (au_includes a) n \<longrightarrow>
        (au_start a, n) \<in> (edge_rel (authored_edges st a))\<^sup>*)"

lemma validateAuthoredWorkflow_ok:
  assumes "validateAuthoredWorkflow st a included = None"
  shows "authored_ok st a"
proof -
  have "authored_unreachable st a = []"
    using assms unfolding validateAuthoredWorkflow_def first_failure_None by simp
  then have "n \<in> set (reach (authored_edges st a) [au_start a] [au_start a])"
    if "has_own (au_nodes a) n \<or> has_own (au_includes a) n" for n
    using that by (auto simp: authored_unreachable_def authored_edges_def Let_def filter_empty_conv has_own_def
        simp del: reach.simps)
  then show ?thesis
    using assms unfolding authored_ok_def validateAuthoredWorkflow_def first_failure_None
    by (simp add: authored_edge_checks_ok authored_exit_checks_ok reach_start del: reach.simps)
qed

text \<open>Names that pass the shape check: no dot, no slash, not reserved for the compiler.\<close>

definition flat :: "string \<Rightarrow> bool" where
  "flat n \<longleftrightarrow> n \<noteq> [] \<and> CHR ''/'' \<notin> set n \<and> CHR ''.'' \<notin> set n"

lemma node_id_flat: "node_id_pattern s \<Longrightarrow> flat s"
proof -
  assume "node_id_pattern s"
  then obtain c cs where s: "s = c # cs" "is_alpha c \<or> c = CHR ''_''"
      "\<forall>x \<in> set cs. is_alnum x \<or> x \<in> set ''_-''"
    by (auto simp: node_id_pattern_def list_all_iff split: list.splits)
  have no: "\<not> is_alnum CHR ''/''" "\<not> is_alnum CHR ''.''" "\<not> is_alpha CHR ''/''" "\<not> is_alpha CHR ''.''" by code_simp+
  show ?thesis using s no by (auto simp: flat_def)
qed

definition shape_ok :: "authored \<Rightarrow> bool" where
  "shape_ok a \<longleftrightarrow> (\<forall>n. has_own (au_nodes a) n \<or> has_own (au_includes a) n \<or> has_own (exits_of a) n \<longrightarrow>
       flat n \<and> \<not> starts_with n ''__piw_'') \<and>
     (\<forall>n. has_own (au_nodes a) n \<longrightarrow> \<not> has_own (au_includes a) n \<and> n \<notin> set object_prototype_members)"

lemma split_on_single: "length (split_on d s) = 1 \<Longrightarrow> split_on d s = [s]"
  using join_split[of d s] by (cases "split_on d s") auto

lemma shape_check_ok:
  assumes "assertValidWorkflowDefinitionShape False a = None"
  shows "shape_ok a"
proof -
  have checks: "list_all fst (concat (map (\<lambda>(n, nd). node_id_checks False n nd) (au_nodes a)))"
      "list_all fst (concat (map (include_checks (au_nodes a)) (obj_keys (au_includes a))))"
      "list_all fst (concat (map exit_checks (exits_of a)))"
    using assms unfolding assertValidWorkflowDefinitionShape_def first_failure_None by simp_all
  have nodes: "flat n \<and> \<not> starts_with n ''__piw_'' \<and> n \<notin> set object_prototype_members" if "has_own (au_nodes a) n" for n
  proof -
    obtain nd where "(n, nd) \<in> set (au_nodes a)" using \<open>has_own (au_nodes a) n\<close> by (auto simp: has_own_def obj_keys_def)
    then have ok: "list_all fst (node_id_checks False n nd)" using checks(1) by (force simp: list_all_iff)
    then have "split_on CHR ''/'' n = [n]"
      by (intro split_on_single) (simp add: node_id_checks_def Let_def invalid_def)
    then show ?thesis using ok by (simp add: node_id_checks_def Let_def invalid_def node_id_flat)
  qed
  have mounts: "flat n \<and> \<not> starts_with n ''__piw_'' \<and> \<not> has_own (au_nodes a) n" if "has_own (au_includes a) n" for n
  proof -
    have "list_all fst (include_checks (au_nodes a) n)" using checks(2) that unfolding list_all_iff has_own_def by fastforce
    then show ?thesis by (simp add: include_checks_def invalid_def bad_id_def node_id_flat)
  qed
  have exits: "flat n \<and> \<not> starts_with n ''__piw_''" if "has_own (exits_of a) n" for n
  proof -
    obtain src where "(n, src) \<in> set (exits_of a)" using \<open>has_own (exits_of a) n\<close> by (auto simp: has_own_def obj_keys_def)
    then have "list_all fst (exit_checks (n, src))" using checks(3) unfolding list_all_iff by fastforce
    then show ?thesis by (simp add: exit_checks_def invalid_def bad_id_def node_id_flat)
  qed
  have "\<forall>n. has_own (au_nodes a) n \<or> has_own (au_includes a) n \<or> has_own (exits_of a) n \<longrightarrow>
      flat n \<and> \<not> starts_with n ''__piw_''"
    using nodes mounts exits by metis
  moreover have "\<forall>n. has_own (au_nodes a) n \<longrightarrow> \<not> has_own (au_includes a) n \<and> n \<notin> set object_prototype_members"
    using nodes mounts by metis
  ultimately show ?thesis by (simp add: shape_ok_def)
qed

end
