(* ===== verification/Composition.thy ===== *)
theory Composition
  imports AuthoredWorkflow
begin

text \<open>
  The compiler of included workflows (\<open>compileWorkflowDefinition\<close> of src/workflows/composition.ts): a
  workflow and everything it includes become one graph whose node ids are paths.  Each include
  becomes an entry node, each exit of the included workflow a node of its own.  The closures
  \<open>wrapNode\<close> builds keep the kind, timeout and status of a node, which is all a node is here.
\<close>

section \<open>What the compiler collects\<close>

record scope_meta =
  sm_path :: string
  sm_workflow :: string
  sm_max :: "nat option"
  sm_nodes :: "string obj"
  sm_mounts :: "string obj"

record entry_meta =
  em_mount :: string
  em_name :: string
  em_parent :: string
  em_workflow :: string

record exit_meta =
  xm_node :: string
  xm_mount :: string
  xm_name :: string
  xm_parent :: string
  xm_exit :: string
  xm_from :: string

record mount_snapshot =
  ms_path :: string
  ms_workflow :: string
  ms_entry :: string
  ms_exits :: "string obj"
  ms_max :: "nat option"

record mounted_source =
  mo_path :: string
  mo_workflow :: string
  mo_source :: jv

record build =
  bu_nodes :: "node obj"
  bu_edges :: "edge list"
  bu_mounts :: "mount_snapshot list"
  bu_scopes :: "scope_meta obj"
  bu_entries :: "entry_meta obj"
  bu_exits :: "exit_meta obj"
  bu_sources :: "mounted_source list"

definition empty_build :: build where
  "empty_build = \<lparr>bu_nodes = [], bu_edges = [], bu_mounts = [], bu_scopes = [], bu_entries = [], bu_exits = [],
     bu_sources = []\<rparr>"

text \<open>
  Outside this code: \<open>ev_source\<close> is the source map with the fallback of reading and hashing the file
  of a definition (it may throw), \<open>ev_before\<close> is \<open>a.localeCompare(b) < 0\<close>.
\<close>

record compile_env =
  ev_source :: "nat \<Rightarrow> (string, jv option) result"
  ev_before :: "string \<Rightarrow> string \<Rightarrow> bool"

fun insert_by :: "('a \<Rightarrow> 'a \<Rightarrow> bool) \<Rightarrow> 'a \<Rightarrow> 'a list \<Rightarrow> 'a list" where
  "insert_by before x [] = [x]"
| "insert_by before x (y # ys) = (if before x y then x # y # ys else y # insert_by before x ys)"

definition sort_by :: "('a \<Rightarrow> 'a \<Rightarrow> bool) \<Rightarrow> 'a list \<Rightarrow> 'a list" where
  "sort_by before xs = fold (insert_by before) xs []"

definition compareMounts :: "compile_env \<Rightarrow> mount_snapshot \<Rightarrow> mount_snapshot \<Rightarrow> bool" where
  "compareMounts env a b = ev_before env (ms_path a) (ms_path b)"

definition compareSources :: "compile_env \<Rightarrow> mounted_source \<Rightarrow> mounted_source \<Rightarrow> bool" where
  "compareSources env a b = ev_before env (mo_path a) (mo_path b)"

section \<open>One scope\<close>

definition qualify :: "string \<Rightarrow> string \<Rightarrow> string" where
  "qualify p n = (if p = [] then n else p @ ''/'' @ n)"

text \<open>An assignment to a property of a plain object: \<open>__proto__\<close> reaches the prototype setter.\<close>

definition assign :: "string \<Rightarrow> 'v \<Rightarrow> 'v obj \<Rightarrow> 'v obj" where
  "assign k v ob = (if k = ''__proto__'' then ob else obj_put k v ob)"

definition exit_name :: "string \<Rightarrow> string" where
  "exit_name x = ''__piw_exit_'' @ x"

definition exit_id :: "string \<Rightarrow> string \<Rightarrow> string" where
  "exit_id m x = qualify m (exit_name x)"

definition scope_of :: "string \<Rightarrow> authored \<Rightarrow> scope_meta" where
  "scope_of p a = \<lparr>sm_path = p, sm_workflow = au_name a, sm_max = au_max a,
     sm_nodes = map (\<lambda>n. (n, qualify p n)) (obj_keys (au_nodes a)),
     sm_mounts = map (\<lambda>n. (n, qualify p n)) (obj_keys (au_includes a))\<rparr>"

definition add_scope :: "string \<Rightarrow> authored \<Rightarrow> build \<Rightarrow> build" where
  "add_scope p a b = b\<lparr>bu_scopes := assign p (scope_of p a) (bu_scopes b)\<rparr>"

definition add_source :: "compile_env \<Rightarrow> nat \<Rightarrow> authored \<Rightarrow> string \<Rightarrow> build \<Rightarrow> (compile_error, build) result" where
  "add_source env i a p b =
     (if p = [] then Inr b
      else (case ev_source env i of
        Inl e \<Rightarrow> Inl (SourceRefused e)
      | Inr None \<Rightarrow> Inr b
      | Inr (Some s) \<Rightarrow> Inr (b\<lparr>bu_sources := bu_sources b @ [\<lparr>mo_path = p, mo_workflow = au_name a, mo_source = s\<rparr>]\<rparr>)))"

definition add_nodes :: "string \<Rightarrow> authored \<Rightarrow> build \<Rightarrow> build" where
  "add_nodes p a b = b\<lparr>bu_nodes := fold (\<lambda>(n, nd). assign (qualify p n) nd) (au_nodes a) (bu_nodes b)\<rparr>"

text \<open>The node that maps the input on entering, and the nodes that validate the output on leaving.\<close>

definition transition_node :: "string \<Rightarrow> node" where
  "transition_node detail = \<lparr>nd_type = NCompute, nd_exec = False, nd_timeout = TmDefault, nd_detail = Some detail\<rparr>"

definition add_entry :: "string \<Rightarrow> string \<Rightarrow> authored \<Rightarrow> build \<Rightarrow> build" where
  "add_entry p name c b = (let m = qualify p name in
     b\<lparr>bu_entries := assign m \<lparr>em_mount = m, em_name = name, em_parent = p, em_workflow = au_name c\<rparr> (bu_entries b),
       bu_nodes := assign m (transition_node (''entering '' @ au_name c)) (bu_nodes b),
       bu_edges := bu_edges b @ [EdgeTo m (qualify m (au_start c))]\<rparr>)"

definition add_exit :: "string \<Rightarrow> string \<Rightarrow> authored \<Rightarrow> string \<times> string \<Rightarrow> build \<Rightarrow> build" where
  "add_exit p name c x b = (case x of (exitName, from) \<Rightarrow>
     let m = qualify p name; n = exit_id m exitName in
     b\<lparr>bu_exits := assign n \<lparr>xm_node = n, xm_mount = m, xm_name = name, xm_parent = p, xm_exit = exitName,
           xm_from = qualify m from\<rparr> (bu_exits b),
       bu_nodes := assign n (transition_node (''leaving '' @ au_name c @ '' through '' @ exitName)) (bu_nodes b),
       bu_edges := bu_edges b @ [EdgeTo (qualify m from) n]\<rparr>)"

definition add_mount :: "string \<Rightarrow> string \<Rightarrow> authored \<Rightarrow> build \<Rightarrow> build" where
  "add_mount p name c b = (let m = qualify p name in
     b\<lparr>bu_mounts := bu_mounts b @ [\<lparr>ms_path = m, ms_workflow = au_name c, ms_entry = m,
       ms_exits = fold (\<lambda>x. assign x (exit_id m x)) (obj_keys (exits_of c)) [], ms_max = au_max c\<rparr>]\<rparr>)"

definition add_include :: "string \<Rightarrow> string \<Rightarrow> authored \<Rightarrow> build \<Rightarrow> build" where
  "add_include p name c b = add_mount p name c (fold (add_exit p name c) (exits_of c) (add_entry p name c b))"

definition resolveAuthoredFrom ::
    "string \<Rightarrow> authored \<Rightarrow> exit_meta obj \<Rightarrow> string \<Rightarrow> (compile_error, string) result" where
  "resolveAuthoredFrom p a xs from =
     (if has_own (au_nodes a) from then Inr (qualify p from)
      else (case parseExitReference from of
        None \<Rightarrow> Inl (BadExitReference from)
      | Some (m, x) \<Rightarrow> (case find_result (\<lambda>e. xm_mount e = qualify p m \<and> xm_exit e = x) (map snd xs) of
          None \<Rightarrow> Inl (UnknownExitReference from)
        | Some e \<Rightarrow> Inr (xm_node e))))"

definition resolveAuthoredTo :: "string \<Rightarrow> authored \<Rightarrow> string \<Rightarrow> (compile_error, string) result" where
  "resolveAuthoredTo p a t =
     (if has_own (au_nodes a) t \<or> has_own (au_includes a) t then Inr (qualify p t) else Inl (UnknownTarget t))"

fun map_result :: "('a \<Rightarrow> ('e, 'b) result) \<Rightarrow> 'a list \<Rightarrow> ('e, 'b list) result" where
  "map_result f [] = Inr []"
| "map_result f (x # xs) = (case f x of Inl e \<Rightarrow> Inl e
     | Inr y \<Rightarrow> (case map_result f xs of Inl e \<Rightarrow> Inl e | Inr ys \<Rightarrow> Inr (y # ys)))"

definition resolve_edge :: "string \<Rightarrow> authored \<Rightarrow> exit_meta obj \<Rightarrow> edge \<Rightarrow> (compile_error, edge) result" where
  "resolve_edge p a xs e = (case resolveAuthoredFrom p a xs (edge_from e) of
     Inl err \<Rightarrow> Inl err
   | Inr from \<Rightarrow> (case e of
       EdgeTo f t \<Rightarrow> (case resolveAuthoredTo p a t of Inl err \<Rightarrow> Inl err | Inr t' \<Rightarrow> Inr (EdgeTo from t'))
     | EdgeSwitch f on cases \<Rightarrow>
         (case map_result (\<lambda>(k, t). case resolveAuthoredTo p a t of Inl err \<Rightarrow> Inl err | Inr t' \<Rightarrow> Inr (k, t')) cases of
            Inl err \<Rightarrow> Inl err | Inr cases' \<Rightarrow> Inr (EdgeSwitch from on cases'))))"

definition add_edges :: "string \<Rightarrow> authored \<Rightarrow> build \<Rightarrow> (compile_error, build) result" where
  "add_edges p a b = (case map_result (resolve_edge p a (bu_exits b)) (au_edges a) of
     Inl e \<Rightarrow> Inl e | Inr es \<Rightarrow> Inr (b\<lparr>bu_edges := bu_edges b @ es\<rparr>))"

section \<open>Mounting\<close>

text \<open>
  \<open>active\<close> is the stack of definitions being mounted.  Every nested call pushes a definition that
  is not on it, so the recursion ends although definitions may include each other in cycles.
\<close>

definition cycle_names :: "authored list \<Rightarrow> nat list \<Rightarrow> nat \<Rightarrow> string list" where
  "cycle_names st active i = map (\<lambda>j. au_name (st ! j)) (dropWhile (\<lambda>j. j \<noteq> i) active @ [i])"

definition free_ids :: "authored list \<Rightarrow> nat list \<Rightarrow> nat set" where
  "free_ids st active = {..<length st} - set active"

lemma free_ids_push:
  assumes "i \<notin> set active" and "lookup st i = Some a"
  shows "card (free_ids st (active @ [i])) < card (free_ids st active)"
proof (rule psubset_card_mono)
  have "i \<in> free_ids st active" using assms by (auto simp: free_ids_def lookup_def split: if_splits)
  then show "free_ids st (active @ [i]) \<subset> free_ids st active" by (auto simp: free_ids_def)
qed (simp add: free_ids_def)

function mountWorkflow ::
    "compile_env \<Rightarrow> authored list \<Rightarrow> nat list \<Rightarrow> nat \<Rightarrow> string \<Rightarrow> build \<Rightarrow> (compile_error, build) result"
  and mount_includes ::
    "compile_env \<Rightarrow> authored list \<Rightarrow> nat list \<Rightarrow> string \<Rightarrow> (string \<times> include_target) list \<Rightarrow> build
       \<Rightarrow> (compile_error, build) result" where
  "mountWorkflow env st active i p b = (case lookup st i of
     None \<Rightarrow> Inl DanglingDefinition
   | Some a \<Rightarrow>
       if i \<in> set active then Inl (IncludeCycle (cycle_names st active i))
       else (case validateAuthoredWorkflow st a (p \<noteq> []) of
          Some e \<Rightarrow> Inl e
        | None \<Rightarrow> (case add_source env i a p (add_scope p a b) of
            Inl e \<Rightarrow> Inl e
          | Inr b1 \<Rightarrow> (case mount_includes env st (active @ [i]) p (au_includes a) (add_nodes p a b1) of
              Inl e \<Rightarrow> Inl e
            | Inr b2 \<Rightarrow> add_edges p a b2))))"
| "mount_includes env st active p [] b = Inr b"
| "mount_includes env st active p ((name, t) # rest) b = (case target_id t of
     None \<Rightarrow> Inl (IncludeUnresolved (qualify p name) (reference t))
   | Some k \<Rightarrow> (case lookup st k of
       None \<Rightarrow> Inl DanglingDefinition
     | Some c \<Rightarrow>
         if exits_of c = [] then Inl (NoExits (au_name c))
         else (case mountWorkflow env st active k (qualify p name) (add_include p name c b) of
            Inl e \<Rightarrow> Inl e
          | Inr b' \<Rightarrow> mount_includes env st active p rest b')))"
  by pat_completeness auto
termination
proof (relation "measures [\<lambda>x. case x of Inl (env, st, active, i, p, b) \<Rightarrow> card (free_ids st active)
      | Inr (env, st, active, p, incs, b) \<Rightarrow> card (free_ids st active),
    \<lambda>x. case x of Inl _ \<Rightarrow> 0 | Inr (env, st, active, p, incs, b) \<Rightarrow> Suc (length incs)]", goal_cases)
  case (2 env st active i p b a b1)
  then show ?case by (simp add: free_ids_push)
qed simp_all

record compiled =
  cp_workflow :: workflow
  cp_build :: build

definition composition_of :: "build \<Rightarrow> composition" where
  "composition_of b = \<lparr>co_entries = obj_keys (bu_entries b),
     co_exits = map (\<lambda>(n, x). (n, \<lparr>ex_mount = xm_mount x, ex_name = xm_exit x\<rparr>)) (bu_exits b),
     co_scopes = map (\<lambda>(p, s). \<lparr>sc_path = sm_path s, sc_workflow = sm_workflow s, sc_max = sm_max s\<rparr>) (bu_scopes b)\<rparr>"

definition compileWorkflowDefinition :: "compile_env \<Rightarrow> authored list \<Rightarrow> nat \<Rightarrow> (compile_error, compiled) result" where
  "compileWorkflowDefinition env st i = (case lookup st i of
     None \<Rightarrow> Inl DanglingDefinition
   | Some a \<Rightarrow> (case validateAuthoredWorkflow st a False of
       Some e \<Rightarrow> Inl e
     | None \<Rightarrow> (case mountWorkflow env st [] i [] empty_build of
         Inl e \<Rightarrow> Inl e
       | Inr b \<Rightarrow>
           let b' = b\<lparr>bu_mounts := sort_by (compareMounts env) (bu_mounts b),
             bu_sources := sort_by (compareSources env) (bu_sources b)\<rparr> in
           Inr \<lparr>cp_workflow = \<lparr>wf_name = au_name a, wf_contract = au_contract a, wf_start = au_start a, wf_nodes = bu_nodes b', wf_edges = bu_edges b',
               wf_max = au_max a, wf_composition = Some (composition_of b')\<rparr>, cp_build = b'\<rparr>)))"

end
