(* ===== verification/CompiledShape.thy ===== *)
theory CompiledShape
  imports Composition
begin

text \<open>
  The shape of what the compiler builds: from definitions that pass the shape check it makes nodes
  whose ids are paths of identifiers and edges that keep their switches, so that the compiled
  workflow passes the shape check again.
\<close>

section \<open>Paths\<close>

lemma split_on_append: "split_on d (xs @ d # ys) = split_on d xs @ split_on d ys"
proof (induction xs)
  case (Cons x xs)
  obtain w ws where "split_on d xs = w # ws" using split_on_nonempty by (cases "split_on d xs") auto
  then show ?case using Cons by simp
qed simp

lemma split_on_flat: "d \<notin> set xs \<Longrightarrow> split_on d xs = [xs]"
  by (induction xs) auto

lemma path_id_pattern: "node_id_pattern n \<Longrightarrow> path_id n"
  using node_id_flat[of n] by (simp add: path_id_def flat_def split_on_flat)

definition path_ok :: "string \<Rightarrow> bool" where
  "path_ok p \<longleftrightarrow> p = [] \<or> path_id p"

lemma path_id_qualify: "path_ok p \<Longrightarrow> node_id_pattern n \<Longrightarrow> path_id (qualify p n)"
  using path_id_pattern[of n] by (auto simp: qualify_def path_ok_def path_id_def split_on_append)

lemma exit_name_pattern: "node_id_pattern x \<Longrightarrow> node_id_pattern (exit_name x)"
proof -
  assume "node_id_pattern x"
  then obtain c cs where x: "x = c # cs" "is_alpha c \<or> c = CHR ''_''" "list_all (\<lambda>x. is_alnum x \<or> x \<in> set ''_-'') cs"
    by (auto simp: node_id_pattern_def split: list.splits)
  have "is_alpha c \<Longrightarrow> is_alnum c" by (simp add: is_alnum_def)
  moreover have "list_all (\<lambda>x. is_alnum x \<or> x \<in> set ''_-'') ''_piw_exit_''" by code_simp
  ultimately show ?thesis using x by (auto simp: exit_name_def node_id_pattern_def)
qed

lemma slash_free_members: "list_all (\<lambda>s. CHR ''/'' \<notin> set s) object_prototype_members"
  by code_simp

lemma nested_not_inherited: "p \<noteq> [] \<Longrightarrow> qualify p n \<notin> set object_prototype_members"
proof
  assume "p \<noteq> []" and "qualify p n \<in> set object_prototype_members"
  then have "CHR ''/'' \<notin> set (qualify p n)" using slash_free_members by (simp only: list_all_iff) blast
  then show False using \<open>p \<noteq> []\<close> by (simp add: qualify_def)
qed

section \<open>Definitions of the right shape\<close>

definition node_fine :: "string \<Rightarrow> node \<Rightarrow> bool" where
  "node_fine n nd \<longleftrightarrow> path_id n \<and> n \<notin> set object_prototype_members \<and> node_timeout_ok nd"

definition shaped :: "authored \<Rightarrow> bool" where
  "shaped a \<longleftrightarrow> (\<forall>(n, nd) \<in> set (au_nodes a). node_id_pattern n \<and> n \<notin> set object_prototype_members \<and> node_timeout_ok nd) \<and>
     (\<forall>i \<in> set (obj_keys (au_includes a)). node_id_pattern i) \<and> (\<forall>x \<in> set (exits_of a). node_id_pattern (fst x)) \<and>
     (\<forall>e \<in> set (au_edges a). switch_ok e)"

lemma invalid_ok [simp]: "fst (invalid bad m) \<longleftrightarrow> \<not> bad"
  by (simp add: invalid_def)

lemma node_check_shaped:
  "list_all fst (node_id_checks False n nd) \<Longrightarrow> node_id_pattern n \<and> n \<notin> set object_prototype_members \<and> node_timeout_ok nd"
proof -
  assume ok: "list_all fst (node_id_checks False n nd)"
  then have "split_on CHR ''/'' n = [n]" by (intro split_on_single) (simp add: node_id_checks_def Let_def)
  then show ?thesis
    using ok by (auto simp: node_id_checks_def Let_def assertCommonNodeFields_def node_timeout_ok_def split: timeout_spec.splits)
qed

lemma shape_check_shaped:
  assumes "assertValidWorkflowDefinitionShape False a = None"
  shows "shaped a" and "frame_ok (au_name a) (au_contract a) (au_start a) (au_max a)"
proof -
  have checks: "list_all fst (concat (map (\<lambda>(n, nd). node_id_checks False n nd) (au_nodes a)))"
      "list_all fst (concat (map (include_checks (au_nodes a)) (obj_keys (au_includes a))))"
      "list_all fst (concat (map exit_checks (exits_of a)))" "edges_ok (au_edges a)"
    using assms unfolding assertValidWorkflowDefinitionShape_def first_failure_None by (simp_all add: edge_shapes_ok)
  have nodes: "list_all fst (node_id_checks False n nd)" if "(n, nd) \<in> set (au_nodes a)" for n nd
    using checks(1) that by (fastforce simp: list_all_iff)
  have mounts: "list_all fst (include_checks (au_nodes a) i)" if "i \<in> set (obj_keys (au_includes a))" for i
    using checks(2) that by (fastforce simp: list_all_iff)
  have exits: "list_all fst (exit_checks x)" if "x \<in> set (exits_of a)" for x
    using checks(3) that by (fastforce simp: list_all_iff)
  have "node_id_pattern i" if "i \<in> set (obj_keys (au_includes a))" for i
    using mounts[OF that] by (simp add: include_checks_def bad_id_def)
  moreover have "node_id_pattern (fst x)" if "x \<in> set (exits_of a)" for x
    using exits[OF that] by (cases x) (simp add: exit_checks_def bad_id_def)
  ultimately show "shaped a"
    using node_check_shaped[OF nodes] checks(4) unfolding shaped_def edges_ok_def by blast
  show "frame_ok (au_name a) (au_contract a) (au_start a) (au_max a)"
    using assms unfolding assertValidWorkflowDefinitionShape_def first_failure_None
    by (auto simp: frame_ok_def split: option.splits)
qed

section \<open>The compiler keeps the shape\<close>

definition well_built :: "build \<Rightarrow> bool" where
  "well_built b \<longleftrightarrow> (\<forall>(n, nd) \<in> set (bu_nodes b). node_fine n nd) \<and> (\<forall>e \<in> set (bu_edges b). switch_ok e)"

lemma assign_subset: "set (assign k v ob) \<subseteq> insert (k, v) (set ob)"
proof -
  have "set (AList.update k v ob) \<subseteq> insert (k, v) (set ob)" by (induction ob) auto
  then show ?thesis by (auto simp: assign_def obj_put_def)
qed

lemma well_built_assign:
  "well_built b \<Longrightarrow> node_fine n nd \<Longrightarrow> well_built (b\<lparr>bu_nodes := assign n nd (bu_nodes b)\<rparr>)"
  using assign_subset[of n nd "bu_nodes b"] by (auto simp: well_built_def)

lemma well_built_frame [simp]: "well_built (b\<lparr>bu_scopes := s\<rparr>) = well_built b" "well_built (b\<lparr>bu_mounts := m\<rparr>) = well_built b"
  "well_built (b\<lparr>bu_sources := u\<rparr>) = well_built b" "well_built (b\<lparr>bu_entries := n\<rparr>) = well_built b"
  "well_built (b\<lparr>bu_exits := x\<rparr>) = well_built b"
  "well_built (b\<lparr>bu_edges := bu_edges b @ es\<rparr>) = (well_built b \<and> (\<forall>e \<in> set es. switch_ok e))"
  by (auto simp: well_built_def)

lemma transition_fine: "path_id n \<Longrightarrow> n \<notin> set object_prototype_members \<Longrightarrow> node_fine n (transition_node t)"
  by (simp add: node_fine_def node_timeout_ok_def transition_node_def)

lemma well_built_nodes:
  assumes "well_built b" and "path_ok p"
    and "\<forall>(n, nd) \<in> set ns. node_id_pattern n \<and> n \<notin> set object_prototype_members \<and> node_timeout_ok nd"
  shows "well_built (b\<lparr>bu_nodes := fold (\<lambda>(n, nd). assign (qualify p n) nd) ns (bu_nodes b)\<rparr>)"
  using assms
proof (induction ns arbitrary: b)
  case (Cons x ns)
  obtain n nd where x: "x = (n, nd)" by (cases x)
  have "node_fine (qualify p n) nd"
    using Cons.prems(2,3) x path_id_qualify[of p n] nested_not_inherited[of p n]
    by (cases "p = []") (auto simp: node_fine_def qualify_def)
  then have "well_built (b\<lparr>bu_nodes := assign (qualify p n) nd (bu_nodes b)\<rparr>)" by (rule well_built_assign[OF Cons.prems(1)])
  from Cons.IH[OF this Cons.prems(2)] show ?case using Cons.prems(3) x by simp
qed simp

text \<open>Mount names become node ids, so at the root they must not be inherited either.\<close>

definition no_inherited :: "string \<Rightarrow> string list \<Rightarrow> bool" where
  "no_inherited p names \<longleftrightarrow> p = [] \<longrightarrow> set names \<inter> set object_prototype_members = {}"

lemma mount_id_fine:
  assumes "path_ok p" and "node_id_pattern i" and "no_inherited p is" and "i \<in> set is"
  shows "path_id (qualify p i) \<and> qualify p i \<notin> set object_prototype_members"
  using assms path_id_qualify[of p i] nested_not_inherited[of p i]
  by (cases "p = []") (auto simp: no_inherited_def qualify_def)

lemma well_built_exits:
  assumes "well_built b" and "path_id (qualify p i)" and "\<forall>x \<in> set xs. node_id_pattern (fst x)"
  shows "well_built (fold (add_exit p i c) xs b)"
  using assms(1,3)
proof (induction xs arbitrary: b)
  case (Cons x xs)
  obtain y f where x: "x = (y, f)" by (cases x)
  have m: "qualify p i \<noteq> []" "path_ok (qualify p i)" using assms(2) by (auto simp: path_id_def path_ok_def node_id_pattern_def)
  then have "path_id (exit_id (qualify p i) y)" "exit_id (qualify p i) y \<notin> set object_prototype_members"
    using Cons.prems(2) x nested_not_inherited[OF m(1)]
    by (auto simp: exit_id_def intro!: path_id_qualify exit_name_pattern)
  from well_built_assign[OF Cons.prems(1) transition_fine[OF this]] have "well_built (add_exit p i c x b)"
    by (simp add: add_exit_def x Let_def) (auto simp: well_built_def switch_ok_def)
  then show ?case using Cons.IH Cons.prems(2) by simp
qed simp

lemma well_built_include:
  assumes "well_built b" and "path_id (qualify p i) \<and> qualify p i \<notin> set object_prototype_members" and "shaped c"
  shows "well_built (add_include p i c b)"
proof -
  have "well_built (add_entry p i c b)"
    using well_built_assign[OF assms(1) transition_fine[of "qualify p i"]] assms(2)
    by (simp add: add_entry_def Let_def) (auto simp: well_built_def switch_ok_def)
  then have "well_built (fold (add_exit p i c) (exits_of c) (add_entry p i c b))"
    using assms(2,3) by (intro well_built_exits) (auto simp: shaped_def)
  then show ?thesis by (simp add: add_include_def add_mount_def Let_def)
qed

lemma map_result_cons: "map_result f xs = Inr ys \<Longrightarrow> xs \<noteq> [] \<Longrightarrow> ys \<noteq> []"
  by (cases xs) (auto split: sum.splits)

lemma resolve_edge_switch: "resolve_edge p a xs e = Inr e' \<Longrightarrow> switch_ok e \<Longrightarrow> switch_ok e'"
  by (cases e) (auto simp: resolve_edge_def switch_ok_def split: sum.splits dest: map_result_cons)

lemma map_result_all: "map_result f xs = Inr ys \<Longrightarrow> y \<in> set ys \<Longrightarrow> \<exists>x \<in> set xs. f x = Inr y"
  by (induction xs arbitrary: ys) (auto split: sum.splits)

lemma well_built_edges: "add_edges p a b = Inr b' \<Longrightarrow> well_built b \<Longrightarrow> shaped a \<Longrightarrow> well_built b'"
proof -
  assume run: "add_edges p a b = Inr b'" and b: "well_built b" and a: "shaped a"
  obtain es where es: "map_result (resolve_edge p a (bu_exits b)) (au_edges a) = Inr es" "b' = b\<lparr>bu_edges := bu_edges b @ es\<rparr>"
    using run by (auto simp: add_edges_def split: sum.splits)
  have "switch_ok e" if e: "e \<in> set es" for e
    using map_result_all[OF es(1) e] a resolve_edge_switch by (auto simp: shaped_def)
  then show ?thesis using b es(2) by simp
qed

lemma mount_shaped:
  "mountWorkflow env st active i p b = Inr b' \<Longrightarrow> \<forall>a \<in> set st. shaped a \<Longrightarrow> path_ok p \<Longrightarrow>
     (\<And>a. lookup st i = Some a \<Longrightarrow> no_inherited p (obj_keys (au_includes a))) \<Longrightarrow> well_built b \<Longrightarrow> well_built b'"
  "mount_includes env st active p incs b = Inr b' \<Longrightarrow> \<forall>a \<in> set st. shaped a \<Longrightarrow> path_ok p \<Longrightarrow>
     (\<forall>n \<in> set (obj_keys incs). node_id_pattern n) \<Longrightarrow> no_inherited p (obj_keys incs) \<Longrightarrow> well_built b \<Longrightarrow> well_built b'"
proof (induction env st active i p b and env st active p incs b arbitrary: b' and b'
    rule: mountWorkflow_mount_includes.induct)
  case (1 env st active i p b)
  obtain a b1 b2 where a: "lookup st i = Some a" and valid: "i \<notin> set active" "validateAuthoredWorkflow st a (p \<noteq> []) = None"
      and b1: "add_source env i a p (add_scope p a b) = Inr b1"
      and b2: "mount_includes env st (active @ [i]) p (au_includes a) (add_nodes p a b1) = Inr b2"
      and b': "add_edges p a b2 = Inr b'"
    using 1(2) by (auto split: if_splits option.splits sum.splits)
  have shape: "shaped a" using 1(3) a by (auto simp: lookup_def split: if_splits)
  have "well_built b1"
    using b1 1(6) by (auto simp: add_source_def add_scope_def split: if_splits sum.splits option.splits)
  then have "well_built (add_nodes p a b1)"
    using well_built_nodes[OF _ 1(4)] shape by (simp add: add_nodes_def shaped_def)
  then have "well_built b2"
    using 1(1)[OF a valid b1 b2 1(3,4) _ 1(5)[OF a]] shape by (simp add: shaped_def)
  then show ?case by (rule well_built_edges[OF b' _ shape])
next
  case (2 env st active p b)
  then show ?case by simp
next
  case (3 env st active p name t rest b)
  obtain k c where k: "target_id t = Some k" and lookup: "lookup st k = Some c" and c: "exits_of c \<noteq> []"
    using 3(3) by (auto split: option.splits if_splits)
  obtain b1 where b1: "mountWorkflow env st active k (qualify p name) (add_include p name c b) = Inr b1"
      "mount_includes env st active p rest b1 = Inr b'"
    using 3(3) c k lookup by (auto split: sum.splits)
  have shape: "shaped c" using 3(4) lookup by (auto simp: lookup_def split: if_splits)
  have fine: "path_id (qualify p name) \<and> qualify p name \<notin> set object_prototype_members"
    by (rule mount_id_fine[OF 3(5) _ 3(7)]) (use 3(6) in \<open>simp_all add: obj_keys_def\<close>)
  then have m: "path_ok (qualify p name)" "qualify p name \<noteq> []" by (auto simp: path_ok_def path_id_def node_id_pattern_def)
  have "well_built b1"
    using 3(1)[OF k lookup c b1(1) 3(4) m(1)] m(2) well_built_include[OF 3(8) fine shape] by (simp add: no_inherited_def)
  then show ?case
    using 3(2)[OF k lookup c b1(1) b1(2) 3(4,5)] 3(6,7) by (auto simp: obj_keys_def no_inherited_def)
qed

end
