(* ===== verification/CompiledGraph.thy ===== *)
theory CompiledGraph
  imports CompiledShape
begin

text \<open>
  The compiler of includes refines the authored workflows: whatever compiles is a sound graph, node
  ids of different scopes never collide, and a definition that includes itself is refused.
\<close>

section \<open>Paths\<close>

text \<open>\<open>under p x\<close>: the id lies in the scope \<open>p\<close>; \<open>seg p x\<close> is its first segment there.\<close>

definition under :: "string \<Rightarrow> string \<Rightarrow> bool" where
  "under p x \<longleftrightarrow> p = [] \<or> (\<exists>s. x = p @ ''/'' @ s)"

definition seg :: "string \<Rightarrow> string \<Rightarrow> string" where
  "seg p x = takeWhile (\<lambda>c. c \<noteq> CHR ''/'') (if p = [] then x else drop (length p + 1) x)"

lemma takeWhile_noslash: "CHR ''/'' \<notin> set n \<Longrightarrow> takeWhile (\<lambda>c. c \<noteq> CHR ''/'') n = n"
  by (simp add: takeWhile_eq_all_conv) blast

lemma takeWhile_slash: "CHR ''/'' \<notin> set n \<Longrightarrow> takeWhile (\<lambda>c. c \<noteq> CHR ''/'') (n @ CHR ''/'' # s) = n"
  by (induction n) auto

lemma seg_qualify: "CHR ''/'' \<notin> set n \<Longrightarrow> seg p (qualify p n) = n"
  by (simp add: seg_def qualify_def takeWhile_noslash)

lemma under_qualify [simp]: "under p (qualify p n)"
  by (simp add: under_def qualify_def)

lemma qualify_nonempty: "n \<noteq> [] \<Longrightarrow> qualify p n \<noteq> []"
  by (simp add: qualify_def)

lemma qualify_inj: "CHR ''/'' \<notin> set n \<Longrightarrow> CHR ''/'' \<notin> set n' \<Longrightarrow> qualify p n = qualify p n' \<longleftrightarrow> n = n'"
  using seg_qualify by metis

lemma under_nested:
  assumes "flat i" and "under (qualify p i) x"
  shows "under p x" and "seg p x = i" and "x \<noteq> qualify p i"
proof -
  have "qualify p i \<noteq> []" using assms(1) by (simp add: flat_def qualify_nonempty)
  then obtain s where x: "x = qualify p i @ ''/'' @ s" using assms(2) by (auto simp: under_def)
  have "CHR ''/'' \<notin> set i" using assms(1) by (simp add: flat_def)
  then show "under p x" "seg p x = i" "x \<noteq> qualify p i"
    by (simp_all add: x under_def seg_def qualify_def takeWhile_slash)
qed

lemma qualify_proto: "p \<noteq> [] \<Longrightarrow> qualify p n \<noteq> ''__proto__''"
proof
  assume "p \<noteq> []" "qualify p n = ''__proto__''"
  then have "CHR ''/'' \<in> set ''__proto__''" by (metis qualify_def Un_iff list.set_intros(1) set_append)
  then show False by simp
qed

lemma exit_id_under: "m \<noteq> [] \<Longrightarrow> under m (exit_id m x)" "m \<noteq> [] \<Longrightarrow> exit_id m x \<noteq> ''__proto__''"
  by (simp_all add: exit_id_def qualify_proto)

lemma exit_name_noslash: "CHR ''/'' \<notin> set x \<Longrightarrow> CHR ''/'' \<notin> set (exit_name x)"
  by (simp add: exit_name_def)

lemma exit_name_inj: "exit_name x = exit_name y \<longleftrightarrow> x = y"
  by (simp add: exit_name_def)

lemma exit_name_reserved: "starts_with (exit_name x) ''__piw_''"
  by (simp add: exit_name_def starts_with_def)

lemma exit_id_seg: "CHR ''/'' \<notin> set x \<Longrightarrow> seg m (exit_id m x) = exit_name x"
  unfolding exit_id_def by (rule seg_qualify) (rule exit_name_noslash)

lemma exit_id_inj:
  assumes "flat i" "flat j" "flat x" "flat y" "exit_id (qualify p i) x = exit_id (qualify p j) y"
  shows "i = j \<and> x = y"
proof -
  have ne: "qualify p i \<noteq> []" "qualify p j \<noteq> []" using assms by (simp_all add: flat_def qualify_nonempty)
  have "i = j" using under_nested(2)[OF assms(1) exit_id_under(1)[OF ne(1), of x]]
      under_nested(2)[OF assms(2) exit_id_under(1)[OF ne(2), of y]] assms(5) by simp
  then have "exit_name x = exit_name y"
    using exit_id_seg[of x "qualify p i"] exit_id_seg[of y "qualify p j"] assms by (simp add: flat_def)
  then show ?thesis using \<open>i = j\<close> by (simp add: exit_name_inj)
qed

section \<open>Edges\<close>

lemma in_edge_rel: "(u, v) \<in> edge_rel es \<longleftrightarrow> (\<exists>e \<in> set es. edge_from e = u \<and> v \<in> set (edge_targets e))"
  by (auto simp: edge_rel_def targets_of_def)

lemma edge_rel_append: "edge_rel (es @ fs) = edge_rel es \<union> edge_rel fs"
  by (auto simp: in_edge_rel)

lemma reach_left: "(u, v) \<in> (edge_rel es)\<^sup>* \<Longrightarrow> (u, v) \<in> (edge_rel (es @ fs))\<^sup>*"
  by (rule rtrancl_mono[THEN subsetD]) (auto simp: edge_rel_append)

lemma reach_right: "(u, v) \<in> (edge_rel fs)\<^sup>* \<Longrightarrow> (u, v) \<in> (edge_rel (es @ fs))\<^sup>*"
  by (rule rtrancl_mono[THEN subsetD]) (auto simp: edge_rel_append)

definition ends_in :: "edge list \<Rightarrow> string set \<Rightarrow> bool" where
  "ends_in es N \<longleftrightarrow> (\<forall>e \<in> set es. edge_from e \<in> N \<and> set (edge_targets e) \<subseteq> N)"

lemma ends_in_append: "ends_in (es @ fs) N \<longleftrightarrow> ends_in es N \<and> ends_in fs N"
  by (auto simp: ends_in_def)

lemma ends_in_mono: "ends_in es N \<Longrightarrow> N \<subseteq> M \<Longrightarrow> ends_in es M"
  by (fastforce simp: ends_in_def)

section \<open>What a mounted scope contributes\<close>

abbreviation keys :: "'v obj \<Rightarrow> string set" where
  "keys ob \<equiv> set (obj_keys ob)"

definition scope_sound :: "string \<Rightarrow> authored \<Rightarrow> string set \<Rightarrow> edge list \<Rightarrow> bool" where
  "scope_sound p a N E \<longleftrightarrow>
     (\<forall>x \<in> N. under p x \<and> seg p x \<in> keys (au_nodes a) \<union> keys (au_includes a)) \<and>
     qualify p ` (keys (au_nodes a) \<union> keys (au_includes a)) \<subseteq> N \<and>
     ends_in E N \<and> distinct (map edge_from E) \<and>
     (\<forall>n \<in> keys (au_nodes a). qualify p n \<in> edge_from ` set E \<longrightarrow> n \<in> edge_from ` set (au_edges a)) \<and>
     (\<forall>x \<in> N. (qualify p (au_start a), x) \<in> (edge_rel E)\<^sup>*)"

definition exits_known :: "authored list \<Rightarrow> string \<Rightarrow> (string \<times> include_target) list \<Rightarrow> string set \<Rightarrow> edge list \<Rightarrow> bool" where
  "exits_known st p incs N E \<longleftrightarrow> (\<forall>(i, t) \<in> set incs. \<forall>x \<in> set (child_exits st t).
     exit_id (qualify p i) x \<in> N - edge_from ` set E \<and> (qualify p i, exit_id (qualify p i) x) \<in> (edge_rel E)\<^sup>*)"

definition includes_sound ::
    "authored list \<Rightarrow> string \<Rightarrow> (string \<times> include_target) list \<Rightarrow> string set \<Rightarrow> edge list \<Rightarrow> bool" where
  "includes_sound st p incs N E \<longleftrightarrow>
     (\<forall>x \<in> N. under p x \<and> seg p x \<in> keys incs \<and> (qualify p (seg p x), x) \<in> (edge_rel E)\<^sup>*) \<and>
     qualify p ` keys incs \<subseteq> N \<and> ends_in E N \<and> distinct (map edge_from E) \<and> exits_known st p incs N E"

definition include_edges :: "string \<Rightarrow> string \<Rightarrow> authored \<Rightarrow> edge list" where
  "include_edges p i c = (let m = qualify p i in
     EdgeTo m (qualify m (au_start c)) # map (\<lambda>(x, from). EdgeTo (qualify m from) (exit_id m x)) (exits_of c))"

definition include_nodes :: "string \<Rightarrow> string \<Rightarrow> authored \<Rightarrow> string set" where
  "include_nodes p i c = insert (qualify p i) (exit_id (qualify p i) ` keys (exits_of c))"

lemma includes_sound_Nil: "includes_sound st p [] {} []"
  by (simp add: includes_sound_def obj_keys_def ends_in_def exits_known_def)

lemma include_sound:
  assumes a: "flat i" "authored_ok st c" "shape_ok c" "child_of st t = Some c"
    and s: "scope_sound (qualify p i) c N E"
  shows "includes_sound st p [(i, t)] (include_nodes p i c \<union> N) (include_edges p i c @ E)"
proof -
  let ?m = "qualify p i" and ?E = "include_edges p i c @ E" and ?N = "include_nodes p i c \<union> N"
  have m: "?m \<noteq> []" using a(1) by (simp add: flat_def qualify_nonempty)
  have ids: "flat n \<and> \<not> starts_with n ''__piw_''"
    if "n \<in> keys (au_nodes c) \<union> keys (au_includes c) \<union> keys (exits_of c)" for n
    using a(3) that by (auto simp: shape_ok_def has_own_def)
  have start: "au_start c \<in> keys (au_nodes c)" using a(2) by (simp add: authored_ok_def has_own_def)
  have exits: "snd x \<in> keys (au_nodes c) \<and> snd x \<notin> edge_from ` set (au_edges c)" if "x \<in> set (exits_of c)" for x
    using a(2) that by (simp add: authored_ok_def has_own_def)
  have N: "under ?m x" "seg ?m x \<in> keys (au_nodes c) \<union> keys (au_includes c)"
      "(qualify ?m (au_start c), x) \<in> (edge_rel E)\<^sup>*" if "x \<in> N" for x
    using s that unfolding scope_sound_def by blast+
  have E: "ends_in E N" "distinct (map edge_from E)" using s unfolding scope_sound_def by blast+
  have inner: "x \<in> N \<Longrightarrow> under p x \<and> seg p x = i \<and> x \<noteq> ?m" for x
    using under_nested[OF a(1)] N(1) by blast
  have exit_under: "under p (exit_id ?m x) \<and> seg p (exit_id ?m x) = i \<and> exit_id ?m x \<noteq> ?m" for x
    using under_nested[OF a(1) exit_id_under(1)[OF m]] by blast
  have exit_new: "exit_id ?m x \<notin> N" if "x \<in> keys (exits_of c)" for x
  proof
    assume "exit_id ?m x \<in> N"
    then have "exit_name x \<in> keys (au_nodes c) \<union> keys (au_includes c)"
      using N(2)[of "exit_id ?m x"] exit_id_seg[of x ?m] ids[of x] that by (simp add: flat_def)
    then show False using ids[of "exit_name x"] exit_name_reserved[of x] by blast
  qed
  have froms: "edge_from ` set E \<subseteq> N" using E(1) by (auto simp: ends_in_def)
  have qin: "qualify ?m n \<in> N" if "n \<in> keys (au_nodes c)" for n using s that unfolding scope_sound_def by blast
  have entry: "(?m, x) \<in> (edge_rel ?E)\<^sup>*" if "x \<in> N" for x
  proof -
    have "(?m, qualify ?m (au_start c)) \<in> edge_rel ?E"
      unfolding in_edge_rel by (rule bexI[of _ "EdgeTo ?m (qualify ?m (au_start c))"])
        (simp_all add: include_edges_def Let_def edge_targets_def)
    moreover have "(qualify ?m (au_start c), x) \<in> (edge_rel ?E)\<^sup>*"
      using N(3)[OF that] by (rule reach_right)
    ultimately show ?thesis by (rule converse_rtrancl_into_rtrancl)
  qed
  have to_exit: "(?m, exit_id ?m x) \<in> (edge_rel ?E)\<^sup>*" if x: "(x, f) \<in> set (exits_of c)" for x f
  proof -
    have "(?m, qualify ?m f) \<in> (edge_rel ?E)\<^sup>*" using entry qin exits[OF x] by simp
    moreover have "(qualify ?m f, exit_id ?m x) \<in> edge_rel ?E"
      unfolding in_edge_rel using x by (intro bexI[of _ "EdgeTo (qualify ?m f) (exit_id ?m x)"])
        (force simp: include_edges_def Let_def edge_targets_def)+
    ultimately show ?thesis by (rule rtrancl_into_rtrancl)
  qed
  have "ends_in (include_edges p i c) ?N"
    unfolding ends_in_def
  proof
    fix e assume "e \<in> set (include_edges p i c)"
    then consider "e = EdgeTo ?m (qualify ?m (au_start c))"
      | x f where "(x, f) \<in> set (exits_of c)" "e = EdgeTo (qualify ?m f) (exit_id ?m x)"
      by (auto simp: include_edges_def Let_def)
    then show "edge_from e \<in> ?N \<and> set (edge_targets e) \<subseteq> ?N"
    proof cases
      case 1
      then show ?thesis using qin[OF start] by (simp add: edge_targets_def include_nodes_def)
    next
      case (2 x f)
      then have "x \<in> keys (exits_of c)" "qualify ?m f \<in> N" using qin exits[OF 2(1)] by (force simp: obj_keys_def)+
      then show ?thesis using 2(2) by (simp add: edge_targets_def include_nodes_def)
    qed
  qed
  moreover have "ends_in E ?N" using E(1) by (rule ends_in_mono) blast
  ultimately have ends: "ends_in ?E ?N" by (simp add: ends_in_append)
  have "distinct (map edge_from ?E)"
  proof -
    have terminal: "qualify ?m (snd x) \<notin> edge_from ` set E" if "x \<in> set (exits_of c)" for x
      using s exits[OF that] unfolding scope_sound_def by blast
    have "distinct (map (\<lambda>x. qualify ?m (snd x)) (exits_of c))"
    proof -
      have "distinct (map snd (exits_of c))" using a(2) by (simp add: authored_ok_def)
      moreover have "inj_on (qualify ?m) (snd ` set (exits_of c))"
        using exits ids by (intro inj_onI) (auto simp: qualify_inj flat_def)
      ultimately show ?thesis using distinct_map[of "qualify ?m" "map snd (exits_of c)"] by (simp add: o_def)
    qed
    moreover have "?m \<notin> (\<lambda>x. qualify ?m (snd x)) ` set (exits_of c)" using inner qin exits by fastforce
    moreover have "?m \<notin> edge_from ` set E" using inner froms by blast
    moreover have "set (map (\<lambda>x. qualify ?m (snd x)) (exits_of c)) \<inter> set (map edge_from E) = {}"
    proof -
      have "v \<notin> edge_from ` set E" if "v \<in> set (map (\<lambda>x. qualify ?m (snd x)) (exits_of c))" for v
        using that terminal by auto
      then show ?thesis unfolding set_map[of edge_from] by blast
    qed
    moreover have "map edge_from ?E = ?m # map (\<lambda>x. qualify ?m (snd x)) (exits_of c) @ map edge_from E"
      by (auto simp: include_edges_def Let_def)
    ultimately show ?thesis using E(2) by (simp only: distinct.simps distinct_append set_append set_map) blast
  qed
  moreover have "exits_known st p [(i, t)] ?N ?E"
  proof -
    have all: "edge_from ` set ?E = insert ?m ((\<lambda>y. qualify ?m (snd y)) ` set (exits_of c) \<union> edge_from ` set E)"
      by (force simp: include_edges_def Let_def)
    have "exit_id ?m x \<notin> edge_from ` set ?E" if x: "x \<in> keys (exits_of c)" for x
    proof -
      have "exit_id ?m x \<noteq> qualify ?m (snd y)" if "y \<in> set (exits_of c)" for y
        using exit_new[OF x] qin exits[OF that] by metis
      moreover have "exit_id ?m x \<notin> edge_from ` set E" using exit_new[OF x] froms by blast
      ultimately show ?thesis unfolding all using exit_under[of x] by blast
    qed
    moreover have "(?m, exit_id ?m x) \<in> (edge_rel ?E)\<^sup>*" if "x \<in> keys (exits_of c)" for x
      using to_exit that by (auto simp: obj_keys_def)
    ultimately show ?thesis using a(4) by (auto simp: exits_known_def child_exits_def include_nodes_def)
  qed
  moreover have "(?m, x) \<in> (edge_rel ?E)\<^sup>*" if "x \<in> ?N" for x
    using that entry to_exit by (auto simp: include_nodes_def obj_keys_def)
  moreover have "under p x \<and> seg p x = i" if "x \<in> ?N" for x
    using that inner exit_under a(1) by (auto simp: include_nodes_def seg_qualify flat_def)
  ultimately show ?thesis
    using ends by (auto simp: includes_sound_def obj_keys_def include_nodes_def)
qed

lemma reach_single: "(u, v) \<in> edge_rel es \<Longrightarrow> (u, v) \<in> (edge_rel es)\<^sup>*"
  by (rule r_into_rtrancl)

lemma includes_sound_append:
  assumes "includes_sound st p inc M F" and "includes_sound st p incs N E" and "keys inc \<inter> keys incs = {}"
  shows "includes_sound st p (inc @ incs) (M \<union> N) (F @ E)"
proof -
  have seg: "x \<in> M \<Longrightarrow> under p x \<and> seg p x \<in> keys inc \<and> (qualify p (seg p x), x) \<in> (edge_rel F)\<^sup>*"
      "x \<in> N \<Longrightarrow> under p x \<and> seg p x \<in> keys incs \<and> (qualify p (seg p x), x) \<in> (edge_rel E)\<^sup>*" for x
    using assms(1,2) unfolding includes_sound_def by blast+
  have parts: "ends_in F M" "ends_in E N" "distinct (map edge_from F)" "distinct (map edge_from E)"
      "exits_known st p inc M F" "exits_known st p incs N E"
      "qualify p ` keys inc \<subseteq> M" "qualify p ` keys incs \<subseteq> N"
    using assms(1,2) unfolding includes_sound_def by blast+
  have disjoint: "x \<notin> N" if "x \<in> M" for x using seg[of x] assms(3) that by blast
  have froms: "edge_from ` set F \<subseteq> M" "edge_from ` set E \<subseteq> N" using parts(1,2) by (auto simp: ends_in_def)
  have "distinct (map edge_from (F @ E))" using parts(3,4) froms disjoint by fastforce
  moreover have "ends_in (F @ E) (M \<union> N)"
    unfolding ends_in_append using ends_in_mono[OF parts(1)] ends_in_mono[OF parts(2)] by blast
  moreover have "under p x \<and> seg p x \<in> keys (inc @ incs) \<and> (qualify p (seg p x), x) \<in> (edge_rel (F @ E))\<^sup>*"
    if "x \<in> M \<union> N" for x
    using that seg[of x] reach_left[of _ _ F E] reach_right[of _ _ E F] by (auto simp: obj_keys_def)
  moreover have "exits_known st p (inc @ incs) (M \<union> N) (F @ E)"
    unfolding exits_known_def
  proof (intro ballI case_prodI2)
    fix it i t x assume it: "it \<in> set (inc @ incs)" "it = (i, t)" and x: "x \<in> set (child_exits st t)"
    consider "(i, t) \<in> set inc" | "(i, t) \<in> set incs" using it by auto
    then show "exit_id (qualify p i) x \<in> M \<union> N - edge_from ` set (F @ E) \<and>
        (qualify p i, exit_id (qualify p i) x) \<in> (edge_rel (F @ E))\<^sup>*"
    proof cases
      case 1
      then have "exit_id (qualify p i) x \<in> M - edge_from ` set F \<and> (qualify p i, exit_id (qualify p i) x) \<in> (edge_rel F)\<^sup>*"
        using parts(5) x unfolding exits_known_def by blast
      then show ?thesis using disjoint froms(2) reach_left[of _ _ F E] by auto
    next
      case 2
      then have "exit_id (qualify p i) x \<in> N - edge_from ` set E \<and> (qualify p i, exit_id (qualify p i) x) \<in> (edge_rel E)\<^sup>*"
        using parts(6) x unfolding exits_known_def by blast
      then show ?thesis using disjoint froms(1) reach_right[of _ _ E F] by auto
    qed
  qed
  moreover have "qualify p ` keys (inc @ incs) \<subseteq> M \<union> N" 
    unfolding obj_keys_def map_append set_append image_Un using parts(7,8) unfolding obj_keys_def by blast
  ultimately show ?thesis by (simp add: includes_sound_def)
qed

section \<open>Resolved edges\<close>

lemma list_all2_left: "list_all2 P xs ys \<Longrightarrow> x \<in> set xs \<Longrightarrow> \<exists>y \<in> set ys. P x y"
  by (induction rule: list_all2_induct) auto

lemma list_all2_right: "list_all2 P xs ys \<Longrightarrow> y \<in> set ys \<Longrightarrow> \<exists>x \<in> set xs. P x y"
  by (induction rule: list_all2_induct) auto

lemma index_of_Some: "index_of d s = Some k \<Longrightarrow> k < length s \<and> s ! k = d \<and> d \<notin> set (take k s)"
  by (induction s arbitrary: k) (auto split: if_splits)

lemma index_of_append: "d \<notin> set s \<Longrightarrow> index_of d (s @ d # r) = Some (length s)"
  by (induction s) auto

lemma parse_Some:
  assumes "parseExitReference v = Some (m, x)"
  shows "v = m @ ''.'' @ x" and "CHR ''.'' \<in> set v"
proof -
  obtain d where d: "index_of CHR ''.'' v = Some d" "m = take d v" "x = drop (d + 1) v"
    using assms by (auto simp: parseExitReference_def split: option.splits if_splits)
  have "d < length v" "v ! d = CHR ''.''" using index_of_Some[OF d(1)] by simp_all
  then show "v = m @ ''.'' @ x" using d(2,3) id_take_nth_drop[of d v] by simp
  then show "CHR ''.'' \<in> set v" by simp
qed

lemma parse_flat: "flat i \<Longrightarrow> flat x \<Longrightarrow> parseExitReference (i @ ''.'' @ x) = Some (i, x)"
  by (simp add: parseExitReference_def flat_def index_of_append)

text \<open>The node that stands for a from-node or include exit of an authored edge.\<close>

definition rep :: "string \<Rightarrow> authored \<Rightarrow> string \<Rightarrow> string" where
  "rep p a v = (if has_own (au_nodes a) v \<or> has_own (au_includes a) v then qualify p v
     else (case parseExitReference v of None \<Rightarrow> v | Some (m, x) \<Rightarrow> exit_id (qualify p m) x))"

definition exits_fine :: "build \<Rightarrow> bool" where
  "exits_fine b \<longleftrightarrow> (\<forall>e \<in> snd ` set (bu_exits b). xm_node e = exit_id (xm_mount e) (xm_exit e))"

lemma resolveAuthoredFrom_rep:
  assumes "\<forall>e \<in> snd ` set xs. xm_node e = exit_id (xm_mount e) (xm_exit e)"
    and "resolveAuthoredFrom p a xs v = Inr u" and "\<not> has_own (au_includes a) v"
  shows "u = rep p a v"
  using assms find_result_Some[of _ "map snd xs"]
  by (fastforce simp: resolveAuthoredFrom_def rep_def split: if_splits option.splits)

lemma map_result_Inr: "map_result f xs = Inr ys \<Longrightarrow> list_all2 (\<lambda>x y. f x = Inr y) xs ys"
  by (induction xs arbitrary: ys) (auto split: sum.splits)

lemma resolve_edge_rep:
  assumes "\<forall>x \<in> snd ` set xs. xm_node x = exit_id (xm_mount x) (xm_exit x)"
    and "resolve_edge p a xs e = Inr e'" and "\<not> has_own (au_includes a) (edge_from e)"
  shows "edge_from e' = rep p a (edge_from e) \<and> edge_targets e' = map (qualify p) (edge_targets e)"
proof -
  obtain u where u: "resolveAuthoredFrom p a xs (edge_from e) = Inr u"
    using assms(2) by (auto simp: resolve_edge_def split: sum.splits)
  have to: "t' = qualify p t" if "resolveAuthoredTo p a t = Inr t'" for t t'
    using that by (auto simp: resolveAuthoredTo_def split: if_splits)
  have rep: "u = rep p a (edge_from e)" by (rule resolveAuthoredFrom_rep[OF assms(1) u assms(3)])
  show ?thesis
  proof (cases e)
    case (EdgeTo f t)
    then show ?thesis using assms(2) u rep to by (auto simp: resolve_edge_def edge_targets_def split: sum.splits)
  next
    case (EdgeSwitch f on cases)
    let ?f = "\<lambda>(k, t). case resolveAuthoredTo p a t of Inl err \<Rightarrow> Inl err | Inr t' \<Rightarrow> Inr (k, t')"
    obtain cs where cs: "map_result ?f cases = Inr cs" "e' = EdgeSwitch u on cs"
      using assms(2) u EdgeSwitch by (auto simp: resolve_edge_def split: sum.splits)
    have "list_all2 (\<lambda>x y. snd y = qualify p (snd x)) cases cs"
      using map_result_Inr[OF cs(1)] to by (auto elim!: list_all2_mono split: sum.splits)
    then have "map snd cs = map (qualify p) (map snd cases)"
      by (induction rule: list_all2_induct) simp_all
    then show ?thesis using cs(2) rep EdgeSwitch by (simp add: edge_targets_def)
  qed
qed

lemma flat_names:
  assumes "shape_ok a" and "n \<in> keys (au_nodes a) \<union> keys (au_includes a) \<union> keys (exits_of a)"
  shows "flat n" and "\<not> starts_with n ''__piw_''"
  using assms by (auto simp: shape_ok_def has_own_def)

lemma dotted_is_no_name:
  assumes "shape_ok a" and "CHR ''.'' \<in> set v"
  shows "\<not> has_own (au_nodes a) v \<and> \<not> has_own (au_includes a) v"
  using assms flat_names(1)[OF assms(1), of v] by (auto simp: has_own_def flat_def)

text \<open>A source of an authored edge is a node or the exit of an include.\<close>

lemma authored_from_cases:
  assumes "fst (assertAuthoredFrom st a v)" and "shape_ok a"
  obtains "v \<in> keys (au_nodes a)" "rep p a v = qualify p v"
  | i t x where "(i, t) \<in> set (au_includes a)" "x \<in> set (child_exits st t)" "v = i @ ''.'' @ x"
      "rep p a v = exit_id (qualify p i) x"
proof (cases "has_own (au_nodes a) v")
  case True
  then show ?thesis using that(1) by (simp add: has_own_def rep_def)
next
  case False
  then obtain i x t where parsed: "parseExitReference v = Some (i, x)" "obj_get (au_includes a) i = Some t"
      "x \<in> set (child_exits st t)"
    using assms(1) by (auto simp: assertAuthoredFrom_def split: option.splits)
  have v: "v = i @ ''.'' @ x" "CHR ''.'' \<in> set v" by (rule parse_Some[OF parsed(1)])+
  have "(i, t) \<in> set (au_includes a)" using parsed(2) by (simp add: obj_get_def map_of_SomeD)
  moreover have "rep p a v = exit_id (qualify p i) x"
    using dotted_is_no_name[OF assms(2) v(2)] parsed(1) by (simp add: rep_def)
  ultimately show ?thesis using that(2) parsed(3) v(1) by blast
qed

lemma scope_from_includes:
  assumes ok: "authored_ok st a" "shape_ok a" "\<forall>c \<in> set st. shape_ok c"
    and inc: "includes_sound st p (au_includes a) N E"
    and F: "list_all2 (\<lambda>e e'. edge_from e' = rep p a (edge_from e) \<and> edge_targets e' = map (qualify p) (edge_targets e))
      (au_edges a) F"
  shows "scope_sound p a (qualify p ` keys (au_nodes a) \<union> N) (E @ F)"
proof -
  let ?M = "qualify p ` keys (au_nodes a) \<union> N" and ?G = "E @ F"
  have N: "under p x" "seg p x \<in> keys (au_includes a)" "(qualify p (seg p x), x) \<in> (edge_rel E)\<^sup>*" if "x \<in> N" for x
    using inc that unfolding includes_sound_def by blast+
  have E: "ends_in E N" "distinct (map edge_from E)" "exits_known st p (au_includes a) N E"
      "qualify p ` keys (au_includes a) \<subseteq> N"
    using inc unfolding includes_sound_def by blast+
  have known: "exit_id (qualify p i) x \<in> N - edge_from ` set E \<and> (qualify p i, exit_id (qualify p i) x) \<in> (edge_rel E)\<^sup>*"
    if "(i, t) \<in> set (au_includes a)" "x \<in> set (child_exits st t)" for i t x
    using E(3) that unfolding exits_known_def by blast
  have froms: "edge_from ` set E \<subseteq> N" using E(1) by (auto simp: ends_in_def)
  have apart: "qualify p n \<notin> N" if "n \<in> keys (au_nodes a)" for n
  proof
    assume "qualify p n \<in> N"
    then have "n \<in> keys (au_includes a)"
      using N(2) flat_names(1)[OF ok(2)] that seg_qualify[of n p] by (fastforce simp: flat_def)
    then show False using ok(2) that by (auto simp: shape_ok_def has_own_def)
  qed
  have maps: "map edge_from F = map (\<lambda>e. rep p a (edge_from e)) (au_edges a)"
    using F by (induction rule: list_all2_induct) simp_all
  have source: "fst (assertAuthoredFrom st a (edge_from e))"
      "\<forall>t \<in> set (edge_targets e). has_own (au_nodes a) t \<or> has_own (au_includes a) t" if "e \<in> set (au_edges a)" for e
    using ok(1) that by (simp_all add: authored_ok_def)
  have exit_flat: "flat x" if "x \<in> set (child_exits st t)" for x t
  proof -
    obtain c where c: "child_of st t = Some c" "x \<in> keys (exits_of c)"
      using \<open>x \<in> set (child_exits st t)\<close> by (cases "child_of st t") (auto simp: child_exits_def)
    then have "c \<in> set st" by (auto simp: child_of_def lookup_def split: option.splits if_splits)
    then show ?thesis using flat_names(1)[of c x] ok(3) c(2) by blast
  qed
  have rep_in: "rep p a (edge_from e) \<in> ?M \<and> rep p a (edge_from e) \<notin> edge_from ` set E" if "e \<in> set (au_edges a)" for e
    using source(1)[OF that] ok(2)
    by (rule authored_from_cases[where p = p]) (use apart froms known in auto)
  have rep_inj: "u = v" if "rep p a u = rep p a v" "fst (assertAuthoredFrom st a u)" "fst (assertAuthoredFrom st a v)" for u v
  proof -
    have flat_node: "CHR ''/'' \<notin> set n" if "n \<in> keys (au_nodes a)" for n
      using flat_names(1)[OF ok(2), of n] that by (simp add: flat_def)
    have flat_mount: "flat i" if "(i, t) \<in> set (au_includes a)" for i t
      using flat_names(1)[OF ok(2), of i] that by (force simp: obj_keys_def)
    show ?thesis
      using that(2) ok(2)
    proof (rule authored_from_cases[where p = p])
      assume u: "u \<in> keys (au_nodes a)" "rep p a u = qualify p u"
      show ?thesis
        using that(3) ok(2)
      proof (rule authored_from_cases[where p = p])
        assume "v \<in> keys (au_nodes a)" "rep p a v = qualify p v"
        then show ?thesis using u that(1) qualify_inj flat_node by simp
      next
        fix i t x assume "(i, t) \<in> set (au_includes a)" "x \<in> set (child_exits st t)"
          "rep p a v = exit_id (qualify p i) x"
        then show ?thesis using u(2) that(1) apart[OF u(1)] known[of i t x] by simp
      qed
    next
      fix i t x assume u: "(i, t) \<in> set (au_includes a)" "x \<in> set (child_exits st t)" "u = i @ ''.'' @ x"
        "rep p a u = exit_id (qualify p i) x"
      show ?thesis
        using that(3) ok(2)
      proof (rule authored_from_cases[where p = p])
        assume "v \<in> keys (au_nodes a)" "rep p a v = qualify p v"
        then show ?thesis using u(4) that(1) apart[of v] known[OF u(1,2)] by simp
      next
        fix j s y assume "(j, s) \<in> set (au_includes a)" "y \<in> set (child_exits st s)" "v = j @ ''.'' @ y"
          "rep p a v = exit_id (qualify p j) y"
        then show ?thesis using u that(1) exit_id_inj[of i j x y p] flat_mount exit_flat by metis
      qed
    qed
  qed
  have "distinct (map edge_from ?G)"
  proof -
    have "distinct (map edge_from F)"
      unfolding maps using ok(1) source(1) rep_inj
      by (auto simp: distinct_map authored_ok_def inj_on_def)
    moreover have "set (map edge_from E) \<inter> set (map edge_from F) = {}"
      unfolding maps set_map disjoint_iff using rep_in by blast
    ultimately show ?thesis using E(2) by simp
  qed
  moreover have "ends_in ?G ?M"
    unfolding ends_in_append
  proof
    show "ends_in E ?M" using E(1) by (rule ends_in_mono) blast
    have "edge_from f \<in> ?M \<and> set (edge_targets f) \<subseteq> ?M" if "f \<in> set F" for f
    proof -
      obtain e where e: "e \<in> set (au_edges a)" "edge_from f = rep p a (edge_from e)"
          "edge_targets f = map (qualify p) (edge_targets e)"
        using list_all2_right[OF F \<open>f \<in> set F\<close>] by blast
      then show ?thesis using rep_in[OF e(1)] source(2)[OF e(1)] E(4) by (auto simp: has_own_def)
    qed
    then show "ends_in F ?M" by (simp add: ends_in_def)
  qed
  moreover have "n \<in> edge_from ` set (au_edges a)" if n: "n \<in> keys (au_nodes a)" "qualify p n \<in> edge_from ` set ?G" for n
  proof -
    have "qualify p n \<in> set (map edge_from F)" using n apart froms by auto
    then obtain e where e: "e \<in> set (au_edges a)" "rep p a (edge_from e) = qualify p n" unfolding maps by auto
    have "fst (assertAuthoredFrom st a n)" "rep p a n = qualify p n"
      using n(1) by (simp_all add: assertAuthoredFrom_def has_own_def rep_def)
    then have "edge_from e = n" using rep_inj source(1)[OF e(1)] e(2) by metis
    then show ?thesis using e(1) by blast
  qed
  moreover have reached: "(qualify p (au_start a), rep p a v) \<in> (edge_rel ?G)\<^sup>*"
    if "(au_start a, v) \<in> (edge_rel (authored_edges st a))\<^sup>*" for v
    using that
  proof (induction rule: rtrancl_induct)
    case base
    then show ?case using ok(1) by (simp add: rep_def authored_ok_def)
  next
    case (step u v)
    then obtain e where e: "e \<in> set (authored_edges st a)" "edge_from e = u" "v \<in> set (edge_targets e)"
      by (auto simp: in_edge_rel)
    consider "e \<in> set (au_edges a)" | i t where "(i, t) \<in> set (au_includes a)" "e = include_edge st (i, t)"
      using e(1) by (auto simp: authored_edges_def)
    then have "(rep p a u, rep p a v) \<in> (edge_rel ?G)\<^sup>*"
    proof cases
      case 1
      then obtain f where f: "f \<in> set F" "edge_from f = rep p a u" "edge_targets f = map (qualify p) (edge_targets e)"
        using list_all2_left[OF F 1] e(2) by blast
      have "rep p a v = qualify p v" using source(2)[OF 1] e(3) by (auto simp: rep_def)
      then have "(rep p a u, rep p a v) \<in> edge_rel F"
        unfolding in_edge_rel using f e(3) by (intro bexI[of _ f]) auto
      then show ?thesis by (intro reach_right) blast
    next
      case (2 i t)
      then obtain x where x: "u = i" "v = i @ ''.'' @ x" "x \<in> set (child_exits st t)"
        using e(2,3) by (auto simp: include_edge_def edge_targets_def)
      have i: "i \<in> keys (au_includes a)" using 2(1) by (force simp: obj_keys_def)
      then have "rep p a u = qualify p i" using x(1) by (simp add: rep_def has_own_def)
      moreover have "rep p a v = exit_id (qualify p i) x"
        using x(2) parse_flat[of i x] flat_names(1)[OF ok(2), of i] exit_flat[OF x(3)] i dotted_is_no_name[OF ok(2), of v]
        by (simp add: rep_def)
      ultimately show ?thesis using known[OF 2(1) x(3)] reach_left[of _ _ E F] by simp
    qed
    then show ?case using step.IH by (rule rtrancl_trans[rotated])
  qed
  moreover have "(qualify p (au_start a), x) \<in> (edge_rel ?G)\<^sup>*" if "x \<in> ?M" for x
  proof -
    have names: "(qualify p (au_start a), qualify p n) \<in> (edge_rel ?G)\<^sup>*"
      if "n \<in> keys (au_nodes a) \<union> keys (au_includes a)" for n
    proof -
      have "(au_start a, n) \<in> (edge_rel (authored_edges st a))\<^sup>*" "rep p a n = qualify p n"
        using ok(1) that by (auto simp: authored_ok_def rep_def has_own_def)
      then show ?thesis using reached[of n] by simp
    qed
    consider n where "n \<in> keys (au_nodes a)" "x = qualify p n" | "x \<in> N" using \<open>x \<in> ?M\<close> by blast
    then show ?thesis
    proof cases
      case 2
      have "(qualify p (au_start a), qualify p (seg p x)) \<in> (edge_rel ?G)\<^sup>*" using names[of "seg p x"] N(2)[OF 2] by blast
      moreover have "(qualify p (seg p x), x) \<in> (edge_rel ?G)\<^sup>*" by (rule reach_left[OF N(3)[OF 2]])
      ultimately show ?thesis by (rule rtrancl_trans)
    qed (use names in auto)
  qed
  moreover have "under p x \<and> seg p x \<in> keys (au_nodes a) \<union> keys (au_includes a)" if "x \<in> ?M" for x
    using that N flat_names(1)[OF ok(2)] seg_qualify[of _ p] by (fastforce simp: flat_def)
  moreover have "qualify p ` (keys (au_nodes a) \<union> keys (au_includes a)) \<subseteq> ?M" using E(4) by blast
  ultimately show ?thesis unfolding scope_sound_def by blast
qed

section \<open>The compiler builds such scopes\<close>

definition grows :: "build \<Rightarrow> build \<Rightarrow> string set \<Rightarrow> edge list \<Rightarrow> bool" where
  "grows b b' N E \<longleftrightarrow> keys (bu_nodes b') = keys (bu_nodes b) \<union> N \<and> bu_edges b' = bu_edges b @ E"

lemma grows_trans: "grows b c M F \<Longrightarrow> grows c d N E \<Longrightarrow> grows b d (M \<union> N) (F @ E)"
  by (auto simp: grows_def)

lemma keys_assign: "k \<noteq> ''__proto__'' \<Longrightarrow> keys (assign k v ob) = insert k (keys ob)"
proof -
  have "set (map fst (AList.update k v ob)) = insert k (set (map fst ob))" by (simp add: update_keys insert_absorb)
  then show ?thesis if "k \<noteq> ''__proto__''" using that by (simp add: assign_def obj_keys_def obj_put_def)
qed

lemma values_assign: "snd ` set (assign k v ob) \<subseteq> insert v (snd ` set ob)"
proof -
  have "snd ` set (AList.update k v ob) \<subseteq> insert v (snd ` set ob)" by (induction ob) auto
  then show ?thesis by (auto simp: assign_def obj_put_def)
qed

lemma add_nodes_grows:
  assumes "\<forall>n \<in> keys (au_nodes a). qualify p n \<noteq> ''__proto__''"
  shows "grows b (add_nodes p a b) (qualify p ` keys (au_nodes a)) [] \<and> bu_exits (add_nodes p a b) = bu_exits b"
proof -
  have "keys (fold (\<lambda>(n, nd). assign (qualify p n) nd) ns ob) = keys ob \<union> qualify p ` keys ns"
    if "\<forall>n \<in> keys ns. qualify p n \<noteq> ''__proto__''" for ns and ob :: "node obj"
    using that by (induction ns arbitrary: ob) (auto simp: keys_assign obj_keys_def[of "_ # _"] obj_keys_def[of "[]"] simp flip: obj_keys_def)
  then show ?thesis using assms by (simp add: grows_def add_nodes_def)
qed

lemma add_include_grows:
  assumes "flat i" and "qualify p i \<noteq> ''__proto__''" and "exits_fine b"
  shows "grows b (add_include p i c b) (include_nodes p i c) (include_edges p i c) \<and> exits_fine (add_include p i c b)"
proof -
  let ?m = "qualify p i"
  have m: "?m \<noteq> []" using assms(1) by (simp add: flat_def qualify_nonempty)
  have entry: "grows b (add_entry p i c b) {?m} [EdgeTo ?m (qualify ?m (au_start c))] \<and> exits_fine (add_entry p i c b)"
    using assms(2,3) by (simp add: add_entry_def Let_def grows_def keys_assign exits_fine_def)
  have exits: "grows d (fold (add_exit p i c) xs d) (exit_id ?m ` keys xs)
      (map (\<lambda>(x, from). EdgeTo (qualify ?m from) (exit_id ?m x)) xs) \<and> exits_fine (fold (add_exit p i c) xs d)"
    if "exits_fine d" for xs d
    using that
  proof (induction xs arbitrary: d)
    case Nil
    then show ?case by (simp add: grows_def obj_keys_def)
  next
    case (Cons x xs)
    obtain y f where x: "x = (y, f)" by (cases x)
    have one: "grows d (add_exit p i c x d) {exit_id ?m y} [EdgeTo (qualify ?m f) (exit_id ?m y)]"
      using exit_id_under(2)[OF m] by (simp add: add_exit_def x Let_def grows_def keys_assign)
    have "exits_fine (add_exit p i c x d)"
      using Cons.prems values_assign
      unfolding exits_fine_def add_exit_def x Let_def by (fastforce simp: subset_iff)
    then show ?case
      using Cons.IH grows_trans[OF one] by (simp add: x obj_keys_def)
  qed
  have frame: "grows d (add_mount p i c d) {} [] \<and> (exits_fine d \<longrightarrow> exits_fine (add_mount p i c d))" for d
    by (simp add: add_mount_def Let_def grows_def exits_fine_def)
  have "grows b (add_include p i c b) (({?m} \<union> exit_id ?m ` keys (exits_of c)) \<union> {})
      (([EdgeTo ?m (qualify ?m (au_start c))] @
        map (\<lambda>(x, from). EdgeTo (qualify ?m from) (exit_id ?m x)) (exits_of c)) @ [])"
    unfolding add_include_def using entry exits[of "add_entry p i c b"] frame by (blast intro: grows_trans)
  then show ?thesis
    using entry exits[of "add_entry p i c b"] frame
    by (simp add: add_include_def include_nodes_def include_edges_def Let_def)
qed

definition good :: "authored list \<Rightarrow> bool" where
  "good st \<longleftrightarrow> (\<forall>a \<in> set st. shape_ok a \<and> distinct (obj_keys (au_includes a)))"

definition no_proto :: "string \<Rightarrow> (string \<times> include_target) list \<Rightarrow> bool" where
  "no_proto p incs \<longleftrightarrow> (p = [] \<longrightarrow> ''__proto__'' \<notin> keys incs)"

lemma no_proto_qualify: "no_proto p incs \<Longrightarrow> i \<in> keys incs \<Longrightarrow> qualify p i \<noteq> ''__proto__''"
  using qualify_proto[of p i] by (cases "p = []") (auto simp: no_proto_def qualify_def)

lemma lookup_in: "lookup st i = Some a \<Longrightarrow> a \<in> set st"
  by (auto simp: lookup_def split: if_splits)

lemma mount_sound:
  "lookup st i = Some a \<Longrightarrow> mountWorkflow env st active i p b = Inr b' \<Longrightarrow> good st \<Longrightarrow>
     no_proto p (au_includes a) \<Longrightarrow> exits_fine b \<Longrightarrow>
     \<exists>N E. grows b b' N E \<and> scope_sound p a N E \<and> exits_fine b' \<and> authored_ok st a"
  "mount_includes env st active p incs b = Inr b' \<Longrightarrow> good st \<Longrightarrow> distinct (obj_keys incs) \<Longrightarrow>
     (\<forall>n \<in> keys incs. flat n) \<Longrightarrow> no_proto p incs \<Longrightarrow> exits_fine b \<Longrightarrow>
     \<exists>N E. grows b b' N E \<and> includes_sound st p incs N E \<and> exits_fine b'"
proof (induction env st active i p b and env st active p incs b arbitrary: a b' and b'
    rule: mountWorkflow_mount_includes.induct)
  case (1 env st active i p b)
  note a = 1(2)
  obtain b1 b2 where valid: "i \<notin> set active" "validateAuthoredWorkflow st a (p \<noteq> []) = None"
      and b1: "add_source env i a p (add_scope p a b) = Inr b1"
      and b2: "mount_includes env st (active @ [i]) p (au_includes a) (add_nodes p a b1) = Inr b2"
      and b': "add_edges p a b2 = Inr b'"
    using 1(3) a by (auto split: if_splits option.splits sum.splits)
  have shape: "shape_ok a" "distinct (obj_keys (au_includes a))" "\<forall>c \<in> set st. shape_ok c"
    using 1(4) lookup_in[OF a] by (auto simp: good_def)
  have ok: "authored_ok st a" by (rule validateAuthoredWorkflow_ok[OF valid(2)])
  have b1_frame: "bu_nodes b1 = bu_nodes b" "bu_edges b1 = bu_edges b" "bu_exits b1 = bu_exits b"
    using b1 by (auto simp: add_source_def add_scope_def split: if_splits sum.splits option.splits)
  have "qualify p n \<noteq> ''__proto__''" if "n \<in> keys (au_nodes a)" for n
    using that shape(1) qualify_proto[of p n]
    by (cases "p = []") (auto simp: qualify_def shape_ok_def has_own_def object_prototype_members_def)
  then have nodes: "grows b1 (add_nodes p a b1) (qualify p ` keys (au_nodes a)) []"
      "bu_exits (add_nodes p a b1) = bu_exits b1" using add_nodes_grows[of a p b1] by blast+
  have fine: "exits_fine (add_nodes p a b1)" using 1(6) nodes(2) b1_frame(3) by (simp add: exits_fine_def)
  obtain N E where inc: "grows (add_nodes p a b1) b2 N E" "includes_sound st p (au_includes a) N E" "exits_fine b2"
    using 1(1)[OF a valid b1 b2 1(4) shape(2) _ 1(5) fine] flat_names(1)[OF shape(1)] by blast
  obtain F where F: "map_result (resolve_edge p a (bu_exits b2)) (au_edges a) = Inr F" "b' = b2\<lparr>bu_edges := bu_edges b2 @ F\<rparr>"
    using b' by (auto simp: add_edges_def split: sum.splits)
  have plain: "\<not> has_own (au_includes a) (edge_from e)" if "e \<in> set (au_edges a)" for e
  proof -
    have "fst (assertAuthoredFrom st a (edge_from e))" using ok that by (simp add: authored_ok_def)
    then show ?thesis
      using shape(1)
    proof (rule authored_from_cases[where p = p])
      assume "edge_from e \<in> keys (au_nodes a)"
      then show ?thesis using shape(1) by (simp add: shape_ok_def has_own_def)
    next
      fix j t x assume "edge_from e = j @ ''.'' @ x"
      then show ?thesis using dotted_is_no_name[OF shape(1), of "edge_from e"] by simp
    qed
  qed
  have exits: "\<forall>x \<in> snd ` set (bu_exits b2). xm_node x = exit_id (xm_mount x) (xm_exit x)"
    using inc(3) by (simp add: exits_fine_def)
  have "list_all2 (\<lambda>e e'. edge_from e' = rep p a (edge_from e) \<and> edge_targets e' = map (qualify p) (edge_targets e))
      (au_edges a) F"
    using map_result_Inr[OF F(1)]
  proof (rule list.rel_mono_strong)
    fix e e' assume "e \<in> set (au_edges a)" "resolve_edge p a (bu_exits b2) e = Inr e'"
    then show "edge_from e' = rep p a (edge_from e) \<and> edge_targets e' = map (qualify p) (edge_targets e)"
      using resolve_edge_rep[OF exits] plain by blast
  qed
  then have "scope_sound p a (qualify p ` keys (au_nodes a) \<union> N) (E @ F)"
    by (rule scope_from_includes[OF ok shape(1,3) inc(2)])
  moreover have "grows b b' (qualify p ` keys (au_nodes a) \<union> N) (E @ F)"
    using nodes(1) inc(1) b1_frame F(2) by (auto simp: grows_def)
  moreover have "exits_fine b'" using inc(3) F(2) by (simp add: exits_fine_def)
  ultimately show ?case using ok by blast
next
  case (2 env st active p b)
  then show ?case using includes_sound_Nil[of st p] by (force simp: grows_def)
next
  case (3 env st active p name t rest b)
  obtain k c where k: "target_id t = Some k" and lookup: "lookup st k = Some c" and c: "exits_of c \<noteq> []"
    using 3(3) by (auto split: option.splits if_splits)
  then have child: "child_of st t = Some c" by (simp add: child_of_def)
  have named: "flat name" "qualify p name \<noteq> ''__proto__''"
    using 3(6) no_proto_qualify[OF 3(7), of name] by (simp_all add: obj_keys_def)
  obtain b1 where b1: "mountWorkflow env st active k (qualify p name) (add_include p name c b) = Inr b1"
      "mount_includes env st active p rest b1 = Inr b'"
    using 3(3) c k lookup by (auto split: sum.splits)
  note added = add_include_grows[OF named 3(8), of c]
  have m: "qualify p name \<noteq> []" using named(1) by (simp add: flat_def qualify_nonempty)
  have shape: "shape_ok c" "distinct (obj_keys (au_includes c))" using 3(4) lookup_in[OF lookup] by (auto simp: good_def)
  have "no_proto (qualify p name) (au_includes c)" using m by (simp add: no_proto_def)
  then obtain N E where child_mounted: "grows (add_include p name c b) b1 N E" "scope_sound (qualify p name) c N E"
      "exits_fine b1" "authored_ok st c"
    using 3(1)[OF k lookup c lookup b1(1) 3(4) _ conjunct2[OF added]] by blast
  obtain M F where rest: "grows b1 b' M F" "includes_sound st p rest M F" "exits_fine b'"
    using 3(2)[OF k lookup c b1(1) b1(2) 3(4) _ _ _ child_mounted(3)] 3(5-7) by (auto simp: obj_keys_def no_proto_def)
  have one: "includes_sound st p [(name, t)] (include_nodes p name c \<union> N) (include_edges p name c @ E)"
    by (rule include_sound[OF named(1) child_mounted(4) shape(1) child child_mounted(2)])
  have "includes_sound st p ((name, t) # rest) (include_nodes p name c \<union> N \<union> M) ((include_edges p name c @ E) @ F)"
    using includes_sound_append[OF one rest(2)] 3(5) by (simp add: obj_keys_def)
  moreover have "grows b b' (include_nodes p name c \<union> N \<union> M) ((include_edges p name c @ E) @ F)"
    using grows_trans[OF grows_trans[OF conjunct1[OF added] child_mounted(1)] rest(1)] .
  ultimately show ?case using rest(3) by blast
qed

section \<open>Compiled workflows are sound\<close>

text \<open>
  C13: What compiles is a sound workflow.  Suppose every definition in reach passes the shape check of
  defineWorkflow, and no include of the workflow itself is named after a member every object inherits
  (the shape check lets such a name pass, and then the compiled graph is refused).  If the compiler
  accepts the workflow, the flat one it builds passes validateWorkflowDefinition: its node ids are
  paths of identifiers, every edge, switch case and start leads to a node, no node has two outgoing
  edges although scopes are spliced into each other, and every node, entry and exit of every nested
  include can be reached.
\<close>

theorem compiled_graph_is_sound:
  assumes "compileWorkflowDefinition env st i = Inr c"
    and "\<forall>a \<in> set st. assertValidWorkflowDefinitionShape False a = None \<and> distinct (obj_keys (au_includes a))"
    and "set (obj_keys (au_includes (st ! i))) \<inter> set object_prototype_members = {}"
  shows "validateWorkflowDefinition (cp_workflow c) = None"
proof -
  obtain a b where a: "lookup st i = Some a" and b: "mountWorkflow env st [] i [] empty_build = Inr b"
      and c: "wf_start (cp_workflow c) = au_start a" "wf_nodes (cp_workflow c) = bu_nodes b" "wf_edges (cp_workflow c) = bu_edges b"
      "wf_name (cp_workflow c) = au_name a" "wf_contract (cp_workflow c) = au_contract a" "wf_max (cp_workflow c) = au_max a"
    using assms(1) by (auto simp: compileWorkflowDefinition_def Let_def split: option.splits sum.splits)
  have "a \<in> set st" "st ! i = a" using a by (auto simp: lookup_def split: if_splits)
  then have frame: "frame_ok (au_name a) (au_contract a) (au_start a) (au_max a)" and root: "no_inherited [] (obj_keys (au_includes a))"
    using assms(2,3) shape_check_shaped(2) by (auto simp: no_inherited_def)
  have "good st" using assms(2) shape_check_ok by (simp add: good_def)
  moreover have "no_proto [] (au_includes a)"
    using root by (auto simp: no_proto_def no_inherited_def object_prototype_members_def)
  moreover have "exits_fine empty_build" by (simp add: exits_fine_def empty_build_def)
  ultimately obtain N E where s: "grows empty_build b N E" "scope_sound [] a N E" "authored_ok st a"
    using mount_sound(1)[OF a b] by blast
  have graph: "keys (bu_nodes b) = N" "bu_edges b = E" using s(1) by (simp_all add: grows_def empty_build_def obj_keys_def)
  have start: "au_start a \<in> N" using s(2,3) by (auto simp: scope_sound_def authored_ok_def has_own_def qualify_def)
  have reached: "(au_start a, x) \<in> (edge_rel E)\<^sup>*" if "x \<in> N" for x
    using s(2) that by (simp add: scope_sound_def qualify_def)
  have ends: "ends_in E N" "distinct (map edge_from E)" using s(2) by (simp_all add: scope_sound_def)
  have "well_built b"
    using mount_shaped(1)[OF b] assms(2) shape_check_shaped(1) root a by (simp add: path_ok_def well_built_def empty_build_def)
  moreover have "bu_nodes b \<noteq> []" using start graph(1) by (auto simp: obj_keys_def)
  ultimately have nodes: "nodes_ok (bu_nodes b)" and switches: "\<forall>e \<in> set (bu_edges b). switch_ok e"
    by (auto simp: well_built_def nodes_ok_def node_fine_def)
  then have "[] \<notin> keys (bu_nodes b)" by (auto simp: nodes_ok_def obj_keys_def path_id_def node_id_pattern_def)
  then have "edges_ok (bu_edges b)" using switches ends(1) graph by (auto simp: edges_ok_def ends_in_def)
  then have "graph_ok (cp_workflow c)"
    using graph c frame nodes start reached ends by (auto simp: graph_ok_def has_own_def ends_in_def)
  then show ?thesis by (simp add: validate_graph_ok)
qed

section \<open>Include cycles\<close>

text \<open>Definition \<open>j\<close> is included by definition \<open>i\<close>.\<close>

definition include_rel :: "authored list \<Rightarrow> (nat \<times> nat) set" where
  "include_rel st = {(i, j). \<exists>a. lookup st i = Some a \<and> Some j \<in> target_id ` snd ` set (au_includes a)}"

lemma include_relI: "lookup st i = Some a \<Longrightarrow> (n, t) \<in> set (au_includes a) \<Longrightarrow> target_id t = Some j \<Longrightarrow> (i, j) \<in> include_rel st"
  by (force simp: include_rel_def)

text \<open>Consecutive definitions of a stack include each other.\<close>

fun chained :: "(nat \<times> nat) set \<Rightarrow> nat list \<Rightarrow> bool" where
  "chained r (i # j # js) = ((i, j) \<in> r \<and> chained r (j # js))"
| "chained r js = True"

lemma chained_append: "chained r (js @ [i]) \<Longrightarrow> (i, j) \<in> r \<Longrightarrow> chained r (js @ [i, j])"
  by (induction r js rule: chained.induct) auto

lemma chained_dropWhile: "chained r js \<Longrightarrow> chained r (dropWhile p js)"
  by (induction r js rule: chained.induct) (auto split: if_splits)

lemma chained_rtrancl: "chained r (i # js) \<Longrightarrow> j \<in> set js \<Longrightarrow> (i, j) \<in> r\<^sup>+"
  by (induction js arbitrary: i) (auto intro: trancl_into_trancl2)

text \<open>Everything a mounted definition reaches along includes is off the stack.\<close>

lemma mount_acyclic:
  "mountWorkflow env st active i p b = Inr b' \<Longrightarrow> (i, j) \<in> (include_rel st)\<^sup>* \<Longrightarrow>
     j \<notin> set active \<and> (j, j) \<notin> (include_rel st)\<^sup>+"
  "mount_includes env st active p incs b = Inr b' \<Longrightarrow> (n, u) \<in> set incs \<Longrightarrow> target_id u = Some k \<Longrightarrow>
     (k, j) \<in> (include_rel st)\<^sup>* \<Longrightarrow> j \<notin> set active \<and> (j, j) \<notin> (include_rel st)\<^sup>+"
proof (induction env st active i p b and env st active p incs b arbitrary: b' j and b' j n u k
    rule: mountWorkflow_mount_includes.induct)
  case (1 env st active i p b)
  obtain a b1 b2 where run: "lookup st i = Some a" "i \<notin> set active" "validateAuthoredWorkflow st a (p \<noteq> []) = None"
      "add_source env i a p (add_scope p a b) = Inr b1"
      "mount_includes env st (active @ [i]) p (au_includes a) (add_nodes p a b1) = Inr b2"
    using 1(2) by (auto split: if_splits option.splits sum.splits)
  have below: "l \<notin> set active \<and> l \<noteq> i \<and> (l, l) \<notin> (include_rel st)\<^sup>+" if "(i, k) \<in> include_rel st" "(k, l) \<in> (include_rel st)\<^sup>*" for k l
  proof -
    obtain n t where "(n, t) \<in> set (au_includes a)" "target_id t = Some k"
      using \<open>(i, k) \<in> include_rel st\<close> run(1) by (auto simp: include_rel_def)
    then show ?thesis using 1(1)[OF run(1-5)] \<open>(k, l) \<in> (include_rel st)\<^sup>*\<close> by fastforce
  qed
  have "(i, i) \<notin> (include_rel st)\<^sup>+" using below tranclD[of i i] by metis
  moreover consider "j = i" | k where "(i, k) \<in> include_rel st" "(k, j) \<in> (include_rel st)\<^sup>*"
    using 1(3) converse_rtranclE by metis
  ultimately show ?case using below run(2) by cases auto
next
  case (2 env st active p b)
  then show ?case by simp
next
  case (3 env st active p name t rest b)
  obtain l c where l: "target_id t = Some l" "lookup st l = Some c" "exits_of c \<noteq> []"
    using 3(3) by (auto split: option.splits if_splits)
  obtain b1 where b1: "mountWorkflow env st active l (qualify p name) (add_include p name c b) = Inr b1"
      "mount_includes env st active p rest b1 = Inr b'"
    using 3(3) l by (auto split: sum.splits)
  show ?case
  proof (cases "(n, u) \<in> set rest")
    case True
    then show ?thesis using 3(2)[OF l b1(1) b1(2) _ 3(5,6)] by blast
  next
    case False
    then have "k = l" using 3(4,5) l(1) by auto
    then show ?thesis using 3(1)[OF l b1(1)] 3(6) by blast
  qed
qed

text \<open>A reported cycle: names of definitions each of which includes the next, the last one the first.\<close>

definition genuine_cycle :: "authored list \<Rightarrow> string list \<Rightarrow> bool" where
  "genuine_cycle st names \<longleftrightarrow> (\<exists>j js. chained (include_rel st) (j # js @ [j]) \<and>
     names = map (\<lambda>k. au_name (st ! k)) (j # js @ [j]))"

lemma first_failure_Some: "first_failure checks = Some e \<Longrightarrow> e \<in> snd ` set checks"
  by (induction checks rule: first_failure.induct) (auto split: if_splits)

lemma no_cycle_error: "validateAuthoredWorkflow st a inc \<noteq> Some (IncludeCycle ns)"
proof
  assume "validateAuthoredWorkflow st a inc = Some (IncludeCycle ns)"
  then have "IncludeCycle ns \<in> snd ` set (authored_edge_checks st a (au_edges a) []) \<union>
      snd ` set (authored_exit_checks a (exits_of a) [])"
    unfolding validateAuthoredWorkflow_def by (drule_tac first_failure_Some) auto
  moreover have "IncludeCycle ns \<notin> snd ` set (authored_edge_checks st a es out)" for es out
  proof (induction es arbitrary: out)
    case (Cons e es)
    have "IncludeCycle ns \<notin> snd ` set (map (assertAuthoredTo a) ts)" for ts by (auto simp: assertAuthoredTo_def)
    then show ?case using Cons[of "edge_from e # out"] by (simp add: assertAuthoredFrom_def image_Un)
  qed simp
  moreover have "IncludeCycle ns \<notin> snd ` set (authored_exit_checks a xs taken)" for xs taken
  proof (induction xs arbitrary: taken)
    case (Cons x xs)
    then show ?case by (cases x) simp
  qed simp
  ultimately show False by blast
qed

lemma map_result_Inl: "map_result f xs = Inl e \<Longrightarrow> \<exists>x \<in> set xs. f x = Inl e"
  by (induction xs) (auto split: sum.splits)

lemma no_cycle_edges: "add_edges p a b \<noteq> Inl (IncludeCycle ns)"
proof
  assume "add_edges p a b = Inl (IncludeCycle ns)"
  then have failed: "map_result (resolve_edge p a (bu_exits b)) (au_edges a) = Inl (IncludeCycle ns)"
    by (auto simp: add_edges_def split: sum.splits)
  obtain e where "resolve_edge p a (bu_exits b) e = Inl (IncludeCycle ns)"
    by (rule bexE[OF map_result_Inl[OF failed]])
  have to: "resolveAuthoredTo p a t \<noteq> Inl (IncludeCycle ns)" for t by (simp add: resolveAuthoredTo_def)
  have from': "resolveAuthoredFrom p a (bu_exits b) v \<noteq> Inl (IncludeCycle ns)" for v
    by (simp add: resolveAuthoredFrom_def split: option.split prod.split)
  have cases: "map_result (\<lambda>(k, t). case resolveAuthoredTo p a t of Inl err \<Rightarrow> Inl err | Inr t' \<Rightarrow> Inr (k, t')) cs
      \<noteq> Inl (IncludeCycle ns)" for cs :: "(string \<times> string) list"
  proof
    assume failed: "map_result (\<lambda>(k, t). case resolveAuthoredTo p a t of Inl err \<Rightarrow> Inl err | Inr t' \<Rightarrow> Inr (k, t')) cs =
        Inl (IncludeCycle ns)"
    obtain x :: "string \<times> string" where "(case x of (k, t) \<Rightarrow> case resolveAuthoredTo p a t of Inl err \<Rightarrow> Inl err | Inr t' \<Rightarrow> Inr (k, t')) =
        Inl (IncludeCycle ns)"
      by (rule bexE[OF map_result_Inl[OF failed]])
    then show False using to[of "snd x"] by (cases x; cases "resolveAuthoredTo p a (snd x)") simp_all
  qed
  show False
    using \<open>resolve_edge p a (bu_exits b) e = Inl (IncludeCycle ns)\<close> to from' cases
    by (cases e) (auto simp: resolve_edge_def split: sum.splits)
qed

lemma cycle_genuine:
  assumes "chained (include_rel st) (active @ [i])" and "i \<in> set active"
  shows "genuine_cycle st (cycle_names st active i)"
proof -
  obtain js where js: "dropWhile (\<lambda>j. j \<noteq> i) active = i # js"
    using assms(2) by (cases "dropWhile (\<lambda>j. j \<noteq> i) active") (auto simp: dropWhile_eq_Nil_conv dropWhile_eq_Cons_conv)
  have "dropWhile (\<lambda>j. j \<noteq> i) (active @ [i]) = i # js @ [i]"
    using js assms(2) by (simp add: dropWhile_append1[of i])
  then have "chained (include_rel st) (i # js @ [i])" using chained_dropWhile[OF assms(1)] by metis
  then show ?thesis using js by (auto simp: genuine_cycle_def cycle_names_def)
qed

lemma mount_cycle:
  "mountWorkflow env st active i p b = Inl (IncludeCycle ns) \<Longrightarrow> chained (include_rel st) (active @ [i]) \<Longrightarrow>
     genuine_cycle st ns"
  "mount_includes env st active p incs b = Inl (IncludeCycle ns) \<Longrightarrow> active \<noteq> [] \<Longrightarrow> chained (include_rel st) active \<Longrightarrow>
     (\<forall>(n, t) \<in> set incs. \<forall>k. target_id t = Some k \<longrightarrow> (last active, k) \<in> include_rel st) \<Longrightarrow> genuine_cycle st ns"
proof (induction env st active i p b and env st active p incs b rule: mountWorkflow_mount_includes.induct)
  case (1 env st active i p b)
  show ?case
  proof (cases "i \<in> set active")
    case True
    then show ?thesis using 1(2,3) cycle_genuine by (auto split: option.splits)
  next
    case False
    obtain a where a: "lookup st i = Some a" using 1(2) by (auto split: option.splits)
    have valid: "validateAuthoredWorkflow st a (p \<noteq> []) = None"
      using 1(2) a False no_cycle_error by (auto split: option.splits)
    obtain b1 where b1: "add_source env i a p (add_scope p a b) = Inr b1"
      using 1(2) a False valid by (auto split: sum.splits if_splits option.splits simp: add_source_def)
    have "mount_includes env st (active @ [i]) p (au_includes a) (add_nodes p a b1) = Inl (IncludeCycle ns)"
      using 1(2) a False valid b1 no_cycle_edges by (auto split: sum.splits)
    moreover have "\<forall>(n, t) \<in> set (au_includes a). \<forall>k. target_id t = Some k \<longrightarrow> (last (active @ [i]), k) \<in> include_rel st"
      using include_relI[OF a] by auto
    ultimately show ?thesis using 1(1)[OF a False valid b1] 1(3) by simp
  qed
next
  case (2 env st active p b)
  then show ?case by simp
next
  case (3 env st active p name t rest b)
  obtain l c where l: "target_id t = Some l" "lookup st l = Some c" "exits_of c \<noteq> []"
    using 3(3) by (auto split: option.splits if_splits)
  show ?case
  proof (cases "mountWorkflow env st active l (qualify p name) (add_include p name c b)")
    case (Inl e)
    have "chained (include_rel st) (butlast active @ [last active, l])"
      using 3(4-6) l(1) by (intro chained_append) auto
    then have "chained (include_rel st) (active @ [l])"
      using append_butlast_last_id[OF 3(4)] by (metis append_Cons append_Nil append_assoc)
    then show ?thesis using 3(1)[OF l] 3(3) l Inl by simp
  next
    case (Inr b1)
    then show ?thesis using 3(2)[OF l Inr] 3(3-6) l by simp
  qed
qed

text \<open>
  C14: Include cycles end the compilation, and nothing else is taken for one.  The recursion of the
  compiler is total; if it succeeds, no definition reachable through includes includes itself, and
  a cycle it reports is one: the names belong to definitions each of which includes the next, the
  first being the last.
\<close>

theorem include_cycles_refused:
  "case compileWorkflowDefinition env st i of
      Inr c \<Rightarrow> \<forall>j. (i, j) \<in> (include_rel st)\<^sup>* \<longrightarrow> (j, j) \<notin> (include_rel st)\<^sup>+
    | Inl (IncludeCycle names) \<Rightarrow> genuine_cycle st names
    | _ \<Rightarrow> True"
proof (cases "compileWorkflowDefinition env st i")
  case (Inr c)
  then obtain b where "mountWorkflow env st [] i [] empty_build = Inr b"
    by (auto simp: compileWorkflowDefinition_def split: option.splits sum.splits)
  then show ?thesis using mount_acyclic(1) Inr by fastforce
next
  case (Inl e)
  show ?thesis
  proof (cases "\<exists>names. e = IncludeCycle names")
    case True
    then obtain names where names: "e = IncludeCycle names" by blast
    then have "mountWorkflow env st [] i [] empty_build = Inl (IncludeCycle names)"
      using Inl no_cycle_error by (auto simp: compileWorkflowDefinition_def Let_def split: option.splits sum.splits)
    then show ?thesis using mount_cycle(1)[of env st "[]" i] Inl names by simp
  next
    case False
    then show ?thesis using Inl by (auto split: compile_error.split)
  qed
qed

section \<open>An example\<close>

text \<open>A workflow that includes a review with two exits, and routes both to nodes of its own.\<close>

definition leaf_node :: node where
  "leaf_node = \<lparr>nd_type = NAgent, nd_exec = False, nd_timeout = TmDefault, nd_detail = None\<rparr>"

definition review :: authored where
  "review = \<lparr>au_name = ''review'', au_contract = None, au_start = ''read'', au_max = Some 5,
     au_nodes = [(''read'', leaf_node), (''yes'', leaf_node), (''no'', leaf_node)], au_includes = [],
     au_exits = Some [(''ok'', ''yes''), (''bad'', ''no'')],
     au_edges = [EdgeSwitch ''read'' ''$.verdict'' [(''y'', ''yes''), (''n'', ''no'')]]\<rparr>"

definition change :: authored where
  "change = \<lparr>au_name = ''change'', au_contract = None, au_start = ''write'', au_max = None,
     au_nodes = [(''write'', leaf_node), (''ship'', leaf_node)], au_includes = [(''check'', Direct 0)], au_exits = None,
     au_edges = [EdgeTo ''write'' ''check'', EdgeTo ''check.ok'' ''ship'', EdgeTo ''check.bad'' ''write'']\<rparr>"

definition plain_env :: compile_env where
  "plain_env = \<lparr>ev_source = (\<lambda>_. Inr None), ev_before = (\<lambda>_ _. False)\<rparr>"

theorem compiled_graph_is_sound_witness:
  "\<exists>c. compileWorkflowDefinition plain_env [review, change] 1 = Inr c \<and> validateWorkflowDefinition (cp_workflow c) = None \<and>
     obj_keys (wf_nodes (cp_workflow c)) = [''write'', ''ship'', ''check'', ''check/__piw_exit_ok'', ''check/__piw_exit_bad'',
       ''check/read'', ''check/yes'', ''check/no'']"
proof -
  have "case compileWorkflowDefinition plain_env [review, change] 1 of
      Inr c \<Rightarrow> obj_keys (wf_nodes (cp_workflow c)) = [''write'', ''ship'', ''check'', ''check/__piw_exit_ok'',
        ''check/__piw_exit_bad'', ''check/read'', ''check/yes'', ''check/no'']
    | _ \<Rightarrow> False" by code_simp
  then obtain c where c: "compileWorkflowDefinition plain_env [review, change] 1 = Inr c"
      "obj_keys (wf_nodes (cp_workflow c)) = [''write'', ''ship'', ''check'', ''check/__piw_exit_ok'', ''check/__piw_exit_bad'',
       ''check/read'', ''check/yes'', ''check/no'']"
    by (cases "compileWorkflowDefinition plain_env [review, change] 1") simp_all
  have "\<forall>a \<in> set [review, change]. assertValidWorkflowDefinitionShape False a = None \<and> distinct (obj_keys (au_includes a))"
    by code_simp
  moreover have "set (obj_keys (au_includes ([review, change] ! 1))) \<inter> set object_prototype_members = {}" by code_simp
  ultimately show ?thesis using compiled_graph_is_sound[OF c(1)] c by blast
qed

text \<open>A workflow that includes itself.\<close>

definition narcissus :: authored where
  "narcissus = \<lparr>au_name = ''n'', au_contract = None, au_start = ''go'', au_max = None,
     au_nodes = [(''go'', leaf_node), (''end'', leaf_node)], au_includes = [(''me'', Direct 0)],
     au_exits = Some [(''done'', ''end'')],
     au_edges = [EdgeTo ''go'' ''me'', EdgeTo ''me.done'' ''end'']\<rparr>"

theorem include_cycles_refused_witness:
  "compileWorkflowDefinition plain_env [narcissus] 0 = Inl (IncludeCycle [''n'', ''n'']) \<and>
   genuine_cycle [narcissus] [''n'', ''n'']"
proof -
  have "case compileWorkflowDefinition plain_env [narcissus] 0 of Inl e \<Rightarrow> e = IncludeCycle [''n'', ''n''] | _ \<Rightarrow> False"
    by code_simp
  then have "compileWorkflowDefinition plain_env [narcissus] 0 = Inl (IncludeCycle [''n'', ''n''])"
    by (cases "compileWorkflowDefinition plain_env [narcissus] 0") simp_all
  then show ?thesis using include_cycles_refused[where env = plain_env and st = "[narcissus]" and i = 0] by simp
qed

text \<open>
  The shape check keeps node ids off the members of \<open>Object.prototype\<close> but not the names of includes,
  which become node ids, too.  An include \<open>__proto__\<close> passes it and compiles, and the entry node is
  lost in the assignment, so that the compiled graph does not validate.
\<close>

definition proto_change :: authored where
  "proto_change = \<lparr>au_name = ''change'', au_contract = None, au_start = ''write'', au_max = None,
     au_nodes = [(''write'', leaf_node), (''ship'', leaf_node)], au_includes = [(''__proto__'', Direct 0)], au_exits = None,
     au_edges = [EdgeTo ''write'' ''__proto__'', EdgeTo ''__proto__.ok'' ''ship'', EdgeTo ''__proto__.bad'' ''write'']\<rparr>"

theorem proto_include_lost:
  "assertValidWorkflowDefinitionShape False proto_change = None \<and>
   (case compileWorkflowDefinition plain_env [review, proto_change] 1 of
      Inr c \<Rightarrow> validateWorkflowDefinition (cp_workflow c) = Some (UnknownFrom ''__proto__'') | _ \<Rightarrow> False)"
  by code_simp

end
