(* ===== verification/ScopedContext.thy ===== *)
theory ScopedContext
  imports Composition Engine
begin

text \<open>
  What the callbacks of an included workflow see (\<open>projectWorkflowContext\<close> of
  src/workflows/composition.ts): the run state of the compiled workflow, cut to one scope, to its
  local names and to the steps since the scope was last entered.
\<close>

section \<open>The projection\<close>

text \<open>The index of the last step of a node, or -1.\<close>

fun latestStepIndex :: "step_record list \<Rightarrow> string \<Rightarrow> int" where
  "latestStepIndex [] n = -1"
| "latestStepIndex (s # ss) n = (let k = latestStepIndex ss n in
     if 0 \<le> k then k + 1 else if st_node s = n then 0 else -1)"

definition localNameFor :: "scope_meta \<Rightarrow> string \<Rightarrow> string" where
  "localNameFor sc q = (case find_result (\<lambda>lq. snd lq = q) (sm_nodes sc) of None \<Rightarrow> q | Some (l, _) \<Rightarrow> l)"

definition countCompletedEntries :: "step_record list \<Rightarrow> string \<Rightarrow> nat" where
  "countCompletedEntries steps n = length (filter (\<lambda>s. st_node s = n \<and> st_outcome s = OutOk) steps)"

datatype scope_error = ScopeMissing string | EntryMissing string

record scoped_context =
  cx_input :: jv
  cx_outputs :: "jv obj"
  cx_results :: "node_result obj"
  cx_state :: run_state

text \<open>\<open>entry?.input ?? null\<close> of the output of an entry step.\<close>

definition entry_input :: "jv \<Rightarrow> jv" where
  "entry_input v = (case v of
     JObj kvs \<Rightarrow> (case obj_get kvs ''input'' of None \<Rightarrow> JNull | Some i \<Rightarrow> if i = JUndef then JNull else i)
   | _ \<Rightarrow> JNull)"

text \<open>The last step that left the mount through any of its exits.\<close>

definition latest_exit :: "exit_meta obj \<Rightarrow> step_record list \<Rightarrow> string \<Rightarrow> int" where
  "latest_exit xs steps m = fold (\<lambda>x k. max k (latestStepIndex steps (xm_node x)))
     (filter (\<lambda>x. xm_mount x = m) (map snd xs)) (-1)"

text \<open>The qualified ids with local names that were settled since the entry, in the order of the source.\<close>

definition visible :: "exit_meta obj \<Rightarrow> step_record list \<Rightarrow> scope_meta \<Rightarrow> int \<Rightarrow> (string \<times> string) list" where
  "visible xs steps sc entry =
     filter (\<lambda>(l, q). entry < latestStepIndex steps q) (sm_nodes sc) @
     filter (\<lambda>(l, m). entry < latest_exit xs steps m) (sm_mounts sc)"

definition localize :: "(string \<times> string) list \<Rightarrow> 'v obj \<Rightarrow> 'v obj" where
  "localize lqs ob = fold (\<lambda>(l, q) acc. case obj_get ob q of None \<Rightarrow> acc | Some v \<Rightarrow> obj_put l v acc) lqs []"

definition local_step :: "exit_meta obj \<Rightarrow> scope_meta \<Rightarrow> step_record \<Rightarrow> step_record list" where
  "local_step xs sc s =
     (if st_node s \<in> set (map snd (sm_nodes sc)) then [s\<lparr>st_node := localNameFor sc (st_node s)\<rparr>]
      else (case obj_get xs (st_node s) of
        None \<Rightarrow> []
      | Some x \<Rightarrow> if xm_parent x = sm_path sc then [s\<lparr>st_node := xm_name x\<rparr>] else []))"

definition projectWorkflowContext ::
    "scope_meta obj \<Rightarrow> exit_meta obj \<Rightarrow> string \<Rightarrow> jv \<Rightarrow> run_state \<Rightarrow> (scope_error, scoped_context) result" where
  "projectWorkflowContext scopes xs p input s = (case obj_get scopes p of
     None \<Rightarrow> Inl (ScopeMissing p)
   | Some sc \<Rightarrow>
       let entry = (if p = [] then -1 else latestStepIndex (rs_steps s) p) in
       if p \<noteq> [] \<and> entry < 0 then Inl (EntryMissing p)
       else
         let shown = visible xs (rs_steps s) sc entry;
             outputs = localize shown (rs_outputs s);
             results = localize shown (rs_results s);
             localInput = (if p = [] then input else entry_input (st_output (rs_steps s ! nat entry))) in
         Inr \<lparr>cx_input = localInput, cx_outputs = outputs, cx_results = results,
           cx_state = s\<lparr>rs_input := localInput, rs_outputs := outputs, rs_results := results,
             rs_steps := concat (map (local_step xs sc) (drop (nat (entry + 1)) (rs_steps s))),
             rs_current := (case rs_current s of None \<Rightarrow> None | Some n \<Rightarrow> Some (if n = [] then [] else localNameFor sc n))\<rparr>\<rparr>)"

section \<open>Steps and their indexes\<close>

lemma latestStepIndex_bounds: "-1 \<le> latestStepIndex ss n \<and> latestStepIndex ss n < int (length ss)"
  by (induction ss) (auto simp: Let_def)

lemma latestStepIndex_snoc:
  "latestStepIndex (ss @ [s]) n = (if st_node s = n then int (length ss) else latestStepIndex ss n)"
  by (induction ss) (auto simp: Let_def)

lemma latest_exit_snoc:
  assumes "\<forall>x \<in> snd ` set xs. xm_mount x = m \<longrightarrow> st_node s \<noteq> xm_node x"
  shows "latest_exit xs (ss @ [s]) m = latest_exit xs ss m"
proof -
  have "fold (\<lambda>x k. max k (latestStepIndex (ss @ [s]) (xm_node x))) ys k = fold (\<lambda>x k. max k (latestStepIndex ss (xm_node x))) ys k"
    if "\<forall>x \<in> set ys. st_node s \<noteq> xm_node x" for ys k
    using that by (induction ys arbitrary: k) (simp_all add: latestStepIndex_snoc)
  note frame = this
  show ?thesis unfolding latest_exit_def by (rule frame) (use assms in auto)
qed

lemma latest_exit_bound: "latest_exit xs ss m < int (length ss)"
proof -
  have below: "fold (\<lambda>x k. max k (latestStepIndex ss (xm_node x))) ys k < int (length ss)" if "k < int (length ss)" for ys k
    using that latestStepIndex_bounds by (induction ys arbitrary: k) simp_all
  show ?thesis unfolding latest_exit_def by (rule below) simp
qed

lemma localize_cong:
  "\<forall>q \<in> snd ` set lqs. obj_get ob q = obj_get ob' q \<Longrightarrow> localize lqs ob = localize lqs ob'"
proof -
  have "fold (\<lambda>(l, q) acc. case obj_get ob q of None \<Rightarrow> acc | Some v \<Rightarrow> obj_put l v acc) lqs acc =
      fold (\<lambda>(l, q) acc. case obj_get ob' q of None \<Rightarrow> acc | Some v \<Rightarrow> obj_put l v acc) lqs acc"
    if "\<forall>q \<in> snd ` set lqs. obj_get ob q = obj_get ob' q" for acc
    using that by (induction lqs arbitrary: acc) auto
  then show "\<forall>q \<in> snd ` set lqs. obj_get ob q = obj_get ob' q \<Longrightarrow> ?thesis" by (simp add: localize_def)
qed

section \<open>Scopes are isolated\<close>

text \<open>A node whose attempts a scope does not see: neither its entry, nor a node of it, nor an exit of a child.\<close>

definition foreign :: "workflow \<Rightarrow> exit_meta obj \<Rightarrow> scope_meta \<Rightarrow> string \<Rightarrow> bool" where
  "foreign w xs sc n \<longleftrightarrow> n \<noteq> sm_path sc \<and> n \<notin> snd ` set (sm_nodes sc @ sm_mounts sc) \<and>
     (\<forall>x \<in> snd ` set xs. xm_node x = n \<longrightarrow> xm_mount x \<notin> snd ` set (sm_mounts sc)) \<and>
     (case obj_get xs n of None \<Rightarrow> True | Some x \<Rightarrow> xm_parent x \<noteq> sm_path sc) \<and>
     (case exit_of w n of None \<Rightarrow> True | Some x \<Rightarrow> ex_mount x \<notin> snd ` set (sm_nodes sc @ sm_mounts sc))"

definition same_view :: "(scope_error, scoped_context) result \<Rightarrow> (scope_error, scoped_context) result \<Rightarrow> bool" where
  "same_view r r' = (case (r, r') of
     (Inl e, Inl e') \<Rightarrow> e = e'
   | (Inr c, Inr c') \<Rightarrow> cx_input c = cx_input c' \<and> cx_outputs c = cx_outputs c' \<and> cx_results c = cx_results c' \<and>
       rs_steps (cx_state c) = rs_steps (cx_state c')
   | _ \<Rightarrow> False)"

lemma recordAttempt_steps: "rs_steps (recordAttempt w a s) = rs_steps s @ [step_of a]"
  by (simp add: recordAttempt_def record_result_def clear_current_def Let_def split: option.split)

lemma recordAttempt_frame:
  assumes "q \<noteq> nr_node (at_result a)"
    and "case exit_of w (nr_node (at_result a)) of None \<Rightarrow> True | Some x \<Rightarrow> ex_mount x \<noteq> q"
  shows "obj_get (rs_outputs (recordAttempt w a s)) q = obj_get (rs_outputs s) q"
    and "obj_get (rs_results (recordAttempt w a s)) q = obj_get (rs_results s) q"
  using assms by (auto simp: recordAttempt_def record_result_def clear_current_def Let_def split: option.split)

lemma visible_subset: "snd ` set (visible xs steps sc entry) \<subseteq> snd ` set (sm_nodes sc @ sm_mounts sc)"
  by (force simp: visible_def)

lemma scope_views:
  assumes "obj_get scopes p = Some sc" and "sm_path sc = p"
  shows "foreign w xs sc (nr_node (at_result a)) \<longrightarrow>
      same_view (projectWorkflowContext scopes xs p input (recordAttempt w a s)) (projectWorkflowContext scopes xs p input s)"
    and "nr_node (at_result a) = p \<and> p \<noteq> [] \<longrightarrow>
      (\<exists>c. projectWorkflowContext scopes xs p input (recordAttempt w a s) = Inr c \<and>
        cx_outputs c = [] \<and> cx_results c = [] \<and> rs_steps (cx_state c) = [] \<and> cx_input c = entry_input (st_output (step_of a)))"
proof -
  let ?n = "nr_node (at_result a)" and ?s = "recordAttempt w a s"
  have step [simp]: "st_node (step_of a) = ?n" by (simp add: step_of_def Let_def)
  show "foreign w xs sc ?n \<longrightarrow>
      same_view (projectWorkflowContext scopes xs p input ?s) (projectWorkflowContext scopes xs p input s)"
  proof
    assume f: "foreign w xs sc ?n"
    define entry where "entry = (if p = [] then -1 else latestStepIndex (rs_steps s) p)"
    have entry': "(if p = [] then -1 else latestStepIndex (rs_steps ?s) p) = entry"
      using f assms(2) by (simp add: entry_def recordAttempt_steps latestStepIndex_snoc foreign_def)
    have "latestStepIndex (rs_steps ?s) q = latestStepIndex (rs_steps s) q" if "q \<in> snd ` set (sm_nodes sc)" for q
      using f that by (auto simp: recordAttempt_steps latestStepIndex_snoc foreign_def)
    moreover have "latest_exit xs (rs_steps ?s) m = latest_exit xs (rs_steps s) m" if "m \<in> snd ` set (sm_mounts sc)" for m
      unfolding recordAttempt_steps using f that by (intro latest_exit_snoc) (auto simp: foreign_def)
    ultimately have shown: "visible xs (rs_steps ?s) sc entry = visible xs (rs_steps s) sc entry"
      unfolding visible_def by (intro arg_cong2[where f = append] filter_cong) force+
    have vals: "obj_get (rs_outputs ?s) q = obj_get (rs_outputs s) q" "obj_get (rs_results ?s) q = obj_get (rs_results s) q"
      if "q \<in> snd ` set (sm_nodes sc @ sm_mounts sc)" for q
    proof -
      have "q \<noteq> ?n" using f that unfolding foreign_def by metis
      moreover have "case exit_of w ?n of None \<Rightarrow> True | Some x \<Rightarrow> ex_mount x \<noteq> q"
        using f that unfolding foreign_def by (cases "exit_of w ?n") (auto simp only: option.case)
      ultimately show "obj_get (rs_outputs ?s) q = obj_get (rs_outputs s) q" "obj_get (rs_results ?s) q = obj_get (rs_results s) q"
        by (rule recordAttempt_frame)+
    qed
    have outputs: "localize (visible xs (rs_steps s) sc entry) (rs_outputs ?s) = localize (visible xs (rs_steps s) sc entry) (rs_outputs s)"
      by (intro localize_cong ballI vals(1)) (rule subsetD[OF visible_subset])
    have results: "localize (visible xs (rs_steps s) sc entry) (rs_results ?s) = localize (visible xs (rs_steps s) sc entry) (rs_results s)"
      by (intro localize_cong ballI vals(2)) (rule subsetD[OF visible_subset])
    have bounds: "-1 \<le> entry" "entry < int (length (rs_steps s))"
      using latestStepIndex_bounds[of "rs_steps s" p] by (auto simp: entry_def)
    have "local_step xs sc (step_of a) = []"
      using f assms(2) by (auto simp: local_step_def foreign_def split: option.splits)
    moreover have "drop (nat (entry + 1)) (rs_steps ?s) = drop (nat (entry + 1)) (rs_steps s) @ [step_of a]"
      using bounds by (simp add: recordAttempt_steps)
    moreover have "rs_steps ?s ! nat entry = rs_steps s ! nat entry" if "\<not> entry < 0"
      using bounds that by (simp add: recordAttempt_steps nth_append)
    ultimately show "same_view (projectWorkflowContext scopes xs p input ?s) (projectWorkflowContext scopes xs p input s)"
      unfolding projectWorkflowContext_def Let_def entry' entry_def[symmetric]
      by (simp add: assms(1) same_view_def shown outputs results)
  qed
  show "?n = p \<and> p \<noteq> [] \<longrightarrow> (\<exists>c. projectWorkflowContext scopes xs p input ?s = Inr c \<and> cx_outputs c = [] \<and>
      cx_results c = [] \<and> rs_steps (cx_state c) = [] \<and> cx_input c = entry_input (st_output (step_of a)))"
  proof
    assume n: "?n = p \<and> p \<noteq> []"
    have entry: "latestStepIndex (rs_steps ?s) p = int (length (rs_steps s))"
      using n by (simp add: recordAttempt_steps latestStepIndex_snoc)
    have "latestStepIndex (rs_steps ?s) q \<le> int (length (rs_steps s))" for q
      using latestStepIndex_bounds[of "rs_steps ?s" q] by (simp add: recordAttempt_steps)
    moreover have "latest_exit xs (rs_steps ?s) m \<le> int (length (rs_steps s))" for m
      using latest_exit_bound[of xs "rs_steps ?s" m] by (simp add: recordAttempt_steps)
    ultimately have "visible xs (rs_steps ?s) sc (int (length (rs_steps s))) = []"
      unfolding visible_def append_is_Nil_conv filter_empty_conv by (simp add: case_prod_unfold not_less)
    then show "\<exists>c. projectWorkflowContext scopes xs p input ?s = Inr c \<and> cx_outputs c = [] \<and>
      cx_results c = [] \<and> rs_steps (cx_state c) = [] \<and> cx_input c = entry_input (st_output (step_of a))"
      using n assms(1) 
      by (simp add: projectWorkflowContext_def Let_def entry[unfolded recordAttempt_steps] localize_def recordAttempt_steps nat_add_distrib)
  qed
qed

text \<open>
  C15: An included workflow sees its own invocation only.  Recording an attempt of any node foreign to
  a scope leaves what the callbacks of the scope see (input, outputs, results, steps) as it was, and
  recording the entry of a scope starts it afresh: no outputs, results or steps of an earlier
  invocation are visible, and the input is the one the entry computed.
\<close>

theorem scopes_are_isolated:
  assumes "obj_get scopes p = Some sc" and "sm_path sc = p"
  shows "(foreign w xs sc (nr_node (at_result a)) \<longrightarrow>
      same_view (projectWorkflowContext scopes xs p input (recordAttempt w a s)) (projectWorkflowContext scopes xs p input s)) \<and>
    (nr_node (at_result a) = p \<and> p \<noteq> [] \<longrightarrow>
      (\<exists>c. projectWorkflowContext scopes xs p input (recordAttempt w a s) = Inr c \<and>
        cx_outputs c = [] \<and> cx_results c = [] \<and> rs_steps (cx_state c) = [] \<and> cx_input c = entry_input (st_output (step_of a))))"
  using scope_views[OF assms] by blast

text \<open>A repeated entry of the scope of an include \<open>check\<close> with one node.\<close>

definition check_scope :: scope_meta where
  "check_scope = \<lparr>sm_path = ''check'', sm_workflow = ''review'', sm_max = None, sm_nodes = [(''read'', ''check/read'')],
     sm_mounts = []\<rparr>"

definition attempt_at :: "string \<Rightarrow> jv \<Rightarrow> attempt" where
  "attempt_at n v = \<lparr>at_result = \<lparr>nr_attempt = ''a'', nr_node = n, nr_type = NCompute, nr_outcome = OutOk, nr_started = [],
     nr_finished = [], nr_duration = NumNaN, nr_output = Some v, nr_error = None\<rparr>, at_meta = no_meta, at_error = None\<rparr>"

theorem scopes_are_isolated_witness:
  "foreign verdict_workflow [] check_scope ''ask'' \<and>
   same_view (projectWorkflowContext [(''check'', check_scope)] [] ''check'' JNull
       (recordAttempt verdict_workflow (attempt_at ''ask'' JNull) (createRunState JNull)))
     (projectWorkflowContext [(''check'', check_scope)] [] ''check'' JNull (createRunState JNull))"
proof -
  have "obj_get [(''check'', check_scope)] ''check'' = Some check_scope" "sm_path check_scope = ''check''"
    by (simp_all add: obj_get_def check_scope_def)
  note view = scopes_are_isolated[OF this, of verdict_workflow "[]" "attempt_at ''ask'' JNull" JNull "createRunState JNull"]
  have "foreign verdict_workflow [] check_scope ''ask''" by code_simp
  moreover have "nr_node (at_result (attempt_at ''ask'' JNull)) = ''ask''" by (simp add: attempt_at_def)
  ultimately show ?thesis using view by simp
qed

end
