(* ===== verification/Artifacts.thy ===== *)
theory Artifacts
  imports StoreSchema
begin

text \<open>
  Externalised values (src/workflows/artifacts.ts): string leaves above a threshold move into files
  named by their hash, and objects that look like a reference are escaped.  The hash is a parameter;
  a bundle directory is a list of path segments.  Writes succeed; a value of another prototype has no
  own properties here.
\<close>

section \<open>References\<close>

record artifact_ref =
  ar_path :: string
  ar_media :: string
  ar_bytes :: nat
  ar_sha256 :: string

text \<open>\<open>Number.isSafeInteger(value) && value >= 0\<close>\<close>

fun safe_nat :: "jv \<Rightarrow> nat option" where
  "safe_nat (JNum (NumFin t)) = (if t \<noteq> [] \<and> list_all is_digit t \<and> int (dec_val 0 t) \<le> MAX_SAFE_INTEGER
     then Some (dec_val 0 t) else None)"
| "safe_nat (JNum NumNegZero) = Some 0"
| "safe_nat _ = None"

fun text_of :: "jv \<Rightarrow> string option" where
  "text_of (JStr s) = Some s"
| "text_of _ = None"

definition field :: "jv obj \<Rightarrow> string \<Rightarrow> jv" where
  "field ob k = (case obj_get ob k of None \<Rightarrow> JUndef | Some v \<Rightarrow> v)"

definition isArtifactRef :: "jv \<Rightarrow> artifact_ref option" where
  "isArtifactRef v = (case v of
     JObj ob \<Rightarrow> (case (text_of (field ob ''path''), text_of (field ob ''mediaType''), safe_nat (field ob ''bytes''),
         text_of (field ob ''sha256'')) of
       (Some p, Some m, Some b, Some h) \<Rightarrow> Some \<lparr>ar_path = p, ar_media = m, ar_bytes = b, ar_sha256 = h\<rparr>
     | _ \<Rightarrow> None)
   | _ \<Rightarrow> None)"

definition isArtifactValue :: "jv obj \<Rightarrow> artifact_ref option" where
  "isArtifactValue ob = (case ob of [(k, v)] \<Rightarrow> if k = ''$artifact'' then isArtifactRef v else None | _ \<Rightarrow> None)"

definition isEscapedValue :: "jv obj \<Rightarrow> jv obj option" where
  "isEscapedValue ob = (case ob of
     [(k, JObj inner)] \<Rightarrow> if k = ''$escaped'' then Some inner else None | _ \<Rightarrow> None)"

definition needsEscape :: "jv obj \<Rightarrow> bool" where
  "needsEscape ob = (case ob of [(k, v)] \<Rightarrow> k = ''$artifact'' \<or> k = ''$escaped'' | _ \<Rightarrow> False)"

section \<open>Writing\<close>

text \<open>The writer of one bundle: the hashes it wrote and the files, by relative path.\<close>

record artifact_writer =
  wr_written :: "string list"
  wr_files :: "string obj"

definition new_writer :: artifact_writer where
  "new_writer = \<lparr>wr_written = [], wr_files = []\<rparr>"

definition artifact_path :: "string \<Rightarrow> string" where
  "artifact_path h = ''artifacts/sha256-'' @ h @ ''.txt''"

definition externalize :: "(string \<Rightarrow> string) \<Rightarrow> string \<Rightarrow> artifact_writer \<Rightarrow> jv \<times> artifact_writer" where
  "externalize sha s w = (let h = sha s in
     (JObj [(''$artifact'', JObj [(''path'', JStr (artifact_path h)), (''mediaType'', JStr ''text/plain''),
        (''bytes'', jnat (utf8_length s)), (''sha256'', JStr h)])],
      if h \<in> set (wr_written w) then w
      else w\<lparr>wr_written := h # wr_written w, wr_files := obj_put (artifact_path h) s (wr_files w)\<rparr>))"

fun encodeValue :: "(string \<Rightarrow> string) \<Rightarrow> nat \<Rightarrow> jv \<Rightarrow> artifact_writer \<Rightarrow> jv \<times> artifact_writer"
  and encode_items :: "(string \<Rightarrow> string) \<Rightarrow> nat \<Rightarrow> jv list \<Rightarrow> artifact_writer \<Rightarrow> jv list \<times> artifact_writer"
  and encode_fields :: "(string \<Rightarrow> string) \<Rightarrow> nat \<Rightarrow> (string \<times> jv) list \<Rightarrow> artifact_writer
    \<Rightarrow> (string \<times> jv) list \<times> artifact_writer" where
  "encodeValue sha threshold (JStr s) w =
     (if utf8_length s \<le> threshold then (JStr s, w) else externalize sha s w)"
| "encodeValue sha threshold (JArr vs) w = (case encode_items sha threshold vs w of (vs', w') \<Rightarrow> (JArr vs', w'))"
| "encodeValue sha threshold (JObj kvs) w = (case encode_fields sha threshold kvs w of (kvs', w') \<Rightarrow>
     (if needsEscape kvs then JObj [(''$escaped'', JObj kvs')] else JObj kvs', w'))"
| "encodeValue sha threshold v w = (v, w)"
| "encode_items sha threshold [] w = ([], w)"
| "encode_items sha threshold (v # vs) w = (case encodeValue sha threshold v w of (v', w1) \<Rightarrow>
     (case encode_items sha threshold vs w1 of (vs', w2) \<Rightarrow> (v' # vs', w2)))"
| "encode_fields sha threshold [] w = ([], w)"
| "encode_fields sha threshold ((k, v) # kvs) w = (case encodeValue sha threshold v w of (v', w1) \<Rightarrow>
     (case encode_fields sha threshold kvs w1 of (kvs', w2) \<Rightarrow> ((k, v') # kvs', w2)))"

definition ARTIFACT_THRESHOLD_BYTES :: nat where
  "ARTIFACT_THRESHOLD_BYTES = 4096"

section \<open>Reading\<close>

lemma isEscapedValue_Some: "isEscapedValue kvs = Some inner \<Longrightarrow> kvs = [(''$escaped'', JObj inner)]"
  by (auto simp: isEscapedValue_def split: list.splits prod.splits jv.splits if_splits)

function (sequential) decodeValueWith :: "(artifact_ref \<Rightarrow> jv) \<Rightarrow> jv \<Rightarrow> jv"
  and decode_items :: "(artifact_ref \<Rightarrow> jv) \<Rightarrow> jv list \<Rightarrow> jv list"
  and decodeChildren :: "(artifact_ref \<Rightarrow> jv) \<Rightarrow> (string \<times> jv) list \<Rightarrow> (string \<times> jv) list" where
  "decodeValueWith f (JObj kvs) = (case isArtifactValue kvs of
     Some r \<Rightarrow> f r
   | None \<Rightarrow> (case isEscapedValue kvs of
       Some inner \<Rightarrow> JObj (decodeChildren f inner)
     | None \<Rightarrow> JObj (decodeChildren f kvs)))"
| "decodeValueWith f (JArr vs) = JArr (decode_items f vs)"
| "decodeValueWith f JExotic = JObj []"
| "decodeValueWith f v = v"
| "decode_items f [] = []"
| "decode_items f (v # vs) = decodeValueWith f v # decode_items f vs"
| "decodeChildren f [] = []"
| "decodeChildren f ((k, v) # kvs) = (k, decodeValueWith f v) # decodeChildren f kvs"
  by pat_completeness auto
termination
  by (relation "measure (\<lambda>x. case x of Inl (f, v) \<Rightarrow> size v | Inr (Inl (f, vs)) \<Rightarrow> size_list size vs
      | Inr (Inr (f, kvs)) \<Rightarrow> size_list (size_prod (\<lambda>_. 0) size) kvs)") (auto dest!: isEscapedValue_Some)

text \<open>The references a value holds, in the order the decoder meets them.\<close>

function (sequential) artifact_refs :: "jv \<Rightarrow> artifact_ref list"
  and item_refs :: "jv list \<Rightarrow> artifact_ref list"
  and child_refs :: "(string \<times> jv) list \<Rightarrow> artifact_ref list" where
  "artifact_refs (JObj kvs) = (case isArtifactValue kvs of
     Some r \<Rightarrow> [r]
   | None \<Rightarrow> (case isEscapedValue kvs of Some inner \<Rightarrow> child_refs inner | None \<Rightarrow> child_refs kvs))"
| "artifact_refs (JArr vs) = item_refs vs"
| "artifact_refs v = []"
| "item_refs [] = []"
| "item_refs (v # vs) = artifact_refs v @ item_refs vs"
| "child_refs [] = []"
| "child_refs ((k, v) # kvs) = artifact_refs v @ child_refs kvs"
  by pat_completeness auto
termination
  by (relation "measure (\<lambda>x. case x of Inl v \<Rightarrow> size v | Inr (Inl vs) \<Rightarrow> size_list size vs
      | Inr (Inr kvs) \<Rightarrow> size_list (size_prod (\<lambda>_. 0) size) kvs)") (auto dest!: isEscapedValue_Some)

text \<open>\<open>path.resolve\<close> against an absolute, normalised directory.\<close>

definition path_step :: "string \<Rightarrow> string list \<Rightarrow> string list" where
  "path_step s dir = (if s = [] \<or> s = ''.'' then dir else if s = ''..'' then butlast dir else dir @ [s])"

definition path_resolve :: "string list \<Rightarrow> string \<Rightarrow> string list" where
  "path_resolve dir rel = fold path_step (split_on CHR ''/'' rel) (if starts_with rel ''/'' then [] else dir)"

text \<open>\<open>resolved.startsWith(dir + sep)\<close>\<close>

definition inside :: "string list \<Rightarrow> string list \<Rightarrow> bool" where
  "inside dir p \<longleftrightarrow> dir \<noteq> [] \<and> take (length dir) p = dir \<and> length dir < length p"

datatype artifact_error = PathEscapes string | ReadFailed string

text \<open>\<open>disk\<close> holds the texts of the files by absolute path.\<close>

fun read_refs ::
    "string list \<Rightarrow> (string list \<Rightarrow> string option) \<Rightarrow> artifact_ref list \<Rightarrow> string obj \<Rightarrow> (artifact_error, string obj) result" where
  "read_refs dir disk [] contents = Inr contents"
| "read_refs dir disk (r # rs) contents =
     (if has_own contents (ar_path r) then read_refs dir disk rs contents
      else if \<not> inside dir (path_resolve dir (ar_path r)) then Inl (PathEscapes (ar_path r))
      else (case disk (path_resolve dir (ar_path r)) of
        None \<Rightarrow> Inl (ReadFailed (ar_path r))
      | Some text \<Rightarrow> read_refs dir disk rs (obj_put (ar_path r) text contents)))"

definition resolveArtifacts ::
    "string list \<Rightarrow> (string list \<Rightarrow> string option) \<Rightarrow> jv \<Rightarrow> (artifact_error, jv) result" where
  "resolveArtifacts dir disk v = (case read_refs dir disk (artifact_refs v) [] of
     Inl e \<Rightarrow> Inl e
   | Inr contents \<Rightarrow> Inr (decodeValueWith
       (\<lambda>r. case obj_get contents (ar_path r) of None \<Rightarrow> JNull | Some text \<Rightarrow> JStr text) v))"

end
