(* ===== verification/ArtifactLaws.thy ===== *)
theory ArtifactLaws
  imports Artifacts JsonRoundtrip
begin

text \<open>
  What externalisation promises: an encoded value is a JSON value that decodes to the original with
  the files the writer left, and decoding reads nothing outside the bundle directory.
\<close>

section \<open>The strings that move out\<close>

fun big_strings :: "nat \<Rightarrow> jv \<Rightarrow> string list"
  and big_items :: "nat \<Rightarrow> jv list \<Rightarrow> string list"
  and big_fields :: "nat \<Rightarrow> (string \<times> jv) list \<Rightarrow> string list" where
  "big_strings n (JStr s) = (if utf8_length s \<le> n then [] else [s])"
| "big_strings n (JArr vs) = big_items n vs"
| "big_strings n (JObj kvs) = big_fields n kvs"
| "big_strings n v = []"
| "big_items n [] = []"
| "big_items n (v # vs) = big_strings n v @ big_items n vs"
| "big_fields n [] = []"
| "big_fields n ((k, v) # kvs) = big_strings n v @ big_fields n kvs"

definition ref_of :: "(string \<Rightarrow> string) \<Rightarrow> string \<Rightarrow> artifact_ref" where
  "ref_of sha s = \<lparr>ar_path = artifact_path (sha s), ar_media = ''text/plain'', ar_bytes = utf8_length s,
     ar_sha256 = sha s\<rparr>"

definition short_enough :: "string \<Rightarrow> bool" where
  "short_enough s \<longleftrightarrow> int (utf8_length s) \<le> MAX_SAFE_INTEGER"

lemma safe_nat_jnat: "int n \<le> MAX_SAFE_INTEGER \<Longrightarrow> safe_nat (jnat n) = Some n"
  by (simp add: nat_dec_def dec_digits_nonempty dec_digits_digits)

lemma isArtifactValue_ref:
  "short_enough s \<Longrightarrow> isArtifactValue [(''$artifact'', JObj [(''path'', JStr (artifact_path (sha s))),
     (''mediaType'', JStr ''text/plain''), (''bytes'', jnat (utf8_length s)), (''sha256'', JStr (sha s))])]
   = Some (ref_of sha s)"
  by (simp add: isArtifactValue_def isArtifactRef_def field_def obj_get_def ref_of_def safe_nat_jnat
      short_enough_def del: safe_nat.simps)

lemma sentinel_needs_escape:
  "\<not> needsEscape kvs \<Longrightarrow> isArtifactValue kvs = None" "\<not> needsEscape kvs \<Longrightarrow> isEscapedValue kvs = None"
  by (auto simp: needsEscape_def isArtifactValue_def isEscapedValue_def split: list.splits prod.splits jv.splits)

lemma needsEscape_keys: "map fst kvs = map fst kvs' \<Longrightarrow> needsEscape kvs = needsEscape kvs'"
  by (cases kvs; cases kvs'; cases "tl kvs"; cases "tl kvs'") (auto simp: needsEscape_def)

lemma escaped_not_artifact [simp]:
  "isArtifactValue [(''$escaped'', v)] = None" "isEscapedValue [(''$escaped'', JObj kvs)] = Some kvs"
  by (simp_all add: isArtifactValue_def isEscapedValue_def)

section \<open>Decoding what was encoded\<close>

text \<open>The encoding of the value does not depend on what the writer already holds.\<close>

fun encoded :: "(string \<Rightarrow> string) \<Rightarrow> nat \<Rightarrow> jv \<Rightarrow> jv"
  and encoded_items :: "(string \<Rightarrow> string) \<Rightarrow> nat \<Rightarrow> jv list \<Rightarrow> jv list"
  and encoded_fields :: "(string \<Rightarrow> string) \<Rightarrow> nat \<Rightarrow> (string \<times> jv) list \<Rightarrow> (string \<times> jv) list" where
  "encoded sha n (JStr s) = (if utf8_length s \<le> n then JStr s else fst (externalize sha s new_writer))"
| "encoded sha n (JArr vs) = JArr (encoded_items sha n vs)"
| "encoded sha n (JObj kvs) = (if needsEscape kvs then JObj [(''$escaped'', JObj (encoded_fields sha n kvs))]
     else JObj (encoded_fields sha n kvs))"
| "encoded sha n v = v"
| "encoded_items sha n [] = []"
| "encoded_items sha n (v # vs) = encoded sha n v # encoded_items sha n vs"
| "encoded_fields sha n [] = []"
| "encoded_fields sha n ((k, v) # kvs) = (k, encoded sha n v) # encoded_fields sha n kvs"

lemma fst_externalize: "fst (externalize sha s w) = fst (externalize sha s new_writer)"
  by (simp add: externalize_def Let_def)

lemma encode_is_encoded:
  "fst (encodeValue sha n v w) = encoded sha n v"
  "fst (encode_items sha n vs w) = encoded_items sha n vs"
  "fst (encode_fields sha n kvs w) = encoded_fields sha n kvs"
  by (induction sha n v w and sha n vs w and sha n kvs w rule: encodeValue_encode_items_encode_fields.induct)
    (auto simp: fst_externalize[of _ _ w] split: prod.splits intro: fst_externalize)

lemma encoded_fields_keys: "map fst (encoded_fields sha n kvs) = map fst kvs"
  by (induction sha n kvs rule: encoded_encoded_items_encoded_fields.induct(3)) auto

lemma encoded_sentinel:
  "\<not> needsEscape kvs \<Longrightarrow> isArtifactValue (encoded_fields sha n kvs) = None"
  "\<not> needsEscape kvs \<Longrightarrow> isEscapedValue (encoded_fields sha n kvs) = None"
  by (metis encoded_fields_keys needsEscape_keys sentinel_needs_escape)+


lemma decode_encoded:
  "(\<And>s. s \<in> set (big_strings n v) \<Longrightarrow> f (ref_of sha s) = JStr s) \<Longrightarrow> list_all short_enough (big_strings n v) \<Longrightarrow>
     json_value v \<Longrightarrow> decodeValueWith f (encoded sha n v) = v"
  "(\<And>s. s \<in> set (big_items n vs) \<Longrightarrow> f (ref_of sha s) = JStr s) \<Longrightarrow> list_all short_enough (big_items n vs) \<Longrightarrow>
     list_all json_value vs \<Longrightarrow> decode_items f (encoded_items sha n vs) = vs"
  "(\<And>s. s \<in> set (big_fields n kvs) \<Longrightarrow> f (ref_of sha s) = JStr s) \<Longrightarrow> list_all short_enough (big_fields n kvs) \<Longrightarrow>
     list_all (\<lambda>kv. json_value (snd kv)) kvs \<Longrightarrow> decodeChildren f (encoded_fields sha n kvs) = kvs"
proof (induction sha n v and sha n vs and sha n kvs rule: encoded_encoded_items_encoded_fields.induct)
  case (1 sha n s)
  then show ?case
    by (cases "utf8_length s \<le> n") (simp_all add: externalize_def Let_def isArtifactValue_ref)
next
  case (3 sha n kvs)
  have "decodeChildren f (encoded_fields sha n kvs) = kvs"
    using 3 by (cases "needsEscape kvs") simp_all
  then show ?case by (simp add: encoded_sentinel)
qed simp_all

lemma refs_encoded:
  "list_all short_enough (big_strings n v) \<Longrightarrow> artifact_refs (encoded sha n v) = map (ref_of sha) (big_strings n v)"
  "list_all short_enough (big_items n vs) \<Longrightarrow> item_refs (encoded_items sha n vs) = map (ref_of sha) (big_items n vs)"
  "list_all short_enough (big_fields n kvs) \<Longrightarrow>
     child_refs (encoded_fields sha n kvs) = map (ref_of sha) (big_fields n kvs)"
proof (induction sha n v and sha n vs and sha n kvs rule: encoded_encoded_items_encoded_fields.induct)
  case (1 sha n s)
  then show ?case
    by (cases "utf8_length s \<le> n") (simp_all add: externalize_def Let_def isArtifactValue_ref)
next
  case (3 sha n kvs)
  then show ?case by (simp add: encoded_sentinel)
qed simp_all

section \<open>The encoding is JSON\<close>

lemma js_ordered_single: "js_ordered [(k, v)]"
  by (simp add: js_ordered_def js_order_def)

lemma js_ordered_ref: "js_ordered [(''path'', a), (''mediaType'', b), (''bytes'', c), (''sha256'', d)]"
  by (simp add: js_ordered_def js_order_def is_index_def is_digit_def code_of_def)

lemma encoded_fields_map: "encoded_fields sha n kvs = map (\<lambda>(k, v). (k, encoded sha n v)) kvs"
  by (induction kvs) auto

lemma is_num_digits:
  assumes "list_all is_digit s" "s \<noteq> []" "s = ''0'' \<or> hd s \<noteq> CHR ''0''"
  shows "is_num_text s"
proof -
  have "takeWhile is_digit s = s" "dropWhile is_digit s = []"
    using assms(1) by (auto simp: list_all_iff)
  then have "unsigned_part s \<longleftrightarrow> s \<noteq> [] \<and> (s = ''0'' \<or> hd s \<noteq> CHR ''0'')"
    by (simp only: unsigned_part_def frac_exp_part_def) simp
  then have "unsigned_part s" using assms(2,3) by simp
  moreover have "list_all num_char s" using assms(1) by (auto simp: list_all_iff num_char_def)
  moreover have "hd s \<noteq> CHR ''-''" using assms(1,2) by (cases s) (auto simp: is_digit_def code_of_def)
  ultimately show ?thesis using assms(2) by (cases s) (auto simp: is_num_text_def)
qed

lemma is_num_nat_dec: "is_num_text (nat_dec n)"
proof (rule is_num_digits)
  show "nat_dec n = ''0'' \<or> hd (nat_dec n) \<noteq> CHR ''0''"
    using dec_digits_head[of n] by (cases "n = 0") (auto simp: nat_dec_def dec_digits.simps digit_chars)
qed (simp_all add: nat_dec_def dec_digits_digits dec_digits_nonempty)

lemma json_value_encoded:
  "json_value v \<Longrightarrow> json_value (encoded sha n v)"
  "list_all json_value vs \<Longrightarrow> list_all json_value (encoded_items sha n vs)"
  "list_all (\<lambda>kv. json_value (snd kv)) kvs \<Longrightarrow> list_all (\<lambda>kv. json_value (snd kv)) (encoded_fields sha n kvs)"
proof (induction sha n v and sha n vs and sha n kvs rule: encoded_encoded_items_encoded_fields.induct)
  case (1 sha n s)
  then show ?case by (simp add: externalize_def Let_def js_ordered_single js_ordered_ref is_num_nat_dec)
next
  case (3 sha n kvs)
  moreover have "js_ordered (encoded_fields sha n kvs)"
    using 3 by (simp add: encoded_fields_map js_ordered_map_snd)
  ultimately show ?case by (simp add: js_ordered_single)
qed simp_all

section \<open>The files the writer leaves\<close>

definition writer_ok :: "(string \<Rightarrow> string) \<Rightarrow> string set \<Rightarrow> artifact_writer \<Rightarrow> bool" where
  "writer_ok sha A w \<longleftrightarrow>
     (\<forall>h \<in> set (wr_written w). \<exists>s \<in> A. sha s = h \<and> obj_get (wr_files w) (artifact_path h) = Some s)"

definition covers :: "(string \<Rightarrow> string) \<Rightarrow> string set \<Rightarrow> string list \<Rightarrow> artifact_writer \<Rightarrow> artifact_writer \<Rightarrow> bool" where
  "covers sha A ss w w' \<longleftrightarrow> (writer_ok sha A w \<and> set ss \<subseteq> A \<longrightarrow> writer_ok sha A w' \<and>
     set (wr_written w) \<union> sha ` set ss \<subseteq> set (wr_written w'))"

lemma covers_refl: "covers sha A [] w w"
  by (simp add: covers_def)

lemma covers_trans: "covers sha A ss w w' \<Longrightarrow> covers sha A ts w' w'' \<Longrightarrow> covers sha A (ss @ ts) w w''"
  unfolding covers_def by (auto simp: image_Un)

lemma artifact_path_inj [simp]: "artifact_path h = artifact_path h' \<longleftrightarrow> h = h'"
  by (simp add: artifact_path_def)

lemma covers_externalize: "covers sha A [s] w (snd (externalize sha s w))"
  by (auto simp: covers_def writer_ok_def externalize_def Let_def)

lemma covers_encode:
  "covers sha A (big_strings n v) w (snd (encodeValue sha n v w))"
  "covers sha A (big_items n vs) w (snd (encode_items sha n vs w))"
  "covers sha A (big_fields n kvs) w (snd (encode_fields sha n kvs w))"
proof (induction sha n v w and sha n vs w and sha n kvs w rule: encodeValue_encode_items_encode_fields.induct)
  case (1 sha n s w)
  then show ?case by (simp add: covers_refl covers_externalize)
next
qed (auto simp: covers_refl split: prod.splits intro: covers_trans)

section \<open>Reading the bundle\<close>

lemma artifact_place:
  assumes "CHR ''/'' \<notin> set h"
  shows "path_resolve dir (artifact_path h) = dir @ [''artifacts'', ''sha256-'' @ h @ ''.txt'']"
proof -
  have split: "split_on CHR ''/'' xs = [xs]" if "CHR ''/'' \<notin> set xs" for xs
    using that by (induction xs) auto
  have "split_on CHR ''/'' (''artifacts/'' @ xs) = ''artifacts'' # split_on CHR ''/'' xs" for xs
    by simp
  from this[of "''sha256-'' @ h @ ''.txt''"]
  have "split_on CHR ''/'' (artifact_path h) = [''artifacts'', ''sha256-'' @ h @ ''.txt'']"
    using assms(1) by (simp add: artifact_path_def split)
  then show ?thesis
    by (simp add: path_resolve_def path_step_def artifact_path_def starts_with_def)
qed

lemma path_inside_bundle:
  "CHR ''/'' \<notin> set h \<Longrightarrow> dir \<noteq> [] \<Longrightarrow> inside dir (path_resolve dir (artifact_path h))"
  by (simp add: artifact_place inside_def)

lemma read_own_refs:
  assumes "\<forall>s \<in> set ss. disk (path_resolve dir (artifact_path (sha s))) = Some s"
    and "\<forall>s \<in> set ss. inside dir (path_resolve dir (artifact_path (sha s)))"
    and "inj_on sha A" "set ss \<subseteq> A"
    and "\<forall>s \<in> A. obj_get c (artifact_path (sha s)) \<in> {None, Some s}"
  shows "\<exists>c'. read_refs dir disk (map (ref_of sha) ss) c = Inr c' \<and>
    (\<forall>s \<in> A. obj_get c' (artifact_path (sha s)) \<in> {None, Some s} \<and>
      (s \<in> set ss \<or> obj_get c (artifact_path (sha s)) \<noteq> None \<longrightarrow> obj_get c' (artifact_path (sha s)) = Some s))"
  using assms
proof (induction ss arbitrary: c)
  case Nil
  then show ?case by auto
next
  case (Cons s ss)
  let ?p = "artifact_path (sha s)"
  have A: "s \<in> A" and rest: "set ss \<subseteq> A" using Cons.prems(4) by auto
  have eq: "sha t = sha s \<longleftrightarrow> t = s" if "t \<in> A" for t
    using Cons.prems(3) A that by (auto simp: inj_on_def)
  show ?case
  proof (cases "has_own c ?p")
    case True
    then have "obj_get c ?p = Some s" using Cons.prems(5) A by (auto simp: has_own_iff)
    then show ?thesis
      using Cons.IH[of c] Cons.prems(1,2,5) rest True \<open>inj_on sha A\<close> by (auto simp: ref_of_def)
  next
    case False
    let ?c = "obj_put ?p s c"
    have "\<forall>t \<in> A. obj_get ?c (artifact_path (sha t)) \<in> {None, Some t}"
      using Cons.prems(5) eq by auto
    then obtain c' where c': "read_refs dir disk (map (ref_of sha) ss) ?c = Inr c'"
      "\<forall>t \<in> A. obj_get c' (artifact_path (sha t)) \<in> {None, Some t} \<and>
        (t \<in> set ss \<or> obj_get ?c (artifact_path (sha t)) \<noteq> None \<longrightarrow> obj_get c' (artifact_path (sha t)) = Some t)"
      using Cons.IH[of ?c] Cons.prems(1,2) rest \<open>inj_on sha A\<close> by auto
    have "read_refs dir disk (map (ref_of sha) (s # ss)) c = Inr c'"
      using False Cons.prems(1,2) c'(1) by (simp add: ref_of_def)
    then show ?thesis using c'(2) eq by (intro exI[of _ c']) auto
  qed
qed

text \<open>C22: what a run writes to its bundle reads back: an externalised value is JSON, and parsing its text
  and resolving its references against the files the writer left gives the value, as long as the hash
  separates the strings moved out\<close>

theorem artifact_roundtrip:
  assumes "json_value v" "inj_on sha (set (big_strings n v))" "\<forall>s. CHR ''/'' \<notin> set (sha s)"
    and "list_all short_enough (big_strings n v)" "dir \<noteq> []"
    and "encodeValue sha n v new_writer = (v', w)"
    and "\<forall>p s. obj_get (wr_files w) p = Some s \<longrightarrow> disk (path_resolve dir p) = Some s"
  shows "\<exists>t. json_text v' = Some t \<and> json_parse t = Some v' \<and> resolveArtifacts dir disk v' = Inr v"
proof -
  let ?A = "set (big_strings n v)"
  have v': "v' = encoded sha n v" using encode_is_encoded(1)[of sha n v new_writer] assms(6) by simp
  have "covers sha ?A (big_strings n v) new_writer w"
    using covers_encode(1)[where w = new_writer and v = v and sha = sha and n = n] assms(6) by simp
  then have "writer_ok sha ?A w" "sha ` ?A \<subseteq> set (wr_written w)"
    by (auto simp: covers_def writer_ok_def new_writer_def)
  note left = this
  have disk: "\<forall>s \<in> ?A. disk (path_resolve dir (artifact_path (sha s))) = Some s"
  proof
    fix s assume s: "s \<in> ?A"
    then obtain t where t: "t \<in> ?A" "sha t = sha s" "obj_get (wr_files w) (artifact_path (sha s)) = Some t"
      using left by (auto simp: writer_ok_def)
    then have "t = s" using assms(2) s by (auto dest: inj_onD)
    then show "disk (path_resolve dir (artifact_path (sha s))) = Some s" using t(3) assms(7) by blast
  qed
  have "\<forall>s \<in> ?A. inside dir (path_resolve dir (artifact_path (sha s)))"
    using path_inside_bundle assms(3,5) by blast
  then obtain c where c: "read_refs dir disk (map (ref_of sha) (big_strings n v)) [] = Inr c"
      "\<forall>s \<in> ?A. obj_get c (artifact_path (sha s)) = Some s"
    using read_own_refs[OF disk _ assms(2), of "[]"] by auto
  let ?f = "\<lambda>r. case obj_get c (ar_path r) of None \<Rightarrow> JNull | Some text \<Rightarrow> JStr text"
  have "?f (ref_of sha s) = JStr s" if "s \<in> ?A" for s using c(2) that by (simp add: ref_of_def)
  then have "decodeValueWith ?f v' = v" using decode_encoded(1)[of n v ?f sha] assms(1,4) v' by simp
  then have "resolveArtifacts dir disk v' = Inr v"
    using c(1) by (simp add: resolveArtifacts_def v' refs_encoded(1)[OF assms(4)])
  moreover have "json_value v'" using assms(1) v' json_value_encoded(1) by simp
  ultimately show ?thesis using json_value_text json_parse_text by blast
qed

text \<open>The disk of a bundle directory after the writer's files were written.\<close>

definition bundle_disk :: "string list \<Rightarrow> artifact_writer \<Rightarrow> string list \<Rightarrow> string option" where
  "bundle_disk dir w = map_of (map (\<lambda>(p, s). (path_resolve dir p, s)) (wr_files w))"

definition sample_value :: jv where
  "sample_value = JArr [JStr ''abcdef'', JObj [(''$artifact'', JStr ''xy'')], JStr ''ghijkl'', JStr ''abcdef'']"

definition sample_sha :: "string \<Rightarrow> string" where
  "sample_sha s = (if s = ''abcdef'' then ''a'' else if s = ''ghijkl'' then ''b'' else ''c'')"

theorem artifact_roundtrip_witness:
  "\<exists>t. json_text (fst (encodeValue sample_sha 4 sample_value new_writer)) = Some t \<and>
     json_parse t = Some (fst (encodeValue sample_sha 4 sample_value new_writer)) \<and>
     resolveArtifacts [''run''] (bundle_disk [''run''] (snd (encodeValue sample_sha 4 sample_value new_writer)))
       (fst (encodeValue sample_sha 4 sample_value new_writer)) = Inr sample_value"
proof (rule artifact_roundtrip)
  let ?w = "snd (encodeValue sample_sha 4 sample_value new_writer)"
  show "json_value sample_value" by code_simp
  have big: "big_strings 4 sample_value = [''abcdef'', ''ghijkl'', ''abcdef'']" by code_simp
  show "inj_on sample_sha (set (big_strings 4 sample_value))"
    unfolding big by (simp add: inj_on_def sample_sha_def)
  show "\<forall>s. CHR ''/'' \<notin> set (sample_sha s)" by (simp add: sample_sha_def)
  show "list_all short_enough (big_strings 4 sample_value)" by code_simp
  show "encodeValue sample_sha 4 sample_value new_writer =
      (fst (encodeValue sample_sha 4 sample_value new_writer), ?w)" by simp
  have "list_all (\<lambda>(p, s). bundle_disk [''run''] ?w (path_resolve [''run''] p) = Some s) (wr_files ?w)"
    by code_simp
  then show "\<forall>p s. obj_get (wr_files ?w) p = Some s \<longrightarrow> bundle_disk [''run''] ?w (path_resolve [''run''] p) = Some s"
    by (auto simp: list_all_iff obj_get_def dest!: map_of_SomeD)
qed simp

lemma read_refs_agree:
  "\<forall>p. inside dir p \<longrightarrow> disk p = disk' p \<Longrightarrow> read_refs dir disk rs c = read_refs dir disk' rs c"
  by (induction dir disk rs c rule: read_refs.induct) (auto split: option.splits)

lemma read_refs_escape:
  assumes "r \<in> set rs" "\<not> inside dir (path_resolve dir (ar_path r))" "\<not> has_own c (ar_path r)"
  shows "\<exists>e. read_refs dir disk rs c = Inl e"
  using assms
proof (induction rs arbitrary: c)
  case (Cons q qs)
  then show ?case by (cases "ar_path q = ar_path r") (auto simp: has_own_iff split: option.splits)
qed simp

text \<open>C34: resolving artifacts reads nothing outside the bundle: two disks that agree inside the run
  directory give the same result, and a value holding a reference that leaves it is refused\<close>

theorem artifacts_stay_in_bundle:
  assumes "\<forall>p. inside dir p \<longrightarrow> disk p = disk' p"
  shows "resolveArtifacts dir disk v = resolveArtifacts dir disk' v \<and>
    ((\<exists>r \<in> set (artifact_refs v). \<not> inside dir (path_resolve dir (ar_path r))) \<longrightarrow>
      (\<exists>e. resolveArtifacts dir disk v = Inl e))"
proof (intro conjI impI)
  show "resolveArtifacts dir disk v = resolveArtifacts dir disk' v"
    using read_refs_agree[OF assms] by (simp add: resolveArtifacts_def)
next
  assume "\<exists>r \<in> set (artifact_refs v). \<not> inside dir (path_resolve dir (ar_path r))"
  then obtain r e where "r \<in> set (artifact_refs v)" "read_refs dir disk (artifact_refs v) [] = Inl e"
    using read_refs_escape[where c = "[]"] by (metis has_own_iff obj_get_Nil)
  then show "\<exists>e. resolveArtifacts dir disk v = Inl e" by (simp add: resolveArtifacts_def)
qed

definition sneaky :: jv where
  "sneaky = JObj [(''$artifact'', JObj [(''path'', JStr ''../secret''), (''mediaType'', JStr ''text/plain''),
     (''bytes'', jnat 3), (''sha256'', JStr ''x'')])]"

definition two_disks :: "bool \<Rightarrow> string list \<Rightarrow> string option" where
  "two_disks b p = (if p = [''secret''] then Some (if b then ''one'' else ''two'') else None)"

theorem artifacts_stay_in_bundle_witness:
  "resolveArtifacts [''run''] (two_disks True) sneaky = resolveArtifacts [''run''] (two_disks False) sneaky \<and>
     (\<exists>e. resolveArtifacts [''run''] (two_disks True) sneaky = Inl e)"
proof -
  have agree: "\<forall>p. inside [''run''] p \<longrightarrow> two_disks True p = two_disks False p"
    by (auto simp: inside_def two_disks_def)
  have "\<exists>r \<in> set (artifact_refs sneaky). \<not> inside [''run''] (path_resolve [''run''] (ar_path r))"
    by code_simp
  then show ?thesis using artifacts_stay_in_bundle[OF agree, of sneaky] by blast
qed

end
