(* ===== verification/BundleShapes.thy ===== *)
theory BundleShapes
  imports Artifacts JsTime
begin

text \<open>
  The shape checks on the files of a run bundle (src/workflows/store.ts): manifest, run state,
  definition snapshot, trace events and session records, as predicates on parsed JSON.  A validator
  answers the message of its first complaint.
\<close>

section \<open>Vocabulary\<close>

definition isNonEmptyString :: "jv \<Rightarrow> bool" where
  "isNonEmptyString v = (case v of JStr s \<Rightarrow> s \<noteq> [] | _ \<Rightarrow> False)"

fun isRecord :: "jv \<Rightarrow> jv obj option" where
  "isRecord (JObj ob) = Some ob"
| "isRecord JExotic = Some []"
| "isRecord _ = None"

definition isValidTimestamp :: "jv \<Rightarrow> bool" where
  "isValidTimestamp v = (case v of JStr s \<Rightarrow> s \<noteq> [] \<and> date_parse s \<noteq> None | _ \<Rightarrow> False)"

definition is_str :: "jv \<Rightarrow> bool" where
  "is_str v = (text_of v \<noteq> None)"

definition optional :: "(jv \<Rightarrow> bool) \<Rightarrow> jv \<Rightarrow> bool" where
  "optional p v \<longleftrightarrow> v = JUndef \<or> p v"

definition one_of :: "string list \<Rightarrow> jv \<Rightarrow> bool" where
  "one_of names v = (case v of JStr s \<Rightarrow> s \<in> set names | _ \<Rightarrow> False)"

definition is_finite_num :: "jv \<Rightarrow> bool" where
  "is_finite_num v = (case v of JNum (NumFin t) \<Rightarrow> True | JNum NumNegZero \<Rightarrow> True | _ \<Rightarrow> False)"

definition isSafeInteger :: "jv \<Rightarrow> bool" where
  "isSafeInteger v = (safe_nat v \<noteq> None \<or>
     (case v of JNum (NumFin t) \<Rightarrow> t \<noteq> [] \<and> hd t = CHR ''-'' \<and> safe_nat (JNum (NumFin (tl t))) \<noteq> None | _ \<Rightarrow> False))"

definition positive_int :: "jv \<Rightarrow> bool" where
  "positive_int v = (case safe_nat v of Some n \<Rightarrow> 1 \<le> n | None \<Rightarrow> False)"

definition all_items :: "(jv \<Rightarrow> bool) \<Rightarrow> jv \<Rightarrow> bool" where
  "all_items p v = (case v of JArr vs \<Rightarrow> list_all p vs | _ \<Rightarrow> False)"

definition all_values :: "(jv \<Rightarrow> bool) \<Rightarrow> jv \<Rightarrow> bool" where
  "all_values p v = (case isRecord v of Some ob \<Rightarrow> list_all (\<lambda>kv. p (snd kv)) ob | None \<Rightarrow> False)"

definition WORKFLOW_NODE_TYPES :: "string list" where
  "WORKFLOW_NODE_TYPES = [''agent'', ''compute'', ''notify'', ''action'', ''checkpoint'']"

definition WORKFLOW_NODE_OUTCOMES :: "string list" where
  "WORKFLOW_NODE_OUTCOMES = [''ok'', ''timed_out'', ''failed'', ''cancelled'']"

definition WORKFLOW_RUN_STATUSES :: "string list" where
  "WORKFLOW_RUN_STATUSES = [''running'', ''waiting'', ''completed'', ''failed'', ''timed_out'', ''cancelled'']"

definition TERMINAL_WORKFLOW_RUN_STATUSES :: "string list" where
  "TERMINAL_WORKFLOW_RUN_STATUSES = [''completed'', ''failed'', ''timed_out'', ''cancelled'']"

definition RUN_BUNDLE_SCHEMA :: string where "RUN_BUNDLE_SCHEMA = ''pi-workflows.run-bundle.v1''"
definition RUN_STATE_SCHEMA :: string where "RUN_STATE_SCHEMA = ''pi-workflows.run-state.v1''"
definition TRACE_EVENT_SCHEMA :: string where "TRACE_EVENT_SCHEMA = ''pi-workflows.trace-event.v1''"
definition SESSION_EVENT_SCHEMA :: string where "SESSION_EVENT_SCHEMA = ''pi-workflows.session-event.v1''"
definition SESSION_CAPTURE_SCHEMA :: string where "SESSION_CAPTURE_SCHEMA = ''pi-workflows.session-capture.v1''"
definition SESSION_BINDING_SCHEMA :: string where "SESSION_BINDING_SCHEMA = ''pi-workflows.session-binding.v1''"
definition DEFINITION_SNAPSHOT_SCHEMA :: string where
  "DEFINITION_SNAPSHOT_SCHEMA = ''pi-workflows.definition-snapshot.v1''"

section \<open>Records\<close>

definition isWorkflowSourceShape :: "jv \<Rightarrow> bool" where
  "isWorkflowSourceShape v = (case isRecord v of
     None \<Rightarrow> False
   | Some ob \<Rightarrow>
       if field ob ''kind'' = JStr ''builtin''
       then isNonEmptyString (field ob ''id'') \<and> isNonEmptyString (field ob ''revision'')
       else if field ob ''kind'' = JStr ''file''
       then isNonEmptyString (field ob ''path'') \<and> isNonEmptyString (field ob ''hash'')
       else False)"

definition isActionReceiptShape :: "jv \<Rightarrow> bool" where
  "isActionReceiptShape v = (case isRecord v of
     None \<Rightarrow> False
   | Some ob \<Rightarrow>
       one_of [''shell'', ''function''] (field ob ''actionType'') \<and>
       optional is_str (field ob ''command'') \<and>
       optional (all_items is_str) (field ob ''args'') \<and>
       optional is_str (field ob ''cwd'') \<and>
       optional (\<lambda>x. x = JNull \<or> isSafeInteger x) (field ob ''exitCode'') \<and>
       optional (\<lambda>x. x = JNull \<or> is_str x) (field ob ''signal'') \<and>
       optional is_finite_num (field ob ''durationMs''))"

definition isProjectionStep :: "jv \<Rightarrow> bool" where
  "isProjectionStep v = (case isRecord v of
     None \<Rightarrow> False
   | Some ob \<Rightarrow>
       isNonEmptyString (field ob ''attemptId'') \<and> isNonEmptyString (field ob ''nodeId'') \<and>
       one_of WORKFLOW_NODE_TYPES (field ob ''nodeType'') \<and>
       one_of WORKFLOW_NODE_OUTCOMES (field ob ''outcome'') \<and>
       isValidTimestamp (field ob ''startedAt'') \<and> isValidTimestamp (field ob ''finishedAt'') \<and>
       optional is_str (field ob ''error'') \<and> optional isActionReceiptShape (field ob ''action''))"

definition isNodeResultShape :: "jv \<Rightarrow> bool" where
  "isNodeResultShape v = (case isRecord v of
     None \<Rightarrow> False
   | Some ob \<Rightarrow>
       isNonEmptyString (field ob ''attemptId'') \<and> isNonEmptyString (field ob ''nodeId'') \<and>
       one_of WORKFLOW_NODE_TYPES (field ob ''nodeType'') \<and>
       one_of WORKFLOW_NODE_OUTCOMES (field ob ''outcome'') \<and>
       isValidTimestamp (field ob ''startedAt'') \<and> isValidTimestamp (field ob ''finishedAt'') \<and>
       is_finite_num (field ob ''durationMs'') \<and> optional is_str (field ob ''error''))"

definition isUpdateRecordShape :: "jv \<Rightarrow> bool" where
  "isUpdateRecordShape v = (case isRecord v of
     None \<Rightarrow> False
   | Some ob \<Rightarrow>
       isNonEmptyString (field ob ''updateId'') \<and> positive_int (field ob ''seq'') \<and>
       isValidTimestamp (field ob ''at'') \<and> isNonEmptyString (field ob ''runId'') \<and>
       isNonEmptyString (field ob ''nodeId'') \<and> isNonEmptyString (field ob ''attemptId'') \<and>
       isNonEmptyString (field ob ''type'') \<and> isNonEmptyString (field ob ''key'') \<and>
       isRecord (field ob ''data'') \<noteq> None)"

definition isHumanDecisionReceiptShape :: "jv \<Rightarrow> bool" where
  "isHumanDecisionReceiptShape v = (case isRecord v of
     None \<Rightarrow> False
   | Some ob \<Rightarrow> (case isRecord (field ob ''response'') of
       None \<Rightarrow> False
     | Some r \<Rightarrow> isNonEmptyString (field ob ''nodeId'') \<and> isNonEmptyString (field r ''choice'')))"

section \<open>Manifest and state\<close>

definition validateRunManifestShape :: "jv obj \<Rightarrow> string option" where
  "validateRunManifestShape m = first_failure
    ([(isNonEmptyString (field m ''runId''), ''malformed_manifest: runId must be a string''),
      (isNonEmptyString (field m ''workflowName''), ''malformed_manifest: workflowName must be a string''),
      (optional is_str (field m ''runTitle''), ''malformed_manifest: runTitle must be a string when present''),
      (isValidTimestamp (field m ''startedAt''), ''malformed_manifest: startedAt must be a valid timestamp string''),
      (optional isValidTimestamp (field m ''finishedAt''),
        ''malformed_manifest: finishedAt must be a valid timestamp string when present''),
      (one_of WORKFLOW_RUN_STATUSES (field m ''status''), ''malformed_manifest: status is invalid''),
      (field m ''traceSchema'' = JStr TRACE_EVENT_SCHEMA, ''malformed_manifest: traceSchema is invalid''),
      (isRecord (field m ''paths'') \<noteq> None, ''malformed_manifest: paths must be a record'')] @
     (case isRecord (field m ''paths'') of None \<Rightarrow> [] | Some ps \<Rightarrow>
       map (\<lambda>f. (isNonEmptyString (field ps f), ''malformed_manifest: paths.'' @ f @ '' must be a non-empty string''))
         [''workflow'', ''state'', ''trace''] @
       map (\<lambda>f. (optional isNonEmptyString (field ps f),
           ''malformed_manifest: paths.'' @ f @ '' must be a non-empty string when present''))
         [''session'', ''artifacts'']) @
     [(optional isWorkflowSourceShape (field m ''workflowSource''), ''malformed_manifest: workflowSource is invalid''),
      (optional is_str (field m ''definitionDigest''),
        ''malformed_manifest: definitionDigest must be a string when present'')])"

definition validateRunStateShape :: "jv obj \<Rightarrow> string option" where
  "validateRunStateShape s = first_failure
    ([(safe_nat (field s ''traceSeq'') \<noteq> None, ''malformed_state: traceSeq must be a non-negative safe integer''),
      (isRecord (field s ''outputs'') \<noteq> None, ''malformed_state: outputs must be a record''),
      (all_values isNodeResultShape (field s ''results''),
        ''malformed_state: results must be a record of node results''),
      (all_items (\<lambda>_. True) (field s ''steps''), ''malformed_state: steps must be an array''),
      (all_items isProjectionStep (field s ''steps''), ''malformed_state: steps must contain valid step records''),
      (optional (all_items isUpdateRecordShape) (field s ''updates''),
        ''malformed_state: updates must be an array of update records when present''),
      (isNonEmptyString (field s ''runId''), ''malformed_state: runId must be a non-empty string''),
      (isNonEmptyString (field s ''workflowName''), ''malformed_state: workflowName must be a non-empty string''),
      (one_of WORKFLOW_RUN_STATUSES (field s ''status''), ''malformed_state: status is invalid''),
      (isValidTimestamp (field s ''startedAt''), ''malformed_state: startedAt must be a valid timestamp string''),
      (isValidTimestamp (field s ''updatedAt''), ''malformed_state: updatedAt must be a valid timestamp string''),
      (optional isValidTimestamp (field s ''finishedAt''),
        ''malformed_state: finishedAt must be a valid timestamp string when present'')] @
     map (\<lambda>f. (optional is_str (field s f), ''malformed_state: '' @ f @ '' must be a string when present''))
       [''parentRunId'', ''runTitle'', ''currentNode'', ''waitingOn'', ''error'', ''currentAttemptId'',
        ''statusDetail'', ''definitionDigest''] @
     [(optional isValidTimestamp (field s ''currentNodeStartedAt''),
        ''malformed_state: currentNodeStartedAt must be a valid timestamp string when present''),
      (optional (\<lambda>v. \<exists>b \<in> {True, False}. v = JBool b) (field s ''paused''),
        ''malformed_state: paused must be a boolean when present''),
      (optional isWorkflowSourceShape (field s ''workflowSource''), ''malformed_state: workflowSource is invalid''),
      (optional isHumanDecisionReceiptShape (field s ''humanDecision''),
        ''malformed_state: humanDecision is invalid'')])"

definition validateProjectionState :: "jv obj \<Rightarrow> string option" where
  "validateProjectionState s = (case validateRunStateShape s of
     Some m \<Rightarrow> Some m
   | None \<Rightarrow> first_failure
      [(\<not> one_of TERMINAL_WORKFLOW_RUN_STATUSES (field s ''status'') \<or> isValidTimestamp (field s ''finishedAt''),
          ''malformed_state: finishedAt must be a valid timestamp for a terminal run''),
       (field s ''status'' \<noteq> JStr ''waiting'' \<or> isNonEmptyString (field s ''waitingOn''),
          ''malformed_state: waitingOn must be a non-empty string for a waiting run'')])"

section \<open>Trace events and session bindings\<close>

definition isTraceEventShape :: "jv \<Rightarrow> bool" where
  "isTraceEventShape v = (case isRecord v of
     None \<Rightarrow> False
   | Some ob \<Rightarrow>
       positive_int (field ob ''seq'') \<and> isValidTimestamp (field ob ''at'') \<and>
       one_of [''run'', ''node'', ''agent'', ''action'', ''session''] (field ob ''scope'') \<and>
       isNonEmptyString (field ob ''type'') \<and> isNonEmptyString (field ob ''runId'') \<and>
       optional isNonEmptyString (field ob ''nodeId'') \<and> optional isNonEmptyString (field ob ''attemptId'') \<and>
       isRecord (field ob ''payload'') \<noteq> None)"

definition validateSessionBinding :: "jv obj \<Rightarrow> string option" where
  "validateSessionBinding b = first_failure
     [(isNonEmptyString (field b ''runId''), ''malformed_session_binding: runId must be a non-empty string''),
      (isNonEmptyString (field b ''piSessionId''), ''malformed_session_binding: piSessionId must be a non-empty string''),
      (isNonEmptyString (field b ''cwd''), ''malformed_session_binding: cwd must be a non-empty string''),
      (isValidTimestamp (field b ''boundAt''), ''malformed_session_binding: boundAt must be a valid timestamp string''),
      (optional isNonEmptyString (field b ''piSessionFile''),
        ''malformed_session_binding: piSessionFile must be a non-empty string when present'')]"

section \<open>Definition snapshots\<close>

definition snapshot_node_ok :: "jv \<Rightarrow> bool" where
  "snapshot_node_ok v = (case isRecord v of
     None \<Rightarrow> False
   | Some n \<Rightarrow>
       one_of WORKFLOW_NODE_TYPES (field n ''nodeType'') \<and>
       list_all (\<lambda>f. optional is_str (field n f)) [''statusDetail'', ''summary'', ''localNodeId''] \<and>
       optional (\<lambda>p. field n ''nodeType'' = JStr ''agent'' \<and> p = JStr ''observation-only'') (field n ''toolPolicy'') \<and>
       optional (all_items is_str) (field n ''mountPath'') \<and>
       optional (one_of [''entry'', ''exit'']) (field n ''includeTransition'') \<and>
       optional (\<lambda>h. case isRecord h of None \<Rightarrow> False | Some dec \<Rightarrow>
           isNonEmptyString (field dec ''audience'') \<and>
           all_values (\<lambda>c. case isRecord c of None \<Rightarrow> False | Some cd \<Rightarrow> isNonEmptyString (field cd ''label''))
             (field dec ''choices'')) (field n ''humanDecision''))"

text \<open>\<open>"to" in edge\<close> also finds a key whose value is undefined; parsed JSON has none.\<close>

definition snapshot_edge_ok :: "jv \<Rightarrow> bool" where
  "snapshot_edge_ok v = (case isRecord v of
     None \<Rightarrow> False
   | Some e \<Rightarrow>
       isNonEmptyString (field e ''from'') \<and>
       (if has_own e ''to'' then isNonEmptyString (field e ''to'')
        else (case isRecord (field e ''switch'') of
            None \<Rightarrow> False
          | Some sw \<Rightarrow> isNonEmptyString (field sw ''on'') \<and> all_values isNonEmptyString (field sw ''cases''))))"

definition snapshot_mount_ok :: "jv \<Rightarrow> bool" where
  "snapshot_mount_ok v = (case isRecord v of
     None \<Rightarrow> False
   | Some m \<Rightarrow>
       all_items is_str (field m ''mountPath'') \<and> isNonEmptyString (field m ''workflowName'') \<and>
       isNonEmptyString (field m ''entryNode'') \<and> all_values isNonEmptyString (field m ''exits''))"

definition isDefinitionSnapshotShape :: "jv \<Rightarrow> bool" where
  "isDefinitionSnapshotShape v = (case isRecord v of
     None \<Rightarrow> False
   | Some ob \<Rightarrow>
       field ob ''schema'' = JStr DEFINITION_SNAPSHOT_SCHEMA \<and>
       isNonEmptyString (field ob ''name'') \<and> isNonEmptyString (field ob ''startAt'') \<and>
       all_values snapshot_node_ok (field ob ''nodes'') \<and> all_items snapshot_edge_ok (field ob ''edges'') \<and>
       optional (\<lambda>c. case isRecord c of None \<Rightarrow> False
         | Some cd \<Rightarrow> all_items snapshot_mount_ok (field cd ''mounts'')) (field ob ''composition''))"

end
