(* ===== verification/Updates.thy ===== *)
theory Updates
  imports BundleShapes
begin

text \<open>
  Durable updates of a run (src/workflows/updates.ts): the checks on an update, the projection that
  keeps the latest update of every type and key, and the token bucket that limits their rate.
\<close>

section \<open>Numbers compared by value\<close>

text \<open>The printed form of a number as mantissa and decimal exponent.\<close>

definition num_parts :: "string \<Rightarrow> int \<times> int" where
  "num_parts s = (let neg = starts_with s ''-''; u = (if neg then tl s else s);
      ip = takeWhile is_digit u; r = dropWhile is_digit u;
      fp = (if starts_with r ''.'' then takeWhile is_digit (tl r) else []);
      r2 = (if starts_with r ''.'' then dropWhile is_digit (tl r) else r);
      ex = (case r2 of [] \<Rightarrow> 0
        | c # cs \<Rightarrow> if starts_with cs ''-'' then - int (dec_val 0 (tl cs))
            else int (dec_val 0 (if starts_with cs ''+'' then tl cs else cs)));
      m = int (dec_val 0 (ip @ fp))
    in (if neg then - m else m, ex - int (length fp)))"

definition parts_less :: "int \<times> int \<Rightarrow> int \<times> int \<Rightarrow> bool" where
  "parts_less a b = (case (a, b) of ((m, e), (m', e')) \<Rightarrow>
     m * 10 ^ nat (e - min e e') < m' * 10 ^ nat (e' - min e e'))"

fun num_less :: "jv \<Rightarrow> jv \<Rightarrow> bool" where
  "num_less (JNum (NumFin s)) (JNum (NumFin t)) = parts_less (num_parts s) (num_parts t)"
| "num_less (JNum NumNegZero) (JNum (NumFin t)) = parts_less (0, 0) (num_parts t)"
| "num_less (JNum (NumFin s)) (JNum NumNegZero) = parts_less (num_parts s) (0, 0)"
| "num_less _ _ = False"

section \<open>Checks\<close>

definition MAX_UPDATE_DATA_BYTES :: nat where "MAX_UPDATE_DATA_BYTES = 64 * 1024"
definition MAX_CURRENT_UPDATES :: nat where "MAX_CURRENT_UPDATES = 1024"

definition type_pattern :: "string \<Rightarrow> bool" where
  "type_pattern s = (case s of [] \<Rightarrow> False
     | c # cs \<Rightarrow> is_lower c \<and> length cs \<le> 63 \<and>
         list_all (\<lambda>d. is_lower d \<or> is_digit d \<or> d \<in> set ''.-'') cs)"

definition key_pattern :: "string \<Rightarrow> bool" where
  "key_pattern s = (case s of [] \<Rightarrow> False
     | c # cs \<Rightarrow> is_alnum c \<and> length cs \<le> 127 \<and> list_all (\<lambda>d. is_alnum d \<or> d \<in> set ''._:/-'') cs)"

definition PROGRESS_STATUSES :: "string list" where
  "PROGRESS_STATUSES = [''pending'', ''running'', ''waiting'', ''blocked'', ''completed'', ''failed'', ''cancelled'', ''unknown'']"

definition PROGRESS_FIELDS :: "string list" where
  "PROGRESS_FIELDS = [''schema'', ''status'', ''label'', ''phase'', ''completed'', ''total'', ''unit'',
     ''sourceUpdatedAt'', ''sourceEstimatedFinishAt'']"

text \<open>The first complaint, if any; \<open>path\<close> names the place.\<close>

fun assertJsonValue :: "string \<Rightarrow> jv \<Rightarrow> string option"
  and assert_items :: "string \<Rightarrow> nat \<Rightarrow> jv list \<Rightarrow> string option"
  and assert_fields :: "string \<Rightarrow> (string \<times> jv) list \<Rightarrow> string option" where
  "assertJsonValue path JNull = None"
| "assertJsonValue path (JStr s) = None"
| "assertJsonValue path (JBool b) = None"
| "assertJsonValue path (JNum n) = (case n of NumFin t \<Rightarrow> None | NumNegZero \<Rightarrow> None
     | _ \<Rightarrow> Some (path @ '' contains a non-finite number''))"
| "assertJsonValue path (JArr vs) = assert_items path 0 vs"
| "assertJsonValue path (JObj kvs) = assert_fields path kvs"
| "assertJsonValue path v = Some (path @ '' contains a non-JSON value'')"
| "assert_items path i [] = None"
| "assert_items path i (v # vs) = (case assertJsonValue (path @ ''['' @ nat_dec i @ '']'') v of
     Some m \<Rightarrow> Some m | None \<Rightarrow> assert_items path (Suc i) vs)"
| "assert_fields path [] = None"
| "assert_fields path ((k, v) # kvs) = (if v = JUndef then Some (path @ ''.'' @ k @ '' is undefined'')
     else case assertJsonValue (path @ ''.'' @ k) v of Some m \<Rightarrow> Some m | None \<Rightarrow> assert_fields path kvs)"

definition control_code :: "char \<Rightarrow> bool" where
  "control_code c \<longleftrightarrow> code_of c < 32 \<or> (127 \<le> code_of c \<and> code_of c \<le> 159)"

definition optionalString :: "jv \<Rightarrow> string \<Rightarrow> nat \<Rightarrow> (bool \<times> string) list" where
  "optionalString v name mx =
     [(optional (\<lambda>x. case x of JStr s \<Rightarrow> 1 \<le> length (trim s) \<and> length (trim s) \<le> mx | _ \<Rightarrow> False) v,
        name @ '' must be 1 to '' @ nat_dec mx @ '' characters''),
      (optional (\<lambda>x. case x of JStr s \<Rightarrow> \<not> list_ex control_code s | _ \<Rightarrow> False) v,
        name @ '' must not contain control characters'')]"

definition optionalFiniteNonNegative :: "jv \<Rightarrow> string \<Rightarrow> (bool \<times> string) list" where
  "optionalFiniteNonNegative v name =
     [(optional (\<lambda>x. is_finite_num x \<and> \<not> num_less x (jnat 0)) v, name @ '' must be a finite non-negative number'')]"

definition validUnit :: "jv \<Rightarrow> bool" where
  "validUnit v = (case v of JStr s \<Rightarrow> 1 \<le> length (trim s) \<and> length (trim s) \<le> 32 \<and> \<not> list_ex control_code s
     | _ \<Rightarrow> False)"

text \<open>\<open>/[zZ]|[+-]\d\d:\d\d$/\<close>\<close>

definition offset_pattern :: "string \<Rightarrow> bool" where
  "offset_pattern s \<longleftrightarrow> CHR ''z'' \<in> set s \<or> CHR ''Z'' \<in> set s \<or>
     (6 \<le> length s \<and> (case drop (length s - 6) s of
        [g, a, b, c, d, e] \<Rightarrow> g \<in> set ''+-'' \<and> is_digit a \<and> is_digit b \<and> c = CHR '':'' \<and> is_digit d \<and> is_digit e
      | _ \<Rightarrow> False))"

definition optionalDate :: "jv \<Rightarrow> string \<Rightarrow> (bool \<times> string) list" where
  "optionalDate v name =
     [(optional (\<lambda>x. case x of JStr s \<Rightarrow> date_parse s \<noteq> None \<and> offset_pattern s | _ \<Rightarrow> False) v,
        name @ '' must be an RFC 3339 timestamp with an offset'')]"

definition validateProgressData :: "jv obj \<Rightarrow> string option" where
  "validateProgressData data = first_failure
    (map (\<lambda>(k, _). (k \<in> set PROGRESS_FIELDS, ''progress.'' @ k @ '' is not supported'')) data @
     [(field data ''schema'' = JStr ''pi-workflows.progress.v1'', ''progress.schema must equal pi-workflows.progress.v1''),
      (one_of PROGRESS_STATUSES (field data ''status''), ''progress.status is invalid'')] @
     optionalString (field data ''label'') ''progress.label'' 200 @
     optionalString (field data ''phase'') ''progress.phase'' 128 @
     optionalFiniteNonNegative (field data ''completed'') ''progress.completed'' @
     [(optional (\<lambda>t. is_finite_num t \<and> num_less (jnat 0) t) (field data ''total''),
        ''progress.total must be a finite number greater than zero''),
      (\<not> num_less (field data ''total'') (field data ''completed''), ''progress.total must be at least progress.completed''),
      (if field data ''completed'' \<noteq> JUndef \<or> field data ''total'' \<noteq> JUndef
         then validUnit (field data ''unit'') else True,
        ''progress.unit is required with counts and must be 1 to 32 printable characters''),
      (optional validUnit (field data ''unit''), ''progress.unit must be 1 to 32 printable characters'')] @
     optionalDate (field data ''sourceUpdatedAt'') ''progress.sourceUpdatedAt'' @
     optionalDate (field data ''sourceEstimatedFinishAt'') ''progress.sourceEstimatedFinishAt'')"

record update_input =
  ui_type :: string
  ui_key :: string
  ui_data :: "jv obj"

definition plain_record :: "jv \<Rightarrow> jv obj option" where
  "plain_record v = (case v of JObj ob \<Rightarrow> Some ob | _ \<Rightarrow> None)"

definition validateWorkflowUpdate :: "jv \<Rightarrow> (string, update_input) result" where
  "validateWorkflowUpdate v = (case plain_record v of
     None \<Rightarrow> Inl ''update must be an object''
   | Some ob \<Rightarrow> (case first_failure
       (map (\<lambda>(k, _). (k \<in> {''type'', ''key'', ''data''}, ''update.'' @ k @ '' is not supported'')) ob @
        [(case field ob ''type'' of JStr t \<Rightarrow> type_pattern t | _ \<Rightarrow> False, ''update.type must match [a-z][a-z0-9.-]{0,63}''),
         (case field ob ''key'' of JStr k \<Rightarrow> key_pattern k | _ \<Rightarrow> False,
           ''update.key must match [A-Za-z0-9][A-Za-z0-9._:/-]{0,127}''),
         (plain_record (field ob ''data'') \<noteq> None, ''update.data must be a non-null JSON object'')]) of
       Some m \<Rightarrow> Inl m
     | None \<Rightarrow> (case (field ob ''type'', field ob ''key'', field ob ''data'') of
         (JStr t, JStr k, JObj data) \<Rightarrow> (case assertJsonValue ''update.data'' (JObj data) of
             Some m \<Rightarrow> Inl m
           | None \<Rightarrow> (case first_failure
               [(case json_text (JObj data) of Some s \<Rightarrow> utf8_length s \<le> MAX_UPDATE_DATA_BYTES | None \<Rightarrow> True,
                  ''update.data must be at most '' @ nat_dec MAX_UPDATE_DATA_BYTES @ '' bytes'')] of
               Some m \<Rightarrow> Inl m
             | None \<Rightarrow> (case (if t = ''progress'' then validateProgressData data else None) of
                 Some m \<Rightarrow> Inl m
               | None \<Rightarrow> Inr \<lparr>ui_type = t, ui_key = k, ui_data = data\<rparr>)))
       | _ \<Rightarrow> Inl ''update must be an object'')))"

section \<open>The projection\<close>

definition seq_number :: "jv \<Rightarrow> nat" where
  "seq_number v = (case v of JObj ob \<Rightarrow> (case safe_nat (field ob ''seq'') of Some n \<Rightarrow> n | None \<Rightarrow> 0) | _ \<Rightarrow> 0)"

definition update_slot :: "jv \<Rightarrow> jv \<times> jv" where
  "update_slot v = (case v of JObj ob \<Rightarrow> (field ob ''type'', field ob ''key'') | _ \<Rightarrow> (JUndef, JUndef))"

definition updateProjection :: "jv list \<Rightarrow> jv \<Rightarrow> jv list" where
  "updateProjection current r = sort_key seq_number (filter (\<lambda>e. update_slot e \<noteq> update_slot r) current @ [r])"

section \<open>The rate limiter\<close>

text \<open>
  Tokens are counted in fiftieths, the share a millisecond earns at twenty updates a second; the
  rounding of floating-point numbers is left out.
\<close>

record limiter =
  li_tokens :: int
  li_lastMs :: int

definition UPDATE_RATE_BURST :: int where "UPDATE_RATE_BURST = 100"
definition UPDATE_RATE_PER_SECOND :: int where "UPDATE_RATE_PER_SECOND = 20"

definition new_limiter :: "int \<Rightarrow> limiter" where
  "new_limiter now = \<lparr>li_tokens = 50 * UPDATE_RATE_BURST, li_lastMs = now\<rparr>"

definition take_token :: "int \<Rightarrow> (string, limiter, unit) op" where
  "take_token nowMs l = (let
      tokens = min (50 * UPDATE_RATE_BURST) (li_tokens l + max 0 (nowMs - li_lastMs l) * UPDATE_RATE_PER_SECOND * 50 div 1000)
    in if tokens < 50 then (Inl ''workflow update rate limit exceeded'', \<lparr>li_tokens = tokens, li_lastMs = nowMs\<rparr>)
       else (Inr (), \<lparr>li_tokens = tokens - 50, li_lastMs = nowMs\<rparr>))"

end
