(* ===== verification/UpdateLaws.thy ===== *)
theory UpdateLaws
  imports Updates
begin

text \<open>
  What updates promise: the projection keeps the latest update of every slot in trace order, and no
  window of time admits more updates than the bucket holds plus what the window earns.
\<close>

section \<open>The latest update of every slot\<close>

text \<open>The records of a list with no later record for the same type and key.\<close>

fun latest :: "jv list \<Rightarrow> jv list" where
  "latest [] = []"
| "latest (r # rs) = (if update_slot r \<in> update_slot ` set rs then latest rs else r # latest rs)"

lemma latest_snoc: "latest (rs @ [r]) = filter (\<lambda>e. update_slot e \<noteq> update_slot r) (latest rs) @ [r]"
  by (induction rs) auto

lemma set_latest: "set (latest rs) \<subseteq> set rs"
  by (induction rs) auto

lemma sorted_latest: "sorted (map seq_number rs) \<Longrightarrow> sorted (map seq_number (latest rs))"
  by (induction rs) (use set_latest in fastforce)+

lemma slots_latest: "update_slot ` set (latest rs) = update_slot ` set rs"
  by (induction rs) auto

lemma distinct_latest: "distinct (map update_slot (latest rs))"
proof (induction rs)
  case (Cons r rs)
  have "update_slot r \<notin> set (map update_slot (latest rs))" if "update_slot r \<notin> update_slot ` set rs"
    using that slots_latest by simp
  then show ?case using Cons by simp
qed simp

lemma sort_key_sorted: "sorted (map f xs) \<Longrightarrow> sort_key f xs = xs"
  by (induction xs) (simp_all add: insort_is_Cons)

text \<open>C21: publishing updates in trace order leaves exactly the latest update of every type and key, in
  trace order and without repetition\<close>

theorem updates_hold_latest:
  assumes "sorted (map seq_number rs)"
  shows "foldl updateProjection [] rs = latest rs \<and> distinct (map update_slot (foldl updateProjection [] rs)) \<and>
    sorted (map seq_number (foldl updateProjection [] rs))"
proof -
  have "foldl updateProjection [] rs = latest rs"
    using assms
  proof (induction rs rule: rev_induct)
    case (snoc r rs)
    then have "foldl updateProjection [] rs = latest rs" by (simp add: sorted_append)
    moreover have "sorted (map seq_number (latest (rs @ [r])))" using snoc.prems by (rule sorted_latest)
    ultimately show ?case using sort_key_sorted[of seq_number "latest (rs @ [r])"]
      by (simp add: updateProjection_def[of "latest rs"] latest_snoc)
  qed simp
  then show ?thesis using distinct_latest sorted_latest[OF assms] by simp
qed

definition sample_update :: "nat \<Rightarrow> string \<Rightarrow> jv" where
  "sample_update n k = JObj [(''seq'', jnat n), (''type'', JStr ''progress''), (''key'', JStr k)]"

theorem updates_hold_latest_witness:
  "foldl updateProjection [] [sample_update 1 ''a'', sample_update 2 ''b'', sample_update 3 ''a''] =
     [sample_update 2 ''b'', sample_update 3 ''a'']"
proof -
  have s: "sorted (map seq_number [sample_update 1 ''a'', sample_update 2 ''b'', sample_update 3 ''a''])"
    by code_simp
  have "latest [sample_update 1 ''a'', sample_update 2 ''b'', sample_update 3 ''a''] =
      [sample_update 2 ''b'', sample_update 3 ''a'']" by code_simp
  then show ?thesis using updates_hold_latest[OF s] by simp
qed

section \<open>The rate\<close>

text \<open>The calls of a list of times: how many were admitted, and the limiter they leave.\<close>

fun admitted :: "int list \<Rightarrow> limiter \<Rightarrow> nat \<times> limiter" where
  "admitted [] l = (0, l)"
| "admitted (t # ts) l = (case take_token t l of
     (Inl e, l') \<Rightarrow> admitted ts l'
   | (Inr u, l') \<Rightarrow> (case admitted ts l' of (n, l'') \<Rightarrow> (Suc n, l'')))"

lemma admitted_credit:
  "sorted (li_lastMs l # ts) \<Longrightarrow>
     50 * int (fst (admitted ts l)) + li_tokens (snd (admitted ts l)) \<le> li_tokens l + (last (li_lastMs l # ts) - li_lastMs l)"
proof (induction ts arbitrary: l)
  case (Cons t ts)
  obtain r l' where r: "take_token t l = (r, l')" by fastforce
  have t: "li_lastMs l \<le> t" using Cons.prems by simp
  have l': "li_lastMs l' = t" using r by (auto simp: take_token_def Let_def split: if_splits)
  have pay: "(case r of Inl _ \<Rightarrow> 0 | Inr _ \<Rightarrow> 50) + li_tokens l' \<le> li_tokens l + (t - li_lastMs l)"
    using r t by (auto simp: take_token_def Let_def UPDATE_RATE_PER_SECOND_def split: if_splits)
  have "sorted (li_lastMs l' # ts)" using Cons.prems l' by simp
  note ih = Cons.IH[OF this]
  show ?case
    using ih pay r l' by (cases r) (auto split: prod.splits if_splits)
qed simp

definition filled :: "limiter \<Rightarrow> bool" where
  "filled l \<longleftrightarrow> 0 \<le> li_tokens l \<and> li_tokens l \<le> 50 * UPDATE_RATE_BURST"

lemma filled_take: "filled l \<Longrightarrow> take_token t l = (r, l') \<Longrightarrow> filled l'"
  by (auto simp: take_token_def Let_def filled_def UPDATE_RATE_PER_SECOND_def UPDATE_RATE_BURST_def split: if_splits)

lemma filled_admitted: "filled l \<Longrightarrow> filled (snd (admitted ts l))"
proof (induction ts arbitrary: l)
  case (Cons t ts)
  obtain r l' where r: "take_token t l = (r, l')" by fastforce
  then have "filled l'" using filled_take Cons.prems by blast
  then show ?case using Cons.IH[of l'] r by (cases r) (auto split: prod.splits)
qed simp

text \<open>with a clock that does not run backwards, any window of calls admits at most the burst plus
  twenty updates for every second the window lasts, whatever happened before it\<close>

theorem update_rate_bounded:
  assumes "window \<noteq> []" "sorted window" and "snd (admitted before (new_limiter t0)) = l"
  shows "1000 * int (fst (admitted window l)) \<le>
    1000 * UPDATE_RATE_BURST + UPDATE_RATE_PER_SECOND * (last window - hd window)"
proof -
  obtain t ts where w: "window = t # ts" using assms(1) by (cases window) auto
  have cap: "filled l"
    using filled_admitted[of "new_limiter t0" before] assms(3)
    by (simp add: new_limiter_def filled_def UPDATE_RATE_BURST_def)
  obtain r l' where r: "take_token t l = (r, l')" by fastforce
  have l': "li_lastMs l' = t" "(case r of Inl _ \<Rightarrow> 0 | Inr _ \<Rightarrow> 50) + li_tokens l' \<le> 5000"
    using r by (auto simp: take_token_def Let_def UPDATE_RATE_BURST_def split: if_splits)
  have "0 \<le> li_tokens (snd (admitted ts l'))"
    using filled_admitted[OF filled_take[OF cap r]] by (simp add: filled_def)
  moreover have "sorted (li_lastMs l' # ts)" using assms(2) w l'(1) by simp
  ultimately have "50 * int (fst (admitted ts l')) \<le> li_tokens l' + (last (t # ts) - t)"
    using admitted_credit[of l' ts] l'(1) by simp
  then show ?thesis using w l'(2) r
    by (cases r) (auto simp: UPDATE_RATE_BURST_def UPDATE_RATE_PER_SECOND_def split: prod.splits if_splits)
qed

theorem update_rate_bounded_witness:
  "1000 * int (fst (admitted [5, 5, 60] (snd (admitted [1, 3] (new_limiter 0))))) \<le>
    1000 * UPDATE_RATE_BURST + UPDATE_RATE_PER_SECOND * (60 - 5)"
proof -
  have "sorted [5, 5, 60::int]" by simp
  then show ?thesis using update_rate_bounded[of "[5, 5, 60]" "[1, 3]" 0] by simp
qed

end
