(* ===== verification/RunBundle.thy ===== *)
theory RunBundle
  imports Updates
begin

text \<open>
  Run bundles (src/workflows/store.ts): the append-only trace, the projections that are replaced
  atomically, the writer with its sequence number, and what resuming or interrupting a crashed run
  does.  A file holds either text or JSON printed from a value (the layout of the text is left out);
  the disk maps absolute paths to files.  The fence of a run is the flag \<open>owned\<close>.
\<close>

section \<open>Files\<close>

datatype stored = TextFile string | JsonFile jv

type_synonym disk = "string list \<Rightarrow> stored option"

definition file_text :: "disk \<Rightarrow> string list \<Rightarrow> string option" where
  "file_text disk p = (case disk p of Some (TextFile t) \<Rightarrow> Some t | _ \<Rightarrow> None)"

definition readJsonFile :: "disk \<Rightarrow> string list \<Rightarrow> jv option" where
  "readJsonFile disk p = (case disk p of
     None \<Rightarrow> None
   | Some (TextFile t) \<Rightarrow> json_parse t
   | Some (JsonFile v) \<Rightarrow> Some v)"

text \<open>What parsing the printed text of a value gives.\<close>

definition file_value :: "jv \<Rightarrow> jv option" where
  "file_value v = (case json_text v of None \<Rightarrow> None | Some t \<Rightarrow> json_parse t)"

definition writeJsonAtomic :: "string list \<Rightarrow> jv \<Rightarrow> disk \<Rightarrow> disk" where
  "writeJsonAtomic p v disk = disk(p := (case file_value v of Some w \<Rightarrow> Some (JsonFile w)
     | None \<Rightarrow> Some (TextFile ''undefined'')))"

definition nl :: char where "nl = CHR 0x0A"

definition json_line :: "jv \<Rightarrow> string" where
  "json_line v = (case json_text v of None \<Rightarrow> ''undefined'' | Some t \<Rightarrow> t) @ [nl]"

definition appendText :: "string list \<Rightarrow> string \<Rightarrow> disk \<Rightarrow> disk" where
  "appendText p t disk = disk(p := Some (TextFile ((case file_text disk p of None \<Rightarrow> [] | Some s \<Rightarrow> s) @ t)))"

definition resolveBundlePath :: "string list \<Rightarrow> jv \<Rightarrow> string \<Rightarrow> string list" where
  "resolveBundlePath dir relative fallback = (let candidate = path_resolve dir (case relative of
        JStr s \<Rightarrow> if s = [] then fallback else s | _ \<Rightarrow> fallback)
     in if candidate \<noteq> dir \<and> \<not> inside dir candidate then dir @ [fallback] else candidate)"

definition MANIFEST_PATH :: string where "MANIFEST_PATH = ''manifest.json''"
definition WORKFLOW_SNAPSHOT_PATH :: string where "WORKFLOW_SNAPSHOT_PATH = ''workflow.json''"
definition STATE_PATH :: string where "STATE_PATH = ''state.json''"
definition TRACE_PATH :: string where "TRACE_PATH = ''trace.ndjson''"
definition SESSION_DIR :: string where "SESSION_DIR = ''session''"

section \<open>Line-delimited JSON\<close>

record ndjson_read =
  nj_records :: "jv list"
  nj_exists :: bool
  nj_torn :: bool
  nj_malformed :: bool

definition ends_nl :: "string \<Rightarrow> bool" where
  "ends_nl raw \<longleftrightarrow> raw \<noteq> [] \<and> last raw = nl"

fun read_lines :: "(jv \<Rightarrow> bool) \<Rightarrow> string list \<Rightarrow> jv list \<times> bool" where
  "read_lines shape [] = ([], False)"
| "read_lines shape (l # ls) = (case read_lines shape ls of (vs, bad) \<Rightarrow>
     (if trim l = [] then (vs, bad)
      else case json_parse l of
        None \<Rightarrow> (vs, True)
      | Some v \<Rightarrow> if shape v then (v # vs, bad) else (vs, True)))"

definition readNdjsonFile :: "(jv \<Rightarrow> bool) \<Rightarrow> disk \<Rightarrow> string list \<Rightarrow> ndjson_read" where
  "readNdjsonFile shape disk p = (case file_text disk p of
     None \<Rightarrow> \<lparr>nj_records = [], nj_exists = False, nj_torn = False, nj_malformed = False\<rparr>
   | Some raw \<Rightarrow> (let torn = raw \<noteq> [] \<and> \<not> ends_nl raw; ls = split_on nl raw;
         r = read_lines shape (if torn then butlast ls else ls)
       in \<lparr>nj_records = fst r, nj_exists = True, nj_torn = torn, nj_malformed = snd r\<rparr>))"

definition member :: "string \<Rightarrow> jv \<Rightarrow> jv" where
  "member k v = (case v of JObj ob \<Rightarrow> field ob k | _ \<Rightarrow> JUndef)"

fun complete_seqs :: "string list \<Rightarrow> nat list" where
  "complete_seqs [] = []"
| "complete_seqs (l # ls) = (if trim l = [] then complete_seqs ls
     else case json_parse l of
       None \<Rightarrow> []
     | Some v \<Rightarrow> (case safe_nat (member ''seq'' v) of
         None \<Rightarrow> []
       | Some n \<Rightarrow> if n < 1 then [] else n # complete_seqs ls))"

definition readCompleteNdjson :: "disk \<Rightarrow> string list \<Rightarrow> nat list" where
  "readCompleteNdjson disk p = (case file_text disk p of
     None \<Rightarrow> []
   | Some raw \<Rightarrow> complete_seqs (if ends_nl raw then split_on nl raw else butlast (split_on nl raw)))"

fun good_lines :: "nat \<Rightarrow> string list \<Rightarrow> string list" where
  "good_lines expected [] = []"
| "good_lines expected (l # ls) = (if trim l = [] then []
     else case json_parse l of
       None \<Rightarrow> []
     | Some v \<Rightarrow> if member ''seq'' v = jnat expected then l # good_lines (Suc expected) ls else [])"

definition trace_lines :: "string \<Rightarrow> string list" where
  "trace_lines raw = (let ls = split_on nl raw in if last ls = [] then butlast ls else ls)"

text \<open>The new text of a repaired trace, \<open>None\<close> when nothing has to be cut.\<close>

definition repaired_trace :: "string \<Rightarrow> nat \<Rightarrow> string option" where
  "repaired_trace raw keepSeq = (let kept = take keepSeq (good_lines 1 (trace_lines raw))
     in if length kept = length (trace_lines raw) then None
        else Some (if kept = [] then [] else join_with [nl] kept @ [nl]))"

datatype bundle_error =
    FenceLost
  | CannotResumeUnreadable
  | CannotResumeStatus string
  | BecameUnreadable
  | RunDirExists
  | InvalidRunId string
  | AttemptInactive
  | TooManyUpdates

text \<open>\<open>beforeWrite\<close> runs only when the file is rewritten.\<close>

definition repairTraceFile :: "string list \<Rightarrow> nat \<Rightarrow> bool \<Rightarrow> (bundle_error, disk, unit) op" where
  "repairTraceFile p keepSeq owned disk = (case file_text disk p of
     None \<Rightarrow> (Inr (), disk)
   | Some raw \<Rightarrow> (case repaired_trace raw keepSeq of
       None \<Rightarrow> (Inr (), disk)
     | Some t \<Rightarrow> if owned then (Inr (), disk(p := Some (TextFile t))) else (Inl FenceLost, disk)))"

section \<open>The writer\<close>

record bundle_context =
  bc_traceSeq :: nat
  bc_artifacts :: artifact_writer
  bc_bound :: "string list"   \<comment> \<open>the capture streams bound to a session; the flat one is empty\<close>

text \<open>One run directory and the writer the process holds for it.\<close>

record run_bundle =
  bu_disk :: disk
  bu_exists :: bool
  bu_context :: "bundle_context option"

definition contextFor :: "run_bundle \<Rightarrow> bundle_context" where
  "contextFor b = (case bu_context b of
     Some c \<Rightarrow> c
   | None \<Rightarrow> \<lparr>bc_traceSeq = 0, bc_artifacts = new_writer, bc_bound = []\<rparr>)"

record event_draft =
  dr_scope :: string
  dr_type :: string
  dr_node :: "string option"
  dr_attempt :: "string option"
  dr_payload :: "jv obj"

definition opt_entry :: "string \<Rightarrow> string option \<Rightarrow> (string \<times> jv) list" where
  "opt_entry k v = (case v of None \<Rightarrow> [] | Some s \<Rightarrow> [(k, JStr s)])"

definition event_json :: "nat \<Rightarrow> string \<Rightarrow> string \<Rightarrow> event_draft \<Rightarrow> jv \<Rightarrow> jv" where
  "event_json seq now runId d payload = JObj
     ([(''seq'', jnat seq), (''at'', JStr now), (''runId'', JStr runId), (''scope'', JStr (dr_scope d)),
       (''type'', JStr (dr_type d))] @ opt_entry ''nodeId'' (dr_node d) @ opt_entry ''attemptId'' (dr_attempt d) @
      [(''payload'', payload)])"

text \<open>
  The parameters of the model: the hash, the directory and the current time.  Writes succeed unless
  the process dies; what a dying process leaves is in the section on crashes.
\<close>

definition stamp_event ::
    "(string \<Rightarrow> string) \<Rightarrow> string \<Rightarrow> string \<Rightarrow> event_draft \<Rightarrow> bundle_context \<Rightarrow> jv \<times> artifact_writer" where
  "stamp_event sha now runId d c = (case encodeValue sha ARTIFACT_THRESHOLD_BYTES (JObj (dr_payload d)) (bc_artifacts c) of
     (payload, w) \<Rightarrow> (event_json (bc_traceSeq c + 1) now runId d payload, w))"

definition write_artifacts :: "string list \<Rightarrow> artifact_writer \<Rightarrow> disk \<Rightarrow> disk" where
  "write_artifacts dir w disk = fold (\<lambda>(p, s) dk. dk(path_resolve dir p := Some (TextFile s))) (wr_files w) disk"

definition appendTraceEvent ::
    "(string \<Rightarrow> string) \<Rightarrow> string list \<Rightarrow> string \<Rightarrow> string \<Rightarrow> event_draft \<Rightarrow> run_bundle \<Rightarrow> jv \<times> run_bundle" where
  "appendTraceEvent sha dir now runId d b = (let c = contextFor b in
     case stamp_event sha now runId d c of (ev, w) \<Rightarrow>
       (ev, b\<lparr>bu_disk := appendText (dir @ [TRACE_PATH]) (json_line ev) (write_artifacts dir w (bu_disk b)),
          bu_context := Some (c\<lparr>bc_traceSeq := bc_traceSeq c + 1, bc_artifacts := w\<rparr>)\<rparr>))"

definition put_encoded :: "(string \<Rightarrow> string) \<Rightarrow> string \<Rightarrow> jv obj \<Rightarrow> artifact_writer \<Rightarrow> jv obj \<times> artifact_writer" where
  "put_encoded sha k ob w = (case encodeValue sha ARTIFACT_THRESHOLD_BYTES (field ob k) w of
     (v, w') \<Rightarrow> (obj_put k v ob, w'))"

fun encode_results :: "(string \<Rightarrow> string) \<Rightarrow> (string \<times> jv) list \<Rightarrow> artifact_writer \<Rightarrow> (string \<times> jv) list \<times> artifact_writer" where
  "encode_results sha [] w = ([], w)"
| "encode_results sha ((k, v) # kvs) w = (case (case v of
       JObj r \<Rightarrow> if has_own r ''output'' then (case put_encoded sha ''output'' r w of (r', w') \<Rightarrow> (JObj r', w')) else (v, w)
     | _ \<Rightarrow> (v, w)) of (v', w1) \<Rightarrow> (case encode_results sha kvs w1 of (kvs', w2) \<Rightarrow> ((k, v') # kvs', w2)))"

fun encode_steps :: "(string \<Rightarrow> string) \<Rightarrow> jv list \<Rightarrow> artifact_writer \<Rightarrow> jv list \<times> artifact_writer" where
  "encode_steps sha [] w = ([], w)"
| "encode_steps sha (v # vs) w = (case (case v of
       JObj st \<Rightarrow> (case put_encoded sha ''prompt'' st w of (s1, w1) \<Rightarrow>
         (case put_encoded sha ''output'' s1 w1 of (s2, w2) \<Rightarrow> (JObj s2, w2)))
     | _ \<Rightarrow> (v, w)) of (v', w1) \<Rightarrow> (case encode_steps sha vs w1 of (vs', w2) \<Rightarrow> (v' # vs', w2)))"

definition sub_object :: "jv \<Rightarrow> jv obj" where
  "sub_object v = (case v of JObj ob \<Rightarrow> ob | _ \<Rightarrow> [])"

definition sub_array :: "jv \<Rightarrow> jv list" where
  "sub_array v = (case v of JArr vs \<Rightarrow> vs | _ \<Rightarrow> [])"

definition encodeRunState :: "(string \<Rightarrow> string) \<Rightarrow> jv obj \<Rightarrow> artifact_writer \<Rightarrow> jv obj \<times> artifact_writer" where
  "encodeRunState sha st w =
    (case encode_results sha (sub_object (field st ''results'')) w of (results, w1) \<Rightarrow>
     (case put_encoded sha ''input'' st w1 of (s1, w2) \<Rightarrow>
     (case encode_fields sha ARTIFACT_THRESHOLD_BYTES (sub_object (field st ''outputs'')) w2 of (outputs, w3) \<Rightarrow>
     (case encode_steps sha (sub_array (field st ''steps'')) w3 of (steps, w4) \<Rightarrow>
     (let s4 = obj_put ''steps'' (JArr steps) (obj_put ''results'' (JObj results) (obj_put ''outputs'' (JObj outputs) s1))
      in if field st ''finalOutput'' = JUndef then (s4, w4) else put_encoded sha ''finalOutput'' s4 w4)))))"

definition keep_entries :: "string list \<Rightarrow> jv obj \<Rightarrow> (string \<times> jv) list" where
  "keep_entries ks ob = concat (map (\<lambda>k. if field ob k = JUndef then [] else [(k, field ob k)]) ks)"

definition createManifest :: "jv obj \<Rightarrow> bool \<Rightarrow> jv obj" where
  "createManifest st session =
     [(''schema'', JStr RUN_BUNDLE_SCHEMA), (''runId'', field st ''runId''), (''workflowName'', field st ''workflowName'')] @
     keep_entries [''runTitle'', ''workflowSource'', ''workflowSources'', ''definitionDigest''] st @
     [(''startedAt'', field st ''startedAt'')] @ keep_entries [''finishedAt''] st @
     [(''status'', field st ''status''), (''traceSchema'', JStr TRACE_EVENT_SCHEMA),
      (''paths'', JObj ([(''workflow'', JStr WORKFLOW_SNAPSHOT_PATH), (''state'', JStr STATE_PATH), (''trace'', JStr TRACE_PATH)] @
        (if session then [(''session'', JStr SESSION_DIR)] else []) @ [(''artifacts'', JStr ''artifacts'')]))]"

text \<open>The two projections, each replaced atomically: the state, then the manifest.\<close>

definition write_state :: "string list \<Rightarrow> jv obj \<Rightarrow> run_bundle \<Rightarrow> run_bundle" where
  "write_state dir st b = b\<lparr>bu_disk := writeJsonAtomic (dir @ [STATE_PATH]) (JObj st) (bu_disk b)\<rparr>"

definition write_manifest :: "string list \<Rightarrow> jv obj \<Rightarrow> run_bundle \<Rightarrow> run_bundle" where
  "write_manifest dir st b = b\<lparr>bu_disk := writeJsonAtomic (dir @ [MANIFEST_PATH])
     (JObj (createManifest st (bc_bound (contextFor b) \<noteq> []))) (bu_disk b)\<rparr>"

definition encode_state :: "(string \<Rightarrow> string) \<Rightarrow> string list \<Rightarrow> jv obj \<Rightarrow> run_bundle \<Rightarrow> jv obj \<times> run_bundle" where
  "encode_state sha dir st b = (let c = contextFor b in case encodeRunState sha st (bc_artifacts c) of (enc, w) \<Rightarrow>
     (enc, b\<lparr>bu_disk := write_artifacts dir w (bu_disk b), bu_context := Some (c\<lparr>bc_artifacts := w\<rparr>)\<rparr>))"

definition writeProjections :: "(string \<Rightarrow> string) \<Rightarrow> string list \<Rightarrow> jv obj \<Rightarrow> run_bundle \<Rightarrow> run_bundle" where
  "writeProjections sha dir st b = (case encode_state sha dir st b of (enc, b1) \<Rightarrow>
     write_manifest dir st (write_state dir enc b1))"

definition writeLoadedProjections :: "string list \<Rightarrow> jv obj \<Rightarrow> run_bundle \<Rightarrow> run_bundle" where
  "writeLoadedProjections dir st b = write_manifest dir st (write_state dir st b)"

definition stamp_state :: "jv \<Rightarrow> string \<Rightarrow> jv obj \<Rightarrow> jv obj" where
  "stamp_state ev now st = obj_put ''updatedAt'' (JStr now) (obj_put ''traceSeq'' (member ''seq'' ev) st)"

definition writeSnapshot ::
    "(string \<Rightarrow> string) \<Rightarrow> string list \<Rightarrow> bool \<Rightarrow> string \<Rightarrow> jv obj \<Rightarrow> event_draft \<Rightarrow> (bundle_error, run_bundle, jv) op" where
  "writeSnapshot sha dir owned now st d b =
    (if \<not> owned then (Inl FenceLost, b)
     else case appendTraceEvent sha dir now (case text_of (field st ''runId'') of Some r \<Rightarrow> r | None \<Rightarrow> []) d b of
       (ev, b1) \<Rightarrow> (Inr ev, writeProjections sha dir (stamp_state ev now st) b1))"

text \<open>
  Publishing an update: one current update per type and key, at most \<open>MAX_CURRENT_UPDATES\<close> of them.  The
  state comes back with the new projection; \<open>aborted\<close> is the signal of the attempt.
\<close>

definition update_payload :: "string \<Rightarrow> update_input \<Rightarrow> jv obj" where
  "update_payload updateId u = [(''updateId'', JStr updateId), (''type'', JStr (ui_type u)), (''key'', JStr (ui_key u)),
     (''data'', (case file_value (JObj (ui_data u)) of Some v \<Rightarrow> v | None \<Rightarrow> JUndef))]"

definition update_record :: "string \<Rightarrow> update_input \<Rightarrow> nat \<Rightarrow> string \<Rightarrow> jv obj \<Rightarrow> string \<Rightarrow> string \<Rightarrow> jv" where
  "update_record updateId u seq now st nodeId attemptId = JObj [(''updateId'', JStr updateId), (''seq'', jnat seq), (''at'', JStr now),
     (''runId'', field st ''runId''), (''nodeId'', JStr nodeId), (''attemptId'', JStr attemptId), (''type'', JStr (ui_type u)),
     (''key'', JStr (ui_key u)), (''data'', field (update_payload updateId u) ''data'')]"

definition update_draft :: "string \<Rightarrow> string \<Rightarrow> string \<Rightarrow> update_input \<Rightarrow> event_draft" where
  "update_draft nodeId attemptId updateId u = \<lparr>dr_scope = ''node'', dr_type = ''update_published'', dr_node = Some nodeId,
     dr_attempt = Some attemptId, dr_payload = update_payload updateId u\<rparr>"

definition updates_full :: "jv obj \<Rightarrow> update_input \<Rightarrow> bool" where
  "updates_full st u \<longleftrightarrow> (let current = sub_array (field st ''updates'') in
     \<not> list_ex (\<lambda>r. update_slot r = (JStr (ui_type u), JStr (ui_key u))) current \<and> MAX_CURRENT_UPDATES \<le> length current)"

definition with_update :: "string \<Rightarrow> update_input \<Rightarrow> nat \<Rightarrow> string \<Rightarrow> string \<Rightarrow> string \<Rightarrow> jv obj \<Rightarrow> jv obj" where
  "with_update updateId u seq now nodeId attemptId st = obj_put ''updates'' (JArr (updateProjection
     (sub_array (field st ''updates'')) (update_record updateId u seq now st nodeId attemptId))) st"

definition publishUpdate ::
    "(string \<Rightarrow> string) \<Rightarrow> string list \<Rightarrow> bool \<Rightarrow> bool \<Rightarrow> string \<Rightarrow> jv obj \<Rightarrow> string \<Rightarrow> string \<Rightarrow> string \<Rightarrow> update_input
      \<Rightarrow> (bundle_error, run_bundle, jv obj) op" where
  "publishUpdate sha dir owned aborted now st nodeId attemptId updateId u b =
    (if \<not> owned then (Inl FenceLost, b)
     else if aborted then (Inl AttemptInactive, b)
     else if updates_full st u then (Inl TooManyUpdates, b)
     else case appendTraceEvent sha dir now (case text_of (field st ''runId'') of Some r \<Rightarrow> r | None \<Rightarrow> [])
         (update_draft nodeId attemptId updateId u) b of
       (ev, b1) \<Rightarrow> (let st' = stamp_state ev now
           (with_update updateId u (bc_traceSeq (contextFor b) + 1) now nodeId attemptId st)
         in (Inr st', writeProjections sha dir st' b1)))"

text \<open>A trace event without projections, as binding a session writes it.\<close>

definition binding_draft :: "jv obj \<Rightarrow> string option \<Rightarrow> event_draft" where
  "binding_draft binding attemptId = \<lparr>dr_scope = ''session'', dr_type = ''session_bound'', dr_node = None, dr_attempt = None,
     dr_payload = (''piSessionId'', field binding ''piSessionId'') # opt_entry ''captureAttemptId'' attemptId\<rparr>"

definition bind_stream ::
    "(string \<Rightarrow> string) \<Rightarrow> string list \<Rightarrow> string \<Rightarrow> jv obj \<Rightarrow> string option \<Rightarrow> string list \<Rightarrow> run_bundle \<Rightarrow> run_bundle" where
  "bind_stream sha dir now binding attemptId sub b =
     snd (appendTraceEvent sha dir now (case text_of (field binding ''runId'') of Some r \<Rightarrow> r | None \<Rightarrow> [])
       (binding_draft binding attemptId)
       (b\<lparr>bu_disk := writeJsonAtomic (dir @ sub @ [''binding.json'']) (JObj binding) (bu_disk b)\<rparr>))"

definition writeSessionBinding ::
    "(string \<Rightarrow> string) \<Rightarrow> string list \<Rightarrow> bool \<Rightarrow> string \<Rightarrow> jv obj \<Rightarrow> string option \<Rightarrow> (bundle_error, run_bundle, unit) op" where
  "writeSessionBinding sha dir owned now binding attemptId b =
    (if \<not> owned then (Inl FenceLost, b)
     else let c = contextFor b; key = (case attemptId of None \<Rightarrow> [] | Some a \<Rightarrow> a) in
       if key \<in> set (bc_bound c) then (Inr (), b\<lparr>bu_context := Some c\<rparr>)
       else let b1 = b\<lparr>bu_context := Some (c\<lparr>bc_bound := key # bc_bound c\<rparr>)\<rparr> in
         (case attemptId of
           Some a \<Rightarrow> if \<not> run_id_pattern a then (Inl (InvalidRunId a), b1)
             else (Inr (), bind_stream sha dir now binding attemptId [SESSION_DIR, ''segments'', a] b1)
         | None \<Rightarrow> (Inr (), bind_stream sha dir now binding attemptId [SESSION_DIR] b1)))"

definition initializeRunBundle ::
    "(string \<Rightarrow> string) \<Rightarrow> string list \<Rightarrow> bool \<Rightarrow> jv \<Rightarrow> jv obj \<Rightarrow> (bundle_error, run_bundle, unit) op" where
  "initializeRunBundle sha dir owned snapshot st b =
    (if \<not> owned then (Inl FenceLost, b)
     else if bu_exists b then (Inl RunDirExists, b)
     else (let b1 = b\<lparr>bu_exists := True,
           bu_disk := appendText (dir @ [TRACE_PATH]) [] (writeJsonAtomic (dir @ [WORKFLOW_SNAPSHOT_PATH]) snapshot (bu_disk b))\<rparr>
       in (Inr (), writeProjections sha dir st b1)))"

section \<open>Reading a bundle\<close>

record loaded =
  ld_manifest :: "jv obj"
  ld_state :: "jv obj"
  ld_snapshot :: "jv option"
  ld_trace :: ndjson_read

definition bundle_path :: "string list \<Rightarrow> jv obj \<Rightarrow> string \<Rightarrow> string \<Rightarrow> string list" where
  "bundle_path dir manifest name fallback = resolveBundlePath dir (member name (field manifest ''paths'')) fallback"

definition tagged :: "string \<Rightarrow> jv option \<Rightarrow> jv obj option" where
  "tagged schema v = (case v of Some (JObj ob) \<Rightarrow> if field ob ''schema'' = JStr schema then Some ob else None | _ \<Rightarrow> None)"

definition readRunBundle :: "string list \<Rightarrow> disk \<Rightarrow> loaded option" where
  "readRunBundle dir disk = (case tagged RUN_BUNDLE_SCHEMA (readJsonFile disk (dir @ [MANIFEST_PATH])) of
     None \<Rightarrow> None
   | Some m \<Rightarrow> if validateRunManifestShape m \<noteq> None then None
       else (case tagged RUN_STATE_SCHEMA (readJsonFile disk (bundle_path dir m ''state'' STATE_PATH)) of
         None \<Rightarrow> None
       | Some st \<Rightarrow> if validateRunStateShape st \<noteq> None then None
           else Some \<lparr>ld_manifest = m, ld_state = st,
             ld_snapshot = (case readJsonFile disk (bundle_path dir m ''workflow'' WORKFLOW_SNAPSHOT_PATH) of
                Some v \<Rightarrow> if isDefinitionSnapshotShape v then Some v else None | None \<Rightarrow> None),
             ld_trace = readNdjsonFile isTraceEventShape disk (bundle_path dir m ''trace'' TRACE_PATH)\<rparr>))"

definition readRunState :: "string list \<Rightarrow> disk \<Rightarrow> jv obj option" where
  "readRunState dir disk = (case tagged RUN_BUNDLE_SCHEMA (readJsonFile disk (dir @ [MANIFEST_PATH])) of
     None \<Rightarrow> None
   | Some m \<Rightarrow> if validateRunManifestShape m \<noteq> None then None
       else (case tagged RUN_STATE_SCHEMA (readJsonFile disk (bundle_path dir m ''state'' STATE_PATH)) of
         None \<Rightarrow> None
       | Some st \<Rightarrow> if validateRunStateShape st \<noteq> None then None else Some st))"

definition readLastTraceEvent :: "string list \<Rightarrow> jv obj \<Rightarrow> disk \<Rightarrow> jv option" where
  "readLastTraceEvent dir manifest disk =
    (case rev (nj_records (readNdjsonFile isTraceEventShape disk (bundle_path dir manifest ''trace'' TRACE_PATH))) of
       [] \<Rightarrow> None | v # _ \<Rightarrow> Some v)"

section \<open>Resuming and interrupting\<close>

definition state_seq :: "jv obj \<Rightarrow> nat" where
  "state_seq st = (case safe_nat (field st ''traceSeq'') of Some n \<Rightarrow> n | None \<Rightarrow> 0)"

definition status_text :: "jv obj \<Rightarrow> string" where
  "status_text st = (case text_of (field st ''status'') of Some s \<Rightarrow> s | None \<Rightarrow> [])"

definition bound_streams :: "jv obj \<Rightarrow> string list" where
  "bound_streams manifest = (if member ''session'' (field manifest ''paths'') \<noteq> JUndef then [[]] else [])"

definition prepareRunResume :: "string list \<Rightarrow> bool \<Rightarrow> bool \<Rightarrow> (bundle_error, run_bundle, loaded) op" where
  "prepareRunResume dir owned owned' b =
    (if \<not> owned then (Inl FenceLost, b)
     else case readRunBundle dir (bu_disk b) of
       None \<Rightarrow> (Inl CannotResumeUnreadable, b)
     | Some l \<Rightarrow>
         if status_text (ld_state l) \<noteq> ''running'' then (Inl (CannotResumeStatus (status_text (ld_state l))), b)
         else (case repairTraceFile (bundle_path dir (ld_manifest l) ''trace'' TRACE_PATH) (state_seq (ld_state l)) owned' (bu_disk b) of
           (Inl e, dk) \<Rightarrow> (Inl e, b)
         | (Inr u, dk) \<Rightarrow> (let b' = b\<lparr>bu_disk := dk, bu_context := Some \<lparr>bc_traceSeq = state_seq (ld_state l),
                bc_artifacts = new_writer,
                bc_bound = bound_streams (ld_manifest l)\<rparr>\<rparr>
             in case readRunBundle dir dk of
               None \<Rightarrow> (Inl BecameUnreadable, b')
             | Some l' \<Rightarrow> (Inr l', b'))))"

definition terminalStatusForEvent :: "string \<Rightarrow> string option" where
  "terminalStatusForEvent t =
    (if t = ''run_waiting'' then Some ''waiting''
     else if t = ''run_completed'' then Some ''completed''
     else if t = ''run_failed'' \<or> t = ''run_interrupted'' then Some ''failed''
     else if t = ''run_timed_out'' then Some ''timed_out''
     else if t = ''run_cancelled'' then Some ''cancelled''
     else None)"

definition put_if :: "bool \<Rightarrow> string \<Rightarrow> jv \<Rightarrow> jv obj \<Rightarrow> jv obj" where
  "put_if p k v ob = (if p then obj_put k v ob else ob)"

definition recoverTerminalProjection :: "jv obj \<Rightarrow> jv \<Rightarrow> jv obj option" where
  "recoverTerminalProjection st ev = (case text_of (member ''type'' ev) of
     None \<Rightarrow> None
   | Some t \<Rightarrow> (case terminalStatusForEvent t of
       None \<Rightarrow> None
     | Some status \<Rightarrow> (let pay = sub_object (member ''payload'' ev);
           s1 = obj_put ''finishedAt'' (member ''at'' ev) (obj_put ''updatedAt'' (member ''at'' ev)
             (obj_put ''status'' (JStr status) (obj_put ''traceSeq'' (member ''seq'' ev) st)));
           s2 = put_if (is_str (field pay ''error'')) ''error'' (field pay ''error'') s1;
           s3 = put_if (is_str (field pay ''waitingOn'')) ''waitingOn'' (field pay ''waitingOn'') s2;
           s4 = put_if (has_own pay ''finalOutput'') ''finalOutput'' (field pay ''finalOutput'') s3
         in Some (fold obj_delete [''currentNode'', ''currentAttemptId'', ''currentNodeStartedAt''] s4))))"

definition interrupted_state :: "string \<Rightarrow> string \<Rightarrow> jv obj \<Rightarrow> jv obj" where
  "interrupted_state reason now st =
     fold obj_delete [''currentNode'', ''currentAttemptId'', ''currentNodeStartedAt'', ''statusDetail'', ''paused'']
      (obj_put ''error'' (JStr reason) (obj_put ''finishedAt'' (JStr now) (obj_put ''status'' (JStr ''failed'') st)))"

text \<open>The repaired captures of the session files are left out.\<close>

definition interrupt_context :: "loaded \<Rightarrow> jv option \<Rightarrow> bundle_context" where
  "interrupt_context l lastEvent = \<lparr>bc_traceSeq = max (state_seq (ld_state l))
      (case lastEvent of None \<Rightarrow> 0 | Some ev \<Rightarrow> seq_number ev),
    bc_artifacts = new_writer, bc_bound = bound_streams (ld_manifest l)\<rparr>"

definition interruption :: "string \<Rightarrow> event_draft" where
  "interruption reason = \<lparr>dr_scope = ''run'', dr_type = ''run_interrupted'', dr_node = None, dr_attempt = None,
     dr_payload = [(''error'', JStr reason)]\<rparr>"

definition interrupt_with ::
    "(string \<Rightarrow> string) \<Rightarrow> string list \<Rightarrow> bool \<Rightarrow> string \<Rightarrow> string \<Rightarrow> jv obj \<Rightarrow> jv obj option \<Rightarrow> (bundle_error, run_bundle, loaded option) op" where
  "interrupt_with sha dir owned now reason st0 recovered b1 = (case recovered of
     Some st \<Rightarrow> (let b2 = writeLoadedProjections dir st b1 in (Inr (readRunBundle dir (bu_disk b2)), b2))
   | None \<Rightarrow>
       if \<not> owned then (Inl FenceLost, b1)
       else (let st = interrupted_state reason now st0 in
         case appendTraceEvent sha dir now (case text_of (field st ''runId'') of Some r \<Rightarrow> r | None \<Rightarrow> []) (interruption reason) b1 of
         (ev, b2) \<Rightarrow> (let b3 = writeLoadedProjections dir (stamp_state ev (case text_of (member ''at'' ev) of
               Some a \<Rightarrow> a | None \<Rightarrow> []) st) b2
           in (Inr (readRunBundle dir (bu_disk b3)), b3))))"

definition markRunInterrupted ::
    "(string \<Rightarrow> string) \<Rightarrow> string list \<Rightarrow> bool \<Rightarrow> string \<Rightarrow> string \<Rightarrow> (bundle_error, run_bundle, loaded option) op" where
  "markRunInterrupted sha dir owned now reason b = (case readRunBundle dir (bu_disk b) of
     None \<Rightarrow> (Inr None, b)
   | Some l \<Rightarrow>
       if status_text (ld_state l) \<noteq> ''running'' then (Inr (Some l), b)
       else (let lastEvent = readLastTraceEvent dir (ld_manifest l) (bu_disk b)
         in interrupt_with sha dir owned now reason (ld_state l)
           (case lastEvent of None \<Rightarrow> None | Some ev \<Rightarrow> recoverTerminalProjection (ld_state l) ev)
           (b\<lparr>bu_context := Some (interrupt_context l lastEvent)\<rparr>)))"

section \<open>Crashes\<close>

text \<open>
  Where a process that writes a snapshot may die: after some characters of the trace line, after
  the whole line, or after the state and before the manifest.  The context dies with it.
\<close>

datatype crash_point = TornLine nat | LineWritten | StateWritten

definition die_in_snapshot ::
    "(string \<Rightarrow> string) \<Rightarrow> string list \<Rightarrow> string \<Rightarrow> jv obj \<Rightarrow> event_draft \<Rightarrow> crash_point \<Rightarrow> run_bundle \<Rightarrow> run_bundle" where
  "die_in_snapshot sha dir now st d point b = (let rid = (case text_of (field st ''runId'') of Some r \<Rightarrow> r | None \<Rightarrow> []) in
     case appendTraceEvent sha dir now rid d b of (ev, b1) \<Rightarrow>
     (case point of
       TornLine n \<Rightarrow> b\<lparr>bu_disk := appendText (dir @ [TRACE_PATH]) (take n (json_line ev))
           (write_artifacts dir (snd (stamp_event sha now rid d (contextFor b))) (bu_disk b)), bu_context := None\<rparr>
     | LineWritten \<Rightarrow> b1\<lparr>bu_context := None\<rparr>
     | StateWritten \<Rightarrow> (case encode_state sha dir (stamp_state ev now st) b1 of (enc, b2) \<Rightarrow>
         (write_state dir enc b2)\<lparr>bu_context := None\<rparr>)))"

text \<open>
  Dying while a session is bound: the binding file is written before the trace line, of which some
  characters, perhaps none or all, are written.  A stream that is bound already writes nothing.
\<close>

definition die_in_binding ::
    "(string \<Rightarrow> string) \<Rightarrow> string list \<Rightarrow> string \<Rightarrow> jv obj \<Rightarrow> string option \<Rightarrow> nat \<Rightarrow> run_bundle \<Rightarrow> run_bundle" where
  "die_in_binding sha dir now binding attemptId n b =
     (let key = (case attemptId of None \<Rightarrow> [] | Some a \<Rightarrow> a);
        sub = (case attemptId of None \<Rightarrow> [SESSION_DIR] | Some a \<Rightarrow> [SESSION_DIR, ''segments'', a]) in
      if key \<in> set (bc_bound (contextFor b)) \<or> (attemptId \<noteq> None \<and> \<not> run_id_pattern key) then b\<lparr>bu_context := None\<rparr>
      else die_in_snapshot sha dir now binding (binding_draft binding attemptId) (TornLine n)
        (b\<lparr>bu_disk := writeJsonAtomic (dir @ sub @ [''binding.json'']) (JObj binding) (bu_disk b)\<rparr>))"

datatype bundle_act =
    Snapshot "jv obj" event_draft string
  | Publish "jv obj" string string string update_input bool string
  | BindSession "jv obj" "string option" string
  | DieInSnapshot "jv obj" event_draft string crash_point
  | DieInBinding "jv obj" "string option" string nat
  | Die
  | Resume

text \<open>Only a process that created or resumed the bundle writes to it.\<close>

fun act_on :: "(string \<Rightarrow> string) \<Rightarrow> string list \<Rightarrow> bundle_act \<Rightarrow> run_bundle \<Rightarrow> run_bundle" where
  "act_on sha dir (Snapshot st d now) b =
     (if bu_context b = None then b else snd (writeSnapshot sha dir True now st d b))"
| "act_on sha dir (Publish st nodeId attemptId updateId u aborted now) b =
     (if bu_context b = None then b else snd (publishUpdate sha dir True aborted now st nodeId attemptId updateId u b))"
| "act_on sha dir (BindSession sb a now) b =
     (if bu_context b = None then b else snd (writeSessionBinding sha dir True now sb a b))"
| "act_on sha dir (DieInSnapshot st d now point) b =
     (if bu_context b = None then b else die_in_snapshot sha dir now st d point b)"
| "act_on sha dir (DieInBinding sb a now n) b =
     (if bu_context b = None then b else die_in_binding sha dir now sb a n b)"
| "act_on sha dir Die b = b\<lparr>bu_context := None\<rparr>"
| "act_on sha dir Resume b = (if bu_context b = None then snd (prepareRunResume dir True True b) else b)"

end
