(* ===== verification/BundleText.thy ===== *)
theory BundleText
  imports RunBundle ArtifactLaws
begin

text \<open>
  From values to files: what parsing the printed form of a value gives, why a printed event is one
  line, and that the stored state passes the checks the state in memory passes.
\<close>

section \<open>Values with undefined members\<close>

fun js_data :: "jv \<Rightarrow> bool" where
  "js_data (JNum n) = (case n of NumFin t \<Rightarrow> is_num_text t | _ \<Rightarrow> False)"
| "js_data (JArr vs) = list_all js_data vs"
| "js_data (JObj kvs) = (js_ordered kvs \<and> list_all (\<lambda>kv. js_data (snd kv)) kvs)"
| "js_data JFun = False"
| "js_data JExotic = False"
| "js_data v = True"

fun json_clean :: "jv \<Rightarrow> jv" where
  "json_clean (JArr vs) = JArr (map (\<lambda>v. if v = JUndef then JNull else json_clean v) vs)"
| "json_clean (JObj kvs) = JObj (map (\<lambda>(k, v). (k, json_clean v)) (filter (\<lambda>(k, v). v \<noteq> JUndef) kvs))"
| "json_clean v = v"

lemma json_value_js_data: "json_value v \<Longrightarrow> js_data v"
  by (induction v rule: json_value.induct) (auto simp: list_all_iff split: jnum.splits)

lemma json_value_not_undef: "json_value v \<Longrightarrow> v \<noteq> JUndef"
  by auto

lemma json_clean_value: "json_value v \<Longrightarrow> json_clean v = v"
proof (induction v rule: json_clean.induct)
  case (1 vs)
  then have "\<forall>v \<in> set vs. v \<noteq> JUndef \<and> json_clean v = v"
    using json_value_not_undef by (auto simp: list_all_iff)
  then show ?case by (simp add: map_idI)
next
  case (2 kvs)
  have "filter (\<lambda>(k, v). v \<noteq> JUndef) kvs = kvs"
    using 2(2) by (fastforce simp: list_all_iff filter_id_conv dest: json_value_not_undef)
  moreover have "map (\<lambda>(k, v). (k, json_clean v)) kvs = kvs"
    using 2 by (fastforce simp: list_all_iff intro!: map_idI)
  ultimately show ?case by simp
qed auto

lemma js_order_filter: "js_order (filter P ob) = filter P (js_order ob)"
proof -
  have swap: "filter P (filter Q xs) = filter Q (filter P xs)" for P Q and xs :: "(string \<times> 'v) list"
    by (simp add: conj_commute)
  show ?thesis
    unfolding js_order_def filter_append filter_sort
    by (intro arg_cong2[where f = append] arg_cong[where f = "sort_key _"] swap)
qed

lemma js_ordered_filter: "js_ordered ob \<Longrightarrow> js_ordered (filter P ob)"
  by (simp add: js_ordered_def js_order_filter distinct_fst_filter)

lemma json_text_undef: "js_data v \<Longrightarrow> json_text v = None \<longleftrightarrow> v = JUndef"
  by (cases v) auto

lemma json_value_clean: "js_data v \<Longrightarrow> v \<noteq> JUndef \<Longrightarrow> json_value (json_clean v)"
proof (induction v rule: json_clean.induct)
  case (1 vs)
  then show ?case by (auto simp: list_all_iff)
next
  case (2 kvs)
  have "js_ordered (map (\<lambda>(k, v). (k, json_clean v)) (filter (\<lambda>(k, v). v \<noteq> JUndef) kvs))"
    using 2(2) by (intro js_ordered_map_snd js_ordered_filter) simp
  then show ?case using 2(1,2) by (fastforce simp: list_all_iff)
qed auto

lemma json_text_clean: "js_data v \<Longrightarrow> json_text (json_clean v) = json_text v"
proof (induction v rule: json_clean.induct)
  case (1 vs)
  have "map (\<lambda>v. case json_text v of None \<Rightarrow> ''null'' | Some t \<Rightarrow> t) (map (\<lambda>v. if v = JUndef then JNull else json_clean v) vs) =
      map (\<lambda>v. case json_text v of None \<Rightarrow> ''null'' | Some t \<Rightarrow> t) vs"
    using 1 by (auto simp: list_all_iff)
  then show ?case by (simp only: json_clean.simps json_text.simps)
next
  case (2 kvs)
  let ?m = "\<lambda>kv. case json_text (snd kv) of None \<Rightarrow> [] | Some t \<Rightarrow> [quote_json (fst kv) @ '':'' @ t]"
  have "concat (map ?m (map (\<lambda>(k, v). (k, json_clean v)) (filter (\<lambda>(k, v). v \<noteq> JUndef) xs))) = concat (map ?m xs)"
    if "\<forall>kv \<in> set xs. js_data (snd kv) \<and> (snd kv \<noteq> JUndef \<longrightarrow> json_text (json_clean (snd kv)) = json_text (snd kv))" for xs
    using that by (induction xs) (auto split: option.splits)
  from this[of kvs] show ?case using 2 by (fastforce simp: list_all_iff)
qed auto

lemma file_value_clean:
  assumes "js_data v" "v \<noteq> JUndef"
  shows "file_value v = Some (json_clean v)"
proof -
  obtain t where "json_text v = Some t" using json_text_undef[OF assms(1)] assms(2) by auto
  moreover from this have "json_text (json_clean v) = Some t" using json_text_clean[OF assms(1)] by simp
  ultimately show ?thesis
    using json_parse_text[OF json_value_clean[OF assms]] by (simp add: file_value_def)
qed

section \<open>Lines\<close>

lemma nl_code: "code_of nl = 10"
  by (simp add: code_of_def nl_def)

lemma code_of_char_of: "n < 256 \<Longrightarrow> code_of (char_of n) = n"
  by (simp add: code_of_def)

lemma hex_digit_no_nl: "n < 16 \<Longrightarrow> hex_digit n \<noteq> nl"
proof
  assume "n < 16" "hex_digit n = nl"
  then have "hex_val nl = Some n" using hex_val_digit by metis
  moreover have "hex_val nl = None" by code_simp
  ultimately show False by simp
qed

lemma esc_char_no_nl: "nl \<notin> set (esc_char c)"
proof (cases "code_of c < 32")
  case True
  then have "hex_digit (code_of c div 16) \<noteq> nl" "hex_digit (code_of c mod 16) \<noteq> nl"
    by (auto intro!: hex_digit_no_nl)
  then show ?thesis using True unfolding esc_char_def nl_def by auto
next
  case False
  then have "c \<noteq> nl" using nl_code by auto
  then show ?thesis using False unfolding esc_char_def nl_def by auto
qed

lemma quote_json_no_nl: "nl \<notin> set (quote_json s)"
proof -
  have "nl \<notin> set (concat (map esc_char s))" using esc_char_no_nl by auto
  then show ?thesis by (simp add: quote_json_def nl_def)
qed

lemma set_join_with: "set (join_with sep ws) \<subseteq> set sep \<union> (\<Union>w \<in> set ws. set w)"
  by (induction sep ws rule: join_with.induct) auto

lemma json_text_no_nl: "json_value v \<Longrightarrow> json_text v = Some t \<Longrightarrow> nl \<notin> set t"
proof (induction v arbitrary: t rule: json_text.induct)
  case (4 n)
  then show ?case by (auto simp: is_num_text_def list_all_iff num_char_def is_digit_def nl_code nl_def code_of_def
        split: jnum.splits)
next
  case (5 s)
  then show ?case using quote_json_no_nl by auto
next
  case (6 vs)
  let ?m = "\<lambda>v. case json_text v of None \<Rightarrow> ''null'' | Some t \<Rightarrow> t"
  have "nl \<notin> set (?m v)" if "v \<in> set vs" for v
    using that 6 by (auto simp: list_all_iff nl_def split: option.splits)
  then have "nl \<notin> set (join_with '','' (map ?m vs))" using set_join_with[of "'',''" "map ?m vs"] by (auto simp: nl_def)
  then show ?case using 6(3) by (auto simp: nl_def)
next
  case (7 kvs)
  let ?m = "\<lambda>kv. case json_text (snd kv) of None \<Rightarrow> [] | Some t \<Rightarrow> [quote_json (fst kv) @ '':'' @ t]"
  have "nl \<notin> set w" if "kv \<in> set kvs" "w \<in> set (?m kv)" for kv w
    using that 7 quote_json_no_nl by (fastforce simp: list_all_iff nl_def split: option.splits)
  then have "nl \<notin> set (join_with '','' (concat (map ?m kvs)))"
    using set_join_with[of "'',''" "concat (map ?m kvs)"] by (fastforce simp: nl_def)
  then show ?case using 7(3) by (auto simp: nl_def)
qed (auto simp: nl_def)

section \<open>Fields\<close>

lemma field_put [simp]: "field (obj_put k v ob) k' = (if k' = k then v else field ob k')"
  by (simp add: field_def)

lemma field_Nil [simp]: "field [] k = JUndef"
  by (simp add: field_def)

lemma field_Cons [simp]: "field ((k, v) # ob) k' = (if k' = k then v else field ob k')"
  by (auto simp: field_def obj_get_def)

lemma field_clean:
  "distinct (map fst ob) \<Longrightarrow> field (map (\<lambda>(k, v). (k, json_clean v)) (filter (\<lambda>(k, v). v \<noteq> JUndef) ob)) k = json_clean (field ob k)"
proof (induction ob)
  case (Cons kv ob)
  have "field ob k' = JUndef" if "k' \<notin> fst ` set ob" for k'
    using that by (simp add: field_def obj_get_def map_of_eq_None_iff[THEN iffD2])
  then show ?case using Cons by (cases kv) auto
qed simp

lemma field_json_value: "json_value (JObj ob) \<Longrightarrow> field ob k = JUndef \<or> json_value (field ob k)"
  using map_of_SomeD by (fastforce simp: field_def obj_get_def list_all_iff split: option.splits)

section \<open>The stored state\<close>

lemma put_encoded_is: "fst (put_encoded sha k ob w) = obj_put k (encoded sha ARTIFACT_THRESHOLD_BYTES (field ob k)) ob"
  using encode_is_encoded(1)[of sha ARTIFACT_THRESHOLD_BYTES "field ob k" w]
  by (auto simp: put_encoded_def split: prod.splits)

definition encoded_result :: "(string \<Rightarrow> string) \<Rightarrow> jv \<Rightarrow> jv" where
  "encoded_result sha v = (case v of
     JObj r \<Rightarrow> if has_own r ''output'' then JObj (obj_put ''output'' (encoded sha ARTIFACT_THRESHOLD_BYTES (field r ''output'')) r) else v
   | _ \<Rightarrow> v)"

definition encoded_step :: "(string \<Rightarrow> string) \<Rightarrow> jv \<Rightarrow> jv" where
  "encoded_step sha v = (case v of
     JObj st \<Rightarrow> JObj (obj_put ''output'' (encoded sha ARTIFACT_THRESHOLD_BYTES (field st ''output''))
       (obj_put ''prompt'' (encoded sha ARTIFACT_THRESHOLD_BYTES (field st ''prompt'')) st))
   | _ \<Rightarrow> v)"

lemma encode_results_is: "fst (encode_results sha kvs w) = map (\<lambda>(k, v). (k, encoded_result sha v)) kvs"
proof (induction kvs arbitrary: w)
  case (Cons kv kvs)
  then show ?case
    by (cases kv; cases "snd kv") (simp_all add: case_prod_beta encoded_result_def put_encoded_is)
qed simp

lemma encode_steps_is: "fst (encode_steps sha vs w) = map (encoded_step sha) vs"
proof (induction vs arbitrary: w)
  case (Cons v vs)
  then show ?case
    by (cases v) (simp_all add: case_prod_beta encoded_step_def put_encoded_is)
qed simp

definition encoded_state :: "(string \<Rightarrow> string) \<Rightarrow> jv obj \<Rightarrow> jv obj" where
  "encoded_state sha st = (let e = encoded sha ARTIFACT_THRESHOLD_BYTES;
      s1 = obj_put ''steps'' (JArr (map (encoded_step sha) (sub_array (field st ''steps''))))
        (obj_put ''results'' (JObj (map (\<lambda>(k, v). (k, encoded_result sha v)) (sub_object (field st ''results''))))
        (obj_put ''outputs'' (JObj (encoded_fields sha ARTIFACT_THRESHOLD_BYTES (sub_object (field st ''outputs''))))
        (obj_put ''input'' (e (field st ''input'')) st)))
    in if field st ''finalOutput'' = JUndef then s1 else obj_put ''finalOutput'' (e (field st ''finalOutput'')) s1)"

lemma encodeRunState_is: "fst (encodeRunState sha st w) = encoded_state sha st"
  by (simp add: encodeRunState_def encoded_state_def Let_def case_prod_beta put_encoded_is encode_results_is
      encode_steps_is encode_is_encoded)

lemma index_keys: "\<not> is_index ''input''" "\<not> is_index ''outputs''" "\<not> is_index ''results''" "\<not> is_index ''steps''"
  "\<not> is_index ''finalOutput''" "\<not> is_index ''output''" "\<not> is_index ''prompt''" "\<not> is_index ''traceSeq''"
  "\<not> is_index ''updatedAt''" "\<not> is_index ''updates''"
  by code_simp+

lemma keys_put: "map fst (obj_put k v ob) = (if k \<in> fst ` set ob then map fst ob else map fst ob @ [k])"
  by (induction ob) (auto simp: obj_put_def)

definition key_order :: "string list \<Rightarrow> bool" where
  "key_order ks \<longleftrightarrow> (\<exists>us bs. ks = us @ bs \<and> list_all is_index us \<and> list_all (\<lambda>k. \<not> is_index k) bs \<and>
     sorted (map (dec_val 0) us))"

lemma js_order_keys: "js_order ob = ob \<longleftrightarrow> key_order (map fst ob)"
proof
  let ?f = "\<lambda>(k, _). dec_val 0 k"
  assume ord: "js_order ob = ob"
  let ?us = "sort_key ?f (filter (\<lambda>(k, _). is_index k) ob)"
  let ?bs = "filter (\<lambda>(k, _). \<not> is_index k) ob"
  have "map fst ob = map fst ?us @ map fst ?bs"
    using ord by (metis js_order_def map_append)
  moreover have "map (dec_val 0) (map fst ?us) = map ?f ?us" by (simp add: comp_def case_prod_beta)
  then have "sorted (map (dec_val 0) (map fst ?us))" by (simp only: sorted_sort_key)
  moreover have "list_all is_index (map fst ?us)" "list_all (\<lambda>k. \<not> is_index k) (map fst ?bs)"
    by (auto simp: list_all_iff)
  ultimately show "key_order (map fst ob)" unfolding key_order_def by blast
next
  assume "key_order (map fst ob)"
  then obtain us bs where ks: "map fst ob = us @ bs" "list_all is_index us" "list_all (\<lambda>k. \<not> is_index k) bs"
      "sorted (map (dec_val 0) us)" unfolding key_order_def by blast
  then obtain xs ys where ob: "ob = xs @ ys" "map fst xs = us" "map fst ys = bs"
    by (metis map_eq_append_conv)
  have xs: "filter (\<lambda>(k, _). is_index k) xs = xs" "filter (\<lambda>(k, _). \<not> is_index k) xs = []"
    using ks(2) ob(2) by (force simp: list_all_iff filter_id_conv filter_empty_conv)+
  have ys: "filter (\<lambda>(k, _). is_index k) ys = []" "filter (\<lambda>(k, _). \<not> is_index k) ys = ys"
    using ks(3) ob(3) by (force simp: list_all_iff filter_id_conv filter_empty_conv)+
  have "sorted (map (\<lambda>(k, _). dec_val 0 k) xs)"
    using ks(4) ob(2)[symmetric] by (simp add: comp_def case_prod_beta')
  then have "sort_key (\<lambda>(k, _). dec_val 0 k) xs = xs"
    by (induction xs) (simp_all add: insort_is_Cons)
  then show "js_order ob = ob" by (simp add: js_order_def ob(1) xs ys)
qed

lemma key_order_snoc: "key_order ks \<Longrightarrow> \<not> is_index k \<Longrightarrow> key_order (ks @ [k])"
  unfolding key_order_def
  by (elim exE conjE, rule_tac x = us in exI, rule_tac x = "bs @ [k]" in exI) simp

lemma js_ordered_put:
  assumes "js_ordered ob" "\<not> is_index k"
  shows "js_ordered (obj_put k v ob)"
  using assms key_order_snoc by (auto simp: js_ordered_def js_order_keys keys_put)

lemma js_ordered_map: "js_ordered ob \<Longrightarrow> map fst ob' = map fst ob \<Longrightarrow> js_ordered ob'"
  by (simp add: js_ordered_def js_order_keys)

lemma in_obj_put: "kv \<in> set (obj_put k v ob) \<Longrightarrow> kv \<in> set ob \<or> kv = (k, v)"
  by (induction ob) (auto simp: obj_put_def split: if_splits)

lemma js_data_put: "js_data (JObj ob) \<Longrightarrow> \<not> is_index k \<Longrightarrow> js_data v \<Longrightarrow> js_data (JObj (obj_put k v ob))"
  using in_obj_put by (fastforce simp: js_ordered_put list_all_iff)

lemma js_data_encoded: "v = JUndef \<or> json_value v \<Longrightarrow> js_data (encoded sha n v)"
  using json_value_encoded(1) json_value_js_data by auto

lemma js_data_put_encoded:
  "json_value (JObj ob) \<Longrightarrow> \<not> is_index k \<Longrightarrow> js_data (JObj ob') \<Longrightarrow> js_data (JObj (obj_put k (encoded sha n (field ob k)) ob'))"
  by (intro js_data_put js_data_encoded field_json_value)

lemma js_data_result: "json_value v \<Longrightarrow> js_data (encoded_result sha v)"
  by (cases v)
    (simp_all only: encoded_result_def jv.simps if_split js_data_put_encoded index_keys json_value_js_data not_False_eq_True
      refl simp_thms)

lemma js_data_step: "json_value v \<Longrightarrow> js_data (encoded_step sha v)"
  by (cases v)
    (simp_all only: encoded_step_def jv.simps js_data_put_encoded index_keys json_value_js_data not_False_eq_True)


lemma sub_object_json: "v = JUndef \<or> json_value v \<Longrightarrow> json_value (JObj (sub_object v))"
  by (cases v) (auto simp: sub_object_def js_ordered_def js_order_def)

lemma sub_array_json: "v = JUndef \<or> json_value v \<Longrightarrow> list_all json_value (sub_array v)"
  by (cases v) (auto simp: sub_array_def)

lemma js_data_encoded_state:
  assumes "json_value (JObj st)"
  shows "js_data (JObj (encoded_state sha st))"
proof -
  note fields = field_json_value[OF assms]
  have "js_data (JArr (map (encoded_step sha) (sub_array (field st ''steps''))))"
    using sub_array_json[OF fields] by (auto simp: list_all_iff js_data_step)
  moreover have "js_data (JObj (map (\<lambda>(k, v). (k, encoded_result sha v)) (sub_object (field st ''results''))))"
    using sub_object_json[OF fields] js_ordered_map_snd js_data_result by (fastforce simp: list_all_iff)
  moreover have "js_data (JObj (encoded_fields sha ARTIFACT_THRESHOLD_BYTES (sub_object (field st ''outputs''))))"
    using sub_object_json[OF fields] js_ordered_map_snd js_data_encoded
    by (fastforce simp: list_all_iff encoded_fields_map)
  moreover have "js_data (JObj st)" using assms by (rule json_value_js_data)
  ultimately have "js_data (JObj (obj_put ''steps'' (JArr (map (encoded_step sha) (sub_array (field st ''steps''))))
      (obj_put ''results'' (JObj (map (\<lambda>(k, v). (k, encoded_result sha v)) (sub_object (field st ''results''))))
      (obj_put ''outputs'' (JObj (encoded_fields sha ARTIFACT_THRESHOLD_BYTES (sub_object (field st ''outputs''))))
      (obj_put ''input'' (encoded sha ARTIFACT_THRESHOLD_BYTES (field st ''input'')) st)))))"
    by (intro js_data_put index_keys js_data_put_encoded assms)
  moreover have "js_data (JObj (if field st ''finalOutput'' = JUndef then s1
      else obj_put ''finalOutput'' (encoded sha n (field st ''finalOutput'')) s1))" if "js_data (JObj s1)" for s1 n
    using that js_data_put_encoded[OF assms index_keys(5) that]
    by (cases "field st ''finalOutput'' = JUndef") (simp_all only: if_True if_False refl)
  ultimately show ?thesis unfolding encoded_state_def Let_def by blast
qed

text \<open>The object a reader of the state file sees.\<close>

definition stored_state :: "(string \<Rightarrow> string) \<Rightarrow> jv obj \<Rightarrow> jv obj" where
  "stored_state sha st = map (\<lambda>(k, v). (k, json_clean v)) (filter (\<lambda>(k, v). v \<noteq> JUndef) (encoded_state sha st))"

lemma stored_state_file:
  "json_value (JObj st) \<Longrightarrow> file_value (JObj (encoded_state sha st)) = Some (JObj (stored_state sha st))"
  using file_value_clean[OF js_data_encoded_state] by (simp add: stored_state_def)

definition moved_keys :: "string list" where
  "moved_keys = [''input'', ''outputs'', ''results'', ''steps'', ''finalOutput'']"

lemma json_clean_field: "json_value (JObj st) \<Longrightarrow> json_clean (field st k) = field st k"
  using field_json_value json_clean_value by (metis json_clean.simps(3))

lemma stored_field:
  assumes "json_value (JObj st)"
  shows "field (stored_state sha st) k = json_clean (field (encoded_state sha st) k)"
proof -
  have "distinct (map fst (encoded_state sha st))"
    using js_data_encoded_state[OF assms, of sha] by (simp add: js_ordered_def)
  then show ?thesis unfolding stored_state_def by (rule field_clean)
qed

lemma stored_plain_field:
  "json_value (JObj st) \<Longrightarrow> k \<notin> set moved_keys \<Longrightarrow> field (stored_state sha st) k = field st k"
  by (simp add: stored_field encoded_state_def Let_def moved_keys_def json_clean_field)

section \<open>The stored state is a state\<close>

lemma is_finite_clean [simp]: "json_clean v = JUndef \<longleftrightarrow> v = JUndef"
  by (cases v) auto

lemma state_shape_moved:
  assumes "validateRunStateShape st = None"
    and "\<And>k. k \<notin> set moved_keys \<Longrightarrow> field st' k = field st k"
    and "isRecord (field st' ''outputs'') \<noteq> None" "all_values isNodeResultShape (field st' ''results'')"
    and "all_items isProjectionStep (field st' ''steps'')"
  shows "validateRunStateShape st' = None"
proof -
  have "all_items (\<lambda>_. True) (field st' ''steps'')"
    using assms(5) by (auto simp: all_items_def list_all_iff split: jv.splits)
  then show ?thesis
    using assms(1)[unfolded validateRunStateShape_def first_failure_None] assms(3-5)
    unfolding validateRunStateShape_def first_failure_None by (simp add: assms(2) moved_keys_def)
qed

text \<open>Moving an output or a prompt out of a record does not touch what the shape checks look at.\<close>

lemma stored_record_field:
  assumes "json_value (JObj r)" "js_data (JObj r')" "field r' k = field r k"
  shows "field (map (\<lambda>(k, v). (k, json_clean v)) (filter (\<lambda>(k, v). v \<noteq> JUndef) r')) k = field r k"
  using assms json_clean_field[OF assms(1)] by (simp add: field_clean js_ordered_def)

lemma result_shape_stored:
  assumes "json_value v" "isNodeResultShape v"
  shows "isNodeResultShape (json_clean (encoded_result sha v))"
proof -
  obtain r where v: "v = JObj r" using assms(1,2) by (cases v) (auto simp: isNodeResultShape_def)
  define r' where "r' = (if has_own r ''output'' then obj_put ''output'' (encoded sha ARTIFACT_THRESHOLD_BYTES (field r ''output'')) r else r)"
  have e: "encoded_result sha v = JObj r'" by (simp add: v r'_def encoded_result_def)
  have d: "js_data (JObj r')" unfolding e[symmetric] using assms(1) by (rule js_data_result)
  have f: "field r' k = field r k" if "k \<noteq> ''output''" for k using that by (simp add: r'_def)
  have "field (map (\<lambda>(k, v). (k, json_clean v)) (filter (\<lambda>(k, v). v \<noteq> JUndef) r')) k = field r k"
    if "k \<noteq> ''output''" for k by (rule stored_record_field[OF assms(1)[unfolded v] d f[OF that]])
  then have "isNodeResultShape (json_clean (JObj r'))" using assms(2) by (simp add: v isNodeResultShape_def)
  then show ?thesis by (simp only: e)
qed

lemma step_shape_stored:
  assumes "json_value v" "isProjectionStep v"
  shows "isProjectionStep (json_clean (encoded_step sha v))"
proof -
  obtain r where v: "v = JObj r" using assms(1,2) by (cases v) (auto simp: isProjectionStep_def)
  obtain r' where e: "encoded_step sha v = JObj r'" by (simp add: v encoded_step_def)
  have d: "js_data (JObj r')" unfolding e[symmetric] using assms(1) by (rule js_data_step)
  have f: "field r' k = field r k" if "k \<noteq> ''output''" "k \<noteq> ''prompt''" for k
    using that e by (auto simp: v encoded_step_def)
  have "field (map (\<lambda>(k, v). (k, json_clean v)) (filter (\<lambda>(k, v). v \<noteq> JUndef) r')) k = field r k"
    if "k \<noteq> ''output''" "k \<noteq> ''prompt''" for k by (rule stored_record_field[OF assms(1)[unfolded v] d f[OF that]])
  then have "isProjectionStep (json_clean (JObj r'))" using assms(2) by (simp add: v isProjectionStep_def)
  then show ?thesis by (simp only: e)
qed

lemma all_items_stored:
  "all_items p v \<Longrightarrow> list_all json_value (sub_array v) \<Longrightarrow> (\<And>x. json_value x \<Longrightarrow> p x \<Longrightarrow> p (json_clean (f x))) \<Longrightarrow>
     (\<And>x. json_value x \<Longrightarrow> f x \<noteq> JUndef) \<Longrightarrow> all_items p (json_clean (JArr (map f (sub_array v))))"
  by (cases v) (auto simp: all_items_def sub_array_def list_all_iff)

lemma all_values_stored:
  "all_values p v \<Longrightarrow> list_all (\<lambda>kv. json_value (snd kv)) (sub_object v) \<Longrightarrow>
     (\<And>x. json_value x \<Longrightarrow> p x \<Longrightarrow> p (json_clean (f x))) \<Longrightarrow>
     all_values p (json_clean (JObj (map (\<lambda>(k, v). (k, f v)) (sub_object v))))"
  by (cases v) (fastforce simp: all_values_def sub_object_def list_all_iff)+

lemma stored_state_valid:
  assumes st: "json_value (JObj st)" and ok: "validateRunStateShape st = None"
  shows "validateRunStateShape (stored_state sha st) = None"
proof (rule state_shape_moved[OF ok])
  note fields = field_json_value[OF st]
  have parts: "all_values isNodeResultShape (field st ''results'')" "all_items isProjectionStep (field st ''steps'')"
    using ok[unfolded validateRunStateShape_def first_failure_None] by simp_all
  show "field (stored_state sha st) k = field st k" if "k \<notin> set moved_keys" for k
    using st that by (rule stored_plain_field)
  show "isRecord (field (stored_state sha st) ''outputs'') \<noteq> None"
    by (simp add: stored_field[OF st] encoded_state_def Let_def)
  have "field (stored_state sha st) ''results'' =
      json_clean (JObj (map (\<lambda>(k, v). (k, encoded_result sha v)) (sub_object (field st ''results''))))"
    by (simp add: stored_field[OF st] encoded_state_def Let_def del: json_clean.simps)
  then show "all_values isNodeResultShape (field (stored_state sha st) ''results'')"
    using all_values_stored[OF parts(1) _ result_shape_stored] sub_object_json[OF fields] by simp
  have "field (stored_state sha st) ''steps'' = json_clean (JArr (map (encoded_step sha) (sub_array (field st ''steps''))))"
    by (simp add: stored_field[OF st] encoded_state_def Let_def del: json_clean.simps)
  moreover have "encoded_step sha x \<noteq> JUndef" if "json_value x" for x
    using that by (cases x) (auto simp: encoded_step_def)
  ultimately show "all_items isProjectionStep (field (stored_state sha st) ''steps'')"
    using all_items_stored[OF parts(2) _ step_shape_stored] sub_array_json[OF fields] by simp
qed

end
