(* ===== verification/BundleLaws.thy ===== *)
theory BundleLaws
  imports BundleText
begin

text \<open>
  The crash consistency of run bundles.  The abstract specification is a journal of committed and
  pending trace events with the state of the last commit; every act on a bundle, crashes at any point
  included, is a step of the journal.
\<close>

section \<open>Traces as text\<close>

definition line_text :: "jv \<Rightarrow> string" where
  "line_text v = (case json_text v of None \<Rightarrow> ''undefined'' | Some t \<Rightarrow> t)"

definition trace_text :: "jv list \<Rightarrow> string" where
  "trace_text evs = concat (map json_line evs)"

definition good_event :: "nat \<Rightarrow> jv \<Rightarrow> bool" where
  "good_event n v \<longleftrightarrow> json_value v \<and> isTraceEventShape v \<and> member ''seq'' v = jnat n"

fun numbered :: "nat \<Rightarrow> jv list \<Rightarrow> bool" where
  "numbered n [] = True"
| "numbered n (v # vs) = (good_event n v \<and> numbered (Suc n) vs)"

lemma numbered_append: "numbered n (vs @ ws) \<longleftrightarrow> numbered n vs \<and> numbered (n + length vs) ws"
  by (induction vs arbitrary: n) auto

lemma json_line_text: "json_line v = line_text v @ [nl]"
  by (simp add: json_line_def line_text_def)

lemma good_event_object: "good_event n v \<Longrightarrow> \<exists>ob. v = JObj ob"
  by (cases v) (auto simp: good_event_def isTraceEventShape_def)

lemma trim_nonblank: "\<not> is_js_space c \<Longrightarrow> trim (c # s) \<noteq> []"
  by (simp add: trim_def trim_end_def dropWhile_eq_Nil_conv)

lemma trim_Nil [simp]: "trim [] = []"
  by (simp add: trim_def trim_end_def)

lemma good_event_text:
  assumes "good_event n v"
  shows "nl \<notin> set (line_text v)" "json_parse (line_text v) = Some v" "trim (line_text v) \<noteq> []" "line_text v \<noteq> []"
proof -
  have v: "json_value v" using assms by (simp add: good_event_def)
  then obtain t where t: "json_text v = Some t" using json_value_text by blast
  then have lt: "line_text v = t" by (simp add: line_text_def)
  show "nl \<notin> set (line_text v)" using json_text_no_nl[OF v t] lt by simp
  show "json_parse (line_text v) = Some v" using json_parse_text[OF v t] lt by simp
  obtain ob where "v = JObj ob" using good_event_object[OF assms] by blast
  then obtain u where u: "t = CHR ''{'' # u" using t by auto
  then show "line_text v \<noteq> []" using lt by simp
  have "\<not> is_js_space (CHR ''{'')" by code_simp
  then show "trim (line_text v) \<noteq> []" using lt u trim_nonblank by simp
qed

lemma split_line: "nl \<notin> set a \<Longrightarrow> split_on nl (a @ nl # rest) = a # split_on nl rest"
  by (induction a) auto

lemma split_tail: "nl \<notin> set a \<Longrightarrow> split_on nl a = [a]"
  by (induction a) auto

lemma split_trace:
  "numbered n evs \<Longrightarrow> nl \<notin> set torn \<Longrightarrow> split_on nl (trace_text evs @ torn) = map line_text evs @ [torn]"
proof (induction evs arbitrary: n)
  case Nil
  then show ?case by (simp add: trace_text_def split_tail)
next
  case (Cons v vs)
  then have "split_on nl (line_text v @ nl # (trace_text vs @ torn)) = line_text v # split_on nl (trace_text vs @ torn)"
    using good_event_text(1)[of n v] by (intro split_line) simp
  then show ?case using Cons.IH[of "Suc n"] Cons.prems by (simp add: trace_text_def json_line_text)
qed

lemma good_lines_trace:
  "numbered n evs \<Longrightarrow> good_lines n (map line_text evs @ rest) = map line_text evs @ good_lines (n + length evs) rest"
  by (induction evs arbitrary: n) (simp_all add: good_event_text good_event_def)

lemma join_trace: "evs \<noteq> [] \<Longrightarrow> join_with [nl] (map line_text evs) @ [nl] = trace_text evs"
proof (induction evs)
  case (Cons v vs)
  then show ?case by (cases vs) (simp_all add: trace_text_def json_line_text)
qed simp

text \<open>Repairing keeps exactly the events up to the recorded one.\<close>

lemma repaired_trace_keeps:
  assumes "numbered 1 (cs @ ps)" "nl \<notin> set torn"
  shows "(case repaired_trace (trace_text (cs @ ps) @ torn) (length cs) of
     None \<Rightarrow> trace_text (cs @ ps) @ torn | Some t \<Rightarrow> t) = trace_text cs"
proof -
  let ?ls = "if torn = [] then map line_text (cs @ ps) else map line_text (cs @ ps) @ [torn]"
  have ls: "trace_lines (trace_text (cs @ ps) @ torn) = ?ls"
    using split_trace[OF assms] by (simp add: trace_lines_def Let_def butlast_append)
  have "good_lines 1 ?ls = map line_text (cs @ ps) @ good_lines (1 + length (cs @ ps)) (if torn = [] then [] else [torn])"
    using good_lines_trace[OF assms(1), of "[]"] good_lines_trace[OF assms(1), of "[torn]"] by simp
  then have kept: "take (length cs) (good_lines 1 ?ls) = map line_text cs" by simp
  then have "repaired_trace (trace_text (cs @ ps) @ torn) (length cs) = (if length cs = length ?ls then None
      else Some (if cs = [] then [] else join_with [nl] (map line_text cs) @ [nl]))"
    by (simp only: repaired_trace_def ls Let_def length_map map_is_Nil_conv)
  then show ?thesis
    using join_trace[of cs] by (cases "cs = []") (auto simp: trace_text_def split: if_splits)
qed

lemma read_lines_trace: "numbered n evs \<Longrightarrow> read_lines isTraceEventShape (map line_text evs @ [[]]) = (evs, False)"
proof (induction evs arbitrary: n)
  case (Cons v vs)
  then show ?case using Cons.IH[of "Suc n"] good_event_text[of n v] by (simp add: good_event_def)
qed simp

lemma read_lines_append:
  "read_lines p (xs @ ys) = (fst (read_lines p xs) @ fst (read_lines p ys), snd (read_lines p xs) \<or> snd (read_lines p ys))"
  by (induction xs) (auto split: prod.splits option.splits)

lemma read_torn_trace:
  assumes "numbered 1 evs" "nl \<notin> set torn" "file_text disk p = Some (trace_text evs @ torn)"
  shows "readNdjsonFile isTraceEventShape disk p = \<lparr>nj_records = evs, nj_exists = True, nj_torn = (torn \<noteq> []), nj_malformed = False\<rparr>"
proof (cases "torn = []")
  case True
  have "trace_text evs = [] \<or> ends_nl (trace_text evs)"
    by (cases evs rule: rev_cases) (auto simp: trace_text_def json_line_text ends_nl_def)
  then show ?thesis
    using True assms(3) split_trace[OF assms(1), of "[]"] read_lines_trace[OF assms(1)]
    by (auto simp: readNdjsonFile_def Let_def)
next
  case False
  then have "\<not> ends_nl (trace_text evs @ torn)" using assms(2) by (metis False ends_nl_def last_appendR last_in_set)
  moreover have "read_lines isTraceEventShape (map line_text evs) = (evs, False)"
    using read_lines_trace[OF assms(1)] read_lines_append[of isTraceEventShape "map line_text evs" "[[]]"] by (auto split: prod.splits)
  ultimately show ?thesis
    using False assms(3) split_trace[OF assms(1,2)] by (simp add: readNdjsonFile_def Let_def)
qed

lemma read_trace:
  "numbered 1 evs \<Longrightarrow> file_text disk p = Some (trace_text evs) \<Longrightarrow>
     readNdjsonFile isTraceEventShape disk p = \<lparr>nj_records = evs, nj_exists = True, nj_torn = False, nj_malformed = False\<rparr>"
  using read_torn_trace[of evs "[]"] by simp

section \<open>Places on the disk\<close>

definition clean_writer :: "artifact_writer \<Rightarrow> bool" where
  "clean_writer w \<longleftrightarrow> (\<forall>p \<in> fst ` set (wr_files w). \<exists>h. p = artifact_path h \<and> CHR ''/'' \<notin> set h)"

lemma clean_new: "clean_writer new_writer"
  by (simp add: clean_writer_def new_writer_def)

lemma clean_externalize:
  "\<forall>s. CHR ''/'' \<notin> set (sha s) \<Longrightarrow> clean_writer w \<Longrightarrow> clean_writer (snd (externalize sha s w))"
  by (fastforce simp: clean_writer_def externalize_def Let_def dest: in_obj_put)

lemma clean_encode:
  assumes "\<forall>s. CHR ''/'' \<notin> set (sha s)"
  shows "clean_writer w \<Longrightarrow> clean_writer (snd (encodeValue sha n v w))"
    and "clean_writer w \<Longrightarrow> clean_writer (snd (encode_items sha n vs w))"
    and "clean_writer w \<Longrightarrow> clean_writer (snd (encode_fields sha n kvs w))"
  using assms
  by (induction sha n v w and sha n vs w and sha n kvs w rule: encodeValue_encode_items_encode_fields.induct)
    (auto simp: clean_externalize split: prod.splits)

lemma clean_put: "\<forall>s. CHR ''/'' \<notin> set (sha s) \<Longrightarrow> clean_writer w \<Longrightarrow> clean_writer (snd (put_encoded sha k ob w))"
  using clean_encode(1)[of sha w ARTIFACT_THRESHOLD_BYTES "field ob k"] by (simp add: put_encoded_def case_prod_beta)

lemma clean_results: "\<forall>s. CHR ''/'' \<notin> set (sha s) \<Longrightarrow> clean_writer w \<Longrightarrow> clean_writer (snd (encode_results sha kvs w))"
proof (induction kvs arbitrary: w)
  case (Cons kv kvs)
  then show ?case
    by (cases kv; cases "snd kv") (simp_all add: case_prod_beta clean_put)
qed simp

lemma clean_steps: "\<forall>s. CHR ''/'' \<notin> set (sha s) \<Longrightarrow> clean_writer w \<Longrightarrow> clean_writer (snd (encode_steps sha vs w))"
proof (induction vs arbitrary: w)
  case (Cons v vs)
  then show ?case by (cases v) (simp_all add: case_prod_beta clean_put)
qed simp

lemma clean_state: "\<forall>s. CHR ''/'' \<notin> set (sha s) \<Longrightarrow> clean_writer w \<Longrightarrow> clean_writer (snd (encodeRunState sha st w))"
  by (simp add: encodeRunState_def case_prod_beta Let_def clean_put clean_results clean_steps clean_encode)

lemma write_artifacts_frame:
  assumes "clean_writer w" "length p = length dir + 1"
  shows "write_artifacts dir w disk p = disk p"
proof -
  have "fold (\<lambda>(q, s) dk. dk(path_resolve dir q := Some (TextFile s))) fs disk p = disk p"
    if "\<forall>q \<in> fst ` set fs. \<exists>h. q = artifact_path h \<and> CHR ''/'' \<notin> set h" for fs
    using that
  proof (induction fs arbitrary: disk)
    case (Cons f fs)
    then obtain h where "fst f = artifact_path h" "CHR ''/'' \<notin> set h" by auto
    then have "length (path_resolve dir (fst f)) = length dir + 2" by (simp add: artifact_place)
    then have "path_resolve dir (fst f) \<noteq> p" using assms(2) by auto
    then show ?case using Cons by (auto simp: case_prod_beta)
  qed simp
  then show ?thesis using assms(1) by (simp add: write_artifacts_def clean_writer_def)
qed

lemma file_names [simp]: "TRACE_PATH \<noteq> STATE_PATH" "TRACE_PATH \<noteq> MANIFEST_PATH" "STATE_PATH \<noteq> MANIFEST_PATH"
  "STATE_PATH \<noteq> TRACE_PATH" "MANIFEST_PATH \<noteq> TRACE_PATH" "MANIFEST_PATH \<noteq> STATE_PATH"
  by code_simp+

lemma plain_place:
  assumes "dir \<noteq> []" "name \<in> {TRACE_PATH, STATE_PATH, MANIFEST_PATH, WORKFLOW_SNAPSHOT_PATH}"
  shows "resolveBundlePath dir (JStr name) fallback = dir @ [name]"
proof -
  have "name \<noteq> [] \<and> split_on CHR ''/'' name = [name] \<and> \<not> starts_with name ''/'' \<and> name \<noteq> ''.'' \<and> name \<noteq> ''..''"
    using assms(2) by (auto simp: TRACE_PATH_def STATE_PATH_def MANIFEST_PATH_def WORKFLOW_SNAPSHOT_PATH_def starts_with_def)
  then show ?thesis
    using assms(1) by (simp add: resolveBundlePath_def path_resolve_def path_step_def inside_def Let_def)
qed

section \<open>States and manifests that are written\<close>

definition good_state :: "jv obj \<Rightarrow> bool" where
  "good_state st \<longleftrightarrow> json_value (JObj st) \<and> validateRunStateShape st = None \<and> field st ''schema'' = JStr RUN_STATE_SCHEMA"

definition good_clock :: "string \<Rightarrow> bool" where
  "good_clock now \<longleftrightarrow> now \<noteq> [] \<and> date_parse now \<noteq> None"

definition good_draft :: "event_draft \<Rightarrow> bool" where
  "good_draft d \<longleftrightarrow> dr_scope d \<in> {''run'', ''node'', ''agent'', ''action'', ''session''} \<and> dr_type d \<noteq> [] \<and>
     dr_node d \<noteq> Some [] \<and> dr_attempt d \<noteq> Some [] \<and> json_value (JObj (dr_payload d))"

lemma state_shape_stamped:
  assumes "validateRunStateShape st = None"
    and "safe_nat s \<noteq> None" "isValidTimestamp t"
  shows "validateRunStateShape (obj_put ''updatedAt'' t (obj_put ''traceSeq'' s st)) = None"
  using assms(1)[unfolded validateRunStateShape_def first_failure_None] assms(2,3)
  unfolding validateRunStateShape_def first_failure_None by simp

lemma json_value_put: "json_value (JObj ob) \<Longrightarrow> \<not> is_index k \<Longrightarrow> json_value v \<Longrightarrow> json_value (JObj (obj_put k v ob))"
  using in_obj_put by (fastforce simp: js_ordered_put list_all_iff)

lemma good_state_stamped:
  assumes "good_state st" "good_clock now" "member ''seq'' ev = jnat n" "int n \<le> MAX_SAFE_INTEGER"
  shows "good_state (stamp_state ev now st)" "field (stamp_state ev now st) ''traceSeq'' = jnat n"
    "field (stamp_state ev now st) ''status'' = field st ''status''"
proof -
  have "validateRunStateShape (stamp_state ev now st) = None"
    unfolding stamp_state_def using assms
    by (intro state_shape_stamped) (simp_all add: good_state_def good_clock_def safe_nat_jnat isValidTimestamp_def del: safe_nat.simps)
  moreover have "json_value (JObj (stamp_state ev now st))"
    unfolding stamp_state_def using assms
    by (intro json_value_put index_keys) (simp_all add: good_state_def is_num_nat_dec)
  ultimately show "good_state (stamp_state ev now st)"
    using assms(1) by (simp add: good_state_def stamp_state_def)
qed (simp_all add: stamp_state_def assms(3))

definition good_manifest :: "jv obj \<Rightarrow> bool" where
  "good_manifest m \<longleftrightarrow> field m ''schema'' = JStr RUN_BUNDLE_SCHEMA \<and> validateRunManifestShape m = None \<and>
     member ''state'' (field m ''paths'') = JStr STATE_PATH \<and> member ''trace'' (field m ''paths'') = JStr TRACE_PATH"

lemma field_append: "field (xs @ ys) k = (if k \<in> fst ` set xs then field xs k else field ys k)"
  by (induction xs) (auto simp: field_def obj_get_def)

lemma field_keep: "field (keep_entries ks ob) k = (if k \<in> set ks then field ob k else JUndef)"
proof (induction ks)
  case (Cons c ks)
  then show ?case by (auto simp: keep_entries_def)
qed (simp add: keep_entries_def)

lemma keys_keep: "fst ` set (keep_entries ks ob) = {k \<in> set ks. field ob k \<noteq> JUndef}"
  by (force simp: keep_entries_def)

lemma keep_in: "(k, v) \<in> set (keep_entries ks ob) \<Longrightarrow> k \<in> set ks"
  by (auto simp: keep_entries_def split: if_splits)

lemma distinct_keep: "distinct ks \<Longrightarrow> distinct (map fst (keep_entries ks ob))"
  by (induction ks) (auto simp: keep_entries_def)

lemma js_ordered_plain: "distinct (map fst ob) \<Longrightarrow> (\<And>k. k \<in> fst ` set ob \<Longrightarrow> \<not> is_index k) \<Longrightarrow> js_ordered ob"
  unfolding js_ordered_def js_order_keys key_order_def by (force simp: list_all_iff)

lemma manifest_fields:
  "field (createManifest st b) ''schema'' = JStr RUN_BUNDLE_SCHEMA"
  "field (createManifest st b) ''traceSchema'' = JStr TRACE_EVENT_SCHEMA"
  "field (createManifest st b) ''paths'' = JObj ([(''workflow'', JStr WORKFLOW_SNAPSHOT_PATH), (''state'', JStr STATE_PATH),
     (''trace'', JStr TRACE_PATH)] @ (if b then [(''session'', JStr SESSION_DIR)] else []) @ [(''artifacts'', JStr ''artifacts'')])"
  by (simp_all add: createManifest_def field_append field_keep keys_keep)

lemma manifest_copies:
  assumes "k \<in> {''runId'', ''workflowName'', ''runTitle'', ''workflowSource'', ''workflowSources'', ''definitionDigest'',
     ''startedAt'', ''finishedAt'', ''status''}"
  shows "field (createManifest st b) k = field st k"
proof -
  have "k \<noteq> ''schema'' \<and> k \<noteq> ''traceSchema'' \<and> k \<noteq> ''paths''" using assms by auto
  then show ?thesis using assms
    by (elim insertE emptyE) (simp_all add: createManifest_def field_append field_keep keys_keep)
qed

lemma names_nonempty: "isNonEmptyString (JStr WORKFLOW_SNAPSHOT_PATH)" "isNonEmptyString (JStr STATE_PATH)"
  "isNonEmptyString (JStr TRACE_PATH)" "isNonEmptyString (JStr SESSION_DIR)" "isNonEmptyString (JStr ''artifacts'')"
  by code_simp+

lemma good_manifest_created:
  assumes "good_state st"
  shows "good_manifest (createManifest st b)"
proof -
  have "validateRunManifestShape (createManifest st b) = None"
    using assms unfolding good_state_def validateRunStateShape_def validateRunManifestShape_def first_failure_None
    by (cases b) (simp_all add: manifest_fields manifest_copies names_nonempty optional_def[of isNonEmptyString])
  then show ?thesis by (simp add: good_manifest_def manifest_fields member_def)
qed

definition full_manifest :: "jv obj \<Rightarrow> bool \<Rightarrow> jv obj" where
  "full_manifest st b = [(''schema'', JStr RUN_BUNDLE_SCHEMA), (''runId'', field st ''runId''),
     (''workflowName'', field st ''workflowName''), (''runTitle'', field st ''runTitle''),
     (''workflowSource'', field st ''workflowSource''), (''workflowSources'', field st ''workflowSources''),
     (''definitionDigest'', field st ''definitionDigest''), (''startedAt'', field st ''startedAt''),
     (''finishedAt'', field st ''finishedAt''), (''status'', field st ''status''),
     (''traceSchema'', JStr TRACE_EVENT_SCHEMA), (''paths'', field (createManifest st b) ''paths'')]"

lemma keep_filter: "keep_entries ks ob = filter (\<lambda>(k, v). v \<noteq> JUndef) (map (\<lambda>k. (k, field ob k)) ks)"
  by (induction ks) (simp_all add: keep_entries_def)

lemma manifest_filter:
  assumes "good_state st"
  shows "createManifest st b = filter (\<lambda>(k, v). v \<noteq> JUndef) (full_manifest st b)"
proof -
  have "isNonEmptyString (field st ''runId'')" "isNonEmptyString (field st ''workflowName'')"
    "isValidTimestamp (field st ''startedAt'')" "one_of WORKFLOW_RUN_STATUSES (field st ''status'')"
    using assms unfolding good_state_def validateRunStateShape_def first_failure_None by simp_all
  then have "field st ''runId'' \<noteq> JUndef" "field st ''workflowName'' \<noteq> JUndef" "field st ''startedAt'' \<noteq> JUndef"
    "field st ''status'' \<noteq> JUndef"
    by (auto simp: isNonEmptyString_def isValidTimestamp_def one_of_def)
  then show ?thesis
    unfolding full_manifest_def manifest_fields unfolding createManifest_def keep_filter by simp
qed

lemma js_ordered_full: "js_ordered (full_manifest st b)"
proof (rule js_ordered_plain)
  have keys: "map fst (full_manifest st b) = [''schema'', ''runId'', ''workflowName'', ''runTitle'', ''workflowSource'',
      ''workflowSources'', ''definitionDigest'', ''startedAt'', ''finishedAt'', ''status'', ''traceSchema'', ''paths'']"
    by (simp add: full_manifest_def)
  show "distinct (map fst (full_manifest st b))" unfolding keys by simp
  have "list_all (\<lambda>k. \<not> is_index k) (map fst (full_manifest st b))" unfolding keys by code_simp
  then show "\<not> is_index k" if "k \<in> fst ` set (full_manifest st b)" for k using that by (auto simp: list_all_iff)
qed

lemma json_value_manifest:
  assumes "good_state st"
  shows "json_value (JObj (createManifest st b))"
proof -
  have "json_value (field st k) \<or> field st k = JUndef" for k
    using field_json_value assms unfolding good_state_def by blast
  moreover have "json_value (field (createManifest st b) ''paths'')"
    unfolding manifest_fields by (cases b) (simp_all only: if_True if_False, code_simp+)
  ultimately have "list_all (\<lambda>kv. snd kv = JUndef \<or> json_value (snd kv)) (full_manifest st b)"
    by (simp add: full_manifest_def disj_commute)
  then show ?thesis
    using js_ordered_filter[OF js_ordered_full] by (auto simp: manifest_filter[OF assms] list_all_iff)
qed

section \<open>The journal\<close>

record journal =
  jn_committed :: "jv list"
  jn_pending :: "jv list"
  jn_state :: "jv obj"
  jn_live :: bool

abbreviation jn_events :: "journal \<Rightarrow> jv list" where
  "jn_events j \<equiv> jn_committed j @ jn_pending j"

definition run_id_of :: "jv obj \<Rightarrow> string" where
  "run_id_of st = (case text_of (field st ''runId'') of Some r \<Rightarrow> r | None \<Rightarrow> [])"

definition event_of :: "(string \<Rightarrow> string) \<Rightarrow> nat \<Rightarrow> string \<Rightarrow> jv obj \<Rightarrow> event_draft \<Rightarrow> jv" where
  "event_of sha seq now st d = event_json seq now (run_id_of st) d (encoded sha ARTIFACT_THRESHOLD_BYTES (JObj (dr_payload d)))"

definition commit :: "(string \<Rightarrow> string) \<Rightarrow> string \<Rightarrow> jv obj \<Rightarrow> event_draft \<Rightarrow> journal \<Rightarrow> journal" where
  "commit sha now st d j = (let ev = event_of sha (length (jn_events j) + 1) now st d in
     j\<lparr>jn_committed := jn_events j @ [ev], jn_pending := [], jn_state := stored_state sha (stamp_state ev now st)\<rparr>)"

definition note_event :: "jv \<Rightarrow> journal \<Rightarrow> journal" where
  "note_event ev j = j\<lparr>jn_pending := jn_pending j @ [ev]\<rparr>"

text \<open>
  A snapshot or a published update commits every event up to its own; an event without one stays
  pending; a crash keeps the journal, adds the event under way or completes the step under way;
  resuming drops what is pending.
\<close>

inductive journal_step :: "(string \<Rightarrow> string) \<Rightarrow> bundle_act \<Rightarrow> journal \<Rightarrow> journal \<Rightarrow> bool" for sha where
  snapshot: "jn_live j \<Longrightarrow> journal_step sha (Snapshot st d now) j (commit sha now st d j)"
| published: "jn_live j \<Longrightarrow> \<not> aborted \<Longrightarrow> \<not> updates_full st u \<Longrightarrow>
    journal_step sha (Publish st nodeId attemptId updateId u aborted now) j
      (commit sha now (with_update updateId u (length (jn_events j) + 1) now nodeId attemptId st)
        (update_draft nodeId attemptId updateId u) j)"
| unpublished: "jn_live j \<Longrightarrow> aborted \<or> updates_full st u \<Longrightarrow>
    journal_step sha (Publish st nodeId attemptId updateId u aborted now) j j"
| noted: "jn_live j \<Longrightarrow> good_event (length (jn_events j) + 1) ev \<Longrightarrow>
    journal_step sha (BindSession sb a now) j (note_event ev j)"
| bound: "jn_live j \<Longrightarrow> journal_step sha (BindSession sb a now) j j"
| torn: "jn_live j \<Longrightarrow> point \<noteq> StateWritten \<Longrightarrow> journal_step sha (DieInSnapshot st d now point) j (j\<lparr>jn_live := False\<rparr>)"
| written: "jn_live j \<Longrightarrow> ev = event_of sha (length (jn_events j) + 1) now st d \<Longrightarrow> point \<noteq> StateWritten \<Longrightarrow>
    journal_step sha (DieInSnapshot st d now point) j ((note_event ev j)\<lparr>jn_live := False\<rparr>)"
| saved: "jn_live j \<Longrightarrow> journal_step sha (DieInSnapshot st d now StateWritten) j ((commit sha now st d j)\<lparr>jn_live := False\<rparr>)"
| unbound: "jn_live j \<Longrightarrow> journal_step sha (DieInBinding sb a now n) j (j\<lparr>jn_live := False\<rparr>)"
| half_bound: "jn_live j \<Longrightarrow> good_event (length (jn_events j) + 1) ev \<Longrightarrow>
    journal_step sha (DieInBinding sb a now n) j ((note_event ev j)\<lparr>jn_live := False\<rparr>)"
| died: "journal_step sha Die j (j\<lparr>jn_live := False\<rparr>)"
| resumed: "\<not> jn_live j \<Longrightarrow> field (jn_state j) ''status'' = JStr ''running'' \<Longrightarrow>
    journal_step sha Resume j (j\<lparr>jn_pending := [], jn_live := True\<rparr>)"
| refused: "\<not> jn_live j \<Longrightarrow> field (jn_state j) ''status'' \<noteq> JStr ''running'' \<Longrightarrow> journal_step sha Resume j j"
| running: "jn_live j \<Longrightarrow> journal_step sha Resume j j"
| dead: "\<not> jn_live j \<Longrightarrow> act \<noteq> Resume \<Longrightarrow> act \<noteq> Die \<Longrightarrow> journal_step sha act j j"

inductive journal_run :: "(string \<Rightarrow> string) \<Rightarrow> bundle_act list \<Rightarrow> journal \<Rightarrow> journal \<Rightarrow> bool" for sha where
  Nil: "journal_run sha [] j j"
| Cons: "journal_step sha act j j' \<Longrightarrow> journal_run sha acts j' j'' \<Longrightarrow> journal_run sha (act # acts) j j''"

lemma stored_state_json: "json_value (JObj st) \<Longrightarrow> json_value (JObj (stored_state sha st))"
  using json_value_clean[OF js_data_encoded_state[of st sha]] by (simp add: stored_state_def)

definition good_journal :: "journal \<Rightarrow> bool" where
  "good_journal j \<longleftrightarrow> numbered 1 (jn_events j) \<and> validateRunStateShape (jn_state j) = None \<and>
     json_value (JObj (jn_state j)) \<and>
     field (jn_state j) ''schema'' = JStr RUN_STATE_SCHEMA \<and> field (jn_state j) ''traceSeq'' = jnat (length (jn_committed j)) \<and>
     int (length (jn_committed j)) \<le> MAX_SAFE_INTEGER"

text \<open>How a bundle stands for a journal: the trace holds the events and perhaps a torn line.\<close>

definition represents :: "string list \<Rightarrow> run_bundle \<Rightarrow> journal \<Rightarrow> bool" where
  "represents dir b j \<longleftrightarrow> good_journal j \<and>
     (\<exists>torn. file_text (bu_disk b) (dir @ [TRACE_PATH]) = Some (trace_text (jn_events j) @ torn) \<and> nl \<notin> set torn \<and>
       (jn_live j \<longrightarrow> torn = [])) \<and>
     bu_disk b (dir @ [STATE_PATH]) = Some (JsonFile (JObj (jn_state j))) \<and>
     (\<exists>m. bu_disk b (dir @ [MANIFEST_PATH]) = Some (JsonFile (JObj m)) \<and> good_manifest m) \<and>
     (case bu_context b of
        None \<Rightarrow> \<not> jn_live j
      | Some c \<Rightarrow> jn_live j \<and> bc_traceSeq c = length (jn_events j) \<and> clean_writer (bc_artifacts c))"

end
