(* ===== verification/BundleRefinement.thy ===== *)
theory BundleRefinement
  imports BundleLaws
begin

text \<open>
  Every act on a bundle is a step of its journal, and resuming gives back the committed journal.
\<close>

section \<open>Writing events\<close>

definition safe_sha :: "(string \<Rightarrow> string) \<Rightarrow> bool" where
  "safe_sha sha \<longleftrightarrow> (\<forall>s. CHR ''/'' \<notin> set (sha s))"

lemma event_fields:
  "field (sub_object (event_json n now rid d p)) ''seq'' = jnat n"
  "field (sub_object (event_json n now rid d p)) ''at'' = JStr now"
  "field (sub_object (event_json n now rid d p)) ''scope'' = JStr (dr_scope d)"
  "field (sub_object (event_json n now rid d p)) ''type'' = JStr (dr_type d)"
  "field (sub_object (event_json n now rid d p)) ''runId'' = JStr rid"
  "field (sub_object (event_json n now rid d p)) ''nodeId'' = (case dr_node d of None \<Rightarrow> JUndef | Some s \<Rightarrow> JStr s)"
  "field (sub_object (event_json n now rid d p)) ''attemptId'' = (case dr_attempt d of None \<Rightarrow> JUndef | Some s \<Rightarrow> JStr s)"
  "field (sub_object (event_json n now rid d p)) ''payload'' = p"
  by (simp_all add: event_json_def sub_object_def field_append opt_entry_def split: option.splits)

lemma event_member: "member k (event_json n now rid d p) = field (sub_object (event_json n now rid d p)) k"
  by (simp add: member_def event_json_def sub_object_def)

lemma encoded_object: "\<exists>ob. encoded sha n (JObj kvs) = JObj ob"
  by simp

lemma js_ordered_event: "js_ordered (sub_object (event_json n now rid d p))"
proof (rule js_ordered_plain)
  show "distinct (map fst (sub_object (event_json n now rid d p)))"
    by (simp add: event_json_def sub_object_def opt_entry_def split: option.splits)
  have "list_all (\<lambda>k. \<not> is_index k)
      [''seq'', ''at'', ''runId'', ''scope'', ''type'', ''nodeId'', ''attemptId'', ''payload'']" by code_simp
  then show "\<not> is_index k" if "k \<in> fst ` set (sub_object (event_json n now rid d p))" for k
    using that by (auto simp: event_json_def sub_object_def opt_entry_def list_all_iff split: option.splits)
qed

lemma event_good:
  assumes "good_draft d" "rid \<noteq> []" "good_clock now" "1 \<le> n" "int n \<le> MAX_SAFE_INTEGER"
  shows "good_event n (event_json n now rid d (encoded sha k (JObj (dr_payload d))))"
proof -
  let ?p = "encoded sha k (JObj (dr_payload d))"
  let ?ev = "event_json n now rid d ?p"
  have obj: "?ev = JObj (sub_object ?ev)" by (simp add: event_json_def sub_object_def)
  have p: "json_value ?p" using assms(1) json_value_encoded(1) by (simp add: good_draft_def del: encoded.simps)
  have "list_all (\<lambda>kv. json_value (snd kv)) (sub_object ?ev)"
    using p by (simp add: event_json_def sub_object_def opt_entry_def is_num_nat_dec split: option.splits del: encoded.simps)
  then have "json_value ?ev" using js_ordered_event by (subst obj) (simp del: encoded.simps)
  moreover have "isTraceEventShape ?ev"
    using assms unfolding isTraceEventShape_def
    by (subst obj) (auto simp: event_fields positive_int_def safe_nat_jnat good_clock_def good_draft_def isValidTimestamp_def
        one_of_def isNonEmptyString_def optional_def simp del: safe_nat.simps split: option.splits)
  moreover have "member ''seq'' ?ev = jnat n" by (simp add: event_member event_fields)
  ultimately show ?thesis by (simp add: good_event_def)
qed

lemma run_id_nonempty: "good_state st \<Longrightarrow> run_id_of st \<noteq> []"
  unfolding good_state_def validateRunStateShape_def first_failure_None
  by (auto simp: isNonEmptyString_def run_id_of_def split: jv.splits)

lemma event_of_good:
  "good_draft d \<Longrightarrow> good_state st \<Longrightarrow> good_clock now \<Longrightarrow> 1 \<le> n \<Longrightarrow> int n \<le> MAX_SAFE_INTEGER \<Longrightarrow>
     good_event n (event_of sha n now st d)"
  unfolding event_of_def by (intro event_good run_id_nonempty)

lemma stamp_event_is:
  "fst (stamp_event sha now rid d c) = event_json (bc_traceSeq c + 1) now rid d (encoded sha ARTIFACT_THRESHOLD_BYTES (JObj (dr_payload d)))"
  by (simp add: stamp_event_def case_prod_beta encode_is_encoded del: encoded.simps encodeValue.simps)

lemma stamp_event_clean: "safe_sha sha \<Longrightarrow> clean_writer (bc_artifacts c) \<Longrightarrow> clean_writer (snd (stamp_event sha now rid d c))"
  using clean_encode(1)[of sha "bc_artifacts c"]
  by (simp add: stamp_event_def case_prod_beta safe_sha_def del: encodeValue.simps)

text \<open>What an append leaves where.\<close>

lemma append_event:
  assumes "safe_sha sha" "bu_context b = Some c" "clean_writer (bc_artifacts c)"
    and "file_text (bu_disk b) (dir @ [TRACE_PATH]) = Some t"
    and "appendTraceEvent sha dir now rid d b = (ev, b')"
  shows "ev = event_json (bc_traceSeq c + 1) now rid d (encoded sha ARTIFACT_THRESHOLD_BYTES (JObj (dr_payload d)))"
    and "file_text (bu_disk b') (dir @ [TRACE_PATH]) = Some (t @ json_line ev)"
    and "name \<in> {STATE_PATH, MANIFEST_PATH} \<Longrightarrow> bu_disk b' (dir @ [name]) = bu_disk b (dir @ [name])"
    and "\<exists>c'. bu_context b' = Some c' \<and> bc_traceSeq c' = bc_traceSeq c + 1 \<and> clean_writer (bc_artifacts c')"
proof -
  obtain w where w: "stamp_event sha now rid d c = (ev, w)"
      "b' = b\<lparr>bu_disk := appendText (dir @ [TRACE_PATH]) (json_line ev) (write_artifacts dir w (bu_disk b)),
          bu_context := Some (c\<lparr>bc_traceSeq := bc_traceSeq c + 1, bc_artifacts := w\<rparr>)\<rparr>"
    using assms(2,5) by (auto simp: appendTraceEvent_def contextFor_def split: prod.splits)
  show "ev = event_json (bc_traceSeq c + 1) now rid d (encoded sha ARTIFACT_THRESHOLD_BYTES (JObj (dr_payload d)))"
    using stamp_event_is[of sha now rid d c] w(1) by (simp del: encoded.simps)
  have clean: "clean_writer w" using stamp_event_clean[OF assms(1,3), of now rid d] w(1) by simp
  note frame = write_artifacts_frame[OF clean]
  show "file_text (bu_disk b') (dir @ [TRACE_PATH]) = Some (t @ json_line ev)"
    using assms(4) frame by (simp add: w(2) appendText_def file_text_def)
  show "bu_disk b' (dir @ [name]) = bu_disk b (dir @ [name])" if "name \<in> {STATE_PATH, MANIFEST_PATH}"
    using that frame by (auto simp: w(2) appendText_def)
  show "\<exists>c'. bu_context b' = Some c' \<and> bc_traceSeq c' = bc_traceSeq c + 1 \<and> clean_writer (bc_artifacts c')"
    using clean by (simp add: w(2))
qed

section \<open>Writing projections\<close>

lemma file_text_cong: "disk p = disk' p \<Longrightarrow> file_text disk p = file_text disk' p"
  by (simp add: file_text_def)

lemma state_written:
  assumes "safe_sha sha" "bu_context b = Some c" "clean_writer (bc_artifacts c)" "good_state st"
    and "encode_state sha dir st b = (enc, b1)" and "b2 = write_state dir enc b1"
  shows "bu_disk b2 (dir @ [STATE_PATH]) = Some (JsonFile (JObj (stored_state sha st)))"
    and "name \<in> {TRACE_PATH, MANIFEST_PATH} \<Longrightarrow> bu_disk b2 (dir @ [name]) = bu_disk b (dir @ [name])"
    and "\<exists>c'. bu_context b2 = Some c' \<and> bc_traceSeq c' = bc_traceSeq c \<and> clean_writer (bc_artifacts c')"
proof -
  obtain w where w: "encodeRunState sha st (bc_artifacts c) = (enc, w)"
      "b1 = b\<lparr>bu_disk := write_artifacts dir w (bu_disk b), bu_context := Some (c\<lparr>bc_artifacts := w\<rparr>)\<rparr>"
    using assms(2,5) by (auto simp: encode_state_def contextFor_def split: prod.splits)
  have enc: "enc = encoded_state sha st" using encodeRunState_is[of sha st "bc_artifacts c"] w(1) by simp
  have clean: "clean_writer w"
    using clean_state[of sha "bc_artifacts c" st] assms(1,3) w(1) by (simp add: safe_sha_def)
  have read: "file_value (JObj enc) = Some (JObj (stored_state sha st))"
    unfolding enc using assms(4) by (intro stored_state_file) (simp add: good_state_def)
  show "bu_disk b2 (dir @ [STATE_PATH]) = Some (JsonFile (JObj (stored_state sha st)))"
    by (simp add: assms(6) write_state_def writeJsonAtomic_def read)
  show "bu_disk b2 (dir @ [name]) = bu_disk b (dir @ [name])" if "name \<in> {TRACE_PATH, MANIFEST_PATH}"
    using that write_artifacts_frame[OF clean] by (auto simp: assms(6) write_state_def writeJsonAtomic_def w(2))
  show "\<exists>c'. bu_context b2 = Some c' \<and> bc_traceSeq c' = bc_traceSeq c \<and> clean_writer (bc_artifacts c')"
    using clean by (simp add: assms(6) write_state_def w(2))
qed

lemma manifest_written:
  assumes "good_state st"
  shows "\<exists>m. bu_disk (write_manifest dir st b) (dir @ [MANIFEST_PATH]) = Some (JsonFile (JObj m)) \<and> good_manifest m"
    and "name \<in> {TRACE_PATH, STATE_PATH} \<Longrightarrow> bu_disk (write_manifest dir st b) (dir @ [name]) = bu_disk b (dir @ [name])"
    and "bu_context (write_manifest dir st b) = bu_context b"
proof -
  have "file_value (JObj (createManifest st x)) = Some (JObj (createManifest st x))" for x
    using file_value_clean[OF json_value_js_data] json_clean_value json_value_manifest[OF assms] by (metis jv.distinct(11))
  then show "\<exists>m. bu_disk (write_manifest dir st b) (dir @ [MANIFEST_PATH]) = Some (JsonFile (JObj m)) \<and> good_manifest m"
    using good_manifest_created[OF assms] by (simp add: write_manifest_def writeJsonAtomic_def)
qed (auto simp: write_manifest_def writeJsonAtomic_def)

section \<open>Each act is a step of the journal\<close>

lemma trace_text_snoc: "trace_text (evs @ [ev]) = trace_text evs @ json_line ev"
  by (simp add: trace_text_def)

lemma good_commit:
  assumes "good_journal j" "good_draft d" "good_state st" "good_clock now"
    and "int (length (jn_events j)) < MAX_SAFE_INTEGER"
  shows "good_journal (commit sha now st d j)"
    and "good_state (stamp_state (event_of sha (length (jn_events j) + 1) now st d) now st)"
proof -
  let ?n = "length (jn_events j) + 1"
  let ?ev = "event_of sha ?n now st d"
  have n: "int ?n \<le> MAX_SAFE_INTEGER" using assms(5) by simp
  have ev: "good_event ?n ?ev" using event_of_good assms(2-4) n by simp
  then have seq: "member ''seq'' ?ev = jnat ?n" by (simp add: good_event_def)
  note st = good_state_stamped[OF assms(3,4) seq n]
  show "good_state (stamp_state ?ev now st)" by (rule st(1))
  then have "json_value (JObj (stamp_state ?ev now st))" "validateRunStateShape (stamp_state ?ev now st) = None"
    "field (stamp_state ?ev now st) ''schema'' = JStr RUN_STATE_SCHEMA" by (simp_all add: good_state_def)
  moreover have "numbered 1 (jn_events j @ [?ev])" using assms(1) ev by (simp add: good_journal_def numbered_append)
  ultimately show "good_journal (commit sha now st d j)"
    using st(2) n
    by (simp add: good_journal_def commit_def Let_def stored_state_valid stored_state_json stored_plain_field moved_keys_def
        del: json_value.simps)
qed

lemma good_note: "good_journal j \<Longrightarrow> good_event (length (jn_events j) + 1) ev \<Longrightarrow> good_journal (note_event ev j)"
  by (simp add: good_journal_def note_event_def numbered_append)

lemma good_journal_live [simp]: "good_journal (j\<lparr>jn_live := x\<rparr>) = good_journal j"
  by (simp add: good_journal_def)

lemma represents_live:
  assumes "represents dir b j" "bu_context b \<noteq> None"
  obtains c m where "bu_context b = Some c" "jn_live j" "bc_traceSeq c = length (jn_events j)" "clean_writer (bc_artifacts c)"
    "file_text (bu_disk b) (dir @ [TRACE_PATH]) = Some (trace_text (jn_events j))"
    "bu_disk b (dir @ [STATE_PATH]) = Some (JsonFile (JObj (jn_state j)))"
    "bu_disk b (dir @ [MANIFEST_PATH]) = Some (JsonFile (JObj m))" "good_manifest m" "good_journal j"
  using assms by (auto simp: represents_def split: option.splits)

text \<open>Writing a snapshot up to the state file, and its two halves.\<close>

lemma snapshot_event:
  assumes "represents dir b j" "bu_context b \<noteq> None" "safe_sha sha"
    and "appendTraceEvent sha dir now (run_id_of st) d b = (ev, b1)"
  shows "ev = event_of sha (length (jn_events j) + 1) now st d"
    and "file_text (bu_disk b1) (dir @ [TRACE_PATH]) = Some (trace_text (jn_events j @ [ev]))"
    and "bu_disk b1 (dir @ [STATE_PATH]) = Some (JsonFile (JObj (jn_state j)))"
    and "\<exists>m. bu_disk b1 (dir @ [MANIFEST_PATH]) = Some (JsonFile (JObj m)) \<and> good_manifest m"
    and "\<exists>c. bu_context b1 = Some c \<and> bc_traceSeq c = length (jn_events j) + 1 \<and> clean_writer (bc_artifacts c)"
proof -
  obtain c m where j: "bu_context b = Some c" "bc_traceSeq c = length (jn_events j)" "clean_writer (bc_artifacts c)"
    "file_text (bu_disk b) (dir @ [TRACE_PATH]) = Some (trace_text (jn_events j))"
    "bu_disk b (dir @ [STATE_PATH]) = Some (JsonFile (JObj (jn_state j)))"
    "bu_disk b (dir @ [MANIFEST_PATH]) = Some (JsonFile (JObj m))" "good_manifest m"
    using represents_live[OF assms(1,2)] by metis
  note app = append_event[OF assms(3) j(1,3,4) assms(4)]
  show "ev = event_of sha (length (jn_events j) + 1) now st d" using app(1) j(2) by (simp add: event_of_def del: encoded.simps)
  show "file_text (bu_disk b1) (dir @ [TRACE_PATH]) = Some (trace_text (jn_events j @ [ev]))"
    using app(2) by (simp add: trace_text_def)
  show "bu_disk b1 (dir @ [STATE_PATH]) = Some (JsonFile (JObj (jn_state j)))" using app(3)[of STATE_PATH] j(5) by simp
  show "\<exists>m. bu_disk b1 (dir @ [MANIFEST_PATH]) = Some (JsonFile (JObj m)) \<and> good_manifest m"
    using app(3)[of MANIFEST_PATH] j(6,7) by simp
  show "\<exists>c. bu_context b1 = Some c \<and> bc_traceSeq c = length (jn_events j) + 1 \<and> clean_writer (bc_artifacts c)"
    using app(4) j(2) by simp
qed

lemma snapshot_state:
  assumes "represents dir b j" "bu_context b \<noteq> None" "safe_sha sha"
    and ok: "good_draft d" "good_state st" "good_clock now" "int (length (jn_events j)) < MAX_SAFE_INTEGER"
    and "appendTraceEvent sha dir now (run_id_of st) d b = (ev, b1)"
    and "encode_state sha dir (stamp_state ev now st) b1 = (enc, b2)"
  shows "represents dir (write_state dir enc b2) (commit sha now st d j)"
    and "good_state (stamp_state ev now st)"
proof -
  note e = snapshot_event[OF assms(1-3,8)]
  obtain c where c: "bu_context b1 = Some c" "bc_traceSeq c = length (jn_events j) + 1" "clean_writer (bc_artifacts c)"
    using e(5) by blast
  have good: "good_journal j" "jn_live j" using represents_live[OF assms(1,2)] by metis+
  note commit = good_commit[OF good(1) ok, of sha]
  show st: "good_state (stamp_state ev now st)" using commit(2) e(1) by simp
  note w = state_written[OF assms(3) c(1,3) st assms(9) refl]
  have "file_text (bu_disk (write_state dir enc b2)) (dir @ [TRACE_PATH]) = Some (trace_text (jn_events j @ [ev]))"
    using w(2)[of TRACE_PATH] e(2) by (simp add: file_text_def)
  moreover have "bu_disk (write_state dir enc b2) (dir @ [MANIFEST_PATH]) = bu_disk b1 (dir @ [MANIFEST_PATH])"
    using w(2) by simp
  ultimately show "represents dir (write_state dir enc b2) (commit sha now st d j)"
    unfolding represents_def using commit(1) w(1,3) c(2) e(1,4) good(2)
    by (auto simp: commit_def Let_def)
qed

lemma represents_manifest: "represents dir b j \<Longrightarrow> good_state st \<Longrightarrow> represents dir (write_manifest dir st b) j"
  using manifest_written(1)[of st dir b] manifest_written(2)[of st _ dir b] manifest_written(3)[of st dir b]
    file_text_cong[of "bu_disk (write_manifest dir st b)" "dir @ [TRACE_PATH]" "bu_disk b"]
  by (simp add: represents_def)

lemma act_snapshot:
  assumes "represents dir b j" "bu_context b \<noteq> None" "safe_sha sha"
    and "good_draft d" "good_state st" "good_clock now" "int (length (jn_events j)) < MAX_SAFE_INTEGER"
  shows "represents dir (snd (writeSnapshot sha dir True now st d b)) (commit sha now st d j)"
proof -
  obtain ev b1 where a: "appendTraceEvent sha dir now (run_id_of st) d b = (ev, b1)" by fastforce
  obtain enc b2 where e: "encode_state sha dir (stamp_state ev now st) b1 = (enc, b2)" by fastforce
  note s = snapshot_state[OF assms a e]
  have "snd (writeSnapshot sha dir True now st d b) = write_manifest dir (stamp_state ev now st) (write_state dir enc b2)"
    using a e by (simp add: writeSnapshot_def writeProjections_def run_id_of_def)
  then show ?thesis using represents_manifest s by simp
qed

lemma act_die: "represents dir b j \<Longrightarrow> represents dir (b\<lparr>bu_context := None\<rparr>) (j\<lparr>jn_live := False\<rparr>)"
  by (auto simp: represents_def)

lemma take_line_no_nl: "good_event n ev \<Longrightarrow> k < length (json_line ev) \<Longrightarrow> nl \<notin> set (take k (json_line ev))"
  using good_event_text(1) by (auto simp: json_line_text dest: in_set_takeD)

lemma torn_trace:
  assumes "represents dir b j" "bu_context b \<noteq> None" "safe_sha sha"
  shows "file_text (bu_disk (die_in_snapshot sha dir now st d (TornLine k) b)) (dir @ [TRACE_PATH]) =
    Some (trace_text (jn_events j) @ take k (json_line (event_of sha (length (jn_events j) + 1) now st d)))"
proof -
  obtain ev b1 where a: "appendTraceEvent sha dir now (run_id_of st) d b = (ev, b1)" by fastforce
  obtain c where j: "bu_context b = Some c" "clean_writer (bc_artifacts c)"
    "file_text (bu_disk b) (dir @ [TRACE_PATH]) = Some (trace_text (jn_events j))"
    using represents_live[OF assms(1,2)] by metis
  have "clean_writer (snd (stamp_event sha now (run_id_of st) d (contextFor b)))"
    using stamp_event_clean[OF assms(3) j(2)] j(1) by (simp add: contextFor_def)
  note frame = write_artifacts_frame[OF this]
  show ?thesis
    using a snapshot_event(1)[OF assms a] j(3) frame
    by (simp add: die_in_snapshot_def run_id_of_def Let_def appendText_def file_text_def)
qed

lemma act_torn_line:
  assumes "represents dir b j" "bu_context b \<noteq> None" "safe_sha sha"
    and ok: "good_event (length (jn_events j) + 1) (event_of sha (length (jn_events j) + 1) now st d)"
    and k: "k < length (json_line (event_of sha (length (jn_events j) + 1) now st d))"
  shows "represents dir (die_in_snapshot sha dir now st d (TornLine k) b) (j\<lparr>jn_live := False\<rparr>)"
proof -
  let ?b = "die_in_snapshot sha dir now st d (TornLine k) b"
  obtain ev b1 where a: "appendTraceEvent sha dir now (run_id_of st) d b = (ev, b1)" by fastforce
  obtain c m where j: "bu_context b = Some c" "clean_writer (bc_artifacts c)"
    "bu_disk b (dir @ [STATE_PATH]) = Some (JsonFile (JObj (jn_state j)))"
    "bu_disk b (dir @ [MANIFEST_PATH]) = Some (JsonFile (JObj m))" "good_manifest m" "good_journal j"
    using represents_live[OF assms(1,2)] by metis
  have "clean_writer (snd (stamp_event sha now (run_id_of st) d (contextFor b)))"
    using stamp_event_clean[OF assms(3) j(2)] j(1) by (simp add: contextFor_def)
  note frame = write_artifacts_frame[OF this]
  have "bu_disk ?b (dir @ [STATE_PATH]) = Some (JsonFile (JObj (jn_state j)))"
    "bu_disk ?b (dir @ [MANIFEST_PATH]) = Some (JsonFile (JObj m))" "bu_context ?b = None"
    using a j(3,4) frame by (simp_all add: die_in_snapshot_def run_id_of_def Let_def appendText_def)
  then show ?thesis
    using torn_trace[OF assms(1-3)] take_line_no_nl[OF ok k] j(5,6) by (auto simp: represents_def)
qed

lemma act_torn:
  assumes "represents dir b j" "bu_context b \<noteq> None" "safe_sha sha"
    and ok: "good_event (length (jn_events j) + 1) (event_of sha (length (jn_events j) + 1) now st d)"
    and "point \<noteq> StateWritten"
  defines "b' \<equiv> die_in_snapshot sha dir now st d point b"
  shows "represents dir b' (j\<lparr>jn_live := False\<rparr>) \<or>
    represents dir b' ((note_event (event_of sha (length (jn_events j) + 1) now st d) j)\<lparr>jn_live := False\<rparr>)"
proof -
  let ?n = "length (jn_events j) + 1"
  obtain ev b1 where a: "appendTraceEvent sha dir now (run_id_of st) d b = (ev, b1)" by fastforce
  note e = snapshot_event[OF assms(1-3) a]
  have ev: "good_event ?n ev" using ok e(1) by simp
  have j: "jn_live j" "good_journal j" using represents_live[OF assms(1,2)] by metis+
  have whole: "represents dir (b1\<lparr>bu_context := None\<rparr>) ((note_event ev j)\<lparr>jn_live := False\<rparr>)"
    using e good_note[OF j(2) ev] by (auto simp: represents_def note_event_def trace_text_snoc)
  show ?thesis
  proof (cases point)
    case (TornLine k)
    show ?thesis
    proof (cases "k < length (json_line ev)")
      case True
      then show ?thesis using act_torn_line[OF assms(1-3), of now st d k] ev e(1) TornLine by (simp add: b'_def)
    next
      case False
      obtain c m where r: "bu_context b = Some c" "clean_writer (bc_artifacts c)"
        "bu_disk b (dir @ [STATE_PATH]) = Some (JsonFile (JObj (jn_state j)))"
        "bu_disk b (dir @ [MANIFEST_PATH]) = Some (JsonFile (JObj m))" "good_manifest m"
        using represents_live[OF assms(1,2)] by metis
      have "clean_writer (snd (stamp_event sha now (run_id_of st) d (contextFor b)))"
        using stamp_event_clean[OF assms(3) r(2)] r(1) by (simp add: contextFor_def)
      note frame = write_artifacts_frame[OF this]
      have "bu_disk b' (dir @ [STATE_PATH]) = Some (JsonFile (JObj (jn_state j)))"
        "bu_disk b' (dir @ [MANIFEST_PATH]) = Some (JsonFile (JObj m))" "bu_context b' = None"
        using a r(3,4) frame TornLine by (simp_all add: b'_def die_in_snapshot_def run_id_of_def Let_def appendText_def)
      moreover have "file_text (bu_disk b') (dir @ [TRACE_PATH]) = Some (trace_text (jn_events j) @ json_line ev)"
        using torn_trace[OF assms(1-3), where d = d and st = st and now = now and k = k] e(1) False TornLine
        by (simp add: b'_def)
      ultimately have "represents dir b' ((note_event ev j)\<lparr>jn_live := False\<rparr>)"
        using r(5) good_note[OF j(2) ev] by (auto simp: represents_def note_event_def trace_text_def)
      then show ?thesis using e(1) by simp
    qed
  next
    case LineWritten
    then have "b' = b1\<lparr>bu_context := None\<rparr>"
      using a by (simp add: b'_def die_in_snapshot_def run_id_of_def Let_def)
    then show ?thesis using whole e(1) by simp
  qed (use assms(5) in simp)
qed

lemma act_saved:
  assumes "represents dir b j" "bu_context b \<noteq> None" "safe_sha sha"
    and "good_draft d" "good_state st" "good_clock now" "int (length (jn_events j)) < MAX_SAFE_INTEGER"
  shows "represents dir (die_in_snapshot sha dir now st d StateWritten b) ((commit sha now st d j)\<lparr>jn_live := False\<rparr>)"
proof -
  obtain ev b1 where a: "appendTraceEvent sha dir now (run_id_of st) d b = (ev, b1)" by fastforce
  obtain enc b2 where e: "encode_state sha dir (stamp_state ev now st) b1 = (enc, b2)" by fastforce
  have "die_in_snapshot sha dir now st d StateWritten b = (write_state dir enc b2)\<lparr>bu_context := None\<rparr>"
    using a e by (simp add: die_in_snapshot_def run_id_of_def Let_def)
  then show ?thesis using act_die[OF snapshot_state(1)[OF assms a e]] by simp
qed

section \<open>Resuming\<close>

lemma safe_nat_inj: "safe_nat (jnat n) = Some m \<Longrightarrow> m = n"
  by (simp add: nat_dec_def split: if_splits)

definition loaded_of :: "string list \<Rightarrow> disk \<Rightarrow> jv obj \<Rightarrow> jv obj \<Rightarrow> loaded" where
  "loaded_of dir disk m st = \<lparr>ld_manifest = m, ld_state = st,
     ld_snapshot = (case readJsonFile disk (bundle_path dir m ''workflow'' WORKFLOW_SNAPSHOT_PATH) of
        Some v \<Rightarrow> if isDefinitionSnapshotShape v then Some v else None | None \<Rightarrow> None),
     ld_trace = readNdjsonFile isTraceEventShape disk (dir @ [TRACE_PATH])\<rparr>"

lemma trace_place: "good_manifest m \<Longrightarrow> dir \<noteq> [] \<Longrightarrow> bundle_path dir m ''trace'' TRACE_PATH = dir @ [TRACE_PATH]"
  using plain_place[of dir TRACE_PATH] by (simp add: bundle_path_def good_manifest_def)

lemma good_bundle_reads:
  assumes "dir \<noteq> []" "disk (dir @ [STATE_PATH]) = Some (JsonFile (JObj st))"
    and "disk (dir @ [MANIFEST_PATH]) = Some (JsonFile (JObj m))" "good_manifest m" "good_state st"
  shows "readRunBundle dir disk = Some (loaded_of dir disk m st)"
proof -
  have "bundle_path dir m ''state'' STATE_PATH = dir @ [STATE_PATH]"
    using assms(4) plain_place[OF assms(1)] by (simp add: bundle_path_def good_manifest_def)
  then show ?thesis
    using assms trace_place[OF assms(4,1)]
    by (simp add: readRunBundle_def readJsonFile_def tagged_def good_manifest_def good_state_def loaded_of_def)
qed

lemma represents_reads:
  assumes "represents dir b j" "dir \<noteq> []" "bu_disk b (dir @ [MANIFEST_PATH]) = Some (JsonFile (JObj m))" "good_manifest m"
  shows "readRunBundle dir (bu_disk b) = Some (loaded_of dir (bu_disk b) m (jn_state j))"
    and "bundle_path dir m ''trace'' TRACE_PATH = dir @ [TRACE_PATH]"
proof -
  have "good_state (jn_state j)" "bu_disk b (dir @ [STATE_PATH]) = Some (JsonFile (JObj (jn_state j)))"
    using assms(1) by (simp_all add: represents_def good_journal_def good_state_def)
  then show "readRunBundle dir (bu_disk b) = Some (loaded_of dir (bu_disk b) m (jn_state j))"
    using good_bundle_reads assms(2-4) by blast
qed (rule trace_place[OF assms(4,2)])

lemma good_resumed: "good_journal j \<Longrightarrow> good_journal (j\<lparr>jn_pending := [], jn_live := x\<rparr>)"
  by (simp add: good_journal_def numbered_append)

text \<open>The bundle after a resume holds the committed journal, all of it and nothing else.\<close>

lemma act_resume:
  assumes "represents dir b j" "dir \<noteq> []" "field (jn_state j) ''status'' = JStr ''running''"
  obtains l b' where "prepareRunResume dir True True b = (Inr l, b')"
    "represents dir b' (j\<lparr>jn_pending := [], jn_live := True\<rparr>)" "ld_state l = jn_state j"
    "ld_trace l = \<lparr>nj_records = jn_committed j, nj_exists = True, nj_torn = False, nj_malformed = False\<rparr>"
proof -
  let ?j = "j\<lparr>jn_pending := [], jn_live := True\<rparr>" and ?p = "dir @ [TRACE_PATH]"
  obtain m where m: "bu_disk b (dir @ [MANIFEST_PATH]) = Some (JsonFile (JObj m))" "good_manifest m"
    using assms(1) by (auto simp: represents_def)
  note rd = represents_reads[OF assms(1,2) m]
  obtain torn where t: "file_text (bu_disk b) ?p = Some (trace_text (jn_events j) @ torn)" "nl \<notin> set torn"
    using assms(1) by (auto simp: represents_def)
  have good: "good_journal j" using assms(1) by (simp add: represents_def)
  then have seq: "state_seq (jn_state j) = length (jn_committed j)"
    using safe_nat_jnat[of "length (jn_committed j)"] by (simp add: state_seq_def good_journal_def del: safe_nat.simps)
  have status: "status_text (jn_state j) = ''running''" using assms(3) by (simp add: status_text_def)
  have kept: "(case repaired_trace (trace_text (jn_events j) @ torn) (length (jn_committed j)) of
      None \<Rightarrow> trace_text (jn_events j) @ torn | Some t \<Rightarrow> t) = trace_text (jn_committed j)"
    using good t(2) by (intro repaired_trace_keeps) (simp_all add: good_journal_def)
  obtain dk where dk: "repairTraceFile ?p (length (jn_committed j)) True (bu_disk b) = (Inr (), dk)"
      "file_text dk ?p = Some (trace_text (jn_committed j))" "\<And>q. q \<noteq> ?p \<Longrightarrow> dk q = bu_disk b q"
    using kept t(1) by (cases "repaired_trace (trace_text (jn_events j) @ torn) (length (jn_committed j))")
      (simp_all add: repairTraceFile_def file_text_def)
  define b' where "b' = b\<lparr>bu_disk := dk, bu_context := Some \<lparr>bc_traceSeq = length (jn_committed j),
      bc_artifacts = new_writer, bc_bound = bound_streams m\<rparr>\<rparr>"
  have rep: "represents dir b' ?j"
    using assms(1) dk(2,3) m good_resumed[OF good]
    by (auto simp: represents_def b'_def clean_new)
  have "bu_disk b' (dir @ [MANIFEST_PATH]) = Some (JsonFile (JObj m))" using dk(3) m(1) by (simp add: b'_def)
  note rd' = represents_reads(1)[OF rep assms(2) this m(2)]
  have "prepareRunResume dir True True b = (Inr (loaded_of dir dk m (jn_state j)), b')"
    using rd rd' dk(1) status seq by (simp add: prepareRunResume_def loaded_of_def b'_def Let_def)
  moreover have "ld_trace (loaded_of dir dk m (jn_state j)) =
      \<lparr>nj_records = jn_committed j, nj_exists = True, nj_torn = False, nj_malformed = False\<rparr>"
    using read_trace[OF _ dk(2)] good by (simp add: loaded_of_def good_journal_def numbered_append)
  moreover have "ld_state (loaded_of dir dk m (jn_state j)) = jn_state j" by (simp add: loaded_of_def)
  ultimately show thesis using rep that by blast
qed

lemma act_resume_refused:
  assumes "represents dir b j" "dir \<noteq> []" "field (jn_state j) ''status'' \<noteq> JStr ''running''"
  shows "prepareRunResume dir True True b = (Inl (CannotResumeStatus (status_text (jn_state j))), b)"
proof -
  obtain m where m: "bu_disk b (dir @ [MANIFEST_PATH]) = Some (JsonFile (JObj m))" "good_manifest m"
    using assms(1) by (auto simp: represents_def)
  have "one_of WORKFLOW_RUN_STATUSES (field (jn_state j) ''status'')"
    using assms(1) unfolding represents_def good_journal_def validateRunStateShape_def first_failure_None by simp
  then have "status_text (jn_state j) \<noteq> ''running''"
    using assms(3) by (auto simp: status_text_def one_of_def split: jv.splits)
  then show ?thesis using represents_reads(1)[OF assms(1,2) m] by (simp add: prepareRunResume_def loaded_of_def)
qed

section \<open>Publishing an update\<close>

text \<open>An update that is published is a snapshot of the state with the new projection.\<close>

lemma publish_is_snapshot:
  "snd (publishUpdate sha dir True aborted now st nodeId attemptId updateId u b) =
     (if aborted \<or> updates_full st u then b
      else snd (writeSnapshot sha dir True now
        (with_update updateId u (bc_traceSeq (contextFor b) + 1) now nodeId attemptId st)
        (update_draft nodeId attemptId updateId u) b))"
  by (simp add: publishUpdate_def writeSnapshot_def with_update_def Let_def split: prod.split)

definition good_update :: "string \<Rightarrow> string \<Rightarrow> string \<Rightarrow> update_input \<Rightarrow> bool" where
  "good_update nodeId attemptId updateId u \<longleftrightarrow> nodeId \<noteq> [] \<and> attemptId \<noteq> [] \<and> updateId \<noteq> [] \<and> ui_type u \<noteq> [] \<and>
     ui_key u \<noteq> [] \<and> json_value (JObj (ui_data u))"

lemma update_payload_is:
  assumes "good_update nodeId attemptId updateId u"
  shows "update_payload updateId u = [(''updateId'', JStr updateId), (''type'', JStr (ui_type u)), (''key'', JStr (ui_key u)),
    (''data'', JObj (ui_data u))]"
proof -
  have data: "json_value (JObj (ui_data u))" using assms by (simp add: good_update_def)
  have "file_value (JObj (ui_data u)) = Some (JObj (ui_data u))"
    using file_value_clean[OF json_value_js_data[OF data]] json_clean_value[OF data] by simp
  then show ?thesis by (simp add: update_payload_def)
qed

lemma update_keys: "list_all (\<lambda>k. \<not> is_index k)
    [''updateId'', ''seq'', ''at'', ''runId'', ''nodeId'', ''attemptId'', ''type'', ''key'', ''data'', ''updates'']"
  by code_simp

lemma good_update_draft:
  assumes "good_update nodeId attemptId updateId u"
  shows "good_draft (update_draft nodeId attemptId updateId u)"
proof -
  have "js_ordered (update_payload updateId u)"
    unfolding update_payload_is[OF assms] by (rule js_ordered_plain) (use update_keys in auto)
  then show ?thesis
    using assms update_payload_is[OF assms] by (simp add: good_draft_def update_draft_def good_update_def)
qed

lemma good_update_record:
  assumes "good_update nodeId attemptId updateId u" "good_state st" "good_clock now" "1 \<le> n" "int n \<le> MAX_SAFE_INTEGER"
  shows "isUpdateRecordShape (update_record updateId u n now st nodeId attemptId)"
    and "json_value (update_record updateId u n now st nodeId attemptId)"
proof -
  let ?ob = "[(''updateId'', JStr updateId), (''seq'', jnat n), (''at'', JStr now), (''runId'', field st ''runId''),
     (''nodeId'', JStr nodeId), (''attemptId'', JStr attemptId), (''type'', JStr (ui_type u)), (''key'', JStr (ui_key u)),
     (''data'', JObj (ui_data u))]"
  have is_rec: "update_record updateId u n now st nodeId attemptId = JObj ?ob"
    by (simp add: update_record_def update_payload_is[OF assms(1)] field_def obj_get_def)
  have rid: "isNonEmptyString (field st ''runId'')"
    using assms(2) unfolding good_state_def validateRunStateShape_def first_failure_None by simp
  show "isUpdateRecordShape (update_record updateId u n now st nodeId attemptId)"
    unfolding is_rec using assms rid
    by (simp add: isUpdateRecordShape_def field_def obj_get_def positive_int_def safe_nat_jnat good_clock_def
        good_update_def isNonEmptyString_def isValidTimestamp_def del: safe_nat.simps)
  have "json_value (field st ''runId'')" using rid by (auto simp: isNonEmptyString_def split: jv.splits)
  moreover have "js_ordered ?ob" by (rule js_ordered_plain) (use update_keys in auto)
  ultimately show "json_value (update_record updateId u n now st nodeId attemptId)"
    unfolding is_rec using assms(1) by (simp add: good_update_def is_num_nat_dec)
qed

lemma good_state_updates:
  assumes "good_state st" "list_all isUpdateRecordShape vs" "list_all json_value vs"
  shows "good_state (obj_put ''updates'' (JArr vs) st)"
proof -
  have "validateRunStateShape (obj_put ''updates'' (JArr vs) st) = None"
    using assms(1)[unfolded good_state_def validateRunStateShape_def first_failure_None] assms(2)
    unfolding validateRunStateShape_def first_failure_None by (simp add: optional_def[of _ "JArr vs"] all_items_def)
  moreover have "json_value (JObj (obj_put ''updates'' (JArr vs) st))"
    using assms(1,3) update_keys by (intro json_value_put) (simp_all add: good_state_def)
  ultimately show ?thesis using assms(1) by (simp add: good_state_def)
qed

lemma good_with_update:
  assumes "good_update nodeId attemptId updateId u" "good_state st" "good_clock now" "1 \<le> n" "int n \<le> MAX_SAFE_INTEGER"
  shows "good_state (with_update updateId u n now nodeId attemptId st)"
proof -
  let ?cur = "sub_array (field st ''updates'')"
  have "optional (all_items isUpdateRecordShape) (field st ''updates'')"
    using assms(2) unfolding good_state_def validateRunStateShape_def first_failure_None by simp
  then have shape: "list_all isUpdateRecordShape ?cur"
    by (auto simp: optional_def all_items_def sub_array_def split: jv.splits)
  have "json_value (field st ''updates'') \<or> field st ''updates'' = JUndef"
    using field_json_value assms(2) unfolding good_state_def by blast
  then have sound: "list_all json_value ?cur" by (auto simp: sub_array_def split: jv.splits)
  show ?thesis
    unfolding with_update_def
    by (rule good_state_updates[OF assms(2)])
      (use shape sound good_update_record[OF assms] in \<open>auto simp: updateProjection_def list_all_iff\<close>)
qed

section \<open>Binding a session\<close>

lemma good_binding_draft: "is_str (field sb ''piSessionId'') \<Longrightarrow> good_draft (binding_draft sb a)"
proof -
  assume "is_str (field sb ''piSessionId'')"
  then obtain s where "field sb ''piSessionId'' = JStr s" by (cases "field sb ''piSessionId''") (auto simp: is_str_def)
  moreover have "js_ordered ((''piSessionId'', JStr s) # opt_entry ''captureAttemptId'' a)"
  proof (rule js_ordered_plain)
    have "\<not> is_index ''piSessionId''" "\<not> is_index ''captureAttemptId''" by code_simp+
    then show "\<not> is_index k" if "k \<in> fst ` set ((''piSessionId'', JStr s) # opt_entry ''captureAttemptId'' a)" for k
      using that by (auto simp: opt_entry_def split: option.splits)
  qed (auto simp: opt_entry_def split: option.splits)
  ultimately show ?thesis by (auto simp: good_draft_def binding_draft_def opt_entry_def split: option.splits)
qed

lemma represents_disk:
  assumes "represents dir b j"
    and "\<And>name. name \<in> {TRACE_PATH, STATE_PATH, MANIFEST_PATH} \<Longrightarrow> bu_disk b' (dir @ [name]) = bu_disk b (dir @ [name])"
    and "(case bu_context b' of None \<Rightarrow> bu_context b = None
      | Some c' \<Rightarrow> (\<exists>c. bu_context b = Some c \<and> bc_traceSeq c' = bc_traceSeq c \<and> bc_artifacts c' = bc_artifacts c))"
  shows "represents dir b' j"
  using assms(1,3) assms(2)[of TRACE_PATH] assms(2)[of STATE_PATH] assms(2)[of MANIFEST_PATH]
  by (auto simp: represents_def file_text_def split: option.splits)

lemma good_binding_event:
  assumes "isNonEmptyString (field sb ''runId'')" "is_str (field sb ''piSessionId'')" "good_clock now"
    and "1 \<le> n" "int n \<le> MAX_SAFE_INTEGER"
  shows "good_event n (event_of sha n now sb (binding_draft sb a))"
proof -
  have "run_id_of sb \<noteq> []" using assms(1) by (auto simp: isNonEmptyString_def run_id_of_def split: jv.splits)
  then show ?thesis
    unfolding event_of_def by (intro event_good good_binding_draft[OF assms(2)] assms(3-5))
qed

lemma represents_binding_file:
  assumes "represents dir b j" "sub \<noteq> []" "bu_context b = Some c"
  shows "represents dir (b\<lparr>bu_context := Some (c\<lparr>bc_bound := x\<rparr>),
    bu_disk := writeJsonAtomic (dir @ sub @ [''binding.json'']) v (bu_disk b)\<rparr>) j"
  using assms(2,3) by (intro represents_disk[OF assms(1)]) (auto simp: writeJsonAtomic_def)

lemma act_bind:
  assumes "represents dir b j" "bu_context b \<noteq> None" "safe_sha sha"
    and "isNonEmptyString (field sb ''runId'')" "is_str (field sb ''piSessionId'')" "good_clock now"
    and "int (length (jn_events j)) < MAX_SAFE_INTEGER"
  shows "represents dir (snd (writeSessionBinding sha dir True now sb a b)) j \<or>
    (\<exists>ev. good_event (length (jn_events j) + 1) ev \<and>
      represents dir (snd (writeSessionBinding sha dir True now sb a b)) (note_event ev j))"
proof -
  obtain c where c: "bu_context b = Some c" using assms(2) by auto
  let ?n = "length (jn_events j) + 1"
  have same: "represents dir (b\<lparr>bu_context := Some (c\<lparr>bc_bound := x\<rparr>)\<rparr>) j" for x
    using assms(1) c by (intro represents_disk[OF assms(1)]) simp_all
  have noted: "\<exists>ev. good_event ?n ev \<and> represents dir (bind_stream sha dir now sb a sub (b\<lparr>bu_context := Some (c\<lparr>bc_bound := x\<rparr>)\<rparr>)) (note_event ev j)"
    if sub: "sub \<noteq> []" for sub x
  proof -
    let ?b1 = "b\<lparr>bu_context := Some (c\<lparr>bc_bound := x\<rparr>), bu_disk := writeJsonAtomic (dir @ sub @ [''binding.json'']) (JObj sb) (bu_disk b)\<rparr>"
    obtain ev b2 where a: "appendTraceEvent sha dir now (run_id_of sb) (binding_draft sb a) ?b1 = (ev, b2)" by fastforce
    note e = snapshot_event[OF represents_binding_file[OF assms(1) sub c] _ assms(3) a]
    have ev: "good_event ?n ev" using good_binding_event[OF assms(4-6), of ?n] assms(7) e(1) by simp
    then have "good_journal (note_event ev j)" using assms(1) good_note unfolding represents_def by blast
    moreover have "jn_live j" using assms(1) c by (auto simp: represents_def)
    ultimately have "represents dir b2 (note_event ev j)" using e(2-5) by (auto simp: represents_def note_event_def)
    moreover have "bind_stream sha dir now sb a sub (b\<lparr>bu_context := Some (c\<lparr>bc_bound := x\<rparr>)\<rparr>) = b2"
      using a by (simp add: bind_stream_def run_id_of_def)
    ultimately show ?thesis using ev by blast
  qed
  have again: "represents dir (b\<lparr>bu_context := Some c\<rparr>) j" using same[of "bc_bound c"] by simp
  show ?thesis
    using same noted again c
    by (auto simp: writeSessionBinding_def contextFor_def Let_def split: option.splits)
qed

lemma act_die_binding:
  assumes "represents dir b j" "bu_context b \<noteq> None" "safe_sha sha"
    and "isNonEmptyString (field sb ''runId'')" "is_str (field sb ''piSessionId'')" "good_clock now"
    and "int (length (jn_events j)) < MAX_SAFE_INTEGER"
  shows "represents dir (die_in_binding sha dir now sb a n b) (j\<lparr>jn_live := False\<rparr>) \<or>
    (\<exists>ev. good_event (length (jn_events j) + 1) ev \<and>
      represents dir (die_in_binding sha dir now sb a n b) ((note_event ev j)\<lparr>jn_live := False\<rparr>))"
proof -
  obtain c where c: "bu_context b = Some c" using assms(2) by auto
  let ?n = "length (jn_events j) + 1"
  have ev: "good_event ?n (event_of sha ?n now sb (binding_draft sb a))"
    using good_binding_event[OF assms(4-6)] assms(7) by simp
  have ctx: "b\<lparr>bu_context := Some (c\<lparr>bc_bound := bc_bound c\<rparr>), bu_disk := dk\<rparr> = b\<lparr>bu_disk := dk\<rparr>" for dk
    using c by simp
  have torn: "represents dir (die_in_snapshot sha dir now sb (binding_draft sb a) (TornLine n) b1) (j\<lparr>jn_live := False\<rparr>) \<or>
      represents dir (die_in_snapshot sha dir now sb (binding_draft sb a) (TornLine n) b1)
        ((note_event (event_of sha ?n now sb (binding_draft sb a)) j)\<lparr>jn_live := False\<rparr>)"
    if "sub \<noteq> []" "b1 = b\<lparr>bu_disk := writeJsonAtomic (dir @ sub @ [''binding.json'']) (JObj sb) (bu_disk b)\<rparr>" for sub b1
  proof -
    have "represents dir b1 j"
      using represents_binding_file[OF assms(1) that(1) c, of "JObj sb" "bc_bound c"] unfolding that(2) ctx .
    then show ?thesis using act_torn[OF _ _ assms(3) ev, of dir b1 "TornLine n"] assms(2) that(2) by simp
  qed
  show ?thesis
  proof (cases "(case a of None \<Rightarrow> [] | Some x \<Rightarrow> x) \<in> set (bc_bound (contextFor b)) \<or>
      a \<noteq> None \<and> \<not> run_id_pattern (case a of None \<Rightarrow> [] | Some x \<Rightarrow> x)")
    case True
    then show ?thesis using act_die[OF assms(1)] by (simp add: die_in_binding_def Let_def)
  next
    case False
    let ?sub = "case a of None \<Rightarrow> [SESSION_DIR] | Some x \<Rightarrow> [SESSION_DIR, ''segments'', x]"
    have run: "die_in_binding sha dir now sb a n b = die_in_snapshot sha dir now sb (binding_draft sb a) (TornLine n)
        (b\<lparr>bu_disk := writeJsonAtomic (dir @ ?sub @ [''binding.json'']) (JObj sb) (bu_disk b)\<rparr>)"
      unfolding die_in_binding_def Let_def using False by (simp only: if_False)
    have "?sub \<noteq> []" by (cases a) simp_all
    from torn[OF this refl] show ?thesis unfolding run using ev by blast
  qed
qed

section \<open>The refinement\<close>

fun good_act :: "bundle_act \<Rightarrow> bool" where
  "good_act (Snapshot st d now) = (good_state st \<and> good_draft d \<and> good_clock now)"
| "good_act (BindSession sb a now) = (isNonEmptyString (field sb ''runId'') \<and> is_str (field sb ''piSessionId'') \<and> good_clock now)"
| "good_act (Publish st nodeId attemptId updateId u aborted now) = (good_state st \<and> good_update nodeId attemptId updateId u \<and> good_clock now)"
| "good_act (DieInBinding sb a now n) = (isNonEmptyString (field sb ''runId'') \<and> is_str (field sb ''piSessionId'') \<and> good_clock now)"
| "good_act (DieInSnapshot st d now point) = (good_state st \<and> good_draft d \<and> good_clock now)"
| "good_act _ = True"

lemma live_context: "represents dir b j \<Longrightarrow> bu_context b \<noteq> None \<longleftrightarrow> jn_live j"
  by (auto simp: represents_def split: option.splits)

lemma act_refines:
  assumes "represents dir b j" "dir \<noteq> []" "safe_sha sha" "good_act act" "int (length (jn_events j)) < MAX_SAFE_INTEGER"
  shows "\<exists>j'. journal_step sha act j j' \<and> represents dir (act_on sha dir act b) j'"
proof (cases "bu_context b = None")
  case True
  then have dead: "\<not> jn_live j" using live_context[OF assms(1)] by simp
  show ?thesis
  proof (cases act)
    case Resume
    show ?thesis
    proof (cases "field (jn_state j) ''status'' = JStr ''running''")
      case run: True
      obtain l b' where "prepareRunResume dir True True b = (Inr l, b')"
        "represents dir b' (j\<lparr>jn_pending := [], jn_live := True\<rparr>)" by (rule act_resume[OF assms(1,2) run])
      then show ?thesis using Resume True journal_step.resumed[OF dead run] by auto
    next
      case False
      then show ?thesis
        using Resume True act_resume_refused[OF assms(1,2) False] journal_step.refused[OF dead False] assms(1) by auto
    qed
  next
    case Die
    then show ?thesis using act_die[OF assms(1)] journal_step.died by auto
  qed (use True assms(1) journal_step.dead[OF dead] in auto)
next
  case live: False
  then have lj: "jn_live j" using live_context[OF assms(1)] by simp
  show ?thesis
  proof (cases act)
    case (Snapshot st d now)
    then show ?thesis
      using act_snapshot[OF assms(1) live assms(3), of d st now] assms(4,5) live journal_step.snapshot[OF lj] by fastforce
  next
    case (BindSession sb a now)
    then show ?thesis
      using act_bind[OF assms(1) live assms(3), of sb now a] assms(4,5) live
        journal_step.bound[OF lj] journal_step.noted[OF lj] by fastforce
  next
    case (Publish st nodeId attemptId updateId u aborted now)
    have seq: "bc_traceSeq (contextFor b) = length (jn_events j)"
      using assms(1) live by (auto simp: represents_def contextFor_def)
    show ?thesis
    proof (cases "aborted \<or> updates_full st u")
      case True
      then show ?thesis
        using Publish assms(1) journal_step.unpublished[OF lj True] publish_is_snapshot
        by (intro exI[of _ j] conjI) simp_all
    next
      case False
      let ?st = "with_update updateId u (length (jn_events j) + 1) now nodeId attemptId st"
      have "good_state ?st" "good_draft (update_draft nodeId attemptId updateId u)" "good_clock now"
        using Publish assms(4,5) good_with_update good_update_draft by simp_all
      then have "represents dir (act_on sha dir act b) (commit sha now ?st (update_draft nodeId attemptId updateId u) j)"
        using act_snapshot[OF assms(1) live assms(3)] assms(5) Publish live False by (auto simp: publish_is_snapshot seq)
      then show ?thesis using Publish False journal_step.published[OF lj] by blast
    qed
  next
    case (DieInBinding sb a now n)
    then show ?thesis
      using act_die_binding[OF assms(1) live assms(3), of sb now a n] assms(4,5) live
        journal_step.unbound[OF lj] journal_step.half_bound[OF lj] by fastforce
  next
    case (DieInSnapshot st d now point)
    show ?thesis
    proof (cases "point = StateWritten")
      case True
      then show ?thesis
        using DieInSnapshot act_saved[OF assms(1) live assms(3), of d st now] assms(4,5) live journal_step.saved[OF lj]
        by fastforce
    next
      case False
      then consider "represents dir (die_in_snapshot sha dir now st d point b) (j\<lparr>jn_live := False\<rparr>)"
        | "represents dir (die_in_snapshot sha dir now st d point b)
            ((note_event (event_of sha (length (jn_events j) + 1) now st d) j)\<lparr>jn_live := False\<rparr>)"
        using DieInSnapshot act_torn[OF assms(1) live assms(3) event_of_good, of d st now point] assms(4,5) by auto
      then show ?thesis
      proof cases
        case 1
        then show ?thesis using DieInSnapshot live journal_step.torn[OF lj] False by fastforce
      next
        case 2
        then show ?thesis
          using DieInSnapshot live journal_step.written[OF lj refl False] by fastforce
      qed
    qed
  next
    case Die
    then show ?thesis using act_die[OF assms(1)] journal_step.died by auto
  next
    case Resume
    then show ?thesis using live assms(1) journal_step.running[OF lj] by auto
  qed
qed

lemma journal_grows: "journal_step sha act j j' \<Longrightarrow> length (jn_events j') \<le> length (jn_events j) + 1"
  by (induction rule: journal_step.induct) (auto simp: commit_def note_event_def Let_def)

lemma acts_refine:
  assumes "represents dir b j" "dir \<noteq> []" "safe_sha sha" "list_all good_act acts"
    and "int (length (jn_events j) + length acts) \<le> MAX_SAFE_INTEGER"
  shows "\<exists>j'. journal_run sha acts j j' \<and> represents dir (fold (act_on sha dir) acts b) j'"
  using assms(1,4,5)
proof (induction acts arbitrary: b j)
  case Nil
  then show ?case using journal_run.Nil by auto
next
  case (Cons act acts)
  then obtain j1 where j1: "journal_step sha act j j1" "represents dir (act_on sha dir act b) j1"
    using act_refines[OF Cons.prems(1) assms(2,3), of act] by auto
  have "int (length (jn_events j1) + length acts) \<le> MAX_SAFE_INTEGER"
    using journal_grows[OF j1(1)] Cons.prems(3) by simp
  then obtain j2 where "journal_run sha acts j1 j2" "represents dir (fold (act_on sha dir) acts (act_on sha dir act b)) j2"
    using Cons.IH[OF j1(2)] Cons.prems(2) by auto
  then show ?case using journal_run.Cons[OF j1(1)] by auto
qed

definition fresh_bundle :: run_bundle where
  "fresh_bundle = \<lparr>bu_disk = (\<lambda>_. None), bu_exists = False, bu_context = None\<rparr>"

definition first_journal :: "(string \<Rightarrow> string) \<Rightarrow> jv obj \<Rightarrow> journal" where
  "first_journal sha st = \<lparr>jn_committed = [], jn_pending = [], jn_state = stored_state sha st, jn_live = True\<rparr>"

lemma initialized:
  assumes "good_state st" "field st ''traceSeq'' = jnat 0" "safe_sha sha"
  shows "represents dir (snd (initializeRunBundle sha dir True snapshot st fresh_bundle)) (first_journal sha st)"
proof -
  let ?b = "fresh_bundle\<lparr>bu_exists := True, bu_disk := appendText (dir @ [TRACE_PATH]) []
      (writeJsonAtomic (dir @ [WORKFLOW_SNAPSHOT_PATH]) snapshot (bu_disk fresh_bundle))\<rparr>"
  have names: "TRACE_PATH \<noteq> WORKFLOW_SNAPSHOT_PATH" by code_simp
  obtain enc b1 where e: "encode_state sha dir st ?b = (enc, b1)" by fastforce
  let ?c = "\<lparr>bc_traceSeq = 0, bc_artifacts = new_writer, bc_bound = []\<rparr>"
  have e': "encode_state sha dir st (?b\<lparr>bu_context := Some ?c\<rparr>) = (enc, b1)"
    using e by (simp add: encode_state_def contextFor_def fresh_bundle_def case_prod_beta)
  note w = state_written[OF assms(3) _ _ assms(1) e' refl, of ?c]
  have "good_journal (first_journal sha st)"
    using assms(1,2) by (simp add: good_journal_def first_journal_def good_state_def stored_state_valid stored_state_json
        stored_plain_field moved_keys_def MAX_SAFE_INTEGER_def del: json_value.simps)
  moreover have "file_text (bu_disk (write_state dir enc b1)) (dir @ [TRACE_PATH]) = Some []"
    using w(2)[of TRACE_PATH] names by (simp add: clean_new file_text_def appendText_def writeJsonAtomic_def fresh_bundle_def)
  ultimately have "represents dir (write_manifest dir st (write_state dir enc b1)) (first_journal sha st)"
    using w(1,3) manifest_written(1)[OF assms(1), of dir "write_state dir enc b1"]
      manifest_written(2)[OF assms(1), of _ dir "write_state dir enc b1"]
      manifest_written(3)[OF assms(1), of dir "write_state dir enc b1"]
    by (auto simp: represents_def first_journal_def trace_text_def clean_new file_text_def)
  moreover have "snd (initializeRunBundle sha dir True snapshot st fresh_bundle) = write_manifest dir st (write_state dir enc b1)"
    using e by (simp add: initializeRunBundle_def writeProjections_def fresh_bundle_def Let_def)
  ultimately show ?thesis by simp
qed

text \<open>C6: once a run bundle has been created, the files stand for a journal that made the same steps, whatever
  sequence of these acts follows: writing a snapshot, publishing an update, binding a session, dying between
  acts, inside a snapshot (a published update is one) or inside a binding - after any number of characters of
  the trace line, or before the manifest - and resuming.  Events and state are committed together, and a crash
  loses at most the act under way.  Dying while the bundle is created, and interrupting a run
  (markRunInterrupted, see BundleInterrupt), are not among the acts\<close>

theorem bundle_refines_journal:
  assumes "dir \<noteq> []" "safe_sha sha" "good_state st" "field st ''traceSeq'' = jnat 0"
    and "list_all good_act acts" "int (length acts) \<le> MAX_SAFE_INTEGER"
  shows "\<exists>j. journal_run sha acts (first_journal sha st) j \<and>
    represents dir (fold (act_on sha dir) acts (snd (initializeRunBundle sha dir True snapshot st fresh_bundle))) j"
  using acts_refine[OF initialized[OF assms(3,4,2)] assms(1,2,5)] assms(6) by (simp add: first_journal_def)

lemma journal_extends: "journal_step sha act j j' \<Longrightarrow> \<exists>more. jn_committed j' = jn_committed j @ more"
  by (induction rule: journal_step.induct) (auto simp: commit_def note_event_def Let_def)

lemma journal_run_extends: "journal_run sha acts j j' \<Longrightarrow> \<exists>more. jn_committed j' = jn_committed j @ more"
proof (induction rule: journal_run.induct)
  case (Cons act j j' acts j'')
  then show ?case using journal_extends[OF Cons(1)] by (metis append.assoc)
qed simp

text \<open>What a reader of the bundle finds after resuming it.\<close>

definition resumes_to :: "string list \<Rightarrow> run_bundle \<Rightarrow> jv list \<Rightarrow> jv obj \<Rightarrow> bool" where
  "resumes_to dir b evs st \<longleftrightarrow> (\<exists>l b'. prepareRunResume dir True True b = (Inr l, b') \<and> ld_state l = st \<and>
     ld_trace l = \<lparr>nj_records = evs, nj_exists = True, nj_torn = False, nj_malformed = False\<rparr> \<and>
     (\<exists>c. bu_context b' = Some c \<and> bc_traceSeq c = length evs))"

text \<open>C7: resuming a crashed run gives back exactly the committed journal: the trace is intact, its events are
  numbered from one up to the number the state records, the state is the one of the last commit, the next
  event continues the numbering, and no event committed earlier is missing\<close>

theorem resume_recovers_committed:
  assumes "dir \<noteq> []" "safe_sha sha" "good_state st" "field st ''traceSeq'' = jnat 0"
    and "list_all good_act (before @ after)" "int (length (before @ after)) \<le> MAX_SAFE_INTEGER"
  shows "\<exists>j j'. journal_run sha before (first_journal sha st) j \<and> journal_run sha after j j' \<and>
    (\<exists>more. jn_committed j' = jn_committed j @ more) \<and> numbered 1 (jn_committed j') \<and>
    field (jn_state j') ''traceSeq'' = jnat (length (jn_committed j')) \<and>
    (field (jn_state j') ''status'' = JStr ''running'' \<longrightarrow>
      resumes_to dir (fold (act_on sha dir) (before @ after) (snd (initializeRunBundle sha dir True snapshot st fresh_bundle)))
        (jn_committed j') (jn_state j'))"
proof -
  note start = initialized[OF assms(3,4,2), of dir snapshot]
  obtain j where j: "journal_run sha before (first_journal sha st) j"
      "represents dir (fold (act_on sha dir) before (snd (initializeRunBundle sha dir True snapshot st fresh_bundle))) j"
    using acts_refine[OF start assms(1,2), of before] assms(5,6) by (auto simp: first_journal_def)
  have "length (jn_events j) \<le> length before"
  proof -
    have "journal_run sha acts j0 j1 \<Longrightarrow> length (jn_events j1) \<le> length (jn_events j0) + length acts" for acts j0 j1
      by (induction rule: journal_run.induct) (auto dest: journal_grows)
    from this[OF j(1)] show ?thesis by (simp add: first_journal_def)
  qed
  then obtain j' where j': "journal_run sha after j j'"
      "represents dir (fold (act_on sha dir) (before @ after) (snd (initializeRunBundle sha dir True snapshot st fresh_bundle))) j'"
    using acts_refine[OF j(2) assms(1,2), of after] assms(5,6) by auto
  have good: "good_journal j'" using j'(2) by (simp add: represents_def)
  moreover have "resumes_to dir (fold (act_on sha dir) (before @ after)
      (snd (initializeRunBundle sha dir True snapshot st fresh_bundle))) (jn_committed j') (jn_state j')"
    if run: "field (jn_state j') ''status'' = JStr ''running''"
  proof -
    obtain l b' where r: "prepareRunResume dir True True (fold (act_on sha dir) (before @ after)
          (snd (initializeRunBundle sha dir True snapshot st fresh_bundle))) = (Inr l, b')"
      "represents dir b' (j'\<lparr>jn_pending := [], jn_live := True\<rparr>)" "ld_state l = jn_state j'"
      "ld_trace l = \<lparr>nj_records = jn_committed j', nj_exists = True, nj_torn = False, nj_malformed = False\<rparr>"
      by (rule act_resume[OF j'(2) assms(1) run])
    moreover have "\<exists>c. bu_context b' = Some c \<and> bc_traceSeq c = length (jn_committed j')"
      using r(2) by (auto simp: represents_def split: option.splits)
    ultimately show ?thesis unfolding resumes_to_def by blast
  qed
  ultimately show ?thesis
    using j(1) j'(1) journal_run_extends[OF j'(1)] by (auto simp: good_journal_def numbered_append)
qed

section \<open>Samples\<close>

definition sample_clock :: string where
  "sample_clock = ''2024-05-06''"

definition sample_state :: "jv obj" where
  "sample_state = [(''schema'', JStr RUN_STATE_SCHEMA), (''traceSeq'', jnat 0), (''runId'', JStr ''r1''),
     (''workflowName'', JStr ''wf''), (''startedAt'', JStr sample_clock), (''updatedAt'', JStr sample_clock),
     (''status'', JStr ''running''), (''input'', JNull), (''outputs'', JObj []), (''results'', JObj []), (''steps'', JArr [])]"

definition sample_draft :: "string \<Rightarrow> event_draft" where
  "sample_draft t = \<lparr>dr_scope = ''run'', dr_type = t, dr_node = None, dr_attempt = None, dr_payload = []\<rparr>"

definition sample_binding :: "jv obj" where
  "sample_binding = [(''runId'', JStr ''r1''), (''piSessionId'', JStr ''s1'')]"

definition sample_acts :: "bundle_act list" where
  "sample_acts = [Snapshot sample_state (sample_draft ''run_started'') sample_clock,
     Publish sample_state ''build'' ''a1'' ''u1'' \<lparr>ui_type = ''note'', ui_key = ''k'', ui_data = []\<rparr> False sample_clock,
     DieInBinding sample_binding None sample_clock 9, Resume,
     DieInSnapshot sample_state (sample_draft ''node_started'') sample_clock (TornLine 9), Resume]"

lemma sample_good: "good_state sample_state" "field sample_state ''traceSeq'' = jnat 0" "list_all good_act sample_acts"
  by code_simp+

lemma sample_short: "int (length sample_acts) \<le> MAX_SAFE_INTEGER" "int (length (sample_acts @ sample_acts)) \<le> MAX_SAFE_INTEGER"
  by code_simp+

lemma sample_twice: "list_all good_act (sample_acts @ sample_acts)"
  using sample_good(3) by (simp only: list_all_append simp_thms)

lemma sample_sha_safe: "safe_sha sample_sha"
  by (simp add: safe_sha_def sample_sha_def)

theorem bundle_refines_journal_witness:
  "\<exists>j. journal_run sample_sha sample_acts (first_journal sample_sha sample_state) j \<and>
    represents [''run''] (fold (act_on sample_sha [''run'']) sample_acts
      (snd (initializeRunBundle sample_sha [''run''] True JNull sample_state fresh_bundle))) j"
  by (rule bundle_refines_journal[OF _ sample_sha_safe sample_good sample_short(1)]) (rule list.distinct(2))

theorem resume_recovers_committed_witness:
  "\<exists>j j'. journal_run sample_sha sample_acts (first_journal sample_sha sample_state) j \<and>
    journal_run sample_sha sample_acts j j' \<and>
    (\<exists>more. jn_committed j' = jn_committed j @ more) \<and> numbered 1 (jn_committed j') \<and>
    field (jn_state j') ''traceSeq'' = jnat (length (jn_committed j')) \<and>
    (field (jn_state j') ''status'' = JStr ''running'' \<longrightarrow>
      resumes_to [''run''] (fold (act_on sample_sha [''run'']) (sample_acts @ sample_acts)
        (snd (initializeRunBundle sample_sha [''run''] True JNull sample_state fresh_bundle))) (jn_committed j') (jn_state j'))"
  by (rule resume_recovers_committed[OF _ sample_sha_safe sample_good(1,2) sample_twice sample_short(2)])
    (rule list.distinct(2))

end
