(* ===== verification/BundleInterrupt.thy ===== *)
theory BundleInterrupt
  imports BundleRefinement
begin

text \<open>
  Interrupting a crashed run.  Unlike resuming, \<open>markRunInterrupted\<close> does not repair the trace: after a
  torn append its own event continues the torn line and is unreadable.
\<close>

section \<open>Changing a good state\<close>

lemma field_delete [simp]: "field (obj_delete k ob) k' = (if k' = k then JUndef else field ob k')"
  by (simp add: field_def)

lemma json_value_delete: "json_value (JObj ob) \<Longrightarrow> json_value (JObj (obj_delete k ob))"
  using js_ordered_filter[of ob "\<lambda>(k', _). k \<noteq> k'"] by (auto simp: obj_delete_def AList.delete_eq list_all_iff)

lemma good_state_delete:
  assumes "good_state st" "k \<in> {''currentNode'', ''currentAttemptId'', ''currentNodeStartedAt'', ''statusDetail'', ''paused''}"
  shows "good_state (obj_delete k st)"
proof -
  have "validateRunStateShape (obj_delete k st) = None"
    using assms(1)[unfolded good_state_def validateRunStateShape_def first_failure_None] assms(2)
    unfolding validateRunStateShape_def first_failure_None
    by (elim insertE emptyE) (simp_all add: optional_def[of _ JUndef])
  then show ?thesis using assms json_value_delete by (auto simp: good_state_def simp del: json_value.simps)
qed

definition fits :: "string \<Rightarrow> jv \<Rightarrow> bool" where
  "fits k v \<longleftrightarrow> json_value v \<and>
     (k = ''status'' \<and> one_of WORKFLOW_RUN_STATUSES v \<or> k \<in> {''finishedAt'', ''updatedAt''} \<and> isValidTimestamp v \<or>
      k \<in> {''error'', ''waitingOn''} \<and> is_str v \<or> k = ''finalOutput'' \<or> k = ''traceSeq'' \<and> safe_nat v \<noteq> None)"

lemma good_state_put: "good_state st \<Longrightarrow> fits k v \<Longrightarrow> good_state (obj_put k v st)"
proof -
  assume st: "good_state st" and v: "fits k v"
  have k: "k \<in> {''status'', ''finishedAt'', ''updatedAt'', ''error'', ''waitingOn'', ''finalOutput'', ''traceSeq''}"
    using v by (auto simp: fits_def)
  have "validateRunStateShape (obj_put k v st) = None"
    using st[unfolded good_state_def validateRunStateShape_def first_failure_None] v k
    unfolding validateRunStateShape_def first_failure_None fits_def
    by (elim insertE emptyE) (simp_all add: optional_def[of _ v])
  moreover have "\<not> is_index k" "k \<noteq> ''schema''"
    using k by (elim insertE emptyE; hypsubst; code_simp)+
  ultimately show ?thesis
    using st v json_value_put by (auto simp: good_state_def fits_def simp del: json_value.simps)
qed

lemma good_state_put_if: "good_state st \<Longrightarrow> (p \<Longrightarrow> fits k v) \<Longrightarrow> good_state (put_if p k v st)"
  by (simp add: put_if_def good_state_put)

lemma good_event_parts:
  assumes "good_event n ev" "int n \<le> MAX_SAFE_INTEGER"
  shows "fits ''traceSeq'' (member ''seq'' ev)" "fits ''updatedAt'' (member ''at'' ev)" "fits ''finishedAt'' (member ''at'' ev)"
    "json_value (JObj (sub_object (member ''payload'' ev)))" "seq_number ev = n"
proof -
  obtain ob where ob: "ev = JObj ob" using good_event_object[OF assms(1)] by blast
  have shape: "isTraceEventShape ev" "json_value ev" "member ''seq'' ev = jnat n" using assms(1) by (simp_all add: good_event_def)
  note fields = field_json_value[of ob]
  have "isValidTimestamp (field ob ''at'')" "isRecord (field ob ''payload'') \<noteq> None"
    using shape(1) ob by (simp_all add: isTraceEventShape_def)
  then have at: "isValidTimestamp (field ob ''at'')" "json_value (field ob ''at'')" "json_value (field ob ''payload'')"
    using fields[of "''at''"] fields[of "''payload''"] shape(2) ob by (auto simp: isValidTimestamp_def)
  show "fits ''traceSeq'' (member ''seq'' ev)" using shape(3) assms(2)
    by (simp add: fits_def is_num_nat_dec safe_nat_jnat del: safe_nat.simps)
  show "fits ''updatedAt'' (member ''at'' ev)" "fits ''finishedAt'' (member ''at'' ev)"
    using at by (simp_all add: fits_def ob member_def)
  show "json_value (JObj (sub_object (member ''payload'' ev)))"
    using sub_object_json[of "field ob ''payload''"] at(3) by (simp add: ob member_def)
  show "seq_number ev = n"
    using shape(3) safe_nat_jnat[OF assms(2)] by (simp add: ob member_def seq_number_def del: safe_nat.simps)
qed

lemma fits_is_str: "is_str v \<Longrightarrow> k \<in> {''error'', ''waitingOn''} \<Longrightarrow> fits k v"
  by (cases v) (auto simp: is_str_def fits_def)

lemma recovered_good:
  assumes "good_state st" "good_event n ev" "int n \<le> MAX_SAFE_INTEGER" "recoverTerminalProjection st ev = Some st'"
  shows "good_state st'" "field st' ''traceSeq'' = jnat n"
    "\<exists>t s. member ''type'' ev = JStr t \<and> terminalStatusForEvent t = Some s \<and> field st' ''status'' = JStr s"
proof -
  note parts = good_event_parts[OF assms(2,3)]
  let ?pay = "sub_object (member ''payload'' ev)"
  obtain t s where t: "member ''type'' ev = JStr t" "terminalStatusForEvent t = Some s"
    using assms(4) by (cases "member ''type'' ev") (auto simp: recoverTerminalProjection_def split: option.splits)
  have status: "fits ''status'' (JStr s)"
    using t(2) by (auto simp: terminalStatusForEvent_def fits_def one_of_def WORKFLOW_RUN_STATUSES_def split: if_splits)
  have out: "fits ''finalOutput'' (field ?pay ''finalOutput'')" if "has_own ?pay ''finalOutput''"
    using that parts(4) map_of_SomeD
    by (fastforce simp: fits_def field_def has_own_iff obj_get_def list_all_iff split: option.splits)
  define s4 where "s4 = put_if (has_own ?pay ''finalOutput'') ''finalOutput'' (field ?pay ''finalOutput'')
      (put_if (is_str (field ?pay ''waitingOn'')) ''waitingOn'' (field ?pay ''waitingOn'')
      (put_if (is_str (field ?pay ''error'')) ''error'' (field ?pay ''error'')
      (obj_put ''finishedAt'' (member ''at'' ev) (obj_put ''updatedAt'' (member ''at'' ev)
      (obj_put ''status'' (JStr s) (obj_put ''traceSeq'' (member ''seq'' ev) st))))))"
  have st': "st' = fold obj_delete [''currentNode'', ''currentAttemptId'', ''currentNodeStartedAt''] s4"
    using assms(4) t by (simp add: recoverTerminalProjection_def s4_def Let_def)
  have "good_state s4" unfolding s4_def
    by (intro good_state_put_if good_state_put assms(1) parts(1-3) status out fits_is_str) auto
  then show "good_state st'" unfolding st' by (simp add: good_state_delete)
  have "field st' ''traceSeq'' = member ''seq'' ev" "field st' ''status'' = JStr s"
    by (simp_all add: st' s4_def put_if_def)
  then show "field st' ''traceSeq'' = jnat n"
    "\<exists>t s. member ''type'' ev = JStr t \<and> terminalStatusForEvent t = Some s \<and> field st' ''status'' = JStr s"
    using assms(2) t by (simp_all add: good_event_def)
qed

lemma interrupted_good:
  assumes "good_state st" "good_clock now"
  shows "good_state (interrupted_state reason now st)" "field (interrupted_state reason now st) ''status'' = JStr ''failed''"
proof -
  have "fits ''status'' (JStr ''failed'')" by code_simp
  moreover have "fits ''finishedAt'' (JStr now)" "fits ''error'' (JStr reason)"
    using assms(2) by (simp_all add: fits_def good_clock_def isValidTimestamp_def is_str_def)
  ultimately have "good_state (obj_put ''error'' (JStr reason) (obj_put ''finishedAt'' (JStr now)
      (obj_put ''status'' (JStr ''failed'') st)))" by (intro good_state_put assms(1))
  then show "good_state (interrupted_state reason now st)" by (simp add: interrupted_state_def good_state_delete)
qed (simp add: interrupted_state_def)

section \<open>Interrupting a represented bundle\<close>

lemma loaded_projections:
  assumes "good_state st"
  shows "bu_disk (writeLoadedProjections dir st b) (dir @ [STATE_PATH]) = Some (JsonFile (JObj st))"
    and "\<exists>m. bu_disk (writeLoadedProjections dir st b) (dir @ [MANIFEST_PATH]) = Some (JsonFile (JObj m)) \<and> good_manifest m"
    and "bu_disk (writeLoadedProjections dir st b) (dir @ [TRACE_PATH]) = bu_disk b (dir @ [TRACE_PATH])"
    and "bu_context (writeLoadedProjections dir st b) = bu_context b"
proof -
  have st: "json_value (JObj st)" using assms by (simp add: good_state_def)
  have "file_value (JObj st) = Some (JObj st)"
    using file_value_clean[OF json_value_js_data[OF st]] json_clean_value[OF st] by simp
  then show "bu_disk (writeLoadedProjections dir st b) (dir @ [STATE_PATH]) = Some (JsonFile (JObj st))"
    using manifest_written(2)[OF assms, of STATE_PATH dir "write_state dir st b"]
    by (simp add: writeLoadedProjections_def write_state_def writeJsonAtomic_def)
  show "\<exists>m. bu_disk (writeLoadedProjections dir st b) (dir @ [MANIFEST_PATH]) = Some (JsonFile (JObj m)) \<and> good_manifest m"
    using manifest_written(1)[OF assms] by (simp add: writeLoadedProjections_def)
  show "bu_disk (writeLoadedProjections dir st b) (dir @ [TRACE_PATH]) = bu_disk b (dir @ [TRACE_PATH])"
    using manifest_written(2)[OF assms, of TRACE_PATH dir "write_state dir st b"]
    by (simp add: writeLoadedProjections_def write_state_def writeJsonAtomic_def)
qed (simp add: writeLoadedProjections_def write_manifest_def write_state_def)

definition torn_tail :: "string list \<Rightarrow> run_bundle \<Rightarrow> journal \<Rightarrow> string \<Rightarrow> bool" where
  "torn_tail dir b j torn \<longleftrightarrow> file_text (bu_disk b) (dir @ [TRACE_PATH]) = Some (trace_text (jn_events j) @ torn) \<and> nl \<notin> set torn"

lemma journal_state_good: "good_journal j \<Longrightarrow> good_state (jn_state j)"
  by (simp add: good_journal_def good_state_def)

lemma journal_state_seq: "good_journal j \<Longrightarrow> state_seq (jn_state j) = length (jn_committed j)"
  using safe_nat_jnat[of "length (jn_committed j)"] by (simp add: state_seq_def good_journal_def del: safe_nat.simps)

text \<open>What interrupting does: the last event already ended the run, or an event is appended after the tail.\<close>

lemma interrupted_steps:
  assumes rep: "represents dir b j" "torn_tail dir b j torn" and dir: "dir \<noteq> []" and sha: "safe_sha sha"
    and clock: "good_clock now" and run: "field (jn_state j) ''status'' = JStr ''running''"
    and room: "int (length (jn_events j)) < MAX_SAFE_INTEGER"
  defines "n \<equiv> length (jn_events j)"
  obtains (recovered) st b' where "n \<noteq> 0" "recoverTerminalProjection (jn_state j) (last (jn_events j)) = Some st"
      "markRunInterrupted sha dir True now reason b = (Inr (readRunBundle dir (bu_disk b')), b')"
      "bu_disk b' (dir @ [STATE_PATH]) = Some (JsonFile (JObj st))"
      "\<exists>m. bu_disk b' (dir @ [MANIFEST_PATH]) = Some (JsonFile (JObj m)) \<and> good_manifest m"
      "file_text (bu_disk b') (dir @ [TRACE_PATH]) = Some (trace_text (jn_events j) @ torn)"
  | (appended) st ev b' where "good_event (n + 1) ev" "member ''type'' ev = JStr ''run_interrupted''"
      "good_state st" "field st ''traceSeq'' = jnat (n + 1)" "field st ''status'' = JStr ''failed''"
      "markRunInterrupted sha dir True now reason b = (Inr (readRunBundle dir (bu_disk b')), b')"
      "bu_disk b' (dir @ [STATE_PATH]) = Some (JsonFile (JObj st))"
      "\<exists>m. bu_disk b' (dir @ [MANIFEST_PATH]) = Some (JsonFile (JObj m)) \<and> good_manifest m"
      "file_text (bu_disk b') (dir @ [TRACE_PATH]) = Some (trace_text (jn_events j) @ torn @ json_line ev)"
      "ev = event_json (n + 1) now (run_id_of (jn_state j))
         (interruption reason)
         (encoded sha ARTIFACT_THRESHOLD_BYTES (JObj [(''error'', JStr reason)]))"
proof -
  have j: "good_journal j" using rep(1) by (simp add: represents_def)
  obtain m where m: "bu_disk b (dir @ [MANIFEST_PATH]) = Some (JsonFile (JObj m))" "good_manifest m"
    using rep(1) by (auto simp: represents_def)
  note rd = represents_reads[OF rep(1) dir m]
  have tail: "file_text (bu_disk b) (dir @ [TRACE_PATH]) = Some (trace_text (jn_events j) @ torn)" "nl \<notin> set torn"
    using rep(2) by (simp_all add: torn_tail_def)
  have records: "nj_records (readNdjsonFile isTraceEventShape (bu_disk b) (dir @ [TRACE_PATH])) = jn_events j"
    using read_torn_trace[OF _ tail(2,1)] j by (simp add: good_journal_def)
  define lastEvent where "lastEvent = (if jn_events j = [] then None else Some (last (jn_events j)))"
  have last: "readLastTraceEvent dir m (bu_disk b) = lastEvent"
    using records rd(2) by (cases "jn_events j" rule: rev_cases) (auto simp: readLastTraceEvent_def lastEvent_def)
  have ev_last: "good_event n (last (jn_events j))" if "jn_events j \<noteq> []"
    using j that by (cases "jn_events j" rule: rev_cases) (auto simp: good_journal_def numbered_append n_def)
  have seq: "max (state_seq (jn_state j)) (case lastEvent of None \<Rightarrow> 0 | Some ev \<Rightarrow> seq_number ev) = n"
    using journal_state_seq[OF j] good_event_parts(5)[OF ev_last] room by (auto simp: lastEvent_def n_def)
  define c where "c = \<lparr>bc_traceSeq = n, bc_artifacts = new_writer, bc_bound = bound_streams m\<rparr>"
  have ctx: "interrupt_context (loaded_of dir (bu_disk b) m (jn_state j)) lastEvent = c"
    unfolding interrupt_context_def c_def using seq by (simp add: loaded_of_def)
  define b1 where "b1 = b\<lparr>bu_context := Some c\<rparr>"
  define rec where "rec = (case lastEvent of None \<Rightarrow> None | Some ev \<Rightarrow> recoverTerminalProjection (jn_state j) ev)"
  have status: "status_text (jn_state j) = ''running''" using run by (simp add: status_text_def)
  have mark: "markRunInterrupted sha dir True now reason b = interrupt_with sha dir True now reason (jn_state j) rec b1"
    using status ctx last by (simp add: markRunInterrupted_def rd(1) rec_def b1_def Let_def) (simp add: loaded_of_def cong: option.case_cong)
  show thesis
  proof (cases rec)
    case (Some st)
    then have ne: "jn_events j \<noteq> []" "recoverTerminalProjection (jn_state j) (last (jn_events j)) = Some st"
      by (auto simp: rec_def lastEvent_def split: if_splits)
    have "int n \<le> MAX_SAFE_INTEGER" using room by (simp add: n_def)
    then have st: "good_state st" using recovered_good(1)[OF journal_state_good[OF j] ev_last[OF ne(1)]] ne(2) by blast
    let ?b = "writeLoadedProjections dir st b1"
    have "markRunInterrupted sha dir True now reason b = (Inr (readRunBundle dir (bu_disk ?b)), ?b)"
      using Some by (simp add: mark interrupt_with_def Let_def)
    then show thesis
      using recovered[of st ?b] ne loaded_projections(1-3)[OF st, of dir b1] tail(1)
      by (simp add: n_def b1_def file_text_def)
  next
    case None
    let ?st = "interrupted_state reason now (jn_state j)"
    let ?d = "interruption reason"
    note ok = interrupted_good[OF journal_state_good[OF j] clock, of reason]
    have rid: "run_id_of ?st = run_id_of (jn_state j)" by (simp add: run_id_of_def interrupted_state_def)
    obtain ev b2 where app: "appendTraceEvent sha dir now (run_id_of ?st) ?d b1 = (ev, b2)" by fastforce
    have "js_ordered [(''error'', JStr reason)]" by (rule js_ordered_single)
    then have draft: "good_draft ?d" by (simp add: good_draft_def interruption_def)
    have tx: "file_text (bu_disk b1) (dir @ [TRACE_PATH]) = Some (trace_text (jn_events j) @ torn)" using tail(1) by (simp add: b1_def)
    have c: "bu_context b1 = Some c" "clean_writer (bc_artifacts c)" "bc_traceSeq c = n" by (simp_all add: b1_def c_def clean_new)
    note e = append_event[OF sha c(1,2) tx app, unfolded c(3)]
    have n1: "int (n + 1) \<le> MAX_SAFE_INTEGER" using room by (simp add: n_def)
    have ev: "good_event (n + 1) ev"
      using event_good[OF draft run_id_nonempty[OF ok(1)] clock _ n1, of sha ARTIFACT_THRESHOLD_BYTES]
      unfolding e(1) by simp
    then have evs: "member ''seq'' ev = jnat (n + 1)" by (simp add: good_event_def)
    have at: "member ''at'' ev = JStr now" and ty: "member ''type'' ev = JStr ''run_interrupted''"
      unfolding e(1) by (simp_all add: event_member event_fields interruption_def)
    let ?s = "stamp_state ev now ?st"
    note st = good_state_stamped[OF ok(1) clock evs n1]
    let ?b = "writeLoadedProjections dir ?s b2"
    have "markRunInterrupted sha dir True now reason b = (Inr (readRunBundle dir (bu_disk ?b)), ?b)"
      using None app at by (simp add: mark interrupt_with_def Let_def run_id_of_def)
    note mk = this
    note w = loaded_projections(1-3)[OF st(1), of dir b2]
    have status': "field ?s ''status'' = JStr ''failed''" using st(3) ok(2) by simp
    have text': "file_text (bu_disk ?b) (dir @ [TRACE_PATH]) = Some (trace_text (jn_events j) @ torn @ json_line ev)"
      using w(3) e(2) by (simp add: file_text_def)
    have shape: "ev = event_json (n + 1) now (run_id_of (jn_state j)) (interruption reason)
        (encoded sha ARTIFACT_THRESHOLD_BYTES (JObj [(''error'', JStr reason)]))"
      using e(1) unfolding rid by (simp only: interruption_def event_draft.select_convs)
    show thesis
      by (rule appended[OF ev ty st(1,2) status' mk w(1,2) text' shape])
  qed
qed

section \<open>The end of an interrupted run\<close>



definition new_sample :: run_bundle where
  "new_sample = snd (initializeRunBundle sample_sha [''run''] True JNull sample_state fresh_bundle)"

lemma new_sample: "represents [''run''] new_sample (first_journal sample_sha sample_state)" "bu_context new_sample \<noteq> None"
proof -
  show "represents [''run''] new_sample (first_journal sample_sha sample_state)"
    unfolding new_sample_def by (rule initialized[OF sample_good(1,2) sample_sha_safe])
  from live_context[OF this] show "bu_context new_sample \<noteq> None" by (simp add: first_journal_def)
qed

lemma sample_clock_good: "good_clock sample_clock"
  by code_simp

lemma sample_running: "field (stored_state sample_sha (stamp_state ev sample_clock sample_state)) ''status'' = JStr ''running''"
  if "member ''seq'' ev = jnat n" "int n \<le> MAX_SAFE_INTEGER" for ev n
  using good_state_stamped[OF sample_good(1) sample_clock_good that]
  by (simp add: good_state_def stored_plain_field moved_keys_def del: json_value.simps) (simp add: sample_state_def)


section \<open>A torn tail is not repaired\<close>

text \<open>A run that recorded one event and died while it appended the second.\<close>

definition torn_bundle :: run_bundle where
  "torn_bundle = die_in_snapshot sample_sha [''run''] sample_clock sample_state (sample_draft ''node_started'') (TornLine 9)
     (snd (writeSnapshot sample_sha [''run''] True sample_clock sample_state (sample_draft ''run_started'') new_sample))"

definition sample_event :: "nat \<Rightarrow> string \<Rightarrow> jv" where
  "sample_event n t = event_of sample_sha n sample_clock sample_state (sample_draft t)"

lemma sample_events: "member ''seq'' (sample_event 1 ''run_started'') = jnat 1" "member ''type'' (sample_event 1 ''run_started'') = JStr ''run_started''"
  "good_event 2 (sample_event 2 ''node_started'')" "9 < length (json_line (sample_event 2 ''node_started''))"
  by code_simp+

definition torn_journal :: journal where
  "torn_journal = (commit sample_sha sample_clock sample_state (sample_draft ''run_started'')
     (first_journal sample_sha sample_state))\<lparr>jn_live := False\<rparr>"

lemma torn_bundle_parts:
  "represents [''run''] torn_bundle torn_journal"
  "torn_tail [''run''] torn_bundle torn_journal (take 9 (json_line (sample_event 2 ''node_started'')))"
  "jn_events torn_journal = [sample_event 1 ''run_started'']"
proof -
  let ?j = "commit sample_sha sample_clock sample_state (sample_draft ''run_started'') (first_journal sample_sha sample_state)"
  let ?b = "snd (writeSnapshot sample_sha [''run''] True sample_clock sample_state (sample_draft ''run_started'') new_sample)"
  have "list_all good_act [Snapshot sample_state (sample_draft ''run_started'') sample_clock]"
    using sample_good(3) by (simp add: sample_acts_def)
  then have b: "represents [''run''] ?b ?j"
    using act_snapshot[OF new_sample sample_sha_safe] by (simp add: first_journal_def MAX_SAFE_INTEGER_def)
  have evs: "jn_events ?j = [sample_event 1 ''run_started'']" "jn_live ?j"
    by (simp_all add: commit_def first_journal_def sample_event_def Let_def)
  have live: "bu_context ?b \<noteq> None" using live_context[OF b] evs(2) by simp
  have n: "length (jn_events ?j) + 1 = 2" using evs(1) by simp
  show "jn_events torn_journal = [sample_event 1 ''run_started'']" using evs(1) by (simp add: torn_journal_def)
  show "represents [''run''] torn_bundle torn_journal"
    unfolding torn_bundle_def torn_journal_def
    by (rule act_torn_line[OF b live sample_sha_safe]) (unfold n, use sample_events(3,4) in \<open>simp_all add: sample_event_def\<close>)
  have "nl \<notin> set (take 9 (json_line (sample_event 2 ''node_started'')))"
    using take_line_no_nl[OF sample_events(3,4)] .
  then show "torn_tail [''run''] torn_bundle torn_journal (take 9 (json_line (sample_event 2 ''node_started'')))"
    using torn_trace[OF b live sample_sha_safe, where k = 9 and d = "sample_draft ''node_started''" and st = sample_state and now = sample_clock]
    unfolding n by (simp add: torn_tail_def torn_bundle_def torn_journal_def sample_event_def)
qed

definition stop_event :: jv where
  "stop_event = event_json 2 sample_clock ''r1'' (interruption ''stopped'')
     (encoded sample_sha ARTIFACT_THRESHOLD_BYTES (JObj [(''error'', JStr ''stopped'')]))"

definition merged_trace :: string where
  "merged_trace = trace_text [sample_event 1 ''run_started''] @ take 9 (json_line (sample_event 2 ''node_started'')) @
     json_line stop_event"

lemma merged_trace_reads:
  "ends_nl merged_trace"
  "read_lines isTraceEventShape (split_on nl merged_trace) = ([sample_event 1 ''run_started''], True)"
  by code_simp+

text \<open>
  interrupting a run that died while it appended an event records a failure nobody can read: the state says
  failed at event two, but the event that says so continues the torn line, and the trace ends at event one
\<close>

theorem interrupt_loses_its_event:
  "\<exists>l b. markRunInterrupted sample_sha [''run''] True sample_clock ''stopped'' torn_bundle = (Inr (Some l), b) \<and>
     field (ld_state l) ''status'' = JStr ''failed'' \<and> field (ld_state l) ''traceSeq'' = jnat 2 \<and>
     nj_records (ld_trace l) = [sample_event 1 ''run_started''] \<and> nj_malformed (ld_trace l)"
proof -
  note parts = torn_bundle_parts
  have n: "length (jn_events torn_journal) = 1" using parts(3) by simp
  have stamped: "jn_state torn_journal = stored_state sample_sha (stamp_state (sample_event 1 ''run_started'') sample_clock sample_state)"
    by (simp add: torn_journal_def commit_def first_journal_def sample_event_def Let_def)
  have one: "int 1 \<le> MAX_SAFE_INTEGER" by (simp add: MAX_SAFE_INTEGER_def)
  have run: "field (jn_state torn_journal) ''status'' = JStr ''running''"
    unfolding stamped by (rule sample_running[OF sample_events(1) one])
  have rid: "run_id_of (jn_state torn_journal) = ''r1''"
    using good_state_stamped(1)[OF sample_good(1) sample_clock_good sample_events(1) one]
    by (simp add: stamped run_id_of_def good_state_def stored_plain_field moved_keys_def del: json_value.simps)
      (simp add: stamp_state_def sample_state_def)
  have room: "int (length (jn_events torn_journal)) < MAX_SAFE_INTEGER" unfolding n by (simp add: MAX_SAFE_INTEGER_def)
  show ?thesis
  proof (rule interrupted_steps[OF parts(1,2) _ sample_sha_safe sample_clock_good run room, of "''stopped''"])
    fix st assume "recoverTerminalProjection (jn_state torn_journal) (last (jn_events torn_journal)) = Some st"
    then show ?thesis using parts(3) sample_events(2)
      by (simp add: recoverTerminalProjection_def terminalStatusForEvent_def)
  next
    fix st ev b'
    assume st: "good_state st" "field st ''traceSeq'' = jnat (length (jn_events torn_journal) + 1)" "field st ''status'' = JStr ''failed''"
      and mark: "markRunInterrupted sample_sha [''run''] True sample_clock ''stopped'' torn_bundle =
        (Inr (readRunBundle [''run''] (bu_disk b')), b')"
      and disk: "bu_disk b' ([''run''] @ [STATE_PATH]) = Some (JsonFile (JObj st))"
        "\<exists>m. bu_disk b' ([''run''] @ [MANIFEST_PATH]) = Some (JsonFile (JObj m)) \<and> good_manifest m"
        "file_text (bu_disk b') ([''run''] @ [TRACE_PATH]) = Some (trace_text (jn_events torn_journal) @
          take 9 (json_line (sample_event 2 ''node_started'')) @ json_line ev)"
      and ev: "ev = event_json (length (jn_events torn_journal) + 1) sample_clock (run_id_of (jn_state torn_journal))
          (interruption ''stopped'') (encoded sample_sha ARTIFACT_THRESHOLD_BYTES (JObj [(''error'', JStr ''stopped'')]))"
    have "ev = stop_event" unfolding ev n rid stop_event_def by (simp only: one_add_one)
    then have "file_text (bu_disk b') ([''run''] @ [TRACE_PATH]) = Some merged_trace"
      using disk(3) parts(3) by (simp only: merged_trace_def)
    then have trace: "readNdjsonFile isTraceEventShape (bu_disk b') ([''run''] @ [TRACE_PATH]) =
        \<lparr>nj_records = [sample_event 1 ''run_started''], nj_exists = True, nj_torn = False, nj_malformed = True\<rparr>"
      using merged_trace_reads by (simp add: readNdjsonFile_def Let_def)
    obtain m where m: "bu_disk b' ([''run''] @ [MANIFEST_PATH]) = Some (JsonFile (JObj m))" "good_manifest m"
      using disk(2) by blast
    have "readRunBundle [''run''] (bu_disk b') = Some (loaded_of [''run''] (bu_disk b') m st)"
      using good_bundle_reads[OF _ disk(1) m st(1)] by simp
    then show ?thesis
      using mark trace st n by (simp add: loaded_of_def numeral_2_eq_2)
  qed simp
qed

section \<open>Files that are written have the shape that is checked\<close>

text \<open>C20: a state that passes the shape check is stored as one that passes it, with the same schema, status and
  sequence number, and its manifest passes the check of manifests; whatever was moved to artifacts\<close>

theorem written_files_keep_shape:
  assumes "json_value (JObj st)" "validateRunStateShape st = None" "field st ''schema'' = JStr RUN_STATE_SCHEMA"
  shows "\<exists>ob m. file_value (JObj (fst (encodeRunState sha st w))) = Some (JObj ob) \<and> validateRunStateShape ob = None \<and>
    (\<forall>k \<in> {''schema'', ''runId'', ''status'', ''traceSeq''}. field ob k = field st k) \<and>
    file_value (JObj (createManifest st bound)) = Some (JObj m) \<and> validateRunManifestShape m = None"
proof -
  have good: "good_state st" using assms by (simp add: good_state_def)
  note manifest = json_value_manifest[OF good, of bound]
  have "file_value (JObj (createManifest st bound)) = Some (JObj (createManifest st bound))"
    using file_value_clean[OF json_value_js_data[OF manifest]] json_clean_value[OF manifest] by simp
  moreover have "validateRunManifestShape (createManifest st bound) = None"
    using good_manifest_created[OF good] by (simp add: good_manifest_def)
  moreover have "\<forall>k \<in> {''schema'', ''runId'', ''status'', ''traceSeq''}. field (stored_state sha st) k = field st k"
    using stored_plain_field[OF assms(1)] by (simp add: moved_keys_def)
  ultimately show ?thesis
    using stored_state_file[OF assms(1)] stored_state_valid[OF assms(1,2)] by (auto simp: encodeRunState_is)
qed

theorem written_files_keep_shape_witness:
  "\<exists>ob m. file_value (JObj (fst (encodeRunState sample_sha sample_state new_writer))) = Some (JObj ob) \<and>
    validateRunStateShape ob = None \<and>
    (\<forall>k \<in> {''schema'', ''runId'', ''status'', ''traceSeq''}. field ob k = field sample_state k) \<and>
    file_value (JObj (createManifest sample_state True)) = Some (JObj m) \<and> validateRunManifestShape m = None"
proof (rule written_files_keep_shape)
  show "json_value (JObj sample_state)" "validateRunStateShape sample_state = None"
    using sample_good(1) by (simp_all add: good_state_def)
  show "field sample_state ''schema'' = JStr RUN_STATE_SCHEMA" by code_simp
qed

end
