(* ===== verification/DecisionPresentation.thy ===== *)
theory DecisionPresentation
  imports Artifacts
begin

text \<open>
  What a human is shown for a decision (src/workflows/decision-presentation.ts): the normalisation of
  an authored presentation, the presentation made from an arbitrary value, the digests that bind a
  request to what was shown, and the segments a channel sends.

  A text below 256 is its own NFC form.  Three characters outside that range stand as unused code
  units: the replacement character as 0x9D, the bullet as 0x95; capitals of 0xB5 and 0xFF, which lie
  outside, are the letters themselves.  The hash is an argument.
\<close>

section \<open>Presentations\<close>

datatype block =
    Paragraph string
  | Section string
  | Bullets "string list"
  | Fields "(string \<times> string) list"
  | Preformatted string

record presentation =
  pr_summary :: string
  pr_blocks :: "block list"

definition MAX_PRESENTATION_CODE_UNITS :: nat where "MAX_PRESENTATION_CODE_UNITS = 64000"
definition MAX_PRESENTATION_BLOCKS :: nat where "MAX_PRESENTATION_BLOCKS = 256"
definition MAX_PRESENTATION_ITEMS :: nat where "MAX_PRESENTATION_ITEMS = 256"
definition MAX_PRESENTATION_STRING_CODE_UNITS :: nat where "MAX_PRESENTATION_STRING_CODE_UNITS = 16000"

lemmas presentation_limits = MAX_PRESENTATION_CODE_UNITS_def MAX_PRESENTATION_BLOCKS_def
  MAX_PRESENTATION_ITEMS_def MAX_PRESENTATION_STRING_CODE_UNITS_def

text \<open>The first component is the label the message starts with.\<close>

datatype presentation_error =
    NotAnObject string
  | MissingFields string "string list"
  | UnknownFields string "string list"
  | WrongSchema
  | BlocksNotArray
  | TooManyBlocks nat
  | TooManyUnits nat
  | UnknownKind string
  | EmptyItems string
  | TooManyItems string nat
  | NotAString string
  | EmptyText string
  | TextTooLong string nat
  | ControlCharacter string
  | IncompatibleState
  | SubjectDigestMismatch
  | PresentationDigestMismatch
  | RequestDigestMismatch
  | EntriesOfUndefined

type_synonym 'a checked = "(presentation_error, 'a) result"

definition or_error :: "('e, 'a) result \<Rightarrow> ('a \<Rightarrow> ('e, 'b) result) \<Rightarrow> ('e, 'b) result" where
  "or_error r f = (case r of Inl e \<Rightarrow> Inl e | Inr a \<Rightarrow> f a)"

lemma or_error_Inr [simp]: "or_error r f = Inr b \<longleftrightarrow> (\<exists>a. r = Inr a \<and> f a = Inr b)"
  by (cases r) (simp_all add: or_error_def)

lemma or_error_simps [simp]: "or_error (Inl e) f = Inl e" "or_error (Inr a) f = f a"
  by (simp_all add: or_error_def)

section \<open>Normalisation\<close>

definition requireRecord :: "jv \<Rightarrow> string \<Rightarrow> jv obj checked" where
  "requireRecord v label = (case v of JObj ob \<Rightarrow> Inr ob | JExotic \<Rightarrow> Inr [] | _ \<Rightarrow> Inl (NotAnObject label))"

definition requireExactKeys :: "jv obj \<Rightarrow> string list \<Rightarrow> string \<Rightarrow> unit checked" where
  "requireExactKeys ob allowed label =
     (let extras = filter (\<lambda>k. k \<notin> set allowed) (obj_keys ob);
          missing = filter (\<lambda>k. \<not> has_own ob k) allowed in
      if missing \<noteq> [] then Inl (MissingFields label missing)
      else if extras \<noteq> [] then Inl (UnknownFields label extras) else Inr ())"

fun replace_crlf :: "string \<Rightarrow> string" where
  "replace_crlf (c # d # cs) = (if c = CHR 0x0D \<and> d = CHR 0x0A then CHR 0x0A # replace_crlf cs
     else c # replace_crlf (d # cs))"
| "replace_crlf cs = cs"

definition unix_lines :: "string \<Rightarrow> string" where
  "unix_lines s = map (\<lambda>c. if c = CHR 0x0D then CHR 0x0A else c) (replace_crlf s)"

definition isControlCode :: "nat \<Rightarrow> bool \<Rightarrow> bool" where
  "isControlCode code allowLineAndTab =
     (if allowLineAndTab \<and> (code = 9 \<or> code = 10) then False else code \<le> 31 \<or> code = 127)"

definition hasControlCharacter :: "string \<Rightarrow> bool \<Rightarrow> bool" where
  "hasControlCharacter s allowLineAndTab = list_ex (\<lambda>c. isControlCode (code_of c) allowLineAndTab) s"

definition normalizeString :: "jv \<Rightarrow> string \<Rightarrow> string checked" where
  "normalizeString v label = (case v of
     JStr s \<Rightarrow> (let text = unix_lines s in
       if trim text = [] then Inl (EmptyText label)
       else if MAX_PRESENTATION_STRING_CODE_UNITS < length text then Inl (TextTooLong label (length text))
       else Inr text)
   | _ \<Rightarrow> Inl (NotAString label))"

definition normalizeDisplayString :: "jv \<Rightarrow> string \<Rightarrow> string checked" where
  "normalizeDisplayString v label = or_error (normalizeString v label) (\<lambda>text.
     if hasControlCharacter text False then Inl (ControlCharacter label) else Inr text)"

definition normalizeMultilineString :: "jv \<Rightarrow> string \<Rightarrow> string checked" where
  "normalizeMultilineString v label = or_error (normalizeString v label) (\<lambda>text.
     if hasControlCharacter text True then Inl (ControlCharacter label) else Inr text)"

definition item_label :: "string \<Rightarrow> nat \<Rightarrow> string" where
  "item_label label i = label @ '' item '' @ nat_dec (i + 1)"

definition normalizeItems :: "jv \<Rightarrow> string \<Rightarrow> (jv \<Rightarrow> string \<Rightarrow> 'a checked) \<Rightarrow> 'a list checked" where
  "normalizeItems v label each = (case v of
     JArr vs \<Rightarrow> if vs = [] then Inl (EmptyItems label)
       else if MAX_PRESENTATION_ITEMS < length vs then Inl (TooManyItems label (length vs))
       else seq_items (map (\<lambda>(i, item). each item (item_label label i)) (enumerate 0 vs))
   | _ \<Rightarrow> Inl (EmptyItems label))"

definition normalizeField :: "jv \<Rightarrow> string \<Rightarrow> (string \<times> string) checked" where
  "normalizeField item label = or_error (requireRecord item label) (\<lambda>ob.
     or_error (requireExactKeys ob [''label'', ''value''] label) (\<lambda>_.
     or_error (normalizeDisplayString (field ob ''label'') (label @ '' label'')) (\<lambda>l.
     or_error (normalizeDisplayString (field ob ''value'') (label @ '' value'')) (\<lambda>v. Inr (l, v)))))"

definition normalizeBlock :: "jv \<Rightarrow> string \<Rightarrow> block checked" where
  "normalizeBlock value label = or_error (requireRecord value label) (\<lambda>ob.
     if field ob ''kind'' = JStr ''paragraph'' then
       or_error (requireExactKeys ob [''kind'', ''text''] label) (\<lambda>_.
         or_error (normalizeMultilineString (field ob ''text'') (label @ '' text'')) (\<lambda>t. Inr (Paragraph t)))
     else if field ob ''kind'' = JStr ''section'' then
       or_error (requireExactKeys ob [''kind'', ''title''] label) (\<lambda>_.
         or_error (normalizeDisplayString (field ob ''title'') (label @ '' title'')) (\<lambda>t. Inr (Section t)))
     else if field ob ''kind'' = JStr ''bullets'' then
       or_error (requireExactKeys ob [''kind'', ''items''] label) (\<lambda>_.
         or_error (normalizeItems (field ob ''items'') (label @ '' items'') normalizeDisplayString) (\<lambda>ts. Inr (Bullets ts)))
     else if field ob ''kind'' = JStr ''fields'' then
       or_error (requireExactKeys ob [''kind'', ''items''] label) (\<lambda>_.
         or_error (normalizeItems (field ob ''items'') (label @ '' items'') normalizeField) (\<lambda>fs. Inr (Fields fs)))
     else if field ob ''kind'' = JStr ''preformatted'' then
       or_error (requireExactKeys ob [''kind'', ''text''] label) (\<lambda>_.
         or_error (normalizeMultilineString (field ob ''text'') (label @ '' text'')) (\<lambda>t. Inr (Preformatted t)))
     else Inl (UnknownKind label))"

fun presentationBlockCodeUnits :: "block \<Rightarrow> nat" where
  "presentationBlockCodeUnits (Paragraph t) = length t"
| "presentationBlockCodeUnits (Section t) = length t"
| "presentationBlockCodeUnits (Bullets ts) = sum_list (map length ts)"
| "presentationBlockCodeUnits (Fields fs) = sum_list (map (\<lambda>(l, v). length l + length v) fs)"
| "presentationBlockCodeUnits (Preformatted t) = length t"

definition presentationCodeUnits :: "presentation \<Rightarrow> nat" where
  "presentationCodeUnits p = length (pr_summary p) + sum_list (map presentationBlockCodeUnits (pr_blocks p))"

definition PRESENTATION_SCHEMA :: string where
  "PRESENTATION_SCHEMA = ''pi-workflows.decision-presentation.v1''"

definition block_label :: "nat \<Rightarrow> string" where
  "block_label i = ''Decision presentation block '' @ nat_dec (i + 1)"

definition normalizeDecisionPresentation :: "jv \<Rightarrow> presentation checked" where
  "normalizeDecisionPresentation value = or_error (requireRecord value ''Decision presentation'') (\<lambda>ob.
     or_error (requireExactKeys ob [''schema'', ''summary'', ''blocks''] ''Decision presentation'') (\<lambda>_.
     if field ob ''schema'' \<noteq> JStr PRESENTATION_SCHEMA then Inl WrongSchema
     else or_error (normalizeDisplayString (field ob ''summary'') ''Decision presentation summary'') (\<lambda>summary.
     case field ob ''blocks'' of
       JArr vs \<Rightarrow>
         if MAX_PRESENTATION_BLOCKS < length vs then Inl (TooManyBlocks (length vs))
         else or_error (seq_items (map (\<lambda>(i, v). normalizeBlock v (block_label i)) (enumerate 0 vs))) (\<lambda>blocks.
           let normalized = \<lparr>pr_summary = summary, pr_blocks = blocks\<rparr> in
           if MAX_PRESENTATION_CODE_UNITS < presentationCodeUnits normalized
           then Inl (TooManyUnits (presentationCodeUnits normalized)) else Inr normalized)
     | _ \<Rightarrow> Inl BlocksNotArray)))"

text \<open>The object a normalised presentation is.\<close>

fun block_json :: "block \<Rightarrow> jv" where
  "block_json (Paragraph t) = JObj [(''kind'', JStr ''paragraph''), (''text'', JStr t)]"
| "block_json (Section t) = JObj [(''kind'', JStr ''section''), (''title'', JStr t)]"
| "block_json (Bullets ts) = JObj [(''kind'', JStr ''bullets''), (''items'', JArr (map JStr ts))]"
| "block_json (Fields fs) = JObj [(''kind'', JStr ''fields''), (''items'',
     JArr (map (\<lambda>(l, v). JObj [(''label'', JStr l), (''value'', JStr v)]) fs))]"
| "block_json (Preformatted t) = JObj [(''kind'', JStr ''preformatted''), (''text'', JStr t)]"

definition presentation_json :: "presentation \<Rightarrow> jv" where
  "presentation_json p = JObj [(''schema'', JStr PRESENTATION_SCHEMA), (''summary'', JStr (pr_summary p)),
     (''blocks'', JArr (map block_json (pr_blocks p)))]"

section \<open>Digests\<close>

fun sortJson :: "jv \<Rightarrow> jv" where
  "sortJson (JArr vs) = JArr (map sortJson vs)"
| "sortJson (JObj kvs) = JObj (mk_obj (sort_key fst (map (\<lambda>(k, v). (k, sortJson v)) kvs)))"
| "sortJson JExotic = JObj []"
| "sortJson v = v"

definition canonical_text :: "jv \<Rightarrow> string" where
  "canonical_text v = (case json_text (sortJson v) of None \<Rightarrow> ''undefined'' | Some t \<Rightarrow> t)"

definition digestCanonical :: "(string \<Rightarrow> string) \<Rightarrow> jv \<Rightarrow> string" where
  "digestCanonical sha256 v = ''sha256:'' @ sha256 (canonical_text v @ [CHR 0x0A])"

definition decisionPresentationDigest :: "(string \<Rightarrow> string) \<Rightarrow> jv \<Rightarrow> string checked" where
  "decisionPresentationDigest sha256 v =
     or_error (normalizeDecisionPresentation v) (\<lambda>p. Inr (digestCanonical sha256 (presentation_json p)))"

section \<open>Presenting a value\<close>

definition REPLACEMENT :: char where "REPLACEMENT = CHR 0x9D"

definition sanitizeValueText :: "string \<Rightarrow> string" where
  "sanitizeValueText s = map (\<lambda>c. if isControlCode (code_of c) True then REPLACEMENT else c) (unix_lines s)"

text \<open>\<open>replaceAll\<close> of every maximal run of a class by one space.\<close>

function spaced :: "(char \<Rightarrow> bool) \<Rightarrow> string \<Rightarrow> string" where
  "spaced p [] = []"
| "spaced p (c # cs) = (if p c then CHR '' '' # spaced p (dropWhile p cs) else c # spaced p cs)"
  by pat_completeness auto
termination
  by (relation "measure (\<lambda>(p, s). length s)") (auto simp: le_imp_less_Suc length_dropWhile_le)

text \<open>\<open>replaceAll(/([a-z0-9])([A-Z])/gu, "$1 $2")\<close>\<close>

fun uncamel :: "string \<Rightarrow> string" where
  "uncamel (c # d # cs) = (if (is_lower c \<or> is_digit c) \<and> is_upper d then c # CHR '' '' # uncamel (d # cs)
     else c # uncamel (d # cs))"
| "uncamel cs = cs"

definition toUpperCase :: "char \<Rightarrow> string" where
  "toUpperCase c = (if code_of c = 223 then ''SS''
     else if is_lower c \<or> (224 \<le> code_of c \<and> code_of c \<le> 254 \<and> code_of c \<noteq> 247) then [char_of (code_of c - 32)]
     else [c])"

definition valueLabel :: "string \<Rightarrow> string" where
  "valueLabel v = (let s = trim (spaced is_js_space (uncamel (spaced (\<lambda>c. c = CHR ''_'' \<or> c = CHR ''-'') (sanitizeValueText v)))) in
     case s of [] \<Rightarrow> ''Value'' | c # cs \<Rightarrow> toUpperCase c @ cs)"

text \<open>\<open>String(value)\<close> of a number.\<close>

fun number_string :: "jnum \<Rightarrow> string" where
  "number_string (NumFin t) = t"
| "number_string NumNegZero = ''0''"
| "number_string NumNaN = ''NaN''"
| "number_string (NumInf neg) = (if neg then ''-Infinity'' else ''Infinity'')"

fun isScalar :: "jv \<Rightarrow> bool" where
  "isScalar JNull = True"
| "isScalar (JStr s) = True"
| "isScalar (JNum n) = True"
| "isScalar (JBool b) = True"
| "isScalar v = False"

fun valueScalar :: "jv \<Rightarrow> string" where
  "valueScalar JNull = ''None''"
| "valueScalar (JBool b) = (if b then ''Yes'' else ''No'')"
| "valueScalar (JNum n) = sanitizeValueText (number_string n)"
| "valueScalar (JStr s) = sanitizeValueText s"
| "valueScalar v = []"

text \<open>Slices of \<open>n\<close> items; no code unit below 256 is half of a surrogate pair.\<close>

function chunks :: "nat \<Rightarrow> 'a list \<Rightarrow> 'a list list" where
  "chunks n xs = (if xs = [] \<or> n = 0 then [] else take n xs # chunks n (drop n xs))"
  by pat_completeness auto
termination
  by (relation "measure (\<lambda>(n, xs). length xs)") auto

declare chunks.simps [simp del]

definition splitByCodeUnits :: "string \<Rightarrow> nat \<Rightarrow> string list" where
  "splitByCodeUnits s limit = (if length s \<le> limit then [s] else chunks limit s)"

definition appendValueText :: "string \<Rightarrow> string \<Rightarrow> block list" where
  "appendValueText v section_title = Section section_title #
     map (\<lambda>part. Paragraph (if trim part = [] then ''None'' else part))
       (splitByCodeUnits (sanitizeValueText v) MAX_PRESENTATION_STRING_CODE_UNITS)"

definition short_scalar :: "jv \<Rightarrow> bool" where
  "short_scalar v \<longleftrightarrow> isScalar v \<and> length (valueScalar v) \<le> MAX_PRESENTATION_STRING_CODE_UNITS"

definition append_scalar :: "jv \<Rightarrow> string option \<Rightarrow> block list" where
  "append_scalar v label = (let scalar = valueScalar v in case label of
     None \<Rightarrow> appendValueText scalar ''Decision details''
   | Some l \<Rightarrow> if MAX_PRESENTATION_STRING_CODE_UNITS < length scalar then appendValueText scalar (valueLabel l)
       else [Fields [(valueLabel l, scalar)]])"

definition titled :: "string option \<Rightarrow> block list" where
  "titled label = (case label of None \<Rightarrow> [] | Some l \<Rightarrow> [Section (valueLabel l)])"

definition value_fields :: "jv obj \<Rightarrow> (string \<times> string) list" where
  "value_fields kvs = map (\<lambda>(k, v). (valueLabel k, valueScalar v))
     (filter (\<lambda>(k, v). short_scalar v) (sort_key fst kvs))"

lemma member_size [termination_simp]:
  "(k, v) \<in> set kvs \<Longrightarrow> size v < Suc (size_list (size_prod (\<lambda>x. 0) size) kvs)"
  by (induction kvs) auto

fun appendValue :: "jv \<Rightarrow> string option \<Rightarrow> block list checked" where
  "appendValue (JArr vs) label =
     (if vs = [] then Inr (titled label @ [Paragraph ''None''])
      else if list_all short_scalar vs
      then Inr (titled label @ map Bullets (chunks MAX_PRESENTATION_ITEMS (map valueScalar vs)))
      else or_error (seq_items (map (\<lambda>(i, v). appendValue v (Some (''Item '' @ nat_dec (i + 1)))) (enumerate 0 vs)))
        (\<lambda>bs. Inr (titled label @ concat bs)))"
| "appendValue (JObj kvs) label =
     (if kvs = [] then Inr (titled label @ [Paragraph ''None''])
      else or_error (seq_items (map snd (sort_key fst
          (map (\<lambda>(k, v). (k, appendValue v (Some k))) (filter (\<lambda>(k, v). \<not> short_scalar v) kvs)))))
        (\<lambda>bs. Inr (titled label @ map Fields (chunks MAX_PRESENTATION_ITEMS (value_fields kvs)) @ concat bs)))"
| "appendValue JUndef label = Inl EntriesOfUndefined"
| "appendValue JFun label = Inr (titled label @ [Paragraph ''None''])"
| "appendValue JExotic label = Inr (titled label @ [Paragraph ''None''])"
| "appendValue v label = Inr (append_scalar v label)"

fun valueBlockFitsSchema :: "block \<Rightarrow> bool" where
  "valueBlockFitsSchema (Paragraph t) = (length t \<le> MAX_PRESENTATION_STRING_CODE_UNITS)"
| "valueBlockFitsSchema (Preformatted t) = (length t \<le> MAX_PRESENTATION_STRING_CODE_UNITS)"
| "valueBlockFitsSchema (Section t) = (length t \<le> MAX_PRESENTATION_STRING_CODE_UNITS)"
| "valueBlockFitsSchema (Bullets ts) = list_all (\<lambda>t. length t \<le> MAX_PRESENTATION_STRING_CODE_UNITS) ts"
| "valueBlockFitsSchema (Fields fs) = list_all (\<lambda>(l, v). length l \<le> MAX_PRESENTATION_STRING_CODE_UNITS \<and>
     length v \<le> MAX_PRESENTATION_STRING_CODE_UNITS) fs"

definition omission :: "(string \<Rightarrow> string) \<Rightarrow> nat \<Rightarrow> jv \<Rightarrow> string" where
  "omission sha256 generated v = ''Some decision content is not shown because it exceeds the readable presentation limit. Inspect the canonical source value before answering. Value digest: '' @
     digestCanonical sha256 v @ ''. Original value: '' @ nat_dec (length (canonical_text v)) @
     '' UTF-16 code units. Generated blocks: '' @ nat_dec generated @ ''.''"

text \<open>The loop over the blocks: what is kept, the units used, and whether a block was left out.\<close>

definition keep_block :: "int \<Rightarrow> block \<Rightarrow> block list \<times> nat \<times> bool \<Rightarrow> block list \<times> nat \<times> bool" where
  "keep_block budget b st = (case st of (kept, used, omitted) \<Rightarrow>
     if MAX_PRESENTATION_BLOCKS \<le> length kept \<or> \<not> valueBlockFitsSchema b \<or>
        budget < int (used + presentationBlockCodeUnits b)
     then (kept, used, True)
     else (kept @ [b], used + presentationBlockCodeUnits b, omitted))"

definition boundValuePresentation :: "(string \<Rightarrow> string) \<Rightarrow> string \<Rightarrow> block list \<Rightarrow> jv \<Rightarrow> presentation" where
  "boundValuePresentation sha256 summary blocks v =
     (let candidate = \<lparr>pr_summary = summary, pr_blocks = blocks\<rparr> in
      if length blocks \<le> MAX_PRESENTATION_BLOCKS \<and> list_all valueBlockFitsSchema blocks \<and>
         presentationCodeUnits candidate \<le> MAX_PRESENTATION_CODE_UNITS
      then candidate
      else let note = omission sha256 (length blocks) v;
               budget = int MAX_PRESENTATION_CODE_UNITS - int (length summary) - int (length note) in
        case fold (keep_block budget) blocks ([], 0, False) of (kept, used, omitted) \<Rightarrow>
          \<lparr>pr_summary = summary, pr_blocks =
             (if omitted then (if MAX_PRESENTATION_BLOCKS \<le> length kept then butlast kept else kept) @ [Paragraph note]
              else kept)\<rparr>)"

definition value_blocks :: "jv \<Rightarrow> block list checked" where
  "value_blocks v = (case v of JStr s \<Rightarrow> Inr (appendValueText s ''Decision details'') | _ \<Rightarrow> appendValue v None)"

definition value_summary :: "jv \<Rightarrow> string" where
  "value_summary v = (case v of JStr s \<Rightarrow> ''Review the decision message below.''
     | _ \<Rightarrow> ''Review the decision details below.'')"

definition valueDecisionPresentation :: "(string \<Rightarrow> string) \<Rightarrow> jv \<Rightarrow> presentation checked" where
  "valueDecisionPresentation sha256 v = or_error (value_blocks v) (\<lambda>blocks.
     normalizeDecisionPresentation (presentation_json (boundValuePresentation sha256 (value_summary v) blocks v)))"

section \<open>Requests\<close>

text \<open>
  The shared records of src/workflows/types.ts.  A choice asks for no input or for one text; a
  length limit is a JavaScript number.  A presentation is kept as the object it is on disk.
\<close>

record text_input =
  ti_name :: string
  ti_prompt :: string
  ti_min :: jnum
  ti_max :: jnum

record human_choice =
  hc_label :: string
  hc_input :: "text_input option"

type_synonym choice_map = "human_choice obj"

record decision_response =
  rp_choice :: string
  rp_input :: "(string \<times> string) option"

record request =
  rq_id :: string
  rq_digest :: string
  rq_run :: string
  rq_workflow :: string
  rq_node :: string
  rq_attempt :: string
  rq_audience :: string
  rq_title :: string
  rq_choices :: choice_map
  rq_created :: string
  rq_expires :: "string option"
  rq_default :: "decision_response option"
  rq_subject :: jv
  rq_presentation :: jv
  rq_revision :: nat
  rq_subject_digest :: string
  rq_presentation_digest :: string

definition REQUEST_SCHEMA :: string where
  "REQUEST_SCHEMA = ''pi-workflows.human-decision-request.v1''"

definition input_json :: "text_input \<Rightarrow> jv" where
  "input_json i = JObj [(''kind'', JStr ''text''), (''name'', JStr (ti_name i)), (''prompt'', JStr (ti_prompt i)),
     (''minLength'', JNum (ti_min i)), (''maxLength'', JNum (ti_max i))]"

definition choice_json :: "human_choice \<Rightarrow> jv" where
  "choice_json c = JObj ((''label'', JStr (hc_label c)) #
     (case hc_input c of None \<Rightarrow> [] | Some i \<Rightarrow> [(''input'', input_json i)]))"

definition choices_json :: "choice_map \<Rightarrow> jv" where
  "choices_json cs = JObj (map (\<lambda>(k, c). (k, choice_json c)) cs)"

definition response_json :: "decision_response \<Rightarrow> jv" where
  "response_json r = JObj ((''choice'', JStr (rp_choice r)) #
     (case rp_input r of None \<Rightarrow> [] | Some (k, t) \<Rightarrow> [(''input'', JObj [(k, JStr t)])]))"

definition optional_field :: "string \<Rightarrow> jv option \<Rightarrow> (string \<times> jv) list" where
  "optional_field k v = (case v of None \<Rightarrow> [] | Some x \<Rightarrow> [(k, x)])"

text \<open>What the request digest covers: everything except the digests, the id and the creation time.\<close>

definition request_basis :: "request \<Rightarrow> presentation \<Rightarrow> jv" where
  "request_basis r p = JObj ([(''schema'', JStr REQUEST_SCHEMA), (''runId'', JStr (rq_run r)),
     (''workflowName'', JStr (rq_workflow r)), (''nodeId'', JStr (rq_node r)), (''attemptId'', JStr (rq_attempt r)),
     (''audience'', JStr (rq_audience r)), (''title'', JStr (rq_title r)), (''choices'', choices_json (rq_choices r))] @
     optional_field ''expiresAt'' (map_option JStr (rq_expires r)) @
     optional_field ''defaultResponse'' (map_option response_json (rq_default r)) @
     [(''subject'', rq_subject r), (''presentation'', presentation_json p), (''revision'', jnat (rq_revision r))])"

text \<open>A request whose record has the current fields; one of an older schema is \<open>IncompatibleState\<close> when read.\<close>

definition validateHumanDecisionRequestIntegrity :: "(string \<Rightarrow> string) \<Rightarrow> request \<Rightarrow> request checked" where
  "validateHumanDecisionRequestIntegrity sha256 r =
     or_error (normalizeDecisionPresentation (rq_presentation r)) (\<lambda>p.
       if digestCanonical sha256 (rq_subject r) \<noteq> rq_subject_digest r then Inl SubjectDigestMismatch
       else if digestCanonical sha256 (presentation_json p) \<noteq> rq_presentation_digest r then Inl PresentationDigestMismatch
       else if digestCanonical sha256 (request_basis r p) \<noteq> rq_digest r then Inl RequestDigestMismatch
       else Inr r)"

record channel_request =
  cr_id :: string
  cr_digest :: string
  cr_run :: string
  cr_workflow :: string
  cr_node :: string
  cr_attempt :: string
  cr_audience :: string
  cr_title :: string
  cr_presentation :: presentation
  cr_presentation_digest :: string
  cr_revision :: nat
  cr_choices :: choice_map
  cr_created :: string
  cr_expires :: "string option"
  cr_default :: "decision_response option"

definition humanDecisionChannelRequest :: "(string \<Rightarrow> string) \<Rightarrow> request \<Rightarrow> channel_request checked" where
  "humanDecisionChannelRequest sha256 r =
     or_error (validateHumanDecisionRequestIntegrity sha256 r) (\<lambda>_.
     or_error (normalizeDecisionPresentation (rq_presentation r)) (\<lambda>p.
     or_error (decisionPresentationDigest sha256 (presentation_json p)) (\<lambda>digest.
       Inr \<lparr>cr_id = rq_id r, cr_digest = rq_digest r, cr_run = rq_run r, cr_workflow = rq_workflow r,
         cr_node = rq_node r, cr_attempt = rq_attempt r, cr_audience = rq_audience r, cr_title = rq_title r,
         cr_presentation = p, cr_presentation_digest = digest, cr_revision = rq_revision r,
         cr_choices = rq_choices r, cr_created = rq_created r, cr_expires = rq_expires r,
         cr_default = rq_default r\<rparr>)))"

section \<open>What a channel sends\<close>

definition BULLET :: string where "BULLET = [CHR 0x95, CHR '' '']"

definition LF :: string where "LF = [CHR 0x0A]"

text \<open>The kind of a segment and its text.\<close>

fun block_segment :: "block \<Rightarrow> string \<times> string" where
  "block_segment (Paragraph t) = (''paragraph'', t)"
| "block_segment (Section t) = (''section'', t)"
| "block_segment (Bullets ts) = (''bullets'', join_with LF (map (\<lambda>t. BULLET @ t) ts))"
| "block_segment (Fields fs) = (''fields'', join_with LF (map (\<lambda>(l, v). l @ '': '' @ v) fs))"
| "block_segment (Preformatted t) = (''preformatted'', t)"

definition choice_line :: "human_choice \<Rightarrow> string" where
  "choice_line c = (case hc_input c of None \<Rightarrow> BULLET @ hc_label c
     | Some i \<Rightarrow> BULLET @ hc_label c @ LF @ ''  '' @ ti_prompt i)"

definition default_segment :: "channel_request \<Rightarrow> (string \<times> string) list" where
  "default_segment r = (case (cr_expires r, cr_default r) of
     (Some at, Some d) \<Rightarrow> [(''paragraph'', ''If no answer is accepted by '' @ at @
       '', this decision continues automatically with: '' @
       (case obj_get (cr_choices r) (rp_choice d) of None \<Rightarrow> rp_choice d | Some c \<Rightarrow> hc_label c) @ ''.'')]
   | _ \<Rightarrow> [])"

definition decisionDocumentSegments :: "channel_request \<Rightarrow> (string \<times> string) list" where
  "decisionDocumentSegments r =
     [(''title'', cr_title r), (''summary'', pr_summary (cr_presentation r))] @
     map block_segment (pr_blocks (cr_presentation r)) @ default_segment r @
     [(''choices'', ''Choices'' @ LF @ join_with LF (map (\<lambda>(k, c). choice_line c) (cr_choices r)))]"

definition decisionPresentationFingerprint :: "channel_request \<Rightarrow> string" where
  "decisionPresentationFingerprint r = take 12 (drop 7 (cr_presentation_digest r))"

end
