(* ===== verification/WriteOnce.thy ===== *)
theory WriteOnce
  imports Prelude
begin

text \<open>
  Files that are linked into place once and never change.  An operation is a program of atomic
  steps: \<open>fs.link\<close> of a complete file, which fails when the name exists, and reading a file.  Several
  operations run interleaved at these steps; one that crashed takes no further step.  The locale
  gives the proof rule: an operation that is safe whatever the others add stays safe, and what it
  reports when it returns stays true.
\<close>

section \<open>Programs\<close>

datatype ('p, 'c, 'a) prog =
    Ret 'a
  | LinkFile 'p 'c "bool \<Rightarrow> ('p, 'c, 'a) prog"
  | ReadFile 'p "'c option \<Rightarrow> ('p, 'c, 'a) prog"

text \<open>A directory tree: the files in the order they were created.\<close>

type_synonym ('p, 'c) tree = "('p \<times> 'c) list"

definition present :: "('p, 'c) tree \<Rightarrow> 'p \<Rightarrow> bool" where
  "present d p \<longleftrightarrow> map_of d p \<noteq> None"

definition link_file :: "'p \<Rightarrow> 'c \<Rightarrow> ('p, 'c) tree \<Rightarrow> ('p, 'c) tree" where
  "link_file p c d = (if present d p then d else d @ [(p, c)])"

text \<open>One operation running alone.\<close>

primrec exec :: "('p, 'c, 'a) prog \<Rightarrow> ('p, 'c) tree \<Rightarrow> 'a \<times> ('p, 'c) tree" where
  "exec (Ret a) d = (a, d)"
| "exec (LinkFile p c k) d = exec (k (\<not> present d p)) (link_file p c d)"
| "exec (ReadFile p k) d = exec (k (map_of d p)) d"

inductive prog_step :: "('p, 'c, 'a) prog \<times> ('p, 'c) tree \<Rightarrow> ('p, 'c, 'a) prog \<times> ('p, 'c) tree \<Rightarrow> bool" where
  link_step: "prog_step (LinkFile p c k, d) (k (\<not> present d p), link_file p c d)"
| read_step: "prog_step (ReadFile p k, d) (k (map_of d p), d)"

inductive_cases link_stepE: "prog_step (LinkFile p c k, d) s"
inductive_cases read_stepE: "prog_step (ReadFile p k, d) s"
inductive_cases ret_stepE: "prog_step (Ret a, d) s"

text \<open>A number of operations at once: any of them takes the next step.\<close>

inductive interleave :: "('p, 'c, 'a) prog list \<Rightarrow> ('p, 'c) tree \<Rightarrow> ('p, 'c, 'a) prog list \<Rightarrow> ('p, 'c) tree \<Rightarrow> bool" where
  stop: "interleave ps d ps d"
| turn: "i < length ps \<Longrightarrow> prog_step (ps ! i, d) (p', d') \<Longrightarrow> interleave (ps[i := p']) d' qs d'' \<Longrightarrow>
    interleave ps d qs d''"

lemma interleave_trans: "interleave ps d qs d' \<Longrightarrow> interleave qs d' rs d'' \<Longrightarrow> interleave ps d rs d''"
  by (induction rule: interleave.induct) (auto intro: interleave.turn)

text \<open>An operation that runs to its end while the others wait.\<close>

lemma interleave_exec:
  "i < length ps \<Longrightarrow> ps ! i = p \<Longrightarrow> exec p d = (a, d') \<Longrightarrow> interleave ps d (ps[i := Ret a]) d'"
proof (induction p arbitrary: ps d)
  case (Ret b)
  then have "ps[i := Ret a] = ps" "d' = d" by (auto simp: list_update_same_conv)
  then show ?case using interleave.stop by metis
next
  case (LinkFile p c k)
  let ?ps = "ps[i := k (\<not> present d p)]"
  have "interleave ?ps (link_file p c d) (?ps[i := Ret a]) d'"
    using LinkFile.IH[OF rangeI, of ?ps] LinkFile.prems by simp
  then show ?case
    using LinkFile.prems(1,2) by (intro interleave.turn[of i ps d _ "link_file p c d"]) (simp_all add: link_step)
next
  case (ReadFile p k)
  let ?ps = "ps[i := k (map_of d p)]"
  have "interleave ?ps d (?ps[i := Ret a]) d'"
    using ReadFile.IH[OF rangeI, of ?ps] ReadFile.prems by simp
  then show ?case
    using ReadFile.prems(1,2) by (intro interleave.turn[of i ps d _ d]) (simp_all add: read_step)
qed

definition extends :: "('p, 'c) tree \<Rightarrow> ('p, 'c) tree \<Rightarrow> bool" where
  "extends d d' \<longleftrightarrow> map_of d \<subseteq>\<^sub>m map_of d'"

lemma extends_refl [simp]: "extends d d"
  by (simp add: extends_def)

lemma extends_trans: "extends d d' \<Longrightarrow> extends d' d'' \<Longrightarrow> extends d d''"
  unfolding extends_def by (rule map_le_trans)

lemma extendsD: "extends d d' \<Longrightarrow> map_of d p = Some c \<Longrightarrow> map_of d' p = Some c"
  by (metis extends_def map_le_def domI)

lemma map_of_link:
  "map_of (link_file p c d) q = (if q = p \<and> \<not> present d p then Some c else map_of d q)"
  by (auto simp: link_file_def present_def map_add_def split: option.split)

lemma extends_link [simp]: "extends d (link_file p c d)"
  by (auto simp: extends_def map_le_def map_of_link present_def)

lemma present_link: "map_of (link_file p c d) p = Some (case map_of d p of None \<Rightarrow> c | Some c' \<Rightarrow> c')"
  by (auto simp: map_of_link present_def split: option.split)

section \<open>The proof rule\<close>

locale write_once =
  fixes inv :: "('p, 'c) tree \<Rightarrow> bool"
    and post :: "'a \<Rightarrow> ('p, 'c) tree \<Rightarrow> bool"
  assumes post_stable: "post a d \<Longrightarrow> extends d d' \<Longrightarrow> post a d'"
begin

primrec safe :: "('p, 'c, 'a) prog \<Rightarrow> ('p, 'c) tree \<Rightarrow> bool" where
  "safe (Ret a) = (\<lambda>d. post a d)"
| "safe (LinkFile p c k) = (\<lambda>d. \<forall>d'. extends d d' \<longrightarrow> inv d' \<longrightarrow>
     inv (link_file p c d') \<and> safe (k (\<not> present d' p)) (link_file p c d'))"
| "safe (ReadFile p k) = (\<lambda>d. \<forall>d'. extends d d' \<longrightarrow> inv d' \<longrightarrow> safe (k (map_of d' p)) d')"

lemma safe_mono: "safe p d \<Longrightarrow> extends d d' \<Longrightarrow> safe p d'"
  by (cases p) (auto intro: post_stable extends_trans)

lemma safe_step:
  assumes "prog_step (p, d) (p', d')" and "safe p d" and "inv d"
  shows "inv d' \<and> safe p' d' \<and> extends d d'"
  using assms(1)
proof cases
  case (link_step q c k)
  have "extends d d \<longrightarrow> inv d \<longrightarrow> inv (link_file q c d) \<and> safe (k (\<not> present d q)) (link_file q c d)"
    using assms(2) unfolding link_step(1) safe.simps by (rule spec)
  then show ?thesis using link_step assms(3) by simp
next
  case (read_step q k)
  have "extends d d \<longrightarrow> inv d \<longrightarrow> safe (k (map_of d q)) d"
    using assms(2) unfolding read_step(1) safe.simps by (rule spec)
  then show ?thesis using read_step assms(3) by simp
qed

lemma interleave_safe:
  "interleave ps d qs d' \<Longrightarrow> inv d \<Longrightarrow> \<forall>p \<in> set ps. safe p d \<Longrightarrow>
    inv d' \<and> (\<forall>q \<in> set qs. safe q d') \<and> extends d d'"
proof (induction rule: interleave.induct)
  case (turn i ps d p' d' qs d'')
  have "safe (ps ! i) d" using turn.prems(2) turn.hyps(1) by simp
  note step = safe_step[OF turn.hyps(2) this turn.prems(1)]
  have "safe p d'" if "p \<in> set (ps[i := p'])" for p
  proof -
    have "p = p' \<or> p \<in> set ps" using that set_update_subset_insert by fastforce
    then show ?thesis using step turn.prems(2) safe_mono by metis
  qed
  then have "inv d'' \<and> (\<forall>q \<in> set qs. safe q d'') \<and> extends d' d''" using turn.IH step by blast
  then show ?case using step extends_trans by blast
qed simp

text \<open>What any finished operation reports holds of the tree at the end, whatever ran in between.\<close>

lemma reports_hold:
  assumes "interleave ps d qs d'" and "inv d" and "\<forall>p \<in> set ps. safe p d"
  shows "inv d'" and "Ret a \<in> set qs \<Longrightarrow> post a d'"
  using interleave_safe[OF assms] by auto

lemma exec_safe: "safe p d \<Longrightarrow> inv d \<Longrightarrow> exec p d = (a, d') \<Longrightarrow> inv d' \<and> post a d' \<and> extends d d'"
proof (induction p arbitrary: d)
  case (Ret b)
  then show ?case by simp
next
  case (LinkFile p c k)
  have "extends d d \<longrightarrow> inv d \<longrightarrow> inv (link_file p c d) \<and> safe (k (\<not> present d p)) (link_file p c d)"
    using LinkFile.prems(1) unfolding safe.simps by (rule spec)
  then have "inv (link_file p c d)" "safe (k (\<not> present d p)) (link_file p c d)"
    using LinkFile.prems(2) by simp_all
  then have "inv d' \<and> post a d' \<and> extends (link_file p c d) d'"
    using LinkFile.IH[OF rangeI] LinkFile.prems(3) by simp
  then show ?case using extends_trans[of d "link_file p c d" d'] extends_link[of d p c] by simp
next
  case (ReadFile p k)
  have "extends d d \<longrightarrow> inv d \<longrightarrow> safe (k (map_of d p)) d"
    using ReadFile.prems(1) unfolding safe.simps by (rule spec)
  then show ?case using ReadFile.IH[OF rangeI] ReadFile.prems(2,3) by simp
qed

end

end
