(* ===== verification/HumanDecision.thy ===== *)
theory HumanDecision
  imports DecisionPresentation JsTime WriteOnce
begin

text \<open>
  Verified human decisions (src/workflows/human-decision.ts): the contract of choices, the request
  with its digests, the checks on an answer, and the store whose files settle the race between
  answers, the timeout default and cancellation.

  A file holds the record whose canonical JSON it contains; canonicalJson is injective on these
  records, so comparing bytes is comparing records.  \<open>Alien\<close> is the content an older contract left.
  Key order in digests is \<open>localeCompare\<close>, an argument \<open>le\<close>; the clock and the hash are arguments.
\<close>

section \<open>Identifiers\<close>

definition CHOICE_PATTERN :: "string \<Rightarrow> bool" where
  "CHOICE_PATTERN s = (case s of [] \<Rightarrow> False
     | c # cs \<Rightarrow> (is_alpha c \<or> c = CHR ''_'') \<and> length cs \<le> 127 \<and>
         list_all (\<lambda>x. is_alnum x \<or> x \<in> set ''_-'') cs)"

definition CHANNEL_PATTERN :: "string \<Rightarrow> bool" where
  "CHANNEL_PATTERN s = (case s of [] \<Rightarrow> False
     | c # cs \<Rightarrow> is_alnum c \<and> length cs \<le> 199 \<and> list_all (\<lambda>x. is_alnum x \<or> x \<in> set ''._:-'') cs)"

datatype cancel_reason = ReasonCancelled | ReasonExpired

datatype decision_error =
    Presenting presentation_error
  | BlankText string
  | InvalidId string
  | NoChoices
  | InvalidChoice string
  | DuplicateChoiceLabel string
  | InvalidMinLength string
  | InvalidMaxLength string
  | MissingCase string
  | UnknownCase string
  | RecordExpected string
  | ChoiceUnavailable
  | InputNotAccepted string
  | InputFields string string
  | InputNotText string
  | InputLength string
  | StaleAnswer
  | RequestExpired
  | RequestWas cancel_reason
  | KeyReused
  | CannotCancelResolved
  | CancellationConflicts
  | RecordConflicts
  | NoTimeoutDefault
  | DefaultNotEligible
  | ExpiryAndTimeout
  | InvalidAfterMs
  | InvalidExpiry
  | ExpiryNotAfterCreation
  | DateOutOfRange
  | SubjectNotJson
  | InvalidRevision
  | ControlCharacterIn string
  | OldContract

type_synonym 'a decided = "(decision_error, 'a) result"

definition requireString :: "string \<Rightarrow> string \<Rightarrow> string decided" where
  "requireString s label = (if trim s = [] then Inl (BlankText label) else Inr s)"

definition requireSimpleId :: "string \<Rightarrow> string \<Rightarrow> string decided" where
  "requireSimpleId s label = or_error (requireString s label)
     (\<lambda>t. if CHOICE_PATTERN t then Inr t else Inl (InvalidId label))"

definition requireChannelId :: "string \<Rightarrow> string \<Rightarrow> string decided" where
  "requireChannelId s label = or_error (requireString s label)
     (\<lambda>t. if CHANNEL_PATTERN t then Inr t else Inl (InvalidId label))"

definition assertId :: "string \<Rightarrow> string \<Rightarrow> unit decided" where
  "assertId s label = (if run_id_pattern s then Inr () else Inl (InvalidId label))"

text \<open>The same checks on a value of unknown type.\<close>

definition string_value :: "jv \<Rightarrow> string \<Rightarrow> string decided" where
  "string_value v label = (case v of JStr s \<Rightarrow> requireString s label | _ \<Rightarrow> Inl (BlankText label))"

definition record_value :: "jv \<Rightarrow> string \<Rightarrow> jv obj decided" where
  "record_value v label = (case v of JObj ob \<Rightarrow> Inr ob | JExotic \<Rightarrow> Inr [] | _ \<Rightarrow> Inl (RecordExpected label))"

section \<open>Choices\<close>

text \<open>
  \<open>Number.isInteger\<close> and the integer: a finite number from 1e21 on prints as digits, an optional
  fraction and a positive exponent beyond it.
\<close>

definition plain_int :: "string \<Rightarrow> int option" where
  "plain_int t = (if t \<noteq> [] \<and> list_all is_digit t then Some (int (dec_val 0 t)) else None)"

definition exponent_int :: "string \<Rightarrow> nat \<Rightarrow> int option" where
  "exponent_int t i = (let m = take i t; x = drop (Suc i) t in
     if x \<noteq> [] \<and> hd x = CHR ''+'' then
       (let digits = filter is_digit m; places = (case index_of CHR ''.'' m of None \<Rightarrow> 0 | Some j \<Rightarrow> length m - j - 1) in
        Some (int (dec_val 0 digits) * 10 ^ (dec_val 0 (tl x) - places)))
     else None)"

definition magnitude_int :: "string \<Rightarrow> int option" where
  "magnitude_int t = (case index_of CHR ''e'' t of None \<Rightarrow> plain_int t | Some i \<Rightarrow> exponent_int t i)"

definition num_int :: "jnum \<Rightarrow> int option" where
  "num_int n = (case n of
     NumFin t \<Rightarrow> (if t \<noteq> [] \<and> hd t = CHR ''-'' then map_option uminus (magnitude_int (tl t)) else magnitude_int t)
   | NumNegZero \<Rightarrow> Some 0 | _ \<Rightarrow> None)"

definition at_least :: "int \<Rightarrow> jnum \<Rightarrow> bool" where
  "at_least bound n = (case num_int n of None \<Rightarrow> False | Some i \<Rightarrow> bound \<le> i)"

definition max_ok :: "text_input \<Rightarrow> bool" where
  "max_ok i = (case num_int (ti_max i) of None \<Rightarrow> False
     | Some hi \<Rightarrow> 1 \<le> hi \<and> (case num_int (ti_min i) of None \<Rightarrow> False | Some lo \<Rightarrow> lo \<le> hi))"

definition DEFAULT_MIN_LENGTH :: jnum where "DEFAULT_MIN_LENGTH = NumFin ''1''"
definition DEFAULT_MAX_LENGTH :: jnum where "DEFAULT_MAX_LENGTH = NumFin ''4000''"

definition textInput :: "string \<Rightarrow> string \<Rightarrow> jnum option \<Rightarrow> jnum option \<Rightarrow> text_input decided" where
  "textInput name prompt minLength maxLength =
     or_error (requireSimpleId name ''Human decision text input name'') (\<lambda>name.
     or_error (requireString prompt ''Human decision text input prompt'') (\<lambda>prompt.
       let i = \<lparr>ti_name = name, ti_prompt = prompt,
           ti_min = (case minLength of None \<Rightarrow> DEFAULT_MIN_LENGTH | Some n \<Rightarrow> n),
           ti_max = (case maxLength of None \<Rightarrow> DEFAULT_MAX_LENGTH | Some n \<Rightarrow> n)\<rparr> in
       if \<not> at_least 0 (ti_min i) then Inl (InvalidMinLength ''Human decision text input'')
       else if \<not> max_ok i then Inl (InvalidMaxLength ''Human decision text input'') else Inr i))"

definition validateChoice :: "human_choice \<Rightarrow> string \<Rightarrow> unit decided" where
  "validateChoice c label = or_error (requireString (hc_label c) (label @ '' label'')) (\<lambda>_.
     case hc_input c of None \<Rightarrow> Inr ()
     | Some i \<Rightarrow> or_error (requireSimpleId (ti_name i) (label @ '' input name'')) (\<lambda>_.
         or_error (requireString (ti_prompt i) (label @ '' input prompt'')) (\<lambda>_.
           if \<not> at_least 0 (ti_min i) then Inl (InvalidMinLength label)
           else if \<not> max_ok i then Inl (InvalidMaxLength label) else Inr ())))"

fun check_choices :: "string list \<Rightarrow> choice_map \<Rightarrow> unit decided" where
  "check_choices labels [] = Inr ()"
| "check_choices labels ((key, c) # rest) =
     (if \<not> CHOICE_PATTERN key then Inl (InvalidChoice key)
      else or_error (validateChoice c (''Human decision choice '' @ key)) (\<lambda>_.
        if hc_label c \<in> set labels then Inl (DuplicateChoiceLabel (hc_label c))
        else check_choices (hc_label c # labels) rest))"

definition validateChoices :: "choice_map \<Rightarrow> unit decided" where
  "validateChoices cs = (if cs = [] then Inl NoChoices else check_choices [] cs)"

definition humanDecisionEdge :: "choice_map \<Rightarrow> string obj \<Rightarrow> string obj decided" where
  "humanDecisionEdge choices cases = or_error (validateChoices choices) (\<lambda>_.
     case find_result (\<lambda>k. \<not> has_own cases k) (obj_keys choices) of
       Some k \<Rightarrow> Inl (MissingCase k)
     | None \<Rightarrow> (case find_result (\<lambda>k. \<not> has_own choices k) (obj_keys cases) of
         Some k \<Rightarrow> Inl (UnknownCase k) | None \<Rightarrow> Inr cases))"

section \<open>Answers\<close>

text \<open>\<open>text.length < minLength || text.length > maxLength\<close>, on limits that are integers.\<close>

definition length_ok :: "text_input \<Rightarrow> string \<Rightarrow> bool" where
  "length_ok i t \<longleftrightarrow> (case num_int (ti_min i) of None \<Rightarrow> True | Some lo \<Rightarrow> lo \<le> int (length t)) \<and>
     (case num_int (ti_max i) of None \<Rightarrow> True | Some hi \<Rightarrow> int (length t) \<le> hi)"

definition validateResponseForChoices :: "choice_map \<Rightarrow> jv \<Rightarrow> decision_response decided" where
  "validateResponseForChoices choices value =
     or_error (record_value value ''Human decision response'') (\<lambda>response.
     case field response ''choice'' of
       JStr selected \<Rightarrow> (case obj_get choices selected of
         None \<Rightarrow> Inl ChoiceUnavailable
       | Some c \<Rightarrow> (case hc_input c of
           None \<Rightarrow> if field response ''input'' \<noteq> JUndef then Inl (InputNotAccepted selected)
             else Inr \<lparr>rp_choice = selected, rp_input = None\<rparr>
         | Some i \<Rightarrow> or_error (record_value (field response ''input'') (''Human decision choice '' @ selected @ '' input'')) (\<lambda>raw.
             if obj_keys raw \<noteq> [ti_name i] then Inl (InputFields selected (ti_name i))
             else (case field raw (ti_name i) of
               JStr t \<Rightarrow> if length_ok i t then Inr \<lparr>rp_choice = selected, rp_input = Some (ti_name i, t)\<rparr>
                 else Inl (InputLength selected)
             | _ \<Rightarrow> Inl (InputNotText selected)))))
     | _ \<Rightarrow> Inl ChoiceUnavailable)"

definition validateHumanDecisionResponse :: "request \<Rightarrow> jv \<Rightarrow> decision_response decided" where
  "validateHumanDecisionResponse r value = validateResponseForChoices (rq_choices r) value"

record answer_source =
  as_channel :: string
  as_actor :: string
  as_event :: string

record submission =
  sm_id :: string
  sm_digest :: string
  sm_response :: decision_response
  sm_source :: answer_source
  sm_key :: string

definition expired_at :: "request \<Rightarrow> int \<Rightarrow> bool" where
  "expired_at r nowMs \<longleftrightarrow> (case rq_expires r of None \<Rightarrow> False
     | Some at \<Rightarrow> (case date_parse at of None \<Rightarrow> False | Some ms \<Rightarrow> ms \<le> nowMs))"

definition validateHumanDecisionSubmission :: "request \<Rightarrow> jv obj \<Rightarrow> int \<Rightarrow> submission decided" where
  "validateHumanDecisionSubmission r value nowMs =
     (if field value ''decisionId'' \<noteq> JStr (rq_id r) \<or> field value ''requestDigest'' \<noteq> JStr (rq_digest r) then Inl StaleAnswer
      else if expired_at r nowMs then Inl RequestExpired
      else or_error (validateHumanDecisionResponse r (JObj value)) (\<lambda>response.
        or_error (record_value (field value ''source'') ''Human decision source'') (\<lambda>source.
        or_error (or_error (string_value (field source ''channel'') ''Human decision channel'')
          (\<lambda>c. requireChannelId c ''Human decision channel'')) (\<lambda>channel.
        or_error (string_value (field source ''actorId'') ''Human decision actor'') (\<lambda>actor.
        or_error (string_value (field source ''eventId'') ''Human decision event'') (\<lambda>event.
        or_error (string_value (field value ''idempotencyKey'') ''Human decision idempotency key'') (\<lambda>key.
          Inr \<lparr>sm_id = rq_id r, sm_digest = rq_digest r, sm_response = response,
            sm_source = \<lparr>as_channel = channel, as_actor = actor, as_event = event\<rparr>, sm_key = key\<rparr>)))))))"

section \<open>Digests\<close>

fun insert_by :: "('a \<Rightarrow> 'a \<Rightarrow> bool) \<Rightarrow> 'a \<Rightarrow> 'a list \<Rightarrow> 'a list" where
  "insert_by le x [] = [x]"
| "insert_by le x (y # ys) = (if le x y then x # y # ys else y # insert_by le x ys)"

fun sort_locale :: "(string \<Rightarrow> string \<Rightarrow> bool) \<Rightarrow> jv \<Rightarrow> jv" where
  "sort_locale le (JArr vs) = JArr (map (sort_locale le) vs)"
| "sort_locale le (JObj kvs) = JObj (mk_obj (foldr (insert_by (\<lambda>a b. le (fst a) (fst b)))
     (map (\<lambda>(k, v). (k, sort_locale le v)) kvs) []))"
| "sort_locale le JExotic = JObj []"
| "sort_locale le v = v"

definition digestHex :: "(string \<Rightarrow> string \<Rightarrow> bool) \<Rightarrow> (string \<Rightarrow> string) \<Rightarrow> jv \<Rightarrow> string" where
  "digestHex le sha256 v = sha256 (case json_text (sort_locale le v) of None \<Rightarrow> [] | Some t \<Rightarrow> t)"

definition digest :: "(string \<Rightarrow> string \<Rightarrow> bool) \<Rightarrow> (string \<Rightarrow> string) \<Rightarrow> jv \<Rightarrow> string" where
  "digest le sha256 v = ''sha256:'' @ digestHex le sha256 v"

section \<open>Requests\<close>

text \<open>
  The contract and prompt of a node.  The timeout is a number of milliseconds, \<open>None\<close> when it is not
  finite, with the response as the author gave it; a revision is \<open>Some None\<close> when it is not an integer.
\<close>

record request_input =
  in_run :: string
  in_workflow :: string
  in_node :: string
  in_attempt :: string
  in_audience :: string
  in_choices :: choice_map
  in_title :: string
  in_subject :: jv
  in_presentation :: jv
  in_revision :: "int option option"
  in_expires :: "string option"
  in_timeout :: "(int option \<times> jv) option"

definition validatePresentedText :: "string \<Rightarrow> string \<Rightarrow> unit decided" where
  "validatePresentedText t label = (if hasControlCharacter t False then Inl (ControlCharacterIn label) else Inr ())"

fun validatePresentedChoices :: "choice_map \<Rightarrow> unit decided" where
  "validatePresentedChoices [] = Inr ()"
| "validatePresentedChoices ((key, c) # rest) =
     or_error (validatePresentedText (hc_label c) (''Human decision choice '' @ key @ '' label'')) (\<lambda>_.
     or_error (case hc_input c of None \<Rightarrow> Inr ()
       | Some i \<Rightarrow> validatePresentedText (ti_prompt i) (''Human decision choice '' @ key @ '' input prompt'')) (\<lambda>_.
       validatePresentedChoices rest))"

definition toISOString :: "int \<Rightarrow> string decided" where
  "toISOString ms = (case iso_string ms of None \<Rightarrow> Inl DateOutOfRange | Some t \<Rightarrow> Inr t)"

definition validateExpiry :: "string option \<Rightarrow> string \<Rightarrow> string option decided" where
  "validateExpiry value createdAt = (case value of None \<Rightarrow> Inr None
     | Some v \<Rightarrow> (case date_parse v of None \<Rightarrow> Inl InvalidExpiry
       | Some parsed \<Rightarrow> (case date_parse createdAt of None \<Rightarrow> Inl ExpiryNotAfterCreation
         | Some created \<Rightarrow> if parsed \<le> created then Inl ExpiryNotAfterCreation
             else or_error (toISOString parsed) (\<lambda>t. Inr (Some t)))))"

definition timeout_ok :: "request_input \<Rightarrow> bool" where
  "timeout_ok i = (case in_timeout i of None \<Rightarrow> True | Some (None, _) \<Rightarrow> False | Some (Some ms, _) \<Rightarrow> 0 < ms)"

definition request_expiry :: "request_input \<Rightarrow> string \<Rightarrow> string option decided" where
  "request_expiry i createdAt = (case in_timeout i of
     Some (Some ms, _) \<Rightarrow> (case date_parse createdAt of None \<Rightarrow> Inl DateOutOfRange
       | Some c \<Rightarrow> or_error (toISOString (c + ms)) (\<lambda>t. Inr (Some t)))
   | _ \<Rightarrow> validateExpiry (in_expires i) createdAt)"

definition request_default :: "request_input \<Rightarrow> decision_response option decided" where
  "request_default i = (case in_timeout i of None \<Rightarrow> Inr None
     | Some (_, response) \<Rightarrow> or_error (validateResponseForChoices (in_choices i) response) (\<lambda>r. Inr (Some r)))"

definition request_revision :: "request_input \<Rightarrow> nat decided" where
  "request_revision i = (case in_revision i of None \<Rightarrow> Inr 1
     | Some (Some n) \<Rightarrow> if n < 1 then Inl InvalidRevision else Inr (nat n)
     | Some None \<Rightarrow> Inl InvalidRevision)"

definition presenting :: "'a checked \<Rightarrow> 'a decided" where
  "presenting r = (case r of Inl e \<Rightarrow> Inl (Presenting e) | Inr a \<Rightarrow> Inr a)"

definition decisionIdFor :: "(string \<Rightarrow> string \<Rightarrow> bool) \<Rightarrow> (string \<Rightarrow> string) \<Rightarrow> request_input \<Rightarrow> string \<Rightarrow> string" where
  "decisionIdFor le sha256 i requestDigest = ''decision-'' @ take 40 (digestHex le sha256 (JObj
     [(''runId'', JStr (in_run i)), (''nodeId'', JStr (in_node i)), (''attemptId'', JStr (in_attempt i)),
      (''requestDigest'', JStr requestDigest)]))"

text \<open>
  The fields the creator checked (\<open>common\<close>), the \<open>basis\<close> it digests, and the request it returns: the
  basis with the id, the digests and the creation time.
\<close>

record checked_fields =
  cf_audience :: string
  cf_title :: string
  cf_expires :: "string option"
  cf_default :: "decision_response option"
  cf_presentation :: presentation
  cf_revision :: nat

definition creation_common :: "request_input \<Rightarrow> checked_fields \<Rightarrow> jv obj" where
  "creation_common i f = [(''runId'', JStr (in_run i)), (''workflowName'', JStr (in_workflow i)),
     (''nodeId'', JStr (in_node i)), (''attemptId'', JStr (in_attempt i)), (''audience'', JStr (cf_audience f)),
     (''title'', JStr (cf_title f)), (''choices'', choices_json (in_choices i))] @
     (case cf_expires f of None \<Rightarrow> [] | Some t \<Rightarrow> [(''expiresAt'', JStr t)]) @
     (case cf_default f of None \<Rightarrow> [] | Some x \<Rightarrow> [(''defaultResponse'', response_json x)])"

definition creation_basis :: "request_input \<Rightarrow> checked_fields \<Rightarrow> jv" where
  "creation_basis i f = JObj ((''schema'', JStr ''pi-workflows.human-decision-request.v1'') # creation_common i f @
     [(''subject'', in_subject i), (''presentation'', presentation_json (cf_presentation f)),
      (''revision'', jnat (cf_revision f))])"

definition seal_request ::
    "(string \<Rightarrow> string \<Rightarrow> bool) \<Rightarrow> (string \<Rightarrow> string) \<Rightarrow> request_input \<Rightarrow> checked_fields \<Rightarrow> string \<Rightarrow> request" where
  "seal_request le sha256 i f createdAt = (let d = digestCanonical sha256 (creation_basis i f) in
     \<lparr>rq_id = decisionIdFor le sha256 i d, rq_digest = d, rq_run = in_run i, rq_workflow = in_workflow i,
       rq_node = in_node i, rq_attempt = in_attempt i, rq_audience = cf_audience f, rq_title = cf_title f,
       rq_choices = in_choices i, rq_created = createdAt, rq_expires = cf_expires f, rq_default = cf_default f,
       rq_subject = in_subject i, rq_presentation = presentation_json (cf_presentation f), rq_revision = cf_revision f,
       rq_subject_digest = digestCanonical sha256 (in_subject i),
       rq_presentation_digest = digestCanonical sha256 (presentation_json (cf_presentation f))\<rparr>)"

definition createHumanDecisionRequest ::
    "(string \<Rightarrow> string \<Rightarrow> bool) \<Rightarrow> (string \<Rightarrow> string) \<Rightarrow> request_input \<Rightarrow> string \<Rightarrow> request decided" where
  "createHumanDecisionRequest le sha256 i createdAt =
     or_error (validateChoices (in_choices i)) (\<lambda>_.
     or_error (requireString (in_title i) ''Human decision title'') (\<lambda>title.
     if in_timeout i \<noteq> None \<and> in_expires i \<noteq> None then Inl ExpiryAndTimeout
     else if \<not> timeout_ok i then Inl InvalidAfterMs
     else or_error (request_default i) (\<lambda>dflt.
     or_error (request_expiry i createdAt) (\<lambda>expires.
     or_error (requireSimpleId (in_audience i) ''Human decision audience'') (\<lambda>audience.
     or_error (validatePresentedText title ''Human decision title'') (\<lambda>_.
     or_error (validatePresentedChoices (in_choices i)) (\<lambda>_.
     if json_text (in_subject i) = None then Inl SubjectNotJson
     else or_error (presenting (normalizeDecisionPresentation (in_presentation i))) (\<lambda>p.
     or_error (request_revision i) (\<lambda>revision.
       Inr (seal_request le sha256 i \<lparr>cf_audience = audience, cf_title = title, cf_expires = expires,
         cf_default = dflt, cf_presentation = p, cf_revision = revision\<rparr> createdAt))))))))))"

section \<open>The records of the store\<close>

text \<open>A person answered, with the key of the submission, or the timeout default applied.\<close>

datatype provenance = Human answer_source string | Timeout

record decision =
  dc_id :: string
  dc_digest :: string
  dc_response :: decision_response
  dc_provenance :: provenance
  dc_accepted :: string
  dc_answer_digest :: string
  dc_subject_digest :: string
  dc_presentation_digest :: string
  dc_revision :: nat

record cancellation =
  cn_id :: string
  cn_digest :: string
  cn_at :: string
  cn_reason :: cancel_reason

datatype resolution = ResAccepted decision | ResCancelled cancellation

record answer_attempt =
  aa_id :: string
  aa_at :: string
  aa_submission :: submission

datatype delivery_phase = PhaseIntent | PhasePart | PhaseComplete
datatype delivery_state = DeliveryIntent | DeliveryConfirmed | DeliveryFailed | DeliveryUnknown

record delivery =
  dl_attempt :: string
  dl_id :: string
  dl_digest :: string
  dl_presentation_digest :: string
  dl_channel :: string
  dl_phase :: delivery_phase
  dl_state :: delivery_state
  dl_created :: string
  dl_finished :: "string option"
  dl_recipient :: "nat option"
  dl_part :: "nat option"
  dl_parts :: "nat option"
  dl_content_digest :: "string option"
  dl_messages :: "nat option"
  dl_error :: "string option"

record settlement =
  st_attempt :: string
  st_id :: string
  st_digest :: string
  st_channel :: string
  st_confirmed :: bool
  st_created :: string
  st_finished :: string
  st_error :: "string option"

record continuation =
  co_id :: string
  co_digest :: string
  co_timeout :: bool
  co_parent :: string
  co_run :: string
  co_created :: string

datatype decision_content =
    CRequest request
  | CResolution resolution
  | CAccepted decision
  | CCancelled cancellation
  | CContinuation continuation
  | CAnswer answer_attempt
  | CDelivery delivery
  | CSettlement settlement
  | Alien jv

datatype decision_file =
    RequestFile
  | ResolutionFile
  | AcceptedFile
  | CancelledFile
  | ContinuationFile
  | AnswerFile string
  | DeliveryFile string string
  | SettlementFile string string

text \<open>A path is the directory of a decision and a file in it.\<close>

type_synonym decision_path = "string \<times> decision_file"
type_synonym decision_tree = "(decision_path, decision_content) tree"
type_synonym 'a decision_op = "(decision_path, decision_content, 'a decided) prog"

definition throw :: "decision_error \<Rightarrow> 'a decision_op" where
  "throw e = Ret (Inl e)"

definition attempt :: "'b decided \<Rightarrow> ('b \<Rightarrow> 'a decision_op) \<Rightarrow> 'a decision_op" where
  "attempt r k = (case r of Inl e \<Rightarrow> throw e | Inr b \<Rightarrow> k b)"

text \<open>\<open>k\<close> gets whether the file was created.\<close>

definition writeImmutableJson ::
    "decision_path \<Rightarrow> decision_content \<Rightarrow> bool \<Rightarrow> (bool \<Rightarrow> 'a decision_op) \<Rightarrow> 'a decision_op" where
  "writeImmutableJson path c requireIdentical k = LinkFile path c (\<lambda>created.
     if created then k True
     else ReadFile path (\<lambda>existing.
       if requireIdentical \<and> existing \<noteq> Some c then throw RecordConflicts else k False))"

section \<open>The store\<close>

text \<open>Every path goes through \<open>decisionDir\<close>, which checks the id.\<close>

definition decisionDir :: "string \<Rightarrow> 'a decision_op \<Rightarrow> 'a decision_op" where
  "decisionDir decisionId k = attempt (assertId decisionId ''decision id'') (\<lambda>_. k)"

definition integrity :: "(string \<Rightarrow> string) \<Rightarrow> request \<Rightarrow> request decided" where
  "integrity sha256 r = presenting (validateHumanDecisionRequestIntegrity sha256 r)"

definition createRequest :: "(string \<Rightarrow> string) \<Rightarrow> request \<Rightarrow> (bool \<Rightarrow> 'a decision_op) \<Rightarrow> 'a decision_op" where
  "createRequest sha256 r k = attempt (integrity sha256 r) (\<lambda>_.
     decisionDir (rq_id r) (writeImmutableJson (rq_id r, RequestFile) (CRequest r) True k))"

definition readRequest :: "(string \<Rightarrow> string) \<Rightarrow> string \<Rightarrow> (request option \<Rightarrow> 'a decision_op) \<Rightarrow> 'a decision_op" where
  "readRequest sha256 decisionId k = decisionDir decisionId (ReadFile (decisionId, RequestFile) (\<lambda>stored.
     case stored of None \<Rightarrow> k None
     | Some (CRequest r) \<Rightarrow> attempt (integrity sha256 r) (\<lambda>r. k (Some r))
     | Some _ \<Rightarrow> throw (Presenting IncompatibleState)))"

definition recordDelivery :: "string \<Rightarrow> string \<Rightarrow> delivery \<Rightarrow> (bool \<Rightarrow> 'a decision_op) \<Rightarrow> 'a decision_op" where
  "recordDelivery decisionId channel value k =
     attempt (requireSimpleId channel ''Human decision channel'') (\<lambda>safeChannel.
     attempt (requireString (dl_attempt value) ''Human decision delivery attempt'') (\<lambda>attemptId.
     attempt (assertId attemptId ''delivery attempt id'') (\<lambda>_.
     decisionDir decisionId
       (writeImmutableJson (decisionId, DeliveryFile safeChannel attemptId) (CDelivery value) True k))))"

definition recordSettlement :: "string \<Rightarrow> string \<Rightarrow> settlement \<Rightarrow> (bool \<Rightarrow> 'a decision_op) \<Rightarrow> 'a decision_op" where
  "recordSettlement decisionId channel value k =
     attempt (requireSimpleId channel ''Human decision channel'') (\<lambda>safeChannel.
     attempt (assertId (st_attempt value) ''settlement attempt id'') (\<lambda>_.
     decisionDir decisionId
       (writeImmutableJson (decisionId, SettlementFile safeChannel (st_attempt value)) (CSettlement value) True k)))"

definition recordContinuation :: "string \<Rightarrow> continuation \<Rightarrow> (bool \<Rightarrow> 'a decision_op) \<Rightarrow> 'a decision_op" where
  "recordContinuation decisionId value k =
     decisionDir decisionId (writeImmutableJson (decisionId, ContinuationFile) (CContinuation value) True k)"

definition requireCurrentDecision :: "decision_content \<Rightarrow> decision decided" where
  "requireCurrentDecision c = (case c of CAccepted dec \<Rightarrow> Inr dec | _ \<Rightarrow> Inl OldContract)"

definition requireCurrentResolution :: "decision_content option \<Rightarrow> resolution option decided" where
  "requireCurrentResolution c = (case c of None \<Rightarrow> Inr None
     | Some (CResolution res) \<Rightarrow> Inr (Some res) | Some _ \<Rightarrow> Inl OldContract)"

text \<open>A cancellation is used as it was stored; every contract had the same record.\<close>

definition readCancellation :: "string \<Rightarrow> (cancellation option \<Rightarrow> 'a decision_op) \<Rightarrow> 'a decision_op" where
  "readCancellation decisionId k = decisionDir decisionId (ReadFile (decisionId, CancelledFile) (\<lambda>stored.
     case stored of
       Some (CCancelled c) \<Rightarrow> k (Some c)
     | Some _ \<Rightarrow> throw OldContract
     | None \<Rightarrow> ReadFile (decisionId, ResolutionFile) (\<lambda>content.
         attempt (requireCurrentResolution content) (\<lambda>resolution. case resolution of
           Some (ResCancelled c) \<Rightarrow>
             writeImmutableJson (decisionId, CancelledFile) (CCancelled c) True (\<lambda>_. k (Some c))
         | _ \<Rightarrow> k None))))"

definition readResolved :: "string \<Rightarrow> (decision option \<Rightarrow> 'a decision_op) \<Rightarrow> 'a decision_op" where
  "readResolved decisionId k = decisionDir decisionId (ReadFile (decisionId, CancelledFile) (\<lambda>cancellation.
     if cancellation \<noteq> None then k None
     else ReadFile (decisionId, AcceptedFile) (\<lambda>stored. case stored of
       Some c \<Rightarrow> attempt (requireCurrentDecision c) (\<lambda>dec. k (Some dec))
     | None \<Rightarrow> ReadFile (decisionId, ResolutionFile) (\<lambda>content.
         attempt (requireCurrentResolution content) (\<lambda>resolution. case resolution of
           Some (ResAccepted dec) \<Rightarrow>
             writeImmutableJson (decisionId, AcceptedFile) (CAccepted dec) True (\<lambda>_. k (Some dec))
         | _ \<Rightarrow> k None)))))"

definition readContinuation :: "string \<Rightarrow> (continuation option \<Rightarrow> 'a decision_op) \<Rightarrow> 'a decision_op" where
  "readContinuation decisionId k = decisionDir decisionId (ReadFile (decisionId, ContinuationFile) (\<lambda>stored.
     case stored of None \<Rightarrow> k None | Some (CContinuation c) \<Rightarrow> k (Some c) | Some _ \<Rightarrow> throw OldContract))"

datatype acceptance = IsAccepted decision | IsAdopted decision | IsConflict decision

text \<open>
  The common end of \<open>accept\<close> and \<open>resolveTimeout\<close>: publish the resolution, find out who won, and
  complete the winner's record.  \<open>k\<close> gets whether this call won and the decision that did.
\<close>

definition publish :: "request \<Rightarrow> decision \<Rightarrow> (bool \<Rightarrow> decision \<Rightarrow> 'a decision_op) \<Rightarrow> 'a decision_op" where
  "publish r dec k = decisionDir (rq_id r)
     (writeImmutableJson (rq_id r, ResolutionFile) (CResolution (ResAccepted dec)) False (\<lambda>created.
     let winner_known = (\<lambda>winner. readCancellation (rq_id r) (\<lambda>cancelled. case cancelled of
           Some c \<Rightarrow> throw (RequestWas (cn_reason c))
         | None \<Rightarrow> (case winner of
             ResCancelled c \<Rightarrow> throw (RequestWas (cn_reason c))
           | ResAccepted existing \<Rightarrow>
               writeImmutableJson (rq_id r, AcceptedFile) (CAccepted existing) True (\<lambda>_. k created existing)))) in
     if created then winner_known (ResAccepted dec)
     else ReadFile (rq_id r, ResolutionFile) (\<lambda>content. case content of
       Some (CResolution res) \<Rightarrow> winner_known res | _ \<Rightarrow> throw OldContract)))"

definition answer_attempt_id :: "(string \<Rightarrow> string \<Rightarrow> bool) \<Rightarrow> (string \<Rightarrow> string) \<Rightarrow> request \<Rightarrow> string \<Rightarrow> string" where
  "answer_attempt_id le sha256 r key = take 40 (digestHex le sha256
     (JObj [(''decisionId'', JStr (rq_id r)), (''idempotencyKey'', JStr key)]))"

definition source_json :: "answer_source \<Rightarrow> jv" where
  "source_json s = JObj [(''channel'', JStr (as_channel s)), (''actorId'', JStr (as_actor s)), (''eventId'', JStr (as_event s))]"

definition human_decision ::
    "(string \<Rightarrow> string \<Rightarrow> bool) \<Rightarrow> (string \<Rightarrow> string) \<Rightarrow> request \<Rightarrow> decision_response \<Rightarrow> submission \<Rightarrow> string \<Rightarrow> decision" where
  "human_decision le sha256 r response sm at = \<lparr>dc_id = rq_id r, dc_digest = rq_digest r, dc_response = response,
     dc_provenance = Human (sm_source sm) (sm_key sm), dc_accepted = at,
     dc_answer_digest = digest le sha256 (JObj [(''response'', response_json response), (''source'', source_json (sm_source sm))]),
     dc_subject_digest = rq_subject_digest r, dc_presentation_digest = rq_presentation_digest r,
     dc_revision = rq_revision r\<rparr>"

definition same_answer :: "decision \<Rightarrow> decision \<Rightarrow> bool" where
  "same_answer existing dec \<longleftrightarrow> existing = dec \<or>
     (dc_provenance existing = dc_provenance dec \<and> dc_provenance dec \<noteq> Timeout \<and> dc_response existing = dc_response dec)"

text \<open>Which attempt time counts, once the attempt of this key is on disk.\<close>

definition adopt_attempt :: "submission \<Rightarrow> decision_content option \<Rightarrow> string decided" where
  "adopt_attempt sm content = (case content of
     Some (CAnswer a) \<Rightarrow> if aa_submission a \<noteq> sm then Inl KeyReused else requireString (aa_at a) ''answer attempt time''
   | _ \<Rightarrow> Inl (RecordExpected ''Existing human decision answer attempt''))"

text \<open>\<open>checkMs\<close> and \<open>attemptedAt\<close> are the two readings of the clock.\<close>

definition accept_answer ::
    "(string \<Rightarrow> string \<Rightarrow> bool) \<Rightarrow> (string \<Rightarrow> string) \<Rightarrow> request \<Rightarrow> jv obj \<Rightarrow> int \<Rightarrow> string \<Rightarrow>
      (acceptance \<Rightarrow> 'a decision_op) \<Rightarrow> 'a decision_op" where
  "accept_answer le sha256 r value checkMs attemptedAt k =
     attempt (integrity sha256 r) (\<lambda>_.
     readCancellation (rq_id r) (\<lambda>cancelled. case cancelled of
       Some c \<Rightarrow> throw (RequestWas (cn_reason c))
     | None \<Rightarrow> attempt (validateHumanDecisionSubmission r value checkMs) (\<lambda>normalized.
         let key = answer_attempt_id le sha256 r (sm_key normalized);
             path = (rq_id r, AnswerFile key);
             decide = (\<lambda>at. attempt (validateHumanDecisionResponse r (response_json (sm_response normalized))) (\<lambda>response.
               let dec = human_decision le sha256 r response normalized at in
               publish r dec (\<lambda>created existing. k
                 (if created then IsAccepted existing
                  else if same_answer existing dec then IsAdopted existing
                  else IsConflict existing)))) in
         writeImmutableJson path (CAnswer \<lparr>aa_id = key, aa_at = attemptedAt, aa_submission = normalized\<rparr>) False
           (\<lambda>created. if created then decide attemptedAt
             else ReadFile path (\<lambda>content. attempt (adopt_attempt normalized content) decide)))))"

definition timeout_decision ::
    "(string \<Rightarrow> string \<Rightarrow> bool) \<Rightarrow> (string \<Rightarrow> string) \<Rightarrow> request \<Rightarrow> decision_response \<Rightarrow> string \<Rightarrow> decision" where
  "timeout_decision le sha256 r response at = \<lparr>dc_id = rq_id r, dc_digest = rq_digest r, dc_response = response,
     dc_provenance = Timeout, dc_accepted = at,
     dc_answer_digest = digest le sha256 (JObj [(''provenance'', JStr ''timeout''),
       (''requestDigest'', JStr (rq_digest r)), (''response'', response_json response)]),
     dc_subject_digest = rq_subject_digest r, dc_presentation_digest = rq_presentation_digest r,
     dc_revision = rq_revision r\<rparr>"

definition resolveTimeout ::
    "(string \<Rightarrow> string \<Rightarrow> bool) \<Rightarrow> (string \<Rightarrow> string) \<Rightarrow> request \<Rightarrow> int \<Rightarrow>
      (acceptance \<Rightarrow> 'a decision_op) \<Rightarrow> 'a decision_op" where
  "resolveTimeout le sha256 r nowMs k =
     attempt (integrity sha256 r) (\<lambda>_.
     case (rq_expires r, rq_default r) of
       (Some expires, Some dflt) \<Rightarrow>
         (if (case date_parse expires of None \<Rightarrow> False | Some ms \<Rightarrow> nowMs < ms) then throw DefaultNotEligible
          else attempt (validateHumanDecisionResponse r (response_json dflt)) (\<lambda>response.
            attempt (toISOString nowMs) (\<lambda>at.
            let dec = timeout_decision le sha256 r response at in
            publish r dec (\<lambda>created existing. k
              (if created then IsAccepted existing
               else if existing = dec then IsAdopted existing
               else IsConflict existing)))))
     | _ \<Rightarrow> throw NoTimeoutDefault)"

definition cancel_request ::
    "(string \<Rightarrow> string) \<Rightarrow> request \<Rightarrow> cancel_reason \<Rightarrow> string \<Rightarrow> (bool \<Rightarrow> 'a decision_op) \<Rightarrow> 'a decision_op" where
  "cancel_request sha256 r reason at k =
     attempt (integrity sha256 r) (\<lambda>_.
     readResolved (rq_id r) (\<lambda>resolved. if resolved \<noteq> None then throw CannotCancelResolved
     else let record = \<lparr>cn_id = rq_id r, cn_digest = rq_digest r, cn_at = at, cn_reason = reason\<rparr>;
         winner_known = (\<lambda>created winner. case winner of
           ResAccepted dec \<Rightarrow> throw CannotCancelResolved
         | ResCancelled existing \<Rightarrow>
             if cn_id existing \<noteq> rq_id r \<or> cn_digest existing \<noteq> rq_digest r \<or> cn_reason existing \<noteq> reason
             then throw CancellationConflicts
             else writeImmutableJson (rq_id r, CancelledFile) (CCancelled existing) True (\<lambda>_. k created)) in
       writeImmutableJson (rq_id r, ResolutionFile) (CResolution (ResCancelled record)) False (\<lambda>created.
         if created then winner_known True (ResCancelled record)
         else ReadFile (rq_id r, ResolutionFile) (\<lambda>content. case content of
           Some (CResolution res) \<Rightarrow> winner_known False res | _ \<Rightarrow> throw OldContract))))"

section \<open>Listings\<close>

text \<open>\<open>readJsonDirectory\<close> reads the files in the order of their names; a listing is one look at the tree.\<close>

definition delivery_names :: "string \<Rightarrow> string \<Rightarrow> decision_tree \<Rightarrow> string list" where
  "delivery_names decisionId channel d = sort_key (\<lambda>a. a @ ''.json'') (concat (map (\<lambda>(p, c). case p of
     (i, DeliveryFile ch a) \<Rightarrow> if i = decisionId \<and> ch = channel then [a] else [] | _ \<Rightarrow> []) d))"

definition requireCurrentDelivery :: "decision_content option \<Rightarrow> delivery decided" where
  "requireCurrentDelivery c = (case c of Some (CDelivery v) \<Rightarrow> Inr v | _ \<Rightarrow> Inl OldContract)"

definition listDeliveries :: "string \<Rightarrow> string \<Rightarrow> decision_tree \<Rightarrow> delivery list decided" where
  "listDeliveries decisionId channel d =
     or_error (requireSimpleId channel ''Human decision channel'') (\<lambda>ch.
     or_error (assertId decisionId ''decision id'') (\<lambda>_.
       seq_items (map (\<lambda>a. requireCurrentDelivery (map_of d (decisionId, DeliveryFile ch a)))
         (delivery_names decisionId ch d))))"

definition settlement_names :: "string \<Rightarrow> string \<Rightarrow> decision_tree \<Rightarrow> string list" where
  "settlement_names decisionId channel d = sort_key (\<lambda>a. a @ ''.json'') (concat (map (\<lambda>(p, c). case p of
     (i, SettlementFile ch a) \<Rightarrow> if i = decisionId \<and> ch = channel then [a] else [] | _ \<Rightarrow> []) d))"

definition listSettlements :: "string \<Rightarrow> string \<Rightarrow> decision_tree \<Rightarrow> settlement list decided" where
  "listSettlements decisionId channel d =
     or_error (requireSimpleId channel ''Human decision channel'') (\<lambda>ch.
     or_error (assertId decisionId ''decision id'') (\<lambda>_.
       Inr (concat (map (\<lambda>a. case map_of d (decisionId, SettlementFile ch a) of
         Some (CSettlement v) \<Rightarrow> [v] | _ \<Rightarrow> []) (settlement_names decisionId ch d)))))"

text \<open>The directories of the root, in the order they were created; each id is read with its checks.\<close>

definition listRequests :: "(string \<Rightarrow> string) \<Rightarrow> decision_tree \<Rightarrow> request list decided" where
  "listRequests sha256 d = or_error (seq_items (map (\<lambda>i. fst (exec (readRequest sha256 i (\<lambda>r. Ret (Inr r))) d))
     (remdups (map (\<lambda>(p, c). fst p) d)))) (\<lambda>rs. Inr (concat (map (\<lambda>r. case r of None \<Rightarrow> [] | Some q \<Rightarrow> [q]) rs)))"

end
