(* ===== verification/PresentationLaws.thy ===== *)
theory PresentationLaws
  imports DecisionPresentation
begin

text \<open>
  What a normalised presentation is, that normalising it again changes nothing, and when the
  presentation made from a value is one.
\<close>

section \<open>Presentations that may be shown\<close>

definition display_ok :: "string \<Rightarrow> bool" where
  "display_ok t \<longleftrightarrow> trim t \<noteq> [] \<and> length t \<le> MAX_PRESENTATION_STRING_CODE_UNITS \<and> \<not> hasControlCharacter t False"

definition multiline_ok :: "string \<Rightarrow> bool" where
  "multiline_ok t \<longleftrightarrow> trim t \<noteq> [] \<and> length t \<le> MAX_PRESENTATION_STRING_CODE_UNITS \<and> \<not> hasControlCharacter t True"

definition items_ok :: "('a \<Rightarrow> bool) \<Rightarrow> 'a list \<Rightarrow> bool" where
  "items_ok ok xs \<longleftrightarrow> xs \<noteq> [] \<and> length xs \<le> MAX_PRESENTATION_ITEMS \<and> list_all ok xs"

fun block_ok :: "block \<Rightarrow> bool" where
  "block_ok (Paragraph t) = multiline_ok t"
| "block_ok (Section t) = display_ok t"
| "block_ok (Bullets ts) = items_ok display_ok ts"
| "block_ok (Fields fs) = items_ok (\<lambda>(l, v). display_ok l \<and> display_ok v) fs"
| "block_ok (Preformatted t) = multiline_ok t"

definition presentable :: "presentation \<Rightarrow> bool" where
  "presentable p \<longleftrightarrow> display_ok (pr_summary p) \<and> length (pr_blocks p) \<le> MAX_PRESENTATION_BLOCKS \<and>
     list_all block_ok (pr_blocks p) \<and> presentationCodeUnits p \<le> MAX_PRESENTATION_CODE_UNITS"

section \<open>Normalising texts\<close>

lemma code_of_LF: "code_of CHR 0x0A = 10" "code_of CHR 0x0D = 13"
  by (simp_all add: code_of_def)

lemma replace_crlf_id: "CHR 0x0D \<notin> set s \<Longrightarrow> replace_crlf s = s"
  by (induction s rule: replace_crlf.induct) auto

lemma unix_lines_id: "CHR 0x0D \<notin> set s \<Longrightarrow> unix_lines s = s"
  by (auto simp: unix_lines_def replace_crlf_id intro: map_idI)

lemma no_CR_unix_lines: "CHR 0x0D \<notin> set (unix_lines s)"
  by (auto simp: unix_lines_def)

lemma no_CR_if_clean: "\<not> hasControlCharacter t allow \<Longrightarrow> CHR 0x0D \<notin> set t"
proof
  assume clean: "\<not> hasControlCharacter t allow" and CR: "CHR 0x0D \<in> set t"
  have "isControlCode (code_of CHR 0x0D) allow" by (simp add: isControlCode_def code_of_LF)
  then show False using clean CR by (auto simp: hasControlCharacter_def list_ex_iff)
qed

lemma control_mono: "\<not> hasControlCharacter t False \<Longrightarrow> \<not> hasControlCharacter t True"
  by (auto simp: hasControlCharacter_def list_ex_iff isControlCode_def split: if_splits)

lemma display_multiline: "display_ok t \<Longrightarrow> multiline_ok t"
  by (simp add: display_ok_def multiline_ok_def control_mono)

lemma normalizeDisplayString_ok: "normalizeDisplayString v label = Inr t \<Longrightarrow> display_ok t"
  by (auto simp: normalizeDisplayString_def normalizeString_def display_ok_def Let_def split: jv.splits if_splits)

lemma normalizeMultilineString_ok: "normalizeMultilineString v label = Inr t \<Longrightarrow> multiline_ok t"
  by (auto simp: normalizeMultilineString_def normalizeString_def multiline_ok_def Let_def split: jv.splits if_splits)

lemma normalizeDisplayString_id [simp]: "display_ok t \<Longrightarrow> normalizeDisplayString (JStr t) label = Inr t"
  using no_CR_if_clean[of t False]
  by (simp add: normalizeDisplayString_def normalizeString_def display_ok_def unix_lines_id)

lemma normalizeMultilineString_id [simp]: "multiline_ok t \<Longrightarrow> normalizeMultilineString (JStr t) label = Inr t"
  using no_CR_if_clean[of t True]
  by (simp add: normalizeMultilineString_def normalizeString_def multiline_ok_def unix_lines_id)

section \<open>Normalising items and blocks\<close>

lemma seq_enumerate_ok:
  assumes "seq_items (map (\<lambda>(i, v). f v (g i)) (enumerate n vs)) = Inr ts"
    and "\<And>v l t. f v l = Inr t \<Longrightarrow> ok t"
  shows "length ts = length vs \<and> list_all ok ts"
proof -
  have eq: "map (\<lambda>(i, v). f v (g i)) (enumerate n vs) = map Inr ts"
    using seq_items_InrD[OF assms(1)] .
  have "length ts = length vs" using arg_cong[OF eq, of length] by (simp add: enumerate_eq_zip)
  moreover have "ok t" if "t \<in> set ts" for t
  proof -
    have "Inr t \<in> set (map (\<lambda>(i, v). f v (g i)) (enumerate n vs))" using that by (simp only: eq) simp
    then show ?thesis using assms(2) by force
  qed
  ultimately show ?thesis by (simp add: list_all_iff)
qed

lemma seq_enumerate_id:
  assumes "\<And>x l. x \<in> set xs \<Longrightarrow> f (j x) l = Inr x"
  shows "seq_items (map (\<lambda>(i, v). f v (g i)) (enumerate n (map j xs))) = Inr xs"
proof -
  have "map (\<lambda>(i, v). f v (g i)) (enumerate n (map j xs)) = map Inr xs"
    by (rule nth_equalityI) (auto simp: enumerate_eq_zip assms)
  then show ?thesis by simp
qed

lemma normalizeItems_ok:
  assumes "normalizeItems v label each = Inr ts" and "\<And>v l t. each v l = Inr t \<Longrightarrow> ok t"
  shows "items_ok ok ts"
proof -
  obtain vs where vs: "vs \<noteq> []" "length vs \<le> MAX_PRESENTATION_ITEMS"
    "seq_items (map (\<lambda>(i, item). each item (item_label label i)) (enumerate 0 vs)) = Inr ts"
    using assms(1) by (auto simp: normalizeItems_def split: jv.splits if_splits)
  have "length ts = length vs \<and> list_all ok ts"
    by (rule seq_enumerate_ok[where f = each and g = "item_label label", OF vs(3) assms(2)])
  then show ?thesis using vs(1,2) by (auto simp: items_ok_def)
qed

lemma normalizeItems_id:
  assumes "items_ok ok xs" and "\<And>x l. ok x \<Longrightarrow> each (j x) l = Inr x"
  shows "normalizeItems (JArr (map j xs)) label each = Inr xs"
  using assms seq_enumerate_id[of xs each j "item_label label" 0]
  by (simp add: normalizeItems_def items_ok_def list_all_iff)

lemma normalizeField_ok: "normalizeField v label = Inr f \<Longrightarrow> (\<lambda>(l, v). display_ok l \<and> display_ok v) f"
  by (auto simp: normalizeField_def dest: normalizeDisplayString_ok)

lemma normalizeField_id:
  "display_ok l \<and> display_ok v \<Longrightarrow> normalizeField (JObj [(''label'', JStr l), (''value'', JStr v)]) label = Inr (l, v)"
  by (simp add: normalizeField_def requireRecord_def requireExactKeys_def has_own_def obj_keys_def field_def obj_get_def)

lemma normalizeBlock_ok: "normalizeBlock v label = Inr b \<Longrightarrow> block_ok b"
  by (auto simp: normalizeBlock_def split: if_splits
      dest: normalizeMultilineString_ok normalizeDisplayString_ok normalizeItems_ok[OF _ normalizeDisplayString_ok]
        normalizeItems_ok[OF _ normalizeField_ok])

lemma normalizeBlock_id: "block_ok b \<Longrightarrow> normalizeBlock (block_json b) label = Inr b"
proof (cases b)
  case (Fields fs)
  assume "block_ok b"
  then have "normalizeItems (JArr (map (\<lambda>(l, v). JObj [(''label'', JStr l), (''value'', JStr v)]) fs)) l normalizeField = Inr fs" for l
    by (intro normalizeItems_id[where ok = "\<lambda>(l, v). display_ok l \<and> display_ok v"])
      (auto simp: Fields normalizeField_id)
  then show ?thesis
    by (simp add: Fields normalizeBlock_def requireRecord_def requireExactKeys_def has_own_def obj_keys_def field_def obj_get_def)
qed (simp_all add: normalizeBlock_def requireRecord_def requireExactKeys_def has_own_def obj_keys_def field_def obj_get_def
      normalizeItems_id[where ok = display_ok and j = JStr])

lemma normalize_presentable: "normalizeDecisionPresentation v = Inr p \<Longrightarrow> presentable p"
proof -
  assume "normalizeDecisionPresentation v = Inr p"
  then obtain ob summary where summary: "normalizeDisplayString (field ob ''summary'') ''Decision presentation summary'' = Inr summary"
    and rest: "(case field ob ''blocks'' of
       JArr vs \<Rightarrow>
         if MAX_PRESENTATION_BLOCKS < length vs then Inl (TooManyBlocks (length vs))
         else or_error (seq_items (map (\<lambda>(i, v). normalizeBlock v (block_label i)) (enumerate 0 vs))) (\<lambda>blocks.
           let normalized = \<lparr>pr_summary = summary, pr_blocks = blocks\<rparr> in
           if MAX_PRESENTATION_CODE_UNITS < presentationCodeUnits normalized
           then Inl (TooManyUnits (presentationCodeUnits normalized)) else Inr normalized)
     | _ \<Rightarrow> Inl BlocksNotArray) = Inr p"
    unfolding normalizeDecisionPresentation_def by (simp split: if_splits) blast
  obtain vs where vs: "field ob ''blocks'' = JArr vs" using rest by (cases "field ob ''blocks''") simp_all
  obtain blocks where few: "length vs \<le> MAX_PRESENTATION_BLOCKS"
    and blocks: "seq_items (map (\<lambda>(i, v). normalizeBlock v (block_label i)) (enumerate 0 vs)) = Inr blocks"
    and p: "p = \<lparr>pr_summary = summary, pr_blocks = blocks\<rparr>" "presentationCodeUnits p \<le> MAX_PRESENTATION_CODE_UNITS"
    using rest unfolding vs by (auto simp: Let_def split: if_splits)
  have "length blocks = length vs \<and> list_all block_ok blocks"
    by (rule seq_enumerate_ok[where f = normalizeBlock and g = block_label, OF blocks normalizeBlock_ok])
  then show ?thesis using few p normalizeDisplayString_ok[OF summary] by (simp add: presentable_def)
qed

lemma normalized_from_presentable:
  assumes p: "presentable p"
  shows "normalizeDecisionPresentation (presentation_json p) = Inr p"
proof -
  have same: "\<lparr>pr_summary = pr_summary p, pr_blocks = pr_blocks p\<rparr> = p" by simp
  have "seq_items (map (\<lambda>(i, v). normalizeBlock v (block_label i)) (enumerate 0 (map block_json (pr_blocks p)))) = Inr (pr_blocks p)"
    by (rule seq_enumerate_id) (use p in \<open>auto simp: presentable_def list_all_iff normalizeBlock_id\<close>)
  then show "normalizeDecisionPresentation (presentation_json p) = Inr p"
    using p by (simp add: normalizeDecisionPresentation_def presentation_json_def requireRecord_def requireExactKeys_def
        has_own_def obj_keys_def field_def obj_get_def presentable_def PRESENTATION_SCHEMA_def Let_def same)
qed

text \<open>
  C26: Normalisation is stable.  The results of normalisation are exactly the presentations whose
  texts, items and size are within the limits, and exactly these are accepted again unchanged, so
  the digest of a presentation does not depend on how often it was normalised.
\<close>

theorem normalized_presentation_stable:
  "((\<exists>v. normalizeDecisionPresentation v = Inr p) \<longleftrightarrow> presentable p) \<and>
   (normalizeDecisionPresentation (presentation_json p) = Inr p \<longleftrightarrow> presentable p)"
  using normalize_presentable normalized_from_presentable by blast

section \<open>The texts made from a value\<close>

lemma isControlCode_REPLACEMENT: "\<not> isControlCode (code_of REPLACEMENT) allow"
  by (simp add: isControlCode_def REPLACEMENT_def code_of_def)

lemma clean_subset: "set t \<subseteq> set s \<Longrightarrow> \<not> hasControlCharacter s a \<Longrightarrow> \<not> hasControlCharacter t a"
  by (auto simp: hasControlCharacter_def list_ex_iff)

lemma sanitized_clean: "\<not> hasControlCharacter (sanitizeValueText s) True"
  by (auto simp: hasControlCharacter_def list_ex_iff sanitizeValueText_def isControlCode_REPLACEMENT split: if_splits)

lemma trim_end_Nil: "trim_end s = [] \<longleftrightarrow> list_all is_js_space s"
  by (simp add: trim_end_def list_all_iff)

lemma trim_empty: "trim s = [] \<longleftrightarrow> list_all is_js_space s"
proof -
  have "list_all is_js_space (dropWhile is_js_space s) \<longleftrightarrow> list_all is_js_space s"
    by (induction s) auto
  then show ?thesis by (simp add: trim_def trim_end_Nil)
qed

lemma trim_end_prefix: "\<exists>u. s = trim_end s @ u"
  by (metis trim_end_def rev_append rev_rev_ident takeWhile_dropWhile_id)

lemma set_trim: "set (trim s) \<subseteq> set s"
proof -
  obtain u where "dropWhile is_js_space s = trim s @ u" using trim_end_prefix unfolding trim_def by blast
  then have "set (trim s) \<subseteq> set (dropWhile is_js_space s)" by (metis set_append Un_upper1)
  then show ?thesis using set_dropWhileD by fastforce
qed

lemma trim_head: "trim s = c # cs \<Longrightarrow> \<not> is_js_space c"
proof -
  assume c: "trim s = c # cs"
  obtain u where "dropWhile is_js_space s = trim s @ u" using trim_end_prefix unfolding trim_def by blast
  then have "dropWhile is_js_space s = c # (cs @ u)" using c by simp
  then show ?thesis by (simp add: dropWhile_eq_Cons_conv)
qed

lemma spaced_chars: "c \<in> set (spaced p s) \<Longrightarrow> c = CHR '' '' \<or> (c \<in> set s \<and> \<not> p c)"
  by (induction p s rule: spaced.induct) (auto split: if_splits dest: set_dropWhileD)

lemma uncamel_chars: "c \<in> set (uncamel s) \<Longrightarrow> c = CHR '' '' \<or> c \<in> set s"
  by (induction s rule: uncamel.induct) (auto split: if_splits)

lemma is_space_space: "is_js_space CHR '' ''" "\<not> isControlCode (code_of CHR '' '') a"
  by (simp_all add: is_js_space_def code_of_def isControlCode_def)

lemma code_char_of: "n < 256 \<Longrightarrow> code_of (char_of n) = n"
  by (simp add: code_of_def)

lemma toUpperCase_ok:
  assumes "\<not> is_js_space c" "\<not> isControlCode (code_of c) False"
  shows "\<forall>d \<in> set (toUpperCase c). \<not> is_js_space d \<and> \<not> isControlCode (code_of d) False" "toUpperCase c \<noteq> []"
proof -
  show "\<forall>d \<in> set (toUpperCase c). \<not> is_js_space d \<and> \<not> isControlCode (code_of d) False"
  proof (cases "code_of c = 223")
    case True
    then show ?thesis by (simp add: toUpperCase_def is_js_space_def isControlCode_def code_of_def)
  next
    case False
    show ?thesis
    proof (cases "is_lower c \<or> (224 \<le> code_of c \<and> code_of c \<le> 254 \<and> code_of c \<noteq> 247)")
      case True
      then have "code_of (char_of (code_of c - 32)) = code_of c - 32" "65 \<le> code_of c - 32"
        "code_of c - 32 \<noteq> 127" "code_of c - 32 \<noteq> 160"
        by (auto simp: is_lower_def code_char_of)
      then show ?thesis using True False by (simp add: toUpperCase_def is_js_space_def isControlCode_def)
    next
      case not_lower: False
      then show ?thesis using False assms by (auto simp: toUpperCase_def)
    qed
  qed
  show "toUpperCase c \<noteq> []" by (simp add: toUpperCase_def)
qed

definition display_shape :: "string \<Rightarrow> bool" where
  "display_shape t \<longleftrightarrow> trim t \<noteq> [] \<and> \<not> hasControlCharacter t False"

definition multiline_shape :: "string \<Rightarrow> bool" where
  "multiline_shape t \<longleftrightarrow> trim t \<noteq> [] \<and> \<not> hasControlCharacter t True"

lemma control_False: "isControlCode n False \<Longrightarrow> isControlCode n True \<or> n = 9 \<or> n = 10"
  by (auto simp: isControlCode_def split: if_splits)

lemma valueLabel_shape: "display_shape (valueLabel v)"
proof -
  let ?s = "trim (spaced is_js_space (uncamel (spaced (\<lambda>c. c = CHR ''_'' \<or> c = CHR ''-'') (sanitizeValueText v))))"
  have clean: "\<not> isControlCode (code_of c) False" if "c \<in> set ?s" for c
  proof
    assume control: "isControlCode (code_of c) False"
    have "c = CHR '' '' \<or> (c \<in> set (sanitizeValueText v) \<and> \<not> is_js_space c)"
      using that set_trim spaced_chars uncamel_chars by blast
    then have c: "c \<in> set (sanitizeValueText v)" "\<not> is_js_space c"
      using control is_space_space(2) by auto
    have "code_of c \<noteq> 9" "code_of c \<noteq> 10" using c(2) by (auto simp: is_js_space_def)
    then have "isControlCode (code_of c) True" using control control_False by blast
    then show False using sanitized_clean[of v] c(1) by (auto simp: hasControlCharacter_def list_ex_iff)
  qed
  show ?thesis
  proof (cases ?s)
    case Nil
    have "display_shape ''Value''" by code_simp
    then show ?thesis by (simp add: valueLabel_def Nil)
  next
    case (Cons c cs)
    note up = toUpperCase_ok[OF trim_head[OF Cons] clean[of c]]
    have "trim (toUpperCase c @ cs) \<noteq> []"
      using up Cons by (cases "toUpperCase c") (auto simp: trim_empty)
    moreover have "\<not> hasControlCharacter (toUpperCase c @ cs) False"
      using up(1) clean Cons by (auto simp: hasControlCharacter_def list_ex_iff)
    ultimately show ?thesis by (simp add: valueLabel_def Cons display_shape_def)
  qed
qed

lemma chunks_parts:
  "0 < n \<Longrightarrow> ys \<in> set (chunks n xs) \<Longrightarrow> ys \<noteq> [] \<and> length ys \<le> n \<and> set ys \<subseteq> set xs"
proof (induction n xs rule: chunks.induct)
  case (1 n xs)
  show ?case
  proof (cases "ys = take n xs")
    case True
    then show ?thesis using 1 set_take_subset[of n xs] by (auto simp: chunks.simps[of n xs] split: if_splits)
  next
    case False
    then have "ys \<in> set (chunks n (drop n xs))" "\<not> (xs = [] \<or> n = 0)"
      using 1(3) by (auto simp: chunks.simps[of n xs] split: if_splits)
    then show ?thesis using 1(1,2) set_drop_subset[of n xs] by blast
  qed
qed

section \<open>The blocks made from a value\<close>

fun block_shape :: "block \<Rightarrow> bool" where
  "block_shape (Paragraph t) = multiline_shape t"
| "block_shape (Section t) = display_shape t"
| "block_shape (Bullets ts) = items_ok display_shape ts"
| "block_shape (Fields fs) = items_ok (\<lambda>(l, v). display_shape l \<and> display_shape v) fs"
| "block_shape (Preformatted t) = multiline_shape t"

lemma block_shape_fits: "block_ok b \<longleftrightarrow> block_shape b \<and> valueBlockFitsSchema b"
  by (cases b) (auto simp: display_ok_def multiline_ok_def display_shape_def multiline_shape_def items_ok_def list_all_iff)

text \<open>Values whose scalars are single non-blank lines.\<close>

fun showable :: "jv \<Rightarrow> bool" where
  "showable (JArr vs) = list_all showable vs"
| "showable (JObj kvs) = list_all (\<lambda>kv. showable (snd kv)) kvs"
| "showable JUndef = False"
| "showable JFun = True"
| "showable JExotic = True"
| "showable v = display_shape (valueScalar v)"

lemma showable_scalar: "showable v \<Longrightarrow> isScalar v \<Longrightarrow> display_shape (valueScalar v)"
  by (cases v) simp_all

lemma none_text: "multiline_shape ''None''" "display_shape ''Decision details''"
  by code_simp+

lemma appendValueText_shape: "display_shape title \<Longrightarrow> list_all block_shape (appendValueText s title)"
proof -
  assume title: "display_shape title"
  have "multiline_shape (if trim part = [] then ''None'' else part)"
    if "part \<in> set (splitByCodeUnits (sanitizeValueText s) MAX_PRESENTATION_STRING_CODE_UNITS)" for part
  proof -
    have "set part \<subseteq> set (sanitizeValueText s)"
      using that chunks_parts[of MAX_PRESENTATION_STRING_CODE_UNITS part "sanitizeValueText s"]
      by (auto simp: splitByCodeUnits_def presentation_limits split: if_splits)
    then have "\<not> hasControlCharacter part True" using clean_subset sanitized_clean by blast
    then show ?thesis using none_text(1) by (auto simp: multiline_shape_def)
  qed
  then show ?thesis using title by (auto simp: appendValueText_def list_all_iff)
qed

lemma append_scalar_shape: "display_shape (valueScalar v) \<Longrightarrow> list_all block_shape (append_scalar v label)"
  by (auto simp: append_scalar_def Let_def none_text appendValueText_shape valueLabel_shape items_ok_def
      presentation_limits split: option.split)

lemma titled_shape: "list_all block_shape (titled label)"
  by (simp add: titled_def valueLabel_shape split: option.split)

lemma chunk_items: "list_all ok xs \<Longrightarrow> ys \<in> set (chunks MAX_PRESENTATION_ITEMS xs) \<Longrightarrow> items_ok ok ys"
  using chunks_parts[of MAX_PRESENTATION_ITEMS ys xs] by (auto simp: items_ok_def list_all_iff presentation_limits)

lemma seq_items_total:
  "(\<And>r. r \<in> set rs \<Longrightarrow> \<exists>bs. r = Inr bs \<and> list_all ok bs) \<Longrightarrow>
    \<exists>bss. seq_items rs = Inr bss \<and> list_all ok (concat bss)"
proof (induction rs)
  case (Cons r rs)
  obtain bs where "r = Inr bs" "list_all ok bs" using Cons.prems[of r] by auto
  moreover obtain bss where "seq_items rs = Inr bss" "list_all ok (concat bss)"
    using Cons.IH Cons.prems by auto
  ultimately show ?case by simp
qed simp

lemma appendValue_shape: "showable v \<Longrightarrow> \<exists>bs. appendValue v label = Inr bs \<and> list_all block_shape bs"
proof (induction v label rule: appendValue.induct)
  case (1 vs label)
  show ?case
  proof (cases "vs = []")
    case False
    show ?thesis
    proof (cases "list_all short_scalar vs")
      case True
      have "list_all display_shape (map valueScalar vs)"
        using True 1(2) by (auto simp: list_all_iff short_scalar_def intro: showable_scalar)
      then have "list_all block_shape (map Bullets (chunks MAX_PRESENTATION_ITEMS (map valueScalar vs)))"
        by (auto simp: list_all_iff[where P = block_shape] intro: chunk_items)
      then show ?thesis using True False titled_shape by simp
    next
      case long: False
      have "\<exists>bss. seq_items (map (\<lambda>(i, v). appendValue v (Some (''Item '' @ nat_dec (i + 1)))) (enumerate 0 vs)) = Inr bss \<and>
          list_all block_shape (concat bss)"
      proof (rule seq_items_total)
        fix r assume "r \<in> set (map (\<lambda>(i, v). appendValue v (Some (''Item '' @ nat_dec (i + 1)))) (enumerate 0 vs))"
        then obtain i v where iv: "(i, v) \<in> set (enumerate 0 vs)" "r = appendValue v (Some (''Item '' @ nat_dec (i + 1)))"
          by auto
        then have "v \<in> set vs" by (auto simp: enumerate_eq_zip dest: set_zip_rightD)
        then have "showable v" using 1(2) by (simp add: list_all_iff)
        then show "\<exists>bs. r = Inr bs \<and> list_all block_shape bs"
          using 1(1)[OF False long iv(1) refl] iv(2) by blast
      qed
      then show ?thesis using False long titled_shape by auto
    qed
  qed (simp add: none_text titled_shape)
next
  case (2 kvs label)
  show ?case
  proof (cases "kvs = []")
    case False
    let ?long = "filter (\<lambda>(k, v). \<not> short_scalar v) kvs"
    have "\<exists>bss. seq_items (map snd (sort_key fst (map (\<lambda>(k, v). (k, appendValue v (Some k))) ?long))) = Inr bss \<and>
        list_all block_shape (concat bss)"
    proof (rule seq_items_total)
      fix r assume "r \<in> set (map snd (sort_key fst (map (\<lambda>(k, v). (k, appendValue v (Some k))) ?long)))"
      then obtain k v where kv: "(k, v) \<in> set ?long" "r = appendValue v (Some k)" by auto
      then have "showable v" using 2(2) by (auto simp: list_all_iff)
      then show "\<exists>bs. r = Inr bs \<and> list_all block_shape bs" using 2(1)[OF False kv(1) refl] kv(2) by blast
    qed
    moreover have "list_all (\<lambda>(l, v). display_shape l \<and> display_shape v) (value_fields kvs)"
      using 2(2) showable_scalar by (auto simp: list_all_iff value_fields_def short_scalar_def valueLabel_shape)
    then have "list_all block_shape (map Fields (chunks MAX_PRESENTATION_ITEMS (value_fields kvs)))"
      by (auto simp: list_all_iff[where P = block_shape] intro: chunk_items)
    ultimately show ?thesis using False titled_shape by auto
  qed (simp add: none_text titled_shape)
qed (simp_all add: none_text titled_shape append_scalar_shape)

section \<open>Bounding a presentation\<close>

definition units_of :: "block list \<Rightarrow> nat" where
  "units_of bs = sum_list (map presentationBlockCodeUnits bs)"

lemma keep_block_step:
  "keep_block budget b (kept, used, omitted) =
    (if MAX_PRESENTATION_BLOCKS \<le> length kept \<or> \<not> valueBlockFitsSchema b \<or> budget < int (used + presentationBlockCodeUnits b)
     then (kept, used, True) else (kept @ [b], used + presentationBlockCodeUnits b, omitted))"
  by (simp add: keep_block_def)

lemma fold_keep:
  assumes "fold (keep_block budget) bs (kept, used, om) = (kept', used', om')"
    and "length kept \<le> MAX_PRESENTATION_BLOCKS" "list_all valueBlockFitsSchema kept" "used = units_of kept"
    and "int used \<le> max 0 budget"
  shows "length kept' \<le> MAX_PRESENTATION_BLOCKS \<and> list_all valueBlockFitsSchema kept' \<and> used' = units_of kept' \<and>
    int used' \<le> max 0 budget \<and> set kept' \<subseteq> set kept \<union> set bs \<and> (om' \<or> kept' = kept @ bs)"
  using assms
proof (induction bs arbitrary: kept used om)
  case (Cons b bs)
  show ?case
  proof (cases "MAX_PRESENTATION_BLOCKS \<le> length kept \<or> \<not> valueBlockFitsSchema b \<or> budget < int (used + presentationBlockCodeUnits b)")
    case True
    then have step: "fold (keep_block budget) bs (kept, used, True) = (kept', used', om')"
      using Cons.prems(1) by (simp add: keep_block_step)
    have om: "om'" if "fold (keep_block budget) cs (x, y, True) = (x', y', om')" for cs x y x' y' om'
      using that by (induction cs arbitrary: x y) (auto simp: keep_block_step split: if_splits)
    then show ?thesis using Cons.IH[OF step Cons.prems(2-5)] om[OF step] by auto
  next
    case False
    then have step: "fold (keep_block budget) bs (kept @ [b], used + presentationBlockCodeUnits b, om) = (kept', used', om')"
      using Cons.prems(1) by (simp add: keep_block_step)
    show ?thesis
      using Cons.IH[OF step] Cons.prems(2-5) False by (auto simp: units_of_def)
  qed
qed simp

lemma units_butlast: "units_of (butlast bs) \<le> units_of bs"
  by (induction bs) (auto simp: units_of_def)

text \<open>
  A bounded presentation is within the limits.  Whatever blocks a value gave rise to, what
  boundValuePresentation keeps has at most 256 blocks and 64000 code units, every kept block fits
  its length limit, and when it leaves anything out it says so in a last paragraph.
\<close>

lemma bounded_presentation_fits:
  assumes "length summary + length (omission sha256 (length blocks) v) \<le> MAX_PRESENTATION_CODE_UNITS"
    and "length (omission sha256 (length blocks) v) \<le> MAX_PRESENTATION_STRING_CODE_UNITS"
    and "p = boundValuePresentation sha256 summary blocks v"
  shows "length (pr_blocks p) \<le> MAX_PRESENTATION_BLOCKS \<and> presentationCodeUnits p \<le> MAX_PRESENTATION_CODE_UNITS \<and>
    list_all valueBlockFitsSchema (pr_blocks p) \<and> pr_summary p = summary \<and>
    (pr_blocks p = blocks \<or> (\<exists>kept. pr_blocks p = kept @ [Paragraph (omission sha256 (length blocks) v)] \<and> set kept \<subseteq> set blocks))"
proof (cases "length blocks \<le> MAX_PRESENTATION_BLOCKS \<and> list_all valueBlockFitsSchema blocks \<and>
    presentationCodeUnits \<lparr>pr_summary = summary, pr_blocks = blocks\<rparr> \<le> MAX_PRESENTATION_CODE_UNITS")
  case True
  then show ?thesis using assms(3) by (simp add: boundValuePresentation_def)
next
  case False
  let ?note = "omission sha256 (length blocks) v"
  let ?budget = "int MAX_PRESENTATION_CODE_UNITS - int (length summary) - int (length ?note)"
  obtain kept used om where run: "fold (keep_block ?budget) blocks ([], 0, False) = (kept, used, om)"
    by (metis prod_cases3)
  have kept: "length kept \<le> MAX_PRESENTATION_BLOCKS" "list_all valueBlockFitsSchema kept" "used = units_of kept"
    "int used \<le> max 0 ?budget" "set kept \<subseteq> set blocks" "om \<or> kept = blocks"
    using fold_keep[OF run] by (simp_all add: units_of_def)
  have budget: "units_of kept + length summary + length ?note \<le> MAX_PRESENTATION_CODE_UNITS"
    using kept(3,4) assms(1) by linarith
  let ?rest = "if MAX_PRESENTATION_BLOCKS \<le> length kept then butlast kept else kept"
  have p: "pr_summary p = summary" "pr_blocks p = (if om then ?rest @ [Paragraph ?note] else kept)"
    using assms(3) unfolding boundValuePresentation_def Let_def if_not_P[OF False] run by simp_all
  have rest: "length ?rest < MAX_PRESENTATION_BLOCKS" "set ?rest \<subseteq> set kept" "units_of ?rest \<le> units_of kept"
    using kept(1) units_butlast[of kept] by (auto simp: presentation_limits dest: in_set_butlastD)
  show ?thesis
  proof (cases om)
    case True
    have "presentationCodeUnits p = length summary + units_of ?rest + length ?note"
      using p True by (simp add: presentationCodeUnits_def units_of_def)
    then show ?thesis
      using p True rest kept(2,5) budget assms(2) by (auto simp: list_all_iff)
  next
    case om: False
    have "presentationCodeUnits p = length summary + units_of kept"
      using p om by (simp add: presentationCodeUnits_def units_of_def)
    then show ?thesis using p om kept budget by auto
  qed
qed

section \<open>Presenting a value\<close>

text \<open>The documented form of a SHA-256 digest in hexadecimal.\<close>

definition hex_digest :: "(string \<Rightarrow> string) \<Rightarrow> bool" where
  "hex_digest sha256 \<longleftrightarrow> (\<forall>s. length (sha256 s) = 64 \<and> list_all is_alnum (sha256 s))"

lemma control_append: "hasControlCharacter (s @ t) a \<longleftrightarrow> hasControlCharacter s a \<or> hasControlCharacter t a"
  by (simp add: hasControlCharacter_def)

lemma alnum_clean: "list_all is_alnum s \<Longrightarrow> \<not> hasControlCharacter s a"
  by (auto simp: hasControlCharacter_def list_all_iff list_ex_iff isControlCode_def is_alnum_def is_alpha_def
      is_upper_def is_lower_def is_digit_def split: if_splits)

lemma digits_clean: "\<not> hasControlCharacter (nat_dec n) a"
  by (rule alnum_clean) (use dec_digits_digits[of n] in \<open>auto simp: nat_dec_def list_all_iff is_alnum_def\<close>)

lemma length_nat_dec: "n < 10 ^ k \<Longrightarrow> 0 < k \<Longrightarrow> length (nat_dec n) \<le> k"
  unfolding nat_dec_def
proof (induction k arbitrary: n)
  case (Suc k)
  show ?case
  proof (cases "n < 10")
    case False
    then have k: "0 < k" using Suc.prems by (cases k) auto
    have "n div 10 < 10 ^ k" using Suc.prems by (simp add: less_mult_imp_div_less mult.commute)
    then show ?thesis using Suc.IH[of "n div 10"] k False by (simp add: dec_digits.simps[of n])
  qed (simp add: dec_digits.simps[of n])
qed simp

lemma omission_text: "\<not> hasControlCharacter ''Some decision content is not shown because it exceeds the readable presentation limit. Inspect the canonical source value before answering. Value digest: '' True"
  "\<not> hasControlCharacter ''. Original value: '' True" "\<not> hasControlCharacter '' UTF-16 code units. Generated blocks: '' True"
  "\<not> hasControlCharacter ''sha256:'' True" "\<not> hasControlCharacter ''.'' True"
  by code_simp+

lemma omission_ok:
  assumes "hex_digest sha256" "length (canonical_text v) < 10 ^ 15" "n < 10 ^ 15"
  shows "multiline_shape (omission sha256 n v)" "length (omission sha256 n v) \<le> 400"
proof -
  have sha: "length (sha256 s) = 64" "\<not> hasControlCharacter (sha256 s) True" for s
    using assms(1) alnum_clean by (auto simp: hex_digest_def)
  have "\<not> hasControlCharacter (omission sha256 n v) True"
    unfolding omission_def digestCanonical_def
    by (simp only: control_append omission_text sha digits_clean) simp
  moreover have "trim (omission sha256 n v) \<noteq> []"
    by (simp add: trim_empty omission_def is_js_space_def code_of_def)
  ultimately show "multiline_shape (omission sha256 n v)" by (simp add: multiline_shape_def)
  have "length (nat_dec (length (canonical_text v))) \<le> 15" "length (nat_dec n) \<le> 15"
    using assms(2,3) by (auto intro: length_nat_dec)
  then show "length (omission sha256 n v) \<le> 400"
    by (simp add: omission_def digestCanonical_def sha)
qed

lemma value_summary_ok: "display_ok (value_summary v)" "length (value_summary v) \<le> 40"
proof -
  have "display_ok ''Review the decision message below.''" "display_ok ''Review the decision details below.''"
    by (simp_all add: display_ok_def hasControlCharacter_def isControlCode_def code_of_def trim_empty is_js_space_def
        presentation_limits)
  then show "display_ok (value_summary v)" by (simp add: value_summary_def split: jv.split)
  show "length (value_summary v) \<le> 40" by (simp add: value_summary_def split: jv.split)
qed

text \<open>
  Plain values can be presented.  For every text, and for every value whose scalars are single
  non-blank lines, valueDecisionPresentation succeeds, however large the value is, with a
  presentation within all limits.
\<close>

theorem value_presentation_total:
  assumes "showable v \<or> (\<exists>s. v = JStr s)" and "hex_digest sha256" and "length (canonical_text v) < 10 ^ 15"
    and "\<And>bs. value_blocks v = Inr bs \<Longrightarrow> length bs < 10 ^ 15"
  shows "\<exists>p. valueDecisionPresentation sha256 v = Inr p \<and> presentable p"
proof -
  have "\<exists>bs. value_blocks v = Inr bs \<and> list_all block_shape bs"
    using assms(1) appendValue_shape[of v None] appendValueText_shape[OF none_text(2)]
    by (cases v) (auto simp: value_blocks_def)
  then obtain bs where bs: "value_blocks v = Inr bs" "list_all block_shape bs" by blast
  define p where "p = boundValuePresentation sha256 (value_summary v) bs v"
  note note_ok = omission_ok[OF assms(2,3) assms(4)[OF bs(1)]]
  have fits: "length (pr_blocks p) \<le> MAX_PRESENTATION_BLOCKS" "presentationCodeUnits p \<le> MAX_PRESENTATION_CODE_UNITS"
    "list_all valueBlockFitsSchema (pr_blocks p)" "pr_summary p = value_summary v"
    "set (pr_blocks p) \<subseteq> insert (Paragraph (omission sha256 (length bs) v)) (set bs)"
    using bounded_presentation_fits[OF _ _ p_def] note_ok(2) value_summary_ok(2)[of v] by (force simp: presentation_limits)+
  then have "list_all block_ok (pr_blocks p)"
    using bs(2) note_ok(1) by (auto simp: list_all_iff block_shape_fits)
  then have "presentable p" using fits value_summary_ok by (simp add: presentable_def)
  moreover from this have "valueDecisionPresentation sha256 v = Inr p"
    using bs(1) normalized_from_presentable by (simp add: valueDecisionPresentation_def p_def)
  ultimately show ?thesis by blast
qed

definition sample_plan :: jv where
  "sample_plan = JObj [(''planDigest'', JStr ''abc''), (''steps'', JArr [JStr ''Run tests''])]"

lemma sample_plan_blocks:
  "value_blocks sample_plan = Inr [Fields [(''Plan Digest'', ''abc'')], Section ''Steps'', Bullets [''Run tests'']]"
  by code_simp

theorem value_presentation_total_witness:
  "\<exists>p. valueDecisionPresentation (\<lambda>s. replicate 64 (CHR ''0'')) sample_plan = Inr p \<and> presentable p"
proof (rule value_presentation_total)
  have "showable sample_plan" by code_simp
  then show "showable sample_plan \<or> (\<exists>s. sample_plan = JStr s)" ..
  show "hex_digest (\<lambda>s. replicate 64 (CHR ''0''))"
    by (simp add: hex_digest_def list_all_iff is_alnum_def is_digit_def code_of_def)
  have "canonical_text sample_plan = ''{\"planDigest\":\"abc\",\"steps\":[\"Run tests\"]}''" by code_simp
  then show "length (canonical_text sample_plan) < 10 ^ 15" by simp
qed (simp add: sample_plan_blocks)

lemma sample_digits: "char_of (49::nat) = CHR ''1''" "char_of (50::nat) = CHR ''2''"
  by code_simp+

lemmas normalization_eval = sample_digits normalizeDecisionPresentation_def presentation_json_def requireRecord_def
  requireExactKeys_def has_own_def obj_keys_def field_def obj_get_def normalizeBlock_def normalizeItems_def
  normalizeField_def normalizeDisplayString_def normalizeMultilineString_def normalizeString_def
  hasControlCharacter_def isControlCode_def code_of_def unix_lines_def trim_def trim_end_def is_js_space_def
  presentation_limits enumerate_eq_zip item_label_def block_label_def nat_dec_def dec_digits.simps digit_char_def
  LF_def Let_def

section \<open>What cannot be presented\<close>

text \<open>
  A short scalar inside a list or an object becomes an item or a field, which has to be one non-blank
  line; the texts of longer scalars, and of a value that is a scalar itself, become paragraphs.
\<close>

definition unshowable :: "jv \<Rightarrow> bool" where
  "unshowable v \<longleftrightarrow> short_scalar v \<and> \<not> display_shape (valueScalar v)"

fun hides_unshowable :: "jv \<Rightarrow> bool" where
  "hides_unshowable (JArr vs) = list_ex (\<lambda>v. unshowable v \<or> hides_unshowable v) vs"
| "hides_unshowable (JObj kvs) = list_ex (\<lambda>kv. unshowable (snd kv) \<or> hides_unshowable (snd kv)) kvs"
| "hides_unshowable v = False"

definition bad_text :: "string \<Rightarrow> bool" where
  "bad_text t \<longleftrightarrow> CHR 0x0D \<notin> set t \<and> \<not> display_shape t"

fun bad_block :: "block \<Rightarrow> bool" where
  "bad_block (Bullets ts) = list_ex bad_text ts"
| "bad_block (Fields fs) = list_ex (\<lambda>(l, v). bad_text v) fs"
| "bad_block b = False"

lemma sanitized_no_CR: "CHR 0x0D \<notin> set (sanitizeValueText s)"
  using no_CR_if_clean sanitized_clean by blast

lemma valueScalar_no_CR: "CHR 0x0D \<notin> set (valueScalar v)"
  by (cases v) (simp_all add: sanitized_no_CR)

lemma unshowable_text: "short_scalar v \<Longrightarrow> bad_text (valueScalar v) \<longleftrightarrow> unshowable v"
  by (simp add: bad_text_def unshowable_def valueScalar_no_CR)

lemma bad_text_refused: "bad_text t \<Longrightarrow> \<exists>e. normalizeDisplayString (JStr t) label = Inl e"
  by (auto simp: bad_text_def display_shape_def normalizeDisplayString_def normalizeString_def unix_lines_id Let_def)

lemma seq_items_refused: "Inl e \<in> set rs \<Longrightarrow> \<exists>e'. seq_items rs = Inl e'"
  by (cases "seq_items rs") (auto dest: seq_items_InrD)

lemma items_refused:
  assumes "x \<in> set vs" and "\<And>l. \<exists>e. each x l = Inl e"
  shows "\<exists>e. normalizeItems (JArr vs) label each = Inl e"
proof -
  obtain i where i: "i < length vs" "vs ! i = x" using assms(1) by (auto simp: in_set_conv_nth)
  then have "(i, x) \<in> set (enumerate 0 vs)" by (auto simp: in_set_enumerate_eq)
  moreover obtain e where "each x (item_label label i) = Inl e" using assms(2) by blast
  ultimately have "Inl e \<in> set (map (\<lambda>(i, item). each item (item_label label i)) (enumerate 0 vs))" by force
  then show ?thesis using seq_items_refused by (fastforce simp: normalizeItems_def)
qed

lemma bad_block_refused: "bad_block b \<Longrightarrow> \<exists>e. normalizeBlock (block_json b) label = Inl e"
proof (cases b)
  case (Bullets ts)
  assume "bad_block b"
  then obtain t where t: "t \<in> set ts" "bad_text t" using Bullets by (auto simp: list_ex_iff)
  obtain e where "normalizeItems (JArr (map JStr ts)) (label @ '' items'') normalizeDisplayString = Inl e"
    using items_refused[of "JStr t" "map JStr ts" normalizeDisplayString "label @ '' items''"] t bad_text_refused by auto
  then show ?thesis
    by (simp add: Bullets normalizeBlock_def requireRecord_def requireExactKeys_def has_own_def obj_keys_def field_def obj_get_def)
next
  case (Fields fs)
  assume "bad_block b"
  then obtain l v where v: "(l, v) \<in> set fs" "bad_text v" using Fields by (auto simp: list_ex_iff)
  have "\<exists>e. normalizeField (JObj [(''label'', JStr l), (''value'', JStr v)]) m = Inl e" for m
    using bad_text_refused[OF v(2), of "m @ '' value''"]
    by (cases "normalizeDisplayString (JStr l) (m @ '' label'')")
      (auto simp: normalizeField_def requireRecord_def requireExactKeys_def has_own_def obj_keys_def field_def obj_get_def)
  then obtain e where "normalizeItems (JArr (map (\<lambda>(l, v). JObj [(''label'', JStr l), (''value'', JStr v)]) fs)) (label @ '' items'')
      normalizeField = Inl e"
    using v(1) items_refused[of "JObj [(''label'', JStr l), (''value'', JStr v)]"
        "map (\<lambda>(l, v). JObj [(''label'', JStr l), (''value'', JStr v)]) fs" normalizeField "label @ '' items''"] by force
  then show ?thesis
    by (simp add: Fields normalizeBlock_def requireRecord_def requireExactKeys_def has_own_def obj_keys_def field_def obj_get_def)
qed simp_all

lemma bad_presentation_refused:
  assumes "b \<in> set (pr_blocks p)" and "bad_block b"
  shows "\<exists>e. normalizeDecisionPresentation (presentation_json p) = Inl e"
proof -
  obtain i where i: "i < length (pr_blocks p)" "pr_blocks p ! i = b" using assms(1) by (auto simp: in_set_conv_nth)
  then have "(i, block_json b) \<in> set (enumerate 0 (map block_json (pr_blocks p)))" by (auto simp: in_set_enumerate_eq)
  moreover obtain e where "normalizeBlock (block_json b) (block_label i) = Inl e" using bad_block_refused[OF assms(2)] by blast
  ultimately have "Inl e \<in> set (map (\<lambda>(i, v). normalizeBlock v (block_label i)) (enumerate 0 (map block_json (pr_blocks p))))"
    by force
  from seq_items_refused[OF this] obtain e' where failed:
    "seq_items (map (\<lambda>(i, v). normalizeBlock v (block_label i)) (enumerate 0 (map block_json (pr_blocks p)))) = Inl e'" ..
  let ?ob = "[(''schema'', JStr PRESENTATION_SCHEMA), (''summary'', JStr (pr_summary p)), (''blocks'', JArr (map block_json (pr_blocks p)))]"
  have "requireExactKeys ?ob [''schema'', ''summary'', ''blocks''] l = Inr ()" for l
    by (simp add: requireExactKeys_def has_own_def obj_keys_def)
  moreover have "field ?ob ''schema'' = JStr PRESENTATION_SCHEMA" "field ?ob ''blocks'' = JArr (map block_json (pr_blocks p))"
    by (simp_all add: field_def obj_get_def)
  ultimately show ?thesis
    by (cases "normalizeDisplayString (field ?ob ''summary'') ''Decision presentation summary''")
      (simp_all only: normalizeDecisionPresentation_def presentation_json_def requireRecord_def jv.case or_error_simps failed
        simp_thms if_False split: if_split, blast+)
qed

text \<open>The blocks are of the right shape, or one of them holds the text of an unshowable scalar.\<close>

definition shape_iff :: "bool \<Rightarrow> block list \<Rightarrow> bool" where
  "shape_iff bad bs \<longleftrightarrow> (if bad then list_ex bad_block bs else list_all block_shape bs)"

lemma shape_iff_append:
  "shape_iff a xs \<Longrightarrow> shape_iff b ys \<Longrightarrow> shape_iff (a \<or> b) (xs @ ys)"
  by (cases a; cases b) (auto simp: shape_iff_def)

lemma titled_iff: "shape_iff False (titled label)"
  by (simp add: shape_iff_def titled_shape)

lemma chunks_union: "0 < n \<Longrightarrow> \<Union> (set ` set (chunks n xs)) = set xs"
proof (induction n xs rule: chunks.induct)
  case (1 n xs)
  show ?case
  proof (cases "xs = []")
    case False
    then have "chunks n xs = take n xs # chunks n (drop n xs)" using 1(2) by (simp add: chunks.simps[of n xs])
    moreover have "set (take n xs) \<union> set (drop n xs) = set xs" by (metis append_take_drop_id set_append)
    ultimately show ?thesis using 1 False by simp
  qed (simp add: chunks.simps)
qed

lemma chunk_shapes:
  assumes "\<And>x. x \<in> set xs \<Longrightarrow> (if bad x then bad_item x else ok x)"
    and "\<And>ys. bad_block (B ys) \<longleftrightarrow> list_ex bad_item ys" and "\<And>ys. block_shape (B ys) \<longleftrightarrow> items_ok ok ys"
  shows "shape_iff (list_ex bad xs) (map B (chunks MAX_PRESENTATION_ITEMS xs))"
proof (cases "list_ex bad xs")
  case True
  then obtain x where x: "x \<in> set xs" "bad_item x" using assms(1) by (auto simp: list_ex_iff split: if_splits)
  have "0 < MAX_PRESENTATION_ITEMS" by (simp add: presentation_limits)
  then have "x \<in> \<Union> (set ` set (chunks MAX_PRESENTATION_ITEMS xs))" using chunks_union x(1) by metis
  then obtain ys where ys: "ys \<in> set (chunks MAX_PRESENTATION_ITEMS xs)" "x \<in> set ys" by (elim UN_E)
  then have "bad_block (B ys)" using x(2) assms(2) by (auto simp: list_ex_iff)
  moreover have "B ys \<in> set (map B (chunks MAX_PRESENTATION_ITEMS xs))" using ys(1) by simp
  ultimately have "list_ex bad_block (map B (chunks MAX_PRESENTATION_ITEMS xs))" unfolding list_ex_iff by blast
  then show ?thesis using True by (simp add: shape_iff_def)
next
  case False
  then have "ok x" if "x \<in> set xs" for x using assms(1)[OF that] that by (auto simp: list_ex_iff split: if_splits)
  then have all: "list_all ok xs" by (simp add: list_all_iff)
  have "block_shape (B ys)" if "ys \<in> set (chunks MAX_PRESENTATION_ITEMS xs)" for ys
    using chunk_items[OF all that] assms(3) by simp
  then have "list_all block_shape (map B (chunks MAX_PRESENTATION_ITEMS xs))" unfolding list_all_iff by auto
  then show ?thesis using False by (simp add: shape_iff_def)
qed

lemma scalar_iff: "shape_iff (label \<noteq> None \<and> isScalar v \<and> unshowable v) (append_scalar v label)" if "isScalar v"
proof (cases label)
  case None
  then show ?thesis
    using appendValueText_shape[OF none_text(2)] by (simp add: shape_iff_def append_scalar_def Let_def)
next
  case (Some l)
  show ?thesis
  proof (cases "short_scalar v")
    case True
    then have "append_scalar v label = [Fields [(valueLabel l, valueScalar v)]]" using Some by (simp add: append_scalar_def short_scalar_def Let_def)
    then show ?thesis
      using Some that unshowable_text[OF True] True
      by (auto simp: shape_iff_def unshowable_def items_ok_def presentation_limits valueLabel_shape)
  next
    case False
    then have "append_scalar v label = appendValueText (valueScalar v) (valueLabel l)"
      using Some that by (simp add: append_scalar_def short_scalar_def Let_def)
    then show ?thesis using False appendValueText_shape[OF valueLabel_shape] by (simp add: shape_iff_def unshowable_def)
  qed
qed

lemma seq_items_shapes:
  assumes "seq_items (map f xs) = Inr bss" and "\<And>x bs. x \<in> set xs \<Longrightarrow> f x = Inr bs \<Longrightarrow> shape_iff (bad x) bs"
  shows "shape_iff (list_ex bad xs) (concat bss)"
  using assms
proof (induction xs arbitrary: bss)
  case Nil
  then show ?case by (simp add: shape_iff_def)
next
  case (Cons x xs)
  obtain bs rest where "f x = Inr bs" "seq_items (map f xs) = Inr rest" "bss = bs # rest"
    using Cons.prems(1) by (cases "f x"; cases "seq_items (map f xs)") auto
  then show ?case using Cons.IH[of rest] Cons.prems(2) by (simp add: shape_iff_append)
qed

lemma list_ex_snd: "list_ex (\<lambda>(i, v). P v) xs = list_ex P (map snd xs)"
  by (induction xs) auto

lemma appendValue_iff: "appendValue v label = Inr bs \<Longrightarrow> shape_iff (hides_unshowable v \<or> label \<noteq> None \<and> unshowable v) bs"
proof (induction v label arbitrary: bs rule: appendValue.induct)
  case (1 vs label)
  have flat: "\<not> unshowable (JArr vs)" by (simp add: unshowable_def short_scalar_def)
  show ?case
  proof (cases "vs = []")
    case True
    then show ?thesis using 1(2) flat titled_shape by (auto simp: shape_iff_def none_text)
  next
    case False
    show ?thesis
    proof (cases "list_all short_scalar vs")
      case True
      have "hides_unshowable v = False" if "v \<in> set vs" for v
        using True that by (cases v) (auto simp: list_all_iff short_scalar_def)
      then have leaf: "hides_unshowable (JArr vs) = list_ex (\<lambda>t. bad_text t) (map valueScalar vs)"
        using True unshowable_text by (auto simp: list_ex_iff list_all_iff)
      have "shape_iff (list_ex bad_text (map valueScalar vs)) (map Bullets (chunks MAX_PRESENTATION_ITEMS (map valueScalar vs)))"
        by (rule chunk_shapes[where bad_item = bad_text and ok = display_shape])
          (auto simp: bad_text_def valueScalar_no_CR)
      then show ?thesis
        using 1(2) False True flat shape_iff_append[OF titled_iff] unfolding leaf by auto
    next
      case long: False
      let ?f = "\<lambda>(i, v). appendValue v (Some (''Item '' @ nat_dec (i + 1)))"
      obtain bss where bss: "seq_items (map ?f (enumerate 0 vs)) = Inr bss" "bs = titled label @ concat bss"
        using 1(2) False long by auto
      have "shape_iff (list_ex (\<lambda>(i, v). hides_unshowable v \<or> unshowable v) (enumerate 0 vs)) (concat bss)"
      proof (rule seq_items_shapes[OF bss(1)])
        fix x bs assume x: "x \<in> set (enumerate 0 vs)" "?f x = Inr bs"
        obtain i v where iv: "x = (i, v)" by (cases x)
        then show "shape_iff (case x of (i, v) \<Rightarrow> hides_unshowable v \<or> unshowable v) bs"
          using 1(1)[OF False long x(1)[unfolded iv] refl] x(2) by simp
      qed
      moreover have "list_ex (\<lambda>(i, v). hides_unshowable v \<or> unshowable v) (enumerate 0 vs) = hides_unshowable (JArr vs)"
        by (simp add: list_ex_snd disj_commute)
      ultimately show ?thesis using shape_iff_append[OF titled_iff, of "hides_unshowable (JArr vs)" "concat bss" label] flat bss(2)
        by simp
    qed
  qed
next
  case (2 kvs label)
  have flat: "\<not> unshowable (JObj kvs)" by (simp add: unshowable_def short_scalar_def)
  show ?case
  proof (cases "kvs = []")
    case True
    then show ?thesis using 2(2) flat titled_shape by (auto simp: shape_iff_def none_text)
  next
    case False
    let ?long = "filter (\<lambda>(k, v). \<not> short_scalar v) kvs" and ?short = "filter (\<lambda>(k, v). short_scalar v) kvs"
    let ?row = "\<lambda>(k, v). (k, appendValue v (Some k))"
    obtain bss where bss: "seq_items (map snd (sort_key fst (map ?row ?long))) = Inr bss"
        "bs = titled label @ map Fields (chunks MAX_PRESENTATION_ITEMS (value_fields kvs)) @ concat bss"
      using 2(2) False by auto
    have fields: "shape_iff (list_ex (\<lambda>(l, v). bad_text v) (value_fields kvs))
        (map Fields (chunks MAX_PRESENTATION_ITEMS (value_fields kvs)))"
    proof (rule chunk_shapes[where bad_item = "\<lambda>(l, v). bad_text v" and ok = "\<lambda>(l, v). display_shape l \<and> display_shape v"])
      fix x assume "x \<in> set (value_fields kvs)"
      then show "if case x of (l, v) \<Rightarrow> bad_text v then case x of (l, v) \<Rightarrow> bad_text v
          else case x of (l, v) \<Rightarrow> display_shape l \<and> display_shape v"
        by (auto simp: value_fields_def bad_text_def valueScalar_no_CR valueLabel_shape)
    qed simp_all
    define bad where "bad r \<longleftrightarrow> (\<exists>k v. (k, v) \<in> set ?long \<and> r = (k, appendValue v (Some k)) \<and> hides_unshowable v)" for r
    have below: "shape_iff (list_ex bad (sort_key fst (map ?row ?long))) (concat bss)"
    proof (rule seq_items_shapes[OF bss(1)])
      fix r bs assume "r \<in> set (sort_key fst (map ?row ?long))" "snd r = Inr bs"
      then obtain k v where kv: "(k, v) \<in> set ?long" "r = (k, appendValue v (Some k))" "appendValue v (Some k) = Inr bs" by auto
      have rest: "shape_iff (hides_unshowable u \<or> unshowable u) bs" if "(k', u) \<in> set ?long" "appendValue u (Some k') = Inr bs" for k' u
        using 2(1)[OF False that(1) refl that(2)] by simp
      have long: "\<not> unshowable u" if "(k', u) \<in> set ?long" for k' u using that by (auto simp: unshowable_def)
      show "shape_iff (bad r) bs"
      proof (cases "bad r")
        case True
        then obtain k' u where u: "(k', u) \<in> set ?long" "r = (k', appendValue u (Some k'))" "hides_unshowable u"
          unfolding bad_def by blast
        then have "appendValue u (Some k') = Inr bs" using kv by simp
        then show ?thesis using rest[OF u(1)] u(3) True by simp
      next
        case False
        then have "\<not> hides_unshowable v" using kv unfolding bad_def by blast
        then show ?thesis using rest[OF kv(1,3)] long[OF kv(1)] False by simp
      qed
    qed
    have eq: "list_ex bad (sort_key fst (map ?row ?long)) \<longleftrightarrow> (\<exists>(k, v) \<in> set ?long. hides_unshowable v)"
      by (force simp: list_ex_iff bad_def)
    have leaves: "list_ex (\<lambda>(l, v). bad_text v) (value_fields kvs) \<longleftrightarrow> (\<exists>(k, v) \<in> set ?short. unshowable v)"
      using unshowable_text by (fastforce simp: list_ex_iff value_fields_def)
    have whole: "hides_unshowable (JObj kvs) \<longleftrightarrow>
        (\<exists>(k, v) \<in> set ?short. unshowable v) \<or> (\<exists>(k, v) \<in> set ?long. hides_unshowable v)"
    proof -
      have flat: "\<not> hides_unshowable v" if "short_scalar v" for v using that by (cases v) (simp_all add: short_scalar_def)
      have short: "short_scalar v" if "unshowable v" for v using that by (simp add: unshowable_def)
      have "hides_unshowable (JObj kvs) \<longleftrightarrow> (\<exists>k v. (k, v) \<in> set kvs \<and> (unshowable v \<or> hides_unshowable v))"
        by (simp add: list_ex_iff Bex_def split_paired_Ex)
      also have "\<dots> \<longleftrightarrow> (\<exists>k v. (k, v) \<in> set kvs \<and> short_scalar v \<and> unshowable v) \<or>
          (\<exists>k v. (k, v) \<in> set kvs \<and> \<not> short_scalar v \<and> hides_unshowable v)"
        using flat short by blast
      also have "\<dots> \<longleftrightarrow> (\<exists>(k, v) \<in> set ?short. unshowable v) \<or> (\<exists>(k, v) \<in> set ?long. hides_unshowable v)"
        by (simp add: Bex_def split_paired_Ex conj_assoc)
      finally show ?thesis .
    qed
    show ?thesis
      using shape_iff_append[OF titled_iff[of label] shape_iff_append[OF fields below]]
      unfolding bss(2) whole leaves eq using flat by simp
  qed
qed (use titled_shape none_text scalar_iff scalar_iff[of JNull] in \<open>auto simp: shape_iff_def unshowable_def short_scalar_def\<close>)

text \<open>
  C33: A value can be presented if and only if its short texts are single lines.  Take a value whose
  blocks stay within the limits of a presentation, so that nothing is left out.  Then
  valueDecisionPresentation, which is meant for any value, succeeds exactly when no short scalar
  anywhere inside the lists and objects of the value is blank or holds a line break or a tab: such a
  text becomes a list item or a field, and the normalisation of its own result refuses it.  A long
  scalar, and a text that is the value itself, become paragraphs and are never refused.
\<close>

theorem value_presented_iff_single_lines:
  assumes "value_blocks v = Inr bs" and "length bs \<le> MAX_PRESENTATION_BLOCKS" and "list_all valueBlockFitsSchema bs"
    and "presentationCodeUnits \<lparr>pr_summary = value_summary v, pr_blocks = bs\<rparr> \<le> MAX_PRESENTATION_CODE_UNITS"
  shows "(\<exists>p. valueDecisionPresentation sha256 v = Inr p) \<longleftrightarrow> \<not> hides_unshowable v"
proof -
  let ?p = "\<lparr>pr_summary = value_summary v, pr_blocks = bs\<rparr>"
  have run: "valueDecisionPresentation sha256 v = normalizeDecisionPresentation (presentation_json ?p)"
    using assms by (simp add: valueDecisionPresentation_def boundValuePresentation_def)
  have shape: "shape_iff (hides_unshowable v) bs"
  proof (cases "\<exists>s. v = JStr s")
    case True
    then show ?thesis using assms(1) appendValueText_shape[OF none_text(2)] by (auto simp: value_blocks_def shape_iff_def)
  next
    case False
    then have "appendValue v None = Inr bs" using assms(1) by (cases v) (simp_all add: value_blocks_def)
    then show ?thesis using appendValue_iff by fastforce
  qed
  show ?thesis
  proof (cases "hides_unshowable v")
    case True
    then obtain b where "b \<in> set bs" "bad_block b" using shape by (auto simp: shape_iff_def list_ex_iff)
    then show ?thesis using bad_presentation_refused[of b ?p] run True by auto
  next
    case False
    then have "presentable ?p"
      using shape assms(2-4) value_summary_ok(1)[of v] by (auto simp: shape_iff_def presentable_def list_all_iff block_shape_fits)
    then show ?thesis using normalized_from_presentable run False by auto
  qed
qed

text \<open>A plan with a step of two lines, and the same plan with the step on one line.\<close>

definition plan_with :: "string \<Rightarrow> jv" where
  "plan_with step = JObj [(''steps'', JArr [JStr ''Read'', JStr step])]"

definition zero_hash :: "string \<Rightarrow> string" where
  "zero_hash s = replicate 64 (CHR ''0'')"

theorem value_presented_iff_single_lines_witness:
  "\<not> (\<exists>p. valueDecisionPresentation zero_hash (plan_with (''Change'' @ LF @ ''Test'')) = Inr p) \<and>
   (\<exists>p. valueDecisionPresentation zero_hash (plan_with ''Test'') = Inr p)"
proof -
  have blocks: "value_blocks (plan_with (''Change'' @ LF @ ''Test'')) = Inr [Section ''Steps'', Bullets [''Read'', ''Change'' @ LF @ ''Test'']]"
    "value_blocks (plan_with ''Test'') = Inr [Section ''Steps'', Bullets [''Read'', ''Test'']]"
    by code_simp+
  have bad: "hides_unshowable (plan_with (''Change'' @ LF @ ''Test''))" "\<not> hides_unshowable (plan_with ''Test'')"
    by (simp_all add: plan_with_def unshowable_def short_scalar_def display_shape_def hasControlCharacter_def isControlCode_def
        code_of_def trim_empty is_js_space_def sanitizeValueText_def unix_lines_def LF_def presentation_limits)
  have summary: "value_summary (plan_with s) = ''Review the decision details below.''" for s
    by (simp add: value_summary_def plan_with_def)
  have "\<not> (\<exists>p. valueDecisionPresentation zero_hash (plan_with (''Change'' @ LF @ ''Test'')) = Inr p)"
    using value_presented_iff_single_lines[OF blocks(1), of zero_hash] bad(1)
    by (simp add: presentation_limits presentationCodeUnits_def summary LF_def)
  moreover have "\<exists>p. valueDecisionPresentation zero_hash (plan_with ''Test'') = Inr p"
    using value_presented_iff_single_lines[OF blocks(2), of zero_hash] bad(2)
    by (simp add: presentation_limits presentationCodeUnits_def summary)
  ultimately show ?thesis ..
qed


end
