(* ===== verification/DecisionLaws.thy ===== *)
theory DecisionLaws
  imports HumanDecision PresentationLaws
begin

text \<open>
  The race for a human decision.  Answers, timeouts, cancellations and readers run interleaved file
  operation by file operation and may crash anywhere; the resolution file settles the race, and
  every report agrees with it.
\<close>

section \<open>Calls and reports\<close>

datatype decision_call =
    Accept request "jv obj" int string
  | ResolveTimeout request int
  | Cancel request cancel_reason string
  | ReadResolved string
  | ReadCancellation string
  | CreateRequest request
  | ReadRequest string
  | RecordDelivery string string delivery
  | RecordSettlement string string settlement
  | RecordContinuation string continuation
  | ReadContinuation string

datatype report =
    Decided acceptance
  | CancelDone string bool
  | Resolved string "decision option"
  | CancellationRead string "cancellation option"
  | Other

fun run_call :: "(string \<Rightarrow> string \<Rightarrow> bool) \<Rightarrow> (string \<Rightarrow> string) \<Rightarrow> decision_call \<Rightarrow> report decision_op" where
  "run_call le sha256 (Accept r v t a) = accept_answer le sha256 r v t a (\<lambda>x. Ret (Inr (Decided x)))"
| "run_call le sha256 (ResolveTimeout r t) = resolveTimeout le sha256 r t (\<lambda>x. Ret (Inr (Decided x)))"
| "run_call le sha256 (Cancel r reason a) = cancel_request sha256 r reason a (\<lambda>b. Ret (Inr (CancelDone (rq_id r) b)))"
| "run_call le sha256 (ReadResolved i) = readResolved i (\<lambda>x. Ret (Inr (Resolved i x)))"
| "run_call le sha256 (ReadCancellation i) = readCancellation i (\<lambda>x. Ret (Inr (CancellationRead i x)))"
| "run_call le sha256 (CreateRequest r) = createRequest sha256 r (\<lambda>b. Ret (Inr Other))"
| "run_call le sha256 (ReadRequest i) = readRequest sha256 i (\<lambda>r. Ret (Inr Other))"
| "run_call le sha256 (RecordDelivery i ch v) = recordDelivery i ch v (\<lambda>b. Ret (Inr Other))"
| "run_call le sha256 (RecordSettlement i ch v) = recordSettlement i ch v (\<lambda>b. Ret (Inr Other))"
| "run_call le sha256 (RecordContinuation i v) = recordContinuation i v (\<lambda>b. Ret (Inr Other))"
| "run_call le sha256 (ReadContinuation i) = readContinuation i (\<lambda>c. Ret (Inr Other))"

fun decision_of :: "acceptance \<Rightarrow> decision" where
  "decision_of (IsAccepted d) = d"
| "decision_of (IsAdopted d) = d"
| "decision_of (IsConflict d) = d"

section \<open>Who may decide\<close>

definition answers :: "request \<Rightarrow> decision \<Rightarrow> bool" where
  "answers r dec \<longleftrightarrow> dc_id dec = rq_id r \<and> dc_digest dec = rq_digest r \<and>
     validateHumanDecisionResponse r (response_json (dc_response dec)) = Inr (dc_response dec)"

definition due :: "request \<Rightarrow> int \<Rightarrow> bool" where
  "due r now \<longleftrightarrow> (\<exists>at. rq_expires r = Some at \<and> (\<forall>ms. date_parse at = Some ms \<longrightarrow> ms \<le> now))"

text \<open>A decision comes from a valid answer in time, or from the default of a request that was due.\<close>

definition entitled :: "decision_call set \<Rightarrow> decision \<Rightarrow> bool" where
  "entitled C dec \<longleftrightarrow>
     (\<exists>r v t a sm. Accept r v t a \<in> C \<and> answers r dec \<and> \<not> expired_at r t \<and>
        validateHumanDecisionSubmission r v t = Inr sm \<and> dc_provenance dec = Human (sm_source sm) (sm_key sm) \<and>
        dc_response dec = sm_response sm) \<or>
     (\<exists>r t. ResolveTimeout r t \<in> C \<and> answers r dec \<and> due r t \<and> dc_provenance dec = Timeout \<and>
        rq_default r = Some (dc_response dec))"

definition cancelled_by :: "decision_call set \<Rightarrow> cancellation \<Rightarrow> bool" where
  "cancelled_by C c \<longleftrightarrow> (\<exists>r at. Cancel r (cn_reason c) at \<in> C \<and> rq_id r = cn_id c)"

definition resolution_of :: "decision_tree \<Rightarrow> string \<Rightarrow> decision_content option" where
  "resolution_of d i = map_of d (i, ResolutionFile)"

definition settled_ok :: "decision_call set \<Rightarrow> decision_tree \<Rightarrow> string \<Rightarrow> bool" where
  "settled_ok C d i = (case resolution_of d i of
     None \<Rightarrow> map_of d (i, AcceptedFile) = None \<and> map_of d (i, CancelledFile) = None
   | Some (CResolution (ResAccepted dec)) \<Rightarrow> dc_id dec = i \<and> entitled C dec \<and>
       map_of d (i, CancelledFile) = None \<and> map_of d (i, AcceptedFile) \<in> {None, Some (CAccepted dec)}
   | Some (CResolution (ResCancelled c)) \<Rightarrow> cn_id c = i \<and> cancelled_by C c \<and>
       map_of d (i, AcceptedFile) = None \<and> map_of d (i, CancelledFile) \<in> {None, Some (CCancelled c)}
   | _ \<Rightarrow> False)"

definition decision_inv :: "decision_call set \<Rightarrow> decision_tree \<Rightarrow> bool" where
  "decision_inv C d \<longleftrightarrow> (\<forall>i. settled_ok C d i)"

fun report_true :: "report decided \<Rightarrow> decision_tree \<Rightarrow> bool" where
  "report_true (Inr (Decided x)) d = (resolution_of d (dc_id (decision_of x)) = Some (CResolution (ResAccepted (decision_of x))))"
| "report_true (Inr (CancelDone i b)) d = (\<exists>c. resolution_of d i = Some (CResolution (ResCancelled c)))"
| "report_true (Inr (Resolved i (Some dec))) d = (dc_id dec = i \<and> resolution_of d i = Some (CResolution (ResAccepted dec)))"
| "report_true (Inr (CancellationRead i (Some c))) d = (resolution_of d i = Some (CResolution (ResCancelled c)))"
| "report_true _ d = True"

lemma resolution_extends: "extends d d' \<Longrightarrow> resolution_of d i = Some c \<Longrightarrow> resolution_of d' i = Some c"
  by (simp add: resolution_of_def extendsD)

interpretation decisions: write_once "decision_inv C" report_true for C
  by unfold_locales (elim report_true.elims; auto dest: resolution_extends)

section \<open>Steps that keep the invariant\<close>

lemma settled_links:
  "settled_ok C d i \<Longrightarrow> p \<notin> {(i, ResolutionFile), (i, AcceptedFile), (i, CancelledFile)} \<Longrightarrow>
    settled_ok C (link_file p c d) i"
  by (auto simp: settled_ok_def resolution_of_def map_of_link split: option.splits decision_content.splits resolution.splits)

lemma settled_inv: "decision_inv C d \<Longrightarrow> settled_ok C d i"
  by (simp add: decision_inv_def)

lemma inv_other:
  "decision_inv C d \<Longrightarrow> snd p \<notin> {ResolutionFile, AcceptedFile, CancelledFile} \<Longrightarrow> decision_inv C (link_file p c d)"
  by (auto simp: decision_inv_def intro!: settled_links)

lemma inv_at:
  assumes "decision_inv C d" and "settled_ok C (link_file (i, f) c d) i"
  shows "decision_inv C (link_file (i, f) c d)"
  unfolding decision_inv_def
proof
  fix j show "settled_ok C (link_file (i, f) c d) j"
    using assms by (cases "j = i") (auto simp: decision_inv_def intro!: settled_links)
qed

lemma inv_resolution:
  assumes "decision_inv C d"
    and "resolution_of d i = None \<Longrightarrow> settled_ok C (link_file (i, ResolutionFile) (CResolution res) d) i"
  shows "decision_inv C (link_file (i, ResolutionFile) (CResolution res) d)"
proof (cases "resolution_of d i")
  case None
  then show ?thesis using inv_at[OF assms(1)] assms(2) by blast
next
  case (Some c)
  then have "link_file (i, ResolutionFile) (CResolution res) d = d"
    by (simp add: link_file_def present_def resolution_of_def)
  then show ?thesis using assms(1) by simp
qed

lemma unresolved:
  "decision_inv C d \<Longrightarrow> resolution_of d i = None \<Longrightarrow> map_of d (i, AcceptedFile) = None \<and> map_of d (i, CancelledFile) = None"
  unfolding decision_inv_def settled_ok_def by (drule spec[of _ i]) simp

lemma inv_resolve:
  assumes "decision_inv C d" and "dc_id dec = i" and "entitled C dec"
  shows "decision_inv C (link_file (i, ResolutionFile) (CResolution (ResAccepted dec)) d)"
  using assms(2,3) unresolved[OF assms(1)]
  by (intro inv_resolution[OF assms(1)]) (auto simp: settled_ok_def resolution_of_def map_of_link present_def)

lemma inv_cancel:
  assumes "decision_inv C d" and "cn_id c = i" and "cancelled_by C c"
  shows "decision_inv C (link_file (i, ResolutionFile) (CResolution (ResCancelled c)) d)"
  using assms(2,3) unresolved[OF assms(1)]
  by (intro inv_resolution[OF assms(1)]) (auto simp: settled_ok_def resolution_of_def map_of_link present_def)

lemma inv_accepted:
  assumes "decision_inv C d" and "resolution_of d i = Some (CResolution (ResAccepted dec))"
  shows "decision_inv C (link_file (i, AcceptedFile) (CAccepted dec) d)"
proof (rule inv_at[OF assms(1)])
  have "settled_ok C d i" using assms(1) by (simp add: decision_inv_def)
  then show "settled_ok C (link_file (i, AcceptedFile) (CAccepted dec) d) i"
    using assms(2) by (auto simp: settled_ok_def resolution_of_def map_of_link)
qed

lemma inv_cancelled:
  assumes "decision_inv C d" and "resolution_of d i = Some (CResolution (ResCancelled c))"
  shows "decision_inv C (link_file (i, CancelledFile) (CCancelled c) d)"
proof (rule inv_at[OF assms(1)])
  have "settled_ok C d i" using assms(1) by (simp add: decision_inv_def)
  then show "settled_ok C (link_file (i, CancelledFile) (CCancelled c) d) i"
    using assms(2) by (auto simp: settled_ok_def resolution_of_def map_of_link)
qed

section \<open>Safe programs\<close>

named_theorems safe_intros \<open>when the calls on the store are safe\<close>

lemma safe_throw [safe_intros]: "decisions.safe C (throw e) d"
  by (simp add: throw_def)

lemma safe_attempt [safe_intros]: "(\<And>b. r = Inr b \<Longrightarrow> decisions.safe C (k b) d) \<Longrightarrow> decisions.safe C (attempt r k) d"
  by (cases r) (simp_all add: attempt_def safe_throw)

lemma safe_dir [safe_intros]: "decisions.safe C k d \<Longrightarrow> decisions.safe C (decisionDir i k) d"
  unfolding decisionDir_def by (rule safe_attempt)

lemma safe_read [safe_intros]:
  "(\<And>d'. extends d d' \<Longrightarrow> decision_inv C d' \<Longrightarrow> decisions.safe C (k (map_of d' p)) d') \<Longrightarrow> decisions.safe C (ReadFile p k) d"
  by simp

lemma safe_write:
  assumes "\<And>d'. extends d d' \<Longrightarrow> decision_inv C d' \<Longrightarrow> decision_inv C (link_file p c d')"
    and "\<And>d'. extends d d' \<Longrightarrow> decision_inv C d' \<Longrightarrow> map_of d' p = Some c \<Longrightarrow> decisions.safe C (k True) d'"
    and "\<And>d'. extends d d' \<Longrightarrow> decision_inv C d' \<Longrightarrow> present d' p \<Longrightarrow> (strict \<Longrightarrow> map_of d' p = Some c) \<Longrightarrow>
      decisions.safe C (k False) d'"
  shows "decisions.safe C (writeImmutableJson p c strict k) d"
proof -
  have new: "decisions.safe C (k True) (link_file p c d')" if "extends d d'" "decision_inv C d'" "\<not> present d' p" for d'
  proof (rule assms(2))
    show "extends d (link_file p c d')" by (rule extends_trans[OF that(1) extends_link])
    show "decision_inv C (link_file p c d')" using assms(1) that by blast
    show "map_of (link_file p c d') p = Some c" using that(3) by (simp add: map_of_link)
  qed
  have old: "decisions.safe C (ReadFile p (\<lambda>existing. if strict \<and> existing \<noteq> Some c then throw RecordConflicts else k False))
      (link_file p c d')" if "extends d d'" "decision_inv C d'" "present d' p" for d'
  proof (rule safe_read)
    fix d'' assume d'': "extends (link_file p c d') d''" "decision_inv C d''"
    have "link_file p c d' = d'" using that(3) by (simp add: link_file_def)
    then have ext: "extends d' d''" using d''(1) by simp
    then have here: "present d'' p" using that(3) extendsD by (fastforce simp: present_def)
    have "extends d d''" using that(1) ext extends_trans by blast
    then show "decisions.safe C (if strict \<and> map_of d'' p \<noteq> Some c then throw RecordConflicts else k False) d''"
      using assms(3)[OF _ d''(2) here] safe_throw by auto
  qed
  show ?thesis
    unfolding writeImmutableJson_def decisions.safe.simps
  proof (intro allI impI conjI)
    fix d' assume d': "extends d d'" "decision_inv C d'"
    then show "decision_inv C (link_file p c d')" by (rule assms(1))
    show "decisions.safe C (if \<not> present d' p then k True
        else ReadFile p (\<lambda>existing. if strict \<and> existing \<noteq> Some c then throw RecordConflicts else k False)) (link_file p c d')"
      using new[OF d'] old[OF d'] by simp
  qed
qed

text \<open>What the files of a well-formed store say.\<close>

lemma cancelled_file:
  assumes "decision_inv C d" and "map_of d (i, CancelledFile) = Some x"
  shows "\<exists>c. x = CCancelled c \<and> cn_id c = i \<and> resolution_of d i = Some (CResolution (ResCancelled c))"
proof -
  have "settled_ok C d i" using assms(1) by (simp add: decision_inv_def)
  then show ?thesis using assms(2) by (auto simp: settled_ok_def split: option.splits decision_content.splits resolution.splits)
qed

lemma accepted_file:
  assumes "decision_inv C d" and "map_of d (i, AcceptedFile) = Some x"
  shows "\<exists>dec. x = CAccepted dec \<and> dc_id dec = i \<and> resolution_of d i = Some (CResolution (ResAccepted dec))"
proof -
  have "settled_ok C d i" using assms(1) by (simp add: decision_inv_def)
  then show ?thesis using assms(2) by (auto simp: settled_ok_def split: option.splits decision_content.splits resolution.splits)
qed

lemma resolution_file:
  assumes "decision_inv C d" and "resolution_of d i = Some x"
  shows "(\<exists>dec. x = CResolution (ResAccepted dec) \<and> dc_id dec = i \<and> entitled C dec) \<or>
    (\<exists>c. x = CResolution (ResCancelled c) \<and> cn_id c = i \<and> cancelled_by C c)"
proof -
  have "settled_ok C d i" using assms(1) by (simp add: decision_inv_def)
  then show ?thesis using assms(2) by (auto simp: settled_ok_def split: decision_content.splits resolution.splits)
qed

lemma safe_write_accepted:
  assumes "resolution_of d i = Some (CResolution (ResAccepted dec))"
    and "\<And>d' b. extends d d' \<Longrightarrow> decision_inv C d' \<Longrightarrow> decisions.safe C (k b) d'"
  shows "decisions.safe C (writeImmutableJson (i, AcceptedFile) (CAccepted dec) strict k) d"
  by (rule safe_write) (use assms in \<open>auto intro: inv_accepted dest: resolution_extends\<close>)

lemma safe_write_cancelled:
  assumes "resolution_of d i = Some (CResolution (ResCancelled c))"
    and "\<And>d' b. extends d d' \<Longrightarrow> decision_inv C d' \<Longrightarrow> decisions.safe C (k b) d'"
  shows "decisions.safe C (writeImmutableJson (i, CancelledFile) (CCancelled c) strict k) d"
  by (rule safe_write) (use assms in \<open>auto intro: inv_cancelled dest: resolution_extends\<close>)

lemma safe_write_other:
  assumes "snd p \<notin> {ResolutionFile, AcceptedFile, CancelledFile}"
    and "\<And>d' b. extends d d' \<Longrightarrow> decision_inv C d' \<Longrightarrow> decisions.safe C (k b) d'"
  shows "decisions.safe C (writeImmutableJson p c strict k) d"
  by (rule safe_write) (use assms in \<open>auto intro: inv_other\<close>)

lemma safe_readCancellation:
  assumes "\<And>d' x. extends d d' \<Longrightarrow> decision_inv C d' \<Longrightarrow>
    (\<And>c. x = Some c \<Longrightarrow> resolution_of d' i = Some (CResolution (ResCancelled c))) \<Longrightarrow> decisions.safe C (k x) d'"
  shows "decisions.safe C (readCancellation i k) d"
  unfolding readCancellation_def
proof (intro safe_intros)
  fix d1 assume d1: "extends d d1" "decision_inv C d1"
  have later: "decisions.safe C (ReadFile (i, ResolutionFile) (\<lambda>content.
      attempt (requireCurrentResolution content) (\<lambda>resolution. case resolution of
         Some (ResCancelled c) \<Rightarrow> writeImmutableJson (i, CancelledFile) (CCancelled c) True (\<lambda>_. k (Some c))
       | _ \<Rightarrow> k None))) d1"
  proof (intro safe_intros)
    fix d2 res assume d2: "extends d1 d2" "decision_inv C d2"
      and res: "requireCurrentResolution (map_of d2 (i, ResolutionFile)) = Inr res"
    have ext: "extends d d2" using d1(1) d2(1) by (rule extends_trans)
    have content: "res = Some x \<Longrightarrow> resolution_of d2 i = Some (CResolution x)" for x
      using res by (auto simp: requireCurrentResolution_def resolution_of_def split: option.splits decision_content.splits)
    have "decisions.safe C (writeImmutableJson (i, CancelledFile) (CCancelled c) True (\<lambda>_. k (Some c))) d2"
      if "res = Some (ResCancelled c)" for c
      using content[OF that] ext by (intro safe_write_cancelled assms) (auto dest: resolution_extends intro: extends_trans)
    then show "decisions.safe C (case res of
         Some (ResCancelled c) \<Rightarrow> writeImmutableJson (i, CancelledFile) (CCancelled c) True (\<lambda>_. k (Some c))
       | _ \<Rightarrow> k None) d2"
      using assms[OF ext d2(2), of None] by (auto split: option.split resolution.split)
  qed
  show "decisions.safe C (case map_of d1 (i, CancelledFile) of
      Some (CCancelled c) \<Rightarrow> k (Some c) | Some _ \<Rightarrow> throw OldContract
    | None \<Rightarrow> ReadFile (i, ResolutionFile) (\<lambda>content.
        attempt (requireCurrentResolution content) (\<lambda>resolution. case resolution of
           Some (ResCancelled c) \<Rightarrow> writeImmutableJson (i, CancelledFile) (CCancelled c) True (\<lambda>_. k (Some c))
         | _ \<Rightarrow> k None))) d1"
  proof (cases "map_of d1 (i, CancelledFile)")
    case None
    then show ?thesis using later by simp
  next
    case (Some x)
    obtain c where c: "x = CCancelled c" "resolution_of d1 i = Some (CResolution (ResCancelled c))"
      using cancelled_file[OF d1(2) Some] by blast
    have "decisions.safe C (k (Some c)) d1" by (rule assms[OF d1]) (simp add: c(2))
    then show ?thesis by (simp add: Some c(1))
  qed
qed

lemma safe_readResolved:
  assumes "\<And>d' x. extends d d' \<Longrightarrow> decision_inv C d' \<Longrightarrow>
    (\<And>dec. x = Some dec \<Longrightarrow> dc_id dec = i \<and> resolution_of d' i = Some (CResolution (ResAccepted dec))) \<Longrightarrow>
    decisions.safe C (k x) d'"
  shows "decisions.safe C (readResolved i k) d"
  unfolding readResolved_def
proof (intro safe_intros)
  fix d1 assume d1: "extends d d1" "decision_inv C d1"
  have last: "decisions.safe C (ReadFile (i, ResolutionFile) (\<lambda>content.
      attempt (requireCurrentResolution content) (\<lambda>resolution. case resolution of
         Some (ResAccepted dec) \<Rightarrow> writeImmutableJson (i, AcceptedFile) (CAccepted dec) True (\<lambda>_. k (Some dec))
       | _ \<Rightarrow> k None))) d2" if d2: "extends d d2" for d2
  proof (intro safe_intros)
    fix d3 res assume d3: "extends d2 d3" "decision_inv C d3"
      and res: "requireCurrentResolution (map_of d3 (i, ResolutionFile)) = Inr res"
    have ext: "extends d d3" using d2 d3(1) by (rule extends_trans)
    have content: "res = Some x \<Longrightarrow> resolution_of d3 i = Some (CResolution x)" for x
      using res by (auto simp: requireCurrentResolution_def resolution_of_def split: option.splits decision_content.splits)
    have "decisions.safe C (writeImmutableJson (i, AcceptedFile) (CAccepted dec) True (\<lambda>_. k (Some dec))) d3"
      if "res = Some (ResAccepted dec)" for dec
      using content[OF that] resolution_file[OF d3(2) content[OF that]] ext
      by (intro safe_write_accepted assms) (auto dest: resolution_extends intro: extends_trans)
    then show "decisions.safe C (case res of
         Some (ResAccepted dec) \<Rightarrow> writeImmutableJson (i, AcceptedFile) (CAccepted dec) True (\<lambda>_. k (Some dec))
       | _ \<Rightarrow> k None) d3"
      using assms[OF ext d3(2), of None] by (auto split: option.split resolution.split)
  qed
  show "decisions.safe C (if map_of d1 (i, CancelledFile) \<noteq> None then k None
     else ReadFile (i, AcceptedFile) (\<lambda>stored. case stored of
       Some c \<Rightarrow> attempt (requireCurrentDecision c) (\<lambda>dec. k (Some dec))
     | None \<Rightarrow> ReadFile (i, ResolutionFile) (\<lambda>content.
         attempt (requireCurrentResolution content) (\<lambda>resolution. case resolution of
           Some (ResAccepted dec) \<Rightarrow>
             writeImmutableJson (i, AcceptedFile) (CAccepted dec) True (\<lambda>_. k (Some dec))
         | _ \<Rightarrow> k None)))) d1"
  proof (cases "map_of d1 (i, CancelledFile) = None")
    case True
    have "decisions.safe C (case map_of d2 (i, AcceptedFile) of
       Some c \<Rightarrow> attempt (requireCurrentDecision c) (\<lambda>dec. k (Some dec))
     | None \<Rightarrow> ReadFile (i, ResolutionFile) (\<lambda>content.
         attempt (requireCurrentResolution content) (\<lambda>resolution. case resolution of
           Some (ResAccepted dec) \<Rightarrow>
             writeImmutableJson (i, AcceptedFile) (CAccepted dec) True (\<lambda>_. k (Some dec))
         | _ \<Rightarrow> k None))) d2" if d2: "extends d1 d2" "decision_inv C d2" for d2
    proof (cases "map_of d2 (i, AcceptedFile)")
      case None
      then show ?thesis using last[OF extends_trans[OF d1(1) d2(1)]] by simp
    next
      case (Some c)
      obtain dec where dec: "c = CAccepted dec" "dc_id dec = i" "resolution_of d2 i = Some (CResolution (ResAccepted dec))"
        using accepted_file[OF d2(2) Some] by blast
      have "decisions.safe C (k (Some dec)) d2"
        by (rule assms[OF extends_trans[OF d1(1) d2(1)] d2(2)]) (use dec(2,3) in simp)
      then show ?thesis by (simp add: Some dec(1) requireCurrentDecision_def attempt_def)
    qed
    then show ?thesis using True by (simp only: simp_thms if_False) (rule safe_read)
  next
    case False
    then show ?thesis using assms[OF d1, of None] by simp
  qed
qed

lemma safe_publish:
  assumes "dc_id dec = rq_id r" and "entitled C dec"
    and "\<And>d' created existing. extends d d' \<Longrightarrow> decision_inv C d' \<Longrightarrow> dc_id existing = rq_id r \<Longrightarrow>
      resolution_of d' (rq_id r) = Some (CResolution (ResAccepted existing)) \<Longrightarrow> decisions.safe C (k created existing) d'"
  shows "decisions.safe C (publish r dec k) d"
proof -
  let ?i = "rq_id r"
  define winner_known where "winner_known created winner = readCancellation ?i (\<lambda>cancelled. case cancelled of
      Some c \<Rightarrow> throw (RequestWas (cn_reason c))
    | None \<Rightarrow> (case winner of
        ResCancelled c \<Rightarrow> throw (RequestWas (cn_reason c))
      | ResAccepted existing \<Rightarrow> writeImmutableJson (?i, AcceptedFile) (CAccepted existing) True (\<lambda>_. k created existing)))"
    for created winner
  have known: "decisions.safe C (winner_known created winner) d1"
    if d1: "extends d d1" "decision_inv C d1" and won: "resolution_of d1 ?i = Some (CResolution winner)" for created winner d1
    unfolding winner_known_def
  proof (rule safe_readCancellation)
    fix d2 x assume d2: "extends d1 d2" "decision_inv C d2"
    have ext: "extends d d2" using d1(1) d2(1) by (rule extends_trans)
    have won2: "resolution_of d2 ?i = Some (CResolution winner)" using resolution_extends[OF d2(1) won] .
    have "decisions.safe C (writeImmutableJson (?i, AcceptedFile) (CAccepted existing) True (\<lambda>_. k created existing)) d2"
      if "winner = ResAccepted existing" for existing
      using won2 resolution_file[OF d2(2) won2] that ext
      by (intro safe_write_accepted assms(3)) (auto dest: resolution_extends intro: extends_trans)
    then show "decisions.safe C (case x of
        Some c \<Rightarrow> throw (RequestWas (cn_reason c))
      | None \<Rightarrow> (case winner of
          ResCancelled c \<Rightarrow> throw (RequestWas (cn_reason c))
        | ResAccepted existing \<Rightarrow> writeImmutableJson (?i, AcceptedFile) (CAccepted existing) True (\<lambda>_. k created existing))) d2"
      using safe_throw by (auto split: option.split resolution.split)
  qed
  show ?thesis
    unfolding publish_def Let_def winner_known_def[symmetric]
  proof (intro safe_dir safe_write)
    fix d1 assume d1: "extends d d1" "decision_inv C d1"
    then show "decision_inv C (link_file (?i, ResolutionFile) (CResolution (ResAccepted dec)) d1)"
      using inv_resolve assms(1,2) by blast
    show "decisions.safe C (if True then winner_known True (ResAccepted dec)
        else ReadFile (?i, ResolutionFile) (\<lambda>content. case content of
          Some (CResolution res) \<Rightarrow> winner_known True res | _ \<Rightarrow> throw OldContract)) d1"
      if "map_of d1 (?i, ResolutionFile) = Some (CResolution (ResAccepted dec))"
      using known[OF d1] that by (simp add: resolution_of_def)
    have "decisions.safe C (case map_of d2 (?i, ResolutionFile) of
        Some (CResolution res) \<Rightarrow> winner_known False res | _ \<Rightarrow> throw OldContract) d2"
      if d2: "extends d1 d2" "decision_inv C d2" for d2
      using known[OF extends_trans[OF d1(1) d2(1)] d2(2)] safe_throw
      by (auto simp: resolution_of_def split: option.split decision_content.split)
    then show "decisions.safe C (if False then winner_known False (ResAccepted dec)
        else ReadFile (?i, ResolutionFile) (\<lambda>content. case content of
          Some (CResolution res) \<Rightarrow> winner_known False res | _ \<Rightarrow> throw OldContract)) d1"
      by (simp only: if_False) (rule safe_read)
  qed
qed

lemma validate_response_json:
  "validateResponseForChoices cs (response_json x) = Inr y \<Longrightarrow> y = x"
  by (cases x) (auto simp: validateResponseForChoices_def response_json_def record_value_def field_def obj_get_def
      obj_keys_def split: option.splits if_splits jv.splits prod.splits)

lemma submission_in_time: "validateHumanDecisionSubmission r v t = Inr sm \<Longrightarrow> \<not> expired_at r t"
  by (auto simp: validateHumanDecisionSubmission_def split: if_splits)

lemma safe_accept:
  assumes call: "Accept r v t a \<in> C"
    and k: "\<And>d' x. extends d d' \<Longrightarrow> decision_inv C d' \<Longrightarrow>
      resolution_of d' (dc_id (decision_of x)) = Some (CResolution (ResAccepted (decision_of x))) \<Longrightarrow> decisions.safe C (k x) d'"
  shows "decisions.safe C (accept_answer le sha256 r v t a k) d"
  unfolding accept_answer_def Let_def
proof (intro safe_attempt safe_readCancellation)
  fix d1 x assume d1: "extends d d1" "decision_inv C d1"
  define decide where "decide sm at = attempt (validateHumanDecisionResponse r (response_json (sm_response sm))) (\<lambda>response.
      publish r (human_decision le sha256 r response sm at) (\<lambda>created existing. k
        (if created then IsAccepted existing
         else if same_answer existing (human_decision le sha256 r response sm at) then IsAdopted existing
         else IsConflict existing)))" for sm at
  have decide: "decisions.safe C (decide sm at) d2"
    if d2: "extends d1 d2" "decision_inv C d2" and sm: "validateHumanDecisionSubmission r v t = Inr sm" for sm at d2
    unfolding decide_def
  proof (intro safe_attempt safe_publish)
    fix response assume resp: "validateHumanDecisionResponse r (response_json (sm_response sm)) = Inr response"
    then have same: "response = sm_response sm"
      unfolding validateHumanDecisionResponse_def by (rule validate_response_json)
    then have "answers r (human_decision le sha256 r response sm at)"
      using resp by (simp add: answers_def human_decision_def)
    then show "entitled C (human_decision le sha256 r response sm at)"
      unfolding entitled_def
      using call sm submission_in_time[OF sm] same
      by (intro disjI1 exI[of _ r] exI[of _ v] exI[of _ t] exI[of _ a] exI[of _ sm]) (simp add: human_decision_def)
    fix d3 created existing
    assume d3: "extends d2 d3" "decision_inv C d3" "dc_id existing = rq_id r"
      "resolution_of d3 (rq_id r) = Some (CResolution (ResAccepted existing))"
    show "decisions.safe C (k (if created then IsAccepted existing
         else if same_answer existing (human_decision le sha256 r response sm at) then IsAdopted existing
         else IsConflict existing)) d3"
      by (rule k) (use d1 d2 d3 in \<open>auto intro: extends_trans\<close>)
  qed (simp add: human_decision_def)
  have "decisions.safe C (attempt (validateHumanDecisionSubmission r v t) (\<lambda>sm.
      writeImmutableJson (rq_id r, AnswerFile (answer_attempt_id le sha256 r (sm_key sm)))
        (CAnswer \<lparr>aa_id = answer_attempt_id le sha256 r (sm_key sm), aa_at = a, aa_submission = sm\<rparr>) False
        (\<lambda>created. if created then decide sm a
          else ReadFile (rq_id r, AnswerFile (answer_attempt_id le sha256 r (sm_key sm)))
            (\<lambda>content. attempt (adopt_attempt sm content) (decide sm))))) d1"
  proof (intro safe_attempt safe_write_other)
    fix sm d2 b assume sm: "validateHumanDecisionSubmission r v t = Inr sm" and d2: "extends d1 d2" "decision_inv C d2"
    have "decisions.safe C (ReadFile (rq_id r, AnswerFile (answer_attempt_id le sha256 r (sm_key sm)))
        (\<lambda>content. attempt (adopt_attempt sm content) (decide sm))) d2"
      by (intro safe_read safe_attempt decide) (use d2 sm in \<open>auto intro: extends_trans\<close>)
    then show "decisions.safe C (if b then decide sm a
        else ReadFile (rq_id r, AnswerFile (answer_attempt_id le sha256 r (sm_key sm)))
          (\<lambda>content. attempt (adopt_attempt sm content) (decide sm))) d2"
      using decide[OF d2 sm] by simp
  qed simp
  then show "decisions.safe C (case x of Some c \<Rightarrow> throw (RequestWas (cn_reason c))
    | None \<Rightarrow> attempt (validateHumanDecisionSubmission r v t) (\<lambda>sm.
        writeImmutableJson (rq_id r, AnswerFile (answer_attempt_id le sha256 r (sm_key sm)))
          (CAnswer \<lparr>aa_id = answer_attempt_id le sha256 r (sm_key sm), aa_at = a, aa_submission = sm\<rparr>) False
          (\<lambda>created. if created then attempt (validateHumanDecisionResponse r (response_json (sm_response sm))) (\<lambda>response.
              publish r (human_decision le sha256 r response sm a) (\<lambda>created existing. k
                (if created then IsAccepted existing
                 else if same_answer existing (human_decision le sha256 r response sm a) then IsAdopted existing
                 else IsConflict existing)))
            else ReadFile (rq_id r, AnswerFile (answer_attempt_id le sha256 r (sm_key sm)))
              (\<lambda>content. attempt (adopt_attempt sm content) (\<lambda>at.
                attempt (validateHumanDecisionResponse r (response_json (sm_response sm))) (\<lambda>response.
                  publish r (human_decision le sha256 r response sm at) (\<lambda>created existing. k
                    (if created then IsAccepted existing
                     else if same_answer existing (human_decision le sha256 r response sm at) then IsAdopted existing
                     else IsConflict existing)))))))) d1"
    unfolding decide_def using safe_throw by (simp split: option.split)
qed

lemma safe_resolveTimeout:
  assumes call: "ResolveTimeout r t \<in> C"
    and k: "\<And>d' x. extends d d' \<Longrightarrow> decision_inv C d' \<Longrightarrow>
      resolution_of d' (dc_id (decision_of x)) = Some (CResolution (ResAccepted (decision_of x))) \<Longrightarrow> decisions.safe C (k x) d'"
  shows "decisions.safe C (resolveTimeout le sha256 r t k) d"
proof (cases "rq_expires r = None \<or> rq_default r = None")
  case True
  then show ?thesis
    unfolding resolveTimeout_def by (intro safe_attempt) (auto split: option.split intro: safe_throw)
next
  case False
  then obtain expires dflt where cfg: "rq_expires r = Some expires" "rq_default r = Some dflt" by auto
  have "decisions.safe C (attempt (validateHumanDecisionResponse r (response_json dflt)) (\<lambda>response.
      attempt (toISOString t) (\<lambda>at. publish r (timeout_decision le sha256 r response at) (\<lambda>created existing. k
        (if created then IsAccepted existing
         else if existing = timeout_decision le sha256 r response at then IsAdopted existing
         else IsConflict existing))))) d"
    if due: "\<not> (case date_parse expires of None \<Rightarrow> False | Some ms \<Rightarrow> t < ms)"
  proof (intro safe_attempt safe_publish)
    fix response at assume resp: "validateHumanDecisionResponse r (response_json dflt) = Inr response"
    then have same: "response = dflt"
      unfolding validateHumanDecisionResponse_def by (rule validate_response_json)
    then have "answers r (timeout_decision le sha256 r response at)"
      using resp by (simp add: answers_def timeout_decision_def)
    moreover have "due r t" using due cfg(1) by (auto simp: due_def split: option.splits)
    ultimately show "entitled C (timeout_decision le sha256 r response at)"
      unfolding entitled_def using call same cfg(2)
      by (intro disjI2 exI[of _ r] exI[of _ t]) (simp add: timeout_decision_def)
    fix d3 created existing
    assume d3: "extends d d3" "decision_inv C d3" "dc_id existing = rq_id r"
      "resolution_of d3 (rq_id r) = Some (CResolution (ResAccepted existing))"
    show "decisions.safe C (k (if created then IsAccepted existing
         else if existing = timeout_decision le sha256 r response at then IsAdopted existing
         else IsConflict existing)) d3"
      by (rule k) (use d3 in auto)
  qed (simp add: timeout_decision_def)
  then show ?thesis
    unfolding resolveTimeout_def Let_def cfg by (intro safe_attempt) (auto intro: safe_throw)
qed

lemma safe_cancel:
  assumes call: "Cancel r reason a \<in> C"
    and k: "\<And>d' b. extends d d' \<Longrightarrow> decision_inv C d' \<Longrightarrow>
      (\<exists>c. resolution_of d' (rq_id r) = Some (CResolution (ResCancelled c))) \<Longrightarrow> decisions.safe C (k b) d'"
  shows "decisions.safe C (cancel_request sha256 r reason a k) d"
proof -
  let ?i = "rq_id r"
  let ?rec = "\<lparr>cn_id = ?i, cn_digest = rq_digest r, cn_at = a, cn_reason = reason\<rparr>"
  define winner_known where "winner_known created winner = (case winner of
      ResAccepted dec \<Rightarrow> throw CannotCancelResolved
    | ResCancelled existing \<Rightarrow>
        if cn_id existing \<noteq> ?i \<or> cn_digest existing \<noteq> rq_digest r \<or> cn_reason existing \<noteq> reason
        then throw CancellationConflicts
        else writeImmutableJson (?i, CancelledFile) (CCancelled existing) True (\<lambda>_. k created))"
    for created winner
  have known: "decisions.safe C (winner_known created winner) d1"
    if d1: "extends d d1" "decision_inv C d1" and won: "resolution_of d1 ?i = Some (CResolution winner)" for created winner d1
  proof (cases winner)
    case (ResCancelled c)
    have "decisions.safe C (writeImmutableJson (?i, CancelledFile) (CCancelled c) True (\<lambda>_. k created)) d1"
      by (intro safe_write_cancelled k) (use won ResCancelled d1 in \<open>auto dest: resolution_extends intro: extends_trans\<close>)
    then show ?thesis by (simp add: winner_known_def ResCancelled safe_throw)
  qed (simp add: winner_known_def safe_throw)
  have writes: "decisions.safe C (writeImmutableJson (?i, ResolutionFile) (CResolution (ResCancelled ?rec)) False (\<lambda>created.
      if created then winner_known True (ResCancelled ?rec)
      else ReadFile (?i, ResolutionFile) (\<lambda>content. case content of
        Some (CResolution res) \<Rightarrow> winner_known False res | _ \<Rightarrow> throw OldContract))) d0"
    if d0: "extends d d0" for d0
  proof (rule safe_write)
    fix d1 assume d1: "extends d0 d1" "decision_inv C d1"
    have ext: "extends d d1" using d0 d1(1) by (rule extends_trans)
    have "cancelled_by C ?rec" using call by (auto simp: cancelled_by_def)
    then show "decision_inv C (link_file (?i, ResolutionFile) (CResolution (ResCancelled ?rec)) d1)"
      by (intro inv_cancel d1(2)) simp_all
    show "decisions.safe C (if True then winner_known True (ResCancelled ?rec)
        else ReadFile (?i, ResolutionFile) (\<lambda>content. case content of
          Some (CResolution res) \<Rightarrow> winner_known False res | _ \<Rightarrow> throw OldContract)) d1"
      if "map_of d1 (?i, ResolutionFile) = Some (CResolution (ResCancelled ?rec))"
      using known[OF ext d1(2)] that by (simp add: resolution_of_def)
    have "decisions.safe C (case map_of d2 (?i, ResolutionFile) of
        Some (CResolution res) \<Rightarrow> winner_known False res | _ \<Rightarrow> throw OldContract) d2"
      if d2: "extends d1 d2" "decision_inv C d2" for d2
      using known[OF extends_trans[OF ext d2(1)] d2(2)] safe_throw
      by (auto simp: resolution_of_def split: option.split decision_content.split)
    then show "decisions.safe C (if False then winner_known True (ResCancelled ?rec)
        else ReadFile (?i, ResolutionFile) (\<lambda>content. case content of
          Some (CResolution res) \<Rightarrow> winner_known False res | _ \<Rightarrow> throw OldContract)) d1"
      by (simp only: if_False) (rule safe_read)
  qed
  show ?thesis
    unfolding cancel_request_def Let_def winner_known_def[symmetric]
    by (intro safe_attempt safe_readResolved) (use safe_throw writes in auto)
qed

lemma safe_call: "c \<in> C \<Longrightarrow> decisions.safe C (run_call le sha256 c) d"
proof (cases c)
  case (Accept r v t a)
  then show "c \<in> C \<Longrightarrow> ?thesis" by (auto intro!: safe_accept)
next
  case (ResolveTimeout r t)
  then show "c \<in> C \<Longrightarrow> ?thesis" by (auto intro!: safe_resolveTimeout)
next
  case (Cancel r reason a)
  then show "c \<in> C \<Longrightarrow> ?thesis" by (auto intro!: safe_cancel)
next
  case (ReadResolved i)
  then show ?thesis by (auto intro!: safe_readResolved split: option.split simp: report_true.simps) (metis option.exhaust report_true.simps)
next
  case (ReadCancellation i)
  then show ?thesis by (auto intro!: safe_readCancellation) (metis option.exhaust report_true.simps)
qed (auto simp: createRequest_def readRequest_def recordDelivery_def recordSettlement_def recordContinuation_def
    readContinuation_def intro!: safe_attempt safe_dir safe_write_other safe_read split: option.split decision_content.split
    intro: safe_throw)

section \<open>One decision\<close>

text \<open>What a report says about the outcome of a decision: nothing, that it was cancelled, or the decision.\<close>

fun verdict :: "report \<Rightarrow> string \<Rightarrow> decision option option" where
  "verdict (Decided x) i = (if dc_id (decision_of x) = i then Some (Some (decision_of x)) else None)"
| "verdict (CancelDone j b) i = (if j = i then Some None else None)"
| "verdict (Resolved j (Some dec)) i = (if j = i then Some (Some dec) else None)"
| "verdict (CancellationRead j (Some c)) i = (if j = i then Some None else None)"
| "verdict _ i = None"

lemma verdict_resolution:
  "report_true (Inr x) d \<Longrightarrow> verdict x i = Some v \<Longrightarrow>
    (case v of Some dec \<Rightarrow> resolution_of d i = Some (CResolution (ResAccepted dec))
     | None \<Rightarrow> \<exists>c. resolution_of d i = Some (CResolution (ResCancelled c)))"
  by (cases "(x, i)" rule: verdict.cases) (auto split: if_splits)

lemma decision_inv_empty: "decision_inv C []"
  by (simp add: decision_inv_def settled_ok_def resolution_of_def)

lemma calls_hold:
  assumes "interleave (map (run_call le sha256) calls) [] qs d"
  shows "decision_inv (set calls) d" and "Ret x \<in> set qs \<Longrightarrow> report_true x d"
proof -
  have safe: "\<forall>p \<in> set (map (run_call le sha256) calls). decisions.safe (set calls) p []"
    by (auto intro: safe_call)
  show "decision_inv (set calls) d" by (rule decisions.reports_hold(1)[OF assms decision_inv_empty safe])
  show "Ret x \<in> set qs \<Longrightarrow> report_true x d" by (rule decisions.reports_hold(2)[OF assms decision_inv_empty safe])
qed

text \<open>
  C23: One outcome.  However answers, timeouts, cancellations and readers of any number of processes
  interleave, file operation by file operation, and wherever some of them crash, all calls that report an outcome
  of a decision report the same one, and it is the one on disk: the resolution file of the decision
  holds exactly the reported decision, or a cancellation where a cancelled decision was reported.  A
  reported decision comes from a valid answer given before the request expired or from its default
  after it was due.
\<close>

theorem one_decision_outcome:
  assumes "interleave (map (run_call le sha256) calls) [] qs d"
    and "Ret (Inr x) \<in> set qs" and "verdict x i = Some v"
    and "Ret (Inr y) \<in> set qs" and "verdict y i = Some w"
  shows "v = w \<and> (case v of
      Some dec \<Rightarrow> dc_id dec = i \<and> entitled (set calls) dec \<and>
        map_of d (i, ResolutionFile) = Some (CResolution (ResAccepted dec))
    | None \<Rightarrow> \<exists>c. map_of d (i, ResolutionFile) = Some (CResolution (ResCancelled c)))"
proof -
  note inv = calls_hold(1)[OF assms(1)]
  note truths = verdict_resolution[OF calls_hold(2)[OF assms(1,2)] assms(3)]
    verdict_resolution[OF calls_hold(2)[OF assms(1,4)] assms(5)]
  have "v = w" using truths by (auto split: option.splits)
  moreover have "dc_id dec = i \<and> entitled (set calls) dec" if "v = Some dec" for dec
    using truths(1) resolution_file[OF inv, of i] that by auto
  ultimately show ?thesis using truths(1) by (auto simp: resolution_of_def split: option.splits)
qed

lemma exec_write_other: "present d p \<Longrightarrow> \<not> strict \<Longrightarrow> exec (writeImmutableJson p c strict k) d = exec (k False) d"
  by (simp add: writeImmutableJson_def link_file_def)

lemma exec_write_same:
  assumes "map_of d p \<in> {None, Some c}"
  shows "\<exists>d' b. exec (writeImmutableJson p c strict k) d = exec (k b) d' \<and> extends d d' \<and> map_of d' p = Some c"
proof (cases "map_of d p")
  case None
  then have "exec (writeImmutableJson p c strict k) d = exec (k True) (link_file p c d)"
    by (simp add: writeImmutableJson_def present_def)
  moreover have "map_of (link_file p c d) p = Some c" using None by (simp add: map_of_link present_def)
  ultimately show ?thesis by (intro exI[of _ "link_file p c d"] exI[of _ True]) simp
next
  case (Some x)
  then have "x = c" using assms by simp
  then have "exec (writeImmutableJson p c strict k) d = exec (k False) d"
    using Some by (simp add: writeImmutableJson_def present_def link_file_def)
  then show ?thesis using Some \<open>x = c\<close> by (intro exI[of _ d] exI[of _ False]) simp
qed

lemma exec_attempt [simp]: "exec (attempt (Inr b) k) d = exec (k b) d" "exec (throw e) d = (Inl e, d)"
  by (simp_all add: attempt_def throw_def)

lemma exec_dir: "run_id_pattern i \<Longrightarrow> exec (decisionDir i k) d = exec k d"
  by (simp add: decisionDir_def assertId_def)

lemma exec_readCancellation_None:
  assumes "run_id_pattern i" "decision_inv C d" "resolution_of d i = Some (CResolution (ResAccepted dec))"
  shows "exec (readCancellation i k) d = exec (k None) d"
proof -
  have "map_of d (i, CancelledFile) = None"
    using assms(2,3) cancelled_file[OF assms(2)] by (cases "map_of d (i, CancelledFile)") fastforce+
  then show ?thesis
    using assms(3) by (simp add: readCancellation_def exec_dir[OF assms(1)] requireCurrentResolution_def resolution_of_def)
qed

text \<open>
  A published decision is never lost.  Once the resolution file of a decision names an answer,
  even if the process that linked it crashed before it wrote anything else, reading the decision
  reports that answer; once it names a cancellation, the decision reads as cancelled.
\<close>

theorem published_decision_survives:
  assumes "interleave (map (run_call le sha256) calls) [] qs d" and "run_id_pattern i"
    and "map_of d (i, ResolutionFile) = Some (CResolution res)"
  shows "fst (exec (run_call le sha256 (ReadResolved i)) d) =
      Inr (Resolved i (case res of ResAccepted dec \<Rightarrow> Some dec | ResCancelled c \<Rightarrow> None)) \<and>
    fst (exec (run_call le sha256 (ReadCancellation i)) d) =
      Inr (CancellationRead i (case res of ResAccepted dec \<Rightarrow> None | ResCancelled c \<Rightarrow> Some c))"
proof -
  note inv = calls_hold(1)[OF assms(1)]
  have res: "resolution_of d i = Some (CResolution res)" using assms(3) by (simp add: resolution_of_def)
  have settled: "settled_ok (set calls) d i" using inv by (simp add: decision_inv_def)
  show ?thesis
  proof (cases res)
    case (ResAccepted dec)
    have files: "map_of d (i, CancelledFile) = None" "map_of d (i, AcceptedFile) \<in> {None, Some (CAccepted dec)}"
      using settled res ResAccepted by (simp_all add: settled_ok_def)
    show ?thesis
      using files res exec_write_same[of d "(i, AcceptedFile)" "CAccepted dec" True "\<lambda>_. Ret (Inr (Resolved i (Some dec)))"]
      by (auto simp: ResAccepted exec_readCancellation_None[OF assms(2) inv, of dec] readResolved_def exec_dir[OF assms(2)] requireCurrentDecision_def
          requireCurrentResolution_def resolution_of_def)
  next
    case (ResCancelled c)
    have files: "map_of d (i, AcceptedFile) = None" "map_of d (i, CancelledFile) \<in> {None, Some (CCancelled c)}"
      using settled res ResCancelled by (simp_all add: settled_ok_def)
    show ?thesis
      using files res exec_write_same[of d "(i, CancelledFile)" "CCancelled c" True "\<lambda>_. Ret (Inr (CancellationRead i (Some c)))"]
      by (auto simp: ResCancelled readResolved_def readCancellation_def exec_dir[OF assms(2)] requireCurrentDecision_def
          requireCurrentResolution_def resolution_of_def)
  qed
qed

lemma validated_choice:
  assumes "validateResponseForChoices cs v = Inr x"
  obtains c where "obj_get cs (rp_choice x) = Some c"
    and "case hc_input c of None \<Rightarrow> rp_input x = None | Some i \<Rightarrow> (\<exists>t. rp_input x = Some (ti_name i, t) \<and> length_ok i t)"
proof -
  obtain ob where ob: "(case field ob ''choice'' of
       JStr selected \<Rightarrow> (case obj_get cs selected of
         None \<Rightarrow> Inl ChoiceUnavailable
       | Some c \<Rightarrow> (case hc_input c of
           None \<Rightarrow> if field ob ''input'' \<noteq> JUndef then Inl (InputNotAccepted selected)
             else Inr \<lparr>rp_choice = selected, rp_input = None\<rparr>
         | Some i \<Rightarrow> or_error (record_value (field ob ''input'') (''Human decision choice '' @ selected @ '' input'')) (\<lambda>raw.
             if obj_keys raw \<noteq> [ti_name i] then Inl (InputFields selected (ti_name i))
             else (case field raw (ti_name i) of
               JStr t \<Rightarrow> if length_ok i t then Inr \<lparr>rp_choice = selected, rp_input = Some (ti_name i, t)\<rparr>
                 else Inl (InputLength selected)
             | _ \<Rightarrow> Inl (InputNotText selected)))))
     | _ \<Rightarrow> Inl ChoiceUnavailable) = Inr x"
    using assms unfolding validateResponseForChoices_def or_error_Inr by blast
  then obtain selected where selected: "field ob ''choice'' = JStr selected"
    by (cases "field ob ''choice''") simp_all
  then obtain c where c: "obj_get cs selected = Some c"
    using ob by (cases "obj_get cs selected") simp_all
  show thesis
  proof (cases "hc_input c")
    case None
    then have "x = \<lparr>rp_choice = selected, rp_input = None\<rparr>" using ob selected c by (simp split: if_splits)
    then show thesis using that[of c] c None by simp
  next
    case (Some i)
    then obtain raw where raw: "(case field raw (ti_name i) of
        JStr t \<Rightarrow> if length_ok i t then Inr \<lparr>rp_choice = selected, rp_input = Some (ti_name i, t)\<rparr>
          else Inl (InputLength selected)
      | _ \<Rightarrow> Inl (InputNotText selected)) = Inr x"
      using ob selected c by (simp split: if_splits) blast
    then obtain t where "field raw (ti_name i) = JStr t" by (cases "field raw (ti_name i)") simp_all
    then have "x = \<lparr>rp_choice = selected, rp_input = Some (ti_name i, t)\<rparr>" "length_ok i t"
      using raw by (simp_all split: if_splits)
    then show thesis using that[of c] c Some by simp
  qed
qed

lemma validated_response_again:
  assumes "validateHumanDecisionResponse r v = Inr x"
  shows "validateHumanDecisionResponse r (response_json x) = Inr x"
proof -
  obtain c where c: "obj_get (rq_choices r) (rp_choice x) = Some c"
    "case hc_input c of None \<Rightarrow> rp_input x = None | Some i \<Rightarrow> (\<exists>t. rp_input x = Some (ti_name i, t) \<and> length_ok i t)"
    using assms unfolding validateHumanDecisionResponse_def by (rule validated_choice)
  have fields: "field [(''choice'', JStr k)] ''choice'' = JStr k" "field [(''choice'', JStr k)] ''input'' = JUndef"
    "field [(''choice'', JStr k), (''input'', u)] ''choice'' = JStr k" "field [(''choice'', JStr k), (''input'', u)] ''input'' = u"
    "field [(n, u)] n = u" "obj_keys [(n, u)] = [n]" for k n :: string and u
    by (simp_all add: field_def obj_get_def obj_keys_def)
  show ?thesis
  proof (cases "hc_input c")
    case None
    then have "rp_input x = None" using c(2) by simp
    then show ?thesis
      using c(1) None by (cases x) (simp add: validateHumanDecisionResponse_def validateResponseForChoices_def response_json_def
          record_value_def fields)
  next
    case (Some i)
    then obtain t where t: "rp_input x = Some (ti_name i, t)" "length_ok i t" using c(2) by auto
    then show ?thesis
      using c(1) Some by (cases x) (simp add: validateHumanDecisionResponse_def validateResponseForChoices_def response_json_def
          record_value_def fields)
  qed
qed

section \<open>Submitting again\<close>

lemma exec_publish_existing:
  assumes "run_id_pattern (rq_id r)" "decision_inv C d"
    and "resolution_of d (rq_id r) = Some (CResolution (ResAccepted existing))"
  shows "\<exists>d'. exec (publish r dec k) d = exec (k False existing) d'"
proof -
  let ?i = "rq_id r"
  have "map_of d (?i, AcceptedFile) \<in> {None, Some (CAccepted existing)}"
    using settled_inv[OF assms(2), of ?i] assms(3) by (simp add: settled_ok_def)
  then obtain d' b where d': "exec (writeImmutableJson (?i, AcceptedFile) (CAccepted existing) True (\<lambda>_. k False existing)) d =
      exec (k False existing) d'"
    using exec_write_same[of d "(?i, AcceptedFile)" "CAccepted existing" True "\<lambda>_. k False existing"] by blast
  have "present d (?i, ResolutionFile)" using assms(3) by (simp add: resolution_of_def present_def)
  then have "exec (publish r dec k) d = exec (writeImmutableJson (?i, AcceptedFile) (CAccepted existing) True (\<lambda>_. k False existing)) d"
    using assms(3) by (simp add: publish_def Let_def exec_dir[OF assms(1)] exec_write_other
        exec_readCancellation_None[OF assms] resolution_of_def)
  then show ?thesis using d' by (intro exI[of _ d']) simp
qed

text \<open>
  C24: Submitting the same answer again is safe, as long as it still is a valid answer.  Once the
  attempt of a submission is on disk and its decision was published, submitting it again, from any
  process and after whatever else happened, adopts that very decision, and another answer under the
  same key is refused.  The resubmission has to pass the checks of any submission: in particular it
  has to come before the request expires, since an answer after the expiry is refused as expired.
\<close>

theorem resubmission_adopts:
  assumes "interleave (map (run_call le sha256) calls) [] qs d"
    and "run_id_pattern (rq_id r)" and "integrity sha256 r = Inr r"
    and "validateHumanDecisionSubmission r v t = Inr sm"
    and "map_of d (rq_id r, AnswerFile (answer_attempt_id le sha256 r (sm_key sm))) =
      Some (CAnswer \<lparr>aa_id = answer_attempt_id le sha256 r (sm_key sm), aa_at = at, aa_submission = first\<rparr>)"
    and "trim at \<noteq> []"
    and "map_of d (rq_id r, ResolutionFile) =
      Some (CResolution (ResAccepted (human_decision le sha256 r (sm_response first) first at)))"
  shows "fst (exec (run_call le sha256 (Accept r v t a)) d) =
    (if first = sm then Inr (Decided (IsAdopted (human_decision le sha256 r (sm_response sm) sm at))) else Inl KeyReused)"
proof -
  note inv = calls_hold(1)[OF assms(1)]
  let ?dec = "human_decision le sha256 r (sm_response first) first at"
  have res: "resolution_of d (rq_id r) = Some (CResolution (ResAccepted ?dec))"
    using assms(7) by (simp add: resolution_of_def)
  have here: "present d (rq_id r, AnswerFile (answer_attempt_id le sha256 r (sm_key sm)))"
    using assms(5) by (simp add: present_def)
  have "validateHumanDecisionResponse r v' = Inr x \<Longrightarrow> validateHumanDecisionResponse r (response_json x) = Inr x" for v' x
    by (rule validated_response_again)
  then have valid: "validateHumanDecisionResponse r (response_json (sm_response sm)) = Inr (sm_response sm)"
    using assms(4) by (auto simp: validateHumanDecisionSubmission_def split: if_splits)
  define decide where "decide = (\<lambda>at. attempt (validateHumanDecisionResponse r (response_json (sm_response sm))) (\<lambda>response.
      publish r (human_decision le sha256 r response sm at) (\<lambda>created existing. (Ret (Inr (Decided
        (if created then IsAccepted existing
         else if same_answer existing (human_decision le sha256 r response sm at) then IsAdopted existing
         else IsConflict existing))) :: report decision_op))))"
  have "exec (run_call le sha256 (Accept r v t a)) d = exec (attempt (adopt_attempt sm
      (Some (CAnswer \<lparr>aa_id = answer_attempt_id le sha256 r (sm_key sm), aa_at = at, aa_submission = first\<rparr>))) decide) d"
    by (simp add: accept_answer_def Let_def assms(3,4) exec_readCancellation_None[OF assms(2) inv res]
        exec_write_other[OF here] assms(5) decide_def)
  moreover have "fst (exec (attempt (adopt_attempt sm
      (Some (CAnswer \<lparr>aa_id = answer_attempt_id le sha256 r (sm_key sm), aa_at = at, aa_submission = first\<rparr>))) decide) d) =
      (if first = sm then Inr (Decided (IsAdopted (human_decision le sha256 r (sm_response sm) sm at))) else Inl KeyReused)"
  proof (cases "first = sm")
    case True
    then have "adopt_attempt sm (Some (CAnswer \<lparr>aa_id = answer_attempt_id le sha256 r (sm_key sm), aa_at = at, aa_submission = first\<rparr>)) = Inr at"
      using assms(6) by (simp add: adopt_attempt_def requireString_def)
    moreover have "fst (exec (decide at) d) = Inr (Decided (IsAdopted ?dec))"
      using exec_publish_existing[OF assms(2) inv res, of "human_decision le sha256 r (sm_response sm) sm at"
          "\<lambda>created existing. Ret (Inr (Decided
          (if created then IsAccepted existing
           else if same_answer existing (human_decision le sha256 r (sm_response sm) sm at) then IsAdopted existing
           else IsConflict existing)))"] True
      by (auto simp: decide_def valid same_answer_def)
    ultimately show ?thesis using True by simp
  next
    case False
    then show ?thesis by (simp add: adopt_attempt_def attempt_def throw_def)
  qed
  ultimately show ?thesis by simp
qed

section \<open>The properties at work\<close>

text \<open>A question with one choice, hashed by a function that forgets everything.\<close>

definition no_hash :: "string \<Rightarrow> string" where "no_hash s = []"

definition any_order :: "string \<Rightarrow> string \<Rightarrow> bool" where "any_order s t = True"

definition ask :: request where
  "ask = \<lparr>rq_id = ''d'', rq_digest = ''sha256:'', rq_run = ''r'', rq_workflow = ''w'', rq_node = ''n'', rq_attempt = ''a'',
     rq_audience = ''op'', rq_title = ''Go?'', rq_choices = [(''go'', \<lparr>hc_label = ''Go'', hc_input = None\<rparr>)],
     rq_created = ''1970-01-01T00:00:00.000Z'', rq_expires = None, rq_default = None, rq_subject = JNull,
     rq_presentation = presentation_json \<lparr>pr_summary = ''Go on'', pr_blocks = []\<rparr>, rq_revision = 1,
     rq_subject_digest = ''sha256:'', rq_presentation_digest = ''sha256:''\<rparr>"

definition ask_answer :: "jv obj" where
  "ask_answer = [(''decisionId'', JStr ''d''), (''requestDigest'', JStr ''sha256:''), (''choice'', JStr ''go''),
     (''source'', JObj [(''channel'', JStr ''pi''), (''actorId'', JStr ''p''), (''eventId'', JStr ''e'')]),
     (''idempotencyKey'', JStr ''k'')]"

definition ask_submission :: submission where
  "ask_submission = \<lparr>sm_id = ''d'', sm_digest = ''sha256:'', sm_response = \<lparr>rp_choice = ''go'', rp_input = None\<rparr>,
     sm_source = \<lparr>as_channel = ''pi'', as_actor = ''p'', as_event = ''e''\<rparr>, sm_key = ''k''\<rparr>"

definition ask_decision :: decision where
  "ask_decision = human_decision any_order no_hash ask \<lparr>rp_choice = ''go'', rp_input = None\<rparr> ask_submission ''t0''"

definition ask_tree :: decision_tree where
  "ask_tree = [((''d'', AnswerFile []), CAnswer \<lparr>aa_id = [], aa_at = ''t0'', aa_submission = ask_submission\<rparr>),
     ((''d'', ResolutionFile), CResolution (ResAccepted ask_decision)), ((''d'', AcceptedFile), CAccepted ask_decision)]"

lemma ask_integrity: "integrity no_hash ask = Inr ask"
  by (simp add: integrity_def presenting_def validateHumanDecisionRequestIntegrity_def ask_def digestCanonical_def
      no_hash_def normalization_eval PRESENTATION_SCHEMA_def presentationCodeUnits_def)

lemma ask_submitted: "validateHumanDecisionSubmission ask ask_answer t = Inr ask_submission"
  by (simp add: validateHumanDecisionSubmission_def validateHumanDecisionResponse_def validateResponseForChoices_def
      expired_at_def ask_def ask_answer_def ask_submission_def record_value_def string_value_def requireString_def
      requireChannelId_def CHANNEL_PATTERN_def trim_empty char_class_defs field_def obj_get_def)

lemma ask_id: "run_id_pattern ''d''" "rq_id ask = ''d''" "answer_attempt_id any_order no_hash ask key = []"
  by (simp_all add: run_id_pattern_def char_class_defs ask_def answer_attempt_id_def digestHex_def no_hash_def)

lemma ask_response: "validateHumanDecisionResponse ask (response_json \<lparr>rp_choice = ''go'', rp_input = None\<rparr>) =
    Inr \<lparr>rp_choice = ''go'', rp_input = None\<rparr>"
  by (simp add: validateHumanDecisionResponse_def validateResponseForChoices_def ask_def record_value_def
      response_json_def field_def obj_get_def)

lemmas ask_eval = accept_answer_def readCancellation_def publish_def writeImmutableJson_def decisionDir_def assertId_def
  ask_integrity ask_submitted ask_id attempt_def requireCurrentResolution_def Let_def link_file_def present_def

lemma ask_accepted:
  "exec (run_call any_order no_hash (Accept ask ask_answer 0 ''t0'')) [] = (Inr (Decided (IsAccepted ask_decision)), ask_tree)"
proof -
  have "sm_response ask_submission = \<lparr>rp_choice = ''go'', rp_input = None\<rparr>" by (simp add: ask_submission_def)
  then show ?thesis by (simp add: ask_eval ask_response ask_decision_def[symmetric] ask_tree_def)
qed

lemma ask_read: "exec (run_call any_order no_hash (ReadResolved ''d'')) ask_tree = (Inr (Resolved ''d'' (Some ask_decision)), ask_tree)"
  by (simp add: readResolved_def decisionDir_def assertId_def ask_id attempt_def ask_tree_def requireCurrentDecision_def)

lemma ask_run:
  "interleave (map (run_call any_order no_hash) [Accept ask ask_answer 0 ''t0'', ReadResolved ''d'']) []
    [Ret (Inr (Decided (IsAccepted ask_decision))), Ret (Inr (Resolved ''d'' (Some ask_decision)))] ask_tree"
proof -
  let ?ps = "map (run_call any_order no_hash) [Accept ask ask_answer 0 ''t0'', ReadResolved ''d'']"
  let ?qs = "?ps[0 := Ret (Inr (Decided (IsAccepted ask_decision)))]"
  have "interleave ?ps [] ?qs ask_tree"
    by (rule interleave_exec[OF _ _ ask_accepted]) simp_all
  moreover have "interleave ?qs ask_tree (?qs[1 := Ret (Inr (Resolved ''d'' (Some ask_decision)))]) ask_tree"
    by (rule interleave_exec[OF _ _ ask_read]) simp_all
  ultimately show ?thesis using interleave_trans by fastforce
qed

theorem one_decision_outcome_witness:
  "dc_id ask_decision = ''d'' \<and> entitled (set [Accept ask ask_answer 0 ''t0'', ReadResolved ''d'']) ask_decision \<and>
   map_of ask_tree (''d'', ResolutionFile) = Some (CResolution (ResAccepted ask_decision))"
  using one_decision_outcome[OF ask_run, of "Decided (IsAccepted ask_decision)" "''d''" "Some ask_decision"
      "Resolved ''d'' (Some ask_decision)" "Some ask_decision"]
  by (simp add: ask_decision_def human_decision_def ask_id)

theorem published_decision_survives_witness:
  "fst (exec (run_call any_order no_hash (ReadResolved ''d'')) ask_tree) = Inr (Resolved ''d'' (Some ask_decision)) \<and>
    fst (exec (run_call any_order no_hash (ReadCancellation ''d'')) ask_tree) = Inr (CancellationRead ''d'' None)"
  using published_decision_survives[OF ask_run ask_id(1), of "ResAccepted ask_decision"] by (simp add: ask_tree_def)

theorem resubmission_adopts_witness:
  "fst (exec (run_call any_order no_hash (Accept ask ask_answer 7 ''t7'')) ask_tree) =
    Inr (Decided (IsAdopted (human_decision any_order no_hash ask (sm_response ask_submission) ask_submission ''t0'')))"
proof -
  have "fst (exec (run_call any_order no_hash (Accept ask ask_answer 7 ''t7'')) ask_tree) =
    (if ask_submission = ask_submission then Inr (Decided (IsAdopted (human_decision any_order no_hash ask (sm_response ask_submission) ask_submission ''t0'')))
     else Inl KeyReused)"
    by (rule resubmission_adopts[OF ask_run _ ask_integrity ask_submitted])
      (simp_all add: ask_id ask_tree_def ask_decision_def ask_submission_def trim_empty is_js_space_def code_of_def)
  then show ?thesis by simp
qed

section \<open>Sealed requests\<close>

text \<open>The field list the creator digests is the one the reader puts together from the request.\<close>

lemma basis_seal:
  "request_basis (seal_request le sha256 i f at) (cf_presentation f) = creation_basis i f"
  by (simp add: seal_request_def Let_def request_basis_def creation_basis_def creation_common_def REQUEST_SCHEMA_def
      optional_field_def split: option.split)

lemma sealed_intact:
  assumes "presentable (cf_presentation f)"
  shows "validateHumanDecisionRequestIntegrity sha256 (seal_request le sha256 i f at) = Inr (seal_request le sha256 i f at)"
proof -
  let ?r = "seal_request le sha256 i f at" and ?p = "cf_presentation f"
  have "normalizeDecisionPresentation (rq_presentation ?r) = Inr ?p"
    using normalized_from_presentable[OF assms(1)] by (simp add: seal_request_def Let_def)
  moreover have "digestCanonical sha256 (rq_subject ?r) = rq_subject_digest ?r"
    "digestCanonical sha256 (presentation_json ?p) = rq_presentation_digest ?r"
    "digestCanonical sha256 (creation_basis i f) = rq_digest ?r"
    by (simp_all add: seal_request_def Let_def)
  ultimately show ?thesis
    by (simp only: validateHumanDecisionRequestIntegrity_def or_error_simps basis_seal if_False simp_thms)
qed

text \<open>
  C25: A created request is intact.  The creator digests its own list of fields; the check that every
  later reader applies puts the list together from the stored request, and finds the same digests.
  So whatever createHumanDecisionRequest returns passes that check; its choices are valid, its
  revision is positive, and its timeout default, if it has one, is an answer the request accepts.
\<close>

theorem created_request_intact:
  assumes "createHumanDecisionRequest le sha256 i at = Inr r"
  shows "validateHumanDecisionRequestIntegrity sha256 r = Inr r \<and> validateChoices (rq_choices r) = Inr () \<and>
    1 \<le> rq_revision r \<and>
    (\<forall>x. rq_default r = Some x \<longrightarrow> validateHumanDecisionResponse r (response_json x) = Inr x)"
proof -
  obtain dflt expires audience title p revision where
    parts: "validateChoices (in_choices i) = Inr ()" "request_default i = Inr dflt"
      "normalizeDecisionPresentation (in_presentation i) = Inr p" "request_revision i = Inr revision"
    and r: "r = seal_request le sha256 i \<lparr>cf_audience = audience, cf_title = title, cf_expires = expires,
         cf_default = dflt, cf_presentation = p, cf_revision = revision\<rparr> at"
    using assms unfolding createHumanDecisionRequest_def
    by (auto simp: presenting_def split: if_splits sum.splits)
  have "validateHumanDecisionRequestIntegrity sha256 r = Inr r"
    unfolding r by (rule sealed_intact) (simp add: normalize_presentable[OF parts(3)])
  moreover have "1 \<le> revision"
    using parts(4) by (auto simp: request_revision_def split: option.splits if_splits)
  moreover have "validateHumanDecisionResponse r (response_json x) = Inr x" if dx: "dflt = Some x" for x
  proof -
    obtain v where v: "validateResponseForChoices (in_choices i) v = Inr x"
      using parts(2) dx by (auto simp: request_default_def split: option.splits)
    have "rq_choices r = in_choices i" by (simp add: r seal_request_def Let_def)
    then have "validateHumanDecisionResponse r v = Inr x" using v by (simp add: validateHumanDecisionResponse_def)
    then show ?thesis by (rule validated_response_again)
  qed
  ultimately show ?thesis using parts(1) by (simp add: r seal_request_def Let_def)
qed

definition ask_input :: request_input where
  "ask_input = \<lparr>in_run = ''r'', in_workflow = ''w'', in_node = ''n'', in_attempt = ''a'', in_audience = ''op'',
     in_choices = [(''go'', \<lparr>hc_label = ''Go'', hc_input = None\<rparr>)], in_title = ''Go?'', in_subject = JNull,
     in_presentation = presentation_json \<lparr>pr_summary = ''Go on'', pr_blocks = []\<rparr>, in_revision = None,
     in_expires = None, in_timeout = None\<rparr>"

lemma ask_created: "\<exists>r. createHumanDecisionRequest any_order no_hash ask_input ''t0'' = Inr r"
  by (simp add: createHumanDecisionRequest_def ask_input_def validateChoices_def CHOICE_PATTERN_def char_class_defs
      validateChoice_def requireString_def trim_empty timeout_ok_def request_default_def request_expiry_def
      validateExpiry_def requireSimpleId_def validatePresentedText_def presenting_def request_revision_def
      normalization_eval PRESENTATION_SCHEMA_def presentationCodeUnits_def)

theorem created_request_intact_witness:
  "\<exists>r. createHumanDecisionRequest any_order no_hash ask_input ''t0'' = Inr r \<and>
    validateHumanDecisionRequestIntegrity no_hash r = Inr r \<and> validateChoices (rq_choices r) = Inr () \<and> 1 \<le> rq_revision r"
  using ask_created created_request_intact by blast

end
