(* ===== verification/Conditions.thy ===== *)
theory Conditions
  imports ResourceStore
begin

text \<open>
  Conditions and status patches of resources (src/controllers/conditions.ts) and the results a
  reconciler returns (src/controllers/results.ts).  A status is kept in the store as the JSON object
  \<open>status_json\<close>.
\<close>

section \<open>Conditions\<close>

datatype condition_status = IsTrue | IsFalse | IsUnknown

record condition_input =
  ci_type :: string
  ci_status :: condition_status
  ci_reason :: string
  ci_message :: "string option"

record condition =
  cd_input :: condition_input
  cd_generation :: nat
  cd_transition :: string

abbreviation cd_type :: "condition \<Rightarrow> string" where
  "cd_type c \<equiv> ci_type (cd_input c)"

datatype condition_error = EmptyConditionType | EmptyReason | UpdatedTwice string

definition validateCondition :: "condition_input \<Rightarrow> condition_error option" where
  "validateCondition c = (if trim (ci_type c) = [] then Some EmptyConditionType
     else if trim (ci_reason c) = [] then Some EmptyReason else None)"

definition make_condition ::
    "string \<Rightarrow> condition_status \<Rightarrow> string \<Rightarrow> string option \<Rightarrow> (condition_error, condition_input) result" where
  "make_condition type status reason message =
     (let c = \<lparr>ci_type = type, ci_status = status, ci_reason = reason, ci_message = message\<rparr> in
      case validateCondition c of Some e \<Rightarrow> Inl e | None \<Rightarrow> Inr c)"

definition conditionTrue :: "string \<Rightarrow> string \<Rightarrow> string option \<Rightarrow> (condition_error, condition_input) result" where
  "conditionTrue type reason message = make_condition type IsTrue reason message"

definition conditionFalse :: "string \<Rightarrow> string \<Rightarrow> string option \<Rightarrow> (condition_error, condition_input) result" where
  "conditionFalse type reason message = make_condition type IsFalse reason message"

definition conditionUnknown :: "string \<Rightarrow> string \<Rightarrow> string option \<Rightarrow> (condition_error, condition_input) result" where
  "conditionUnknown type reason message = make_condition type IsUnknown reason message"

text \<open>One update of the loop; the map keeps insertion order.\<close>

definition next_condition :: "condition obj \<Rightarrow> nat \<Rightarrow> string \<Rightarrow> condition_input \<Rightarrow> condition" where
  "next_condition byType generation now update = \<lparr>cd_input = update, cd_generation = generation,
     cd_transition = (case obj_get byType (ci_type update) of
       Some previous \<Rightarrow> if ci_status (cd_input previous) = ci_status update then cd_transition previous else now
     | None \<Rightarrow> now)\<rparr>"

fun merge_updates :: "condition obj \<Rightarrow> string list \<Rightarrow> condition_input list \<Rightarrow> nat \<Rightarrow> string \<Rightarrow>
    (condition_error, condition obj) result" where
  "merge_updates byType seen [] generation now = Inr byType"
| "merge_updates byType seen (update # updates) generation now =
     (case validateCondition update of Some e \<Rightarrow> Inl e
      | None \<Rightarrow> if ci_type update \<in> set seen then Inl (UpdatedTwice (ci_type update))
          else merge_updates (obj_put (ci_type update) (next_condition byType generation now update) byType)
            (ci_type update # seen) updates generation now)"

definition by_type :: "condition list \<Rightarrow> condition obj" where
  "by_type cs = fold (\<lambda>c ob. obj_put (cd_type c) c ob) cs []"

definition mergeConditions ::
    "condition list \<Rightarrow> condition_input list \<Rightarrow> nat \<Rightarrow> string \<Rightarrow> (condition_error, condition list) result" where
  "mergeConditions current updates generation now =
     (case merge_updates (by_type current) [] updates generation now of
        Inl e \<Rightarrow> Inl e | Inr byType \<Rightarrow> Inr (map snd byType))"

section \<open>Status\<close>

record child_reference =
  cf_request :: string
  cf_run :: "string option"
  cf_state :: child_state
  cf_attempt :: nat

record resource_status =
  sts_observed :: nat
  sts_conditions :: "condition list"
  sts_controller :: jv
  sts_run :: "child_reference option"

text \<open>Absent fields are \<open>None\<close>; \<open>workflowRun: null\<close> is \<open>Some None\<close>.\<close>

record status_patch =
  sp_controller :: "jv option"
  sp_conditions :: "condition_input list option"
  sp_run :: "child_reference option option"
  sp_finalizers :: "string list option"

definition applyStatusPatch ::
    "resource_status \<Rightarrow> status_patch option \<Rightarrow> nat \<Rightarrow> string \<Rightarrow> (condition_error, resource_status) result" where
  "applyStatusPatch current patch generation now =
     (case mergeConditions (sts_conditions current)
         (case patch of None \<Rightarrow> [] | Some p \<Rightarrow> (case sp_conditions p of None \<Rightarrow> [] | Some cs \<Rightarrow> cs)) generation now of
        Inl e \<Rightarrow> Inl e
      | Inr cs \<Rightarrow> Inr \<lparr>sts_observed = generation, sts_conditions = cs,
          sts_controller = (case patch of None \<Rightarrow> sts_controller current
            | Some p \<Rightarrow> (case sp_controller p of None \<Rightarrow> sts_controller current | Some v \<Rightarrow> v)),
          sts_run = (case patch of None \<Rightarrow> sts_run current
            | Some p \<Rightarrow> (case sp_run p of None \<Rightarrow> sts_run current | Some r \<Rightarrow> r))\<rparr>)"

text \<open>The stored form and back.\<close>

fun status_value :: "condition_status \<Rightarrow> jv" where
  "status_value IsTrue = JBool True"
| "status_value IsFalse = JBool False"
| "status_value IsUnknown = JStr ''unknown''"

definition condition_json :: "condition \<Rightarrow> jv" where
  "condition_json c = JObj ([(''type'', JStr (cd_type c)), (''status'', status_value (ci_status (cd_input c))),
     (''reason'', JStr (ci_reason (cd_input c)))] @
     (case ci_message (cd_input c) of None \<Rightarrow> [] | Some m \<Rightarrow> [(''message'', JStr m)]) @
     [(''observedGeneration'', jnat (cd_generation c)), (''lastTransitionTime'', JStr (cd_transition c))])"

fun child_state_text :: "child_state \<Rightarrow> string" where
  "child_state_text ChPending = ''pending''"
| "child_state_text ChRunning = ''running''"
| "child_state_text ChWaiting = ''waiting''"
| "child_state_text ChSucceeded = ''succeeded''"
| "child_state_text ChFailed = ''failed''"
| "child_state_text ChInterrupted = ''interrupted''"

definition reference_json :: "child_reference \<Rightarrow> jv" where
  "reference_json r = JObj ((''requestId'', JStr (cf_request r)) #
     (case cf_run r of None \<Rightarrow> [] | Some i \<Rightarrow> [(''runId'', JStr i)]) @
     [(''state'', JStr (child_state_text (cf_state r))), (''attempt'', jnat (cf_attempt r))])"

definition status_json :: "resource_status \<Rightarrow> jv" where
  "status_json s = JObj ([(''observedGeneration'', jnat (sts_observed s)),
     (''conditions'', JArr (map condition_json (sts_conditions s))), (''controllerStatus'', sts_controller s)] @
     (case sts_run s of None \<Rightarrow> [] | Some r \<Rightarrow> [(''workflowRun'', reference_json r)]))"

section \<open>Results of a reconciler\<close>

datatype reconcile_result =
    Settled "status_patch option"
  | Requeue "int option" "status_patch option"

fun result_status :: "reconcile_result \<Rightarrow> status_patch option" where
  "result_status (Settled p) = p"
| "result_status (Requeue after p) = p"

definition positive_safe :: "int \<Rightarrow> bool" where
  "positive_safe n \<longleftrightarrow> 0 < n \<and> n \<le> MAX_SAFE_INTEGER"

text \<open>\<open>requeueAfter\<close> refuses what is not a positive safe integer.\<close>

definition requeueAfter :: "int \<Rightarrow> status_patch option \<Rightarrow> reconcile_result option" where
  "requeueAfter afterMs status = (if positive_safe afterMs then Some (Requeue (Some afterMs) status) else None)"

end
