(* ===== verification/ControllerManager.thy ===== *)
theory ControllerManager
  imports Complex_Main Conditions EventStore WorkQueue Artifacts
begin

text \<open>
  The controller manager (src/controllers/manager.ts): its configuration, the operations on
  resources that callers use, and the life of one claim from the work queue to the moment it is
  given up.

  The manager runs in one of many processes.  Between two of its calls to the store any acts of
  the others may happen, and every call of \<open>now()\<close> reads a clock; both are part of the world, indexed by
  the number of calls so far.  \<open>activeByController\<close>, the one state of the manager that changes, is
  \<open>wd_active\<close>.  What a reconciler does while the manager awaits it is a list of
  pulses, the last of which settles the race with the timeout.
\<close>

section \<open>Statuses as stored\<close>

fun condition_status_of :: "jv \<Rightarrow> condition_status option" where
  "condition_status_of (JBool b) = Some (if b then IsTrue else IsFalse)"
| "condition_status_of (JStr s) = (if s = ''unknown'' then Some IsUnknown else None)"
| "condition_status_of _ = None"

fun optional_text :: "jv \<Rightarrow> string option option" where
  "optional_text JUndef = Some None"
| "optional_text (JStr s) = Some (Some s)"
| "optional_text _ = None"

definition condition_of :: "jv \<Rightarrow> condition option" where
  "condition_of v = (case v of
     JObj ob \<Rightarrow>
       (case (text_of (field ob ''type''), condition_status_of (field ob ''status''), text_of (field ob ''reason''),
           optional_text (field ob ''message''), safe_nat (field ob ''observedGeneration''),
           text_of (field ob ''lastTransitionTime'')) of
          (Some type, Some status, Some reason, Some message, Some generation, Some transition) \<Rightarrow>
            Some \<lparr>cd_input = \<lparr>ci_type = type, ci_status = status, ci_reason = reason, ci_message = message\<rparr>,
              cd_generation = generation, cd_transition = transition\<rparr>
        | _ \<Rightarrow> None)
   | _ \<Rightarrow> None)"

definition child_states :: "(string \<times> child_state) list" where
  "child_states = map (\<lambda>s. (child_state_text s, s))
     [ChPending, ChRunning, ChWaiting, ChSucceeded, ChFailed, ChInterrupted]"

definition reference_of :: "jv \<Rightarrow> child_reference option option" where
  "reference_of v = (case v of
     JUndef \<Rightarrow> Some None
   | JObj ob \<Rightarrow>
       (case (text_of (field ob ''requestId''), optional_text (field ob ''runId''),
           Option.bind (text_of (field ob ''state'')) (map_of child_states), safe_nat (field ob ''attempt'')) of
          (Some request, Some run, Some state, Some attempt) \<Rightarrow>
            Some (Some \<lparr>cf_request = request, cf_run = run, cf_state = state, cf_attempt = attempt\<rparr>)
        | _ \<Rightarrow> None)
   | _ \<Rightarrow> None)"

definition status_of :: "jv \<Rightarrow> resource_status option" where
  "status_of v = (case v of
     JObj ob \<Rightarrow>
       (case (safe_nat (field ob ''observedGeneration''),
           (case field ob ''conditions'' of JArr cs \<Rightarrow> those (map condition_of cs) | _ \<Rightarrow> None),
           reference_of (field ob ''workflowRun'')) of
          (Some observed, Some conditions, Some run) \<Rightarrow>
            Some \<lparr>sts_observed = observed, sts_conditions = conditions,
              sts_controller = field ob ''controllerStatus'', sts_run = run\<rparr>
        | _ \<Rightarrow> None)
   | _ \<Rightarrow> None)"

section \<open>Configuration\<close>

text \<open>A number of an option: \<open>NaN\<close> and the infinities are one value.\<close>

datatype js_number = Finite rat | NotFinite

record controller =
  df_identity :: nat
  df_name :: string
  df_timeout :: "nat option"
  df_initial :: "jv \<Rightarrow> jv option"

record manager_options =
  op_controllers :: "controller list"
  op_max :: "js_number option"
  op_limits :: "js_number obj option"
  op_timeout :: "js_number option"
  op_lease :: "js_number option"
  op_poll :: "js_number option"
  op_base :: "js_number option"
  op_ceiling :: "js_number option"
  op_jitter :: "js_number option"

record manager =
  mg_definitions :: "controller obj"
  mg_max :: nat
  mg_limits :: "nat obj"
  mg_timeout :: nat
  mg_lease :: nat
  mg_poll :: nat
  mg_base :: nat
  mg_ceiling :: nat
  mg_jitter :: rat

datatype config_error =
    DuplicateController string
  | NotPositive string
  | LimitForUnknown string
  | LeaseTooShort
  | BackoffOrder
  | BadJitter

definition DEFAULT_MAX_CONCURRENT :: js_number where "DEFAULT_MAX_CONCURRENT = Finite 4"
definition DEFAULT_TIMEOUT_MS :: js_number where "DEFAULT_TIMEOUT_MS = Finite 60000"
definition DEFAULT_LEASE_MS :: js_number where "DEFAULT_LEASE_MS = Finite 120000"
definition DEFAULT_POLL_INTERVAL_MS :: js_number where "DEFAULT_POLL_INTERVAL_MS = Finite 250"
definition DEFAULT_BASE_BACKOFF_MS :: js_number where "DEFAULT_BASE_BACKOFF_MS = Finite 1000"
definition DEFAULT_MAX_BACKOFF_MS :: js_number where "DEFAULT_MAX_BACKOFF_MS = Finite 60000"
definition DEFAULT_JITTER_RATIO :: js_number where "DEFAULT_JITTER_RATIO = Finite (1 / 5)"
definition MIN_LEASE_MS :: nat where "MIN_LEASE_MS = 300"

lemmas manager_defaults = DEFAULT_MAX_CONCURRENT_def DEFAULT_TIMEOUT_MS_def DEFAULT_LEASE_MS_def
  DEFAULT_POLL_INTERVAL_MS_def DEFAULT_BASE_BACKOFF_MS_def DEFAULT_MAX_BACKOFF_MS_def DEFAULT_JITTER_RATIO_def
  MIN_LEASE_MS_def

fun positiveInteger :: "js_number \<Rightarrow> string \<Rightarrow> (config_error, nat) result" where
  "positiveInteger NotFinite name = Inl (NotPositive name)"
| "positiveInteger (Finite q) name =
     (if of_int \<lfloor>q\<rfloor> = q \<and> positive_safe \<lfloor>q\<rfloor> then Inr (nat \<lfloor>q\<rfloor>) else Inl (NotPositive name))"

definition option_or :: "'a option \<Rightarrow> 'a \<Rightarrow> 'a" where
  "option_or x y = (case x of None \<Rightarrow> y | Some v \<Rightarrow> v)"

fun register :: "controller list \<Rightarrow> controller obj \<Rightarrow> (config_error, controller obj) result" where
  "register [] registered = Inr registered"
| "register (df # dfs) registered =
     (if has_own registered (df_name df) then Inl (DuplicateController (df_name df))
      else register dfs (obj_put (df_name df) df registered))"

fun check_limits :: "controller obj \<Rightarrow> js_number obj \<Rightarrow> (config_error, nat obj) result" where
  "check_limits definitions [] = Inr []"
| "check_limits definitions ((name, v) # limits) =
     (if \<not> has_own definitions name then Inl (LimitForUnknown name)
      else case positiveInteger v (''controllerConcurrency.'' @ name) of
        Inl e \<Rightarrow> Inl e
      | Inr n \<Rightarrow> (case check_limits definitions limits of Inl e \<Rightarrow> Inl e | Inr rest \<Rightarrow> Inr ((name, n) # rest)))"

fun jitter_ratio :: "js_number \<Rightarrow> (config_error, rat) result" where
  "jitter_ratio NotFinite = Inl BadJitter"
| "jitter_ratio (Finite q) = (if q < 0 \<or> 1 < q then Inl BadJitter else Inr q)"

definition new_manager :: "manager_options \<Rightarrow> (config_error, manager) result" where
  "new_manager options =
     (case register (op_controllers options) [] of Inl e \<Rightarrow> Inl e | Inr definitions \<Rightarrow>
      case positiveInteger (option_or (op_max options) DEFAULT_MAX_CONCURRENT) ''maxConcurrent'' of Inl e \<Rightarrow> Inl e | Inr maxConcurrent \<Rightarrow>
      case check_limits definitions (option_or (op_limits options) []) of Inl e \<Rightarrow> Inl e | Inr limits \<Rightarrow>
      case positiveInteger (option_or (op_timeout options) DEFAULT_TIMEOUT_MS) ''defaultTimeoutMs'' of Inl e \<Rightarrow> Inl e | Inr timeoutMs \<Rightarrow>
      case positiveInteger (option_or (op_lease options) DEFAULT_LEASE_MS) ''leaseMs'' of Inl e \<Rightarrow> Inl e | Inr leaseMs \<Rightarrow>
      if leaseMs < MIN_LEASE_MS then Inl LeaseTooShort else
      case positiveInteger (option_or (op_poll options) DEFAULT_POLL_INTERVAL_MS) ''pollIntervalMs'' of Inl e \<Rightarrow> Inl e | Inr pollMs \<Rightarrow>
      case positiveInteger (option_or (op_base options) DEFAULT_BASE_BACKOFF_MS) ''baseBackoffMs'' of Inl e \<Rightarrow> Inl e | Inr baseMs \<Rightarrow>
      case positiveInteger (option_or (op_ceiling options) DEFAULT_MAX_BACKOFF_MS) ''maxBackoffMs'' of Inl e \<Rightarrow> Inl e | Inr ceilingMs \<Rightarrow>
      if ceilingMs < baseMs then Inl BackoffOrder else
      case jitter_ratio (option_or (op_jitter options) DEFAULT_JITTER_RATIO) of Inl e \<Rightarrow> Inl e | Inr jitter \<Rightarrow>
      Inr \<lparr>mg_definitions = definitions, mg_max = maxConcurrent, mg_limits = limits, mg_timeout = timeoutMs,
        mg_lease = leaseMs, mg_poll = pollMs, mg_base = baseMs, mg_ceiling = ceilingMs, mg_jitter = jitter\<rparr>)"

section \<open>The world of one manager\<close>

datatype result_fault = NoResultObject | UnknownKind | SettledWithAfter | BadAfter

datatype manager_error =
    StoreFailure store_error
  | ConditionFailure condition_error
  | BadResult result_fault
  | UnreadableStatus
  | NotRegistered string
  | UnknownController string
  | CallbackThrew
  | BadDelay
  | ReconcilerThrew string
  | TimedOutAfter nat
  | ManagerStopped
  | ClaimWasLost
  | RenewalThrew manager_error
  | TooManyReconciles nat
  | BadConfig config_error

text \<open>\<open>afterMs\<close> of a returned object: absent, undefined, or a value, \<open>None\<close> unless it is an integer.\<close>

datatype after_field = AfterAbsent | AfterUndefined | AfterMs "int option"

datatype returned = NoObject | ReturnedObject string after_field "status_patch option"

datatype pulse = RenewDue | StopCalled | Answered returned | Threw string

record world =
  wd_db :: db
  wd_active :: "nat obj"
  wd_tick :: nat
  wd_clock :: "nat \<Rightarrow> int"
  wd_others :: "nat \<Rightarrow> resource_act list"
  wd_ids :: "nat \<Rightarrow> string"
  wd_random :: "nat \<Rightarrow> rat"
  wd_pulses :: "nat \<Rightarrow> pulse list"

type_synonym 'a managed = "(manager_error, world, 'a) op"

definition tick :: "world \<Rightarrow> world" where
  "tick w = w\<lparr>wd_tick := wd_tick w + 1\<rparr>"

definition throw :: "manager_error \<Rightarrow> 'a managed" where
  "throw e w = (Inl e, w)"

text \<open>Goes on with the outcome of \<open>f\<close>, whether it returned or threw.\<close>

definition try_then :: "'b managed \<Rightarrow> ((manager_error, 'b) result \<Rightarrow> 'a managed) \<Rightarrow> 'a managed" where
  "try_then f g w = (case f w of (r, w') \<Rightarrow> g r w')"

definition lift_store :: "(store_error, 'a) result \<Rightarrow> (manager_error, 'a) result" where
  "lift_store r = map_sum StoreFailure id r"

text \<open>A call to the store, after whatever the other processes did since the last one.\<close>

definition store_call :: "'a store_op \<Rightarrow> 'a managed" where
  "store_call f w = (case f (resource_run (wd_others w (wd_tick w)) (wd_db w)) of
     (r, d) \<Rightarrow> (lift_store r, tick (w\<lparr>wd_db := d\<rparr>)))"

definition store_read :: "(db \<Rightarrow> (store_error, 'a) result) \<Rightarrow> 'a managed" where
  "store_read f = store_call (\<lambda>d. (f d, d))"

definition now_ms :: "int managed" where
  "now_ms w = (Inr (wd_clock w (wd_tick w)), tick w)"

definition iso_at :: "int \<Rightarrow> string managed" where
  "iso_at t w = (lift_store (iso t), w)"

definition now_iso :: "string managed" where
  "now_iso = and_then now_ms iso_at"

definition random_id :: "string managed" where
  "random_id w = (Inr (wd_ids w (wd_tick w)), tick w)"

definition random_number :: "rat managed" where
  "random_number w = (Inr (wd_random w (wd_tick w)), tick w)"

definition recordManagerEvent :: "resource_ref \<Rightarrow> string \<Rightarrow> jv \<Rightarrow> unit managed" where
  "recordManagerEvent ref type payload =
     and_then now_iso (\<lambda>now.
     and_then (store_call (recordEvent (fst ref) (snd ref) type (Some payload) now)) (\<lambda>_.
     return_op ()))"

section \<open>Operations on resources\<close>

definition announce_put :: "resource_ref \<Rightarrow> resource \<Rightarrow> resource managed" where
  "announce_put ref res =
     and_then (recordManagerEvent ref (if res_generation res = 1 then ''resource_applied'' else ''resource_updated'')
       (JObj [(''generation'', jnat (res_generation res))])) (\<lambda>_. return_op res)"

definition put_defined :: "controller \<Rightarrow> string \<Rightarrow> jv \<Rightarrow> resource managed" where
  "put_defined df key spec =
     (case df_initial df spec of None \<Rightarrow> throw CallbackThrew | Some initialStatus \<Rightarrow>
        and_then now_iso (\<lambda>now. and_then random_id (\<lambda>uid.
        and_then (store_call (putResource (df_name df) key spec initialStatus now uid)) (\<lambda>res.
        announce_put (df_name df, key) res))))"

text \<open>Definitions are compared by object identity.\<close>

definition putManagedResource :: "manager \<Rightarrow> controller \<Rightarrow> string \<Rightarrow> jv \<Rightarrow> resource managed" where
  "putManagedResource m df key spec =
     (if map_option df_identity (obj_get (mg_definitions m) (df_name df)) = Some (df_identity df)
      then put_defined df key spec else throw (NotRegistered (df_name df)))"

definition putResourceByName :: "manager \<Rightarrow> string \<Rightarrow> string \<Rightarrow> jv \<Rightarrow> resource managed" where
  "putResourceByName m name key spec =
     (case obj_get (mg_definitions m) name of
        None \<Rightarrow> throw (UnknownController name)
      | Some df \<Rightarrow> put_defined (df\<lparr>df_name := name\<rparr>) key spec)"

definition requestManagedDeletion :: "resource_ref \<Rightarrow> resource managed" where
  "requestManagedDeletion ref =
     and_then now_iso (\<lambda>now. and_then (store_call (requestDeletion ref now)) (\<lambda>res.
     and_then (recordManagerEvent ref ''deletion_requested'' (JObj [])) (\<lambda>_. return_op res)))"

text \<open>\<open>Number.isSafeInteger(afterMs) && afterMs >= 0\<close>\<close>

definition enqueueManaged :: "resource_ref \<Rightarrow> js_number \<Rightarrow> unit managed" where
  "enqueueManaged ref afterMs =
     (case afterMs of NotFinite \<Rightarrow> throw BadDelay
      | Finite q \<Rightarrow> if of_int \<lfloor>q\<rfloor> \<noteq> q \<or> \<lfloor>q\<rfloor> < 0 \<or> MAX_SAFE_INTEGER < \<lfloor>q\<rfloor> then throw BadDelay
          else and_then now_ms (\<lambda>now. and_then (iso_at (now + \<lfloor>q\<rfloor>)) (\<lambda>until. store_call (enqueue ref until))))"

section \<open>Claiming\<close>

definition activeCount :: "nat obj \<Rightarrow> string \<Rightarrow> nat" where
  "activeCount active name = option_or (obj_get active name) 0"

definition limitOf :: "manager \<Rightarrow> string \<Rightarrow> nat" where
  "limitOf m name = option_or (obj_get (mg_limits m) name) (mg_max m)"

definition eligibleControllers :: "manager \<Rightarrow> nat obj \<Rightarrow> string list" where
  "eligibleControllers m active = filter (\<lambda>name. activeCount active name < limitOf m name) (obj_keys (mg_definitions m))"

definition claimManaged :: "manager \<Rightarrow> queue_claim option managed" where
  "claimManaged m = and_then now_iso (\<lambda>now. and_then random_id (\<lambda>token w.
     store_call (claimNext (eligibleControllers m (wd_active w)) (int (mg_lease m)) now token) w))"

text \<open>The bookkeeping of \<open>processClaim\<close> around a reconciliation.\<close>

definition enterClaim :: "string \<Rightarrow> nat obj \<Rightarrow> nat obj" where
  "enterClaim name active = obj_put name (activeCount active name + 1) active"

definition leaveClaim :: "string \<Rightarrow> nat obj \<Rightarrow> nat obj" where
  "leaveClaim name active =
     (let n = int (option_or (obj_get active name) 1) - 1 in
      if n = 0 then obj_delete name active else obj_put name (nat n) active)"

section \<open>One reconciliation\<close>

fun validateResult :: "returned \<Rightarrow> (result_fault, reconcile_result) result" where
  "validateResult NoObject = Inl NoResultObject"
| "validateResult (ReturnedObject kind after status) =
     (if kind \<noteq> ''settled'' \<and> kind \<noteq> ''requeue'' then Inl UnknownKind
      else if kind = ''settled'' then (if after \<noteq> AfterAbsent then Inl SettledWithAfter else Inr (Settled status))
      else (case after of
          AfterMs (Some n) \<Rightarrow> if positive_safe n then Inr (Requeue (Some n) status) else Inl BadAfter
        | AfterMs None \<Rightarrow> Inl BadAfter
        | _ \<Rightarrow> Inr (Requeue None status)))"

text \<open>
  The race between the reconciler, the renewal timer, \<open>stop\<close> and the timeout, which wins when the
  pulses are used up.  A renewal that throws does so in a timer callback, where nobody catches it.
\<close>

definition renewal :: "nat \<Rightarrow> queue_claim \<Rightarrow> bool managed" where
  "renewal leaseMs claim = try_then (and_then now_iso (\<lambda>now. store_call (renewClaim claim (int leaseMs) now)))
     (\<lambda>r. case r of Inl e \<Rightarrow> throw (RenewalThrew e) | Inr renewed \<Rightarrow> return_op renewed)"

fun await_result :: "nat \<Rightarrow> nat \<Rightarrow> queue_claim \<Rightarrow> pulse list \<Rightarrow> reconcile_result managed" where
  "await_result timeoutMs leaseMs claim [] = throw (TimedOutAfter timeoutMs)"
| "await_result timeoutMs leaseMs claim (RenewDue # pulses) =
     and_then (renewal leaseMs claim) (\<lambda>renewed.
       if renewed then await_result timeoutMs leaseMs claim pulses else throw ClaimWasLost)"
| "await_result timeoutMs leaseMs claim (StopCalled # pulses) = throw ManagerStopped"
| "await_result timeoutMs leaseMs claim (Threw message # pulses) = throw (ReconcilerThrew message)"
| "await_result timeoutMs leaseMs claim (Answered returned # pulses) =
     (case validateResult returned of Inl e \<Rightarrow> throw (BadResult e) | Inr result \<Rightarrow> return_op result)"

definition reconcileTimeout :: "manager \<Rightarrow> controller \<Rightarrow> nat" where
  "reconcileTimeout m df = option_or (df_timeout df) (mg_timeout m)"

fun result_kind :: "reconcile_result \<Rightarrow> string" where
  "result_kind (Settled _) = ''settled''"
| "result_kind (Requeue _ _) = ''requeue''"

fun result_after :: "reconcile_result \<Rightarrow> int option" where
  "result_after (Settled _) = None"
| "result_after (Requeue after _) = after"

definition jint :: "int \<Rightarrow> jv" where
  "jint n = JNum (NumFin (int_dec n))"

definition finished_payload :: "string \<Rightarrow> reconcile_result \<Rightarrow> nat \<Rightarrow> int \<Rightarrow> jv" where
  "finished_payload reconcileId result generation durationMs =
     JObj ([(''reconcileId'', JStr reconcileId), (''result'', JStr (result_kind result)),
       (''generation'', jnat generation), (''durationMs'', jint (max 0 durationMs))] @
       (case result_after result of None \<Rightarrow> [] | Some n \<Rightarrow> [(''requeueAfterMs'', jint n)]))"

definition result_finalizers :: "reconcile_result \<Rightarrow> string list option" where
  "result_finalizers result = Option.bind (result_status result) sp_finalizers"

text \<open>The new status of the resource, as \<open>applyStatusPatch\<close> makes it from the one that was read.\<close>

definition next_status :: "resource \<Rightarrow> reconcile_result \<Rightarrow> string \<Rightarrow> (manager_error, resource_status) result" where
  "next_status res result now =
     (case status_of (res_status res) of None \<Rightarrow> Inl UnreadableStatus
      | Some current \<Rightarrow> map_sum ConditionFailure id
          (applyStatusPatch current (result_status result) (res_generation res) now))"

text \<open>The guarded part of a successful end; \<open>True\<close> when the resource was deleted with its queue row.\<close>

definition publishResult ::
    "queue_claim \<Rightarrow> resource \<Rightarrow> reconcile_result \<Rightarrow> string \<Rightarrow> int \<Rightarrow> resource_status \<Rightarrow> string \<Rightarrow> bool managed" where
  "publishResult claim res result reconcileId durationMs status now =
     and_then (store_call (updateStatus (c_ref claim) (res_version res) (status_json status) (result_finalizers result) now)) (\<lambda>updated.
     and_then (recordManagerEvent (c_ref claim) ''reconcile_finished''
         (finished_payload reconcileId result (res_generation res) durationMs)) (\<lambda>_.
     if result_kind result = ''settled'' \<and> res_deletion updated \<noteq> None \<and> res_finalizers updated = []
     then and_then (recordManagerEvent (c_ref claim) ''resource_deleted'' (JObj [(''reconcileId'', JStr reconcileId)])) (\<lambda>_.
       and_then (store_call (deleteResource (c_ref claim) (res_version updated))) (\<lambda>_. return_op True))
     else return_op False))"

definition giveUpClaim :: "queue_claim \<Rightarrow> reconcile_result \<Rightarrow> int \<Rightarrow> string \<Rightarrow> unit managed" where
  "giveUpClaim claim result nowMs now =
     (case result of
        Settled _ \<Rightarrow> and_then (store_call (settleClaim claim now)) (\<lambda>_. return_op ())
      | Requeue after _ \<Rightarrow>
          and_then (iso_at (nowMs + option_or after 0)) (\<lambda>until.
          and_then (store_call (requeueClaim claim until None)) (\<lambda>_. return_op ())))"

text \<open>The \<open>catch\<close> of a conflict, and what follows the guarded part.\<close>

fun conflicting :: "manager_error \<Rightarrow> bool" where
  "conflicting (StoreFailure (ResourceConflict controller key)) = True"
| "conflicting e = False"

definition afterPublish ::
    "queue_claim \<Rightarrow> reconcile_result \<Rightarrow> string \<Rightarrow> int \<Rightarrow> string \<Rightarrow> (manager_error, bool) result \<Rightarrow> unit managed" where
  "afterPublish claim result reconcileId nowMs now outcome =
     (case outcome of
        Inl e \<Rightarrow>
          if conflicting e
          then and_then (recordManagerEvent (c_ref claim) ''reconcile_conflict'' (JObj [(''reconcileId'', JStr reconcileId)])) (\<lambda>_.
            and_then (store_call (requeueClaim claim now None)) (\<lambda>_. return_op ()))
          else throw e
      | Inr deleted \<Rightarrow> if deleted then return_op () else giveUpClaim claim result nowMs now)"

definition finishSuccessfulClaim ::
    "queue_claim \<Rightarrow> resource \<Rightarrow> reconcile_result \<Rightarrow> string \<Rightarrow> int \<Rightarrow> unit managed" where
  "finishSuccessfulClaim claim res result reconcileId startedMs =
     and_then now_ms (\<lambda>nowMs. and_then (iso_at nowMs) (\<lambda>now.
     with_result (next_status res result now) (\<lambda>status.
       try_then (publishResult claim res result reconcileId (nowMs - startedMs) status now)
         (afterPublish claim result reconcileId nowMs now))))"

text \<open>\<open>Math.round\<close> rounds halves up; the arithmetic is exact.\<close>

definition js_round :: "rat \<Rightarrow> int" where
  "js_round q = \<lfloor>q + 1 / 2\<rfloor>"

definition raw_backoff :: "manager \<Rightarrow> nat \<Rightarrow> nat" where
  "raw_backoff m consecutiveErrors = min (mg_ceiling m) (mg_base m * 2 ^ min (consecutiveErrors - 1) 30)"

definition backoffMs :: "manager \<Rightarrow> nat \<Rightarrow> rat \<Rightarrow> int" where
  "backoffMs m consecutiveErrors random =
     (let factor = 1 + (random * 2 - 1) * mg_jitter m in
      max 1 (js_round (of_nat (raw_backoff m consecutiveErrors) * factor)))"

definition finishFailedClaim ::
    "manager \<Rightarrow> (manager_error \<Rightarrow> string) \<Rightarrow> queue_claim \<Rightarrow> string \<Rightarrow> manager_error \<Rightarrow> int \<Rightarrow> unit managed" where
  "finishFailedClaim m message_of claim reconcileId error startedMs =
     and_then now_ms (\<lambda>nowMs. and_then random_number (\<lambda>random.
       let message = truncateError (message_of error);
           delay = backoffMs m (c_errors claim + 1) random in
       and_then (recordManagerEvent (c_ref claim) ''reconcile_failed'' (JObj [(''reconcileId'', JStr reconcileId),
           (''error'', JStr message), (''durationMs'', jint (max 0 (nowMs - startedMs))), (''requeueAfterMs'', jint delay)])) (\<lambda>_.
       and_then (iso_at (nowMs + delay)) (\<lambda>until. and_then (iso_at nowMs) (\<lambda>_.
       and_then (store_call (requeueClaim claim until (Some message))) (\<lambda>_. return_op ()))))))"

text \<open>What the \<open>catch\<close> of \<open>reconcileClaim\<close> does not see: an error of the timer ends the process.\<close>

fun uncaught :: "manager_error \<Rightarrow> bool" where
  "uncaught (RenewalThrew e) = True"
| "uncaught e = False"

definition caught :: "'a managed \<Rightarrow> (manager_error \<Rightarrow> 'a managed) \<Rightarrow> 'a managed" where
  "caught f h = try_then f (\<lambda>r. case r of Inl e \<Rightarrow> if uncaught e then throw e else h e | Inr a \<Rightarrow> return_op a)"

definition reconcileClaim ::
    "manager \<Rightarrow> (manager_error \<Rightarrow> string) \<Rightarrow> controller \<Rightarrow> queue_claim \<Rightarrow> unit managed" where
  "reconcileClaim m message_of df claim =
     and_then (store_read (getResource (c_ref claim))) (\<lambda>found.
     (case found of
        None \<Rightarrow> and_then now_iso (\<lambda>now. and_then (store_call (settleClaim claim now)) (\<lambda>_. return_op ()))
      | Some res \<Rightarrow>
          and_then random_id (\<lambda>reconcileId. and_then now_ms (\<lambda>startedMs.
          and_then (recordManagerEvent (c_ref claim) ''reconcile_started'' (JObj [(''reconcileId'', JStr reconcileId),
            (''generation'', jnat (res_generation res))])) (\<lambda>_.
          caught (and_then (\<lambda>w. await_result (reconcileTimeout m df) (mg_lease m) claim (wd_pulses w (wd_tick w)) w)
              (\<lambda>result. finishSuccessfulClaim claim res result reconcileId startedMs))
            (\<lambda>error. finishFailedClaim m message_of claim reconcileId error startedMs))))))"

definition with_active :: "(nat obj \<Rightarrow> nat obj) \<Rightarrow> unit managed" where
  "with_active f w = (Inr (), w\<lparr>wd_active := f (wd_active w)\<rparr>)"

text \<open>\<open>try { f } finally { g }\<close>\<close>

definition finally_do :: "'a managed \<Rightarrow> unit managed \<Rightarrow> 'a managed" where
  "finally_do f g = try_then f (\<lambda>r. and_then g (\<lambda>_ w. (r, w)))"

definition processClaim :: "manager \<Rightarrow> (manager_error \<Rightarrow> string) \<Rightarrow> queue_claim \<Rightarrow> unit managed" where
  "processClaim m message_of claim =
     (case obj_get (mg_definitions m) (c_controller claim) of
        None \<Rightarrow> return_op ()
      | Some df \<Rightarrow> and_then (with_active (enterClaim (c_controller claim))) (\<lambda>_.
          finally_do (reconcileClaim m message_of df claim) (with_active (leaveClaim (c_controller claim)))))"

definition runOne :: "manager \<Rightarrow> (manager_error \<Rightarrow> string) \<Rightarrow> bool managed" where
  "runOne m message_of = and_then (claimManaged m) (\<lambda>claim.
     (case claim of None \<Rightarrow> return_op False
      | Some c \<Rightarrow> and_then (processClaim m message_of c) (\<lambda>_. return_op True)))"

definition readyQueueExists :: "bool managed" where
  "readyQueueExists = and_then now_ms (\<lambda>now. and_then (store_read listQueue) (\<lambda>items.
     return_op (\<exists>item \<in> set items. case date_parse (qi_available item) of None \<Rightarrow> False | Some t \<Rightarrow> t \<le> now)))"

fun run_loop :: "manager \<Rightarrow> (manager_error \<Rightarrow> string) \<Rightarrow> nat \<Rightarrow> nat managed" where
  "run_loop m message_of 0 = return_op 0"
| "run_loop m message_of (Suc n) = and_then (runOne m message_of) (\<lambda>ran.
     if ran then and_then (run_loop m message_of n) (\<lambda>count. return_op (count + 1)) else return_op 0)"

definition runUntilIdle :: "manager \<Rightarrow> (manager_error \<Rightarrow> string) \<Rightarrow> js_number \<Rightarrow> nat managed" where
  "runUntilIdle m message_of maxReconciles =
     with_result (map_sum BadConfig id (positiveInteger maxReconciles ''maxReconciles'')) (\<lambda>limit.
     and_then (run_loop m message_of limit) (\<lambda>count.
     if count = limit
     then and_then readyQueueExists (\<lambda>ready. if ready then throw (TooManyReconciles limit) else return_op count)
     else return_op count))"

end
