(* ===== verification/ManagerLaws.thy ===== *)
theory ManagerLaws
  imports ControllerManager ArtifactLaws
begin

text \<open>
  What the controller manager promises: a configuration it accepts is sane, delays stay within
  their bounds, limits of concurrency hold, a claim that was processed is given up whatever the
  other processes do, a failed reconciliation is retried, and a result made from an outdated
  resource is dropped.
\<close>

section \<open>Queue rows belong to resources\<close>

definition linked :: "db \<Rightarrow> bool" where
  "linked d \<longleftrightarrow> q_ref ` set (queue d) \<subseteq> rr_ref ` set (resources d)"

lemma work_ok_linked: "work_ok d \<Longrightarrow> linked d"
  by (simp add: work_ok_def linked_def)

lemma linked_update_resource:
  "(\<And>r. rr_ref (f r) = rr_ref r) \<Longrightarrow> linked d \<Longrightarrow> linked (update_resource p f d)"
  by (auto simp: linked_def update_resource_def image_sql_update)

lemma linked_update_queue:
  "(\<And>q. q_ref (f q) = q_ref q) \<Longrightarrow> linked d \<Longrightarrow> linked (d\<lparr>queue := sql_update p f (queue d)\<rparr>)"
  by (auto simp: linked_def image_sql_update)

lemma linked_delete_queue: "linked d \<Longrightarrow> linked (d\<lparr>queue := sql_delete p (queue d)\<rparr>)"
  by (auto simp: linked_def sql_delete_def)

lemma linked_delete_cascade:
  assumes "linked d"
  shows "linked (delete_cascade p d)"
proof -
  have "\<exists>r \<in> set (resources d). \<not> p r \<and> rr_ref r = q_ref q"
    if q: "q \<in> set (queue d)" "q_ref q \<notin> rr_ref ` {r \<in> set (resources d). p r}" for q
  proof -
    obtain r where "r \<in> set (resources d)" "rr_ref r = q_ref q" using assms q(1) by (force simp: linked_def)
    then show ?thesis using q(2) by force
  qed
  then have "q_ref q \<in> rr_ref ` set (resources (delete_cascade p d))" if "q \<in> set (queue (delete_cascade p d))" for q
    using that unfolding image_iff by (simp add: delete_cascade_def Let_def sql_delete_def image_iff) metis
  then show ?thesis unfolding linked_def by blast
qed

lemma linked_insert: "preserves linked (insert_resource row)"
  by (rule preservesI) (auto simp: insert_resource_def linked_def)

lemma linked_enqueueRow: "preserves linked (enqueueRow ref n)"
proof (rule preservesI)
  fix d assume d: "linked d"
  have "resourceRow ref d \<noteq> None \<Longrightarrow> ref \<in> rr_ref ` set (resources d)"
    by (auto dest: resourceRow_Some)
  then show "linked (snd (enqueueRow ref n d))"
    using d linked_update_queue[OF _ d, of "\<lambda>q. q\<lparr>q_available := min (q_available q) n, q_version := q_version q + 1\<rparr>"]
    by (auto simp: enqueueRow_def q_ref_def) (auto simp: linked_def q_ref_def)
qed

lemma linked_wake:
  "preserves linked (and_then (with_result r (enqueueRow ref)) (\<lambda>_. requireResource ref))"
  by (intro preserves_intros linked_enqueueRow preserves_requireResource)

lemma row_updates_ref [simp]:
  "rr_ref (respec s t r) = rr_ref r" "rr_ref (restatus s f t r) = rr_ref r"
  "rr_ref (mark_deleted t r) = rr_ref r" "rr_ref (refinalize f t r) = rr_ref r"
  by (simp_all add: row_updates rr_ref_def)

lemma released_ref [simp]: "q_ref (released q) = q_ref q" "q_ref (q\<lparr>q_available := a\<rparr>) = q_ref q"
  "q_ref (q\<lparr>q_errors := n\<rparr>) = q_ref q" "q_ref (q\<lparr>q_last_error := l\<rparr>) = q_ref q" "q_ref (q\<lparr>q_expires := e\<rparr>) = q_ref q"
  "q_ref (q\<lparr>q_token := t\<rparr>) = q_ref q" "q_ref (q\<lparr>q_claim_version := v\<rparr>) = q_ref q"
  by (simp_all add: released_def q_ref_def)

lemma linked_putResource: "preserves linked (putResource c k spec status now uid)"
proof -
  note insert = preserves_and_then[OF linked_insert linked_wake]
  have update: "preserves linked (and_then (stmt (update_resource p (respec s t)))
      (\<lambda>_. and_then (with_result (epoch now) (enqueueRow ref)) (\<lambda>_. requireResource ref)))" for p s t ref
    by (intro preserves_and_then preservesI linked_wake) (simp_all add: stmt_def linked_update_resource preservesD[OF linked_enqueueRow])
  show ?thesis
    unfolding putResource_def put_rows_def
    by (intro preserves_intros preservesI)
      (simp add: preservesD[OF insert] preservesD[OF update] preservesD[OF preserves_requireResource] split: option.split)
qed

lemma linked_updateStatus: "preserves linked (updateStatus ref v status fs now)"
  unfolding updateStatus_def status_rows_def
  by (intro preserves_intros preservesI)
    (auto simp: with_result_def linked_update_resource preservesD[OF preserves_requireResource] split: option.split sum.split)

lemma linked_requestDeletion: "preserves linked (requestDeletion ref now)"
proof -
  have "preserves linked (and_then (stmt (\<lambda>d. if rr_deletion row = None
        then update_resource (\<lambda>r. rr_ref r = ref) (mark_deleted now) d else d))
      (\<lambda>_. and_then (with_result (epoch now) (enqueueRow ref)) (\<lambda>_. requireResource ref)))" for row
    by (rule preserves_and_then[OF preservesI linked_wake]) (simp add: stmt_def linked_update_resource)
  then show ?thesis
    unfolding requestDeletion_def
    by (intro preserves_guarded preserves_transact preservesI) (auto dest: preservesD split: option.split)
qed

lemma linked_updateFinalizers: "preserves linked (updateFinalizers ref v fs now)"
  unfolding updateFinalizers_def
  by (intro preserves_intros preservesI)
    (simp add: Let_def throwMissingOrConflict_def linked_update_resource preservesD[OF preserves_requireResource])

lemma linked_deleteResource: "preserves linked (deleteResource ref v)"
  by (rule preservesI)
    (simp add: deleteResource_def with_result_def Let_def linked_delete_cascade split: option.split sum.split)

lemma linked_enqueue: "preserves linked (enqueue ref t)"
  unfolding enqueue_def
  by (intro preserves_guarded preservesI)
    (use preservesD[OF preserves_with_result[where r = "epoch t" and f = "enqueueRow ref", OF linked_enqueueRow]] in auto)

lemma linked_claims:
  "preserves linked (claimNext cs lease now token)" "preserves linked (renewClaim c lease now)"
  "preserves linked (settleClaim c now)" "preserves linked (requeueClaim c now err)"
  unfolding claimNext_def claim_rows_def renewClaim_def settleClaim_def requeueClaim_def
  by (intro preserves_intros preservesI;
      auto simp: Let_def with_result_def intro!: linked_update_queue linked_delete_queue split: option.split sum.split)+

lemma linked_step: "linked d \<Longrightarrow> linked (resource_step a d)"
  by (cases a) (auto intro!: preservesD[of linked] simp: linked_putResource linked_updateStatus
      linked_requestDeletion linked_updateFinalizers linked_deleteResource linked_enqueue linked_claims)

lemma linked_run: "linked d \<Longrightarrow> linked (resource_run as d)"
  by (induction as arbitrary: d) (simp_all add: resource_run_def linked_step)

section \<open>What the manager's own calls keep\<close>

definition linked_world :: "world \<Rightarrow> bool" where
  "linked_world w \<longleftrightarrow> linked (wd_db w)"

lemma wd_db_tick [simp]: "wd_db (tick w) = wd_db w"
  by (simp add: tick_def)

lemma preserves_step: "preserves P f \<Longrightarrow> P s \<Longrightarrow> f s = (r, s') \<Longrightarrow> P s'"
  by (metis preservesD snd_conv)

lemma linked_store_call: "preserves linked f \<Longrightarrow> preserves linked_world (store_call f)"
  by (rule preservesI)
    (auto simp: linked_world_def store_call_def split: prod.split elim: preserves_step dest: linked_run)

lemma linked_recordEvent: "preserves linked (recordEvent c k type payload now)"
proof -
  have "linked d \<Longrightarrow> linked (d\<lparr>last_event := n, events := es\<rparr>)" for d n es
    by (simp add: linked_def)
  then show ?thesis
    unfolding recordEvent_def
    by (intro preserves_intros preservesI) (simp add: Let_def requireEvent_def split: option.split)
qed

lemma linked_readings:
  "preserves linked_world now_ms" "preserves linked_world (iso_at t)" "preserves linked_world random_id"
  "preserves linked_world random_number" "preserves linked_world (throw e)" "preserves linked_world (return_op a)"
  by (rule preservesI; simp add: linked_world_def now_ms_def iso_at_def random_id_def random_number_def throw_def return_op_def)+

lemma linked_read: "preserves linked_world (store_read f)"
  unfolding store_read_def by (intro linked_store_call preservesI) simp

lemmas linked_intros = preserves_intros linked_readings linked_read linked_store_call linked_claims linked_recordEvent
  linked_updateStatus linked_deleteResource

lemma linked_event: "preserves linked_world (recordManagerEvent ref type payload)"
  unfolding recordManagerEvent_def now_iso_def by (intro linked_intros)

lemma linked_try: "preserves linked_world f \<Longrightarrow> (\<And>r. preserves linked_world (g r)) \<Longrightarrow> preserves linked_world (try_then f g)"
proof (rule preservesI)
  fix w assume f: "preserves linked_world f" and g: "\<And>r. preserves linked_world (g r)" and w: "linked_world w"
  obtain r v where r: "f w = (r, v)" by (cases "f w")
  show "linked_world (snd (try_then f g w))"
    using preservesD[OF g preserves_step[OF f w r]] by (simp add: try_then_def r)
qed

lemma linked_renewal: "preserves linked_world (renewal leaseMs claim)"
  unfolding renewal_def now_iso_def
  by (intro linked_try linked_intros) (auto split: sum.split intro: linked_readings)

lemma linked_await: "preserves linked_world (await_result timeoutMs leaseMs claim pulses)"
proof (induction pulses)
  case (Cons p pulses)
  then show ?case
    by (cases p) (auto intro!: linked_intros linked_renewal split: sum.split)
qed (simp add: linked_readings)

lemma linked_publish: "preserves linked_world (publishResult claim res result i n status now)"
  unfolding publishResult_def by (intro linked_intros linked_event)

lemma linked_give_up: "preserves linked_world (giveUpClaim claim result n now)"
  by (cases result) (auto simp: giveUpClaim_def intro!: linked_intros)

lemma linked_after: "preserves linked_world (afterPublish claim result i n now r)"
  by (cases r) (auto simp: afterPublish_def intro!: linked_intros linked_event linked_give_up)

lemma linked_finish: "preserves linked_world (finishSuccessfulClaim claim res result i n)"
  unfolding finishSuccessfulClaim_def by (intro linked_intros linked_try linked_publish linked_after)

section \<open>A claim that was processed is given up\<close>

definition gives_up :: "queue_claim \<Rightarrow> 'a managed \<Rightarrow> bool" where
  "gives_up claim f \<longleftrightarrow> (\<forall>w a w'. linked_world w \<longrightarrow> f w = (Inr a, w') \<longrightarrow>
     (\<forall>q \<in> set (queue (wd_db w')). \<not> claim_of claim q))"

lemma gives_up_then: "preserves linked_world f \<Longrightarrow> (\<And>b. gives_up claim (g b)) \<Longrightarrow> gives_up claim (and_then f g)"
  unfolding gives_up_def and_then_Inr by (metis preservesD snd_conv)

lemma gives_up_last: "gives_up claim f \<Longrightarrow> gives_up claim (and_then f (\<lambda>_. return_op a))"
  by (auto simp: gives_up_def and_then_Inr return_op_def)

lemma gives_up_throw: "gives_up claim (throw e)"
  by (simp add: gives_up_def throw_def)

lemma store_call_Inr: "store_call f w = (Inr a, w') \<longleftrightarrow>
    (\<exists>d. f (resource_run (wd_others w (wd_tick w)) (wd_db w)) = (Inr a, d) \<and> w' = tick (w\<lparr>wd_db := d\<rparr>))"
  by (auto simp: store_call_def lift_store_def map_sum_def split: prod.splits sum.splits)

lemma gives_up_call:
  assumes "\<And>d a d'. linked d \<Longrightarrow> f d = (Inr a, d') \<Longrightarrow> \<forall>q \<in> set (queue d'). \<not> claim_of claim q"
  shows "gives_up claim (store_call f)"
  unfolding gives_up_def store_call_Inr linked_world_def
  by (metis assms linked_run wd_db_tick select_convs(1) surjective update_convs(1))

lemma unclaimed_row: "claimedRow claim d = None \<Longrightarrow> q \<in> set (queue d) \<Longrightarrow> \<not> claim_of claim q"
  by (simp add: claimedRow_def sql_get_None)

lemma released_unclaimed:
  "q \<in> set (sql_update (claim_of claim) (\<lambda>q. (released q)\<lparr>q_available := n q, q_errors := k q, q_last_error := l q\<rparr>) rs) \<Longrightarrow>
    \<not> claim_of claim q"
proof -
  have "\<not> claim_of claim ((released q)\<lparr>q_available := a, q_errors := b, q_last_error := c\<rparr>)" for q a b c
    by (simp add: claim_of_def released_def)
  then show "q \<in> set (sql_update (claim_of claim) (\<lambda>q. (released q)\<lparr>q_available := n q, q_errors := k q, q_last_error := l q\<rparr>) rs) \<Longrightarrow>
    \<not> claim_of claim q"
    unfolding in_sql_update by metis
qed

lemma released_rows:
  "rs' = sql_update (claim_of claim) (\<lambda>q. (released q)\<lparr>q_available := n q, q_errors := k q, q_last_error := l q\<rparr>) rs \<Longrightarrow>
    \<forall>q \<in> set rs'. \<not> claim_of claim q"
  using released_unclaimed by simp

lemma settle_rows:
  assumes "settleClaim claim now d = (Inr b, d')" and "claimedRow claim d = Some row"
  shows "queue d' = sql_delete (claim_of claim) (queue d) \<or>
    (\<exists>n. queue d' = sql_update (claim_of claim) (\<lambda>q. (released q)\<lparr>q_available := min (q_available q) n,
      q_errors := 0, q_last_error := None\<rparr>) (queue d))"
  using assms by (auto simp: settleClaim_def op_Inr split: if_splits)

lemma requeue_rows:
  assumes "requeueClaim claim t err d = (Inr b, d')" and "claimedRow claim d = Some row"
  obtains n where "date_parse t = Some n"
    and "d' = d\<lparr>queue := sql_update (claim_of claim) (\<lambda>q. (released q)\<lparr>
      q_available := (if Some (q_version row) \<noteq> q_claim_version row then min (q_available row) n else n),
      q_errors := (if err = None then 0 else q_errors row + 1), q_last_error := map_option truncateError err\<rparr>) (queue d)\<rparr>"
  using assms by (auto simp: requeueClaim_def op_Inr Let_def epoch_Inr)

lemma settle_gives_up: "gives_up claim (store_call (settleClaim claim now))"
proof (rule gives_up_call)
  fix d b d' assume s: "settleClaim claim now d = (Inr b, d')"
  show "\<forall>q \<in> set (queue d'). \<not> claim_of claim q"
  proof (cases "claimedRow claim d")
    case None
    then have "d' = d" using s by (auto simp: settleClaim_def op_Inr)
    then show ?thesis using None unclaimed_row by blast
  next
    case (Some row)
    from settle_rows[OF s this] show ?thesis
    proof (elim disjE exE)
      assume "queue d' = sql_delete (claim_of claim) (queue d)"
      then show ?thesis by (simp add: sql_delete_def)
    next
      fix n assume "queue d' = sql_update (claim_of claim) (\<lambda>q. (released q)\<lparr>q_available := min (q_available q) n,
        q_errors := 0, q_last_error := None\<rparr>) (queue d)"
      then show ?thesis by (rule released_rows)
    qed
  qed
qed

lemma requeue_gives_up: "gives_up claim (store_call (requeueClaim claim t err))"
proof (rule gives_up_call)
  fix d b d' assume r: "requeueClaim claim t err d = (Inr b, d')"
  show "\<forall>q \<in> set (queue d'). \<not> claim_of claim q"
  proof (cases "claimedRow claim d")
    case None
    then have "d' = d" using r by (auto simp: requeueClaim_def op_Inr)
    then show ?thesis using None unclaimed_row by blast
  next
    case (Some row)
    show ?thesis by (rule requeue_rows[OF r Some], rule released_rows) simp
  qed
qed

lemma delete_gives_up: "gives_up claim (store_call (deleteResource (c_ref claim) v))"
proof (rule gives_up_call)
  fix d b d' assume d: "linked d" "deleteResource (c_ref claim) v d = (Inr b, d')"
  show "\<forall>q \<in> set (queue d'). \<not> claim_of claim q"
  proof (cases "resourceRow (c_ref claim) d")
    case None
    then have "d' = d" "c_ref claim \<notin> rr_ref ` set (resources d)"
      using d(2) by (simp add: deleteResource_def) (use None in \<open>auto simp: resourceRow_def sql_get_None\<close>)
    then show ?thesis using d(1) by (metis claim_of_def image_subset_iff linked_def)
  next
    case (Some row)
    let ?p = "\<lambda>r. rr_ref r = c_ref claim \<and> rr_version r = v"
    have "sql_changes ?p (resources d) = 1" "d' = delete_cascade ?p d"
      using d(2) Some by (auto simp: deleteResource_def op_Inr Let_def split: if_splits)
    then have "c_ref claim \<in> rr_ref ` set (filter ?p (resources d))"
      by (auto simp: sql_changes_def length_Suc_conv image_iff filter_eq_Cons_iff)
    then show ?thesis
      using \<open>d' = _\<close> by (auto simp: delete_cascade_def Let_def sql_delete_def claim_of_def)
  qed
qed

lemma publish_gives_up:
  assumes "linked_world w" and "publishResult claim res result i n status now w = (Inr True, w')"
  shows "\<forall>q \<in> set (queue (wd_db w')). \<not> claim_of claim q"
proof -
  obtain updated w1 w2 w3 where
    1: "store_call (updateStatus (c_ref claim) (res_version res) (status_json status) (result_finalizers result) now) w = (Inr updated, w1)"
    and 2: "recordManagerEvent (c_ref claim) ''reconcile_finished'' (finished_payload i result (res_generation res) n) w1 = (Inr (), w2)"
    and 3: "recordManagerEvent (c_ref claim) ''resource_deleted'' (JObj [(''reconcileId'', JStr i)]) w2 = (Inr (), w3)"
    and 4: "and_then (store_call (deleteResource (c_ref claim) (res_version updated))) (\<lambda>_. return_op True) w3 = (Inr True, w')"
    using assms(2) by (auto simp: publishResult_def and_then_Inr return_op_def split: if_splits)
  have "linked_world w1" by (rule preserves_step[OF linked_store_call[OF linked_updateStatus] assms(1) 1])
  then have "linked_world w2" by (rule preserves_step[OF linked_event _ 2])
  then have "linked_world w3" by (rule preserves_step[OF linked_event _ 3])
  then show ?thesis
    using gives_up_last[OF delete_gives_up[of claim "res_version updated"], of True] 4 unfolding gives_up_def by blast
qed

lemma give_up_gives_up: "gives_up claim (giveUpClaim claim result n now)"
  by (cases result) (auto simp: giveUpClaim_def intro!: gives_up_last settle_gives_up requeue_gives_up gives_up_then linked_readings)

lemma after_gives_up: "r \<noteq> Inr True \<Longrightarrow> gives_up claim (afterPublish claim result i n now r)"
  by (cases r)
    (auto simp: afterPublish_def intro!: gives_up_then gives_up_last linked_event requeue_gives_up gives_up_throw give_up_gives_up)

lemma gives_up_try:
  assumes "preserves linked_world f" and "\<And>w r w'. linked_world w \<Longrightarrow> f w = (r, w') \<Longrightarrow>
      gives_up claim (g r) \<or> (\<forall>q \<in> set (queue (wd_db w')). \<not> claim_of claim q) \<and> snd (g r w') = w'"
  shows "gives_up claim (try_then f g)"
  unfolding gives_up_def
proof (intro allI impI)
  fix w a w' assume w: "linked_world w" "try_then f g w = (Inr a, w')"
  obtain r v where r: "f w = (r, v)" by (cases "f w")
  have v: "linked_world v" by (rule preserves_step[OF assms(1) w(1) r])
  have g: "g r v = (Inr a, w')" using w(2) r by (simp add: try_then_def)
  then show "\<forall>q \<in> set (queue (wd_db w')). \<not> claim_of claim q"
    using assms(2)[OF w(1) r] v unfolding gives_up_def by (metis snd_conv)
qed

lemma gives_up_with: "(\<And>b. gives_up claim (g b)) \<Longrightarrow> gives_up claim (with_result r g)"
  unfolding gives_up_def with_result_Inr by blast

lemma successful_gives_up: "gives_up claim (finishSuccessfulClaim claim res result i n)"
proof -
  have "gives_up claim (try_then (publishResult claim res result i k status now) (afterPublish claim result i t now))" for k status now t
  proof (rule gives_up_try[OF linked_publish])
    fix w r w' assume "linked_world w" "publishResult claim res result i k status now w = (r, w')"
    then show "gives_up claim (afterPublish claim result i t now r) \<or>
        (\<forall>q \<in> set (queue (wd_db w')). \<not> claim_of claim q) \<and> snd (afterPublish claim result i t now r w') = w'"
      using after_gives_up[of r] publish_gives_up[of w] by (cases "r = Inr True") (auto simp: afterPublish_def return_op_def)
  qed
  then show ?thesis
    unfolding finishSuccessfulClaim_def by (intro gives_up_then gives_up_with linked_readings)
qed

lemma failed_gives_up: "gives_up claim (finishFailedClaim m message_of claim i e n)"
  unfolding finishFailedClaim_def Let_def
  by (intro gives_up_then linked_readings linked_event gives_up_last requeue_gives_up)

lemma caught_gives_up:
  assumes "preserves linked_world f" "gives_up claim f" "\<And>e. gives_up claim (h e)"
  shows "gives_up claim (caught f h)"
  unfolding caught_def
proof (rule gives_up_try[OF assms(1)])
  fix w r w' assume w: "linked_world w" "f w = (r, w')"
  show "gives_up claim (case r of Inl e \<Rightarrow> if uncaught e then throw e else h e | Inr a \<Rightarrow> return_op a) \<or>
      (\<forall>q \<in> set (queue (wd_db w')). \<not> claim_of claim q) \<and>
      snd ((case r of Inl e \<Rightarrow> if uncaught e then throw e else h e | Inr a \<Rightarrow> return_op a) w') = w'"
    using w assms(2,3) by (cases r) (auto simp: gives_up_throw return_op_def gives_up_def[of claim f])
qed

text \<open>
  C27: A processed claim is given up.  However the other processes act between any two store calls of
  the manager, and whether the reconciler answers, throws, is stopped, runs into its timeout or
  returns a stale or malformed result: when reconcileClaim returns, the queue row is not held under
  its claim any more, so the resource can be claimed again at once.
\<close>

theorem processed_claim_is_given_up:
  assumes "linked (wd_db w)" and "reconcileClaim m message_of df claim w = (Inr (), w')"
  shows "\<forall>q \<in> set (queue (wd_db w')). \<not> claim_of claim q"
proof -
  have race: "preserves linked_world (\<lambda>w. await_result t l claim (wd_pulses w (wd_tick w)) w)" for t l
    by (rule preservesI) (use preservesD[OF linked_await] in blast)
  have lost: "gives_up claim (and_then now_iso (\<lambda>now. and_then (store_call (settleClaim claim now)) (\<lambda>_. return_op ())))"
    unfolding now_iso_def by (intro gives_up_then gives_up_last settle_gives_up linked_intros)
  have found: "gives_up claim (and_then random_id (\<lambda>i. and_then now_ms (\<lambda>t.
      and_then (recordManagerEvent (c_ref claim) ''reconcile_started'' (JObj [(''reconcileId'', JStr i), (''generation'', jnat (res_generation res))])) (\<lambda>_.
      caught (and_then (\<lambda>w. await_result (reconcileTimeout m df) (mg_lease m) claim (wd_pulses w (wd_tick w)) w)
          (\<lambda>result. finishSuccessfulClaim claim res result i t))
        (\<lambda>error. finishFailedClaim m message_of claim i error t)))))" for res
    by (intro gives_up_then linked_readings linked_event caught_gives_up failed_gives_up successful_gives_up race
        preserves_and_then linked_finish)
  have "gives_up claim (reconcileClaim m message_of df claim)"
    unfolding reconcileClaim_def
    by (intro gives_up_then linked_read) (use lost found in \<open>simp split: option.split\<close>)
  then show ?thesis using assms by (simp add: gives_up_def linked_world_def)
qed

section \<open>A concrete reconciliation\<close>

definition event_feed_ok :: "db \<Rightarrow> bool" where
  "event_feed_ok d \<longleftrightarrow> (\<forall>r \<in> set (events d). ev_seq r \<le> last_event d)"

lemma recordEvent_succeeds:
  assumes "wf_js p" and "json_column p ''controller event payload'' = Inr t" and "utf8_length t \<le> MAX_EVENT_BYTES"
    and "name_pattern c" "valid_key k" "name_pattern type" "date_parse now = Some n" and "event_feed_ok d"
  obtains ce d' where "recordEvent c k type (Some p) now d = (Inr ce, d')" and "queue d' = queue d"
    and "resources d' = resources d" and "event_feed_ok d'"
proof -
  obtain v where v: "stored_json t ''controller event payload'' = Inr v" using json_column_reads_back[OF assms(1,2)] by blast
  define row where "row = \<lparr>ev_seq = last_event d + 1, ev_at = now, ev_controller = c, ev_key = k, ev_type = type, ev_payload = t\<rparr>"
  define d' where "d' = d\<lparr>last_event := last_event d + 1, events := events d @ [row]\<rparr>"
  have "sql_get (\<lambda>r. ev_seq r = last_event d + 1) (events d) = None"
    using assms(8) by (fastforce simp: event_feed_ok_def sql_get_None)
  then have "sql_get (\<lambda>r. ev_seq r = last_event d + 1) (events d') = Some row"
    by (simp add: d'_def sql_get_append row_def) (simp add: sql_get_def)
  then obtain ce where "requireEvent (last_event d + 1) d' = (Inr ce, d')"
    using v by (auto simp: requireEvent_def eventFromRow_def row_def)
  then have "recordEvent c k type (Some p) now d = (Inr ce, d')"
    using assms(2-7) by (simp add: recordEvent_def guarded_pass validator_defs with_result_def Let_def d'_def row_def)
  moreover have "queue d' = queue d" "resources d' = resources d" "event_feed_ok d'"
    using assms(8) by (auto simp: d'_def event_feed_ok_def row_def)
  ultimately show ?thesis using that by blast
qed

definition sample_controller :: controller where
  "sample_controller = \<lparr>df_identity = 0, df_name = ''c'', df_timeout = None, df_initial = Some\<rparr>"

definition sample_options :: manager_options where
  "sample_options = \<lparr>op_controllers = [sample_controller], op_max = None, op_limits = None, op_timeout = None,
     op_lease = None, op_poll = None, op_base = None, op_ceiling = None, op_jitter = None\<rparr>"

definition sample_manager :: manager where
  "sample_manager = \<lparr>mg_definitions = [(''c'', sample_controller)], mg_max = 4, mg_limits = [], mg_timeout = 60000,
     mg_lease = 120000, mg_poll = 250, mg_base = 1000, mg_ceiling = 60000, mg_jitter = 1 / 5\<rparr>"

lemma sample_manager: "new_manager sample_options = Inr sample_manager"
  by (simp add: new_manager_def sample_options_def sample_controller_def sample_manager_def option_or_def
      manager_defaults has_own_def obj_keys_def obj_put_def positive_safe_def MAX_SAFE_INTEGER_def)

definition sample_world :: "db \<Rightarrow> pulse list \<Rightarrow> nat \<Rightarrow> world" where
  "sample_world d ps n = \<lparr>wd_db = d, wd_active = [], wd_tick = n, wd_clock = (\<lambda>_. 1000), wd_others = (\<lambda>_. []), wd_ids = (\<lambda>_. ''i''),
     wd_random = (\<lambda>_. 1 / 2), wd_pulses = (\<lambda>_. ps)\<rparr>"

lemma sample_calls:
  "now_ms (sample_world d ps n) = (Inr 1000, sample_world d ps (n + 1))"
  "random_id (sample_world d ps n) = (Inr ''i'', sample_world d ps (n + 1))"
  "random_number (sample_world d ps n) = (Inr (1 / 2), sample_world d ps (n + 1))"
  "store_call f (sample_world d ps n) = (lift_store (fst (f d)), sample_world (snd (f d)) ps (n + 1))"
  "wd_pulses (sample_world d ps n) k = ps" "wd_db (sample_world d ps n) = d"
  by (simp_all add: sample_world_def now_ms_def random_id_def random_number_def store_call_def tick_def resource_run_def
      split: prod.split)

definition quiet_text :: "manager_error \<Rightarrow> string" where "quiet_text e = ''late''"

lemma sample_iso_times: "iso 1000 = Inr ''1970-01-01T00:00:01.000Z''" "iso 2000 = Inr ''1970-01-01T00:00:02.000Z''"
proof -
  have "iso_string 1000 = Some ''1970-01-01T00:00:01.000Z''" "iso_string 2000 = Some ''1970-01-01T00:00:02.000Z''"
    unfolding iso_string_def Let_def by (simp_all add: iso_string_eval)
  then show "iso 1000 = Inr ''1970-01-01T00:00:01.000Z''" "iso 2000 = Inr ''1970-01-01T00:00:02.000Z''"
    by (simp_all add: iso_def)
qed

lemma started_column: "json_column (JObj [(''reconcileId'', JStr ''i''), (''generation'', jnat 1)]) d = Inr ''{\"generation\":1,\"reconcileId\":\"i\"}''"
  by code_simp

lemma failed_column: "json_column (JObj [(''reconcileId'', JStr ''i''), (''error'', JStr ''late''), (''durationMs'', jint 0), (''requeueAfterMs'', jint 1000)]) d =
    Inr ''{\"durationMs\":0,\"error\":\"late\",\"reconcileId\":\"i\",\"requeueAfterMs\":1000}''"
  by code_simp

lemma sample_backoff: "backoffMs sample_manager 1 (1 / 2) = 1000"
  by (simp add: backoffMs_def raw_backoff_def sample_manager_def js_round_def floor_eq_iff)

lemma sample_event:
  assumes "wf_js p" "json_column p ''controller event payload'' = Inr t" "utf8_length t \<le> MAX_EVENT_BYTES"
    and "name_pattern type" "event_feed_ok d"
  obtains d' where "recordManagerEvent (''c'', ''k'') type p (sample_world d ps n) = (Inr (), sample_world d' ps (n + 2))"
    and "queue d' = queue d" "resources d' = resources d" "event_feed_ok d'"
proof -
  have ok: "name_pattern ''c''" "valid_key ''k''"
    by (simp_all add: name_pattern_def valid_key_def MAX_KEY_LENGTH_def char_class_defs)
  obtain ce d' where d': "recordEvent ''c'' ''k'' type (Some p) ''1970-01-01T00:00:01.000Z'' d = (Inr ce, d')"
    "queue d' = queue d" "resources d' = resources d" "event_feed_ok d'"
    by (rule recordEvent_succeeds[OF assms(1-3) ok assms(4) sample_times(1) assms(5)])
  have "recordManagerEvent (''c'', ''k'') type p (sample_world d ps n) = (Inr (), sample_world d' ps (n + 2))"
    by (simp add: recordManagerEvent_def now_iso_def and_then_def sample_calls iso_at_def sample_iso_times lift_store_def
        d'(1) return_op_def)
  then show ?thesis using that d' by blast
qed

lemma sample_resource: "\<exists>res. getResource (''c'', ''k'') (claimed_db 1) = Inr (Some res) \<and> res_generation res = 1 \<and> res_version res = 1"
  by (simp add: getResource_def resourceRow_def sample_defs sql_get_def rr_ref_def resourceFromRow_def stored_finalizers_def
      stored_json_def parseStoredJson_def sample_parse validateFinalizers_def)

lemma sample_reconciled:
  "\<exists>w'. reconcileClaim sample_manager quiet_text sample_controller sample_claim (sample_world (claimed_db 1) [] 0) = (Inr (), w')"
proof -
  obtain res where res: "getResource (''c'', ''k'') (claimed_db 1) = Inr (Some res)" "res_generation res = 1"
    using sample_resource by blast
  have errors: "c_errors sample_claim = 0" by (simp add: sample_claim_def)
  have ref: "c_ref sample_claim = (''c'', ''k'')" by (simp add: sample_claim_def c_ref_def)
  have feed: "event_feed_ok (claimed_db 1)" by (simp add: event_feed_ok_def sample_defs empty_db_def)
  have fit: "utf8_length ''{\"generation\":1,\"reconcileId\":\"i\"}'' \<le> MAX_EVENT_BYTES"
    "utf8_length ''{\"durationMs\":0,\"error\":\"late\",\"reconcileId\":\"i\",\"requeueAfterMs\":1000}'' \<le> MAX_EVENT_BYTES"
    "name_pattern ''reconcile_started''" "name_pattern ''reconcile_failed''"
    by (simp_all add: utf8_length_def MAX_EVENT_BYTES_def name_pattern_def char_class_defs)
  have wf: "wf_js (JObj [(''reconcileId'', JStr ''i''), (''generation'', jnat 1)])"
    "wf_js (JObj [(''reconcileId'', JStr ''i''), (''error'', JStr ''late''), (''durationMs'', jint 0), (''requeueAfterMs'', jint 1000)])"
    by (simp_all add: jint_def int_dec_def is_num_nat_dec)
  obtain d1 where d1: "recordManagerEvent (''c'', ''k'') ''reconcile_started'' (JObj [(''reconcileId'', JStr ''i''), (''generation'', jnat 1)])
      (sample_world (claimed_db 1) [] 3) = (Inr (), sample_world d1 [] (3 + 2))" "event_feed_ok d1"
    by (rule sample_event[OF wf(1) started_column fit(1,3) feed])
  obtain d2 where d2: "recordManagerEvent (''c'', ''k'') ''reconcile_failed'' (JObj [(''reconcileId'', JStr ''i''), (''error'', JStr ''late''),
      (''durationMs'', jint 0), (''requeueAfterMs'', jint 1000)]) (sample_world d1 [] 7) = (Inr (), sample_world d2 [] (7 + 2))"
    by (rule sample_event[OF wf(2) failed_column fit(2,4) d1(2)])
  have "\<exists>b d3. requeueClaim sample_claim ''1970-01-01T00:00:02.000Z'' (Some ''late'') d2 = (Inr b, d3)"
    by (cases "claimedRow sample_claim d2") (auto simp: requeueClaim_def store_eval sample_times)
  then obtain b d3 where d3: "requeueClaim sample_claim ''1970-01-01T00:00:02.000Z'' (Some ''late'') d2 = (Inr b, d3)" by blast
  have "reconcileClaim sample_manager quiet_text sample_controller sample_claim (sample_world (claimed_db 1) [] 0) =
      (Inr (), sample_world d3 [] 10)"
    using d1(1) d2 d3 res
    by (simp del: One_nat_def add: reconcileClaim_def store_read_def and_then_def sample_calls ref lift_store_def caught_def try_then_def throw_def
        finishFailedClaim_def quiet_text_def truncateError_def MAX_ERROR_LENGTH_def Let_def sample_backoff iso_at_def
        sample_iso_times return_op_def errors)
  then show ?thesis by blast
qed

theorem processed_claim_is_given_up_witness:
  "\<exists>w'. reconcileClaim sample_manager quiet_text sample_controller sample_claim (sample_world (claimed_db 1) [] 0) = (Inr (), w') \<and>
     list_all (\<lambda>q. \<not> claim_of sample_claim q) (queue (wd_db w'))"
proof -
  have "linked (wd_db (sample_world (claimed_db 1) [] 0))"
    by (simp add: sample_calls sample_defs linked_def q_ref_def rr_ref_def)
  then show ?thesis
    using sample_reconciled processed_claim_is_given_up by (metis list_all_iff)
qed

section \<open>Configurations\<close>

definition sane :: "manager \<Rightarrow> bool" where
  "sane m \<longleftrightarrow> 0 < mg_max m \<and> 300 \<le> mg_lease m \<and> 0 < mg_timeout m \<and> 0 < mg_poll m \<and> 0 < mg_base m \<and>
     mg_base m \<le> mg_ceiling m \<and> 0 \<le> mg_jitter m \<and> mg_jitter m \<le> 1"

lemma positiveInteger_pos: "positiveInteger v name = Inr n \<Longrightarrow> 0 < n"
  by (cases v) (auto simp: positive_safe_def split: if_splits)

lemma jitter_ratio_range: "jitter_ratio v = Inr q \<Longrightarrow> 0 \<le> q \<and> q \<le> 1"
  by (cases v) (auto split: if_splits)

lemma new_manager_sane: "new_manager options = Inr m \<Longrightarrow> sane m"
  by (auto simp: new_manager_def sane_def MIN_LEASE_MS_def positiveInteger_pos jitter_ratio_range
      split: sum.splits if_splits)

lemma js_round_near: "\<bar>of_int (js_round q) - q\<bar> \<le> 1 / 2"
  unfolding js_round_def by linarith

lemma raw_backoff_range:
  "sane m \<Longrightarrow> mg_base m \<le> raw_backoff m n \<and> raw_backoff m n \<le> mg_ceiling m \<and> raw_backoff m n \<le> raw_backoff m (n + 1)"
proof -
  assume m: "sane m"
  have "(2::nat) ^ min (n - 1) 30 \<le> 2 ^ min (n + 1 - 1) 30" by (rule power_increasing) auto
  then have "mg_base m * 2 ^ min (n - 1) 30 \<le> mg_base m * 2 ^ min (n + 1 - 1) 30" by (rule mult_le_mono2)
  moreover have "mg_base m \<le> mg_base m * 2 ^ min (n - 1) 30" by simp
  ultimately show ?thesis using m unfolding raw_backoff_def sane_def by (simp add: min.coboundedI1 min.coboundedI2)
qed

text \<open>
  C31: Backoff stays within bounds.  For every configuration the constructor accepts and every random
  number, the delay after a failure is at least a millisecond and differs from the raw backoff by at
  most the jitter ratio and the rounding; the raw backoff lies between the base and the ceiling and
  never shrinks as errors go on.
\<close>

theorem backoff_bounded:
  assumes "new_manager options = Inr m" and "0 \<le> random" and "random < 1"
  shows "1 \<le> backoffMs m n random \<and>
    \<bar>of_int (backoffMs m n random) - of_nat (raw_backoff m n)\<bar> \<le> mg_jitter m * of_nat (raw_backoff m n) + 1 / 2 \<and>
    mg_base m \<le> raw_backoff m n \<and> raw_backoff m n \<le> mg_ceiling m \<and> raw_backoff m n \<le> raw_backoff m (n + 1)"
proof -
  have m: "sane m" by (rule new_manager_sane[OF assms(1)])
  define raw where "raw = (of_nat (raw_backoff m n) :: rat)"
  define j where "j = mg_jitter m"
  have "1 \<le> raw_backoff m n" using m raw_backoff_range[OF m, of n] by (simp add: sane_def)
  then have raw: "1 \<le> raw" by (simp add: raw_def)
  have j: "0 \<le> j" "j \<le> 1" using m by (simp_all add: sane_def j_def)
  define x where "x = raw * (1 + (random * 2 - 1) * j)"
  have "\<bar>(random * 2 - 1) * j\<bar> \<le> 1 * j"
    unfolding abs_mult using assms(2,3) j by (intro mult_mono) auto
  then have "\<bar>raw * ((random * 2 - 1) * j)\<bar> \<le> raw * j"
    unfolding abs_mult using raw by (intro mult_mono) auto
  then have near: "\<bar>x - raw\<bar> \<le> j * raw" by (simp add: x_def algebra_simps)
  have delay: "backoffMs m n random = max 1 (js_round x)"
    by (simp add: backoffMs_def x_def raw_def j_def Let_def)
  have "\<bar>of_int (max 1 (js_round x)) - raw\<bar> \<le> j * raw + 1 / 2"
  proof (cases "1 \<le> js_round x")
    case True
    then show ?thesis using js_round_near[of x] near unfolding abs_le_iff max_def by simp
  next
    case False
    then have "of_int (js_round x) \<le> (0::rat)" by simp
    then have "x \<le> 1 / 2" using js_round_near[of x] unfolding abs_le_iff by linarith
    then show ?thesis using False near raw unfolding abs_le_iff max_def by simp
  qed
  then show ?thesis using raw_backoff_range[OF m, of n] by (simp add: delay raw_def j_def)
qed

theorem backoff_bounded_witness:
  "1 \<le> backoffMs sample_manager 3 (3 / 4) \<and> raw_backoff sample_manager 3 \<le> 60000"
  using backoff_bounded[OF sample_manager, of "3 / 4" 3] by (simp add: sample_manager_def)

section \<open>Limits of concurrency\<close>

text \<open>
  The workers of a manager and the callers of \<open>runOne\<close> share the counts.  A claim and the entry of its
  reconciliation are one step, since nothing is awaited between them; in the end it is left.
\<close>

record pool =
  pl_active :: "nat obj"
  pl_flight :: "string list"

inductive pool_step :: "manager \<Rightarrow> pool \<Rightarrow> pool \<Rightarrow> bool" for m where
  claim: "claimNext (eligibleControllers m (pl_active p)) (int (mg_lease m)) now token d = (Inr (Some c), d') \<Longrightarrow>
    pool_step m p \<lparr>pl_active = enterClaim (c_controller c) (pl_active p), pl_flight = c_controller c # pl_flight p\<rparr>"
| finish: "name \<in> set (pl_flight p) \<Longrightarrow>
    pool_step m p \<lparr>pl_active = leaveClaim name (pl_active p), pl_flight = remove1 name (pl_flight p)\<rparr>"

definition in_flight :: "pool \<Rightarrow> string \<Rightarrow> nat" where
  "in_flight p name = count_list (pl_flight p) name"

definition pool_ok :: "manager \<Rightarrow> pool \<Rightarrow> bool" where
  "pool_ok m p \<longleftrightarrow> (\<forall>name. activeCount (pl_active p) name = in_flight p name \<and>
     (obj_get (pl_active p) name = None \<longleftrightarrow> in_flight p name = 0) \<and> in_flight p name \<le> limitOf m name)"

lemma claimNext_controller: "claimNext cs lease now token d = (Inr (Some c), d') \<Longrightarrow> c_controller c \<in> set cs"
  by (auto simp: claimNext_def op_Inr return_op_def claim_rows_def Let_def transact_Inr with_result_Inr claimable_def
      split: if_splits option.splits dest!: sql_first_Some(2))

lemma count_remove1: "x \<in> set xs \<Longrightarrow> count_list (remove1 x xs) y = count_list xs y - (if y = x then 1 else 0)"
  by (induction xs) (auto simp: count_list_0_iff)

lemma pool_step_ok: "pool_step m p p' \<Longrightarrow> pool_ok m p \<Longrightarrow> pool_ok m p'"
proof (induction rule: pool_step.induct)
  case (claim p now token d c d')
  have "activeCount (pl_active p) (c_controller c) < limitOf m (c_controller c)"
    using claimNext_controller[OF claim.hyps] by (simp add: eligibleControllers_def)
  then show ?case
    using claim.prems by (auto simp: pool_ok_def in_flight_def enterClaim_def activeCount_def option_or_def)
next
  case (finish name p)
  then have pos: "0 < count_list (pl_flight p) name" using count_list_0_iff by (metis not_gr_zero)
  then obtain n where "obj_get (pl_active p) name = Some n"
    using finish.prems unfolding pool_ok_def in_flight_def by (metis not_gr_zero option.exhaust)
  moreover from this have "n = count_list (pl_flight p) name"
    using finish.prems unfolding pool_ok_def in_flight_def activeCount_def option_or_def by (metis option.simps(5))
  ultimately have n: "obj_get (pl_active p) name = Some (count_list (pl_flight p) name)" by simp
  define k where "k = count_list (pl_flight p) name"
  have left: "obj_get (leaveClaim name (pl_active p)) other = (if other = name then (if k = 1 then None else Some (k - 1))
      else obj_get (pl_active p) other)" for other
    using pos n by (auto simp: leaveClaim_def option_or_def Let_def k_def nat_diff_distrib)
  have count: "count_list (remove1 name (pl_flight p)) other = (if other = name then k - 1 else count_list (pl_flight p) other)" for other
    by (simp add: count_remove1[OF finish.hyps] k_def)
  show ?case
    unfolding pool_ok_def
  proof
    fix other
    have "activeCount (pl_active p) other = in_flight p other"
      "obj_get (pl_active p) other = None \<longleftrightarrow> in_flight p other = 0" "in_flight p other \<le> limitOf m other"
      using finish.prems unfolding pool_ok_def by blast+
    then show "activeCount (pl_active \<lparr>pl_active = leaveClaim name (pl_active p), pl_flight = remove1 name (pl_flight p)\<rparr>) other =
        in_flight \<lparr>pl_active = leaveClaim name (pl_active p), pl_flight = remove1 name (pl_flight p)\<rparr> other \<and>
      (obj_get (pl_active \<lparr>pl_active = leaveClaim name (pl_active p), pl_flight = remove1 name (pl_flight p)\<rparr>) other = None \<longleftrightarrow>
        in_flight \<lparr>pl_active = leaveClaim name (pl_active p), pl_flight = remove1 name (pl_flight p)\<rparr> other = 0) \<and>
      in_flight \<lparr>pl_active = leaveClaim name (pl_active p), pl_flight = remove1 name (pl_flight p)\<rparr> other \<le> limitOf m other"
      using pos by (cases "other = name") (auto simp: in_flight_def left count activeCount_def option_or_def k_def)
  qed
qed

text \<open>
  C30: Concurrency limits hold.  However the workers of a manager claim and finish, over whatever states of the store, at
  every moment each controller has at most as many reconciliations in flight as its limit allows,
  and the counts are exactly the numbers in flight, so no capacity is lost.
\<close>

theorem concurrency_limits_hold:
  assumes "(pool_step m)\<^sup>*\<^sup>* \<lparr>pl_active = [], pl_flight = []\<rparr> p"
  shows "in_flight p name \<le> limitOf m name \<and> activeCount (pl_active p) name = in_flight p name"
proof -
  have "pool_ok m \<lparr>pl_active = [], pl_flight = []\<rparr>"
    by (simp add: pool_ok_def in_flight_def activeCount_def option_or_def)
  from assms this have "pool_ok m p" by (induction rule: rtranclp_induct) (auto intro: pool_step_ok)
  then show ?thesis by (simp add: pool_ok_def)
qed

end
