(* ===== verification/ReconcileLaws.thy ===== *)
theory ReconcileLaws
  imports ManagerLaws ResourceLaws
begin

text \<open>
  How a reconciliation ends for its queue row and its resource: a failure is retried after its
  backoff, a result made from an outdated resource is dropped and tried again, and conditions keep
  their transition times.
\<close>

section \<open>The claimed row under other processes\<close>

definition holds_row :: "queue_claim \<Rightarrow> int \<Rightarrow> nat \<Rightarrow> db \<Rightarrow> bool" where
  "holds_row claim until errors d \<longleftrightarrow> work_ok d \<and> (\<exists>q. queue_row_of (c_ref claim) d = Some q \<and>
     row_lease q = Some (c_token claim, until) \<and> q_errors q = errors)"

definition unhindered :: "queue_claim \<Rightarrow> int \<Rightarrow> world \<Rightarrow> bool" where
  "unhindered claim until w \<longleftrightarrow> (\<forall>n. list_all (leaves_lease (c_ref claim) (c_token claim) until) (wd_others w n))"

lemma holds_row_step:
  assumes "holds_row claim until k d" and "leaves_lease (c_ref claim) (c_token claim) until a"
  shows "holds_row claim until k (resource_step a d)"
proof -
  obtain q where q: "queue_row_of (c_ref claim) d = Some q" "row_lease q = Some (c_token claim, until)" "q_errors q = k"
    using assms(1) by (auto simp: holds_row_def)
  have "row_kept (c_ref claim) d (resource_step a d)"
    by (rule row_kept_step[OF q(1,2)]) (use assms(2) in \<open>auto simp: leaves_lease_def\<close>)
  then obtain q' where "queue_row_of (c_ref claim) (resource_step a d) = Some q'" "woken q q'"
    using q(1) by (auto simp: row_kept_def)
  moreover have "work_ok (resource_step a d)"
    using assms by (intro work_ok_step) (auto simp: holds_row_def leaves_lease_def)
  moreover have "row_lease q' = row_lease q" if "woken q q'" for q'
    using that by (simp only: row_lease_def woken_def)
  ultimately show ?thesis using q by (auto simp: holds_row_def woken_def)
qed

lemma holds_row_run:
  "holds_row claim until k d \<Longrightarrow> list_all (leaves_lease (c_ref claim) (c_token claim) until) as \<Longrightarrow>
    holds_row claim until k (resource_run as d)"
  by (induction as arbitrary: d) (simp_all add: resource_run_def holds_row_step)

lemma recordEvent_tables:
  assumes "recordEvent c k type p now d = (r, d')"
  shows "queue d' = queue d" "resources d' = resources d" "effects d' = effects d" "requests d' = requests d"
proof -
  have same: "reflp (\<lambda>d d'. f d' = f d)" for f :: "db \<Rightarrow> 'b" by (simp add: reflp_def)
  have "keeps (\<lambda>d d'. (queue d', resources d', effects d', requests d') = (queue d, resources d, effects d, requests d))
      (recordEvent c k type p now)"
    unfolding recordEvent_def
    by (intro keeps_guarded keeps_with_result same[of "\<lambda>d. (queue d, resources d, effects d, requests d)"])
      (simp add: keeps_def Let_def requireEvent_def split: option.split)
  from keepsD[OF this assms] show "queue d' = queue d" "resources d' = resources d" "effects d' = effects d" "requests d' = requests d"
    by simp_all
qed

lemma holds_row_event:
  "holds_row claim until k d \<Longrightarrow> recordEvent c key type p now d = (r, d') \<Longrightarrow> holds_row claim until k d'"
  using recordEvent_tables[of c key type p now d r d'] by (simp add: holds_row_def work_ok_def queue_row_of_def)

text \<open>What the readings of a world leave alone.\<close>

definition next_world :: "nat \<Rightarrow> db \<Rightarrow> world \<Rightarrow> world" where
  "next_world n d w = w\<lparr>wd_tick := wd_tick w + n, wd_db := d\<rparr>"

lemma next_world_simps [simp]:
  "wd_db (next_world n d w) = d" "wd_tick (next_world n d w) = wd_tick w + n" "wd_others (next_world n d w) = wd_others w"
  "wd_clock (next_world n d w) = wd_clock w" "wd_random (next_world n d w) = wd_random w"
  "next_world k e (next_world n d w) = next_world (n + k) e w"
  by (simp_all add: next_world_def add.assoc)

lemma readings:
  "now_ms w = (Inr (wd_clock w (wd_tick w)), next_world 1 (wd_db w) w)"
  "random_number w = (Inr (wd_random w (wd_tick w)), next_world 1 (wd_db w) w)"
  "random_id w = (Inr (wd_ids w (wd_tick w)), next_world 1 (wd_db w) w)"
  by (simp_all add: now_ms_def random_number_def random_id_def tick_def next_world_def)

lemma store_call_next: "store_call f w = (Inr a, w') \<longleftrightarrow>
    (\<exists>d. f (resource_run (wd_others w (wd_tick w)) (wd_db w)) = (Inr a, d) \<and> w' = next_world 1 d w)"
  by (auto simp: store_call_Inr tick_def next_world_def)

lemma iso_at_Inr: "iso_at t w = (Inr s, w') \<longleftrightarrow> iso t = Inr s \<and> w' = w"
  by (auto simp: iso_at_def lift_store_def map_sum_def split: sum.splits)

lemma event_next:
  assumes "recordManagerEvent ref type p w = (Inr (), w')"
  obtains d ce now where "recordEvent (fst ref) (snd ref) type (Some p) now
      (resource_run (wd_others w (wd_tick w + 1)) (wd_db w)) = (Inr ce, d)" and "w' = next_world 2 d w"
  using assms by (auto simp del: One_nat_def simp: recordManagerEvent_def and_then_Inr now_iso_def readings iso_at_Inr store_call_next return_op_def)

section \<open>Retrying\<close>

lemma requeued_row:
  assumes "holds_row claim until k d" and "requeueClaim claim s err d = (Inr b, d')" and "date_parse s = Some n"
  obtains q where "queue_row_of (c_ref claim) d' = Some q" and "q_token q = None" and "q_available q \<le> n"
    and "q_errors q = (if err = None then 0 else k + 1)" and "q_last_error q = map_option truncateError err"
    and "resources d' = resources d"
proof -
  obtain q where q: "queue_row_of (c_ref claim) d = Some q" "row_lease q = Some (c_token claim, until)" "q_errors q = k"
    and ok: "work_ok d" using assms(1) by (auto simp: holds_row_def)
  have tok: "q_token q = Some (c_token claim)" using q(2) by (auto simp: row_lease_def split: option.splits)
  have row: "claimedRow claim d = Some q" by (rule claimedRow_held[OF ok q(1) tok]) simp_all
  have own: "claim_of claim q" using row by (auto simp: claimedRow_def dest: sql_get_Some)
  show ?thesis
  proof (rule requeue_rows[OF assms(2) row])
    fix m assume m: "date_parse s = Some m" and d': "d' = d\<lparr>queue := sql_update (claim_of claim) (\<lambda>r. (released r)\<lparr>
      q_available := (if Some (q_version q) \<noteq> q_claim_version q then min (q_available q) m else m),
      q_errors := (if err = None then 0 else q_errors q + 1), q_last_error := map_option truncateError err\<rparr>) (queue d)\<rparr>"
    have "queue_row_of (c_ref claim) d' = Some ((released q)\<lparr>
      q_available := (if Some (q_version q) \<noteq> q_claim_version q then min (q_available q) m else m),
      q_errors := (if err = None then 0 else q_errors q + 1), q_last_error := map_option truncateError err\<rparr>)"
      using q(1) own unfolding d' by (simp add: queue_row_of_def sql_get_sql_update)
    then show ?thesis by (rule that) (use m assms(3) q(3) in \<open>simp_all add: d' released_def\<close>)
  qed
qed

text \<open>
  C29: A failed reconciliation is tried again.  As long as the lease holds, whatever the other
  processes do meanwhile, the end of a failed reconciliation leaves its resource in the queue: free,
  with one more error counted and the message kept, and due no later than the backoff after the
  failure.
\<close>

theorem failed_reconcile_is_retried:
  assumes "holds_row claim until errors (wd_db w)" and "unhindered claim until w"
    and "finishFailedClaim m message_of claim i e started w = (Inr (), w')"
    and "0 \<le> wd_clock w (wd_tick w)"
    and "wd_clock w (wd_tick w) + backoffMs m (c_errors claim + 1) (wd_random w (wd_tick w + 1)) < 253402300800000"
  shows "\<exists>q. queue_row_of (c_ref claim) (wd_db w') = Some q \<and> q_token q = None \<and> q_errors q = errors + 1 \<and>
    q_last_error q = Some (truncateError (truncateError (message_of e))) \<and>
    q_available q \<le> wd_clock w (wd_tick w) + backoffMs m (c_errors claim + 1) (wd_random w (wd_tick w + 1))"
proof -
  let ?t = "wd_clock w (wd_tick w)" and ?delay = "backoffMs m (c_errors claim + 1) (wd_random w (wd_tick w + 1))"
  obtain w1 s b where event: "\<exists>p. recordManagerEvent (c_ref claim) ''reconcile_failed'' p (next_world 2 (wd_db w) w) = (Inr (), w1)"
    and s: "iso (?t + ?delay) = Inr s"
    and requeue: "store_call (requeueClaim claim s (Some (truncateError (message_of e)))) w1 = (Inr b, w')"
    using assms(3) by (auto simp del: One_nat_def simp: finishFailedClaim_def and_then_Inr readings Let_def iso_at_Inr return_op_def)
  obtain d1 where w1: "w1 = next_world 4 d1 w" and d1: "holds_row claim until errors d1"
  proof -
    obtain p where "recordManagerEvent (c_ref claim) ''reconcile_failed'' p (next_world 2 (wd_db w) w) = (Inr (), w1)"
      using event by blast
    then show ?thesis
    proof (rule event_next)
      fix d ce now assume "recordEvent (fst (c_ref claim)) (snd (c_ref claim)) ''reconcile_failed'' (Some p) now
          (resource_run (wd_others (next_world 2 (wd_db w) w) (wd_tick (next_world 2 (wd_db w) w) + 1)) (wd_db (next_world 2 (wd_db w) w))) = (Inr ce, d)"
        and "w1 = next_world 2 d (next_world 2 (wd_db w) w)"
      then show ?thesis
        using assms(1,2) by (intro that[of d]) (auto simp del: One_nat_def simp: unhindered_def intro: holds_row_event holds_row_run)
    qed
  qed
  define d2 where "d2 = resource_run (wd_others w (wd_tick w + 4)) d1"
  have d2: "holds_row claim until errors d2"
    unfolding d2_def using assms(2) by (intro holds_row_run d1) (simp add: unhindered_def)
  obtain d3 where d3: "requeueClaim claim s (Some (truncateError (message_of e))) d2 = (Inr b, d3)" and w': "wd_db w' = d3"
    using requeue by (auto simp del: One_nat_def simp: store_call_next w1 d2_def)
  have "1 \<le> ?delay" by (simp add: backoffMs_def Let_def)
  then obtain s' where "iso_string (?t + ?delay) = Some s'" "date_parse s' = Some (?t + ?delay)"
    using date_parse_iso[of "?t + ?delay"] assms(4,5) by auto
  then have due: "date_parse s = Some (?t + ?delay)" using s by (simp add: iso_def)
  show ?thesis by (rule requeued_row[OF d2 d3 due]) (auto simp: w')
qed

section \<open>Outdated results\<close>

lemma updateStatus_stale:
  assumes "resourceRow ref d = Some row" and "rr_version row \<noteq> v"
  obtains e where "updateStatus ref v status fs now d = (Inl e, d)"
proof -
  have "\<exists>e. updateStatus ref v status fs now d = (Inl e, d)"
    by (simp add: updateStatus_def guarded_def with_result_def status_rows_stale[OF assms] split: option.split sum.split)
  then show ?thesis using that by blast
qed

text \<open>
  C28: A result made from an outdated resource is dropped.  Suppose the manager still holds the claim, nobody
  else touches the claim's queue row while it finishes, no other process acts after the status
  write, finishing returns without an error, and the clock is in the range of dates.  When somebody
  has changed the resource since the reconciler was given it, the manager then writes nothing of
  the result to any resource, and leaves the resource in the queue, free and due at once, so that
  it is reconciled again as it is now.
\<close>

theorem stale_result_is_dropped:
  assumes "holds_row claim until errors (wd_db w)" and "unhindered claim until w"
    and "resourceRow (c_ref claim) (resource_run (wd_others w (wd_tick w + 1)) (wd_db w)) = Some row"
    and "rr_version row \<noteq> res_version res"
    and "\<And>n. wd_tick w + 1 < n \<Longrightarrow> wd_others w n = []"
    and "finishSuccessfulClaim claim res result i started w = (Inr (), w')"
    and "0 \<le> wd_clock w (wd_tick w)" and "wd_clock w (wd_tick w) < 253402300800000"
  shows "resources (wd_db w') = resources (resource_run (wd_others w (wd_tick w + 1)) (wd_db w)) \<and>
    (\<exists>q. queue_row_of (c_ref claim) (wd_db w') = Some q \<and> q_token q = None \<and> q_errors q = 0 \<and>
      q_available q \<le> wd_clock w (wd_tick w))"
proof -
  let ?t = "wd_clock w (wd_tick w)"
  define d1 where "d1 = resource_run (wd_others w (wd_tick w + 1)) (wd_db w)"
  have d1: "holds_row claim until errors d1"
    unfolding d1_def using assms(1,2) by (intro holds_row_run) (simp_all add: unhindered_def)
  obtain now status where now: "iso ?t = Inr now"
    and step: "try_then (publishResult claim res result i (?t - started) status now) (afterPublish claim result i ?t now)
      (next_world 1 (wd_db w) w) = (Inr (), w')"
    using assms(6) by (auto simp del: One_nat_def simp: finishSuccessfulClaim_def and_then_Inr readings iso_at_Inr with_result_Inr)
  obtain e where e: "updateStatus (c_ref claim) (res_version res) (status_json status) (result_finalizers result) now d1 = (Inl e, d1)"
    by (rule updateStatus_stale[OF assms(3,4), folded d1_def])
  have "publishResult claim res result i (?t - started) status now (next_world 1 (wd_db w) w) = (Inl (StoreFailure e), next_world 2 d1 w)"
    unfolding publishResult_def
    by (simp del: One_nat_def add: and_then_def store_call_def e[unfolded d1_def] d1_def lift_store_def tick_def next_world_def add.assoc)
  then have after: "afterPublish claim result i ?t now (Inl (StoreFailure e)) (next_world 2 d1 w) = (Inr (), w')"
    using step by (simp add: try_then_def)
  then have "conflicting (StoreFailure e)" by (auto simp: afterPublish_def throw_def split: if_splits)
  then obtain w1 b where event: "recordManagerEvent (c_ref claim) ''reconcile_conflict'' (JObj [(''reconcileId'', JStr i)]) (next_world 2 d1 w) = (Inr (), w1)"
    and requeue: "store_call (requeueClaim claim now None) w1 = (Inr b, w')"
    using after by (auto simp: afterPublish_def and_then_Inr return_op_def)
  have silent: "resource_run (wd_others w (wd_tick w + n)) d = d" if "1 < n" for n d
    using assms(5)[of "wd_tick w + n"] that by (simp add: resource_run_def)
  have third: "wd_tick w + 2 + 1 = wd_tick w + 3" by simp
  have silent3: "resource_run (wd_others w (wd_tick w + 3)) d = d" for d by (rule silent) simp
  obtain d2 where d2: "w1 = next_world 4 d2 w" "holds_row claim until errors d2" "resources d2 = resources d1"
  proof (rule event_next[OF event])
    fix d ce n assume d: "recordEvent (fst (c_ref claim)) (snd (c_ref claim)) ''reconcile_conflict'' (Some (JObj [(''reconcileId'', JStr i)])) n
        (resource_run (wd_others (next_world 2 d1 w) (wd_tick (next_world 2 d1 w) + 1)) (wd_db (next_world 2 d1 w))) = (Inr ce, d)"
      and w1: "w1 = next_world 2 d (next_world 2 d1 w)"
    have "recordEvent (fst (c_ref claim)) (snd (c_ref claim)) ''reconcile_conflict'' (Some (JObj [(''reconcileId'', JStr i)])) n d1 = (Inr ce, d)"
      using d by (simp only: next_world_simps third silent3)
    then show ?thesis using that[of d] w1 holds_row_event[OF d1] recordEvent_tables(2) by simp
  qed
  obtain d3 where d3: "requeueClaim claim now None d2 = (Inr b, d3)" "wd_db w' = d3"
    using requeue silent[of 4] by (auto simp del: One_nat_def simp: store_call_next d2(1))
  have due: "date_parse now = Some ?t" using date_parse_iso[of ?t] now assms(7,8) by (auto simp: iso_def split: option.splits)
  show ?thesis by (rule requeued_row[OF d2(2) d3(1) due]) (use d2(3) d3(2) in \<open>auto simp: d1_def\<close>)
qed

section \<open>Conditions\<close>

definition typed :: "condition obj \<Rightarrow> bool" where
  "typed ob \<longleftrightarrow> distinct (obj_keys ob) \<and> (\<forall>k c. obj_get ob k = Some c \<longrightarrow> cd_type c = k)"

lemma typed_put: "typed ob \<Longrightarrow> cd_type c = k \<Longrightarrow> typed (obj_put k c ob)"
  by (auto simp: typed_def obj_keys_def) (simp add: obj_put_def distinct_update)

lemma typed_in: "typed ob \<Longrightarrow> c \<in> set (map snd ob) \<longleftrightarrow> obj_get ob (cd_type c) = Some c"
proof -
  assume ob: "typed ob"
  have "c \<in> set (map snd ob) \<longleftrightarrow> (\<exists>k. (k, c) \<in> set ob)" by force
  also have "\<dots> \<longleftrightarrow> (\<exists>k. obj_get ob k = Some c)"
    using ob by (simp add: typed_def obj_keys_def obj_get_def map_of_eq_Some_iff)
  also have "\<dots> \<longleftrightarrow> obj_get ob (cd_type c) = Some c" using ob unfolding typed_def by metis
  finally show ?thesis .
qed

lemma typed_types: "typed ob \<Longrightarrow> map cd_type (map snd ob) = obj_keys ob"
  by (auto simp: typed_def obj_keys_def obj_get_def map_of_eq_Some_iff)

lemma by_type_fold:
  "typed ob \<Longrightarrow> typed (fold (\<lambda>c ob. obj_put (cd_type c) c ob) cs ob)"
  "distinct (map cd_type cs) \<Longrightarrow> obj_get (fold (\<lambda>c ob. obj_put (cd_type c) c ob) cs ob) t =
    (case find (\<lambda>c. cd_type c = t) cs of Some c \<Rightarrow> Some c | None \<Rightarrow> obj_get ob t)"
proof (induction cs arbitrary: ob)
  case (Cons c cs)
  { case 1 then show ?case using Cons(1) by (simp add: typed_put) }
  { case 2
    have "find (\<lambda>d. cd_type d = cd_type c) cs = None" using 2 by (auto simp: find_None_iff image_iff)
    moreover have "distinct (map cd_type cs)" using 2 by simp
    ultimately show ?case
      using Cons(2)[of "obj_put (cd_type c) c ob"] by (cases "t = cd_type c"; cases "find (\<lambda>c. cd_type c = t) cs") simp_all }
qed simp_all

lemma by_type_facts:
  shows "typed (by_type cs)"
    and "distinct (map cd_type cs) \<Longrightarrow> obj_get (by_type cs) t = find (\<lambda>c. cd_type c = t) cs"
proof -
  show "typed (by_type cs)" unfolding by_type_def by (rule by_type_fold(1)) (simp add: typed_def obj_keys_def)
  assume "distinct (map cd_type cs)"
  from by_type_fold(2)[OF this, of "[]" t] show "obj_get (by_type cs) t = find (\<lambda>c. cd_type c = t) cs"
    unfolding by_type_def by (cases "find (\<lambda>c. cd_type c = t) cs") simp_all
qed

lemma merge_fresh: "merge_updates ob seen us g now = Inr ob' \<Longrightarrow> u \<in> set us \<Longrightarrow> ci_type u \<notin> set seen"
  by (induction ob seen us g now rule: merge_updates.induct) (auto split: option.splits if_splits)

lemma merge_distinct: "merge_updates ob seen us g now = Inr ob' \<Longrightarrow> distinct (map ci_type us)"
proof (induction ob seen us g now rule: merge_updates.induct)
  case (2 ob seen u us g now)
  then have rest: "merge_updates (obj_put (ci_type u) (next_condition ob g now u) ob) (ci_type u # seen) us g now = Inr ob'"
    and ok: "validateCondition u = None" "ci_type u \<notin> set seen"
    by (auto split: option.splits if_splits)
  have "ci_type u \<notin> ci_type ` set us" using merge_fresh[OF rest] by fastforce
  then show ?case using "2.IH"[OF ok rest] by simp
qed simp

lemma merge_updates_typed: "merge_updates ob seen us g now = Inr ob' \<Longrightarrow> typed ob \<Longrightarrow> typed ob'"
proof (induction ob seen us g now rule: merge_updates.induct)
  case (2 ob seen u us g now)
  then have rest: "merge_updates (obj_put (ci_type u) (next_condition ob g now u) ob) (ci_type u # seen) us g now = Inr ob'"
    and ok: "validateCondition u = None" "ci_type u \<notin> set seen"
    by (auto split: option.splits if_splits)
  have "typed (obj_put (ci_type u) (next_condition ob g now u) ob)"
    using "2.prems"(2) by (intro typed_put) (simp_all add: next_condition_def)
  then show ?case using "2.IH"[OF ok rest] by simp
qed simp

lemma find_type: "distinct (map cd_type cs) \<Longrightarrow> find (\<lambda>p. cd_type p = cd_type c) cs = Some c \<longleftrightarrow> c \<in> set cs"
  by (induction cs) (auto simp: image_iff find_Some_iff)

lemma merge_updates_get:
  "merge_updates ob seen us g now = Inr ob' \<Longrightarrow> obj_get ob' t =
    (case find (\<lambda>u. ci_type u = t) us of None \<Rightarrow> obj_get ob t | Some u \<Rightarrow> Some (next_condition ob g now u))"
proof (induction ob seen us g now rule: merge_updates.induct)
  case (2 ob seen u us g now)
  let ?ob = "obj_put (ci_type u) (next_condition ob g now u) ob"
  have rest: "merge_updates ?ob (ci_type u # seen) us g now = Inr ob'" and ok: "validateCondition u = None" "ci_type u \<notin> set seen"
    using "2.prems" by (auto split: option.splits if_splits)
  have none: "find (\<lambda>v. ci_type v = ci_type u) us = None"
    using merge_fresh[OF rest] by (auto simp: find_None_iff)
  have same: "ci_type v \<noteq> ci_type u \<Longrightarrow> next_condition ?ob g now v = next_condition ob g now v" for v
    by (simp add: next_condition_def)
  have "find (\<lambda>v. ci_type v = t) us = Some v \<Longrightarrow> t \<noteq> ci_type u \<Longrightarrow> ci_type v \<noteq> ci_type u" for v
    by (auto simp: find_Some_iff)
  then show ?case
    using "2.IH"[OF ok rest] none same by (auto split: option.splits)
qed simp

text \<open>
  C32: Conditions are merged by type.  The merged list has one condition per type.  A type that was
  updated has the update with the new generation, and its transition time is the old one exactly when the status
  did not change; every other condition stays, and nothing else is added.
\<close>

theorem conditions_merge_by_type:
  assumes "distinct (map cd_type current)" and "mergeConditions current updates generation now = Inr merged"
  shows "distinct (map cd_type merged) \<and>
    (c \<in> set merged \<longleftrightarrow>
      (if cd_type c \<in> ci_type ` set updates
       then cd_input c \<in> set updates \<and> cd_generation c = generation \<and>
         cd_transition c = (case find (\<lambda>p. cd_type p = cd_type c) current of
             Some p \<Rightarrow> if ci_status (cd_input p) = ci_status (cd_input c) then cd_transition p else now
           | None \<Rightarrow> now)
       else c \<in> set current))"
proof -
  obtain ob where ob: "merge_updates (by_type current) [] updates generation now = Inr ob" and merged: "merged = map snd ob"
    using assms(2) by (auto simp: mergeConditions_def split: sum.splits)
  have typed: "typed ob" by (rule merge_updates_typed[OF ob by_type_facts(1)])
  note get = by_type_facts(2)[OF assms(1)]
  have one: "u = v" if "u \<in> set updates" "v \<in> set updates" "ci_type u = ci_type v" for u v
    using that merge_distinct[OF ob] by (auto simp: distinct_map inj_on_def)
  have "distinct (map cd_type merged)" using typed typed_types[OF typed] by (simp add: merged typed_def)
  moreover have "c \<in> set merged \<longleftrightarrow> obj_get ob (cd_type c) = Some c" unfolding merged by (rule typed_in[OF typed])
  moreover have "obj_get ob (cd_type c) = Some c \<longleftrightarrow> c \<in> set current" if "cd_type c \<notin> ci_type ` set updates"
  proof -
    have "find (\<lambda>u. ci_type u = cd_type c) updates = None" using that by (auto simp: find_None_iff image_iff)
    then show ?thesis by (simp add: merge_updates_get[OF ob] get find_type[OF assms(1)])
  qed
  moreover have "obj_get ob (cd_type c) = Some c \<longleftrightarrow> cd_input c \<in> set updates \<and> cd_generation c = generation \<and>
         cd_transition c = (case find (\<lambda>p. cd_type p = cd_type c) current of
             Some p \<Rightarrow> if ci_status (cd_input p) = ci_status (cd_input c) then cd_transition p else now
           | None \<Rightarrow> now)" if updated: "cd_type c \<in> ci_type ` set updates"
  proof -
    obtain u where find: "find (\<lambda>u. ci_type u = cd_type c) updates = Some u"
      using updated by (cases "find (\<lambda>u. ci_type u = cd_type c) updates") (force simp: find_None_iff)+
    then have u: "u \<in> set updates" "ci_type u = cd_type c" by (auto simp: find_Some_iff)
    have "cd_input c \<in> set updates \<longleftrightarrow> cd_input c = u" using one u by auto
    then show ?thesis
      using find u(2)
      by (cases c; cases "find (\<lambda>p. cd_type p = ci_type u) current") (auto simp: merge_updates_get[OF ob] next_condition_def get)
  qed
  ultimately show ?thesis by simp
qed

section \<open>Witnesses\<close>

lemma sample_holds: "holds_row sample_claim 6000 0 (claimed_db 1)" "unhindered sample_claim 6000 (sample_world d ps n)"
proof -
  have "work_ok (claimed_db 1)"
    using work_ok_step[OF sample_ok, of "ClaimNext [''c''] 5000 ''1970-01-01T00:00:01.000Z'' ''t''"] sample_claimed by simp
  then show "holds_row sample_claim 6000 0 (claimed_db 1)"
    by (simp add: holds_row_def queue_row_of_def sample_defs c_ref_def q_ref_def row_lease_def sql_get_def)
  show "unhindered sample_claim 6000 (sample_world d ps n)" by (simp add: unhindered_def sample_world_def)
qed

lemma sample_feed: "event_feed_ok (claimed_db 1)"
  by (simp add: event_feed_ok_def sample_defs empty_db_def)

lemma sample_ref: "c_ref sample_claim = (''c'', ''k'')" "c_errors sample_claim = 0"
  by (simp_all add: sample_claim_def c_ref_def)

lemma sample_requeue: "date_parse s \<in> {Some 1000, Some 2000} \<Longrightarrow> \<exists>b d'. requeueClaim sample_claim s err d = (Inr b, d')"
  by (cases "claimedRow sample_claim d") (auto simp: requeueClaim_def store_eval)

lemma sample_failed: "\<exists>w'. finishFailedClaim sample_manager quiet_text sample_claim ''i'' ClaimWasLost 1000 (sample_world (claimed_db 1) [] 0) = (Inr (), w')"
proof -
  have fit: "utf8_length ''{\"durationMs\":0,\"error\":\"late\",\"reconcileId\":\"i\",\"requeueAfterMs\":1000}'' \<le> MAX_EVENT_BYTES"
    "name_pattern ''reconcile_failed''"
    by (simp_all add: utf8_length_def MAX_EVENT_BYTES_def name_pattern_def char_class_defs)
  have wf: "wf_js (JObj [(''reconcileId'', JStr ''i''), (''error'', JStr ''late''), (''durationMs'', jint 0), (''requeueAfterMs'', jint 1000)])"
    by (simp add: jint_def int_dec_def is_num_nat_dec)
  obtain d1 where d1: "recordManagerEvent (''c'', ''k'') ''reconcile_failed'' (JObj [(''reconcileId'', JStr ''i''), (''error'', JStr ''late''),
      (''durationMs'', jint 0), (''requeueAfterMs'', jint 1000)]) (sample_world (claimed_db 1) [] 2) = (Inr (), sample_world d1 [] (2 + 2))"
    by (rule sample_event[OF wf failed_column fit sample_feed])
  obtain b d2 where d2: "requeueClaim sample_claim ''1970-01-01T00:00:02.000Z'' (Some ''late'') d1 = (Inr b, d2)"
    using sample_requeue[of "''1970-01-01T00:00:02.000Z''" "Some ''late''" d1] by (auto simp: sample_times)
  have "finishFailedClaim sample_manager quiet_text sample_claim ''i'' ClaimWasLost 1000 (sample_world (claimed_db 1) [] 0) =
      (Inr (), sample_world d2 [] 5)"
    using d1 d2
    by (simp del: One_nat_def add: finishFailedClaim_def and_then_def sample_calls sample_ref lift_store_def quiet_text_def truncateError_def
        MAX_ERROR_LENGTH_def Let_def sample_backoff iso_at_def sample_iso_times return_op_def)
  then show ?thesis by blast
qed

theorem failed_reconcile_is_retried_witness:
  "\<exists>w' q. finishFailedClaim sample_manager quiet_text sample_claim ''i'' ClaimWasLost 1000 (sample_world (claimed_db 1) [] 0) = (Inr (), w') \<and>
    queue_row_of (''c'', ''k'') (wd_db w') = Some q \<and> q_token q = None \<and> q_errors q = 1 \<and> q_available q \<le> 2000"
proof -
  obtain w' where w': "finishFailedClaim sample_manager quiet_text sample_claim ''i'' ClaimWasLost 1000 (sample_world (claimed_db 1) [] 0) = (Inr (), w')"
    using sample_failed by blast
  have clock: "wd_clock (sample_world (claimed_db 1) [] 0) n = 1000" "wd_random (sample_world (claimed_db 1) [] 0) n = 1 / 2" for n
    by (simp_all add: sample_world_def)
  have "holds_row sample_claim 6000 0 (wd_db (sample_world (claimed_db 1) [] 0))" using sample_holds(1) by (simp add: sample_calls)
  from failed_reconcile_is_retried[OF this sample_holds(2) w'] show ?thesis
    using w' by (auto simp del: One_nat_def simp: clock sample_ref sample_backoff)
qed

definition stale_resource :: resource where
  "stale_resource = \<lparr>res_uid = ''u'', res_controller = ''c'', res_key = ''k'', res_version = 5, res_generation = 1, res_deletion = None,
     res_finalizers = [], res_spec = JObj [], res_status = initial_status JNull\<rparr>"

lemma stale_status: "next_status stale_resource (Settled None) now = Inr \<lparr>sts_observed = 1, sts_conditions = [], sts_controller = JNull, sts_run = None\<rparr>"
  by code_simp

lemma stale_column: "json_column (status_json \<lparr>sts_observed = 1, sts_conditions = [], sts_controller = JNull, sts_run = None\<rparr>) d =
    Inr ''{\"conditions\":[],\"controllerStatus\":null,\"observedGeneration\":1}''"
  by code_simp

lemma conflict_column: "json_column (JObj [(''reconcileId'', JStr ''i'')]) d = Inr ''{\"reconcileId\":\"i\"}''"
  by code_simp

lemma stale_row: "resourceRow (''c'', ''k'') (claimed_db 1) = Some sample_row" "rr_version sample_row = 1"
  by (simp_all add: resourceRow_def sample_defs sample_row_def sql_get_def rr_ref_def)

lemma stale_update: "updateStatus (''c'', ''k'') 5 (status_json \<lparr>sts_observed = 1, sts_conditions = [], sts_controller = JNull, sts_run = None\<rparr>)
    None ''1970-01-01T00:00:01.000Z'' (claimed_db 1) = (Inl (ResourceConflict ''c'' ''k''), claimed_db 1)"
proof -
  have now: "list_all fst [validTimestamp ''1970-01-01T00:00:01.000Z'']" by (simp add: validator_defs sample_times)
  have "utf8_length ''{\"conditions\":[],\"controllerStatus\":null,\"observedGeneration\":1}'' \<le> MAX_EVENT_BYTES"
    by (simp add: utf8_length_def MAX_EVENT_BYTES_def char_class_defs)
  also have "MAX_EVENT_BYTES \<le> MAX_RESOURCE_VALUE_BYTES" by (simp add: MAX_EVENT_BYTES_def MAX_RESOURCE_VALUE_BYTES_def)
  finally have size: "list_all fst [validateJsonSize ''{\"conditions\":[],\"controllerStatus\":null,\"observedGeneration\":1}'' ''Controller resource status'' MAX_RESOURCE_VALUE_BYTES]"
    by (simp add: validateJsonSize_def)
  have rows: "status_rows (''c'', ''k'') 5 sj None t (claimed_db 1) = (Inl (ResourceConflict ''c'' ''k''), claimed_db 1)" for sj t
    using status_rows_stale[OF stale_row(1)] stale_row(2) by simp
  show ?thesis
    by (simp only: updateStatus_def guarded_pass[OF now] with_result_def stale_column sum.case option.case append_Nil2
        guarded_pass[OF size] rows)
qed

lemma sample_stale: "\<exists>w'. finishSuccessfulClaim sample_claim stale_resource (Settled None) ''i'' 1000 (sample_world (claimed_db 1) [] 0) = (Inr (), w')"
proof -
  have wf: "wf_js (JObj [(''reconcileId'', JStr ''i'')])" by simp
  have fit: "utf8_length ''{\"reconcileId\":\"i\"}'' \<le> MAX_EVENT_BYTES" "name_pattern ''reconcile_conflict''"
    by (simp_all add: utf8_length_def MAX_EVENT_BYTES_def name_pattern_def char_class_defs)
  obtain d1 where d1: "recordManagerEvent (''c'', ''k'') ''reconcile_conflict'' (JObj [(''reconcileId'', JStr ''i'')])
      (sample_world (claimed_db 1) [] 2) = (Inr (), sample_world d1 [] (2 + 2))"
    by (rule sample_event[OF wf conflict_column fit sample_feed])
  obtain b d2 where d2: "requeueClaim sample_claim ''1970-01-01T00:00:01.000Z'' None d1 = (Inr b, d2)"
    using sample_requeue[of "''1970-01-01T00:00:01.000Z''" None d1] by (auto simp: sample_times)
  have "finishSuccessfulClaim sample_claim stale_resource (Settled None) ''i'' 1000 (sample_world (claimed_db 1) [] 0) =
      (Inr (), sample_world d2 [] 5)"
    using d1 d2
    by (simp del: One_nat_def add: finishSuccessfulClaim_def and_then_def sample_calls sample_ref lift_store_def iso_at_def sample_iso_times
        with_result_def stale_status try_then_def publishResult_def result_finalizers_def stale_update afterPublish_def return_op_def
        stale_resource_def[THEN arg_cong[of _ _ res_version], simplified])
  then show ?thesis by blast
qed

theorem stale_result_is_dropped_witness:
  "\<exists>w' q. finishSuccessfulClaim sample_claim stale_resource (Settled None) ''i'' 1000 (sample_world (claimed_db 1) [] 0) = (Inr (), w') \<and>
    resources (wd_db w') = resources (claimed_db 1) \<and> queue_row_of (''c'', ''k'') (wd_db w') = Some q \<and> q_token q = None \<and> q_available q \<le> 1000"
proof -
  let ?w = "sample_world (claimed_db 1) [] 0"
  obtain w' where w': "finishSuccessfulClaim sample_claim stale_resource (Settled None) ''i'' 1000 ?w = (Inr (), w')"
    using sample_stale by blast
  have w: "wd_clock ?w n = 1000" "wd_others ?w n = []" for n by (simp_all add: sample_world_def)
  have held: "holds_row sample_claim 6000 0 (wd_db ?w)" using sample_holds(1) by (simp add: sample_calls)
  have row: "resourceRow (c_ref sample_claim) (resource_run (wd_others ?w (wd_tick ?w + 1)) (wd_db ?w)) = Some sample_row"
    using stale_row(1) by (simp del: One_nat_def add: w resource_run_def sample_calls sample_ref)
  have version: "rr_version sample_row \<noteq> res_version stale_resource" by (simp add: sample_row_def stale_resource_def)
  from stale_result_is_dropped[OF held sample_holds(2) row version w(2) w'] show ?thesis
    using w' by (auto simp del: One_nat_def simp: w sample_ref resource_run_def sample_calls)
qed

theorem conditions_merge_by_type_witness:
  "distinct (map cd_type [\<lparr>cd_input = \<lparr>ci_type = ''Ready'', ci_status = IsTrue, ci_reason = ''Ok'', ci_message = None\<rparr>, cd_generation = 1, cd_transition = ''t''\<rparr>]) \<and>
   cd_transition \<lparr>cd_input = \<lparr>ci_type = ''Ready'', ci_status = IsTrue, ci_reason = ''Ok'', ci_message = None\<rparr>, cd_generation = 1, cd_transition = ''t''\<rparr> = ''t''"
proof -
  let ?u = "\<lparr>ci_type = ''Ready'', ci_status = IsTrue, ci_reason = ''Ok'', ci_message = None\<rparr>"
  let ?c = "\<lparr>cd_input = ?u, cd_generation = 1, cd_transition = ''t''\<rparr>"
  have merged: "mergeConditions [] [?u] 1 ''t'' = Inr [?c]" by code_simp
  show ?thesis using conditions_merge_by_type[OF _ merged, of ?c] by simp
qed

theorem concurrency_limits_hold_witness:
  "in_flight \<lparr>pl_active = [(''c'', 1)], pl_flight = [''c'']\<rparr> ''c'' \<le> limitOf (sample_manager\<lparr>mg_lease := 5000\<rparr>) ''c'' \<and>
   activeCount (pl_active \<lparr>pl_active = [(''c'', 1)], pl_flight = [''c'']\<rparr>) ''c'' = in_flight \<lparr>pl_active = [(''c'', 1)], pl_flight = [''c'']\<rparr> ''c''"
proof (rule concurrency_limits_hold)
  let ?m = "sample_manager\<lparr>mg_lease := 5000\<rparr>"
  have "claimNext (eligibleControllers ?m (pl_active \<lparr>pl_active = [], pl_flight = []\<rparr>)) (int (mg_lease ?m)) ''1970-01-01T00:00:01.000Z'' ''t'' sample_db =
      (Inr (Some sample_claim), claimed_db 1)"
    using sample_claimed by (simp add: eligibleControllers_def obj_keys_def sample_manager_def activeCount_def option_or_def limitOf_def)
  from pool_step.claim[OF this] have "pool_step ?m \<lparr>pl_active = [], pl_flight = []\<rparr> \<lparr>pl_active = [(''c'', 1)], pl_flight = [''c'']\<rparr>"
    by (simp add: enterClaim_def activeCount_def option_or_def obj_put_def sample_claim_def)
  then show "(pool_step ?m)\<^sup>*\<^sup>* \<lparr>pl_active = [], pl_flight = []\<rparr> \<lparr>pl_active = [(''c'', 1)], pl_flight = [''c'']\<rparr>" by blast
qed

end
