(* ===== verification/Spec2Isabelle.thy ===== *)
theory Spec2Isabelle
  imports ResourceLaws RunLease EventStore Effects ChildWorkflows IntentDelivery Notifications EngineLaws CompiledGraph ScopedContext ArtifactLaws UpdateLaws BundleInterrupt DecisionLaws ReconcileLaws
begin

text \<open>
  A verification library for omp-workflows: the workflow engine, its run bundles and the controller
  store under src/src.

  \<^bold>\<open>The program and its parts.\<close>  A workflow is a graph of nodes with switch edges, possibly
  assembled from included workflows.  The engine runs one workflow: it dispatches a node, awaits its
  answer, records the attempt, routes on, and writes a snapshot of the run state after every step.
  The run store keeps one directory per run: an append-only trace and projections (state, manifest)
  that are replaced atomically.  The controller store is one SQLite database shared by processes: it
  holds resources with a work queue of claims under leases, external effects, child workflow
  requests, the queue of workflow runs, turn intents, notifications and two event feeds.  Engine and
  hosts meet in the run queue (a host claims a run, the engine checks the fence before it writes)
  and in the run bundle (a new host resumes what the bundle says); a controller starts child
  workflows through requests that the scheduler turns into runs, and the end of the child wakes the
  parent through the work queue.

  \<^bold>\<open>Theories, in dependency order.\<close>

  \<^item> Prelude: results, tables with the SQL statements the store issues (\<open>sql_get\<close>, \<open>sql_all\<close>,
    \<open>sql_update\<close>, \<open>sql_delete\<close>), JavaScript objects as association lists.  JsString, JsTime, Json,
    JsonRoundtrip: what the sources use of JavaScript strings, \<open>Date\<close> and \<open>JSON\<close>, and
    src/controllers/json.ts (\<open>normalizeJson\<close>, \<open>canonicalJson\<close>, \<open>jsonFingerprint\<close>, \<open>parseStoredJson\<close>)
    with the round trip of canonical texts.
  \<^item> StoreSchema: the tables, errors and validators of src/controllers/sqlite.ts, a row record per row
    type; an operation is a function from the store to its result and the store it leaves, and a
    transaction that throws leaves the store as it was.  The combinators carry the laws
    \<open>keeps\<close>/\<open>preserves\<close>, so an invariant is proved once per statement.
  \<^item> Lease: the locale of claim tables (\<open>lease_table\<close>), interpreted on the work queue (WorkQueue), the
    run queue (RunLease), turn intents (IntentDelivery) and notifications (Notifications); each gets
    exclusive delivery from it.
  \<^item> ResourceStore, WorkQueue, ResourceLaws: resources and the work queue (\<open>putResource\<close> to
    \<open>listQueue\<close>); versions, compare-and-swap, deletion with its cascade, leases, no lost wakeup.
  \<^item> RunQueue, RunLifecycle, RunLease: the queue of workflow runs (\<open>reserveWorkflowRun\<close> to
    \<open>claimLegacyWorkflowSourceRun\<close>); life cycle, fencing, one live claim per
    run, liveness of lapsed runs.
  \<^item> EventStore, Effects, ChildWorkflows, TurnIntents, IntentDelivery, Notifications: the remaining
    tables of the store, with the services of src/controllers/effects.ts, workflows.ts and
    workflow-engine-scheduler.ts.  An ensured effect logs the calls it makes, so what is called is
    known of passes that throw as well.
  \<^item> Conditions, ControllerManager, ManagerLaws, ReconcileLaws: src/controllers/conditions.ts, results.ts
    and manager.ts.  A claim runs in a world in which other processes act between any two store calls;
    it is always given up, failures are retried within bounds, and outdated results are dropped.
  \<^item> WorkflowShape: the definitions of workflows, authored and compiled, and the shape check of
    src/workflows/schema.ts.  WorkflowGraph: src/workflows/graph.ts, the validation (shape check of
    the compiled graph included) proved equivalent to a graph property by reflexive transitive
    closure.  AuthoredWorkflow, Composition, CompiledShape, CompiledGraph, ScopedContext: the include
    compiler and projected context of src/workflows/composition.ts; what compiles keeps the shape
    (CompiledShape) and refines the authored workflow to a sound graph (CompiledGraph).
  \<^item> Engine, EngineRuns, EngineLaws: src/workflows/engine.ts as a machine whose program counter names
    the await the engine stands at; an event settles that await or is a call of \<open>cancel\<close>, \<open>park\<close>,
    \<open>pause\<close> or \<open>resume\<close>.  Every event is allowed at every await, so the properties hold for every
    interleaving of the operator with the run; a crash is a prefix of the trace of snapshots.  A hold
    at a pause is a promise that only the calls that resolve \<open>wakePause\<close> settle; the hook
    \<open>onRunStarted\<close> is an await of its own, and \<open>en_meta\<close> is what the node in flight has put into its
    metadata, which an aborted attempt keeps.  EngineLaws bounds the awaits of a cancelled run
    (\<open>settlements\<close>, at most twelve in every schedule) and says for every await what a crash leaves.
  \<^item> Artifacts, ArtifactLaws: src/workflows/artifacts.ts.  Updates, UpdateLaws:
    src/workflows/updates.ts.
  \<^item> BundleShapes, RunBundle, BundleText, BundleLaws, BundleRefinement, BundleInterrupt:
    src/workflows/store.ts.  A disk maps paths to files.  The abstract specification is a journal of
    committed events (BundleLaws).  The acts on a created bundle are snapshots, published updates,
    session bindings, resumes and deaths: between acts, inside a snapshot or a binding, after any
    part of a trace line, or before the manifest; each refines a step of the journal
    (BundleRefinement).  A death while the bundle is created leaves no manifest and is left out;
    \<open>markRunInterrupted\<close> is treated apart (BundleInterrupt): it ends a run whose trace is whole, and
    loses its event after a torn line.

  \<^item> DecisionPresentation, PresentationLaws: src/workflows/decision-presentation.ts; which
    values can be presented.  WriteOnce,
    HumanDecision, DecisionLaws: src/workflows/human-decision.ts as programs over files that are
    written once; the locale \<open>write_once\<close> carries an invariant through every interleaving of such
    programs, and its interpretation on the decision files gives one outcome per decision.  The
    field list the creator of a request digests (\<open>creation_basis\<close>) and the one its readers rebuild
    (\<open>request_basis\<close>) are separate definitions.

  \<^bold>\<open>Bounds and fuel.\<close>  The JSON parser runs on fuel twice the length of the text plus two, which the
  round-trip lemmas show to be enough for every printed text.  The include compiler recurses along a
  path of distinct workflows and needs no fuel.  Integers are unbounded where the source keeps them
  below \<open>MAX_SAFE_INTEGER\<close>, and the checks of the source on that bound are part of the model; dates
  outside the range of \<open>toISOString\<close> are an error value.

  \<^bold>\<open>Modelling choices.\<close>  Strings are lists of code units below 256; numbers in JSON are their canonical
  decimal texts.  Rows that tie in an \<open>ORDER BY\<close> keep their insertion order.  \<open>Date.parse\<close> covers the
  ECMAScript format only.  The clock, random identifiers, hashes, locale order and file digests are
  arguments.  Callbacks of a workflow are opaque: what a node answers is part of the event.  In run
  bundles the layout of printed JSON is left out and writes do not fail except by a crash; the
  admission of updates and the backoff of the manager use exact instead of floating-point arithmetic.
  Characters beyond the range, such as the ellipsis, have stand-ins.

  \<^bold>\<open>Not modelled.\<close>  Of the engine: the text of prompts, heartbeats, published updates and the run
  title.  Of the run store: the capture of session files, the definition snapshot writer and the
  listings.  Of the manager: start, stop and the worker loops, whose effects on a claim are among its
  pulses.  Loading of modules, child processes, the host application's extension interface, the
  built-in workflows (prompts and command lines), the decision channels (HTTP clients) and the
  terminal viewer are input and output or third-party interfaces.
\<close>

end
